(* ===== verification/Go_Prelude.thy ===== *)
theory Go_Prelude
  imports Main "HOL-Library.Word"
begin

text \<open>
  Shared vocabulary of the development: Go's byte strings, the functions of the Go standard
  library that the modelled packages call on them, the result type that replaces Go's
  \<open>(value, error)\<close> pairs, and the generic lemmas every component uses.

  A Go \<open>string\<close> or \<open>[]byte\<close> is a sequence of bytes, which is what HOL's \<^typ>\<open>string\<close> is: a
  \<^typ>\<open>char\<close> is one byte. \<open>byte c\<close> reads its value. The functions below follow the documented
  behaviour of the packages strings, strconv and net of the standard library.
\<close>

named_theorems go_simps \<open>rewrite rules for the modelled standard library\<close>
named_theorems go_dests \<open>destruction rules for successful results\<close>

section \<open>Results\<close>

text \<open>A fallible Go function returns \<open>'e + 'a\<close>: \<open>Inl\<close> an error, \<open>Inr\<close> the value.\<close>

definition bindR :: "'e + 'a \<Rightarrow> ('a \<Rightarrow> 'e + 'b) \<Rightarrow> 'e + 'b" where
  "bindR r f = (case r of Inl e \<Rightarrow> Inl e | Inr x \<Rightarrow> f x)"

lemma bindR_simps [simp]:
  "bindR (Inl e) f = Inl e"
  "bindR (Inr x) f = f x"
  by (simp_all add: bindR_def)

lemma bindR_Inr_iff [simp]: "bindR r f = Inr y \<longleftrightarrow> (\<exists>x. r = Inr x \<and> f x = Inr y)"
  by (cases r) auto

lemma bindR_Inl_iff: "bindR r f = Inl e \<longleftrightarrow> r = Inl e \<or> (\<exists>x. r = Inr x \<and> f x = Inl e)"
  by (cases r) auto

definition failed :: "'e + 'a \<Rightarrow> bool" where
  "failed r = (case r of Inl _ \<Rightarrow> True | Inr _ \<Rightarrow> False)"

lemma failed_simps [simp]: "failed (Inl e)" "\<not> failed (Inr x)"
  by (simp_all add: failed_def)

lemma not_failed_iff: "\<not> failed r \<longleftrightarrow> (\<exists>x. r = Inr x)"
  by (cases r) auto

text \<open>A loop that returns the first error of a list of checks.\<close>

fun eachR :: "('a \<Rightarrow> 'e + unit) \<Rightarrow> 'a list \<Rightarrow> 'e + unit" where
  "eachR f [] = Inr ()"
| "eachR f (x # xs) = bindR (f x) (\<lambda>_. eachR f xs)"

lemma eachR_Inr_iff [simp]: "eachR f xs = Inr u \<longleftrightarrow> (\<forall>x\<in>set xs. f x = Inr ())"
  by (induction xs) auto

lemma eachR_Inl: "eachR f xs = Inl e \<Longrightarrow> \<exists>x\<in>set xs. f x = Inl e"
  by (induction xs) (auto simp: bindR_Inl_iff)

section \<open>Bytes\<close>

abbreviation byte :: "char \<Rightarrow> nat" where
  "byte c \<equiv> of_char c"

definition is_lower :: "char \<Rightarrow> bool" where "is_lower c \<longleftrightarrow> 97 \<le> byte c \<and> byte c \<le> 122"
definition is_upper :: "char \<Rightarrow> bool" where "is_upper c \<longleftrightarrow> 65 \<le> byte c \<and> byte c \<le> 90"
definition is_digit :: "char \<Rightarrow> bool" where "is_digit c \<longleftrightarrow> 48 \<le> byte c \<and> byte c \<le> 57"

lemmas byte_class_defs = is_lower_def is_upper_def is_digit_def

lemma byte_less [simp]: "byte c < 256"
  by (metis of_char_def of_char_of nat_of_char_less_256)

text \<open>ASCII lower case of one byte and of a string: \<open>strings.ToLower\<close> on ASCII strings.\<close>

definition lower_char :: "char \<Rightarrow> char" where
  "lower_char c = (if is_upper c then char_of (byte c + 32) else c)"

abbreviation lower :: "string \<Rightarrow> string" where
  "lower s \<equiv> map lower_char s"

definition upper_char :: "char \<Rightarrow> char" where
  "upper_char c = (if is_lower c then char_of (byte c - 32) else c)"

lemma byte_char_of [simp]: "n < 256 \<Longrightarrow> byte (char_of n) = n"
  by simp

lemma byte_lower_char: "byte (lower_char c) = (if is_upper c then byte c + 32 else byte c)"
  by (auto simp: lower_char_def is_upper_def)

lemma byte_inject: "byte c = byte d \<longleftrightarrow> c = d"
  by simp

lemma lower_char_not_upper [simp]: "\<not> is_upper (lower_char c)"
  unfolding is_upper_def byte_lower_char by (auto simp: is_upper_def)

lemma lower_char_id: "\<not> is_upper c \<Longrightarrow> lower_char c = c"
  by (simp add: lower_char_def)

lemma lower_char_idem [simp]: "lower_char (lower_char c) = lower_char c"
  by (simp add: lower_char_id)

lemma lower_idem [simp]: "lower (lower s) = lower s"
  by simp

lemma nibble: "v < 16 \<Longrightarrow> (a * 16 + v) div 16 = a" "v < 16 \<Longrightarrow> (a * 16 + v) mod 16 = (v :: nat)"
  by simp_all

section \<open>Package strings\<close>

definition has_prefix :: "string \<Rightarrow> string \<Rightarrow> bool" where
  "has_prefix s p \<longleftrightarrow> take (length p) s = p"

definition has_suffix :: "string \<Rightarrow> string \<Rightarrow> bool" where
  "has_suffix s p \<longleftrightarrow> length p \<le> length s \<and> drop (length s - length p) s = p"

definition cut_prefix :: "string \<Rightarrow> string \<Rightarrow> string option" where
  "cut_prefix s p = (if has_prefix s p then Some (drop (length p) s) else None)"

definition cut_suffix :: "string \<Rightarrow> string \<Rightarrow> string option" where
  "cut_suffix s p = (if has_suffix s p then Some (take (length s - length p) s) else None)"

definition trim_prefix :: "string \<Rightarrow> string \<Rightarrow> string" where
  "trim_prefix s p = (if has_prefix s p then drop (length p) s else s)"

definition trim_suffix :: "string \<Rightarrow> string \<Rightarrow> string" where
  "trim_suffix s p = (case cut_suffix s p of None \<Rightarrow> s | Some r \<Rightarrow> r)"

text \<open>\<open>strings.Cut\<close> at a one-byte separator: before, after, found.\<close>

definition cut :: "char \<Rightarrow> string \<Rightarrow> string \<times> string \<times> bool" where
  "cut c s = (takeWhile (\<lambda>x. x \<noteq> c) s, drop 1 (dropWhile (\<lambda>x. x \<noteq> c) s), c \<in> set s)"

text \<open>\<open>strings.TrimSpace\<close> and \<open>bytes.TrimSpace\<close> of texts whose first and last runes are ASCII.\<close>

definition is_space :: "char \<Rightarrow> bool" where
  "is_space c \<longleftrightarrow> c = CHR '' '' \<or> (9 \<le> byte c \<and> byte c \<le> 13)"

definition trim_space :: "string \<Rightarrow> string" where
  "trim_space s = rev (dropWhile is_space (rev (dropWhile is_space s)))"

text \<open>\<open>strings.Split\<close> at a one-byte separator: never the empty list.\<close>

fun split :: "char \<Rightarrow> string \<Rightarrow> string list" where
  "split c [] = [[]]"
| "split c (x # xs) =
     (if x = c then [] # split c xs
      else (case split c xs of [] \<Rightarrow> [[x]] | y # ys \<Rightarrow> (x # y) # ys))"

fun join :: "string \<Rightarrow> string list \<Rightarrow> string" where
  "join sep [] = []"
| "join sep [x] = x"
| "join sep (x # y # zs) = x @ sep @ join sep (y # zs)"

fun contains :: "string \<Rightarrow> string \<Rightarrow> bool" where
  "contains [] p \<longleftrightarrow> p = []"
| "contains (x # xs) p \<longleftrightarrow> has_prefix (x # xs) p \<or> contains xs p"

text \<open>\<open>strings.ContainsAny\<close> with an ASCII set, and \<open>strings.IndexByte\<close> as an option.\<close>

definition contains_any :: "string \<Rightarrow> string \<Rightarrow> bool" where
  "contains_any s cs \<longleftrightarrow> (\<exists>c\<in>set s. c \<in> set cs)"

fun index_byte :: "string \<Rightarrow> char \<Rightarrow> nat option" where
  "index_byte [] c = None"
| "index_byte (x # xs) c = (if x = c then Some 0 else map_option Suc (index_byte xs c))"

definition last_index_byte :: "string \<Rightarrow> char \<Rightarrow> nat option" where
  "last_index_byte s c = map_option (\<lambda>i. length s - Suc i) (index_byte (rev s) c)"

text \<open>
  \<open>strings.EqualFold\<close> when at least one of the two strings is ASCII (every call of the modelled
  code). The only runes outside ASCII whose simple case folding is an ASCII letter are the Kelvin
  sign U+212A (bytes E2 84 AA, folds to k) and the long s U+017F (bytes C5 BF, folds to s).
\<close>

fun fold_case :: "string \<Rightarrow> string" where
  "fold_case [] = []"
| "fold_case (a # b # c # xs) =
     (if byte a = 0xE2 \<and> byte b = 0x84 \<and> byte c = 0xAA then CHR ''k'' # fold_case xs
      else if byte a = 0xC5 \<and> byte b = 0xBF then CHR ''s'' # fold_case (c # xs)
      else lower_char a # fold_case (b # c # xs))"
| "fold_case (a # b # xs) =
     (if byte a = 0xC5 \<and> byte b = 0xBF then CHR ''s'' # fold_case xs
      else lower_char a # fold_case (b # xs))"
| "fold_case (a # xs) = lower_char a # fold_case xs"

definition equal_fold :: "string \<Rightarrow> string \<Rightarrow> bool" where
  "equal_fold s t \<longleftrightarrow> fold_case s = fold_case t"

lemma has_prefix_iff: "has_prefix s p \<longleftrightarrow> (\<exists>r. s = p @ r)"
  by (metis append_take_drop_id append_eq_conv_conj has_prefix_def)

lemma has_prefix_append [simp]: "has_prefix (p @ r) p"
  by (auto simp: has_prefix_iff)

lemma has_suffix_iff: "has_suffix s p \<longleftrightarrow> (\<exists>r. s = r @ p)"
proof
  assume "has_suffix s p"
  then have "take (length s - length p) s @ p = s"
    by (metis append_take_drop_id has_suffix_def)
  then show "\<exists>r. s = r @ p" by metis
qed (auto simp: has_suffix_def)

lemma cut_prefix_Some_iff [simp]: "cut_prefix s p = Some r \<longleftrightarrow> s = p @ r"
  by (auto simp: cut_prefix_def has_prefix_iff)

lemma cut_suffix_Some_iff [simp]: "cut_suffix s p = Some r \<longleftrightarrow> s = r @ p"
  by (auto simp: cut_suffix_def has_suffix_iff)

lemma cut_append [simp]: "cut_prefix (p @ r) p = Some r" "cut_suffix (r @ p) p = Some r"
  by simp_all

lemma trim_suffix_append: "trim_suffix (p @ q) q = p"
  by (simp add: trim_suffix_def)

lemma trim_suffix_id: "\<not> has_suffix s q \<Longrightarrow> trim_suffix s q = s"
  by (auto simp: trim_suffix_def has_suffix_iff split: option.splits)

lemma trim_suffix_length: "length s \<le> length (trim_suffix s q) + length q"
  by (auto simp: trim_suffix_def split: option.splits)

lemma cut_prefix_None_iff: "cut_prefix s p = None \<longleftrightarrow> \<not> has_prefix s p"
  by (simp add: cut_prefix_def)

lemma cut_found_iff: "cut c s = (a, b, True) \<longleftrightarrow> s = a @ c # b \<and> c \<notin> set a"
proof -
  have "s = takeWhile (\<lambda>x. x \<noteq> c) s @ c # drop 1 (dropWhile (\<lambda>x. x \<noteq> c) s)" if "c \<in> set s"
    using that by (metis (mono_tags, lifting) One_nat_def Cons_nth_drop_Suc dropWhile_eq_drop drop_0
        drop_Suc_Cons dropWhile_eq_Nil_conv hd_dropWhile list.collapse takeWhile_dropWhile_id)
  then show ?thesis
    unfolding cut_def by (auto simp: takeWhile_append dest: set_takeWhileD)
qed

lemma cut_not_found_iff: "cut c s = (a, b, False) \<longleftrightarrow> c \<notin> set s \<and> a = s \<and> b = []"
proof (cases "c \<in> set s")
  case False
  then have t: "takeWhile (\<lambda>x. x \<noteq> c) s = s" and d: "dropWhile (\<lambda>x. x \<noteq> c) s = []"
    by (auto simp: takeWhile_eq_all_conv)
  from False show ?thesis unfolding cut_def t d by auto
qed (simp add: cut_def)

lemma append_sep_inject:
  fixes c :: char
  shows "c \<notin> set a \<Longrightarrow> c \<notin> set b \<Longrightarrow> a @ c # x = b @ c # y \<Longrightarrow> a = b \<and> x = y"
  using cut_found_iff [of c "a @ c # x" a x] cut_found_iff [of c "b @ c # y" b y] by simp

lemma split_not_Nil [simp]: "split c s \<noteq> []"
  by (cases s) (auto split: list.splits)

lemma split_no_sep: "p \<in> set (split c s) \<Longrightarrow> c \<notin> set p"
  by (induction s arbitrary: p) (auto split: if_splits list.splits)

lemma join_Cons: "ps \<noteq> [] \<Longrightarrow> join sep (p # ps) = p @ sep @ join sep ps"
  by (cases ps) auto

lemma join_split [simp]: "join [c] (split c s) = s"
proof (induction s)
  case (Cons x xs)
  obtain y ys where "split c xs = y # ys" by (metis split_not_Nil list.exhaust)
  with Cons show ?case by (cases ys) (auto simp: join_Cons)
qed simp

lemma split_none: "c \<notin> set s \<Longrightarrow> split c s = [s]"
  by (induction s) auto

lemma split_append: "c \<notin> set p \<Longrightarrow> split c (p @ c # s) = p # split c s"
  by (induction p) auto

lemma split_join: "ps \<noteq> [] \<Longrightarrow> \<forall>p\<in>set ps. c \<notin> set p \<Longrightarrow> split c (join [c] ps) = ps"
proof (induction ps)
  case (Cons p ps)
  then show ?case by (cases ps) (auto simp: split_none split_append)
qed simp

lemma split_eq_iff: "split c s = ps \<longleftrightarrow> ps \<noteq> [] \<and> (\<forall>p\<in>set ps. c \<notin> set p) \<and> s = join [c] ps"
  by (metis join_split split_join split_no_sep split_not_Nil)

lemma set_split: "p \<in> set (split c s) \<Longrightarrow> set p \<subseteq> set s"
  by (induction s arbitrary: p) (fastforce split: if_splits list.splits)+

lemma set_subset_split: "set s \<subseteq> \<Union> (set ` set (split c s)) \<union> {c}"
proof (induction s)
  case (Cons x xs)
  obtain y ys where "split c xs = y # ys" by (metis split_not_Nil list.exhaust)
  with Cons show ?case by (cases "x = c") auto
qed simp

lemma index_byte_Some: "index_byte s c = Some i \<Longrightarrow> i < length s \<and> s ! i = c \<and> c \<notin> set (take i s)"
  by (induction s arbitrary: i) (auto split: if_splits)

lemma index_byte_None [simp]: "index_byte s c = None \<longleftrightarrow> c \<notin> set s"
  by (induction s) auto

lemma index_byte_append: "c \<notin> set a \<Longrightarrow> index_byte (a @ c # b) c = Some (length a)"
  by (induction a) auto

lemma last_index_byte_append: "c \<notin> set b \<Longrightarrow> last_index_byte (a @ c # b) c = Some (length a)"
  using index_byte_append [of c "rev b" "rev a"] by (simp add: last_index_byte_def)

lemma last_index_byte_None [simp]: "last_index_byte s c = None \<longleftrightarrow> c \<notin> set s"
  by (simp add: last_index_byte_def)

lemma last_index_byte_Some:
  assumes "last_index_byte s c = Some i"
  shows "s = take i s @ c # drop (i + 1) s \<and> c \<notin> set (drop (i + 1) s) \<and> i < length s"
proof -
  have "c \<in> set s" using assms by (metis last_index_byte_None option.distinct(1))
  then obtain a b where s: "s = a @ c # b" "c \<notin> set b" by (metis split_list_last)
  then have "i = length a" using assms last_index_byte_append [of c b a] by simp
  with s show ?thesis by simp
qed

lemma fold_case_ascii: "\<forall>c\<in>set s. byte c < 128 \<Longrightarrow> fold_case s = lower s"
  by (induction s rule: fold_case.induct) auto

section \<open>Package strconv\<close>

text \<open>\<open>FormatUint\<close> and \<open>Itoa\<close> in base 10, \<open>ParseUint\<close> in base 10 for a width in bits.\<close>

fun format_uint :: "nat \<Rightarrow> string" where
  "format_uint n = (if n < 10 then [char_of (48 + n)] else format_uint (n div 10) @ [char_of (48 + n mod 10)])"

declare format_uint.simps [simp del]

definition dec_value :: "string \<Rightarrow> nat" where
  "dec_value s = foldl (\<lambda>n c. n * 10 + (byte c - 48)) 0 s"

definition parse_uint :: "nat \<Rightarrow> string \<Rightarrow> nat option" where
  "parse_uint w s =
     (if s = [] \<or> \<not> list_all is_digit s then None
      else if dec_value s < 2 ^ w then Some (dec_value s) else None)"

lemma is_digit_char_of [simp]: "n < 10 \<Longrightarrow> is_digit (char_of (48 + n :: nat))"
  by (simp add: is_digit_def)

lemma format_uint_digits: "list_all is_digit (format_uint n)"
proof (induction n rule: format_uint.induct)
  case (1 n)
  then show ?case by (subst format_uint.simps) simp
qed

lemma format_uint_not_Nil [simp]: "format_uint n \<noteq> []"
  by (subst format_uint.simps) simp

lemma dec_value_format_uint [simp]: "dec_value (format_uint n) = n"
proof (induction n rule: format_uint.induct)
  case (1 n)
  then show ?case by (subst format_uint.simps) (simp add: dec_value_def)
qed

lemma parse_format_uint [simp]: "parse_uint w (format_uint n) = (if n < 2 ^ w then Some n else None)"
  by (simp add: parse_uint_def format_uint_digits)

lemma parse_uint_less: "parse_uint w s = Some n \<Longrightarrow> n < 2 ^ w"
  by (auto simp: parse_uint_def split: if_splits)

lemma format_uint_inj: "format_uint m = format_uint n \<longleftrightarrow> m = n"
  by (metis dec_value_format_uint)

lemma format_uint_char: "c \<in> set (format_uint n) \<Longrightarrow> is_digit c"
  using format_uint_digits [of n] by (auto simp: list_all_iff)

section \<open>Interfaces\<close>

text \<open>
  What a strict parser promises about the printer it is the inverse of: it accepts exactly the
  printed form of the well-formed values. Everything a client relies on follows: parsing what was
  printed gives it back, and no two inputs are read as the same value.
\<close>

locale strict_codec =
  fixes enc :: "'a \<Rightarrow> 's"
    and dec :: "'s \<Rightarrow> 'e + 'a"
    and wf :: "'a \<Rightarrow> bool"
  assumes dec_iff: "dec s = Inr a \<longleftrightarrow> wf a \<and> s = enc a"
begin

lemma dec_enc: "wf a \<Longrightarrow> dec (enc a) = Inr a"
  by (simp add: dec_iff)

lemma dec_canonical: "dec s = Inr a \<Longrightarrow> dec t = Inr a \<Longrightarrow> s = t"
  by (simp add: dec_iff)

lemma enc_inj: "wf a \<Longrightarrow> wf b \<Longrightarrow> enc a = enc b \<Longrightarrow> a = b"
  using dec_enc by (metis sum.inject(2))

lemma dec_rejects: "failed (dec s) \<longleftrightarrow> (\<forall>a. wf a \<longrightarrow> s \<noteq> enc a)"
  by (metis dec_iff failed_simps not_failed_iff)

end

text \<open>
  A store of values under names: after a sequence of writes, some of which were not performed, a name reads as the last value stored
  under it, and no write disturbs another name. Kept by the vault (twice) and by the credential files.
\<close>

locale keyed_store =
  fixes inv :: "'s \<Rightarrow> bool"
    and put :: "'e \<Rightarrow> 'k \<Rightarrow> 'v \<Rightarrow> 's \<Rightarrow> 's"
    and stored :: "'e \<Rightarrow> 'k \<Rightarrow> 'v \<Rightarrow> 's \<Rightarrow> bool"
    and get :: "'k \<Rightarrow> 's \<Rightarrow> 'r"
    and ret :: "'v \<Rightarrow> 'r"
  assumes inv_put: "inv s \<Longrightarrow> inv (put e k x s)"
    and get_put: "inv s \<Longrightarrow> stored e k x s \<Longrightarrow> get k (put e k x s) = ret x"
    and get_other: "inv s \<Longrightarrow> k' \<noteq> k \<or> \<not> stored e k x s \<Longrightarrow> get k' (put e k x s) = get k' s"
begin

fun puts :: "('e \<times> 'k \<times> 'v) list \<Rightarrow> 's \<Rightarrow> 's" where
  "puts [] s = s"
| "puts ((e, k, x) # xs) s = puts xs (put e k x s)"

fun last_stored :: "('e \<times> 'k \<times> 'v) list \<Rightarrow> 'k \<Rightarrow> 's \<Rightarrow> 'v option" where
  "last_stored [] k s = None"
| "last_stored ((e, k', x) # xs) k s =
     (case last_stored xs k (put e k' x s) of
        Some y \<Rightarrow> Some y
      | None \<Rightarrow> if k' = k \<and> stored e k' x s then Some x else None)"

lemma inv_puts: "inv s \<Longrightarrow> inv (puts xs s)"
  by (induction xs s rule: puts.induct) (simp_all add: inv_put)

lemma get_puts: "inv s \<Longrightarrow> get k (puts xs s) = (case last_stored xs k s of Some x \<Rightarrow> ret x | None \<Rightarrow> get k s)"
proof (induction xs s rule: puts.induct)
  case (2 e k' x xs s)
  have "inv (put e k' x s)" using 2 by (simp add: inv_put)
  moreover have "get k (put e k' x s) = (if k' = k \<and> stored e k' x s then ret x else get k s)"
    using 2(2) get_put get_other by metis
  ultimately show ?case using 2(1) by (cases "k' = k"; cases "stored e k' x s") (simp_all split: option.split)
qed simp

end

end
