(* ===== verification/Git_Route.thy ===== *)
theory Git_Route
  imports Go_Prelude
begin

text \<open>
  The route and reference policy of the git relay (package egress/git: error.go, repo.go, route.go,
  policy.go, authorized.go). The cage's git client is hostile: its request line is parsed against a
  strict grammar, the repository has to be the one the session was given, and every reference it
  pushes has to lie in the session's own namespace.

  The model keeps the reject code of an error (\<open>Error.Code\<close>) and leaves out the text of its message.
\<close>

section \<open>Errors\<close>

datatype git_code =
    CodeBadRoute | CodeBadPacket | CodeTruncated | CodeTooLarge | CodeTooManyCmds
  | CodeBadCommand | CodeBadCapability | CodePushOptions | CodeShallow | CodePushCert
  | CodeTrailingData | CodeDelete | CodeRefNotAllowed | CodeRepoNotAllowed

fun git_code_string :: "git_code \<Rightarrow> string" where
  "git_code_string CodeBadRoute = ''bad-route''"
| "git_code_string CodeBadPacket = ''bad-packet''"
| "git_code_string CodeTruncated = ''truncated''"
| "git_code_string CodeTooLarge = ''too-large''"
| "git_code_string CodeTooManyCmds = ''too-many-commands''"
| "git_code_string CodeBadCommand = ''bad-command''"
| "git_code_string CodeBadCapability = ''bad-capability''"
| "git_code_string CodePushOptions = ''push-options''"
| "git_code_string CodeShallow = ''shallow''"
| "git_code_string CodePushCert = ''push-cert''"
| "git_code_string CodeTrailingData = ''trailing-data''"
| "git_code_string CodeDelete = ''delete''"
| "git_code_string CodeRefNotAllowed = ''ref-not-allowed''"
| "git_code_string CodeRepoNotAllowed = ''repo-not-allowed''"

text \<open>
  How reading a request body can fail besides its end: the size limit that
  \<open>http.MaxBytesReader\<close> puts on it, or anything else (a timeout, a reset connection).
\<close>

datatype io_err = MaxBytesError | OtherIoError

text \<open>A rejected request (\<open>*git.Error\<close>) or a failed read, which is passed on as it is.\<close>

datatype git_err = GitError git_code | GitIo io_err

fun git_Reason :: "git_err \<Rightarrow> string" where
  "git_Reason (GitError c) = git_code_string c"
| "git_Reason (GitIo e) = []"

section \<open>Repositories\<close>

record repo =
  Owner :: string
  Name :: string

definition isAlnum :: "char \<Rightarrow> bool" where
  "isAlnum c \<longleftrightarrow> is_lower c \<or> is_upper c \<or> is_digit c"

definition validOwner :: "string \<Rightarrow> bool" where
  "validOwner s \<longleftrightarrow>
     \<not> (length s = 0 \<or> length s > 39 \<or> hd s = CHR ''-'' \<or> last s = CHR ''-'') \<and>
     (\<forall>c\<in>set s. isAlnum c \<or> c = CHR ''-'')"

definition validRepoName :: "string \<Rightarrow> bool" where
  "validRepoName s \<longleftrightarrow>
     \<not> (length s = 0 \<or> length s > 100 \<or> s = ''.'' \<or> s = ''..'' \<or> has_suffix (lower s) ''.git'') \<and>
     (\<forall>c\<in>set s. isAlnum c \<or> c = CHR ''.'' \<or> c = CHR ''_'' \<or> c = CHR ''-'')"

definition ParseRepo :: "string \<Rightarrow> git_err + repo" where
  "ParseRepo s =
     (case cut (CHR ''/'') s of (owner, name, ok) \<Rightarrow>
        if \<not> ok \<or> \<not> validOwner owner \<or> \<not> validRepoName name then Inl (GitError CodeBadRoute)
        else Inr \<lparr>Owner = owner, Name = name\<rparr>)"

definition Repo_String :: "repo \<Rightarrow> string" where
  "Repo_String r = Owner r @ ''/'' @ Name r"

definition CloneURL :: "repo \<Rightarrow> string" where
  "CloneURL r = ''https://github.com/'' @ Owner r @ ''/'' @ Name r @ ''.git''"

definition Repo_Equal :: "repo \<Rightarrow> repo \<Rightarrow> bool" where
  "Repo_Equal r q \<longleftrightarrow> equal_fold (Owner r) (Owner q) \<and> equal_fold (Name r) (Name q)"

section \<open>Routes\<close>

definition PathPrefix :: string where
  "PathPrefix = ''/git/github.com/''"

datatype op = OpAdvertiseUpload | OpAdvertiseReceive | OpUploadPack | OpReceivePack

fun Op_String :: "op \<Rightarrow> string" where
  "Op_String OpAdvertiseUpload = ''advertise-upload-pack''"
| "Op_String OpAdvertiseReceive = ''advertise-receive-pack''"
| "Op_String OpUploadPack = ''upload-pack''"
| "Op_String OpReceivePack = ''receive-pack''"

definition Op_Writes :: "op \<Rightarrow> bool" where
  "Op_Writes o' \<longleftrightarrow> o' = OpAdvertiseReceive \<or> o' = OpReceivePack"

fun Op_RequestType :: "op \<Rightarrow> string" where
  "Op_RequestType OpUploadPack = ''application/x-git-upload-pack-request''"
| "Op_RequestType OpReceivePack = ''application/x-git-receive-pack-request''"
| "Op_RequestType _ = []"

record route =
  rt_Repo :: repo
  rt_Op :: op

fun upstream_tail :: "op \<Rightarrow> string" where
  "upstream_tail OpAdvertiseUpload = ''info/refs?service=git-upload-pack''"
| "upstream_tail OpAdvertiseReceive = ''info/refs?service=git-receive-pack''"
| "upstream_tail OpUploadPack = ''git-upload-pack''"
| "upstream_tail OpReceivePack = ''git-receive-pack''"

definition Upstream :: "route \<Rightarrow> string" where
  "Upstream r =
     ''/'' @ lower (Owner (rt_Repo r)) @ ''/'' @ lower (Name (rt_Repo r)) @ ''.git/'' @ upstream_tail (rt_Op r)"

definition ParseRoute :: "string \<Rightarrow> string \<Rightarrow> git_err + route" where
  "ParseRoute method target =
     (case cut (CHR ''?'') target of (path, query, hasQuery) \<Rightarrow>
       if \<not> has_prefix path PathPrefix then Inl (GitError CodeBadRoute)
       else let parts = split (CHR ''/'') (drop (length PathPrefix) path) in
       if length parts < 2 then Inl (GitError CodeBadRoute)
       else (case cut_suffix (parts ! 1) ''.git'' of
               None \<Rightarrow> Inl (GitError CodeBadRoute)
             | Some name \<Rightarrow>
                 if \<not> validOwner (parts ! 0) \<or> \<not> validRepoName name then Inl (GitError CodeBadRoute)
                 else let rep = \<lparr>Owner = parts ! 0, Name = name\<rparr>;
                          tail = join ''/'' (drop 2 parts) in
                 if method = ''GET'' \<and> tail = ''info/refs'' then
                   (if query = ''service=git-upload-pack'' then
                      Inr \<lparr>rt_Repo = rep, rt_Op = OpAdvertiseUpload\<rparr>
                    else if query = ''service=git-receive-pack'' then
                      Inr \<lparr>rt_Repo = rep, rt_Op = OpAdvertiseReceive\<rparr>
                    else Inl (GitError CodeBadRoute))
                 else if method = ''POST'' \<and> \<not> hasQuery \<and> tail = ''git-upload-pack'' then
                   Inr \<lparr>rt_Repo = rep, rt_Op = OpUploadPack\<rparr>
                 else if method = ''POST'' \<and> \<not> hasQuery \<and> tail = ''git-receive-pack'' then
                   Inr \<lparr>rt_Repo = rep, rt_Op = OpReceivePack\<rparr>
                 else Inl (GitError CodeBadRoute)))"

section \<open>Policy\<close>

definition maxRefLen :: nat where "maxRefLen = 200"

record policy =
  pol_Repo :: repo
  pol_Session :: string

definition validSegment :: "string \<Rightarrow> bool" where
  "validSegment s \<longleftrightarrow>
     \<not> (s = [] \<or> hd s = CHR ''.'' \<or> last s = CHR ''.'' \<or> has_suffix s ''.lock'' \<or> contains s ''..'') \<and>
     (\<forall>c\<in>set s. isAlnum c \<or> c = CHR ''.'' \<or> c = CHR ''_'' \<or> c = CHR ''-'')"

definition NewPolicy :: "repo \<Rightarrow> string \<Rightarrow> git_err + policy" where
  "NewPolicy r session =
     (if \<not> validOwner (Owner r) \<or> \<not> validRepoName (Name r) then Inl (GitError CodeBadRoute)
      else if length session > 64 \<or> \<not> validSegment session then Inl (GitError CodeRefNotAllowed)
      else Inr \<lparr>pol_Repo = r, pol_Session = session\<rparr>)"

definition Policy_Prefix :: "policy \<Rightarrow> string" where
  "Policy_Prefix p = ''refs/heads/goronation/'' @ pol_Session p @ ''/''"

definition CheckRepo :: "policy \<Rightarrow> repo \<Rightarrow> git_err + unit" where
  "CheckRepo p r = (if \<not> Repo_Equal (pol_Repo p) r then Inl (GitError CodeRepoNotAllowed) else Inr ())"

definition CheckRef :: "policy \<Rightarrow> string \<Rightarrow> git_err + unit" where
  "CheckRef p ref =
     (case cut_prefix ref (Policy_Prefix p) of
        None \<Rightarrow> Inl (GitError CodeRefNotAllowed)
      | Some rest \<Rightarrow>
          if length ref > maxRefLen then Inl (GitError CodeRefNotAllowed)
          else eachR (\<lambda>seg. if \<not> validSegment seg then Inl (GitError CodeRefNotAllowed) else Inr ())
                 (split (CHR ''/'') rest))"

definition CheckBranch :: "policy \<Rightarrow> string \<Rightarrow> git_err + unit" where
  "CheckBranch p name = CheckRef p (''refs/heads/'' @ name)"

definition CheckBranchName :: "string \<Rightarrow> git_err + unit" where
  "CheckBranchName name =
     (if name = [] \<or> length name > maxRefLen \<or> hd name = CHR ''-'' then Inl (GitError CodeRefNotAllowed)
      else eachR (\<lambda>seg. if \<not> validSegment seg then Inl (GitError CodeRefNotAllowed) else Inr ())
             (split (CHR ''/'') name))"

definition AuthorizedRoute :: "policy \<Rightarrow> string \<Rightarrow> string \<Rightarrow> git_err + route" where
  "AuthorizedRoute p method target =
     bindR (ParseRoute method target) (\<lambda>route.
     bindR (CheckRepo p (rt_Repo route)) (\<lambda>_. Inr route))"

section \<open>Lemmas\<close>

text \<open>The one request line of a route: what a git client sends for it.\<close>

fun route_method :: "op \<Rightarrow> string" where
  "route_method OpAdvertiseUpload = ''GET''"
| "route_method OpAdvertiseReceive = ''GET''"
| "route_method OpUploadPack = ''POST''"
| "route_method OpReceivePack = ''POST''"

definition route_target :: "route \<Rightarrow> string" where
  "route_target r =
     PathPrefix @ Owner (rt_Repo r) @ ''/'' @ Name (rt_Repo r) @ ''.git/'' @ upstream_tail (rt_Op r)"

lemma isAlnum_not_special:
  "isAlnum c \<Longrightarrow> c \<noteq> CHR ''/'' \<and> c \<noteq> CHR ''?'' \<and> c \<noteq> CHR '':'' \<and> c \<noteq> CHR ''.'' \<and> c \<noteq> CHR '' '' \<and> byte c < 128"
  by (auto simp: isAlnum_def byte_class_defs)

lemma validOwner_chars:
  "validOwner s \<Longrightarrow> c \<in> set s \<Longrightarrow>
   c \<noteq> CHR ''/'' \<and> c \<noteq> CHR ''?'' \<and> c \<noteq> CHR '':'' \<and> c \<noteq> CHR ''.'' \<and> c \<noteq> CHR '' '' \<and> byte c < 128"
  unfolding validOwner_def by (elim conjE) (drule (1) bspec, auto dest: isAlnum_not_special)

lemma validRepoName_chars:
  "validRepoName s \<Longrightarrow> c \<in> set s \<Longrightarrow> c \<noteq> CHR ''/'' \<and> c \<noteq> CHR ''?'' \<and> c \<noteq> CHR '':'' \<and> byte c < 128"
  unfolding validRepoName_def by (elim conjE) (drule (1) bspec, auto dest: isAlnum_not_special)

lemma validSegment_chars:
  "validSegment s \<Longrightarrow> c \<in> set s \<Longrightarrow>
   c \<noteq> CHR ''/'' \<and> c \<noteq> CHR '':'' \<and> c \<noteq> CHR '' '' \<and> 0x21 \<le> byte c \<and> byte c \<le> 0x7e"
  unfolding validSegment_def isAlnum_def byte_class_defs
  by (elim conjE) (drule (1) bspec, auto)

lemma CheckRef_iff:
  "CheckRef p ref = Inr () \<longleftrightarrow>
     length ref \<le> maxRefLen \<and>
     (\<exists>segs. segs \<noteq> [] \<and> list_all validSegment segs \<and> ref = Policy_Prefix p @ join ''/'' segs)"
proof
  assume "CheckRef p ref = Inr ()"
  then show "length ref \<le> maxRefLen \<and>
     (\<exists>segs. segs \<noteq> [] \<and> list_all validSegment segs \<and> ref = Policy_Prefix p @ join ''/'' segs)"
    unfolding CheckRef_def
    by (auto split: option.splits if_splits simp: list_all_iff
        intro!: exI [of _ "split (CHR ''/'') _"])
next
  assume "length ref \<le> maxRefLen \<and>
     (\<exists>segs. segs \<noteq> [] \<and> list_all validSegment segs \<and> ref = Policy_Prefix p @ join ''/'' segs)"
  then obtain segs where s: "segs \<noteq> []" "list_all validSegment segs"
    and ref: "ref = Policy_Prefix p @ join ''/'' segs" and len: "length ref \<le> maxRefLen" by blast
  from s have "split (CHR ''/'') (join ''/'' segs) = segs"
    by (intro split_join) (auto simp: list_all_iff dest: validSegment_chars)
  moreover from ref have "cut_prefix ref (Policy_Prefix p) = Some (join ''/'' segs)" by simp
  ultimately show "CheckRef p ref = Inr ()"
    using s len unfolding CheckRef_def by (auto simp: list_all_iff)
qed

lemma NewPolicy_Inr:
  "NewPolicy r s = Inr p \<Longrightarrow>
   pol_Repo p = r \<and> pol_Session p = s \<and> validOwner (Owner r) \<and> validRepoName (Name r) \<and> validSegment s"
  by (auto simp: NewPolicy_def split: if_splits)

lemma Repo_Equal_lower:
  assumes "Repo_Equal a b" "validOwner (Owner a)" "validRepoName (Name a)"
    "validOwner (Owner b)" "validRepoName (Name b)"
  shows "lower (Owner a) = lower (Owner b) \<and> lower (Name a) = lower (Name b)"
  using assms unfolding Repo_Equal_def equal_fold_def
  by (metis fold_case_ascii validOwner_chars validRepoName_chars)

lemma split_repo_path:
  assumes "validOwner ow" "validRepoName n"
  shows "split (CHR ''/'') (ow @ ''/'' @ n @ ''.git/'' @ t) = ow # (n @ ''.git'') # split (CHR ''/'') t"
proof -
  have "CHR ''/'' \<notin> set ow" "CHR ''/'' \<notin> set (n @ ''.git'')"
    using assms by (auto dest: validOwner_chars validRepoName_chars)
  then show ?thesis
    using split_append [of "CHR ''/''" ow "(n @ ''.git'') @ CHR ''/'' # t"]
      split_append [of "CHR ''/''" "n @ ''.git''" t] by simp
qed

lemma ParseRoute_complete:
  assumes "validOwner (Owner (rt_Repo r))" "validRepoName (Name (rt_Repo r))"
  shows "ParseRoute (route_method (rt_Op r)) (route_target r) = Inr r"
proof -
  define base where "base = PathPrefix @ Owner (rt_Repo r) @ ''/'' @ Name (rt_Repo r) @ ''.git/''"
  have nq: "CHR ''?'' \<notin> set base"
    using assms by (auto simp: base_def PathPrefix_def dest: validOwner_chars validRepoName_chars)
  have cutq: "cut (CHR ''?'') (base @ t @ CHR ''?'' # u) = (base @ t, u, True)"
    if "CHR ''?'' \<notin> set t" for t u
    using nq that by (auto simp: cut_found_iff)
  have cutn: "cut (CHR ''?'') (base @ t) = (base @ t, [], False)" if "CHR ''?'' \<notin> set t" for t
    using nq that by (auto simp: cut_not_found_iff)
  have pre: "has_prefix (base @ t) PathPrefix \<and>
     split (CHR ''/'') (drop (length PathPrefix) (base @ t)) =
       Owner (rt_Repo r) # (Name (rt_Repo r) @ ''.git'') # split (CHR ''/'') t" for t
    using split_repo_path [OF assms, of t] by (simp add: base_def)
  have t: "route_target r = base @ upstream_tail (rt_Op r)"
    by (simp add: route_target_def base_def)
  show ?thesis
    using assms cutq [of "''info/refs''"] cutn [of "upstream_tail (rt_Op r)"]
      pre [of "upstream_tail (rt_Op r)"] pre [of "''info/refs''"]
    by (cases "rt_Op r") (simp_all add: ParseRoute_def t Let_def)
qed

lemma ParseRoute_sound:
  assumes "ParseRoute m t = Inr r"
  shows "validOwner (Owner (rt_Repo r)) \<and> validRepoName (Name (rt_Repo r)) \<and>
         m = route_method (rt_Op r) \<and> t = route_target r"
proof -
  obtain path query q where c: "cut (CHR ''?'') t = (path, query, q)" by (metis prod_cases3)
  define parts where "parts = split (CHR ''/'') (drop (length PathPrefix) path)"
  from assms c obtain n where pre: "has_prefix path PathPrefix" and len: "2 \<le> length parts"
    and n: "parts ! 1 = n @ ''.git''" and v: "validOwner (parts ! 0)" "validRepoName n"
    and r: "rt_Repo r = \<lparr>Owner = parts ! 0, Name = n\<rparr>"
    by (auto simp: ParseRoute_def parts_def Let_def split: option.splits if_splits)
  obtain rest where parts: "parts = parts ! 0 # (n @ ''.git'') # rest"
    using len n by (cases parts; cases "tl parts") auto
  have path: "path = PathPrefix @ join ''/'' parts"
    using pre unfolding parts_def join_split by (auto simp: has_prefix_iff)
  have full: "path = PathPrefix @ parts ! 0 @ ''/'' @ n @ ''.git/'' @ join ''/'' rest" if "rest \<noteq> []"
  proof -
    have "join ''/'' (x # (n @ ''.git'') # rest) = x @ ''/'' @ n @ ''.git/'' @ join ''/'' rest" for x
      using that by (simp add: join_Cons)
    then show ?thesis using path parts by metis
  qed
  have d: "drop 2 parts = rest" using parts by (metis drop0 drop_Suc_Cons numeral_2_eq_2)
  have qq: "query \<noteq> [] \<Longrightarrow> q" "\<not> q \<Longrightarrow> query = []"
    using c by (cases q; simp add: cut_not_found_iff)+
  have "ParseRoute m t =
     (if m = ''GET'' \<and> join ''/'' rest = ''info/refs'' then
        (if query = ''service=git-upload-pack'' then
           Inr \<lparr>rt_Repo = rt_Repo r, rt_Op = OpAdvertiseUpload\<rparr>
         else if query = ''service=git-receive-pack'' then
           Inr \<lparr>rt_Repo = rt_Repo r, rt_Op = OpAdvertiseReceive\<rparr>
         else Inl (GitError CodeBadRoute))
      else if m = ''POST'' \<and> \<not> q \<and> join ''/'' rest = ''git-upload-pack'' then
        Inr \<lparr>rt_Repo = rt_Repo r, rt_Op = OpUploadPack\<rparr>
      else if m = ''POST'' \<and> \<not> q \<and> join ''/'' rest = ''git-receive-pack'' then
        Inr \<lparr>rt_Repo = rt_Repo r, rt_Op = OpReceivePack\<rparr>
      else Inl (GitError CodeBadRoute))"
    using c pre len n v d r unfolding ParseRoute_def parts_def by (simp add: Let_def)
  then have "m = route_method (rt_Op r) \<and> join ''/'' rest \<noteq> [] \<and>
     join ''/'' rest @ (if query = [] then [] else ''?'' @ query) = upstream_tail (rt_Op r) \<and>
     (q \<longleftrightarrow> query \<noteq> [])"
    using assms qq by (cases r) (auto split: if_splits)
  moreover have "t = path @ (if q then ''?'' @ query else [])"
    using c by (cases q) (auto simp: cut_found_iff cut_not_found_iff)
  ultimately have op: "m = route_method (rt_Op r)" "rest \<noteq> []"
    "t = path @ (if query = [] then [] else ''?'' @ query)"
    "join ''/'' rest @ (if query = [] then [] else ''?'' @ query) = upstream_tail (rt_Op r)"
    by auto
  have "t = route_target r"
    using op full unfolding route_target_def r by simp
  with op v r show ?thesis by simp
qed

definition wf_repo :: "repo \<Rightarrow> bool" where
  "wf_repo r \<longleftrightarrow> validOwner (Owner r) \<and> validRepoName (Name r)"

lemma ParseRepo_iff: "ParseRepo s = Inr r \<longleftrightarrow> wf_repo r \<and> s = Repo_String r"
proof
  assume "ParseRepo s = Inr r"
  then show "wf_repo r \<and> s = Repo_String r"
    by (auto simp: ParseRepo_def wf_repo_def Repo_String_def cut_found_iff split: prod.splits if_splits)
next
  assume a: "wf_repo r \<and> s = Repo_String r"
  then have "CHR ''/'' \<notin> set (Owner r)" by (auto simp: wf_repo_def dest: validOwner_chars)
  with a have "cut (CHR ''/'') s = (Owner r, Name r, True)"
    by (auto simp: Repo_String_def cut_found_iff)
  with a show "ParseRepo s = Inr r" by (auto simp: ParseRepo_def wf_repo_def)
qed

interpretation repo_codec: strict_codec Repo_String ParseRepo wf_repo
  by unfold_locales (rule ParseRepo_iff)

interpretation route_codec: strict_codec
  "\<lambda>r. (route_method (rt_Op r), route_target r)" "\<lambda>(m, t). ParseRoute m t" "\<lambda>r. wf_repo (rt_Repo r)"
proof unfold_locales
  fix s :: "string \<times> string" and r
  obtain m t where s: "s = (m, t)" by (cases s)
  have "ParseRoute m t = Inr r \<longleftrightarrow> wf_repo (rt_Repo r) \<and> m = route_method (rt_Op r) \<and> t = route_target r"
    unfolding wf_repo_def using ParseRoute_sound [of m t r] ParseRoute_complete [of r] by metis
  then show "(case s of (m, t) \<Rightarrow> ParseRoute m t) = Inr r \<longleftrightarrow>
      wf_repo (rt_Repo r) \<and> s = (route_method (rt_Op r), route_target r)"
    unfolding s by simp
qed

lemma AuthorizedRoute_Inr_iff:
  "AuthorizedRoute p m t = Inr r \<longleftrightarrow> ParseRoute m t = Inr r \<and> Repo_Equal (pol_Repo p) (rt_Repo r)"
  by (auto simp: AuthorizedRoute_def CheckRepo_def)

lemma AuthorizedRoute_upstream:
  assumes "NewPolicy rep session = Inr p" and "AuthorizedRoute p m t = Inr r"
  shows "Upstream r = ''/'' @ lower (Owner rep) @ ''/'' @ lower (Name rep) @ ''.git/'' @ upstream_tail (rt_Op r) \<and>
    m = route_method (rt_Op r) \<and>
    lower t = lower (route_target \<lparr>rt_Repo = rep, rt_Op = rt_Op r\<rparr>)"
proof -
  from assms have r: "ParseRoute m t = Inr r" "Repo_Equal rep (rt_Repo r)"
    by (auto simp: AuthorizedRoute_Inr_iff dest: NewPolicy_Inr)
  from ParseRoute_sound [OF r(1)] have v: "validOwner (Owner (rt_Repo r))" "validRepoName (Name (rt_Repo r))"
    "m = route_method (rt_Op r)" "t = route_target r" by auto
  have "lower (Owner rep) = lower (Owner (rt_Repo r))" "lower (Name rep) = lower (Name (rt_Repo r))"
    using Repo_Equal_lower [OF r(2)] v NewPolicy_Inr [OF assms(1)] by auto
  then show ?thesis
    using v by (simp add: Upstream_def route_target_def)
qed

section \<open>Properties\<close>

text \<open>
  The route grammar is exact. \<open>ParseRoute\<close> accepts a method and a request target exactly when
  they are the one request line of a route over a valid owner and repository name: the four
  endpoints of the smart HTTP protocol, with no other spelling, query or path around them.
\<close>

theorem ParseRoute_exact:
  "ParseRoute m t = Inr r \<longleftrightarrow>
     validOwner (Owner (rt_Repo r)) \<and> validRepoName (Name (rt_Repo r)) \<and>
     m = route_method (rt_Op r) \<and> t = route_target r"
  using route_codec.dec_iff [of "(m, t)" r] unfolding wf_repo_def by simp

text \<open>
  A request the policy authorises reaches one repository only: whatever the cage wrote, the
  path sent upstream is a function of the policy's repository and of the kind of the request, and
  the request is one of the four endpoints for that repository up to case.
\<close>

theorem authorized_upstream:
  assumes "NewPolicy rep session = Inr p" and "AuthorizedRoute p m t = Inr r"
  shows "Upstream r = ''/'' @ lower (Owner rep) @ ''/'' @ lower (Name rep) @ ''.git/'' @ upstream_tail (rt_Op r) \<and>
    m = route_method (rt_Op r) \<and>
    lower t = lower (route_target \<lparr>rt_Repo = rep, rt_Op = rt_Op r\<rparr>)"
  using assms by (rule AuthorizedRoute_upstream)

definition example_policy :: policy where
  "example_policy = \<lparr>pol_Repo = \<lparr>Owner = ''nananek'', Name = ''goronation''\<rparr>, pol_Session = ''s1''\<rparr>"

lemma example_policy_New: "NewPolicy \<lparr>Owner = ''nananek'', Name = ''goronation''\<rparr> ''s1'' = Inr example_policy"
  by code_simp

theorem authorized_upstream_witness:
  "Upstream \<lparr>rt_Repo = \<lparr>Owner = ''Nananek'', Name = ''Goronation''\<rparr>, rt_Op = OpUploadPack\<rparr> =
     ''/nananek/goronation.git/git-upload-pack''"
proof -
  have a: "AuthorizedRoute example_policy
      ''POST'' ''/git/github.com/Nananek/Goronation.git/git-upload-pack'' =
      Inr \<lparr>rt_Repo = \<lparr>Owner = ''Nananek'', Name = ''Goronation''\<rparr>, rt_Op = OpUploadPack\<rparr>"
    by code_simp
  have "lower ''nananek'' = ''nananek''" "lower ''goronation'' = ''goronation''" by code_simp+
  then show ?thesis
    using authorized_upstream [OF example_policy_New a] by simp
qed

text \<open>
  Sessions cannot write into each other's namespace: a reference that two policies both accept
  belongs to the same session, for any two valid sessions and repositories.
\<close>

theorem session_namespaces_disjoint:
  assumes "NewPolicy r s = Inr p" and "NewPolicy r' s' = Inr p'"
    and "CheckRef p ref = Inr ()" and "CheckRef p' ref = Inr ()"
  shows "s = s'"
proof -
  from assms have s: "pol_Session p = s" "pol_Session p' = s'" "CHR ''/'' \<notin> set s" "CHR ''/'' \<notin> set s'"
    by (auto dest!: NewPolicy_Inr dest: validSegment_chars)
  from assms(3,4) obtain a b where "ref = Policy_Prefix p @ a" "ref = Policy_Prefix p' @ b"
    by (auto simp: CheckRef_iff)
  then have "s @ CHR ''/'' # a = s' @ CHR ''/'' # b"
    using s by (auto simp: Policy_Prefix_def)
  then show ?thesis using append_sep_inject [of "CHR ''/''" s s' a b] s by simp
qed

theorem session_namespaces_disjoint_witness:
  "CheckRef example_policy ''refs/heads/goronation/s1/fix/a'' = Inr () \<and> ''s1'' = pol_Session example_policy"
proof -
  have c: "CheckRef example_policy ''refs/heads/goronation/s1/fix/a'' = Inr ()" by code_simp
  have "NewPolicy \<lparr>Owner = ''nananek'', Name = ''goronation''\<rparr> (pol_Session example_policy) = Inr example_policy"
    by code_simp
  from session_namespaces_disjoint [OF example_policy_New this c c] c show ?thesis by simp
qed

text \<open>
  What a session may push to: \<open>CheckRef\<close> accepts a reference exactly when it is the
  session's prefix followed by one or more valid segments, in at most 200 bytes.
\<close>

theorem CheckRef_exact:
  "CheckRef p ref = Inr () \<longleftrightarrow>
     length ref \<le> 200 \<and>
     (\<exists>segs. segs \<noteq> [] \<and> list_all validSegment segs \<and>
        ref = ''refs/heads/goronation/'' @ pol_Session p @ ''/'' @ join ''/'' segs)"
  unfolding CheckRef_iff maxRefLen_def Policy_Prefix_def append.assoc ..

end
