(* ===== verification/Git_Receive.thy ===== *)
theory Git_Receive
  imports Git_Route
begin

text \<open>
  The command section of a push (package egress/git: receive.go, and the push checks of policy.go).
  A receive-pack body is a sequence of pkt-lines, each with a four digit hexadecimal length, ended
  by a flush packet; the pack follows. The parser reads the command section and nothing behind it,
  and hands on the bytes it read unchanged.

  An \<open>io.Reader\<close> is the bytes it will deliver and how it ends after them.
\<close>

section \<open>Readers\<close>

datatype read_end = EOF | ReadFails io_err

record reader =
  rd_data :: string
  rd_end :: read_end

text \<open>\<open>io.ReadFull\<close>: exactly \<open>n\<close> bytes, or how the reader ended before it had them.\<close>

definition read_full :: "reader \<Rightarrow> nat \<Rightarrow> read_end + string \<times> reader" where
  "read_full r n =
     (if n \<le> length (rd_data r) then Inr (take n (rd_data r), r\<lparr>rd_data := drop n (rd_data r)\<rparr>)
      else Inl (rd_end r))"

section \<open>Limits and results\<close>

record limits =
  MaxBytes :: int
  MaxCommands :: int

definition DefaultMaxBytes :: int where "DefaultMaxBytes = 16 * 1024"
definition DefaultMaxCommands :: int where "DefaultMaxCommands = 32"
definition maxPkt :: nat where "maxPkt = 65520"

definition zeroOID :: string where
  "zeroOID = replicate 40 (CHR ''0'')"

record command =
  Old :: string
  New :: string
  Ref :: string

record push =
  Commands :: "command list"
  Caps :: "string list"
  Raw :: string

definition Probe :: "push \<Rightarrow> bool" where
  "Probe p \<longleftrightarrow> length (Commands p) = 0"

section \<open>pkt-line reader\<close>

record pktReader =
  pk_r :: reader
  pk_max :: int
  pk_raw :: string

definition readN :: "pktReader \<Rightarrow> nat \<Rightarrow> git_err + string \<times> pktReader" where
  "readN p n =
     (if int (length (pk_raw p)) + int n > pk_max p then Inl (GitError CodeTooLarge)
      else (case read_full (pk_r p) n of
              Inl EOF \<Rightarrow> Inl (GitError CodeTruncated)
            | Inl (ReadFails e) \<Rightarrow> Inl (GitIo e)
            | Inr (bs, r') \<Rightarrow> Inr (bs, p\<lparr>pk_r := r', pk_raw := pk_raw p @ bs\<rparr>)))"

text \<open>The loop of \<open>next\<close> over the length digits: lower case only, \<open>n << 4 | digit\<close>.\<close>

fun hex_len :: "string \<Rightarrow> nat \<Rightarrow> nat option" where
  "hex_len [] n = Some n"
| "hex_len (c # cs) n =
     (if is_digit c then hex_len cs (n * 16 + (byte c - 48))
      else if 97 \<le> byte c \<and> byte c \<le> 102 then hex_len cs (n * 16 + (byte c - 97 + 10))
      else None)"

text \<open>\<open>next\<close>: the line, or \<open>None\<close> for a flush packet.\<close>

definition pkt_next :: "pktReader \<Rightarrow> git_err + string option \<times> pktReader" where
  "pkt_next p =
     bindR (readN p 4) (\<lambda>(h, p1).
       case hex_len h 0 of
         None \<Rightarrow> Inl (GitError CodeBadPacket)
       | Some n \<Rightarrow>
           if n = 0 then Inr (None, p1)
           else if n \<le> 4 then Inl (GitError CodeBadPacket)
           else if n > maxPkt then Inl (GitError CodeBadPacket)
           else bindR (readN p1 (n - 4)) (\<lambda>(body, p2). Inr (Some body, p2)))"

section \<open>Lines\<close>

definition printable :: "string \<Rightarrow> bool" where
  "printable s \<longleftrightarrow> (\<forall>c\<in>set s. \<not> (byte c < 0x21 \<or> byte c > 0x7e))"

definition validOID :: "string \<Rightarrow> bool" where
  "validOID s \<longleftrightarrow> length s = 40 \<and> (\<forall>c\<in>set s. is_digit c \<or> (97 \<le> byte c \<and> byte c \<le> 102))"

definition fixed_caps :: "string list" where
  "fixed_caps = [''report-status'', ''report-status-v2'', ''side-band-64k'', ''quiet'', ''atomic'',
     ''ofs-delta'', ''object-format=sha1'']"

definition capAllowed :: "string \<Rightarrow> bool" where
  "capAllowed c =
     (if c \<in> set fixed_caps then True
      else (case cut_prefix c ''agent='' of
              Some v \<Rightarrow> v \<noteq> [] \<and> length v \<le> 128 \<and> printable v
            | None \<Rightarrow> False))"

fun parseCaps_loop :: "string list \<Rightarrow> string list \<Rightarrow> string list \<Rightarrow> git_err + string list" where
  "parseCaps_loop [] seen caps = Inr caps"
| "parseCaps_loop (c # cs) seen caps =
     (let name = fst (cut (CHR ''='') c) in
      if c = ''push-options'' then Inl (GitError CodePushOptions)
      else if \<not> capAllowed c then Inl (GitError CodeBadCapability)
      else if name \<in> set seen then Inl (GitError CodeBadCapability)
      else parseCaps_loop cs (name # seen) (caps @ [c]))"

definition parseCaps :: "string \<Rightarrow> git_err + string list" where
  "parseCaps s =
     (if s = [] \<or> hd s \<noteq> CHR '' '' then Inl (GitError CodeBadCapability)
      else parseCaps_loop (split (CHR '' '') (tl s)) [] [])"

definition parseLine :: "string \<Rightarrow> bool \<Rightarrow> git_err + command \<times> string list" where
  "parseLine s first =
     (if has_prefix s ''shallow '' then Inl (GitError CodeShallow)
      else if has_prefix s ''push-cert'' then Inl (GitError CodePushCert)
      else case cut (CHR 0x00) s of (cmdPart, capPart, hasNUL) \<Rightarrow>
        if hasNUL \<and> \<not> first then Inl (GitError CodeBadCommand)
        else if length cmdPart < 83 \<or> cmdPart ! 40 \<noteq> CHR '' '' \<or> cmdPart ! 81 \<noteq> CHR '' ''
          then Inl (GitError CodeBadCommand)
        else let cmd = \<lparr>Old = take 40 cmdPart, New = take 40 (drop 41 cmdPart), Ref = drop 82 cmdPart\<rparr> in
        if \<not> validOID (Old cmd) \<or> \<not> validOID (New cmd) then Inl (GitError CodeBadCommand)
        else if length (Ref cmd) > 255 \<or> \<not> printable (Ref cmd) then Inl (GitError CodeBadCommand)
        else if \<not> hasNUL then Inr (cmd, [])
        else bindR (parseCaps capPart) (\<lambda>caps. Inr (cmd, caps)))"

section \<open>The command section\<close>

text \<open>The loop of \<open>ParseCommands\<close>. Every turn adds a command and the number is capped, so it ends.\<close>

function parseCommands_loop ::
  "int \<Rightarrow> pktReader \<Rightarrow> command list \<Rightarrow> string list \<Rightarrow> git_err + command list \<times> string list \<times> pktReader" where
  "parseCommands_loop maxCmds p cmds caps =
     bindR (pkt_next p) (\<lambda>(line, p').
       case line of
         None \<Rightarrow> Inr (cmds, caps, p')
       | Some s \<Rightarrow>
           if int (length cmds) \<ge> maxCmds then Inl (GitError CodeTooManyCmds)
           else (case parseLine s (length cmds = 0) of
                   Inl e \<Rightarrow> Inl e
                 | Inr (cmd, cs) \<Rightarrow>
                     parseCommands_loop maxCmds p' (cmds @ [cmd]) (if length cmds = 0 then cs else caps)))"
  by pat_completeness auto
termination
  by (relation "measure (\<lambda>(m, p, cmds, caps). nat (m - int (length cmds)))") auto

declare parseCommands_loop.simps [simp del]

text \<open>The limits in force: a limit that is not positive selects the default.\<close>

definition eff_bytes :: "limits \<Rightarrow> int" where
  "eff_bytes lim = (if MaxBytes lim \<le> 0 then DefaultMaxBytes else MaxBytes lim)"

definition eff_cmds :: "limits \<Rightarrow> int" where
  "eff_cmds lim = (if MaxCommands lim \<le> 0 then DefaultMaxCommands else MaxCommands lim)"

definition ParseCommands :: "reader \<Rightarrow> limits \<Rightarrow> git_err + push \<times> reader" where
  "ParseCommands r lim =
     (bindR (parseCommands_loop (eff_cmds lim) \<lparr>pk_r = r, pk_max = eff_bytes lim, pk_raw = []\<rparr> [] [])
        (\<lambda>(cmds, caps, p).
           let ok = Inr (\<lparr>Commands = cmds, Caps = caps, Raw = pk_raw p\<rparr>, pk_r p) in
           if length cmds = 0 then
             (case read_full (pk_r p) 1 of
                Inr _ \<Rightarrow> Inl (GitError CodeTrailingData)
              | Inl EOF \<Rightarrow> ok
              | Inl (ReadFails e) \<Rightarrow> Inl (GitIo e))
           else ok))"

text \<open>Package egress/git: policy.go, the checks of a whole push.\<close>

definition Policy_Check :: "policy \<Rightarrow> push \<Rightarrow> git_err + unit" where
  "Policy_Check p pu =
     eachR (\<lambda>c. if New c = zeroOID then Inl (GitError CodeDelete) else CheckRef p (Ref c)) (Commands pu)"

definition ReadPush :: "policy \<Rightarrow> reader \<Rightarrow> limits \<Rightarrow> git_err + push \<times> reader" where
  "ReadPush p r lim =
     bindR (ParseCommands r lim) (\<lambda>(pu, r').
     bindR (Policy_Check p pu) (\<lambda>_. Inr (pu, r')))"

section \<open>The one encoding of a command section\<close>

text \<open>
  What a git client writes for a list of commands and capabilities. The parser accepts exactly
  these encodings (lemma \<open>parseCommands_loop_iff\<close> below), which is what makes forwarding the bytes
  it read equivalent to forwarding what it checked.
\<close>

definition hex_char :: "nat \<Rightarrow> char" where
  "hex_char n = (if n < 10 then char_of (48 + n) else char_of (87 + n))"

definition hex4 :: "nat \<Rightarrow> string" where
  "hex4 n = [hex_char (n div 4096), hex_char (n div 256 mod 16), hex_char (n div 16 mod 16), hex_char (n mod 16)]"

definition pkt :: "string \<Rightarrow> string" where
  "pkt l = hex4 (length l + 4) @ l"

definition encode_line :: "command \<Rightarrow> string list \<Rightarrow> string" where
  "encode_line c caps =
     Old c @ '' '' @ New c @ '' '' @ Ref c @ (if caps = [] then [] else CHR 0x00 # '' '' @ join '' '' caps)"

fun encode_cmds :: "bool \<Rightarrow> command list \<Rightarrow> string list \<Rightarrow> string" where
  "encode_cmds first [] caps = ''0000''"
| "encode_cmds first (c # cs) caps =
     pkt (encode_line c (if first then caps else [])) @ encode_cmds False cs caps"

definition wf_command :: "command \<Rightarrow> bool" where
  "wf_command c \<longleftrightarrow> validOID (Old c) \<and> validOID (New c) \<and> Ref c \<noteq> [] \<and> length (Ref c) \<le> 255 \<and> printable (Ref c)"

definition cap_name :: "string \<Rightarrow> string" where
  "cap_name c = fst (cut (CHR ''='') c)"

definition wf_caps :: "string list \<Rightarrow> bool" where
  "wf_caps caps \<longleftrightarrow> (\<forall>c\<in>set caps. capAllowed c) \<and> distinct (map cap_name caps)"

fun wf_lines :: "bool \<Rightarrow> command list \<Rightarrow> string list \<Rightarrow> bool" where
  "wf_lines first [] caps \<longleftrightarrow> True"
| "wf_lines first (c # cs) caps \<longleftrightarrow>
     wf_command c \<and> length (encode_line c (if first then caps else [])) + 4 \<le> maxPkt \<and> wf_lines False cs caps"

section \<open>Lemmas\<close>

subsection \<open>Lengths\<close>

lemma hex_char_inverse:
  "is_digit c \<Longrightarrow> hex_char (byte c - 48) = c"
  "97 \<le> byte c \<Longrightarrow> byte c \<le> 102 \<Longrightarrow> hex_char (byte c - 97 + 10) = c"
  by (auto simp: hex_char_def is_digit_def)

lemma hex_len_step:
  "n < 16 \<Longrightarrow> hex_len (hex_char n # cs) m = hex_len cs (m * 16 + n)"
  by (auto simp: hex_char_def is_digit_def)

lemma hex_len_hex4: "n < 65536 \<Longrightarrow> hex_len (hex4 n) 0 = Some n"
proof -
  assume n: "n < 65536"
  have "n div 256 = n div 16 div 16" "n div 4096 = n div 256 div 16"
    by (simp_all add: div_mult2_eq [symmetric])
  then have "n div 4096 * 16 + n div 256 mod 16 = n div 256"
    "n div 256 * 16 + n div 16 mod 16 = n div 16"
    by (metis div_mult_mod_eq)+
  moreover have "n div 4096 < 16" using n by (simp add: less_mult_imp_div_less)
  ultimately show ?thesis
    unfolding hex4_def by (simp add: hex_len_step del: hex_len.simps(2))
qed

lemma hex_len_Cons:
  assumes "hex_len (c # cs) m = Some n"
  obtains v where "v < 16" "c = hex_char v" "hex_len cs (m * 16 + v) = Some n"
proof (cases "is_digit c")
  case True
  then have "byte c - 48 < 16" unfolding is_digit_def by linarith
  with True assms that [of "byte c - 48"] show thesis by (simp add: hex_char_inverse)
next
  case False
  with assms have r: "97 \<le> byte c" "byte c \<le> 102" by (auto split: if_splits)
  then have "byte c - 97 + 10 < 16" by linarith
  with False r assms that [of "byte c - 97 + 10"] hex_char_inverse(2) [OF r] show thesis by simp
qed

lemma hex4_hex_len:
  assumes "length h = 4" and h: "hex_len h 0 = Some n"
  shows "h = hex4 n \<and> n < 65536"
proof -
  obtain a b c d where abcd: "h = [a, b, c, d]"
    using assms(1) by (auto simp: numeral_eq_Suc length_Suc_conv)
  obtain v0 where v0: "v0 < 16" "a = hex_char v0" "hex_len [b, c, d] v0 = Some n"
    using hex_len_Cons [OF h [unfolded abcd]] by (metis add_0 mult_0)
  obtain v1 where v1: "v1 < 16" "b = hex_char v1" "hex_len [c, d] (v0 * 16 + v1) = Some n"
    using hex_len_Cons [OF v0(3)] by metis
  obtain v2 where v2: "v2 < 16" "c = hex_char v2" "hex_len [d] ((v0 * 16 + v1) * 16 + v2) = Some n"
    using hex_len_Cons [OF v1(3)] by metis
  obtain v3 where v3: "v3 < 16" "d = hex_char v3" "n = ((v0 * 16 + v1) * 16 + v2) * 16 + v3"
    using hex_len_Cons [OF v2(3)] by (metis hex_len.simps(1) option.inject)
  have n: "n div 16 = (v0 * 16 + v1) * 16 + v2" "n mod 16 = v3"
    using v3(1) unfolding v3(3) by (simp_all only: nibble)
  have n2: "n div 256 = v0 * 16 + v1"
    using nibble(1) [OF v2(1)] n(1) div_mult2_eq [of n 16 16] by simp
  have n3: "n div 16 mod 16 = v2" unfolding n(1) by (rule nibble(2) [OF v2(1)])
  have n4: "n div 4096 = v0" using nibble(1) [OF v1(1)] n2 div_mult2_eq [of n 256 16] by simp
  have n5: "n div 256 mod 16 = v1" unfolding n2 by (rule nibble(2) [OF v1(1)])
  show ?thesis
    using abcd v0 v1 v2 v3 n n3 n4 n5 by (simp add: hex4_def)
qed

subsection \<open>Reading\<close>

text \<open>\<open>consumes p bs p'\<close>: reading took exactly \<open>bs\<close> from the body and recorded it in \<open>raw\<close>.\<close>

definition consumes :: "pktReader \<Rightarrow> string \<Rightarrow> pktReader \<Rightarrow> bool" where
  "consumes p bs p' \<longleftrightarrow>
     rd_data (pk_r p) = bs @ rd_data (pk_r p') \<and> rd_end (pk_r p') = rd_end (pk_r p) \<and>
     pk_raw p' = pk_raw p @ bs \<and> pk_max p' = pk_max p \<and> int (length (pk_raw p')) \<le> pk_max p"

lemma consumes_append:
  "consumes p (a @ b) p'' \<longleftrightarrow> (\<exists>p'. consumes p a p' \<and> consumes p' b p'')"
proof
  assume c: "consumes p (a @ b) p''"
  let ?p = "p\<lparr>pk_r := (pk_r p)\<lparr>rd_data := drop (length a) (rd_data (pk_r p))\<rparr>, pk_raw := pk_raw p @ a\<rparr>"
  from c have "consumes p a ?p \<and> consumes ?p b p''" by (auto simp: consumes_def)
  then show "\<exists>p'. consumes p a p' \<and> consumes p' b p''" by blast
qed (auto simp: consumes_def)

lemma readN_iff: "readN p n = Inr (bs, p') \<longleftrightarrow> length bs = n \<and> consumes p bs p'"
proof
  assume "readN p n = Inr (bs, p')"
  then show "length bs = n \<and> consumes p bs p'"
    by (auto simp: readN_def read_full_def consumes_def split: if_splits read_end.splits sum.splits)
next
  assume a: "length bs = n \<and> consumes p bs p'"
  then have "pk_r p' = (pk_r p)\<lparr>rd_data := drop n (rd_data (pk_r p))\<rparr>"
    by (auto simp: consumes_def)
  then have p': "p' = p\<lparr>pk_r := (pk_r p)\<lparr>rd_data := drop n (rd_data (pk_r p))\<rparr>, pk_raw := pk_raw p @ bs\<rparr>"
    using a by (auto simp: consumes_def)
  moreover have "take n (rd_data (pk_r p)) = bs" "n \<le> length (rd_data (pk_r p))"
    using a by (auto simp: consumes_def)
  moreover have "int (length (pk_raw p)) + int n \<le> pk_max p"
    using a by (auto simp: consumes_def)
  ultimately show "readN p n = Inr (bs, p')"
    by (simp add: readN_def read_full_def)
qed

lemma pkt_next_None_iff: "pkt_next p = Inr (None, p') \<longleftrightarrow> consumes p ''0000'' p'"
proof
  assume "pkt_next p = Inr (None, p')"
  then obtain h where "readN p 4 = Inr (h, p')" "hex_len h 0 = Some 0"
    by (auto simp: pkt_next_def split: option.splits if_splits)
  moreover have "hex4 0 = ''0000''" by code_simp
  ultimately show "consumes p ''0000'' p'"
    using hex4_hex_len [of h 0] by (simp add: readN_iff)
next
  assume "consumes p ''0000'' p'"
  then have "readN p 4 = Inr (''0000'', p')" by (simp add: readN_iff)
  then show "pkt_next p = Inr (None, p')"
    by (simp add: pkt_next_def is_digit_def)
qed

lemma pkt_next_Some_iff:
  "pkt_next p = Inr (Some l, p') \<longleftrightarrow> l \<noteq> [] \<and> length l + 4 \<le> maxPkt \<and> consumes p (pkt l) p'"
proof
  assume "pkt_next p = Inr (Some l, p')"
  then obtain h p1 n where r: "readN p 4 = Inr (h, p1)" "hex_len h 0 = Some n" "4 < n" "n \<le> maxPkt"
    "readN p1 (n - 4) = Inr (l, p')"
    by (auto simp: pkt_next_def split: option.splits if_splits)
  then have "h = hex4 n" "length l + 4 = n" "consumes p h p1" "consumes p1 l p'"
    using hex4_hex_len by (auto simp: readN_iff)
  with r show "l \<noteq> [] \<and> length l + 4 \<le> maxPkt \<and> consumes p (pkt l) p'"
    unfolding pkt_def consumes_append by auto
next
  assume a: "l \<noteq> [] \<and> length l + 4 \<le> maxPkt \<and> consumes p (pkt l) p'"
  have "length (hex4 (length l + 4)) = 4" by (simp add: hex4_def)
  with a obtain p1 where "readN p 4 = Inr (hex4 (length l + 4), p1)" "readN p1 (length l) = Inr (l, p')"
    unfolding pkt_def consumes_append readN_iff by blast
  moreover have "hex_len (hex4 (length l + 4)) 0 = Some (length l + 4)"
    using a by (intro hex_len_hex4) (simp add: maxPkt_def)
  ultimately show "pkt_next p = Inr (Some l, p')"
    using a by (auto simp: pkt_next_def)
qed

subsection \<open>Lines\<close>

lemma capAllowed_no_space: "capAllowed c \<Longrightarrow> CHR '' '' \<notin> set c \<and> c \<noteq> ''push-options''"
  by (auto simp: capAllowed_def fixed_caps_def printable_def split: if_splits option.splits)

lemma parseCaps_loop_iff:
  "parseCaps_loop cs seen acc = Inr caps \<longleftrightarrow>
     caps = acc @ cs \<and> wf_caps cs \<and> (\<forall>c\<in>set cs. cap_name c \<notin> set seen)"
proof (induction cs arbitrary: seen acc)
  case (Cons c cs)
  have "parseCaps_loop (c # cs) seen acc = Inr caps \<longleftrightarrow>
      capAllowed c \<and> cap_name c \<notin> set seen \<and> parseCaps_loop cs (cap_name c # seen) (acc @ [c]) = Inr caps"
    using capAllowed_no_space [of c] by (auto simp: Let_def cap_name_def)
  then show ?case
    unfolding Cons.IH by (auto simp: wf_caps_def image_iff simp del: parseCaps_loop.simps)
qed (auto simp: wf_caps_def)

lemma parseCaps_iff:
  "parseCaps s = Inr caps \<longleftrightarrow> caps \<noteq> [] \<and> wf_caps caps \<and> s = '' '' @ join '' '' caps"
proof -
  have "parseCaps s = Inr caps \<longleftrightarrow>
      s \<noteq> [] \<and> hd s = CHR '' '' \<and> split (CHR '' '') (tl s) = caps \<and> wf_caps caps"
    by (auto simp: parseCaps_def parseCaps_loop_iff)
  also have "\<dots> \<longleftrightarrow> caps \<noteq> [] \<and> wf_caps caps \<and> s = '' '' @ join '' '' caps"
    unfolding split_eq_iff
    by (cases s) (auto simp: wf_caps_def dest: capAllowed_no_space)
  finally show ?thesis .
qed

lemma validOID_chars: "validOID s \<Longrightarrow> c \<in> set s \<Longrightarrow> 0x30 \<le> byte c \<and> byte c \<le> 0x66"
  by (auto simp: validOID_def is_digit_def)

lemma wf_command_chars:
  assumes "wf_command c" "x \<in> set (Old c @ '' '' @ New c @ '' '' @ Ref c)"
  shows "0x20 \<le> byte x"
  using assms by (auto simp: wf_command_def printable_def not_less dest!: validOID_chars)

lemma cmd_part_split:
  "length s \<ge> 83 \<Longrightarrow> s ! 40 = CHR '' '' \<Longrightarrow> s ! 81 = CHR '' '' \<Longrightarrow>
   s = take 40 s @ '' '' @ take 40 (drop 41 s) @ '' '' @ drop 82 s"
  using id_take_nth_drop [of 40 s] id_take_nth_drop [of 40 "drop 41 s"] by simp

lemma parseLine_sound:
  assumes "parseLine s first = Inr (c, caps)"
  shows "wf_command c \<and> wf_caps caps \<and> (caps \<noteq> [] \<longrightarrow> first) \<and> s = encode_line c caps"
proof -
  obtain a b q where cut: "cut (CHR 0x00) s = (a, b, q)" by (metis prod_cases3)
  from assms cut have a: "length a \<ge> 83" "a ! 40 = CHR '' ''" "a ! 81 = CHR '' ''"
    and c: "c = \<lparr>Old = take 40 a, New = take 40 (drop 41 a), Ref = drop 82 a\<rparr>"
    and wf: "wf_command c" and q: "q \<longrightarrow> first \<and> parseCaps b = Inr caps" "\<not> q \<longrightarrow> caps = []"
    by (auto simp: parseLine_def Let_def wf_command_def split: if_splits)
  from cmd_part_split [OF a] c have "a = Old c @ '' '' @ New c @ '' '' @ Ref c" by simp
  with cut q wf show ?thesis
    by (cases q) (auto simp: encode_line_def cut_found_iff cut_not_found_iff parseCaps_iff wf_caps_def)
qed

lemma oid_prefix:
  assumes "validOID w"
  shows "\<not> has_prefix (w @ t) ''shallow ''" "\<not> has_prefix (w @ t) ''push-cert''"
proof -
  obtain h w' where w: "w = h # w'" using assms by (cases w) (auto simp: validOID_def)
  then have "byte h \<le> 102" using assms by (auto dest: validOID_chars)
  then have "h \<noteq> CHR ''s''" "h \<noteq> CHR ''p''" by auto
  then show "\<not> has_prefix (w @ t) ''shallow ''" "\<not> has_prefix (w @ t) ''push-cert''"
    by (auto simp: has_prefix_iff w)
qed

lemma parseLine_complete:
  assumes "wf_command c" "wf_caps caps" "caps \<noteq> [] \<longrightarrow> first"
  shows "parseLine (encode_line c caps) first = Inr (c, caps)"
proof -
  define a where "a = Old c @ '' '' @ New c @ '' '' @ Ref c"
  have nul: "CHR 0x00 \<notin> set a"
    using wf_command_chars [OF assms(1)] unfolding a_def by fastforce
  have len: "length (Old c) = 40" "length (New c) = 40" "Ref c \<noteq> []"
    using assms(1) by (auto simp: wf_command_def validOID_def)
  then have a: "length a \<ge> 83" "a ! 40 = CHR '' ''" "a ! 81 = CHR '' ''"
    and parts: "take 40 a = Old c" "take 40 (drop 41 a) = New c" "drop 82 a = Ref c"
    unfolding a_def by (auto simp: nth_append Suc_le_eq)
  have wf: "validOID (Old c)" "validOID (New c)" "length (Ref c) \<le> 255" "printable (Ref c)"
    using assms(1) by (auto simp: wf_command_def)
  have pre: "\<not> has_prefix (encode_line c caps) ''shallow ''" "\<not> has_prefix (encode_line c caps) ''push-cert''"
    unfolding encode_line_def using oid_prefix [OF wf(1)] by auto
  have "cut (CHR 0x00) (encode_line c caps) =
      (if caps = [] then (a, [], False) else (a, '' '' @ join '' '' caps, True))"
    using nul by (auto simp: encode_line_def a_def cut_found_iff cut_not_found_iff)
  moreover have "caps \<noteq> [] \<Longrightarrow> parseCaps ('' '' @ join '' '' caps) = Inr caps"
    using assms(2) by (simp add: parseCaps_iff)
  ultimately show ?thesis
    using pre a parts wf assms(3) unfolding parseLine_def by (auto simp: Let_def not_less)
qed

lemma parseLine_iff:
  "parseLine s first = Inr (c, caps) \<longleftrightarrow>
     wf_command c \<and> wf_caps caps \<and> (caps \<noteq> [] \<longrightarrow> first) \<and> s = encode_line c caps"
  using parseLine_sound parseLine_complete by blast

subsection \<open>The whole section\<close>

text \<open>The loop accepts exactly the encodings, and consumes exactly them.\<close>

lemma wf_lines_commands: "wf_lines first cs caps \<Longrightarrow> c \<in> set cs \<Longrightarrow> wf_command c"
  by (induction first cs caps rule: wf_lines.induct) auto

lemma encode_cmds_False: "encode_cmds False cs caps = encode_cmds False cs caps'"
  by (induction cs) auto

lemma wf_lines_False: "wf_lines False cs caps = wf_lines False cs caps'"
  by (induction cs) auto

lemma encode_line_not_Nil [simp]: "encode_line c caps \<noteq> []"
  by (simp add: encode_line_def)

lemma parseCommands_loop_sound:
  "parseCommands_loop m p cmds caps = Inr (cmds', caps', p') \<Longrightarrow>
   \<exists>new. cmds' = cmds @ new \<and> wf_lines (cmds = []) new caps' \<and>
     (if cmds = [] \<and> new \<noteq> [] then wf_caps caps' else caps' = caps) \<and>
     (new \<noteq> [] \<longrightarrow> int (length cmds') \<le> m) \<and> consumes p (encode_cmds (cmds = []) new caps') p'"
proof (induction m p cmds caps rule: parseCommands_loop.induct)
  case (1 m p cmds caps)
  from "1.prems" obtain l p1 where nx: "pkt_next p = Inr (l, p1)"
    and body: "(case l of None \<Rightarrow> Inr (cmds, caps, p1)
       | Some s \<Rightarrow> if int (length cmds) \<ge> m then Inl (GitError CodeTooManyCmds)
           else (case parseLine s (length cmds = 0) of Inl e \<Rightarrow> Inl e
                 | Inr (cmd, cs) \<Rightarrow> parseCommands_loop m p1 (cmds @ [cmd]) (if length cmds = 0 then cs else caps)))
       = Inr (cmds', caps', p')"
    by (subst (asm) parseCommands_loop.simps) (auto split: prod.splits)
  show ?case
  proof (cases l)
    case None
    with nx body show ?thesis by (intro exI [of _ "[]"]) (auto simp: pkt_next_None_iff)
  next
    case (Some s)
    with body obtain cmd cs where lim: "int (length cmds) < m"
      and line: "parseLine s (length cmds = 0) = Inr (cmd, cs)"
      and rec: "parseCommands_loop m p1 (cmds @ [cmd]) (if length cmds = 0 then cs else caps) = Inr (cmds', caps', p')"
      by (auto split: if_splits sum.splits)
    then have "\<not> m \<le> int (length cmds)" by simp
    from "1.IH" [OF Some this line refl rec] obtain new where
      new: "cmds' = cmds @ cmd # new" "wf_lines False new caps'"
        "caps' = (if cmds = [] then cs else caps)"
        "new \<noteq> [] \<longrightarrow> int (length cmds') \<le> m" "consumes p1 (encode_cmds False new caps') p'"
      by auto
    from line have wf: "wf_command cmd" "wf_caps cs" "cmds \<noteq> [] \<longrightarrow> cs = []" "s = encode_line cmd cs"
      by (auto simp: parseLine_iff)
    have pkt: "length s + 4 \<le> maxPkt" "consumes p (pkt s) p1"
      using nx Some by (auto simp: pkt_next_Some_iff)
    have "consumes p (encode_cmds (cmds = []) (cmd # new) caps') p'"
      using pkt(2) new(3,5) wf(3,4) by (auto simp: consumes_append)
    then show ?thesis
      using new wf pkt(1) lim by (intro exI [of _ "cmd # new"]) auto
  qed
qed

lemma parseCommands_loop_complete:
  "wf_lines (cmds = []) new caps' \<Longrightarrow>
   (if cmds = [] \<and> new \<noteq> [] then wf_caps caps' else caps' = caps) \<Longrightarrow>
   new \<noteq> [] \<longrightarrow> int (length cmds) + int (length new) \<le> m \<Longrightarrow>
   consumes p (encode_cmds (cmds = []) new caps') p' \<Longrightarrow>
   parseCommands_loop m p cmds caps = Inr (cmds @ new, caps', p')"
proof (induction new arbitrary: p cmds caps)
  case Nil
  then show ?case by (subst parseCommands_loop.simps) (auto simp: pkt_next_None_iff [symmetric])
next
  case (Cons c cs)
  define caps1 where "caps1 = (if cmds = [] then caps' else [])"
  from Cons.prems obtain p1 where p1: "consumes p (pkt (encode_line c caps1)) p1"
    "consumes p1 (encode_cmds False cs caps') p'"
    by (auto simp: consumes_append caps1_def)
  have "pkt_next p = Inr (Some (encode_line c caps1), p1)"
    using Cons.prems(1) p1(1) by (auto simp: pkt_next_Some_iff caps1_def split: if_splits)
  moreover have "parseLine (encode_line c caps1) (length cmds = 0) = Inr (c, caps1)"
    using Cons.prems(1,2) by (auto simp: parseLine_iff caps1_def wf_caps_def split: if_splits)
  moreover have "parseCommands_loop m p1 (cmds @ [c]) (if length cmds = 0 then caps1 else caps) =
      Inr ((cmds @ [c]) @ cs, caps', p')"
    using Cons.prems p1(2) by (intro Cons.IH) (auto simp: caps1_def split: if_splits)
  ultimately show ?case
    using Cons.prems(3) by (subst parseCommands_loop.simps) auto
qed

subsection \<open>ParseCommands\<close>

text \<open>A push that the parser can produce: the bytes kept are the encoding of what was parsed.\<close>

definition wf_push :: "limits \<Rightarrow> push \<Rightarrow> bool" where
  "wf_push lim pu \<longleftrightarrow>
     wf_lines True (Commands pu) (Caps pu) \<and> wf_caps (Caps pu) \<and> (Probe pu \<longrightarrow> Caps pu = []) \<and>
     Raw pu = encode_cmds True (Commands pu) (Caps pu) \<and>
     int (length (Raw pu)) \<le> eff_bytes lim \<and> int (length (Commands pu)) \<le> eff_cmds lim"

lemma wf_caps_Nil [simp]: "wf_caps []"
  by (simp add: wf_caps_def)

lemma eff_cmds_pos: "0 < eff_cmds lim"
  by (simp add: DefaultMaxCommands_def eff_cmds_def)

lemma ParseCommands_sound:
  assumes "ParseCommands r lim = Inr (pu, r')"
  shows "wf_push lim pu \<and> rd_data r = Raw pu @ rd_data r' \<and> rd_end r' = rd_end r \<and>
         (Probe pu \<longrightarrow> rd_data r' = [] \<and> rd_end r = EOF)"
proof -
  let ?init = "\<lparr>pk_r = r, pk_max = eff_bytes lim, pk_raw = []\<rparr>"
  from assms obtain cmds caps p where loop: "parseCommands_loop (eff_cmds lim) ?init [] [] = Inr (cmds, caps, p)"
    and pu: "pu = \<lparr>Commands = cmds, Caps = caps, Raw = pk_raw p\<rparr>" and r': "r' = pk_r p"
    and pr: "cmds = [] \<longrightarrow> read_full (pk_r p) 1 = Inl EOF"
    unfolding ParseCommands_def Let_def
    by (auto split: if_splits sum.splits read_end.splits)
  from parseCommands_loop_sound [OF loop] have
    l: "wf_lines True cmds caps" "if cmds \<noteq> [] then wf_caps caps else caps = []"
      "cmds \<noteq> [] \<longrightarrow> int (length cmds) \<le> eff_cmds lim"
      "consumes ?init (encode_cmds True cmds caps) p" by auto
  from l(4) have c: "pk_raw p = encode_cmds True cmds caps" "rd_data r = pk_raw p @ rd_data (pk_r p)"
    "rd_end (pk_r p) = rd_end r" "int (length (pk_raw p)) \<le> eff_bytes lim"
    unfolding consumes_def by (elim conjE; simp only: pktReader.simps append_Nil)+
  have "cmds = [] \<longrightarrow> rd_data (pk_r p) = [] \<and> rd_end r = EOF"
    using pr c(3) by (auto simp: read_full_def Suc_le_eq split: if_splits)
  moreover have "int (length cmds) \<le> eff_cmds lim"
    using l(3) eff_cmds_pos [of lim] by (cases "cmds = []") auto
  moreover have "wf_caps caps" using l(2) by (cases "cmds = []") simp_all
  ultimately show ?thesis
    using c l unfolding pu r' wf_push_def Probe_def by simp
qed

lemma ParseCommands_complete:
  assumes "wf_push lim pu" and "Probe pu \<Longrightarrow> rest = [] \<and> e = EOF"
  shows "ParseCommands \<lparr>rd_data = Raw pu @ rest, rd_end = e\<rparr> lim = Inr (pu, \<lparr>rd_data = rest, rd_end = e\<rparr>)"
proof -
  let ?r = "\<lparr>rd_data = Raw pu @ rest, rd_end = e\<rparr>" and ?r' = "\<lparr>rd_data = rest, rd_end = e\<rparr>"
  let ?init = "\<lparr>pk_r = ?r, pk_max = eff_bytes lim, pk_raw = []\<rparr>"
  let ?fin = "\<lparr>pk_r = ?r', pk_max = eff_bytes lim, pk_raw = Raw pu\<rparr>"
  have w: "wf_lines True (Commands pu) (Caps pu)" "wf_caps (Caps pu)"
    "Commands pu = [] \<longrightarrow> Caps pu = []" "int (length (Commands pu)) \<le> eff_cmds lim"
    using assms(1) unfolding wf_push_def Probe_def by auto
  have "consumes ?init (encode_cmds True (Commands pu) (Caps pu)) ?fin"
    using assms(1) unfolding wf_push_def consumes_def by (elim conjE) simp
  then have "parseCommands_loop (eff_cmds lim) ?init [] [] = Inr ([] @ Commands pu, Caps pu, ?fin)"
    using w by (intro parseCommands_loop_complete) simp_all
  moreover have "Commands pu = [] \<Longrightarrow> read_full ?r' 1 = Inl EOF"
    using assms(2) by (auto simp: Probe_def read_full_def)
  ultimately show ?thesis
    unfolding ParseCommands_def Let_def by (cases "Commands pu = []") auto
qed

lemma Policy_Check_iff:
  "Policy_Check p pu = Inr () \<longleftrightarrow> (\<forall>c\<in>set (Commands pu). New c \<noteq> zeroOID \<and> CheckRef p (Ref c) = Inr ())"
  by (auto simp: Policy_Check_def)

lemma ReadPush_Inr_iff:
  "ReadPush p r lim = Inr (pu, r') \<longleftrightarrow> ParseCommands r lim = Inr (pu, r') \<and> Policy_Check p pu = Inr ()"
  by (auto simp: ReadPush_def)

lemma ReadPush_sound:
  assumes "NewPolicy rep session = Inr p" and "ReadPush p r lim = Inr (pu, r')"
  shows "rd_data r = Raw pu @ rd_data r' \<and>
    Raw pu = encode_cmds True (Commands pu) (Caps pu) \<and>
    int (length (Raw pu)) \<le> eff_bytes lim \<and> int (length (Commands pu)) \<le> eff_cmds lim \<and>
    (\<forall>c\<in>set (Commands pu). New c \<noteq> zeroOID \<and>
       (\<exists>segs. segs \<noteq> [] \<and> list_all validSegment segs \<and>
          Ref c = ''refs/heads/goronation/'' @ session @ ''/'' @ join ''/'' segs))"
proof -
  from assms(2) have parse: "ParseCommands r lim = Inr (pu, r')" and check: "Policy_Check p pu = Inr ()"
    by (auto simp: ReadPush_Inr_iff)
  have "\<forall>c\<in>set (Commands pu). New c \<noteq> zeroOID \<and>
       (\<exists>segs. segs \<noteq> [] \<and> list_all validSegment segs \<and>
          Ref c = ''refs/heads/goronation/'' @ session @ ''/'' @ join ''/'' segs)"
    using check NewPolicy_Inr [OF assms(1)]
    unfolding Policy_Check_iff CheckRef_iff Policy_Prefix_def by auto
  with ParseCommands_sound [OF parse] show ?thesis unfolding wf_push_def by blast
qed

section \<open>Properties\<close>

text \<open>
  C32: Parsing a command section is the exact inverse of writing one. The parser succeeds with a
  push and a remaining body exactly when the body is the encoding of that push followed by the
  remaining body, the push is well formed and within the limits, and a push without commands has
  nothing behind it. In particular the bytes kept for the upstream are exactly those of the
  commands that were checked, and nothing of the pack is consumed.
\<close>

theorem ParseCommands_exact:
  "ParseCommands r lim = Inr (pu, r') \<longleftrightarrow>
     wf_push lim pu \<and> rd_data r = Raw pu @ rd_data r' \<and> rd_end r' = rd_end r \<and>
     (if Probe pu then rd_data r' = [] \<and> rd_end r = EOF else True)"
proof
  assume "ParseCommands r lim = Inr (pu, r')"
  from ParseCommands_sound [OF this] show "wf_push lim pu \<and> rd_data r = Raw pu @ rd_data r' \<and>
      rd_end r' = rd_end r \<and> (if Probe pu then rd_data r' = [] \<and> rd_end r = EOF else True)" by simp
next
  assume a: "wf_push lim pu \<and> rd_data r = Raw pu @ rd_data r' \<and> rd_end r' = rd_end r \<and>
      (if Probe pu then rd_data r' = [] \<and> rd_end r = EOF else True)"
  then have r: "r = \<lparr>rd_data = Raw pu @ rd_data r', rd_end = rd_end r\<rparr>" "r' = \<lparr>rd_data = rd_data r', rd_end = rd_end r\<rparr>"
    by simp_all
  have "Probe pu \<Longrightarrow> rd_data r' = [] \<and> rd_end r = EOF" using a by simp
  from ParseCommands_complete [OF conjunct1 [OF a] this]
  show "ParseCommands r lim = Inr (pu, r')" using r by metis
qed

text \<open>
  C1: What \<open>ReadPush\<close> lets through. The bytes it forwards encode commands that delete nothing
  and only name references of the session's namespace; there are at most \<open>MaxCommands\<close> of them in
  at most \<open>MaxBytes\<close> bytes; and the bytes forwarded, followed by the unread pack, are the body.
\<close>

theorem ReadPush_safe:
  assumes "NewPolicy rep session = Inr p" and "ReadPush p r lim = Inr (pu, r')"
  shows "rd_data r = Raw pu @ rd_data r' \<and>
    Raw pu = encode_cmds True (Commands pu) (Caps pu) \<and>
    int (length (Raw pu)) \<le> eff_bytes lim \<and> int (length (Commands pu)) \<le> eff_cmds lim \<and>
    (\<forall>c\<in>set (Commands pu). New c \<noteq> zeroOID \<and>
       (\<exists>segs. segs \<noteq> [] \<and> list_all validSegment segs \<and>
          Ref c = ''refs/heads/goronation/'' @ session @ ''/'' @ join ''/'' segs))"
  using assms by (rule ReadPush_sound)

definition example_oid :: string where
  "example_oid = replicate 40 (CHR ''a'')"

definition example_push :: push where
  "example_push = (let cmds = [\<lparr>Old = zeroOID, New = example_oid, Ref = ''refs/heads/goronation/s1/x''\<rparr>];
      caps = [''report-status''] in
     \<lparr>Commands = cmds, Caps = caps, Raw = encode_cmds True cmds caps\<rparr>)"

lemma example_lens [simp]: "length zeroOID = 40" "length example_oid = 40"
  by (simp_all add: zeroOID_def example_oid_def)

lemma example_digits [simp]:
  "char_of (48 :: nat) = CHR ''0''" "char_of (55 :: nat) = CHR ''7''" "char_of (102 :: nat) = CHR ''f''"
  by code_simp+

lemma example_Raw:
  "Raw example_push = ''007f'' @ zeroOID @ '' '' @ example_oid @ '' refs/heads/goronation/s1/x'' @
     CHR 0x00 # '' report-status'' @ ''0000''"
  by (simp add: example_push_def pkt_def encode_line_def hex4_def hex_char_def)

lemma example_wf: "wf_command (hd (Commands example_push))" "wf_caps (Caps example_push)"
  by code_simp+

lemma example_wf_push: "wf_push \<lparr>MaxBytes = 0, MaxCommands = 0\<rparr> example_push"
  using example_wf unfolding wf_push_def example_Raw
  by (simp add: example_push_def pkt_def encode_line_def hex4_def hex_char_def maxPkt_def Probe_def
      eff_bytes_def eff_cmds_def DefaultMaxBytes_def DefaultMaxCommands_def)

lemma example_ReadPush:
  "ReadPush example_policy \<lparr>rd_data = Raw example_push @ ''PACK'', rd_end = EOF\<rparr> \<lparr>MaxBytes = 0, MaxCommands = 0\<rparr> =
     Inr (example_push, \<lparr>rd_data = ''PACK'', rd_end = EOF\<rparr>)"
proof -
  have "\<not> Probe example_push" "Policy_Check example_policy example_push = Inr ()" by code_simp+
  then show ?thesis
    using ParseCommands_complete [OF example_wf_push, of "''PACK''" EOF] by (simp add: ReadPush_Inr_iff)
qed

theorem ReadPush_safe_witness:
  "Raw example_push = encode_cmds True (Commands example_push) (Caps example_push) \<and>
   New (hd (Commands example_push)) \<noteq> zeroOID"
proof -
  have "hd (Commands example_push) \<in> set (Commands example_push)"
    by (rule hd_in_set) (simp add: example_push_def Let_def)
  with ReadPush_safe [OF example_policy_New example_ReadPush] show ?thesis by blast
qed

end
