(* ===== verification/Egress_Addr.thy ===== *)
theory Egress_Addr
  imports Go_Prelude
begin

text \<open>
  The addresses a relay may connect to (package egress: ipcheck.go, ipcheck_export.go), with the
  part of net/netip they use. An address is invalid, an IPv4 address in 32 bits or an IPv6 address
  in 128 bits with a zone.
\<close>

unbundle bit_operations_syntax

section \<open>Package net/netip\<close>

datatype addr = AddrInvalid | V4 "32 word" | V6 "128 word" string

text \<open>Byte \<open>i\<close> of an IPv4 address, and byte and 16 bit group of an IPv6 address from the left.\<close>

definition v4byte :: "32 word \<Rightarrow> nat \<Rightarrow> 32 word" where
  "v4byte w i = take_bit 8 (drop_bit (24 - 8 * i) w)"

definition v6byte :: "128 word \<Rightarrow> nat \<Rightarrow> 128 word" where
  "v6byte w i = take_bit 8 (drop_bit (120 - 8 * i) w)"

definition v6u16 :: "128 word \<Rightarrow> nat \<Rightarrow> 128 word" where
  "v6u16 w i = take_bit 16 (drop_bit (112 - 16 * i) w)"

definition Is4In6 :: "128 word \<Rightarrow> bool" where
  "Is4In6 w \<longleftrightarrow> drop_bit 32 w = 0xffff"

fun Unmap :: "addr \<Rightarrow> addr" where
  "Unmap (V6 w z) = (if Is4In6 w then V4 (ucast w) else V6 w z)"
| "Unmap a = a"

fun WithoutZone :: "addr \<Rightarrow> addr" where
  "WithoutZone (V6 w z) = V6 w []"
| "WithoutZone a = a"

fun IsValid :: "addr \<Rightarrow> bool" where
  "IsValid AddrInvalid = False"
| "IsValid _ = True"

definition IsUnspecified :: "addr \<Rightarrow> bool" where
  "IsUnspecified a \<longleftrightarrow> a = V4 0 \<or> a = V6 0 []"

definition on_unmapped :: "(32 word \<Rightarrow> bool) \<Rightarrow> (128 word \<Rightarrow> bool) \<Rightarrow> addr \<Rightarrow> bool" where
  "on_unmapped p4 p6 a = (case Unmap a of AddrInvalid \<Rightarrow> False | V4 w \<Rightarrow> p4 w | V6 w z \<Rightarrow> p6 w)"

definition IsLoopback :: "addr \<Rightarrow> bool" where
  "IsLoopback = on_unmapped (\<lambda>w. v4byte w 0 = 127) (\<lambda>w. w = 1)"

definition IsPrivate :: "addr \<Rightarrow> bool" where
  "IsPrivate = on_unmapped
     (\<lambda>w. v4byte w 0 = 10 \<or> (v4byte w 0 = 172 \<and> v4byte w 1 AND 0xf0 = 16) \<or> (v4byte w 0 = 192 \<and> v4byte w 1 = 168))
     (\<lambda>w. v6byte w 0 AND 0xfe = 0xfc)"

definition IsLinkLocalUnicast :: "addr \<Rightarrow> bool" where
  "IsLinkLocalUnicast = on_unmapped (\<lambda>w. v4byte w 0 = 169 \<and> v4byte w 1 = 254) (\<lambda>w. v6u16 w 0 AND 0xffc0 = 0xfe80)"

definition IsMulticast :: "addr \<Rightarrow> bool" where
  "IsMulticast = on_unmapped (\<lambda>w. v4byte w 0 AND 0xf0 = 0xe0) (\<lambda>w. v6byte w 0 = 0xff)"

text \<open>\<open>Prefix.Contains\<close> for an IPv4 prefix of \<open>bits\<close> bits: no zone, the same family, equal leading bits.\<close>

fun contains4 :: "32 word \<Rightarrow> nat \<Rightarrow> addr \<Rightarrow> bool" where
  "contains4 p bits (V4 w) \<longleftrightarrow> drop_bit (32 - bits) (w XOR p) = 0"
| "contains4 p bits _ \<longleftrightarrow> False"

section \<open>Forbidden addresses\<close>

definition mk_v4 :: "nat \<Rightarrow> nat \<Rightarrow> nat \<Rightarrow> nat \<Rightarrow> 32 word" where
  "mk_v4 a b c d = word_of_nat (((a * 256 + b) * 256 + c) * 256 + d)"

definition cgnat :: "32 word" where
  "cgnat = mk_v4 100 64 0 0"

definition forbidden :: "addr \<Rightarrow> bool" where
  "forbidden a0 =
     (let a = WithoutZone (Unmap a0) in
      \<not> IsValid a \<or> IsUnspecified a \<or> IsLoopback a \<or> IsPrivate a \<or> IsLinkLocalUnicast a \<or>
      IsMulticast a \<or> contains4 cgnat 10 a)"

definition ForbiddenAddr :: "addr \<Rightarrow> bool" where
  "ForbiddenAddr a = forbidden a"


section \<open>Lemmas\<close>

lemma unat_mk_v4:
  assumes "a < 256" "b < 256" "c < 256" "d < 256"
  shows "unat (mk_v4 a b c d) = ((a * 256 + b) * 256 + c) * 256 + d"
proof -
  have "((a * 256 + b) * 256 + c) * 256 + d < 2 ^ LENGTH(32)" using assms by simp
  then show ?thesis unfolding mk_v4_def by (simp only: unat_of_nat mod_less)
qed

lemma mk_v4_bytes:
  assumes "a < 256" "b < 256" "c < 256" "d < 256"
  shows "unat (v4byte (mk_v4 a b c d) 0) = a" "unat (v4byte (mk_v4 a b c d) 1) = b"
    "unat (mk_v4 a b c d) div 2 ^ 22 = a * 4 + b div 64" "unat (mk_v4 a b c d) = 0 \<longleftrightarrow> a = 0 \<and> b = 0 \<and> c = 0 \<and> d = 0"
proof -
  have "unat (v4byte w i) = unat w div 2 ^ (24 - 8 * i) mod 256" for w i
    unfolding v4byte_def unsigned_take_bit_eq unat_drop_bit_eq by (simp add: take_bit_eq_mod drop_bit_eq_div)
  note v = this
  have "(((a * 256 + b) * 256 + c) * 256 + d) div 2 ^ 24 = a" "(((a * 256 + b) * 256 + c) * 256 + d) div 2 ^ 16 = a * 256 + b"
    using assms by (simp; linarith)+
  then show "unat (v4byte (mk_v4 a b c d) 0) = a" "unat (v4byte (mk_v4 a b c d) 1) = b"
    unfolding v unat_mk_v4 [OF assms] using assms by simp_all
  show "unat (mk_v4 a b c d) div 2 ^ 22 = a * 4 + b div 64"
    unfolding unat_mk_v4 [OF assms] using assms by simp
  show "unat (mk_v4 a b c d) = 0 \<longleftrightarrow> a = 0 \<and> b = 0 \<and> c = 0 \<and> d = 0"
    unfolding unat_mk_v4 [OF assms] by simp
qed

lemma and_push_mask: "w AND push_bit k (mask n) = push_bit k (take_bit n (drop_bit k w))" for w :: nat
  by (rule bit_eqI) (auto simp: bit_simps)

lemma and_f0: "unat (w AND 0xf0) = unat w div 16 mod 16 * 16" for w :: "32 word"
proof -
  have "(0xf0 :: nat) = push_bit 4 (mask 4)" by (simp add: mask_eq_exp_minus_1 push_bit_eq_mult)
  then have "unat w AND 0xf0 = push_bit 4 (take_bit 4 (drop_bit 4 (unat w)))" by (simp only: and_push_mask)
  then show ?thesis
    by (simp add: unsigned_and_eq take_bit_eq_mod drop_bit_eq_div push_bit_eq_mult)
qed

lemma xor_eq_0: "w XOR p = 0 \<longleftrightarrow> w = p" for w p :: "'a :: len word"
  by (metis xor.assoc xor.right_neutral xor_self_eq xor.left_neutral)

lemma contains4_iff: "contains4 p bits (V4 w) \<longleftrightarrow> unat w div 2 ^ (32 - bits) = unat p div 2 ^ (32 - bits)"
proof -
  have "contains4 p bits (V4 w) \<longleftrightarrow> drop_bit (32 - bits) w = drop_bit (32 - bits) p"
    by (simp only: contains4.simps drop_bit_xor xor_eq_0)
  then show ?thesis unfolding word_unat_eq_iff unat_drop_bit_eq by (simp add: drop_bit_eq_div)
qed

text \<open>Whether an address may be reached does not depend on its zone, nor on whether an IPv4
  address is written in its IPv4-mapped form.\<close>

lemma forbidden_V4:
  "forbidden (V4 w) \<longleftrightarrow> w = 0 \<or> IsLoopback (V4 w) \<or> IsPrivate (V4 w) \<or> IsLinkLocalUnicast (V4 w) \<or>
     IsMulticast (V4 w) \<or> contains4 cgnat 10 (V4 w)"
  by (simp add: forbidden_def IsUnspecified_def Let_def del: contains4.simps)

lemma forbidden_Unmap: "forbidden (Unmap a) \<longleftrightarrow> forbidden a"
  by (cases a) (auto simp: forbidden_def)

definition map_v4 :: "32 word \<Rightarrow> 128 word" where
  "map_v4 w = word_of_nat (0xffff * 2 ^ 32 + unat w)"

lemma unat_map_v4: "unat (map_v4 w) = 0xffff * 2 ^ 32 + unat w"
proof -
  have "unat w < 2 ^ 32" using unsigned_less [of w, where ?'a = nat] by simp
  then have "0xffff * 2 ^ 32 + unat w < 2 ^ LENGTH(128)" by simp
  then show ?thesis unfolding map_v4_def by (simp only: unat_of_nat mod_less)
qed

lemma Unmap_map_v4: "Unmap (V6 (map_v4 w) z) = V4 w"
proof -
  have lt: "unat w < 2 ^ 32" using unsigned_less [of w, where ?'a = nat] by simp
  have "unat (drop_bit 32 (map_v4 w)) = unat (0xffff :: 128 word)"
    unfolding unat_drop_bit_eq unat_map_v4 using lt by (simp add: drop_bit_eq_div)
  then have "Is4In6 (map_v4 w)" by (simp only: Is4In6_def word_unat_eq_iff)
  moreover have "(0xffff * 2 ^ 32 + unat w) mod 2 ^ 32 = unat w"
    using lt by (simp only: mod_mult_self3 mod_less)
  then have "unat (ucast (map_v4 w) :: 32 word) = unat w"
    by (simp only: unsigned_ucast_eq unat_map_v4 take_bit_eq_mod len_num1 len_bit0 len_bit1) simp
  ultimately show ?thesis by (simp add: word_unat_eq_iff)
qed

lemma forbidden_mk_v4:
  assumes "a < 256" and "b < 256" and "c < 256" and "d < 256"
  shows "(forbidden (V4 (mk_v4 a b c d)) \<longleftrightarrow>
      a = 0 \<and> b = 0 \<and> c = 0 \<and> d = 0 \<or> a = 127 \<or> a = 10 \<or> a = 172 \<and> 16 \<le> b \<and> b \<le> 31 \<or>
      a = 192 \<and> b = 168 \<or> a = 169 \<and> b = 254 \<or> 224 \<le> a \<and> a \<le> 239 \<or> a = 100 \<and> 64 \<le> b \<and> b \<le> 127) \<and>
    (forbidden (V6 (map_v4 (mk_v4 a b c d)) zone) \<longleftrightarrow> forbidden (V4 (mk_v4 a b c d)))"
proof -
  let ?w = "mk_v4 a b c d"
  note bytes = mk_v4_bytes [OF assms] mk_v4_bytes(2) [OF assms, unfolded One_nat_def]
  have zero: "?w = 0 \<longleftrightarrow> a = 0 \<and> b = 0 \<and> c = 0 \<and> d = 0"
    using bytes(4) by (metis unat_0 unat_eq_zero)
  have loop: "IsLoopback (V4 ?w) \<longleftrightarrow> a = 127"
    by (simp add: IsLoopback_def on_unmapped_def word_unat_eq_iff bytes)
  have priv: "IsPrivate (V4 ?w) \<longleftrightarrow> a = 10 \<or> a = 172 \<and> b div 16 = 1 \<or> a = 192 \<and> b = 168"
    using assms(2) by (simp add: IsPrivate_def on_unmapped_def word_unat_eq_iff bytes and_f0)
  have link: "IsLinkLocalUnicast (V4 ?w) \<longleftrightarrow> a = 169 \<and> b = 254"
    by (simp add: IsLinkLocalUnicast_def on_unmapped_def word_unat_eq_iff bytes)
  have multi: "IsMulticast (V4 ?w) \<longleftrightarrow> a div 16 = 14"
    using assms(1) by (simp add: IsMulticast_def on_unmapped_def word_unat_eq_iff bytes and_f0)
  have cg: "contains4 cgnat 10 (V4 ?w) \<longleftrightarrow> a * 4 + b div 64 = 401"
    using bytes(3) unat_mk_v4 [of 100 64 0 0] by (simp add: contains4_iff cgnat_def del: contains4.simps)
  have b16: "b div 16 = 1 \<longleftrightarrow> 16 \<le> b \<and> b \<le> 31" and a16: "a div 16 = 14 \<longleftrightarrow> 224 \<le> a \<and> a \<le> 239"
    by linarith+
  have "q < 4 \<Longrightarrow> a * 4 + q = 401 \<longleftrightarrow> a = 100 \<and> q = 1" for q by presburger
  then have "a * 4 + b div 64 = 401 \<longleftrightarrow> a = 100 \<and> b div 64 = 1" using assms(2) by auto
  also have "b div 64 = 1 \<longleftrightarrow> 64 \<le> b \<and> b \<le> 127" by linarith
  finally have q: "a * 4 + b div 64 = 401 \<longleftrightarrow> a = 100 \<and> 64 \<le> b \<and> b \<le> 127" .
  have "forbidden (V6 (map_v4 ?w) zone) \<longleftrightarrow> forbidden (V4 ?w)"
    using forbidden_Unmap [of "V6 (map_v4 ?w) zone"] by (simp only: Unmap_map_v4)
  then show ?thesis
    by (simp only: forbidden_V4 zero loop priv link multi cg b16 a16 q disj_assoc conj_assoc)
qed

section \<open>Properties\<close>

text \<open>
  Which IPv4 addresses the relay refuses to connect to, by their octets: the unspecified
  address, loopback, the three private ranges, link-local, multicast and the shared address space of
  RFC 6598, and no other. An address written in its IPv4-mapped IPv6 form, with any zone, is judged
  as the IPv4 address.
\<close>

theorem forbidden_octets:
  assumes "a < 256" and "b < 256" and "c < 256" and "d < 256"
  shows "(forbidden (V4 (mk_v4 a b c d)) \<longleftrightarrow>
      a = 0 \<and> b = 0 \<and> c = 0 \<and> d = 0 \<or> a = 127 \<or> a = 10 \<or> a = 172 \<and> 16 \<le> b \<and> b \<le> 31 \<or>
      a = 192 \<and> b = 168 \<or> a = 169 \<and> b = 254 \<or> 224 \<le> a \<and> a \<le> 239 \<or> a = 100 \<and> 64 \<le> b \<and> b \<le> 127) \<and>
    (forbidden (V6 (map_v4 (mk_v4 a b c d)) zone) \<longleftrightarrow> forbidden (V4 (mk_v4 a b c d)))"
  using assms by (rule forbidden_mk_v4)

theorem forbidden_octets_witness: "forbidden (V6 (map_v4 (mk_v4 169 254 169 254)) []) \<and> \<not> forbidden (V4 (mk_v4 140 82 121 3))"
  using forbidden_octets [of 169 254 169 254 "[]"] forbidden_octets [of 140 82 121 3 "[]"] by simp

end
