(* ===== verification/Egress_Request.thy ===== *)
theory Egress_Request
  imports Egress_Addr
begin

text \<open>
  Reading a CONNECT request from the cage (package egress: request.go, and the rejections of
  audit.go). A connection delivers bytes and then ends: at its end, by the header deadline or by
  another error. The request is read through a buffer of 4096 bytes, which also bounds a line.

  The IP address of a rejection is kept as an address, not as the text the audit log shows.
\<close>

section \<open>Rejections\<close>

datatype reason =
    reasonAllowlist | reasonBadRequest | reasonHeaderTooLarge | reasonHeaderTimeout | reasonMethod
  | reasonBadTarget | reasonUserinfo | reasonIPLiteral | reasonNotAllowed | reasonForbiddenIP
  | reasonResolveFailed | reasonDialFailed | reasonDialTimeout | reasonBusy

fun reason_string :: "reason \<Rightarrow> string" where
  "reason_string reasonAllowlist = ''allowlist''"
| "reason_string reasonBadRequest = ''bad-request''"
| "reason_string reasonHeaderTooLarge = ''header-too-large''"
| "reason_string reasonHeaderTimeout = ''header-timeout''"
| "reason_string reasonMethod = ''method''"
| "reason_string reasonBadTarget = ''bad-target''"
| "reason_string reasonUserinfo = ''userinfo''"
| "reason_string reasonIPLiteral = ''ip-literal''"
| "reason_string reasonNotAllowed = ''not-allowed''"
| "reason_string reasonForbiddenIP = ''forbidden-ip''"
| "reason_string reasonResolveFailed = ''resolve-failed''"
| "reason_string reasonDialFailed = ''dial-failed''"
| "reason_string reasonDialTimeout = ''dial-timeout''"
| "reason_string reasonBusy = ''busy''"

datatype audit_event = EventAllow | EventDeny | EventError

record reject =
  rj_event :: audit_event
  rj_code :: nat
  rj_reason :: reason
  rj_target :: string
  rj_ip :: "addr option"

definition deny :: "nat \<Rightarrow> reason \<Rightarrow> string \<Rightarrow> reject" where
  "deny code reason target =
     \<lparr>rj_event = EventDeny, rj_code = code, rj_reason = reason, rj_target = target, rj_ip = None\<rparr>"

section \<open>Targets\<close>

text \<open>\<open>net.SplitHostPort\<close>, without the texts of its errors.\<close>

definition SplitHostPort :: "string \<Rightarrow> (string \<times> string) option" where
  "SplitHostPort s =
     (case last_index_byte s (CHR '':'') of
        None \<Rightarrow> None
      | Some i \<Rightarrow>
          if hd s = CHR ''['' then
            (case index_byte s (CHR '']'') of
               None \<Rightarrow> None
             | Some e \<Rightarrow>
                 if e + 1 \<noteq> i then None
                 else if CHR ''['' \<in> set (drop 1 s) \<or> CHR '']'' \<in> set (drop (e + 1) s) then None
                 else Some (take (e - 1) (drop 1 s), drop (i + 1) s))
          else if CHR '':'' \<in> set (take i s) then None
          else if CHR ''['' \<in> set s \<or> CHR '']'' \<in> set s then None
          else Some (take i s, drop (i + 1) s))"

definition validName :: "string \<Rightarrow> bool" where
  "validName h \<longleftrightarrow>
     \<not> (length h = 0 \<or> length h > 253) \<and>
     (\<forall>label\<in>set (split (CHR ''.'') h).
        \<not> (length label = 0 \<or> length label > 63 \<or> hd label = CHR ''-'' \<or> last label = CHR ''-'') \<and>
        (\<forall>c\<in>set label. is_lower c \<or> is_digit c \<or> c = CHR ''-''))"

definition asciiLower :: "string \<Rightarrow> string" where
  "asciiLower s = map (\<lambda>c. if is_upper c then char_of (byte c + 97 - 65) else c) s"

definition after_last :: "char \<Rightarrow> string \<Rightarrow> string" where
  "after_last c s = (case last_index_byte s c of None \<Rightarrow> s | Some i \<Rightarrow> drop (i + 1) s)"

definition splitTarget :: "string \<Rightarrow> reason + string \<times> 16 word" where
  "splitTarget t =
     (if CHR ''@'' \<in> set t then Inl reasonUserinfo
      else (case SplitHostPort t of
        None \<Rightarrow> Inl reasonBadTarget
      | Some (h0, p) \<Rightarrow>
          if h0 = [] then Inl reasonBadTarget
          else if contains_any h0 '':%'' then Inl reasonIPLiteral
          else if has_prefix t ''['' then Inl reasonBadTarget
          else let h = asciiLower h0 in
          if \<not> validName h then Inl reasonBadTarget
          else if is_digit (hd (after_last (CHR ''.'') h)) then Inl reasonIPLiteral
          else (case parse_uint 16 p of
                  None \<Rightarrow> Inl reasonBadTarget
                | Some n \<Rightarrow> if n = 0 \<or> format_uint n \<noteq> p then Inl reasonBadTarget
                            else Inr (h, word_of_nat n))))"

definition hostPort :: "string \<Rightarrow> 16 word \<Rightarrow> string" where
  "hostPort host port = host @ '':'' @ format_uint (unat port)"

definition safe_char :: "char \<Rightarrow> bool" where
  "safe_char c \<longleftrightarrow> is_lower c \<or> is_upper c \<or> is_digit c \<or> c \<in> set ''.:%_[]-''"

definition safeTarget :: "string \<Rightarrow> string" where
  "safeTarget t = (if length t > 64 then [] else if \<exists>c\<in>set t. \<not> safe_char c then [] else t)"

definition plainHTTPTarget :: "string \<Rightarrow> string" where
  "plainHTTPTarget t =
     (case cut_prefix t ''http://'' of
        None \<Rightarrow> []
      | Some rest \<Rightarrow> safeTarget (takeWhile (\<lambda>c. c \<notin> set ''/?#'') rest))"

section \<open>Reading a request\<close>

datatype conn_end = ConnEOF | ConnTimeout | ConnErr

record conn_reader =
  cr_data :: string
  cr_end :: conn_end

definition readBufSize :: nat where "readBufSize = 4096"

text \<open>\<open>bufio.Reader.ReadSlice\<close> up to a line feed, on a buffer of \<open>bufsz\<close> bytes.\<close>

datatype slice_err = ErrBufferFull | SliceEnd conn_end

definition read_slice :: "nat \<Rightarrow> conn_reader \<Rightarrow> string \<times> slice_err option \<times> conn_reader" where
  "read_slice bufsz r =
     (let d = cr_data r;
          full = (take bufsz d, Some ErrBufferFull, r\<lparr>cr_data := drop bufsz d\<rparr>) in
      case index_byte d (CHR 0x0A) of
        Some i \<Rightarrow> if i < bufsz then (take (Suc i) d, None, r\<lparr>cr_data := drop (Suc i) d\<rparr>) else full
      | None \<Rightarrow> if length d \<ge> bufsz then full else (d, Some (SliceEnd (cr_end r)), r\<lparr>cr_data := []\<rparr>))"

definition bad_line_char :: "char \<Rightarrow> bool" where
  "bad_line_char c \<longleftrightarrow> (byte c < 0x20 \<and> c \<noteq> CHR 0x09) \<or> byte c = 0x7f"

definition readLine :: "int \<Rightarrow> conn_reader \<Rightarrow> int \<Rightarrow> reject + string \<times> conn_reader \<times> int" where
  "readLine maxHeader r used0 =
     (case read_slice readBufSize r of (b, err, r') \<Rightarrow>
        let used = used0 + int (length b) in
        if err = Some ErrBufferFull \<or> used > maxHeader then Inl (deny 431 reasonHeaderTooLarge [])
        else (case err of
          Some (SliceEnd ConnTimeout) \<Rightarrow> Inl (deny 408 reasonHeaderTimeout [])
        | Some _ \<Rightarrow> Inl (deny 400 reasonBadRequest [])
        | None \<Rightarrow>
            if length b < 2 \<or> b ! (length b - 2) \<noteq> CHR 0x0D then Inl (deny 400 reasonBadRequest [])
            else let l = take (length b - 2) b in
            if \<exists>c\<in>set l. bad_line_char c then Inl (deny 400 reasonBadRequest [])
            else Inr (l, r', used)))"

definition token_char :: "char \<Rightarrow> bool" where
  "token_char c \<longleftrightarrow> is_lower c \<or> is_upper c \<or> is_digit c \<or>
     c \<in> set [CHR ''!'', CHR ''#'', CHR ''$'', CHR ''%'', CHR ''&'', CHR 0x27, CHR ''*'', CHR ''+'',
       CHR ''-'', CHR ''.'', CHR ''^'', CHR ''_'', CHR 0x60, CHR ''|'', CHR ''~'']"

definition validHeaderLine :: "string \<Rightarrow> bool" where
  "validHeaderLine h \<longleftrightarrow>
     (case index_byte h (CHR '':'') of
        None \<Rightarrow> False
      | Some i \<Rightarrow> i > 0 \<and> (\<forall>c\<in>set (take i h). token_char c))"

lemma readLine_shrinks:
  "readLine m r used = Inr (l, r', used') \<Longrightarrow> length (cr_data r') < length (cr_data r)"
  by (auto simp: readLine_def read_slice_def Let_def dest!: index_byte_Some
      split: option.splits if_splits slice_err.splits conn_end.splits)

text \<open>The loop of \<open>readRequest\<close> over the header lines. A line is at least two bytes, so it ends.\<close>

function readHeaders :: "int \<Rightarrow> conn_reader \<Rightarrow> int \<Rightarrow> reject + conn_reader" where
  "readHeaders m r used =
     (case readLine m r used of
        Inl rj \<Rightarrow> Inl rj
      | Inr (h, r', used') \<Rightarrow>
          if h = [] then Inr r'
          else if \<not> validHeaderLine h then Inl (deny 400 reasonBadRequest [])
          else readHeaders m r' used')"
  by pat_completeness auto
termination
  by (relation "measure (\<lambda>(m, r, used). length (cr_data r))") (auto dest: readLine_shrinks)

declare readHeaders.simps [simp del]

definition readRequest :: "int \<Rightarrow> conn_reader \<Rightarrow> reject + string \<times> 16 word \<times> conn_reader" where
  "readRequest m r =
     bindR (readLine m r 0) (\<lambda>(line, r1, used).
       let parts = split (CHR '' '') line in
       if length parts \<noteq> 3 \<or> (parts ! 2 \<noteq> ''HTTP/1.1'' \<and> parts ! 2 \<noteq> ''HTTP/1.0'') then
         Inl (deny 400 reasonBadRequest [])
       else bindR (readHeaders m r1 used) (\<lambda>r2.
         if parts ! 0 \<noteq> ''CONNECT'' then Inl (deny 405 reasonMethod (plainHTTPTarget (parts ! 1)))
         else (case splitTarget (parts ! 1) of
                 Inr (host, port) \<Rightarrow> Inr (host, port, r2)
               | Inl reasonIPLiteral \<Rightarrow> Inl (deny 403 reasonIPLiteral (safeTarget (parts ! 1)))
               | Inl reason \<Rightarrow> Inl (deny 400 reason (safeTarget (parts ! 1))))))"

section \<open>Lemmas\<close>

subsection \<open>Targets\<close>

lemma asciiLower_lower: "asciiLower s = lower s"
  by (simp add: asciiLower_def lower_char_def add.commute)

lemma validName_char:
  "validName h \<Longrightarrow> c \<in> set h \<Longrightarrow> is_lower c \<or> is_digit c \<or> c = CHR ''-'' \<or> c = CHR ''.''"
proof -
  assume v: "validName h" and c: "c \<in> set h"
  have "set h \<subseteq> \<Union> (set ` set (split (CHR ''.'') h)) \<union> {CHR ''.''}"
    by (rule set_subset_split)
  with c consider l where "l \<in> set (split (CHR ''.'') h)" "c \<in> set l" | "c = CHR ''.''" by auto
  then show ?thesis using v by cases (auto simp: validName_def)
qed

lemma lower_char_host:
  assumes "is_lower (lower_char c) \<or> is_digit (lower_char c) \<or> lower_char c = CHR ''-'' \<or> lower_char c = CHR ''.''"
  shows "c \<noteq> CHR ''@'' \<and> c \<noteq> CHR '':'' \<and> c \<noteq> CHR ''%'' \<and> c \<noteq> CHR ''['' \<and> c \<noteq> CHR '']'' \<and> safe_char c"
  using assms unfolding lower_char_def safe_char_def byte_class_defs by (auto split: if_splits)

lemma SplitHostPort_plain:
  "\<not> has_prefix s ''['' \<Longrightarrow> SplitHostPort s = Some (h, p) \<longleftrightarrow>
     s = h @ CHR '':'' # p \<and> CHR '':'' \<notin> set h \<and> CHR '':'' \<notin> set p \<and> CHR ''['' \<notin> set s \<and> CHR '']'' \<notin> set s"
proof -
  assume np: "\<not> has_prefix s ''[''"
  show ?thesis
  proof
    assume sp: "SplitHostPort s = Some (h, p)"
    then obtain i where i: "last_index_byte s (CHR '':'') = Some i"
      by (auto simp: SplitHostPort_def split: option.splits)
    note li = last_index_byte_Some [OF i]
    have "hd s \<noteq> CHR ''[''" using np li by (cases s) (auto simp: has_prefix_iff)
    then have "h = take i s" "p = drop (i + 1) s" "CHR '':'' \<notin> set h" "CHR ''['' \<notin> set s" "CHR '']'' \<notin> set s"
      using sp i by (auto simp: SplitHostPort_def split: if_splits)
    then show "s = h @ CHR '':'' # p \<and> CHR '':'' \<notin> set h \<and> CHR '':'' \<notin> set p \<and> CHR ''['' \<notin> set s \<and> CHR '']'' \<notin> set s"
      using li by simp
  next
    assume a: "s = h @ CHR '':'' # p \<and> CHR '':'' \<notin> set h \<and> CHR '':'' \<notin> set p \<and> CHR ''['' \<notin> set s \<and> CHR '']'' \<notin> set s"
    then have i: "last_index_byte s (CHR '':'') = Some (length h)" by (simp add: last_index_byte_append)
    have "hd s \<noteq> CHR ''[''" using np a by (metis append_is_Nil_conv hd_in_set list.distinct(1))
    then show "SplitHostPort s = Some (h, p)" using a i by (auto simp: SplitHostPort_def)
  qed
qed

lemma splitTarget_iff:
  "splitTarget t = Inr (h, p) \<longleftrightarrow>
     (\<exists>h0. t = h0 @ '':'' @ format_uint (unat p) \<and> h = lower h0 \<and> validName h \<and>
        \<not> is_digit (hd (after_last (CHR ''.'') h)) \<and> p \<noteq> 0)"
proof
  assume a: "splitTarget t = Inr (h, p)"
  then obtain h0 ps n where sp: "SplitHostPort t = Some (h0, ps)" "\<not> has_prefix t ''[''"
    and h: "h = lower h0" "validName h" "\<not> is_digit (hd (after_last (CHR ''.'') h))"
    and n: "parse_uint 16 ps = Some n" "n \<noteq> 0" "format_uint n = ps" "p = word_of_nat n"
    unfolding splitTarget_def by (auto simp: Let_def asciiLower_lower split: if_splits option.splits)
  have "unat p = n" using n(4) parse_uint_less [OF n(1)] by (simp add: unat_of_nat)
  moreover have "p \<noteq> 0" using \<open>unat p = n\<close> n(2) by auto
  ultimately show "\<exists>h0. t = h0 @ '':'' @ format_uint (unat p) \<and> h = lower h0 \<and> validName h \<and>
        \<not> is_digit (hd (after_last (CHR ''.'') h)) \<and> p \<noteq> 0"
    using SplitHostPort_plain [OF sp(2), THEN iffD1, OF sp(1)] h n by (intro exI [of _ h0]) simp
next
  assume "\<exists>h0. t = h0 @ '':'' @ format_uint (unat p) \<and> h = lower h0 \<and> validName h \<and>
        \<not> is_digit (hd (after_last (CHR ''.'') h)) \<and> p \<noteq> 0"
  then obtain h0 where t: "t = h0 @ '':'' @ format_uint (unat p)" and h: "h = lower h0" "validName h"
    and d: "\<not> is_digit (hd (after_last (CHR ''.'') h))" and p: "p \<noteq> 0" by blast
  have ch: "c \<noteq> CHR ''@'' \<and> c \<noteq> CHR '':'' \<and> c \<noteq> CHR ''%'' \<and> c \<noteq> CHR ''['' \<and> c \<noteq> CHR '']''" if "c \<in> set h0" for c
    using validName_char [OF h(2), of "lower_char c"] lower_char_host [of c] that h(1) by auto
  have cf: "c \<noteq> CHR ''@'' \<and> c \<noteq> CHR '':'' \<and> c \<noteq> CHR ''['' \<and> c \<noteq> CHR '']''" if "c \<in> set (format_uint n)" for c n
    using format_uint_char [OF that] by (auto simp: is_digit_def)
  have h0: "h0 \<noteq> []" using h by (auto simp: validName_def)
  have np: "\<not> has_prefix t ''[''" using h0 ch t by (cases h0) (auto simp: has_prefix_iff)
  have "SplitHostPort t = Some (h0, format_uint (unat p))"
    unfolding SplitHostPort_plain [OF np] using t ch cf by auto
  moreover have "CHR ''@'' \<notin> set t" "\<not> contains_any h0 '':%''" using t ch cf by (auto simp: contains_any_def)
  moreover have "unat p < 2 ^ 16" using unsigned_less [of p, where ?'a = nat] by simp
  moreover have "unat p \<noteq> 0" using p by (simp add: unat_eq_zero)
  ultimately show "splitTarget t = Inr (h, p)"
    using h d h0 np by (simp add: splitTarget_def asciiLower_lower)
qed

subsection \<open>Requests\<close>

definition crlf :: string where
  "crlf = [CHR 0x0D, CHR 0x0A]"

definition line_ok :: "string \<Rightarrow> bool" where
  "line_ok l \<longleftrightarrow> length l + 2 \<le> readBufSize \<and> (\<forall>c\<in>set l. \<not> bad_line_char c)"

definition took :: "conn_reader \<Rightarrow> string \<Rightarrow> conn_reader \<Rightarrow> bool" where
  "took r bs r' \<longleftrightarrow> cr_data r = bs @ cr_data r' \<and> cr_end r' = cr_end r"

lemma took_append: "took r (a @ b) r'' \<longleftrightarrow> (\<exists>r'. took r a r' \<and> took r' b r'')"
  by (auto simp: took_def intro: exI [of _ "r\<lparr>cr_data := b @ cr_data r''\<rparr>"])

lemma line_ok_LF: "line_ok l \<Longrightarrow> CHR 0x0A \<notin> set l"
  by (auto simp: line_ok_def bad_line_char_def)

lemma readLine_iff:
  "readLine m r used = Inr (l, r', used') \<longleftrightarrow>
     took r (l @ crlf) r' \<and> line_ok l \<and> used' = used + int (length l) + 2 \<and> used' \<le> m"
proof
  assume a: "readLine m r used = Inr (l, r', used')"
  then obtain i where i: "index_byte (cr_data r) (CHR 0x0A) = Some i" "i < readBufSize"
    and r': "r' = r\<lparr>cr_data := drop (Suc i) (cr_data r)\<rparr>" and u: "used' = used + int (length (take (Suc i) (cr_data r)))" "used' \<le> m"
    and len: "\<not> length (take (Suc i) (cr_data r)) < 2" and cr: "take (Suc i) (cr_data r) ! (length (take (Suc i) (cr_data r)) - 2) = CHR 0x0D"
    and l: "l = take (length (take (Suc i) (cr_data r)) - 2) (take (Suc i) (cr_data r))" and bad: "\<forall>c\<in>set l. \<not> bad_line_char c"
    by (auto simp: readLine_def read_slice_def Let_def split: option.splits if_splits slice_err.splits conn_end.splits)
  from index_byte_Some [OF i(1)] have li: "i < length (cr_data r)" "cr_data r ! i = CHR 0x0A" by auto
  then have lt: "length (take (Suc i) (cr_data r)) = Suc i" by simp
  with len obtain j where j: "i = Suc j" by (cases i) auto
  have "take (Suc i) (cr_data r) = take j (cr_data r) @ [cr_data r ! j, cr_data r ! i]"
    using li j by (simp add: take_Suc_conv_app_nth)
  moreover have "cr_data r ! j = CHR 0x0D" "l = take j (cr_data r)" using cr l lt j by simp_all
  ultimately have t: "take (Suc i) (cr_data r) = l @ crlf" using li by (simp add: crlf_def)
  then have "cr_data r = (l @ crlf) @ drop (Suc i) (cr_data r)" by (metis append_take_drop_id)
  moreover have "length l = j" using \<open>l = take j (cr_data r)\<close> li j by simp
  ultimately show "took r (l @ crlf) r' \<and> line_ok l \<and> used' = used + int (length l) + 2 \<and> used' \<le> m"
    using r' u lt bad i(2) j by (simp add: took_def line_ok_def)
next
  assume a: "took r (l @ crlf) r' \<and> line_ok l \<and> used' = used + int (length l) + 2 \<and> used' \<le> m"
  then have d: "cr_data r = (l @ [CHR 0x0D]) @ CHR 0x0A # cr_data r'" by (simp add: took_def crlf_def)
  have "CHR 0x0A \<notin> set (l @ [CHR 0x0D])" using a line_ok_LF by auto
  from index_byte_append [OF this, of "cr_data r'"]
  have i: "index_byte (cr_data r) (CHR 0x0A) = Some (Suc (length l))" by (simp add: d)
  have b: "take (Suc (Suc (length l))) (cr_data r) = l @ crlf" by (simp add: d crlf_def)
  have r': "r' = r\<lparr>cr_data := drop (Suc (Suc (length l))) (cr_data r)\<rparr>" using a d by (simp add: took_def)
  have "read_slice readBufSize r = (l @ crlf, None, r')"
    using a i b r' by (simp add: read_slice_def line_ok_def)
  then show "readLine m r used = Inr (l, r', used')"
    using a by (auto simp: readLine_def line_ok_def crlf_def nth_append)
qed

definition header_ok :: "string \<Rightarrow> bool" where
  "header_ok h \<longleftrightarrow> line_ok h \<and> h \<noteq> [] \<and> validHeaderLine h"

definition encode_lines :: "string list \<Rightarrow> string" where
  "encode_lines ls = concat (map (\<lambda>l. l @ crlf) ls)"

lemma encode_lines_simps [simp]:
  "encode_lines [] = []" "encode_lines (l # ls) = l @ crlf @ encode_lines ls" "length crlf = 2"
  by (simp_all add: encode_lines_def crlf_def)

lemma line_ok_Nil [simp]: "line_ok []"
  by (simp add: line_ok_def readBufSize_def)

lemma readHeaders_sound:
  "readHeaders m r used = Inr r' \<Longrightarrow>
   \<exists>hs. list_all header_ok hs \<and> took r (encode_lines (hs @ [[]])) r' \<and>
     used + int (length (encode_lines (hs @ [[]]))) \<le> m"
proof (induction m r used rule: readHeaders.induct)
  case (1 m r used)
  from "1.prems" obtain h r1 used1 where rl: "readLine m r used = Inr (h, r1, used1)"
    by (subst (asm) readHeaders.simps) (auto split: sum.splits)
  note l = rl [unfolded readLine_iff]
  show ?case
  proof (cases "h = []")
    case True
    with "1.prems" rl have "r1 = r'" by (subst (asm) readHeaders.simps) simp
    with True l show ?thesis by (intro exI [of _ "[]"]) simp
  next
    case False
    with "1.prems" rl have v: "validHeaderLine h" and rec: "readHeaders m r1 used1 = Inr r'"
      by (auto simp: readHeaders.simps [of m r used] split: if_splits)
    from "1.IH" [OF rl refl refl False _ rec] v obtain hs where
      hs: "list_all header_ok hs" "took r1 (encode_lines (hs @ [[]])) r'"
        "used1 + int (length (encode_lines (hs @ [[]]))) \<le> m" by auto
    moreover have "header_ok h" using l False v by (simp add: header_ok_def)
    moreover have "took r ((h @ crlf) @ encode_lines (hs @ [[]])) r'" using l hs unfolding took_append by blast
    ultimately show ?thesis using l by (intro exI [of _ "h # hs"]) simp
  qed
qed

lemma readHeaders_complete:
  "list_all header_ok hs \<Longrightarrow> took r (encode_lines (hs @ [[]])) r' \<Longrightarrow>
   used + int (length (encode_lines (hs @ [[]]))) \<le> m \<Longrightarrow> readHeaders m r used = Inr r'"
proof (induction hs arbitrary: r used)
  case Nil
  then have "readLine m r used = Inr ([], r', used + 2)" by (simp add: readLine_iff)
  then show ?case by (simp add: readHeaders.simps)
next
  case (Cons h hs)
  then obtain r1 where r1: "took r (h @ crlf) r1" "took r1 (encode_lines (hs @ [[]])) r'"
    using took_append [of r "h @ crlf" "encode_lines (hs @ [[]])" r'] by auto
  with Cons.prems have "readLine m r used = Inr (h, r1, used + int (length h) + 2)"
    by (auto simp: readLine_iff header_ok_def)
  moreover have "readHeaders m r1 (used + int (length h) + 2) = Inr r'"
    using Cons.prems r1 by (intro Cons.IH) auto
  ultimately show ?case using Cons.prems by (simp add: readHeaders.simps [of m r used] header_ok_def)
qed

lemma splitTarget_chars: "splitTarget t = Inr (h, p) \<Longrightarrow> c \<in> set t \<Longrightarrow> safe_char c"
proof -
  assume t: "splitTarget t = Inr (h, p)" and c: "c \<in> set t"
  then obtain h0 where t: "t = h0 @ '':'' @ format_uint (unat p)" and h: "h = lower h0" "validName h"
    by (auto simp: splitTarget_iff)
  have "safe_char c" if "c \<in> set h0"
    using validName_char [OF h(2), of "lower_char c"] lower_char_host [of c] that h(1) by auto
  moreover have "safe_char c" if "c \<in> set (format_uint (unat p))"
    using format_uint_char [OF that] by (simp add: safe_char_def)
  moreover have "safe_char (CHR '':'')" by (simp add: safe_char_def)
  ultimately show ?thesis using t c by auto
qed

lemma readRequest_Inr_iff:
  "readRequest m r = Inr (host, port, r') \<longleftrightarrow>
     (\<exists>line r1 used t v. readLine m r 0 = Inr (line, r1, used) \<and> split (CHR '' '') line = [''CONNECT'', t, v] \<and>
        v \<in> {''HTTP/1.1'', ''HTTP/1.0''} \<and> readHeaders m r1 used = Inr r' \<and> splitTarget t = Inr (host, port))"
proof
  assume a: "readRequest m r = Inr (host, port, r')"
  then obtain line r1 used where rl: "readLine m r 0 = Inr (line, r1, used)"
    by (cases "readLine m r 0") (auto simp: readRequest_def)
  let ?ps = "split (CHR '' '') line"
  have b1: "length ?ps = 3 \<and> ?ps ! 2 \<in> {''HTTP/1.1'', ''HTTP/1.0''}"
    using a rl by (simp add: readRequest_def Let_def split: if_splits)
  then obtain r2 where b2: "readHeaders m r1 used = Inr r2"
    using a rl by (cases "readHeaders m r1 used") (auto simp: readRequest_def Let_def)
  have b3: "?ps ! 0 = ''CONNECT''"
    using a rl b1 b2 by (auto simp: readRequest_def Let_def split: if_splits)
  have "splitTarget (?ps ! 1) = Inr (host, port) \<and> r2 = r'"
  proof (cases "splitTarget (?ps ! 1)")
    case (Inl e)
    with a rl b1 b2 b3 show ?thesis by (cases e) (auto simp: readRequest_def Let_def)
  next
    case (Inr x)
    with a rl b1 b2 b3 show ?thesis by (cases x) (auto simp: readRequest_def Let_def)
  qed
  with b1 b2 b3 have b: "length ?ps = 3" "?ps ! 2 \<in> {''HTTP/1.1'', ''HTTP/1.0''}" "?ps ! 0 = ''CONNECT''"
    "readHeaders m r1 used = Inr r'" "splitTarget (?ps ! 1) = Inr (host, port)" by simp_all
  obtain x t v where "split (CHR '' '') line = [x, t, v]"
    using b(1) by (auto simp: numeral_3_eq_3 length_Suc_conv)
  with rl b show "\<exists>line r1 used t v. readLine m r 0 = Inr (line, r1, used) \<and> split (CHR '' '') line = [''CONNECT'', t, v] \<and>
        v \<in> {''HTTP/1.1'', ''HTTP/1.0''} \<and> readHeaders m r1 used = Inr r' \<and> splitTarget t = Inr (host, port)"
    by auto
next
  assume "\<exists>line r1 used t v. readLine m r 0 = Inr (line, r1, used) \<and> split (CHR '' '') line = [''CONNECT'', t, v] \<and>
        v \<in> {''HTTP/1.1'', ''HTTP/1.0''} \<and> readHeaders m r1 used = Inr r' \<and> splitTarget t = Inr (host, port)"
  then show "readRequest m r = Inr (host, port, r')" by (auto simp: readRequest_def)
qed

lemma readRequest_iff:
  "readRequest m r = Inr (host, port, r') \<longleftrightarrow>
     (\<exists>t v hs. v \<in> {''HTTP/1.1'', ''HTTP/1.0''} \<and> splitTarget t = Inr (host, port) \<and>
        line_ok (''CONNECT '' @ t @ '' '' @ v) \<and> list_all header_ok hs \<and>
        cr_data r = encode_lines ((''CONNECT '' @ t @ '' '' @ v) # hs @ [[]]) @ cr_data r' \<and> cr_end r' = cr_end r \<and>
        int (length (encode_lines ((''CONNECT '' @ t @ '' '' @ v) # hs @ [[]]))) \<le> m)"
  (is "_ \<longleftrightarrow> (\<exists>t v hs. ?P t v hs)")
proof
  assume "readRequest m r = Inr (host, port, r')"
  then obtain line r1 used t v where rl: "readLine m r 0 = Inr (line, r1, used)"
    and l: "split (CHR '' '') line = [''CONNECT'', t, v]" "v \<in> {''HTTP/1.1'', ''HTTP/1.0''}"
    and rh: "readHeaders m r1 used = Inr r'" and t: "splitTarget t = Inr (host, port)"
    unfolding readRequest_Inr_iff by blast
  from l(1) have line: "line = ''CONNECT '' @ t @ '' '' @ v" by (simp add: split_eq_iff)
  from readHeaders_sound [OF rh] obtain hs where hs: "list_all header_ok hs"
    "took r1 (encode_lines (hs @ [[]])) r'" "used + int (length (encode_lines (hs @ [[]]))) \<le> m" by blast
  have "?P t v hs" using rl t l(2) hs unfolding readLine_iff line took_def by simp
  then show "\<exists>t v hs. ?P t v hs" by blast
next
  assume "\<exists>t v hs. ?P t v hs"
  then obtain t v hs where P: "?P t v hs" by blast
  define line where "line = ''CONNECT '' @ t @ '' '' @ v"
  define r1 where "r1 = r\<lparr>cr_data := encode_lines (hs @ [[]]) @ cr_data r'\<rparr>"
  have "CHR '' '' \<notin> set t" using P splitTarget_chars [of t host port "CHR '' ''"] by (auto simp: safe_char_def byte_class_defs)
  then have "split (CHR '' '') line = [''CONNECT'', t, v]" using P by (auto simp: split_eq_iff line_def)
  moreover have "readLine m r 0 = Inr (line, r1, int (length line) + 2)"
    using P unfolding readLine_iff by (simp add: took_def r1_def line_def)
  moreover have "readHeaders m r1 (int (length line) + 2) = Inr r'"
    using P by (intro readHeaders_complete [of hs]) (auto simp: took_def r1_def line_def)
  ultimately show "readRequest m r = Inr (host, port, r')"
    unfolding readRequest_Inr_iff using P by blast
qed

section \<open>Properties\<close>

text \<open>
  The targets a CONNECT may name. \<open>splitTarget\<close> accepts exactly \<open>host:port\<close> with a DNS name
  (in any case, returned in lower case) whose last label does not start with a digit, and a port
  from 1 to 65535 in its shortest decimal form. In particular there is no user information, no IP
  literal and no second spelling of the same port.
\<close>

theorem splitTarget_exact:
  "splitTarget t = Inr (h, p) \<longleftrightarrow>
     (\<exists>h0. t = h0 @ '':'' @ format_uint (unat p) \<and> h = lower h0 \<and> validName h \<and>
        \<not> is_digit (hd (after_last (CHR ''.'') h)) \<and> p \<noteq> 0)"
  by (rule splitTarget_iff)

text \<open>
  C37: Reading a CONNECT request is exact. It succeeds with a host, a port and the rest of the stream
  exactly when the stream starts with a CONNECT request line for that target, well-formed header
  lines and an empty line, each within the buffer and all within the header limit; everything
  behind the header is left for the relay.
\<close>

theorem readRequest_exact:
  "readRequest m r = Inr (host, port, r') \<longleftrightarrow>
     (\<exists>t v hs. v \<in> {''HTTP/1.1'', ''HTTP/1.0''} \<and> splitTarget t = Inr (host, port) \<and>
        line_ok (''CONNECT '' @ t @ '' '' @ v) \<and> list_all header_ok hs \<and>
        cr_data r = encode_lines ((''CONNECT '' @ t @ '' '' @ v) # hs @ [[]]) @ cr_data r' \<and> cr_end r' = cr_end r \<and>
        int (length (encode_lines ((''CONNECT '' @ t @ '' '' @ v) # hs @ [[]]))) \<le> m)"
  by (rule readRequest_iff)

end
