(* ===== verification/Egress_Server.thy ===== *)
theory Egress_Server
  imports Egress_Request
begin

text \<open>
  The CONNECT proxy (package egress: egress.go, audit.go, hosts.go, relay.go): configuration,
  the handling of one connection, the dialling of the upstream, and the bookkeeping of connections
  that \<open>accepted\<close> and \<open>Close\<close> share.

  What the network does is the record \<open>net_env\<close>: what the resolver returns, which connections
  succeed, how much time is left, whether the log and the client take what is written. The handler
  itself is a function to the list of its effects, in order.
\<close>

section \<open>Configuration\<close>

record config =
  cfg_Allow :: "string list"
  cfg_Audit :: bool
  cfg_MaxConns :: int
  cfg_MaxHeaderBytes :: int
  cfg_HeaderTimeout :: int
  cfg_DialTimeout :: int
  cfg_IdleTimeout :: int
  cfg_MaxBodyBytes :: int

definition second :: int where "second = 1000000000"

definition defaultMaxConns :: int where "defaultMaxConns = 128"
definition defaultMaxHeaderBytes :: int where "defaultMaxHeaderBytes = 8 * 1024"
definition defaultHeaderTimeout :: int where "defaultHeaderTimeout = 10 * second"
definition defaultDialTimeout :: int where "defaultDialTimeout = 10 * second"
definition defaultIdleTimeout :: int where "defaultIdleTimeout = 5 * 60 * second"
definition defaultMaxBodyBytes :: int where "defaultMaxBodyBytes = 512 * 1024 * 1024"
definition minBodyThroughput :: int where "minBodyThroughput = 64 * 1024"
definition maxAddrs :: nat where "maxAddrs = 8"

text \<open>\<open>time.Duration(n) * time.Second\<close> is a product of 64 bit integers and wraps.\<close>

definition maxBodyReadDuration :: "config \<Rightarrow> int" where
  "maxBodyReadDuration cfg =
     (let prod = sint (word_of_int (cfg_MaxBodyBytes cfg * second) :: 64 word);
          d = (if prod < 0 then - ((- prod) div minBodyThroughput) else prod div minBodyThroughput) in
      if d < cfg_IdleTimeout cfg then cfg_IdleTimeout cfg else d)"

datatype config_err = AuditNil | NegativeLimit | BadAllow reason

definition or_default :: "int \<Rightarrow> int \<Rightarrow> int" where
  "or_default v d = (if v = 0 then d else v)"

text \<open>The table of allowed targets is filled in order; the entries before a bad one stay in it.\<close>

fun setup_allow :: "string list \<Rightarrow> string list \<Rightarrow> string list \<times> config_err option" where
  "setup_allow [] allow = (allow, None)"
| "setup_allow (a # rest) allow =
     (case splitTarget a of
        Inl reason \<Rightarrow> (allow, Some (BadAllow reason))
      | Inr (host, port) \<Rightarrow> setup_allow rest (List.insert (hostPort host port) allow))"

text \<open>\<open>setup\<close> changes the configuration in place also when it fails later, so it returns both.\<close>

definition server_setup :: "config \<Rightarrow> config \<times> string list \<times> config_err option" where
  "server_setup c =
     (if \<not> cfg_Audit c then (c, [], Some AuditNil)
      else if cfg_MaxConns c < 0 \<or> cfg_MaxHeaderBytes c < 0 \<or> cfg_HeaderTimeout c < 0 \<or> cfg_DialTimeout c < 0 \<or>
        cfg_IdleTimeout c < 0 \<or> cfg_MaxBodyBytes c < 0 then (c, [], Some NegativeLimit)
      else
        (c\<lparr>cfg_MaxConns := or_default (cfg_MaxConns c) defaultMaxConns,
           cfg_MaxHeaderBytes := or_default (cfg_MaxHeaderBytes c) defaultMaxHeaderBytes,
           cfg_HeaderTimeout := or_default (cfg_HeaderTimeout c) defaultHeaderTimeout,
           cfg_DialTimeout := or_default (cfg_DialTimeout c) defaultDialTimeout,
           cfg_IdleTimeout := or_default (cfg_IdleTimeout c) defaultIdleTimeout,
           cfg_MaxBodyBytes := or_default (cfg_MaxBodyBytes c) defaultMaxBodyBytes\<rparr>,
         setup_allow (cfg_Allow c) []))"

record server =
  srv_cfg :: config
  srv_allow :: "string list"
  srv_err :: "config_err option"
  srv_cap :: nat

definition New_server :: "config \<Rightarrow> server" where
  "New_server cfg =
     (case server_setup cfg of (c, allow, err) \<Rightarrow>
        \<lparr>srv_cfg = c, srv_allow = allow, srv_err = err, srv_cap = nat (max (cfg_MaxConns c) 1)\<rparr>)"

definition ClaudeHosts :: "string list" where
  "ClaudeHosts = [''api.anthropic.com:443'', ''platform.claude.com:443'']"

definition OpenCodeHosts :: "string list" where
  "OpenCodeHosts = [''opencode.ai:443'']"

section \<open>Dialling\<close>

datatype net_err = NetDeadline | NetTimeout | NetOther

datatype dial_err = ForbiddenAddrError addr | ErrResolve net_err | DialFailed net_err

record net_env =
  env_lookup :: "string \<Rightarrow> net_err + addr list"
  env_connect :: "addr \<Rightarrow> 16 word \<Rightarrow> net_err + unit"
  env_left :: "nat \<Rightarrow> int"
  env_ctx_err :: "nat \<Rightarrow> bool"
  env_closed :: bool
  env_audit_ok :: bool
  env_write_ok :: "nat \<Rightarrow> bool"

text \<open>\<open>control\<close> sees the address the dialer is about to connect to, or text it cannot parse.\<close>

definition control :: "addr option \<Rightarrow> dial_err + unit" where
  "control address =
     (case address of
        None \<Rightarrow> Inl (DialFailed NetOther)
      | Some a \<Rightarrow> if forbidden a then Inl (ForbiddenAddrError (Unmap a)) else Inr ())"

text \<open>\<open>net.Dialer.DialContext\<close> on an address: \<open>Control\<close> runs before the connection is made.\<close>

definition dial :: "net_env \<Rightarrow> addr \<Rightarrow> 16 word \<Rightarrow> dial_err + unit" where
  "dial env a port =
     bindR (control (Some a)) (\<lambda>_.
       case env_connect env a port of Inl e \<Rightarrow> Inl (DialFailed e) | Inr _ \<Rightarrow> Inr ())"

definition or_first :: "'a option \<Rightarrow> 'a \<Rightarrow> 'a option" where
  "or_first o' x = (case o' of None \<Rightarrow> Some x | Some _ \<Rightarrow> o')"

definition dial_result :: "dial_err option \<Rightarrow> dial_err option \<Rightarrow> dial_err + addr" where
  "dial_result forb other =
     (case other of Some e \<Rightarrow> Inl e
      | None \<Rightarrow> (case forb of Some e \<Rightarrow> Inl e | None \<Rightarrow> Inr AddrInvalid))"

text \<open>
  The loop of \<open>dialUpstream\<close> over the addresses; \<open>n\<close> is their number and \<open>i\<close> the index of the next
  one. The last clause of \<open>dial_result\<close> stands for the return with neither error set; it is never
  reached (lemma \<open>dial_loop_valid\<close>).
\<close>

fun dial_loop ::
  "net_env \<Rightarrow> 16 word \<Rightarrow> nat \<Rightarrow> nat \<Rightarrow> addr list \<Rightarrow> dial_err option \<Rightarrow> dial_err option \<Rightarrow> dial_err + addr" where
  "dial_loop env port n i [] forb other = dial_result forb other"
| "dial_loop env port n i (a # rest) forb other =
     (if env_left env i div int (n - i) \<le> 0 then dial_result forb (Some (DialFailed NetDeadline))
      else (case dial env a port of
              Inr _ \<Rightarrow> Inr (Unmap a)
            | Inl (ForbiddenAddrError x) \<Rightarrow>
                dial_loop env port n (Suc i) rest (or_first forb (ForbiddenAddrError x)) other
            | Inl e \<Rightarrow>
                if env_ctx_err env i then dial_result forb (or_first other e)
                else dial_loop env port n (Suc i) rest forb (or_first other e)))"

definition dialUpstream :: "net_env \<Rightarrow> string \<Rightarrow> 16 word \<Rightarrow> dial_err + addr" where
  "dialUpstream env host port =
     (case env_lookup env host of
        Inl e \<Rightarrow> Inl (ErrResolve e)
      | Inr addrs0 \<Rightarrow>
          if addrs0 = [] then Inl (ErrResolve NetOther)
          else let addrs = take maxAddrs addrs0 in
            dial_loop env port (length addrs) 0 addrs None None)"

fun net_timeout :: "net_err \<Rightarrow> bool" where
  "net_timeout NetDeadline = True"
| "net_timeout NetTimeout = True"
| "net_timeout NetOther = False"

definition dial_reject :: "nat \<Rightarrow> reason \<Rightarrow> reject" where
  "dial_reject code reason =
     \<lparr>rj_event = EventError, rj_code = code, rj_reason = reason, rj_target = [], rj_ip = None\<rparr>"

fun classifyDial :: "dial_err \<Rightarrow> reject" where
  "classifyDial (ForbiddenAddrError a) = (deny 403 reasonForbiddenIP [])\<lparr>rj_ip := Some a\<rparr>"
| "classifyDial (ErrResolve e) =
     (if net_timeout e then dial_reject 504 reasonDialTimeout else dial_reject 502 reasonResolveFailed)"
| "classifyDial (DialFailed e) =
     (if net_timeout e then dial_reject 504 reasonDialTimeout else dial_reject 502 reasonDialFailed)"

section \<open>Handling a connection\<close>

record audit_record =
  au_Event :: audit_event
  au_Conn :: "64 word"
  au_Target :: string
  au_Reason :: reason
  au_Status :: nat
  au_IP :: "addr option"

datatype effect =
    EAudit audit_record bool
  | EStatus nat
  | ERelay addr "16 word" conn_reader
  | ECloseUp
  | ECloseClient

definition refuse :: "net_env \<Rightarrow> 64 word \<Rightarrow> reject \<Rightarrow> effect list" where
  "refuse env cid rj =
     [EAudit \<lparr>au_Event = rj_event rj, au_Conn = cid, au_Target = rj_target rj, au_Reason = rj_reason rj,
        au_Status = rj_code rj, au_IP = rj_ip rj\<rparr> (env_audit_ok env),
      EStatus (rj_code rj), ECloseClient]"

definition allow_record :: "64 word \<Rightarrow> string \<Rightarrow> addr \<Rightarrow> audit_record" where
  "allow_record cid target ip =
     \<lparr>au_Event = EventAllow, au_Conn = cid, au_Target = target, au_Reason = reasonAllowlist, au_Status = 200, au_IP = Some ip\<rparr>"

definition handle :: "server \<Rightarrow> net_env \<Rightarrow> conn_reader \<Rightarrow> 64 word \<Rightarrow> effect list" where
  "handle s env r cid =
     (case readRequest (cfg_MaxHeaderBytes (srv_cfg s)) r of
        Inl rj \<Rightarrow> refuse env cid rj @ [ECloseClient]
      | Inr (host, port, rest) \<Rightarrow>
          let target = hostPort host port in
          if target \<notin> set (srv_allow s) then refuse env cid (deny 403 reasonNotAllowed target) @ [ECloseClient]
          else (case dialUpstream env host port of
            Inl e \<Rightarrow>
              if env_closed env then [ECloseClient]
              else refuse env cid ((classifyDial e)\<lparr>rj_target := target\<rparr>) @ [ECloseClient]
          | Inr ip \<Rightarrow>
              EAudit (allow_record cid target ip) (env_audit_ok env) #
              (if \<not> env_audit_ok env then [EStatus 503, ECloseUp, ECloseClient]
               else if \<not> env_write_ok env 200 then [EStatus 200, ECloseUp, ECloseClient]
               else [EStatus 200, ERelay ip port rest, ECloseUp, ECloseClient])))"

text \<open>The status line and headers of \<open>writeStatus\<close>.\<close>

fun statusText :: "nat \<Rightarrow> string" where
  "statusText c =
     (if c = 200 then ''Connection Established'' else if c = 400 then ''Bad Request''
      else if c = 403 then ''Forbidden'' else if c = 405 then ''Method Not Allowed''
      else if c = 408 then ''Request Timeout'' else if c = 431 then ''Request Header Fields Too Large''
      else if c = 502 then ''Bad Gateway'' else if c = 503 then ''Service Unavailable''
      else if c = 504 then ''Gateway Timeout'' else [])"

definition writeStatus :: "nat \<Rightarrow> string" where
  "writeStatus code =
     ''HTTP/1.1 '' @ format_uint code @ '' '' @ statusText code @ crlf @
     (if code = 200 then []
      else if code = 405 then ''Allow: CONNECT'' @ crlf @ ''Connection: close'' @ crlf @ ''Content-Length: 0'' @ crlf
      else ''Connection: close'' @ crlf @ ''Content-Length: 0'' @ crlf) @ crlf"

section \<open>Relaying\<close>

text \<open>
  One direction of the relay. A read gives bytes and possibly an end: \<open>None\<close> more to come,
  \<open>Some True\<close> the end of the stream, \<open>Some False\<close> an error. \<open>w\<close> says whether each write succeeds,
  \<open>cw\<close> whether the destination has a \<open>CloseWrite\<close> and whether it succeeds.
  A stream of reads that stops without an end is one that is still blocked.
\<close>

datatype pipe_action = PTouch | PWrite string | PCloseWrite | PAbort

fun pipe :: "(string \<times> bool option) list \<Rightarrow> (string \<Rightarrow> bool) \<Rightarrow> bool option \<Rightarrow> pipe_action list" where
  "pipe [] w cw = []"
| "pipe ((bs, fin) # rs) w cw =
     (if bs \<noteq> [] \<and> \<not> w bs then [PTouch, PWrite bs, PAbort]
      else (if bs \<noteq> [] then [PTouch, PWrite bs, PTouch] else []) @
        (case fin of
           None \<Rightarrow> pipe rs w cw
         | Some eof \<Rightarrow>
             if \<not> eof then [PAbort]
             else (case cw of None \<Rightarrow> [PAbort] | Some ok \<Rightarrow> PCloseWrite # (if ok then [] else [PAbort]))))"

section \<open>Lemmas\<close>

subsection \<open>Configuration\<close>

lemma setup_allow_None:
  "setup_allow cs acc = (allow, None) \<Longrightarrow>
   set allow = set acc \<union> {hostPort h p |h p. \<exists>a\<in>set cs. splitTarget a = Inr (h, p)} \<and>
   (\<forall>a\<in>set cs. \<not> failed (splitTarget a))"
proof (induction cs arbitrary: acc)
  case (Cons a cs)
  from Cons.prems obtain h p where t: "splitTarget a = Inr (h, p)"
    and rest: "setup_allow cs (List.insert (hostPort h p) acc) = (allow, None)"
    by (auto split: sum.splits prod.splits)
  from Cons.IH [OF rest] t show ?case by auto
qed simp

lemma setup_allow_targets:
  "setup_allow cs acc = (allow, err) \<Longrightarrow> x \<in> set allow \<Longrightarrow>
   x \<in> set acc \<or> (\<exists>h p. x = hostPort h p \<and> (\<exists>a\<in>set cs. splitTarget a = Inr (h, p)))"
proof (induction cs arbitrary: acc)
  case (Cons a cs)
  show ?case
  proof (cases "splitTarget a")
    case (Inl e)
    with Cons.prems show ?thesis by simp
  next
    case (Inr hp)
    obtain h p where hp: "hp = (h, p)" by (cases hp)
    from Cons.IH [of "List.insert (hostPort h p) acc"] Cons.prems Inr hp show ?thesis by fastforce
  qed
qed simp

subsection \<open>Dialling\<close>

lemma dial_Inr_iff: "dial env a port = Inr u \<longleftrightarrow> \<not> forbidden a \<and> env_connect env a port = Inr ()"
  by (auto simp: dial_def control_def split: sum.splits)

lemma dial_Inl_cases:
  assumes "dial env a port = Inl e"
  obtains "forbidden a" "e = ForbiddenAddrError (Unmap a)" | f where "\<not> forbidden a" "e = DialFailed f" "env_connect env a port = Inl f"
  using assms by (auto simp: dial_def control_def split: if_splits sum.splits)

lemma or_first_not_None [simp]: "or_first o' x \<noteq> None"
  by (cases o') (auto simp: or_first_def)

lemma dial_result_Inr: "dial_result forb other = Inr a \<Longrightarrow> forb = None \<and> other = None"
  by (auto simp: dial_result_def split: option.splits)

lemma dial_loop_Inr:
  "dial_loop env port n i addrs forb other = Inr x \<Longrightarrow> addrs \<noteq> [] \<or> forb \<noteq> None \<or> other \<noteq> None \<Longrightarrow>
   \<exists>a\<in>set addrs. x = Unmap a \<and> \<not> forbidden a \<and> env_connect env a port = Inr ()"
proof (induction env port n i addrs forb other rule: dial_loop.induct)
  case (1 env port n i forb other)
  then show ?case by (auto dest: dial_result_Inr)
next
  case (2 env port n i a rest forb other)
  have left: "\<not> env_left env i div int (n - i) \<le> 0"
    using "2.prems"(1) by (auto dest: dial_result_Inr)
  show ?case
  proof (cases "dial env a port")
    case (Inr u)
    with "2.prems" left show ?thesis by (auto simp: dial_Inr_iff)
  next
    case (Inl e)
    from dial_Inl_cases [OF this] show ?thesis
    proof cases
      case 1
      then have "dial_loop env port n (Suc i) rest (or_first forb (ForbiddenAddrError (Unmap a))) other = Inr x"
        using "2.prems"(1) left Inl by simp
      from "2.IH"(1) [OF left Inl] 1 this show ?thesis by auto
    next
      case (2 f)
      then have "\<not> env_ctx_err env i" "dial_loop env port n (Suc i) rest forb (or_first other (DialFailed f)) = Inr x"
        using "2.prems"(1) left Inl by (auto split: if_splits dest: dial_result_Inr)
      with "2.IH"(3) [OF left Inl] 2 show ?thesis by auto
    qed
  qed
qed

lemma dialUpstream_Inr:
  assumes "dialUpstream env host port = Inr x"
  shows "\<exists>addrs a. env_lookup env host = Inr addrs \<and> a \<in> set (take maxAddrs addrs) \<and> x = Unmap a \<and>
    \<not> forbidden x \<and> env_connect env a port = Inr ()"
proof -
  from assms obtain addrs where l: "env_lookup env host = Inr addrs" "addrs \<noteq> []"
    and d: "dial_loop env port (length (take maxAddrs addrs)) 0 (take maxAddrs addrs) None None = Inr x"
    by (auto simp: dialUpstream_def Let_def split: sum.splits if_splits)
  have "take maxAddrs addrs \<noteq> []" using l(2) by (simp add: maxAddrs_def)
  with dial_loop_Inr [OF d] l show ?thesis by (metis forbidden_Unmap)
qed

text \<open>The result when there is time for every address: the first that connects, or the first
  error that is not a forbidden address, or the first forbidden address.\<close>

definition first_of :: "'a option \<Rightarrow> 'a option \<Rightarrow> 'a option" where
  "first_of a b = (case a of Some x \<Rightarrow> Some x | None \<Rightarrow> b)"

definition dial_spec :: "net_env \<Rightarrow> 16 word \<Rightarrow> addr list \<Rightarrow> dial_err option \<Rightarrow> dial_err option \<Rightarrow> dial_err + addr" where
  "dial_spec env port addrs forb other =
     (case find (\<lambda>a. dial env a port = Inr ()) addrs of
        Some a \<Rightarrow> Inr (Unmap a)
      | None \<Rightarrow> dial_result
          (first_of forb (map_option (\<lambda>a. ForbiddenAddrError (Unmap a)) (find forbidden addrs)))
          (first_of other (map_option (\<lambda>a. DialFailed (projl (env_connect env a port))) (find (\<lambda>a. \<not> forbidden a) addrs))))"

lemma first_of_simps [simp]:
  "first_of None b = b" "first_of (Some x) b = Some x" "first_of a None = a"
  "first_of (or_first a x) b = or_first a x" "first_of a (Some x) = or_first a x"
  by (cases a; simp add: first_of_def or_first_def)+

lemma dial_loop_spec:
  "i + length addrs \<le> n \<Longrightarrow> n \<le> maxAddrs \<Longrightarrow> \<forall>i. int maxAddrs \<le> env_left env i \<Longrightarrow> \<forall>i. \<not> env_ctx_err env i \<Longrightarrow>
   dial_loop env port n i addrs forb other = dial_spec env port addrs forb other"
proof (induction addrs arbitrary: i forb other)
  case Nil
  then show ?case by (simp add: dial_spec_def)
next
  case (Cons a addrs)
  have n: "0 < int (n - i)" "int (n - i) \<le> int maxAddrs" using Cons.prems by auto
  moreover from n(2) have "int (n - i) \<le> env_left env i" using Cons.prems(3) order_trans by blast
  ultimately have "0 < env_left env i div int (n - i)" by (simp add: pos_imp_zdiv_pos_iff)
  then have left: "\<not> env_left env i div int (n - i) \<le> 0" by simp
  have IH: "dial_loop env port n (Suc i) addrs forb' other' = dial_spec env port addrs forb' other'" for forb' other'
    using Cons.prems by (intro Cons.IH) auto
  show ?case
  proof (cases "dial env a port")
    case (Inr u)
    with left show ?thesis by (simp add: dial_spec_def)
  next
    case (Inl e)
    from dial_Inl_cases [OF this] show ?thesis
    proof cases
      case 1
      with left Inl IH show ?thesis by (simp add: dial_spec_def split: option.split)
    next
      case (2 f)
      with left Inl IH Cons.prems show ?thesis by (simp add: dial_spec_def split: option.split)
    qed
  qed
qed

subsection \<open>Handling a connection\<close>

lemma hostPort_inject:
  assumes "validName h" "validName h'" "hostPort h p = hostPort h' p'"
  shows "h = h' \<and> p = p'"
proof -
  have "CHR '':'' \<notin> set h" "CHR '':'' \<notin> set h'"
    using assms(1,2) validName_char by (fastforce simp: byte_class_defs)+
  with assms(3) have "h = h'" "format_uint (unat p) = format_uint (unat p')"
    using append_sep_inject [of "CHR '':''" h h'] by (simp_all add: hostPort_def)
  then show ?thesis by (simp add: format_uint_inj word_unat_eq_iff)
qed

lemma hostPort_splitTarget:
  "splitTarget t = Inr (h, p) \<Longrightarrow> splitTarget (hostPort h p) = Inr (h, p)"
proof -
  assume "splitTarget t = Inr (h, p)"
  then have "lower h = h \<and> validName h \<and> \<not> is_digit (hd (after_last (CHR ''.'') h)) \<and> p \<noteq> 0"
    unfolding splitTarget_iff by (elim exE conjE) simp
  then show ?thesis unfolding splitTarget_iff hostPort_def by (intro exI [of _ h]) simp
qed

lemma hostPort_safe: "splitTarget t = Inr (h, p) \<Longrightarrow> list_all safe_char (hostPort h p)"
  using splitTarget_chars [OF hostPort_splitTarget] by (auto simp: list_all_iff)

lemma safeTarget_safe [simp]: "list_all safe_char (safeTarget t)"
  by (simp add: safeTarget_def list_all_iff)

lemma plainHTTPTarget_safe [simp]: "list_all safe_char (plainHTTPTarget t)"
  by (simp add: plainHTTPTarget_def split: option.splits)

lemma readLine_Inl: "readLine m r u = Inl rj \<Longrightarrow> rj_target rj = []"
  by (auto simp: readLine_def Let_def deny_def split: prod.splits option.splits if_splits slice_err.splits conn_end.splits)

lemma readHeaders_Inl: "readHeaders m r u = Inl rj \<Longrightarrow> rj_target rj = []"
proof (induction m r u rule: readHeaders.induct)
  case (1 m r u)
  show ?case
  proof (cases "readLine m r u")
    case (Inl e)
    with 1 show ?thesis by (simp add: readHeaders.simps [of m r u] readLine_Inl)
  next
    case (Inr x)
    with 1 show ?thesis
      by (cases x) (auto simp: readHeaders.simps [of m r u] deny_def split: if_splits)
  qed
qed

lemma readRequest_Inl_safe:
  assumes "readRequest m r = Inl rj"
  shows "list_all safe_char (rj_target rj)"
proof (cases "readLine m r 0")
  case (Inl e)
  with assms show ?thesis by (auto simp: readRequest_def dest: readLine_Inl)
next
  case (Inr x)
  obtain line r1 u where x: "x = (line, r1, u)" by (cases x)
  show ?thesis
  proof (cases "readHeaders m r1 u")
    case (Inl e)
    with Inr x assms show ?thesis
      by (auto simp: readRequest_def Let_def deny_def dest: readHeaders_Inl split: if_splits)
  next
    case h: (Inr r2)
    show ?thesis
    proof (cases "splitTarget (split (CHR '' '') line ! 1)")
      case (Inl e)
      with Inr x h assms show ?thesis
        by (cases e) (auto simp: readRequest_def Let_def deny_def split: if_splits)
    next
      case t: (Inr hp)
      with Inr x h assms show ?thesis
        by (cases hp) (auto simp: readRequest_def Let_def deny_def split: if_splits)
    qed
  qed
qed

lemma readRequest_splitTarget: "readRequest m r = Inr (host, port, r') \<Longrightarrow> \<exists>t. splitTarget t = Inr (host, port)"
  by (auto simp: readRequest_Inr_iff)

lemma handle_relay_cases:
  assumes "ERelay ip port rest \<in> set (handle s env r cid)"
  shows "\<exists>host. readRequest (cfg_MaxHeaderBytes (srv_cfg s)) r = Inr (host, port, rest) \<and>
    hostPort host port \<in> set (srv_allow s) \<and> dialUpstream env host port = Inr ip \<and>
    env_audit_ok env \<and> env_write_ok env 200"
proof (cases "readRequest (cfg_MaxHeaderBytes (srv_cfg s)) r")
  case (Inl rj)
  with assms show ?thesis by (simp add: handle_def refuse_def)
next
  case (Inr x)
  obtain host port' rest' where x: "x = (host, port', rest')" by (cases x)
  show ?thesis
  proof (cases "hostPort host port' \<in> set (srv_allow s)")
    case True
    with Inr x assms show ?thesis
      by (cases "dialUpstream env host port'"; cases "env_audit_ok env"; cases "env_write_ok env 200")
        (auto simp: handle_def refuse_def split: if_splits)
  next
    case False
    with Inr x assms show ?thesis by (simp add: handle_def refuse_def Let_def)
  qed
qed

section \<open>Properties\<close>

text \<open>
  C35: The proxy relays only where the configuration allows. If a handler of a server made by
  \<open>New\<close> relays to an address, then the client sent a well-formed CONNECT for a target that one of
  the configured entries names, the address is one of the first eight the resolver gave for that
  host and is not a forbidden address, the decision was written to the audit log before the client
  was told, and nothing else happened on the connection.
\<close>

theorem handle_relay_allowed:
  assumes "ERelay ip port rest \<in> set (handle (New_server cfg) env r cid)"
  shows "\<exists>host a addrs.
     readRequest (cfg_MaxHeaderBytes (srv_cfg (New_server cfg))) r = Inr (host, port, rest) \<and>
     (\<exists>t\<in>set (cfg_Allow cfg). splitTarget t = Inr (host, port)) \<and>
     env_lookup env host = Inr addrs \<and> a \<in> set (take 8 addrs) \<and> ip = Unmap a \<and> \<not> forbidden ip \<and>
     handle (New_server cfg) env r cid =
       [EAudit (allow_record cid (hostPort host port) ip) True, EStatus 200, ERelay ip port rest, ECloseUp, ECloseClient]"
proof -
  let ?s = "New_server cfg"
  from assms obtain host where rq: "readRequest (cfg_MaxHeaderBytes (srv_cfg ?s)) r = Inr (host, port, rest)"
    and al: "hostPort host port \<in> set (srv_allow ?s)" and d: "dialUpstream env host port = Inr ip"
    and ok: "env_audit_ok env" "env_write_ok env 200"
    using handle_relay_cases by blast
  obtain t0 where t0: "splitTarget t0 = Inr (host, port)" using readRequest_splitTarget [OF rq] by blast
  from al obtain h p t where t: "hostPort host port = hostPort h p" "t \<in> set (cfg_Allow cfg)" "splitTarget t = Inr (h, p)"
    using setup_allow_targets [of "cfg_Allow cfg" "[]" _ _ "hostPort host port"]
    by (fastforce simp: New_server_def server_setup_def split: prod.splits if_splits)
  have "host = h \<and> port = p"
    using hostPort_inject t(1,3) t0 unfolding splitTarget_iff by blast
  moreover have "handle ?s env r cid =
       [EAudit (allow_record cid (hostPort host port) ip) True, EStatus 200, ERelay ip port rest, ECloseUp, ECloseClient]"
    using rq al d ok by (simp add: handle_def)
  ultimately show ?thesis
    using rq t dialUpstream_Inr [OF d] unfolding maxAddrs_def by blast
qed

definition example_env :: net_env where
  "example_env =
     \<lparr>env_lookup = (\<lambda>_. Inr [V4 (mk_v4 10 0 0 5), V4 (mk_v4 140 82 121 3)]), env_connect = (\<lambda>_ _. Inr ()),
      env_left = (\<lambda>_. 10000000000), env_ctx_err = (\<lambda>_. False), env_closed = False, env_audit_ok = True,
      env_write_ok = (\<lambda>_. True)\<rparr>"

definition example_cfg :: config where
  "example_cfg = \<lparr>cfg_Allow = [''Example.com:443''], cfg_Audit = True, cfg_MaxConns = 0, cfg_MaxHeaderBytes = 0,
     cfg_HeaderTimeout = 0, cfg_DialTimeout = 0, cfg_IdleTimeout = 0, cfg_MaxBodyBytes = 0\<rparr>"

definition example_request :: conn_reader where
  "example_request = \<lparr>cr_data = ''CONNECT example.com:443 HTTP/1.1'' @ crlf @ ''Host: x'' @ crlf @ crlf @ ''hello'', cr_end = ConnEOF\<rparr>"

lemma example_forbidden: "forbidden (V4 (mk_v4 10 0 0 5))" "\<not> forbidden (V4 (mk_v4 140 82 121 3))"
  using forbidden_mk_v4 [of 10 0 0 5] forbidden_mk_v4 [of 140 82 121 3] by simp_all

lemma example_port: "unat (443 :: 16 word) = 443" "format_uint 443 = ''443''"
  by (simp_all add: format_uint.simps) code_simp

lemma example_target: "splitTarget ''Example.com:443'' = Inr (''example.com'', 443)" "splitTarget ''example.com:443'' = Inr (''example.com'', 443)"
proof -
  have "validName ''example.com'' \<and> \<not> is_digit (hd (after_last (CHR ''.'') ''example.com''))"
    "lower ''Example.com'' = ''example.com''" "lower ''example.com'' = ''example.com''" by code_simp+
  then show "splitTarget ''Example.com:443'' = Inr (''example.com'', 443)" "splitTarget ''example.com:443'' = Inr (''example.com'', 443)"
    unfolding splitTarget_iff example_port
    using exI [of _ "''Example.com''"] exI [of _ "''example.com''"] by fastforce+
qed

lemma example_server:
  "srv_allow (New_server example_cfg) = [''example.com:443'']" "cfg_MaxHeaderBytes (srv_cfg (New_server example_cfg)) = 8192"
  by (simp_all add: New_server_def server_setup_def example_cfg_def example_target hostPort_def example_port or_default_def defaultMaxHeaderBytes_def)

lemma example_readRequest:
  "readRequest 8192 example_request = Inr (''example.com'', 443, \<lparr>cr_data = ''hello'', cr_end = ConnEOF\<rparr>)"
proof -
  have "line_ok (''CONNECT '' @ ''example.com:443'' @ '' '' @ ''HTTP/1.1'') \<and> header_ok ''Host: x''"
  proof -
    have "list_all (\<lambda>c. \<not> bad_line_char c) ''CONNECT example.com:443 HTTP/1.1''" "list_all (\<lambda>c. \<not> bad_line_char c) ''Host: x''"
      "validHeaderLine ''Host: x''" by code_simp+
    then show ?thesis by (simp add: header_ok_def line_ok_def readBufSize_def)
  qed
  then show ?thesis
    unfolding readRequest_iff example_request_def
    by (intro exI [of _ "''example.com:443''"] exI [of _ "''HTTP/1.1''"] exI [of _ "[''Host: x'']"])
      (simp add: example_target)
qed

lemma example_dial: "dialUpstream example_env ''example.com'' 443 = Inr (V4 (mk_v4 140 82 121 3))"
  by (simp add: dialUpstream_def example_env_def maxAddrs_def dial_def control_def example_forbidden)

lemma example_handle:
  "ERelay (V4 (mk_v4 140 82 121 3)) 443 \<lparr>cr_data = ''hello'', cr_end = ConnEOF\<rparr> \<in>
     set (handle (New_server example_cfg) example_env example_request 1)"
  using example_dial unfolding handle_def example_server example_readRequest
  by (simp add: hostPort_def example_port) (simp add: example_env_def)

theorem handle_relay_allowed_witness: "\<not> forbidden (V4 (mk_v4 140 82 121 3))"
  using handle_relay_allowed [OF example_handle] by blast

text \<open>
  Every connection leaves exactly one audit record, unless the server is being closed, and its
  target holds only characters that are safe to log; the client connection is closed last.
\<close>

theorem handle_audit:
  "(length (filter (\<lambda>e. case e of EAudit _ _ \<Rightarrow> True | _ \<Rightarrow> False) (handle s env r cid)) = 1 \<or>
     env_closed env \<and> handle s env r cid = [ECloseClient]) \<and>
   list_all (\<lambda>e. case e of EAudit rec _ \<Rightarrow> list_all safe_char (au_Target rec) \<and> au_Conn rec = cid | _ \<Rightarrow> True)
     (handle s env r cid) \<and>
   last (handle s env r cid) = ECloseClient"
proof (cases "readRequest (cfg_MaxHeaderBytes (srv_cfg s)) r")
  case (Inl rj)
  then show ?thesis using readRequest_Inl_safe [OF Inl] by (simp add: handle_def refuse_def)
next
  case (Inr x)
  obtain host port rest where x: "x = (host, port, rest)" by (cases x)
  with Inr obtain t where "splitTarget t = Inr (host, port)" using readRequest_splitTarget by blast
  then have safe: "list_all safe_char (hostPort host port)" by (rule hostPort_safe)
  show ?thesis
  proof (cases "dialUpstream env host port")
    case (Inl e)
    with Inr x safe show ?thesis by (auto simp: handle_def refuse_def deny_def Let_def)
  next
    case d: (Inr ip)
    with Inr x safe show ?thesis by (auto simp: handle_def refuse_def deny_def allow_record_def Let_def)
  qed
qed

text \<open>
  With time left for every address, \<open>dialUpstream\<close> is its specification: of the first eight
  addresses it takes the first that is not forbidden and connects; if there is none it reports the
  error of the first address that was tried and failed, and a forbidden address only when all are.
\<close>

theorem dialUpstream_spec:
  assumes "env_lookup env host = Inr addrs" and "addrs \<noteq> []"
    and "\<forall>i. 8 \<le> env_left env i" and "\<forall>i. \<not> env_ctx_err env i"
  shows "dialUpstream env host port =
    (case find (\<lambda>a. \<not> forbidden a \<and> env_connect env a port = Inr ()) (take 8 addrs) of
       Some a \<Rightarrow> Inr (Unmap a)
     | None \<Rightarrow>
         (case find (\<lambda>a. \<not> forbidden a) (take 8 addrs) of
            Some a \<Rightarrow> Inl (DialFailed (projl (env_connect env a port)))
          | None \<Rightarrow> Inl (ForbiddenAddrError (Unmap (hd addrs)))))"
proof -
  let ?as = "take maxAddrs addrs"
  have "dialUpstream env host port = dial_spec env port ?as None None"
    using assms dial_loop_spec [of 0 ?as "length ?as" env port None None]
    by (simp add: dialUpstream_def maxAddrs_def)
  moreover have "find forbidden ?as = Some (hd addrs)" if "find (\<lambda>a. \<not> forbidden a) ?as = None"
    using that assms(2) by (cases addrs) (auto simp: maxAddrs_def find_None_iff)
  ultimately show ?thesis
    unfolding dial_spec_def dial_Inr_iff maxAddrs_def by (auto simp: dial_result_def split: option.split)
qed

theorem dialUpstream_spec_witness: "dialUpstream example_env ''github.com'' 443 = Inr (V4 (mk_v4 140 82 121 3))"
  using dialUpstream_spec [of example_env "''github.com''" "[V4 (mk_v4 10 0 0 5), V4 (mk_v4 140 82 121 3)]" 443]
  by (simp add: example_env_def example_forbidden)

end
