(* ===== verification/Egress_Conns.thy ===== *)
theory Egress_Conns
  imports Egress_Server
begin

text \<open>
  The connections of the proxy together: how \<open>ServeBoth\<close> sends a connection to the CONNECT proxy or
  to the git and pull request handler (package egress: serveboth.go), and the state that all
  connections share, with the interleavings of \<open>accepted\<close>, the goroutines it starts and \<open>Close\<close>
  (egress.go).
\<close>

section \<open>Dispatching a connection\<close>

definition maxSniffLine :: nat where "maxSniffLine = 4096"

definition trim_right_crlf :: "string \<Rightarrow> string" where
  "trim_right_crlf s = rev (dropWhile (\<lambda>c. c = CHR 0x0D \<or> c = CHR 0x0A) (rev s))"

text \<open>\<open>strings.SplitN\<close> into at most \<open>n\<close> parts.\<close>

fun split_n :: "char \<Rightarrow> nat \<Rightarrow> string \<Rightarrow> string list" where
  "split_n c n s =
     (if n \<le> 1 then [s]
      else (case cut c s of (a, b, found) \<Rightarrow> if found then a # split_n c (n - 1) b else [s]))"

declare split_n.simps [simp del]

definition requestLineParts :: "string \<Rightarrow> string \<times> string" where
  "requestLineParts line =
     (let parts = split_n (CHR '' '') 3 (trim_right_crlf line) in
      (parts ! 0, if length parts = 3 then parts ! 1 else []))"

definition hasAnyPrefix :: "string \<Rightarrow> string list \<Rightarrow> bool" where
  "hasAnyPrefix s prefixes \<longleftrightarrow> (\<exists>p\<in>set prefixes. has_prefix s p)"

text \<open>Where a connection goes; the reader handed on starts with the line that was read.\<close>

datatype destination = ToConnect conn_reader | ToOther conn_reader | Refused

definition prefixedConn :: "string \<Rightarrow> conn_reader \<Rightarrow> conn_reader" where
  "prefixedConn line r = r\<lparr>cr_data := line @ cr_data r\<rparr>"

definition dispatch :: "conn_reader \<Rightarrow> string list \<Rightarrow> destination" where
  "dispatch r prefixes =
     (case read_slice maxSniffLine r of (line, err, r') \<Rightarrow>
        if err \<noteq> None then Refused
        else (case requestLineParts line of (method, target) \<Rightarrow>
          if method = ''CONNECT'' then ToConnect (prefixedConn line r')
          else if (method = ''GET'' \<or> method = ''POST'') \<and> hasAnyPrefix target prefixes then
            ToOther (prefixedConn line r')
          else Refused))"

text \<open>The deadline of one read of a request body, in nanoseconds since some origin.\<close>

definition stallBody_Read :: "int \<Rightarrow> int \<Rightarrow> int \<Rightarrow> int" where
  "stallBody_Read now stall deadline = (let d = now + stall in if d > deadline then deadline else d)"

section \<open>Shared state\<close>

text \<open>How far the goroutine of a connection has come.\<close>

datatype phase =
    Idle        \<comment> \<open>not accepted yet\<close>
  | Taken       \<comment> \<open>holds a slot of \<open>sem\<close>, before \<open>addConn\<close>\<close>
  | Rejected    \<comment> \<open>\<open>addConn\<close> returned false\<close>
  | Handling    \<comment> \<open>tracked and counted; \<open>handle\<close> runs\<close>
  | Removed     \<comment> \<open>\<open>removeConn\<close> has run\<close>
  | Released    \<comment> \<open>the slot has been given back\<close>
  | Other       \<comment> \<open>served by the HTTP server, holds a slot\<close>
  | Finished

record conns_state =
  cs_sem :: nat
  cs_conns :: "nat set"
  cs_wg :: nat
  cs_closed :: bool
  cs_returned :: bool
  cs_nextID :: "64 word"
  cs_phase :: "nat \<Rightarrow> phase"

definition init_conns :: conns_state where
  "init_conns = \<lparr>cs_sem = 0, cs_conns = {}, cs_wg = 0, cs_closed = False, cs_returned = False, cs_nextID = 0,
     cs_phase = (\<lambda>_. Idle)\<rparr>"

definition set_phase :: "nat \<Rightarrow> phase \<Rightarrow> conns_state \<Rightarrow> conns_state" where
  "set_phase c p s = s\<lparr>cs_phase := (cs_phase s)(c := p)\<rparr>"

text \<open>The first half of \<open>accepted\<close>: number the connection and take a slot, or refuse it.\<close>

definition accepted_take :: "nat \<Rightarrow> nat \<Rightarrow> conns_state \<Rightarrow> conns_state" where
  "accepted_take cap c s =
     (let s1 = s\<lparr>cs_nextID := cs_nextID s + 1\<rparr> in
      if cs_sem s < cap then set_phase c Taken (s1\<lparr>cs_sem := cs_sem s + 1\<rparr>)
      else set_phase c Finished s1)"

definition addConn :: "nat \<Rightarrow> conns_state \<Rightarrow> bool \<times> conns_state" where
  "addConn c s =
     (if cs_closed s then (False, s)
      else (True, s\<lparr>cs_conns := insert c (cs_conns s), cs_wg := cs_wg s + 1\<rparr>))"

definition accepted_add :: "nat \<Rightarrow> conns_state \<Rightarrow> conns_state" where
  "accepted_add c s =
     (case addConn c s of (ok, s') \<Rightarrow> if ok then set_phase c Handling s' else set_phase c Rejected s')"

definition removeConn :: "nat \<Rightarrow> conns_state \<Rightarrow> conns_state" where
  "removeConn c s = s\<lparr>cs_conns := cs_conns s - {c}\<rparr>"

definition release_sem :: "conns_state \<Rightarrow> conns_state" where
  "release_sem s = s\<lparr>cs_sem := cs_sem s - 1\<rparr>"

definition wg_done :: "conns_state \<Rightarrow> conns_state" where
  "wg_done s = s\<lparr>cs_wg := cs_wg s - 1\<rparr>"

text \<open>The part of \<open>dispatch\<close> for the other handler: take a slot or refuse.\<close>

definition other_take :: "nat \<Rightarrow> nat \<Rightarrow> conns_state \<Rightarrow> conns_state" where
  "other_take cap c s =
     (if cs_sem s < cap then set_phase c Other (s\<lparr>cs_sem := cs_sem s + 1\<rparr>)
      else set_phase c Finished (s\<lparr>cs_nextID := cs_nextID s + 1\<rparr>))"

text \<open>\<open>Close\<close> up to releasing \<open>mu\<close>; it returns when the wait group is empty.\<close>

definition Close_begin :: "conns_state \<Rightarrow> conns_state" where
  "Close_begin s = s\<lparr>cs_closed := True\<rparr>"

inductive step :: "nat \<Rightarrow> conns_state \<Rightarrow> conns_state \<Rightarrow> bool" for cap where
  take: "cs_phase s c = Idle \<Longrightarrow> step cap s (accepted_take cap c s)"
| add: "cs_phase s c = Taken \<Longrightarrow> step cap s (accepted_add c s)"
| rejected: "cs_phase s c = Rejected \<Longrightarrow> step cap s (set_phase c Finished (release_sem s))"
| remove: "cs_phase s c = Handling \<Longrightarrow> step cap s (set_phase c Removed (removeConn c s))"
| release: "cs_phase s c = Removed \<Longrightarrow> step cap s (set_phase c Released (release_sem s))"
| finish: "cs_phase s c = Released \<Longrightarrow> step cap s (set_phase c Finished (wg_done s))"
| other: "cs_phase s c = Idle \<Longrightarrow> step cap s (other_take cap c s)"
| other_closed: "cs_phase s c = Other \<Longrightarrow> step cap s (set_phase c Finished (release_sem s))"
| close: "step cap s (Close_begin s)"
| close_returns: "cs_closed s \<Longrightarrow> cs_wg s = 0 \<Longrightarrow> step cap s (s\<lparr>cs_returned := True\<rparr>)"

inductive reachable :: "nat \<Rightarrow> conns_state \<Rightarrow> bool" for cap where
  init: "reachable cap init_conns"
| step: "reachable cap s \<Longrightarrow> step cap s s' \<Longrightarrow> reachable cap s'"

section \<open>Lemmas\<close>

definition holds_slot :: "phase \<Rightarrow> bool" where
  "holds_slot p \<longleftrightarrow> p \<in> {Taken, Rejected, Handling, Removed, Other}"

definition counted :: "phase \<Rightarrow> bool" where
  "counted p \<longleftrightarrow> p \<in> {Handling, Removed, Released}"

text \<open>What every reachable state satisfies: the slots taken, the connections tracked and the
  goroutines counted are those that the phases say.\<close>

definition conns_inv :: "nat \<Rightarrow> conns_state \<Rightarrow> bool" where
  "conns_inv cap s \<longleftrightarrow>
     finite {c. cs_phase s c \<noteq> Idle} \<and>
     cs_sem s = card {c. holds_slot (cs_phase s c)} \<and> cs_sem s \<le> cap \<and>
     cs_wg s = card {c. counted (cs_phase s c)} \<and>
     cs_conns s = {c. cs_phase s c = Handling} \<and>
     (cs_returned s \<longrightarrow> cs_closed s \<and> cs_wg s = 0)"

lemma counted_pos: "finite {x. P (f x)} \<Longrightarrow> P (f c) \<Longrightarrow> 0 < card {x. P (f x)}"
  by (metis (mono_tags) card_gt_0_iff empty_iff mem_Collect_eq)

lemma card_phase_upd:
  assumes "finite {x. P (f x)}"
  shows "card {x. P ((f(c := p)) x)} = (card {x. P (f x)} - (if P (f c) then 1 else 0)) + (if P p then 1 else 0)"
proof -
  have "{x. P ((f(c := p)) x)} = (if P p then insert c ({x. P (f x)} - {c}) else {x. P (f x)} - {c})" by auto
  then show ?thesis using assms counted_pos [of P f c] by (auto simp: card_insert_if card_Diff_singleton_if)
qed

lemma finite_phase: "finite {c. f c \<noteq> Idle} \<Longrightarrow> \<not> P Idle \<Longrightarrow> finite {c. P (f c)}"
  by (rule finite_subset) auto

lemmas phase_preds = holds_slot_def counted_def

lemma finite_upd: "finite {c. f c \<noteq> Idle} \<Longrightarrow> finite {x. (f(c := p)) x \<noteq> Idle}"
  by (rule finite_subset [of _ "insert c {c. f c \<noteq> Idle}"]) auto

lemma conns_inv_phase:
  assumes inv: "conns_inv cap s"
    and sem: "cs_sem s' = cs_sem s - (if holds_slot (cs_phase s c) then 1 else 0) + (if holds_slot p then 1 else 0)" "cs_sem s' \<le> cap"
    and wg: "cs_wg s' = cs_wg s - (if counted (cs_phase s c) then 1 else 0) + (if counted p then 1 else 0)"
    and conns: "cs_conns s' = (if p = Handling then insert c (cs_conns s) else cs_conns s - {c})"
    and closed: "cs_closed s' = cs_closed s" "cs_returned s' = cs_returned s"
    and ret: "cs_returned s \<Longrightarrow> \<not> counted p"
    and ph: "cs_phase s' = (cs_phase s)(c := p)"
  shows "conns_inv cap s'"
proof -
  from inv have fin: "finite {c. cs_phase s c \<noteq> Idle}" by (simp add: conns_inv_def)
  have f: "finite {c. holds_slot (cs_phase s c)}" "finite {c. counted (cs_phase s c)}"
    using fin by (rule finite_phase, simp add: phase_preds)+
  have "cs_sem s' = card {c. holds_slot (cs_phase s' c)}"
    using inv sem card_phase_upd [where P = holds_slot, OF f(1), of c p] unfolding conns_inv_def ph by simp
  moreover have "cs_wg s' = card {c. counted (cs_phase s' c)}"
    using inv wg card_phase_upd [where P = counted, OF f(2), of c p] unfolding conns_inv_def ph by simp
  moreover have "cs_conns s' = {c. cs_phase s' c = Handling}"
    using inv conns unfolding conns_inv_def ph by auto
  moreover have "cs_wg s' = 0" if "cs_returned s"
  proof -
    have "cs_wg s = 0" using that inv by (simp add: conns_inv_def)
    with wg ret [OF that] show ?thesis by simp
  qed
  ultimately show ?thesis
    using inv sem(2) closed finite_upd [OF fin] unfolding conns_inv_def ph by simp
qed

lemmas step_defs = accepted_take_def accepted_add_def addConn_def removeConn_def release_sem_def
  wg_done_def other_take_def set_phase_def Close_begin_def Let_def

lemma conns_inv_step: "step cap s s' \<Longrightarrow> conns_inv cap s \<Longrightarrow> conns_inv cap s'"
proof (induction rule: step.induct)
  case (take s c)
  show ?case
  proof (cases "cs_sem s < cap")
    case True
    with take show ?thesis
      by (intro conns_inv_phase [OF take(2), of _ c Taken]) (auto simp: step_defs phase_preds conns_inv_def)
  next
    case False
    with take show ?thesis
      by (intro conns_inv_phase [OF take(2), of _ c Finished]) (auto simp: step_defs phase_preds conns_inv_def)
  qed
next
  case (add s c)
  show ?case
  proof (cases "cs_closed s")
    case True
    have "0 < cs_sem s" using add counted_pos [of holds_slot "cs_phase s" c] finite_phase [of "cs_phase s" holds_slot]
      by (simp add: conns_inv_def phase_preds)
    with add True show ?thesis
      by (intro conns_inv_phase [OF add(2), of _ c Rejected]) (auto simp: step_defs phase_preds conns_inv_def)
  next
    case False
    have "0 < cs_sem s" using add counted_pos [of holds_slot "cs_phase s" c] finite_phase [of "cs_phase s" holds_slot]
      by (simp add: conns_inv_def phase_preds)
    with add False show ?thesis
      by (intro conns_inv_phase [OF add(2), of _ c Handling]) (auto simp: step_defs phase_preds conns_inv_def)
  qed
next
  case (rejected s c)
  then show ?case
    by (intro conns_inv_phase [OF rejected(2), of _ c Finished]) (auto simp: step_defs phase_preds conns_inv_def)
next
  case (remove s c)
  have "0 < cs_sem s" "0 < cs_wg s"
    using remove counted_pos [of holds_slot "cs_phase s" c] finite_phase [of "cs_phase s" holds_slot]
      counted_pos [of counted "cs_phase s" c] finite_phase [of "cs_phase s" counted]
    by (simp_all add: conns_inv_def phase_preds)
  with remove show ?case
    by (intro conns_inv_phase [OF remove(2), of _ c Removed]) (auto simp: step_defs phase_preds conns_inv_def)
next
  case (release s c)
  have "0 < cs_wg s"
    using release counted_pos [of counted "cs_phase s" c] finite_phase [of "cs_phase s" counted]
    by (simp add: conns_inv_def phase_preds)
  with release show ?case
    by (intro conns_inv_phase [OF release(2), of _ c Released]) (auto simp: step_defs phase_preds conns_inv_def)
next
  case (finish s c)
  then show ?case
    by (intro conns_inv_phase [OF finish(2), of _ c Finished]) (auto simp: step_defs phase_preds conns_inv_def)
next
  case (other s c)
  show ?case
  proof (cases "cs_sem s < cap")
    case True
    with other show ?thesis
      by (intro conns_inv_phase [OF other(2), of _ c Other]) (auto simp: step_defs phase_preds conns_inv_def)
  next
    case False
    with other show ?thesis
      by (intro conns_inv_phase [OF other(2), of _ c Finished]) (auto simp: step_defs phase_preds conns_inv_def)
  qed
next
  case (other_closed s c)
  then show ?case
    by (intro conns_inv_phase [OF other_closed(2), of _ c Finished]) (auto simp: step_defs phase_preds conns_inv_def)
qed (auto simp: conns_inv_def Close_begin_def)

lemma reachable_inv: "reachable cap s \<Longrightarrow> conns_inv cap s"
  by (induction rule: reachable.induct)
    (auto simp: conns_inv_step, simp add: conns_inv_def init_conns_def phase_preds)

lemma read_slice_append:
  assumes "read_slice n r = (line, None, r')"
  shows "prefixedConn line r' = r"
  using assms by (auto simp: read_slice_def Let_def prefixedConn_def split: option.splits if_splits)

lemma cut_space: "CHR '' '' \<notin> set a \<Longrightarrow> cut (CHR '' '') (a @ CHR '' '' # b) = (a, b, True)"
  by (simp add: cut_found_iff)

lemma trim_right_crlf_line: "l \<noteq> [] \<Longrightarrow> last l \<noteq> CHR 0x0D \<Longrightarrow> last l \<noteq> CHR 0x0A \<Longrightarrow> trim_right_crlf (l @ crlf) = l"
  by (cases l rule: rev_cases) (auto simp: trim_right_crlf_def crlf_def)

lemma requestLineParts_CONNECT:
  assumes "CHR '' '' \<notin> set t" "v \<in> {''HTTP/1.1'', ''HTTP/1.0''}"
  shows "requestLineParts ((''CONNECT '' @ t @ '' '' @ v) @ crlf) = (''CONNECT'', t)"
proof -
  have "trim_right_crlf ((''CONNECT '' @ t @ '' '' @ v) @ crlf) = ''CONNECT'' @ CHR '' '' # t @ CHR '' '' # v"
    using assms(2) trim_right_crlf_line [of "''CONNECT '' @ t @ '' '' @ v"] by auto
  then show ?thesis
    using assms(1) cut_space [of "''CONNECT''" "t @ CHR '' '' # v"] cut_space [of t v]
    by (simp add: requestLineParts_def split_n.simps [of _ 3] split_n.simps [of _ 2] split_n.simps [of _ "Suc 0"])
qed

section \<open>Properties\<close>

text \<open>
  Dispatching loses and changes no byte, and sends a connection to the right place: a connection
  whose first line is readable is handed on with exactly the bytes the client sent, to the CONNECT
  proxy if the method is CONNECT and to the other handler only for GET or POST on one of the
  prefixes; in particular every request that \<open>readRequest\<close> accepts reaches the CONNECT proxy.
\<close>

theorem dispatch_exact:
  "(dispatch r prefixes = ToConnect r' \<longrightarrow> r' = r) \<and> (dispatch r prefixes = ToOther r' \<longrightarrow> r' = r) \<and>
   (readRequest m r = Inr req \<longrightarrow> dispatch r prefixes = ToConnect r)"
proof (intro conjI impI)
  obtain line err r1 where rs: "read_slice maxSniffLine r = (line, err, r1)" by (cases "read_slice maxSniffLine r")
  obtain m t where mt: "requestLineParts line = (m, t)" by (cases "requestLineParts line")
  show "r' = r" if "dispatch r prefixes = ToConnect r'"
    using that rs mt read_slice_append [of maxSniffLine r line r1] by (auto simp: dispatch_def split: if_splits)
  show "r' = r" if "dispatch r prefixes = ToOther r'"
    using that rs mt read_slice_append [of maxSniffLine r line r1] by (auto simp: dispatch_def split: if_splits)
next
  assume rq: "readRequest m r = Inr req"
  obtain host port r2 where req: "req = (host, port, r2)" by (cases req)
  from rq [unfolded req readRequest_iff] obtain t v hs where
    v: "v \<in> {''HTTP/1.1'', ''HTTP/1.0''}" and t: "splitTarget t = Inr (host, port)"
    and l: "line_ok (''CONNECT '' @ t @ '' '' @ v)" "cr_data r = encode_lines ((''CONNECT '' @ t @ '' '' @ v) # hs @ [[]]) @ cr_data r2"
    by blast
  define line where "line = ''CONNECT '' @ t @ '' '' @ v"
  define rest where "rest = encode_lines (hs @ [[]]) @ cr_data r2"
  have nl: "CHR 0x0A \<notin> set (line @ [CHR 0x0D])" using line_ok_LF [OF l(1)] by (auto simp: line_def)
  have d: "cr_data r = (line @ [CHR 0x0D]) @ CHR 0x0A # rest" using l(2) by (simp add: line_def rest_def crlf_def)
  have "index_byte (cr_data r) (CHR 0x0A) = Some (Suc (length line))"
    using index_byte_append [OF nl, of rest] by (simp add: d)
  moreover have "Suc (length line) < maxSniffLine" using l(1) by (simp add: line_ok_def readBufSize_def maxSniffLine_def line_def)
  ultimately have rs: "read_slice maxSniffLine r = (line @ crlf, None, r\<lparr>cr_data := rest\<rparr>)"
    by (simp add: read_slice_def d crlf_def)
  have "CHR '' '' \<notin> set t" using splitTarget_chars [OF t, of "CHR '' ''"] by (auto simp: safe_char_def byte_class_defs)
  then have "requestLineParts (line @ crlf) = (''CONNECT'', t)" unfolding line_def using v by (rule requestLineParts_CONNECT)
  with rs read_slice_append [OF rs] show "dispatch r prefixes = ToConnect r" by (simp add: dispatch_def)
qed

theorem dispatch_exact_witness: "dispatch example_request [] = ToConnect example_request"
  using dispatch_exact [THEN conjunct2, THEN conjunct2, THEN mp, OF example_readRequest] .

text \<open>
  C36: In every interleaving of accepting, handling and closing, the connections that hold a slot
  (CONNECT and other alike) never exceed the limit, \<open>conns\<close> is exactly the set of connections being
  handled, and once \<open>Close\<close> has returned no handler runs or is still finishing, now or later.
\<close>

theorem conns_bounded:
  assumes "reachable cap s"
  shows "cs_sem s \<le> cap \<and> card {c. cs_phase s c \<in> {Taken, Rejected, Handling, Removed, Other}} \<le> cap \<and>
    cs_conns s = {c. cs_phase s c = Handling} \<and>
    (if cs_returned s then {c. cs_phase s c \<in> {Handling, Removed, Released}} = {} else True)"
proof -
  from reachable_inv [OF assms] have inv: "conns_inv cap s" .
  have "finite {c. counted (cs_phase s c)}"
    by (rule finite_phase [of "cs_phase s" counted]) (use inv in \<open>simp_all add: conns_inv_def counted_def\<close>)
  moreover have "cs_returned s \<Longrightarrow> card {c. counted (cs_phase s c)} = 0"
    using inv unfolding conns_inv_def by metis
  ultimately have "cs_returned s \<Longrightarrow> {c. counted (cs_phase s c)} = {}"
    using card_0_eq by blast
  with inv show ?thesis unfolding conns_inv_def holds_slot_def counted_def by simp
qed

theorem conns_bounded_witness:
  "cs_sem (accepted_take 1 0 init_conns) \<le> 1"
proof -
  have "reachable 1 (accepted_take 1 0 init_conns)"
    by (rule reachable.step [OF reachable.init]) (rule step.take, simp add: init_conns_def)
  from conns_bounded [OF this] show ?thesis by blast
qed

end
