(* ===== verification/Go_Path.thy ===== *)
theory Go_Path
  imports Go_Prelude
begin

text \<open>
  Package path/filepath on Unix, as far as it is used: \<open>IsAbs\<close>, \<open>Clean\<close>, \<open>Dir\<close> and \<open>IsLocal\<close>.
  \<open>Clean\<close> processes the components of a path from left to right and keeps those that remain, which
  is the documented reading of its rules.
\<close>

definition IsAbs :: "string \<Rightarrow> bool" where
  "IsAbs p \<longleftrightarrow> has_prefix p ''/''"

text \<open>One component; the components kept so far are in reverse order.\<close>

definition clean_step :: "bool \<Rightarrow> string list \<Rightarrow> string \<Rightarrow> string list" where
  "clean_step rooted out c =
     (if c = [] \<or> c = ''.'' then out
      else if c = ''..'' then
        (case out of
           [] \<Rightarrow> if rooted then [] else [''..'']
         | x # xs \<Rightarrow> if x = ''..'' then ''..'' # out else xs)
      else c # out)"

definition Clean :: "string \<Rightarrow> string" where
  "Clean p =
     (if p = [] then ''.''
      else let rooted = IsAbs p;
               s = join ''/'' (rev (foldl (clean_step rooted) [] (split (CHR ''/'') p))) in
           if rooted then CHR ''/'' # s else if s = [] then ''.'' else s)"

definition Dir :: "string \<Rightarrow> string" where
  "Dir p = Clean (case last_index_byte p (CHR ''/'') of None \<Rightarrow> [] | Some i \<Rightarrow> take (i + 1) p)"

definition IsLocal :: "string \<Rightarrow> bool" where
  "IsLocal p \<longleftrightarrow>
     p \<noteq> [] \<and> \<not> IsAbs p \<and>
     (let q = (if \<exists>c\<in>set (split (CHR ''/'') p). c = ''.'' \<or> c = ''..'' then Clean p else p) in
      q \<noteq> ''..'' \<and> \<not> has_prefix q ''../'')"

section \<open>Clean absolute paths\<close>

definition ok_comp :: "string \<Rightarrow> bool" where
  "ok_comp c \<longleftrightarrow> c \<noteq> [] \<and> c \<noteq> ''.'' \<and> c \<noteq> ''..'' \<and> CHR ''/'' \<notin> set c"

lemma clean_step_ok: "ok_comp c \<Longrightarrow> clean_step rooted out c = c # out"
  by (simp add: clean_step_def ok_comp_def)

lemma foldl_clean_ok: "list_all ok_comp cs \<Longrightarrow> foldl (clean_step rooted) out cs = rev cs @ out"
  by (induction cs arbitrary: out) (auto simp: clean_step_ok)

lemma foldl_clean_sound:
  "list_all ok_comp out \<Longrightarrow> \<forall>c\<in>set cs. CHR ''/'' \<notin> set c \<Longrightarrow> list_all ok_comp (foldl (clean_step True) out cs)"
proof (induction cs arbitrary: out)
  case (Cons c cs)
  have "list_all ok_comp (clean_step True out c)"
    using Cons.prems by (cases out) (auto simp: clean_step_def ok_comp_def list_all_iff)
  with Cons show ?case by simp
qed simp

lemma split_slash_join:
  "list_all ok_comp cs \<Longrightarrow> cs \<noteq> [] \<Longrightarrow> split (CHR ''/'') (CHR ''/'' # join ''/'' cs) = [] # cs"
  by (simp add: split_join list_all_iff ok_comp_def)

lemma Clean_abs_iff:
  assumes "IsAbs p"
  shows "Clean p = p \<longleftrightarrow> (\<exists>cs. list_all ok_comp cs \<and> p = CHR ''/'' # join ''/'' cs)"
proof
  assume c: "Clean p = p"
  let ?cs = "rev (foldl (clean_step True) [] (split (CHR ''/'') p))"
  have "p \<noteq> []" using assms by (auto simp: IsAbs_def has_prefix_def)
  then have "p = CHR ''/'' # join ''/'' ?cs" using c assms by (simp add: Clean_def)
  moreover have "list_all ok_comp ?cs"
    using foldl_clean_sound [of "[]" "split (CHR ''/'') p"] split_no_sep by auto
  ultimately show "\<exists>cs. list_all ok_comp cs \<and> p = CHR ''/'' # join ''/'' cs" by blast
next
  assume "\<exists>cs. list_all ok_comp cs \<and> p = CHR ''/'' # join ''/'' cs"
  then obtain cs where cs: "list_all ok_comp cs" "p = CHR ''/'' # join ''/'' cs" by blast
  show "Clean p = p"
  proof (cases "cs = []")
    case True
    with cs show ?thesis by (simp add: Clean_def IsAbs_def has_prefix_def clean_step_def)
  next
    case False
    have "foldl (clean_step True) [] ([] # cs) = rev cs"
      using foldl_clean_ok [OF cs(1)] by (simp add: clean_step_def)
    with split_slash_join [OF cs(1) False] cs(2) assms show ?thesis by (simp add: Clean_def)
  qed
qed

section \<open>Clean relative paths\<close>

lemma foldl_clean_shape:
  "\<exists>oks n. out = oks @ replicate n ''..'' \<and> list_all ok_comp oks \<Longrightarrow> \<forall>c\<in>set cs. CHR ''/'' \<notin> set c \<Longrightarrow>
   \<exists>oks n. foldl (clean_step False) out cs = oks @ replicate n ''..'' \<and> list_all ok_comp oks"
proof (induction cs arbitrary: out)
  case (Cons c cs)
  from Cons.prems(1) obtain oks n where out: "out = oks @ replicate n ''..''" "list_all ok_comp oks" by blast
  have "\<exists>oks n. clean_step False out c = oks @ replicate n ''..'' \<and> list_all ok_comp oks"
  proof (cases oks)
    case Nil
    consider "c = [] \<or> c = ''.''" | "c = ''..''" | "ok_comp c" using Cons.prems(2) by (auto simp: ok_comp_def)
    then show ?thesis
    proof cases
      case 1
      with out show ?thesis by (auto simp: clean_step_def)
    next
      case 2
      then have "clean_step False out c = replicate (Suc n) ''..''" using out Nil by (cases n) (auto simp: clean_step_def)
      then show ?thesis by (intro exI [of _ "[]"]) (auto intro: exI [of _ "Suc n"])
    next
      case 3
      then have "clean_step False out c = [c] @ replicate n ''..''" using out Nil by (simp add: clean_step_ok)
      with 3 show ?thesis by (intro exI [of _ "[c]"]) (auto intro: exI [of _ n])
    qed
  next
    case (Cons o' os)
    then have o': "ok_comp o'" "list_all ok_comp os" using out by auto
    then show ?thesis
      using out Cons \<open>\<forall>c\<in>set (c # cs). CHR ''/'' \<notin> set c\<close>
      by (cases "c = [] \<or> c = ''.''"; cases "c = ''..''")
        (auto simp: clean_step_def ok_comp_def intro: exI [of _ "c # oks"] exI [of _ os] exI [of _ oks])
  qed
  then show ?case using Cons.IH Cons.prems(2) by simp
qed auto

lemma local_clean_iff:
  "p \<noteq> [] \<and> p \<noteq> ''.'' \<and> IsLocal p \<and> Clean p = p \<longleftrightarrow> (\<exists>cs. cs \<noteq> [] \<and> list_all ok_comp cs \<and> p = join ''/'' cs)"
proof
  assume a: "p \<noteq> [] \<and> p \<noteq> ''.'' \<and> IsLocal p \<and> Clean p = p"
  let ?out = "foldl (clean_step False) [] (split (CHR ''/'') p)"
  obtain oks n where out: "?out = oks @ replicate n ''..''" "list_all ok_comp oks"
    using foldl_clean_shape [of "[]" "split (CHR ''/'') p"] split_no_sep
    by (fastforce intro: exI [of _ "[]"] exI [of _ "0 :: nat"])
  have rel: "\<not> IsAbs p" using a by (simp add: IsLocal_def)
  have p: "p = join ''/'' (replicate n ''..'' @ rev oks)"
    using a rel out by (auto simp: Clean_def Let_def split: if_splits)
  have "p \<noteq> ''..'' \<and> \<not> has_prefix p ''../''" using a by (auto simp: IsLocal_def Let_def split: if_splits)
  then have "n = 0"
    using p by (cases n; cases "replicate (n - 1) ''..'' @ rev oks") (auto simp: has_prefix_def)
  moreover have "oks \<noteq> []" using p a \<open>n = 0\<close> by auto
  ultimately show "\<exists>cs. cs \<noteq> [] \<and> list_all ok_comp cs \<and> p = join ''/'' cs"
    using p out by (intro exI [of _ "rev oks"]) simp
next
  assume "\<exists>cs. cs \<noteq> [] \<and> list_all ok_comp cs \<and> p = join ''/'' cs"
  then obtain cs where cs: "cs \<noteq> []" "list_all ok_comp cs" "p = join ''/'' cs" by blast
  have sp: "split (CHR ''/'') p = cs" using cs by (auto simp: list_all_iff ok_comp_def intro!: split_join)
  have ne: "p \<noteq> []" "p \<noteq> ''.''" "p \<noteq> ''..''" using sp cs by (auto simp: ok_comp_def)
  have np: "\<not> has_prefix p (q @ ''/'')" if "\<not> ok_comp q" "CHR ''/'' \<notin> set q" for q
  proof
    assume "has_prefix p (q @ ''/'')"
    then obtain r where "p = q @ CHR ''/'' # r" by (auto simp: has_prefix_iff)
    then have "split (CHR ''/'') p = q # split (CHR ''/'') r" using that by (simp add: split_append)
    with sp cs that show False by auto
  qed
  have "\<not> IsAbs p" using np [of "[]"] by (simp add: IsAbs_def ok_comp_def)
  moreover have "foldl (clean_step False) [] cs = rev cs" using foldl_clean_ok [OF cs(2)] by simp
  ultimately have "Clean p = p" using sp ne cs by (simp add: Clean_def)
  moreover have "\<not> has_prefix p ''../''" using np [of "''..''"] by (simp add: ok_comp_def)
  ultimately show "p \<noteq> [] \<and> p \<noteq> ''.'' \<and> IsLocal p \<and> Clean p = p"
    using ne \<open>\<not> IsAbs p\<close> by (simp add: IsLocal_def)
qed

end
