(* ===== verification/Netip_Parse.thy ===== *)
theory Netip_Parse
  imports Egress_Addr
begin

text \<open>
  Parsing of addresses, as package net/netip does it: \<open>ParseAddr\<close> and \<open>ParseAddrPort\<close>, without the
  texts of their errors.
\<close>

section \<open>IPv4\<close>

text \<open>A field: one to three digits up to 255, without a leading zero.\<close>

definition ipv4_field :: "string \<Rightarrow> nat option" where
  "ipv4_field s =
     (if s = [] \<or> \<not> list_all is_digit s then None
      else if length s > 1 \<and> hd s = CHR ''0'' then None
      else if dec_value s > 255 then None
      else Some (dec_value s))"

definition ipv4_fields :: "string \<Rightarrow> nat list option" where
  "ipv4_fields s =
     (let fs = map ipv4_field (split (CHR ''.'') s) in
      if length fs = 4 \<and> None \<notin> set fs then Some (map the fs) else None)"

definition parseIPv4 :: "string \<Rightarrow> addr option" where
  "parseIPv4 s = (case ipv4_fields s of Some [a, b, c, d] \<Rightarrow> Some (V4 (mk_v4 a b c d)) | _ \<Rightarrow> None)"

section \<open>IPv6\<close>

definition hex_digit :: "char \<Rightarrow> nat option" where
  "hex_digit c =
     (if is_digit c then Some (byte c - 48)
      else if 97 \<le> byte c \<and> byte c \<le> 102 then Some (byte c - 97 + 10)
      else if 65 \<le> byte c \<and> byte c \<le> 70 then Some (byte c - 65 + 10)
      else None)"

definition hex_value :: "string \<Rightarrow> nat" where
  "hex_value s = foldl (\<lambda>n c. n * 16 + the (hex_digit c)) 0 s"

text \<open>
  The loop over the groups. \<open>bs\<close> are the bytes read so far, \<open>ell\<close> the position of the ellipsis. A
  group is up to four hexadecimal digits; a group followed by a dot starts a trailing IPv4 address.
  At most eight groups are read.
\<close>

fun ipv6_groups :: "nat \<Rightarrow> string \<Rightarrow> nat list \<Rightarrow> nat option \<Rightarrow> (nat list \<times> nat option \<times> string) option" where
  "ipv6_groups 0 s bs ell = Some (bs, ell, s)"
| "ipv6_groups (Suc k) s bs ell =
     (let h = takeWhile (\<lambda>c. hex_digit c \<noteq> None) s; rest = drop (length h) s in
      if h = [] \<or> length h > 4 then None
      else if rest \<noteq> [] \<and> hd rest = CHR ''.'' then
        (if ell = None \<and> length bs \<noteq> 12 then None
         else if length bs + 4 > 16 then None
         else (case ipv4_fields s of Some v4 \<Rightarrow> Some (bs @ v4, ell, []) | None \<Rightarrow> None))
      else let bs' = bs @ [hex_value h div 256, hex_value h mod 256] in
        (case rest of
           [] \<Rightarrow> Some (bs', ell, [])
         | c # s1 \<Rightarrow>
             if c \<noteq> CHR '':'' \<or> s1 = [] then None
             else if hd s1 = CHR '':'' then
               (if ell \<noteq> None then None
                else if tl s1 = [] then Some (bs', Some (length bs'), [])
                else ipv6_groups k (tl s1) bs' (Some (length bs')))
             else ipv6_groups k s1 bs' ell))"

definition word_of_bytes :: "nat list \<Rightarrow> 128 word" where
  "word_of_bytes bs = word_of_nat (foldl (\<lambda>n b. n * 256 + b) 0 bs)"

definition ipv6_finish :: "nat list \<times> nat option \<times> string \<Rightarrow> string \<Rightarrow> addr option" where
  "ipv6_finish res zone =
     (case res of (bs, ell, s) \<Rightarrow>
        if s \<noteq> [] then None
        else if length bs < 16 then
          (case ell of
             None \<Rightarrow> None
           | Some e \<Rightarrow> Some (V6 (word_of_bytes (take e bs @ replicate (16 - length bs) 0 @ drop e bs)) zone))
        else if ell \<noteq> None then None
        else Some (V6 (word_of_bytes bs) zone))"

definition parseIPv6 :: "string \<Rightarrow> addr option" where
  "parseIPv6 inp =
     (case cut (CHR ''%'') inp of (s0, zone, hasZone) \<Rightarrow>
        if hasZone \<and> zone = [] then None
        else if has_prefix s0 ''::'' then
          (let s = drop 2 s0 in
           if s = [] then Some (V6 0 zone)
           else (case ipv6_groups 8 s [] (Some 0) of None \<Rightarrow> None | Some res \<Rightarrow> ipv6_finish res zone))
        else (case ipv6_groups 8 s0 [] None of None \<Rightarrow> None | Some res \<Rightarrow> ipv6_finish res zone))"

section \<open>Addresses and ports\<close>

text \<open>The first dot, colon or percent sign decides the kind of address.\<close>

definition ParseAddr :: "string \<Rightarrow> addr option" where
  "ParseAddr s =
     (case dropWhile (\<lambda>c. c \<notin> {CHR ''.'', CHR '':'', CHR ''%''}) s of
        [] \<Rightarrow> None
      | c # _ \<Rightarrow> if c = CHR ''.'' then parseIPv4 s else if c = CHR '':'' then parseIPv6 s else None)"

fun is4 :: "addr \<Rightarrow> bool" where
  "is4 (V4 w) = True"
| "is4 _ = False"

definition ParseAddrPort :: "string \<Rightarrow> (addr \<times> 16 word) option" where
  "ParseAddrPort s =
     (case last_index_byte s (CHR '':'') of
        None \<Rightarrow> None
      | Some i \<Rightarrow>
          let ip = take i s; port = drop (i + 1) s in
          if ip = [] \<or> port = [] then None
          else if hd ip = CHR ''['' then
            (if length ip < 2 \<or> last ip \<noteq> CHR '']'' then None
             else (case parse_uint 16 port of
                     None \<Rightarrow> None
                   | Some n \<Rightarrow>
                       (case ParseAddr (butlast (tl ip)) of
                          None \<Rightarrow> None
                        | Some a \<Rightarrow> if is4 a then None else Some (a, word_of_nat n))))
          else (case parse_uint 16 port of
                  None \<Rightarrow> None
                | Some n \<Rightarrow>
                    (case ParseAddr ip of
                       None \<Rightarrow> None
                     | Some a \<Rightarrow> if is4 a then Some (a, word_of_nat n) else None)))"

end
