(* ===== verification/Sandbox_Contract.thy ===== *)
theory Sandbox_Contract
  imports Go_Path Netip_Parse
begin

text \<open>
  The contract every sandbox backend obeys (package core/sandbox: sandbox.go) and its shared
  validation (package sandbox/contract: path.go, env.go, host.go, validate.go). A start
  specification lists what a cage may see; the validation refuses what would let a credential, the
  host's home or a system path into it. Resolving symbolic links is the parameter \<open>eval\<close>, which
  stands for \<open>filepath.EvalSymlinks\<close> on the host's file system (\<open>None\<close> is its error).

  Every error of the validation wraps \<open>ErrRejected\<close>; the model keeps which rule was violated.
\<close>

section \<open>The port (core/sandbox)\<close>

record capabilities =
  cap_PathRemap :: bool
  cap_PrivateLoopback :: bool
  cap_KillsDescendants :: bool
  cap_PrivatePIDs :: bool
  cap_ExtraEnv :: "string list"

definition Capabilities_Has :: "capabilities \<Rightarrow> string \<Rightarrow> bool" where
  "Capabilities_Has c name =
     (if name = ''path-remap'' then cap_PathRemap c
      else if name = ''private-loopback'' then cap_PrivateLoopback c
      else if name = ''kills-descendants'' then cap_KillsDescendants c
      else if name = ''private-pids'' then cap_PrivatePIDs c
      else False)"

record mount =
  m_HostPath :: string
  m_GuestPath :: string
  m_InHome :: bool

definition Guest :: "mount \<Rightarrow> string" where
  "Guest m = (if m_GuestPath m \<noteq> [] then m_GuestPath m else m_HostPath m)"

record envvar =
  ev_Key :: string
  ev_Value :: string

record spec =
  sp_Exec :: string
  sp_Args :: "string list"
  sp_Dir :: string
  sp_Env :: "envvar list"
  sp_Read :: "mount list"
  sp_Write :: "mount list"
  sp_System :: bool
  sp_Scratch :: "string list"
  sp_Egress :: string
  sp_Loopback :: "string list"
  sp_Terminal :: bool

section \<open>Paths (path.go)\<close>

datatype path_err = PathEmpty | PathNotAbs | PathControl | PathNotClean | PathIsRoot

definition HasControl :: "string \<Rightarrow> bool" where
  "HasControl s \<longleftrightarrow> (\<exists>c\<in>set s. byte c < 0x20 \<or> byte c = 0x7f)"

definition CheckPath :: "string \<Rightarrow> path_err + unit" where
  "CheckPath p =
     (if p = [] then Inl PathEmpty
      else if \<not> IsAbs p then Inl PathNotAbs
      else if HasControl p then Inl PathControl
      else if Clean p \<noteq> p then Inl PathNotClean
      else Inr ())"

definition Under :: "string \<Rightarrow> string \<Rightarrow> bool" where
  "Under p root \<longleftrightarrow> root = ''/'' \<or> p = root \<or> has_prefix p (root @ ''/'')"

definition Overlap :: "string \<Rightarrow> string \<Rightarrow> bool" where
  "Overlap a b \<longleftrightarrow> Under a b \<or> Under b a"

section \<open>Environment variables (env.go)\<close>

definition credEnvKeys :: "string list" where
  "credEnvKeys = [''SSH_AUTH_SOCK'', ''SSH_AGENT_PID'', ''GPG_AGENT_INFO'', ''GNUPGHOME'', ''KUBECONFIG'']"

definition credEnvPrefixes :: "string list" where
  "credEnvPrefixes = [''AWS_'', ''AZURE_'', ''GOOGLE_'', ''GCP_'', ''CLOUDSDK_'']"

definition credEnvParts :: "string list" where
  "credEnvParts = [''TOKEN'', ''SECRET'', ''PASSWORD'', ''PASSWD'', ''CREDENTIAL'', ''API_KEY'', ''APIKEY'', ''PRIVATE_KEY'', ''ACCESS_KEY'']"

datatype env_err = EnvBadKey | EnvBadValue | EnvCredential

definition env_key_ok :: "string \<Rightarrow> bool" where
  "env_key_ok key \<longleftrightarrow> key \<noteq> [] \<and>
     (\<forall>i<length key. key ! i = CHR ''_'' \<or> is_upper (key ! i) \<or> is_lower (key ! i) \<or> (i > 0 \<and> is_digit (key ! i)))"

definition CheckEnv :: "string \<Rightarrow> string \<Rightarrow> env_err + unit" where
  "CheckEnv key value =
     (if \<not> env_key_ok key then Inl EnvBadKey
      else if contains_any value [CHR 0x00, CHR 0x0A, CHR 0x0D] then Inl EnvBadValue
      else let u = map upper_char key in
      if u \<in> set credEnvKeys \<or> (\<exists>p\<in>set credEnvPrefixes. has_prefix u p) \<or> (\<exists>p\<in>set credEnvParts. contains u p)
        then Inl EnvCredential
      else Inr ())"

section \<open>The host (host.go)\<close>

record host =
  h_Home :: string
  h_Secrets :: "string list"

text \<open>What the process can learn about its user: the home directory of the environment, that of the
  user database, and the environment variables (an unset one is empty).\<close>

record user_env =
  ue_UserHomeDir :: "string option"
  ue_passwdHome :: "string option"
  ue_Getenv :: "string \<Rightarrow> string"

definition add_secret :: "string list \<Rightarrow> string \<Rightarrow> string list" where
  "add_secret secrets p = (if IsAbs p then secrets @ [Clean p] else secrets)"

definition CurrentHost :: "user_env \<Rightarrow> host" where
  "CurrentHost e =
     (let home = (case ue_UserHomeDir e of Some h \<Rightarrow> Clean h | None \<Rightarrow> []);
          s0 = (case ue_passwdHome e of Some u \<Rightarrow> if Clean u \<noteq> home then add_secret [] u else [] | None \<Rightarrow> []);
          s1 = add_secret s0 (ue_Getenv e ''SSH_AUTH_SOCK'');
          s2 = add_secret s1 (ue_Getenv e ''GNUPGHOME'');
          s3 = add_secret s2 (ue_Getenv e ''XDG_RUNTIME_DIR'');
          s4 = add_secret s3 (fst (cut (CHR '':'') (ue_Getenv e ''GPG_AGENT_INFO'')));
          s5 = foldl (\<lambda>s part. case cut_prefix part ''unix:path='' of Some p \<Rightarrow> add_secret s p | None \<Rightarrow> s) s4
                 (split (CHR '','') (ue_Getenv e ''DBUS_SESSION_BUS_ADDRESS'')) in
      \<lparr>h_Home = home, h_Secrets = s5\<rparr>)"

definition Host_check :: "host \<Rightarrow> path_err + unit" where
  "Host_check h =
     bindR (CheckPath (h_Home h)) (\<lambda>_.
       if h_Home h = ''/'' then Inl PathIsRoot
       else eachR CheckPath (h_Secrets h))"

record os_policy =
  p_ProtectedTrees :: "string list"
  p_WholeDenied :: "string list"
  p_ReadOnlyTrees :: "string list"
  p_GuestReserved :: "string list"
  p_SystemPaths :: "string list"
  p_SystemLinks :: "string list"

definition LinuxPolicy :: os_policy where
  "LinuxPolicy =
     \<lparr>p_ProtectedTrees = [''/root'', ''/home'', ''/run'', ''/var/run'', ''/proc'', ''/sys'', ''/dev'', ''/boot'',
        ''/etc/shadow'', ''/etc/gshadow'', ''/etc/ssh'', ''/etc/sudoers'', ''/etc/sudoers.d'', ''/etc/ssl/private'',
        ''/var/lib/docker'', ''/var/lib/containerd''],
      p_WholeDenied = [''/tmp'', ''/var/tmp''],
      p_ReadOnlyTrees = [''/usr'', ''/bin'', ''/sbin'', ''/lib'', ''/lib32'', ''/lib64'', ''/libx32'', ''/opt'', ''/etc'', ''/var''],
      p_GuestReserved = [''/proc'', ''/dev''],
      p_SystemPaths = [''/usr''],
      p_SystemLinks = [''/lib'', ''/lib64'', ''/bin'', ''/sbin'']\<rparr>"

definition homeSecrets :: "string list" where
  "homeSecrets = [''.ssh'', ''.aws'', ''.azure'', ''.kube'', ''.docker'',
     ''.netrc'', ''.git-credentials'', ''.npmrc'', ''.pypirc'', ''.password-store'', ''.codex'', ''.copilot'', ''.commandcode'',
     ''.config/gh'', ''.config/git'', ''.config/gcloud'', ''.config/op'', ''.local/share/keyrings'',
     ''.local/share/opencode'', ''.config/opencode'']"

definition IsHomeSecret :: "string \<Rightarrow> bool" where
  "IsHomeSecret rel =
     (let first = fst (cut (CHR ''/'') rel) in
      if has_prefix first ''.claude'' \<or> has_prefix first ''.gnupg'' then True
      else (\<exists>s\<in>set homeSecrets. Overlap rel s))"

section \<open>Validation (validate.go)\<close>

record rules =
  r_Host :: host
  r_Policy :: os_policy
  r_Caps :: capabilities

datatype src_err =
    SrcPath path_err | SrcHome | SrcHomeSecret | SrcNotMarked | SrcMarked | SrcProtected
  | SrcWhole | SrcSecret | SrcTree | SrcReadOnly

definition none_of :: "('a \<Rightarrow> bool) \<Rightarrow> 'e \<Rightarrow> 'a list \<Rightarrow> 'e + unit" where
  "none_of P e xs = (if \<exists>x\<in>set xs. P x then Inl e else Inr ())"

definition checkSource :: "rules \<Rightarrow> mount \<Rightarrow> string \<Rightarrow> bool \<Rightarrow> bool \<Rightarrow> string list \<Rightarrow> src_err + unit" where
  "checkSource r m src write lexical trees =
     (case CheckPath src of
        Inl e \<Rightarrow> Inl (SrcPath e)
      | Inr _ \<Rightarrow>
          let h = r_Host r in
          bindR
            (if Under (h_Home h) src then Inl SrcHome
             else if Under src (h_Home h) then
               (if IsHomeSecret (trim_prefix src (h_Home h @ ''/'')) then Inl SrcHomeSecret
                else if \<not> m_InHome m then Inl SrcNotMarked else Inr ())
             else if lexical \<and> m_InHome m then Inl SrcMarked
             else bindR (none_of (Overlap src) SrcProtected (p_ProtectedTrees (r_Policy r))) (\<lambda>_.
               if src \<in> set (p_WholeDenied (r_Policy r)) then Inl SrcWhole else Inr ()))
          (\<lambda>_. bindR (none_of (Overlap src) SrcSecret (h_Secrets h)) (\<lambda>_.
          bindR (none_of (Overlap src) SrcTree trees) (\<lambda>_.
          if write then none_of (Under src) SrcReadOnly (p_ReadOnlyTrees (r_Policy r)) else Inr ()))))"

datatype contract_err =
    RejHost path_err | RejExtraEnv env_err | RejExec path_err | RejArgs | RejDir path_err
  | RejEnv env_err | RejEnvDup | RejGuest path_err | RejGuestRoot | RejGuestReserved | RejGuestDup
  | RejHostPath path_err | RejRemap | RejSource src_err | RejScratchRemap | RejScratchHidden
  | RejUnderLink | RejEgress path_err | RejEgressDir | RejLoopback

definition mapErr :: "('e \<Rightarrow> 'f) \<Rightarrow> 'e + 'a \<Rightarrow> 'f + 'a" where
  "mapErr f r = (case r of Inl e \<Rightarrow> Inl (f e) | Inr x \<Rightarrow> Inr x)"

text \<open>The closure \<open>claim\<close>: the paths of the cage that are taken, without the names of their owners.\<close>

definition claim :: "rules \<Rightarrow> string list \<Rightarrow> string \<Rightarrow> contract_err + string list" where
  "claim r guests guest =
     bindR (mapErr RejGuest (CheckPath guest)) (\<lambda>_.
       if guest = ''/'' then Inl RejGuestRoot
       else bindR (none_of (Under guest) RejGuestReserved (p_GuestReserved (r_Policy r))) (\<lambda>_.
         if guest \<in> set guests then Inl RejGuestDup else Inr (guest # guests)))"

fun claims :: "rules \<Rightarrow> string list \<Rightarrow> string list \<Rightarrow> contract_err + string list" where
  "claims r guests [] = Inr guests"
| "claims r guests (g # gs) = bindR (claim r guests g) (\<lambda>guests'. claims r guests' gs)"

fun validate_env :: "envvar list \<Rightarrow> envvar list \<Rightarrow> contract_err + unit" where
  "validate_env seen [] = Inr ()"
| "validate_env seen (e # es) =
     bindR (mapErr RejEnv (CheckEnv (ev_Key e) (ev_Value e))) (\<lambda>_.
       if \<exists>p\<in>set seen. ev_Key p = ev_Key e then Inl RejEnvDup else validate_env (seen @ [e]) es)"

text \<open>The loop over the mounts of one kind; it returns the paths taken and those of the mounts.\<close>

fun validate_mounts ::
  "rules \<Rightarrow> bool \<Rightarrow> string list \<Rightarrow> string list \<Rightarrow> mount list \<Rightarrow> contract_err + string list \<times> string list" where
  "validate_mounts r write guests mg [] = Inr (guests, mg)"
| "validate_mounts r write guests mg (m # ms) =
     bindR (mapErr RejHostPath (CheckPath (m_HostPath m))) (\<lambda>_.
       if m_GuestPath m \<noteq> [] \<and> m_GuestPath m \<noteq> m_HostPath m \<and> \<not> cap_PathRemap (r_Caps r) then Inl RejRemap
       else bindR (claim r guests (Guest m)) (\<lambda>guests'.
         bindR (mapErr RejSource (checkSource r m (m_HostPath m) write True [])) (\<lambda>_.
           validate_mounts r write guests' (mg @ [Guest m]) ms)))"

fun validate_scratch :: "rules \<Rightarrow> string list \<Rightarrow> string list \<Rightarrow> string list \<Rightarrow> contract_err + string list" where
  "validate_scratch r inner guests [] = Inr guests"
| "validate_scratch r inner guests (p # ps) =
     (if \<not> cap_PathRemap (r_Caps r) then Inl RejScratchRemap
      else bindR (claim r guests p) (\<lambda>guests'.
        if \<exists>g\<in>set inner. p \<noteq> g \<and> Under p g then Inl RejScratchHidden
        else validate_scratch r inner guests' ps))"

definition Validate :: "rules \<Rightarrow> spec \<Rightarrow> contract_err + unit" where
  "Validate r s =
     bindR (mapErr RejHost (Host_check (r_Host r))) (\<lambda>_.
     bindR (mapErr RejExtraEnv (eachR (\<lambda>name. CheckEnv name []) (cap_ExtraEnv (r_Caps r)))) (\<lambda>_.
     bindR (mapErr RejExec (CheckPath (sp_Exec s))) (\<lambda>_.
     if \<exists>a\<in>set (sp_Args s). CHR 0x00 \<in> set a then Inl RejArgs else
     bindR (if sp_Dir s \<noteq> [] then mapErr RejDir (CheckPath (sp_Dir s)) else Inr ()) (\<lambda>_.
     bindR (validate_env [] (sp_Env s)) (\<lambda>_.
     let binds = (if sp_System s then p_SystemPaths (r_Policy r) else []);
         links = (if sp_System s then p_SystemLinks (r_Policy r) else []) in
     bindR (claims r [] (binds @ links)) (\<lambda>guests0.
     bindR (validate_mounts r False guests0 [] (sp_Read s)) (\<lambda>(guests1, mg1).
     bindR (validate_mounts r True guests1 mg1 (sp_Write s)) (\<lambda>(guests2, mg2).
     bindR (validate_scratch r (mg2 @ binds) guests2 (sp_Scratch s)) (\<lambda>guests.
     if \<exists>g\<in>set guests. \<exists>link\<in>set links. g \<noteq> link \<and> Under g link then Inl RejUnderLink else
     bindR (if sp_Egress s \<noteq> [] then
              bindR (mapErr RejEgress (CheckPath (sp_Egress s))) (\<lambda>_.
                if \<not> (\<exists>m\<in>set (sp_Read s). Guest m = Dir (sp_Egress s)) then Inl RejEgressDir else Inr ())
            else Inr ()) (\<lambda>_.
     if \<exists>l\<in>set (sp_Loopback s). \<not> (case ParseAddrPort l of None \<Rightarrow> False | Some (a, port) \<Rightarrow> IsLoopback a) then Inl RejLoopback
     else Inr ()))))))))))"

subsection \<open>Symbolic links\<close>

definition evalOrSelf :: "(string \<Rightarrow> string option) \<Rightarrow> string \<Rightarrow> string" where
  "evalOrSelf eval p = (case eval p of Some real \<Rightarrow> real | None \<Rightarrow> p)"

definition resolve_deny :: "(string \<Rightarrow> string option) \<Rightarrow> string list \<Rightarrow> string \<Rightarrow> string list" where
  "resolve_deny eval trees home =
     trees @ concat (map (\<lambda>rel. [home @ ''/'' @ rel, evalOrSelf eval home @ ''/'' @ rel])
       (homeSecrets @ [''.claude'', ''.claude.json'', ''.gnupg'', ''.gnupg-vault'']))"

definition resolved_trees :: "(string \<Rightarrow> string option) \<Rightarrow> string list \<Rightarrow> string list" where
  "resolved_trees eval deny =
     concat (map (\<lambda>p. case eval p of Some real \<Rightarrow> if real \<noteq> p then [real] else [] | None \<Rightarrow> []) deny)"

definition resolved_host :: "(string \<Rightarrow> string option) \<Rightarrow> host \<Rightarrow> host" where
  "resolved_host eval h =
     \<lparr>h_Home = evalOrSelf eval (h_Home h), h_Secrets = h_Secrets h @ map (evalOrSelf eval) (h_Secrets h)\<rparr>"

datatype resolve_err = Unresolvable | ResolvedRejected src_err

fun resolve_mounts ::
  "(string \<Rightarrow> string option) \<Rightarrow> rules \<Rightarrow> string list \<Rightarrow> bool \<Rightarrow> mount list \<Rightarrow> resolve_err + string list" where
  "resolve_mounts eval rr trees write [] = Inr []"
| "resolve_mounts eval rr trees write (m # ms) =
     (case eval (m_HostPath m) of
        None \<Rightarrow> Inl Unresolvable
      | Some real \<Rightarrow>
          bindR (mapErr ResolvedRejected (checkSource rr m real write False trees)) (\<lambda>_.
          bindR (resolve_mounts eval rr trees write ms) (\<lambda>rs. Inr (real # rs))))"

definition Resolve :: "(string \<Rightarrow> string option) \<Rightarrow> rules \<Rightarrow> spec \<Rightarrow> resolve_err + string list \<times> string list" where
  "Resolve eval r s =
     (let host = resolved_host eval (r_Host r);
          trees = resolved_trees eval (resolve_deny eval (p_ProtectedTrees (r_Policy r)) (h_Home (r_Host r)));
          rr = r\<lparr>r_Host := host\<rparr> in
      bindR (resolve_mounts eval rr trees False (sp_Read s)) (\<lambda>rd.
      bindR (resolve_mounts eval rr trees True (sp_Write s)) (\<lambda>wr. Inr (rd, wr))))"

section \<open>Lemmas\<close>

lemma mapErr_simps [simp]: "mapErr f (Inl e) = Inl (f e)" "mapErr f (Inr x) = Inr x"
  by (simp_all add: mapErr_def)

lemma mapErr_Inr_iff [simp]: "mapErr f r = Inr x \<longleftrightarrow> r = Inr x"
  by (cases r) simp_all

lemma none_of_Inr_iff [simp]: "none_of P e xs = Inr u \<longleftrightarrow> (\<forall>x\<in>set xs. \<not> P x)"
  by (simp add: none_of_def)

subsection \<open>Trees of paths\<close>

text \<open>
  What the checks rely on about \<open>Under\<close>: it is a tree order, in which two paths above a third one
  are comparable. So two paths that do not overlap have nothing below them in common.
\<close>

locale path_tree =
  fixes under :: "string \<Rightarrow> string \<Rightarrow> bool"
  assumes under_refl: "under p p"
    and under_linear: "under q a \<Longrightarrow> under q b \<Longrightarrow> under a b \<or> under b a"
begin

definition overlaps :: "string \<Rightarrow> string \<Rightarrow> bool" where
  "overlaps a b \<longleftrightarrow> under a b \<or> under b a"

lemma disjoint_trees: "\<not> overlaps a b \<Longrightarrow> under q a \<Longrightarrow> \<not> under q b"
  using under_linear by (auto simp: overlaps_def)

lemma overlaps_sym: "overlaps a b \<longleftrightarrow> overlaps b a"
  by (auto simp: overlaps_def)

end

lemma Under_iff: "root \<noteq> ''/'' \<Longrightarrow> Under p root \<longleftrightarrow> has_prefix (p @ ''/'') (root @ ''/'')"
proof
  assume "root \<noteq> ''/''" "Under p root"
  then show "has_prefix (p @ ''/'') (root @ ''/'')" by (auto simp: Under_def has_prefix_iff)
next
  assume "has_prefix (p @ ''/'') (root @ ''/'')"
  then obtain r where "p @ ''/'' = root @ ''/'' @ r" by (auto simp: has_prefix_iff)
  then have "p = root \<or> has_prefix p (root @ ''/'')"
    by (cases r rule: rev_cases) (auto simp: has_prefix_iff)
  then show "Under p root" by (auto simp: Under_def)
qed

lemma has_prefix_linear: "has_prefix x a \<Longrightarrow> has_prefix x b \<Longrightarrow> has_prefix a b \<or> has_prefix b a"
  by (auto simp: has_prefix_iff append_eq_append_conv2)

interpretation pt: path_tree Under
proof
  show "Under p p" for p by (simp add: Under_def)
  show "Under a b \<or> Under b a" if "Under q a" "Under q b" for q a b
  proof (cases "a = ''/'' \<or> b = ''/''")
    case True
    then show ?thesis by (auto simp: Under_def)
  next
    case False
    then have "has_prefix (a @ ''/'') (b @ ''/'') \<or> has_prefix (b @ ''/'') (a @ ''/'')"
      using has_prefix_linear that by (simp add: Under_iff)
    with False show ?thesis by (simp add: Under_iff)
  qed
qed

lemma Overlap_overlaps: "Overlap = pt.overlaps"
  by (intro ext) (simp add: Overlap_def pt.overlaps_def)

lemma CheckPath_iff:
  "CheckPath p = Inr () \<longleftrightarrow>
     \<not> HasControl p \<and> (\<exists>cs. list_all ok_comp cs \<and> p = CHR ''/'' # join ''/'' cs)"
proof
  assume "CheckPath p = Inr ()"
  then show "\<not> HasControl p \<and> (\<exists>cs. list_all ok_comp cs \<and> p = CHR ''/'' # join ''/'' cs)"
    using Clean_abs_iff [of p] by (auto simp: CheckPath_def split: if_splits)
next
  assume a: "\<not> HasControl p \<and> (\<exists>cs. list_all ok_comp cs \<and> p = CHR ''/'' # join ''/'' cs)"
  then have "IsAbs p" by (auto simp: IsAbs_def has_prefix_def)
  with a Clean_abs_iff [of p] show "CheckPath p = Inr ()" by (auto simp: CheckPath_def)
qed

lemma CheckPath_no_nul: "CheckPath p = Inr () \<Longrightarrow> CHR 0x00 \<notin> set p"
  by (auto simp: CheckPath_def HasControl_def split: if_splits)

subsection \<open>Sources\<close>

lemma checkSource_Inr_iff:
  "checkSource r m src write lexical trees = Inr () \<longleftrightarrow>
     CheckPath src = Inr () \<and> \<not> Under (h_Home (r_Host r)) src \<and>
     (if Under src (h_Home (r_Host r)) then
        \<not> IsHomeSecret (trim_prefix src (h_Home (r_Host r) @ ''/'')) \<and> m_InHome m
      else \<not> (lexical \<and> m_InHome m) \<and> (\<forall>p\<in>set (p_ProtectedTrees (r_Policy r)). \<not> Overlap src p) \<and>
        src \<notin> set (p_WholeDenied (r_Policy r))) \<and>
     (\<forall>p\<in>set (h_Secrets (r_Host r)). \<not> Overlap src p) \<and> (\<forall>p\<in>set trees. \<not> Overlap src p) \<and>
     (write \<longrightarrow> (\<forall>p\<in>set (p_ReadOnlyTrees (r_Policy r)). \<not> Under src p))"
  by (cases "CheckPath src") (auto simp: checkSource_def Let_def)

lemma Under_append: "s \<noteq> ''/'' \<Longrightarrow> s \<noteq> [] \<Longrightarrow> Under (h @ ''/'' @ a) (h @ ''/'' @ s) \<longleftrightarrow> Under a s"
  by (cases h) (auto simp: Under_def has_prefix_iff)

lemma last_join: "list_all ok_comp cs \<Longrightarrow> cs \<noteq> [] \<Longrightarrow> join ''/'' cs \<noteq> [] \<and> last (join ''/'' cs) \<noteq> CHR ''/''"
proof (induction cs)
  case (Cons c cs)
  then show ?case
    by (cases "cs = []") (auto simp: ok_comp_def join_Cons dest: last_in_set)
qed simp

lemma CheckPath_last: "CheckPath p = Inr () \<Longrightarrow> p \<noteq> ''/'' \<Longrightarrow> last p \<noteq> CHR ''/''"
proof -
  assume c: "CheckPath p = Inr ()" and p: "p \<noteq> ''/''"
  from c obtain cs where cs: "list_all ok_comp cs" "p = CHR ''/'' # join ''/'' cs" unfolding CheckPath_iff by blast
  with p have "cs \<noteq> []" by auto
  with last_join [OF cs(1)] cs(2) show ?thesis by simp
qed

text \<open>The names below the home that hold credentials: the table, and every \<open>.claude\<close> and \<open>.gnupg\<close>.\<close>

definition home_secret_name :: "string \<Rightarrow> bool" where
  "home_secret_name s \<longleftrightarrow> s \<in> set homeSecrets \<or>
     (CHR ''/'' \<notin> set s \<and> (has_prefix s ''.claude'' \<or> has_prefix s ''.gnupg''))"

definition secret_path :: "host \<Rightarrow> string \<Rightarrow> bool" where
  "secret_path h q \<longleftrightarrow>
     (\<exists>s. home_secret_name s \<and> Under q (h_Home h @ ''/'' @ s)) \<or> (\<exists>sec\<in>set (h_Secrets h). Under q sec)"

lemma home_secret_name_not: "home_secret_name s \<Longrightarrow> s \<noteq> [] \<and> s \<noteq> ''/''"
  by (auto simp: home_secret_name_def homeSecrets_def has_prefix_def)

lemma IsHomeSecret_overlap:
  assumes "home_secret_name s" "Overlap rel s" "rel \<noteq> ''/''" "rel \<noteq> []"
  shows "IsHomeSecret rel"
proof (cases "s \<in> set homeSecrets")
  case True
  with assms(2) show ?thesis by (auto simp: IsHomeSecret_def Let_def)
next
  case False
  with assms(1) have s: "CHR ''/'' \<notin> set s" "has_prefix s ''.claude'' \<or> has_prefix s ''.gnupg''"
    by (auto simp: home_secret_name_def)
  have "rel = s \<or> (\<exists>r. rel = s @ CHR ''/'' # r)"
    using assms(2,3) s home_secret_name_not [OF assms(1)] by (auto simp: Overlap_def Under_def has_prefix_iff)
  then have "fst (cut (CHR ''/'') rel) = s"
  proof
    assume "rel = s"
    then show ?thesis using s(1) cut_not_found_iff [of "CHR ''/''" s s "[]"] by simp
  next
    assume "\<exists>r. rel = s @ CHR ''/'' # r"
    then obtain r where "rel = s @ CHR ''/'' # r" ..
    then show ?thesis using s(1) cut_found_iff [of "CHR ''/''" rel s r] by simp
  qed
  with s(2) show ?thesis by (simp add: IsHomeSecret_def)
qed

lemma Under_home: "home \<noteq> ''/'' \<Longrightarrow> home \<noteq> [] \<Longrightarrow> Under q (home @ ''/'' @ s) \<Longrightarrow> Under q home"
  by (cases home) (auto simp: Under_def has_prefix_iff)

text \<open>An accepted source shows neither the home itself nor anything that is secret on the host.\<close>

lemma checkSource_trees:
  assumes "checkSource r m src write lexical trees = Inr ()" "Under q src"
  shows "\<forall>t\<in>set trees. \<not> Under q t"
  using assms(1) [unfolded checkSource_Inr_iff] assms(2) pt.disjoint_trees by (auto simp: Overlap_overlaps)

lemma checkSource_hides:
  assumes ok: "checkSource r m src write lexical trees = Inr ()"
    and home: "CheckPath (h_Home (r_Host r)) = Inr ()" "h_Home (r_Host r) \<noteq> ''/''"
    and q: "Under q src"
  shows "\<not> secret_path (r_Host r) q" and "q \<noteq> h_Home (r_Host r)" and "\<forall>t\<in>set trees. \<not> Under q t"
proof -
  let ?h = "h_Home (r_Host r)"
  note c = ok [unfolded checkSource_Inr_iff]
  have h0: "?h \<noteq> []" using home(1) by (auto simp: CheckPath_def)
  show "q \<noteq> ?h" using c q by auto
  show "\<forall>t\<in>set trees. \<not> Under q t" using c q pt.disjoint_trees by (auto simp: Overlap_overlaps)
  have sec: "\<not> Under q x" if "x \<in> set (h_Secrets (r_Host r))" for x
    using c that q pt.disjoint_trees by (auto simp: Overlap_overlaps)
  have "\<not> Under q (?h @ ''/'' @ s)" if s: "home_secret_name s" for s
  proof
    assume u: "Under q (?h @ ''/'' @ s)"
    then have "Under src ?h" using Under_home [OF home(2) h0 u] pt.under_linear [OF q] c by blast
    moreover have "src \<noteq> ?h" using c pt.under_refl by auto
    ultimately obtain rel where rel: "src = ?h @ ''/'' @ rel"
      using home(2) by (auto simp: Under_def has_prefix_iff)
    have "CheckPath src = Inr ()" "src \<noteq> ''/''" using c by (auto simp: Under_def)
    then have "last src \<noteq> CHR ''/''" by (rule CheckPath_last)
    then have r: "rel \<noteq> []" "rel \<noteq> ''/''" using rel by auto
    have "\<not> IsHomeSecret rel"
      using c \<open>Under src ?h\<close> rel by (simp add: trim_prefix_def has_prefix_def)
    then have "\<not> Overlap rel s" using IsHomeSecret_overlap [OF s] r by blast
    then have "\<not> Overlap src (?h @ ''/'' @ s)"
      using Under_append [of s ?h rel] Under_append [of rel ?h s] r home_secret_name_not [OF s]
      unfolding Overlap_def rel by simp
    then show False using pt.disjoint_trees q u by (auto simp: Overlap_overlaps)
  qed
  with sec show "\<not> secret_path (r_Host r) q" by (auto simp: secret_path_def)
qed

subsection \<open>Whole specifications\<close>

lemma validate_mounts_sources:
  "validate_mounts r write guests mg ms = Inr (guests', mg') \<Longrightarrow>
   \<forall>m\<in>set ms. checkSource r m (m_HostPath m) write True [] = Inr ()"
  by (induction ms arbitrary: guests mg) (auto split: if_splits)

lemma Validate_sources:
  assumes "Validate r s = Inr ()"
  shows "Host_check (r_Host r) = Inr ()"
    and "\<forall>m\<in>set (sp_Read s). checkSource r m (m_HostPath m) False True [] = Inr ()"
    and "\<forall>m\<in>set (sp_Write s). checkSource r m (m_HostPath m) True True [] = Inr ()"
  using assms unfolding Validate_def
  by (auto simp: Let_def split: if_splits dest!: validate_mounts_sources)

lemma Host_check_home: "Host_check h = Inr () \<Longrightarrow> CheckPath (h_Home h) = Inr () \<and> h_Home h \<noteq> ''/''"
  by (auto simp: Host_check_def split: if_splits)

lemma resolve_mounts_sources:
  "resolve_mounts eval rr trees write ms = Inr rs \<Longrightarrow>
   \<forall>x\<in>set rs. \<exists>m\<in>set ms. eval (m_HostPath m) = Some x \<and> checkSource rr m x write False trees = Inr ()"
proof (induction ms arbitrary: rs)
  case (Cons m ms)
  then obtain real rs' where "eval (m_HostPath m) = Some real" "checkSource rr m real write False trees = Inr ()"
    "resolve_mounts eval rr trees write ms = Inr rs'" "rs = real # rs'"
    by (auto split: option.splits)
  with Cons.IH [of rs'] show ?case by auto
qed simp

lemma in_resolved_trees: "p \<in> set deny \<Longrightarrow> eval p = Some real \<Longrightarrow> real \<noteq> p \<Longrightarrow> real \<in> set (resolved_trees eval deny)"
  by (auto simp: resolved_trees_def intro!: bexI [of _ p])

section \<open>Properties\<close>

text \<open>
  No secret of the host is visible in a cage that was validated. Whatever lies at or below the
  host path of an accepted mount is neither the home directory, nor at or below one of the
  credential paths of the home (\<open>.ssh\<close>, \<open>.aws\<close>, every \<open>.claude\<close> and \<open>.gnupg\<close> name and so on), nor at
  or below an authentication socket or key of the host; and nothing below a writable mount is in a
  system tree.
\<close>

theorem Validate_hides_secrets:
  assumes "Validate r s = Inr ()" and "m \<in> set (sp_Read s) \<union> set (sp_Write s)" and "Under q (m_HostPath m)"
  shows "\<not> secret_path (r_Host r) q \<and> q \<noteq> h_Home (r_Host r) \<and>
    (if m \<in> set (sp_Write s) then \<forall>p\<in>set (p_ReadOnlyTrees (r_Policy r)). \<not> Under (m_HostPath m) p else True)"
proof -
  note v = Validate_sources [OF assms(1)]
  note home = Host_check_home [OF v(1)]
  obtain w where c: "checkSource r m (m_HostPath m) w True [] = Inr ()" "m \<in> set (sp_Write s) \<Longrightarrow> w"
    using v(2,3) assms(2) by blast
  from c(1) have "w \<longrightarrow> (\<forall>p\<in>set (p_ReadOnlyTrees (r_Policy r)). \<not> Under (m_HostPath m) p)"
    by (simp add: checkSource_Inr_iff)
  with checkSource_hides [OF c(1) _ _ assms(3)] home c(2) show ?thesis by simp
qed

definition example_rules :: rules where
  "example_rules =
     \<lparr>r_Host = \<lparr>h_Home = ''/home/u'', h_Secrets = [''/run/user/1000'']\<rparr>, r_Policy = LinuxPolicy,
      r_Caps = \<lparr>cap_PathRemap = True, cap_PrivateLoopback = True, cap_KillsDescendants = True,
        cap_PrivatePIDs = True, cap_ExtraEnv = [''PWD'']\<rparr>\<rparr>"

definition example_spec :: spec where
  "example_spec =
     \<lparr>sp_Exec = ''/usr/bin/git'', sp_Args = [''status''], sp_Dir = ''/work'',
      sp_Env = [\<lparr>ev_Key = ''HOME'', ev_Value = ''/cage''\<rparr>], sp_Read = [],
      sp_Write = [\<lparr>m_HostPath = ''/home/u/clone'', m_GuestPath = ''/work'', m_InHome = True\<rparr>],
      sp_System = True, sp_Scratch = [''/tmp''], sp_Egress = [], sp_Loopback = [], sp_Terminal = False\<rparr>"

lemma example_parts:
  "Host_check (r_Host example_rules) = Inr ()" "CheckEnv ''PWD'' [] = Inr ()" "CheckPath ''/usr/bin/git'' = Inr ()"
  "CheckPath ''/work'' = Inr ()"
  by code_simp+

lemma example_env: "validate_env [] (sp_Env example_spec) = Inr ()"
  by code_simp

lemma example_claims: "claims example_rules [] [''/usr'', ''/lib'', ''/lib64'', ''/bin'', ''/sbin''] = Inr [''/sbin'', ''/bin'', ''/lib64'', ''/lib'', ''/usr'']"
  by code_simp

lemma example_mounts: "validate_mounts example_rules True [''/sbin'', ''/bin'', ''/lib64'', ''/lib'', ''/usr''] [] (sp_Write example_spec) =
  Inr ([''/work'', ''/sbin'', ''/bin'', ''/lib64'', ''/lib'', ''/usr''], [''/work''])"
  by code_simp

lemma example_scratch: "validate_scratch example_rules [''/work'', ''/usr''] [''/work'', ''/sbin'', ''/bin'', ''/lib64'', ''/lib'', ''/usr''] [''/tmp''] =
  Inr [''/tmp'', ''/work'', ''/sbin'', ''/bin'', ''/lib64'', ''/lib'', ''/usr'']"
  by code_simp

lemma example_links:
  "list_all (\<lambda>g. list_all (\<lambda>link. \<not> (g \<noteq> link \<and> Under g link)) [''/lib'', ''/lib64'', ''/bin'', ''/sbin''])
     [''/tmp'', ''/work'', ''/sbin'', ''/bin'', ''/lib64'', ''/lib'', ''/usr'']"
  by code_simp

lemma example_fields:
  "cap_ExtraEnv (r_Caps example_rules) = [''PWD'']" "p_SystemPaths (r_Policy example_rules) = [''/usr'']"
  "p_SystemLinks (r_Policy example_rules) = [''/lib'', ''/lib64'', ''/bin'', ''/sbin'']"
  "sp_Exec example_spec = ''/usr/bin/git''" "sp_Args example_spec = [''status'']" "sp_Dir example_spec = ''/work''"
  "sp_Read example_spec = []" "sp_System example_spec = True" "sp_Scratch example_spec = [''/tmp'']"
  "sp_Egress example_spec = []" "sp_Loopback example_spec = []"
  by (simp_all add: example_spec_def example_rules_def LinuxPolicy_def)

lemma example_Validate: "Validate example_rules example_spec = Inr ()"
  using example_links unfolding Validate_def
  by (simp add: example_fields example_parts example_env example_claims example_mounts example_scratch
      del: claims.simps validate_scratch.simps)

theorem Validate_hides_secrets_witness: "\<not> secret_path (r_Host example_rules) ''/home/u/clone/.git''"
proof -
  have "\<lparr>m_HostPath = ''/home/u/clone'', m_GuestPath = ''/work'', m_InHome = True\<rparr> \<in> set (sp_Read example_spec) \<union> set (sp_Write example_spec)"
    by (simp add: example_spec_def)
  moreover have "Under ''/home/u/clone/.git'' (m_HostPath \<lparr>m_HostPath = ''/home/u/clone'', m_GuestPath = ''/work'', m_InHome = True\<rparr>)"
    by (simp add: Under_def has_prefix_def)
  ultimately show ?thesis using Validate_hides_secrets [OF example_Validate] by blast
qed

text \<open>
  C39: Symbolic links do not help. If the real paths of the mounts are accepted, every one is the real path of a mount of the specification, and
  nothing at or below it is at or below the target of a protected or credential path that is itself a symbolic link; and, if the
  home and the secret paths that the resolution gave are well formed (\<open>Host.check\<close> accepts them), nothing at or below it is
  secret on the host with its home and secrets resolved.
\<close>

theorem Resolve_hides_secrets:
  assumes "Resolve eval r s = Inr (rd, wr)" and "real \<in> set rd \<union> set wr" and "Under q real"
  shows "(\<exists>m\<in>set (sp_Read s) \<union> set (sp_Write s). eval (m_HostPath m) = Some real) \<and>
    (\<forall>p target. p \<in> set (resolve_deny eval (p_ProtectedTrees (r_Policy r)) (h_Home (r_Host r))) \<and> eval p = Some target \<and> target \<noteq> p \<longrightarrow>
       \<not> Under q target) \<and>
    (Host_check (resolved_host eval (r_Host r)) = Inr () \<longrightarrow> \<not> secret_path (resolved_host eval (r_Host r)) q)"
proof -
  let ?rr = "r\<lparr>r_Host := resolved_host eval (r_Host r)\<rparr>"
  let ?deny = "resolve_deny eval (p_ProtectedTrees (r_Policy r)) (h_Home (r_Host r))"
  let ?trees = "resolved_trees eval ?deny"
  from assms(1) have rs: "resolve_mounts eval ?rr ?trees False (sp_Read s) = Inr rd"
    "resolve_mounts eval ?rr ?trees True (sp_Write s) = Inr wr"
    by (auto simp: Resolve_def Let_def)
  from assms(2) obtain m w where m: "m \<in> set (sp_Read s) \<union> set (sp_Write s)" "eval (m_HostPath m) = Some real"
    and c: "checkSource ?rr m real w False ?trees = Inr ()"
    using resolve_mounts_sources [OF rs(1)] resolve_mounts_sources [OF rs(2)] by blast
  have "\<not> Under q target" if "p \<in> set ?deny" "eval p = Some target" "target \<noteq> p" for p target
    using checkSource_trees [OF c assms(3)] in_resolved_trees [of p ?deny eval target] that by blast
  moreover have "\<not> secret_path (resolved_host eval (r_Host r)) q" if "Host_check (resolved_host eval (r_Host r)) = Inr ()"
    using checkSource_hides(1) [OF c _ _ assms(3)] Host_check_home [OF that] by simp
  ultimately show ?thesis using m by blast
qed

definition example_eval :: "string \<Rightarrow> string option" where
  "example_eval p = (if p = ''/home/u/.ssh'' then Some ''/srv/keys'' else Some p)"

theorem Resolve_hides_secrets_witness:
  "Resolve example_eval example_rules example_spec = Inr ([], [''/home/u/clone'']) \<and> \<not> Under ''/home/u/clone'' ''/srv/keys'' \<and>
   \<not> secret_path (resolved_host example_eval (r_Host example_rules)) ''/home/u/clone''"
proof -
  have 1: "Resolve example_eval example_rules example_spec = Inr ([], [''/home/u/clone''])" by code_simp
  have e: "example_eval ''/home/u/.ssh'' = Some ''/srv/keys''" "''/srv/keys'' \<noteq> ''/home/u/.ssh''" by (simp_all add: example_eval_def)
  have 2: "Host_check (resolved_host example_eval (r_Host example_rules)) = Inr ()" by code_simp
  have 3: "''/home/u/.ssh'' \<in> set (resolve_deny example_eval (p_ProtectedTrees (r_Policy example_rules)) (h_Home (r_Host example_rules)))"
    by code_simp
  have "\<not> Under ''/home/u/clone'' ''/srv/keys'' \<and> \<not> secret_path (resolved_host example_eval (r_Host example_rules)) ''/home/u/clone''"
    using Resolve_hides_secrets [OF 1, of "''/home/u/clone''" "''/home/u/clone''"] 2 3 e by (simp add: pt.under_refl) blast
  with 1 show ?thesis by blast
qed

text \<open>
  The paths the validation accepts are exactly the absolute paths in normal form without
  control characters: no empty, dot or dot-dot component and no trailing slash.
\<close>

theorem CheckPath_exact:
  "CheckPath p = Inr () \<longleftrightarrow>
     \<not> HasControl p \<and> (\<exists>cs. list_all ok_comp cs \<and> p = CHR ''/'' # join ''/'' cs)"
  by (rule CheckPath_iff)

end
