(* ===== verification/Bwrap.thy ===== *)
theory Bwrap
  imports Sandbox_Contract "HOL-Library.Multiset"
begin

text \<open>
  The bubblewrap backend (package sandbox/bwrap: spec.go, argv.go, backend.go, backend_linux.go,
  start_linux.go). It validates a cage a second time with rules of its own, translates the contract's
  specification and builds the command line of bwrap. The file system, the terminal and the process
  that is started are parameters.
\<close>

section \<open>Specification (spec.go)\<close>

record bind =
  b_Src :: string
  b_Dst :: string
  b_RW :: bool
  b_InHome :: bool

record symlink =
  l_Target :: string
  l_Dst :: string

record bw_host =
  bh_Home :: string
  bh_Secrets :: "string list"
  bh_resolvedTrees :: "string list"

record bw_spec =
  bs_Host :: bw_host
  bs_Symlinks :: "symlink list"
  bs_Tmpfs :: "string list"
  bs_Binds :: "bind list"
  bs_Env :: "envvar list"
  bs_Chdir :: string
  bs_Cmd :: "string list"
  bs_NewSession :: bool
  bs_AsPID1 :: bool

definition bw_CurrentHost :: "user_env \<Rightarrow> bw_host" where
  "bw_CurrentHost e =
     (let home = (case ue_UserHomeDir e of Some h \<Rightarrow> Clean h | None \<Rightarrow> []);
          s0 = (case ue_passwdHome e of Some u \<Rightarrow> if Clean u \<noteq> home then add_secret [] u else [] | None \<Rightarrow> []);
          s1 = add_secret s0 (ue_Getenv e ''SSH_AUTH_SOCK'');
          s2 = add_secret s1 (ue_Getenv e ''GNUPGHOME'');
          s3 = add_secret s2 (ue_Getenv e ''XDG_RUNTIME_DIR'');
          s4 = add_secret s3 (fst (cut (CHR '':'') (ue_Getenv e ''GPG_AGENT_INFO'')));
          s5 = foldl (\<lambda>s part. case cut_prefix part ''unix:path='' of Some p \<Rightarrow> add_secret s p | None \<Rightarrow> s) s4
                 (split (CHR '','') (ue_Getenv e ''DBUS_SESSION_BUS_ADDRESS'')) in
      \<lparr>bh_Home = home, bh_Secrets = s5, bh_resolvedTrees = []\<rparr>)"

section \<open>Validation (argv.go)\<close>

definition bwrapPath :: string where "bwrapPath = ''/usr/bin/bwrap''"

definition bw_protectedTrees :: "string list" where
  "bw_protectedTrees = [''/root'', ''/home'', ''/run'', ''/var/run'', ''/proc'', ''/sys'', ''/dev'', ''/boot'',
     ''/etc/shadow'', ''/etc/gshadow'', ''/etc/ssh'', ''/etc/sudoers'', ''/etc/sudoers.d'', ''/etc/ssl/private'',
     ''/var/lib/docker'', ''/var/lib/containerd'']"

definition bw_wholeDenied :: "string list" where
  "bw_wholeDenied = [''/tmp'', ''/var/tmp'']"

definition bw_readOnlyTrees :: "string list" where
  "bw_readOnlyTrees = [''/usr'', ''/bin'', ''/sbin'', ''/lib'', ''/lib32'', ''/lib64'', ''/libx32'', ''/opt'', ''/etc'', ''/var'']"

definition bw_homeSecrets :: "string list" where
  "bw_homeSecrets = [''.ssh'', ''.aws'', ''.azure'', ''.kube'', ''.docker'',
     ''.netrc'', ''.git-credentials'', ''.npmrc'', ''.pypirc'', ''.password-store'', ''.codex'', ''.copilot'', ''.commandcode'',
     ''.config/gh'', ''.config/git'', ''.config/gcloud'', ''.config/op'', ''.local/share/keyrings'',
     ''.local/share/opencode'', ''.config/opencode'']"

definition bw_credEnvKeys :: "string list" where
  "bw_credEnvKeys = [''SSH_AUTH_SOCK'', ''SSH_AGENT_PID'', ''GPG_AGENT_INFO'', ''GNUPGHOME'', ''KUBECONFIG'']"

definition bw_credEnvPrefixes :: "string list" where
  "bw_credEnvPrefixes = [''AWS_'', ''AZURE_'', ''GOOGLE_'', ''GCP_'', ''CLOUDSDK_'']"

definition bw_credEnvParts :: "string list" where
  "bw_credEnvParts = [''TOKEN'', ''SECRET'', ''PASSWORD'', ''PASSWD'', ''CREDENTIAL'', ''API_KEY'', ''APIKEY'', ''PRIVATE_KEY'', ''ACCESS_KEY'']"

definition bw_hasControl :: "string \<Rightarrow> bool" where
  "bw_hasControl s \<longleftrightarrow> (\<exists>c\<in>set s. byte c < 0x20 \<or> byte c = 0x7f)"

definition bw_checkPath :: "string \<Rightarrow> path_err + unit" where
  "bw_checkPath p =
     (if p = [] then Inl PathEmpty
      else if \<not> IsAbs p then Inl PathNotAbs
      else if bw_hasControl p then Inl PathControl
      else if Clean p \<noteq> p then Inl PathNotClean
      else Inr ())"

definition bw_under :: "string \<Rightarrow> string \<Rightarrow> bool" where
  "bw_under p root \<longleftrightarrow> root = ''/'' \<or> p = root \<or> has_prefix p (root @ ''/'')"

definition bw_overlap :: "string \<Rightarrow> string \<Rightarrow> bool" where
  "bw_overlap a b \<longleftrightarrow> bw_under a b \<or> bw_under b a"

definition bw_isHomeSecret :: "string \<Rightarrow> bool" where
  "bw_isHomeSecret rel =
     (let first = fst (cut (CHR ''/'') rel) in
      if has_prefix first ''.claude'' \<or> has_prefix first ''.gnupg'' then True
      else (\<exists>s\<in>set bw_homeSecrets. bw_overlap rel s))"

definition bw_checkEnv :: "envvar \<Rightarrow> env_err + unit" where
  "bw_checkEnv e =
     (if \<not> env_key_ok (ev_Key e) then Inl EnvBadKey
      else if contains_any (ev_Value e) [CHR 0x00, CHR 0x0A, CHR 0x0D] then Inl EnvBadValue
      else let u = map upper_char (ev_Key e) in
      if u \<in> set bw_credEnvKeys \<or> (\<exists>p\<in>set bw_credEnvPrefixes. has_prefix u p) \<or> (\<exists>p\<in>set bw_credEnvParts. contains u p)
        then Inl EnvCredential
      else Inr ())"

datatype bw_err =
    BwHost path_err | BwDst path_err | BwDstReserved | BwDup | BwTarget | BwSrc src_err | BwUnderLink
  | BwEnv env_err | BwEnvDup | BwChdir path_err | BwNoCmd | BwCmd path_err | BwCmdNul

definition bw_checkDst :: "string \<Rightarrow> bw_err + unit" where
  "bw_checkDst dst =
     bindR (mapErr BwDst (bw_checkPath dst)) (\<lambda>_.
       if dst = ''/'' \<or> bw_under dst ''/proc'' \<or> bw_under dst ''/dev'' then Inl BwDstReserved else Inr ())"

definition bw_host_check :: "bw_host \<Rightarrow> path_err + unit" where
  "bw_host_check h =
     bindR (bw_checkPath (bh_Home h)) (\<lambda>_.
       if bh_Home h = ''/'' then Inl PathIsRoot
       else eachR bw_checkPath (bh_Secrets h))"

definition bw_checkSrc :: "bw_host \<Rightarrow> bind \<Rightarrow> string \<Rightarrow> bool \<Rightarrow> src_err + unit" where
  "bw_checkSrc h b src lexical =
     (case bw_checkPath src of
        Inl e \<Rightarrow> Inl (SrcPath e)
      | Inr _ \<Rightarrow>
          bindR
            (if bw_under (bh_Home h) src then Inl SrcHome
             else if bw_under src (bh_Home h) then
               (if bw_isHomeSecret (trim_prefix src (bh_Home h @ ''/'')) then Inl SrcHomeSecret
                else if \<not> b_InHome b then Inl SrcNotMarked else Inr ())
             else if lexical \<and> b_InHome b then Inl SrcMarked
             else bindR (none_of (bw_overlap src) SrcProtected bw_protectedTrees) (\<lambda>_.
               if src \<in> set bw_wholeDenied then Inl SrcWhole else Inr ()))
          (\<lambda>_. bindR (none_of (bw_overlap src) SrcSecret (bh_Secrets h)) (\<lambda>_.
          bindR (none_of (bw_overlap src) SrcTree (bh_resolvedTrees h)) (\<lambda>_.
          if b_RW b then none_of (bw_under src) SrcReadOnly bw_readOnlyTrees else Inr ()))))"

definition bw_claim :: "string list \<Rightarrow> string \<Rightarrow> bw_err + string list" where
  "bw_claim dsts dst =
     bindR (bw_checkDst dst) (\<lambda>_. if dst \<in> set dsts then Inl BwDup else Inr (dsts @ [dst]))"

fun bw_symlinks :: "string list \<Rightarrow> symlink list \<Rightarrow> bw_err + string list" where
  "bw_symlinks dsts [] = Inr dsts"
| "bw_symlinks dsts (l # ls) =
     bindR (bw_claim dsts (l_Dst l)) (\<lambda>dsts'.
       if l_Target l = [] \<or> bw_hasControl (l_Target l) then Inl BwTarget else bw_symlinks dsts' ls)"

fun bw_tmpfs :: "string list \<Rightarrow> string list \<Rightarrow> bw_err + string list" where
  "bw_tmpfs dsts [] = Inr dsts"
| "bw_tmpfs dsts (t # ts) = bindR (bw_claim dsts t) (\<lambda>dsts'. bw_tmpfs dsts' ts)"

fun bw_binds :: "bw_host \<Rightarrow> string list \<Rightarrow> bind list \<Rightarrow> bw_err + string list" where
  "bw_binds h dsts [] = Inr dsts"
| "bw_binds h dsts (b # bs) =
     bindR (bw_claim dsts (b_Dst b)) (\<lambda>dsts'.
     bindR (mapErr BwSrc (bw_checkSrc h b (b_Src b) True)) (\<lambda>_. bw_binds h dsts' bs))"

fun bw_env :: "envvar list \<Rightarrow> envvar list \<Rightarrow> bw_err + unit" where
  "bw_env seen [] = Inr ()"
| "bw_env seen (e # es) =
     bindR (mapErr BwEnv (bw_checkEnv e)) (\<lambda>_.
       if \<exists>p\<in>set seen. ev_Key p = ev_Key e then Inl BwEnvDup else bw_env (seen @ [e]) es)"

definition bw_validate :: "bw_spec \<Rightarrow> bw_err + unit" where
  "bw_validate s =
     bindR (mapErr BwHost (bw_host_check (bs_Host s))) (\<lambda>_.
     bindR (bw_symlinks [] (bs_Symlinks s)) (\<lambda>d1.
     bindR (bw_tmpfs d1 (bs_Tmpfs s)) (\<lambda>d2.
     bindR (bw_binds (bs_Host s) d2 (bs_Binds s)) (\<lambda>claimed.
     if \<exists>l\<in>set (bs_Symlinks s). \<exists>c\<in>set claimed. c \<noteq> l_Dst l \<and> bw_under c (l_Dst l) then Inl BwUnderLink else
     bindR (bw_env [] (bs_Env s)) (\<lambda>_.
     bindR (if bs_Chdir s \<noteq> [] then mapErr BwChdir (bw_checkPath (bs_Chdir s)) else Inr ()) (\<lambda>_.
     if bs_Cmd s = [] then Inl BwNoCmd else
     bindR (mapErr BwCmd (bw_checkPath (hd (bs_Cmd s)))) (\<lambda>_.
     if \<exists>c\<in>set (bs_Cmd s). CHR 0x00 \<in> set c then Inl BwCmdNul else Inr ())))))))"

definition bind_args :: "bind \<Rightarrow> string list" where
  "bind_args b = [if b_RW b then ''--bind'' else ''--ro-bind'', b_Src b, b_Dst b]"

definition bw_argv :: "bw_spec \<Rightarrow> string list" where
  "bw_argv s =
     [bwrapPath, ''--unshare-all'', ''--die-with-parent''] @
     (if bs_NewSession s then [''--new-session''] else []) @
     (if bs_AsPID1 s then [''--as-pid-1''] else []) @
     concat (map (\<lambda>l. [''--symlink'', l_Target l, l_Dst l]) (bs_Symlinks s)) @
     [''--proc'', ''/proc'', ''--dev'', ''/dev''] @
     concat (map (\<lambda>t. [''--tmpfs'', t]) (bs_Tmpfs s)) @
     concat (map bind_args (bs_Binds s)) @
     (if bs_Chdir s \<noteq> [] then [''--chdir'', bs_Chdir s] else []) @
     [''--clearenv''] @
     concat (map (\<lambda>e. [''--setenv'', ev_Key e, ev_Value e]) (bs_Env s)) @
     [''--''] @ bs_Cmd s"

definition Argv :: "bw_spec \<Rightarrow> bw_err + string list" where
  "Argv s = bindR (bw_validate s) (\<lambda>_. Inr (bw_argv s))"

section \<open>The backend (backend.go)\<close>

fun first_below :: "string \<Rightarrow> bind list \<Rightarrow> nat" where
  "first_below d [] = 0"
| "first_below d (o' # os) = (if has_prefix (b_Dst o') (d @ ''/'') then 0 else Suc (first_below d os))"

definition insert_at :: "nat \<Rightarrow> 'a \<Rightarrow> 'a list \<Rightarrow> 'a list" where
  "insert_at i x xs = take i xs @ x # drop i xs"

definition ancestorsFirst :: "bind list \<Rightarrow> bind list" where
  "ancestorsFirst binds = foldl (\<lambda>out b. insert_at (first_below (b_Dst b) out) b out) [] binds"

definition bw_Capabilities :: capabilities where
  "bw_Capabilities = \<lparr>cap_PathRemap = True, cap_PrivateLoopback = True, cap_KillsDescendants = True,
     cap_PrivatePIDs = True, cap_ExtraEnv = [''PWD'']\<rparr>"

record backend =
  be_host :: host
  be_rules :: rules

definition New_backend :: "host \<Rightarrow> backend" where
  "New_backend h = \<lparr>be_host = h, be_rules = \<lparr>r_Host = h, r_Policy = LinuxPolicy, r_Caps = bw_Capabilities\<rparr>\<rparr>"

definition read_bind :: "mount \<Rightarrow> bind" where
  "read_bind m = \<lparr>b_Src = m_HostPath m, b_Dst = Guest m, b_RW = False, b_InHome = m_InHome m\<rparr>"

definition write_bind :: "mount \<Rightarrow> bind" where
  "write_bind m = \<lparr>b_Src = m_HostPath m, b_Dst = Guest m, b_RW = True, b_InHome = m_InHome m\<rparr>"

definition usr_bind :: bind where
  "usr_bind = \<lparr>b_Src = ''/usr'', b_Dst = ''/usr'', b_RW = False, b_InHome = False\<rparr>"

definition system_symlinks :: "symlink list" where
  "system_symlinks = [\<lparr>l_Target = ''usr/lib'', l_Dst = ''/lib''\<rparr>, \<lparr>l_Target = ''usr/lib64'', l_Dst = ''/lib64''\<rparr>,
     \<lparr>l_Target = ''usr/bin'', l_Dst = ''/bin''\<rparr>, \<lparr>l_Target = ''usr/sbin'', l_Dst = ''/sbin''\<rparr>]"

definition translate :: "backend \<Rightarrow> spec \<Rightarrow> bw_spec" where
  "translate b s =
     \<lparr>bs_Host = \<lparr>bh_Home = h_Home (be_host b), bh_Secrets = h_Secrets (be_host b), bh_resolvedTrees = []\<rparr>,
      bs_Symlinks = (if sp_System s then system_symlinks else []),
      bs_Tmpfs = sp_Scratch s,
      bs_Binds = ancestorsFirst ((if sp_System s then [usr_bind] else []) @ map read_bind (sp_Read s) @ map write_bind (sp_Write s)),
      bs_Env = sp_Env s,
      bs_Chdir = sp_Dir s,
      bs_Cmd = sp_Exec s # sp_Args s,
      bs_NewSession = (\<not> sp_Terminal s),
      bs_AsPID1 = False\<rparr>"

datatype prepare_err = PrepContract contract_err | PrepBwrap bw_err

definition Prepare :: "backend \<Rightarrow> spec \<Rightarrow> prepare_err + string list" where
  "Prepare b s =
     bindR (mapErr PrepContract (Validate (be_rules b) s)) (\<lambda>_.
       mapErr PrepBwrap (Argv (translate b s)))"

section \<open>Starting (start_linux.go, backend_linux.go)\<close>

fun resolve_binds :: "(string \<Rightarrow> string option) \<Rightarrow> bw_host \<Rightarrow> bind list \<Rightarrow> resolve_err + bind list" where
  "resolve_binds eval h [] = Inr []"
| "resolve_binds eval h (b # bs) =
     (case eval (b_Src b) of
        None \<Rightarrow> Inl Unresolvable
      | Some real \<Rightarrow>
          bindR (mapErr ResolvedRejected (bw_checkSrc h b real False)) (\<lambda>_.
          bindR (resolve_binds eval h bs) (\<lambda>rs. Inr (b\<lparr>b_Src := real\<rparr> # rs))))"

definition bw_resolved_host :: "(string \<Rightarrow> string option) \<Rightarrow> bw_host \<Rightarrow> bw_host" where
  "bw_resolved_host eval h =
     (let home = evalOrSelf eval (bh_Home h);
          deny = bw_protectedTrees @ concat (map (\<lambda>rel. [bh_Home h @ ''/'' @ rel, home @ ''/'' @ rel])
            (bw_homeSecrets @ [''.claude'', ''.claude.json'', ''.gnupg'', ''.gnupg-vault''])) in
      \<lparr>bh_Home = home, bh_Secrets = bh_Secrets h @ map (evalOrSelf eval) (bh_Secrets h),
       bh_resolvedTrees = bh_resolvedTrees h @
         concat (map (\<lambda>p. case eval p of Some real \<Rightarrow> if real \<noteq> p then [real] else [] | None \<Rightarrow> []) deny)\<rparr>)"

definition withResolvedSrcs :: "(string \<Rightarrow> string option) \<Rightarrow> bw_spec \<Rightarrow> resolve_err + bw_spec" where
  "withResolvedSrcs eval s =
     bindR (resolve_binds eval (bw_resolved_host eval (bs_Host s)) (bs_Binds s)) (\<lambda>bs. Inr (s\<lparr>bs_Binds := bs\<rparr>))"

text \<open>What the caller's process is connected to: whether a standard stream is a terminal, whether
  there is a controlling terminal, the content of the sysctl for TIOCSTI, whether the inherited
  descriptors can be closed, whether bwrap starts.\<close>

record proc_env =
  pe_stdio_tty :: bool
  pe_ctty :: bool
  pe_tiocsti :: "string option"
  pe_close_fds :: bool
  pe_exec :: bool

definition checkTIOCSTI :: "proc_env \<Rightarrow> bool" where
  "checkTIOCSTI pe = (case pe_tiocsti pe of None \<Rightarrow> False | Some b \<Rightarrow> trim_space b = ''0'')"

datatype start_err =
    StartRejected contract_err | StartBwrap bw_err | StartResolve resolve_err | StartTerminalUnsafe
  | StartFds | StartExec

text \<open>The command line that \<open>Start\<close> executes.\<close>

definition Start :: "(string \<Rightarrow> string option) \<Rightarrow> proc_env \<Rightarrow> bw_spec \<Rightarrow> start_err + string list" where
  "Start eval pe s =
     bindR (mapErr StartBwrap (bw_validate s)) (\<lambda>_.
     if \<not> bs_NewSession s \<and> (pe_stdio_tty pe \<or> pe_ctty pe) \<and> \<not> checkTIOCSTI pe then Inl StartTerminalUnsafe else
     bindR (mapErr StartResolve (withResolvedSrcs eval s)) (\<lambda>r.
     if \<not> pe_close_fds pe then Inl StartFds
     else if \<not> pe_exec pe then Inl StartExec
     else Inr (bw_argv r)))"

definition backend_start :: "(string \<Rightarrow> string option) \<Rightarrow> proc_env \<Rightarrow> backend \<Rightarrow> spec \<Rightarrow> start_err + string list" where
  "backend_start eval pe b s =
     bindR (mapErr StartRejected (Validate (be_rules b) s)) (\<lambda>_.
     let bs = translate b s in
     bindR (mapErr StartBwrap (Argv bs)) (\<lambda>_.
     bindR (mapErr StartResolve (Resolve eval (be_rules b) s)) (\<lambda>_.
     if \<not> bs_NewSession bs \<and> (pe_stdio_tty pe \<or> pe_ctty pe) \<and> \<not> checkTIOCSTI pe then Inl StartTerminalUnsafe else
     bindR (mapErr StartResolve (withResolvedSrcs eval bs)) (\<lambda>_.
     Start eval pe bs))))"

text \<open>How a cage ended, and the contract's exit code for it.\<close>

datatype wait_result = WaitOk | WaitSignaled nat | WaitExit nat | WaitOther

datatype cage_result = CageOk | CageExit nat | CageError

fun exitError :: "wait_result \<Rightarrow> cage_result" where
  "exitError WaitOk = CageOk"
| "exitError (WaitSignaled sig) = CageExit (128 + sig)"
| "exitError (WaitExit code) = CageExit code"
| "exitError WaitOther = CageError"

text \<open>The device numbers of terminals, on 64 bit words.\<close>

unbundle bit_operations_syntax

definition tty_major :: "64 word \<Rightarrow> 64 word" where
  "tty_major rdev = (drop_bit 8 rdev AND 0xfff) OR (drop_bit 32 rdev AND NOT 0xfff)"

definition isTTYDevice :: "64 word \<Rightarrow> bool" where
  "isTTYDevice rdev \<longleftrightarrow>
     (let major = tty_major rdev in
      major = 2 \<or> major = 3 \<or> major = 4 \<or> major = 5 \<or> (136 \<le> major \<and> major \<le> 143) \<or>
      major = 166 \<or> major = 188 \<or> major = 204 \<or> major = 205)"

section \<open>Lemmas\<close>

subsection \<open>The two copies of the rules agree\<close>

lemma bw_same:
  "bw_hasControl = HasControl" "bw_checkPath = CheckPath" "bw_under = Under" "bw_overlap = Overlap"
  "bw_isHomeSecret = IsHomeSecret" "bw_checkEnv e = CheckEnv (ev_Key e) (ev_Value e)"
proof -
  show c: "bw_hasControl = HasControl" by (intro ext) (simp add: bw_hasControl_def HasControl_def)
  show "bw_checkPath = CheckPath" by (intro ext) (simp add: bw_checkPath_def CheckPath_def c)
  show u: "bw_under = Under" by (intro ext) (simp add: bw_under_def Under_def)
  show ov: "bw_overlap = Overlap" by (intro ext) (simp add: bw_overlap_def Overlap_def u)
  show "bw_isHomeSecret = IsHomeSecret"
    by (intro ext) (simp only: bw_isHomeSecret_def IsHomeSecret_def bw_homeSecrets_def homeSecrets_def ov)
  show "bw_checkEnv e = CheckEnv (ev_Key e) (ev_Value e)"
    by (simp only: bw_checkEnv_def CheckEnv_def bw_credEnvKeys_def credEnvKeys_def bw_credEnvPrefixes_def
        credEnvPrefixes_def bw_credEnvParts_def credEnvParts_def)
qed

lemma linux_policy_fields:
  "p_ProtectedTrees LinuxPolicy = bw_protectedTrees" "p_WholeDenied LinuxPolicy = bw_wholeDenied"
  "p_ReadOnlyTrees LinuxPolicy = bw_readOnlyTrees" "p_GuestReserved LinuxPolicy = [''/proc'', ''/dev'']"
  "p_SystemPaths LinuxPolicy = [''/usr'']" "p_SystemLinks LinuxPolicy = [''/lib'', ''/lib64'', ''/bin'', ''/sbin'']"
  by (simp_all add: LinuxPolicy_def bw_protectedTrees_def bw_wholeDenied_def bw_readOnlyTrees_def)

lemma bw_checkSrc_eq:
  assumes "r_Policy r = LinuxPolicy" "bh_Home h = h_Home (r_Host r)" "bh_Secrets h = h_Secrets (r_Host r)"
    "b_InHome b = m_InHome m"
  shows "bw_checkSrc h b src lexical = checkSource r m src (b_RW b) lexical (bh_resolvedTrees h)"
  by (simp only: bw_checkSrc_def checkSource_def bw_same assms linux_policy_fields Let_def)

interpretation bw_pt: path_tree bw_under
  unfolding bw_same by (rule pt.path_tree_axioms)

subsection \<open>Order of the binds\<close>

definition below :: "bind \<Rightarrow> bind \<Rightarrow> bool" where
  "below a b \<longleftrightarrow> has_prefix (b_Dst a) (b_Dst b @ ''/'')"

lemma below_trans: "below a b \<Longrightarrow> below b c \<Longrightarrow> below a c"
  by (auto simp: below_def has_prefix_iff)

lemma below_irrefl: "\<not> below a a"
  by (auto simp: below_def has_prefix_iff)

definition ancestors_ok :: "bind list \<Rightarrow> bool" where
  "ancestors_ok bs \<longleftrightarrow> sorted_wrt (\<lambda>a b. \<not> below a b) bs"

lemma first_below_prefix: "a \<in> set (take (first_below (b_Dst b) out) out) \<Longrightarrow> \<not> below a b"
  by (induction out) (auto simp: below_def split: if_splits)

lemma first_below_drop: "drop (first_below (b_Dst b) out) out = c # cs \<Longrightarrow> below c b"
  by (induction out) (auto simp: below_def split: if_splits)

lemma ancestors_ok_insert:
  assumes ok: "ancestors_ok out"
  shows "ancestors_ok (insert_at (first_below (b_Dst b) out) b out)"
proof -
  let ?i = "first_below (b_Dst b) out"
  have out: "out = take ?i out @ drop ?i out" by simp
  with ok have p: "ancestors_ok (take ?i out)" "ancestors_ok (drop ?i out)"
    "\<forall>x\<in>set (take ?i out). \<forall>y\<in>set (drop ?i out). \<not> below x y"
    unfolding ancestors_ok_def by (metis sorted_wrt_append)+
  have "\<not> below b y" if y: "y \<in> set (drop ?i out)" for y
  proof
    assume by': "below b y"
    from y obtain c cs where d: "drop ?i out = c # cs" by (cases "drop ?i out") auto
    have "below c b" by (rule first_below_drop [OF d])
    then have cy: "below c y" using by' by (rule below_trans)
    show False using y d cy below_irrefl p(2) by (auto simp: ancestors_ok_def)
  qed
  with p first_below_prefix [of _ b out] show ?thesis
    by (auto simp: insert_at_def ancestors_ok_def sorted_wrt_append)
qed

lemma mset_insert_at: "mset (insert_at i x xs) = add_mset x (mset xs)"
proof -
  have "mset xs = mset (take i xs) + mset (drop i xs)" by (metis append_take_drop_id mset_append)
  then show ?thesis by (simp add: insert_at_def)
qed

lemma foldl_ancestors:
  "ancestors_ok out \<Longrightarrow>
   ancestors_ok (foldl (\<lambda>out b. insert_at (first_below (b_Dst b) out) b out) out bs) \<and>
   mset (foldl (\<lambda>out b. insert_at (first_below (b_Dst b) out) b out) out bs) = mset out + mset bs"
  by (induction bs arbitrary: out) (auto simp: ancestors_ok_insert mset_insert_at)

lemma ancestorsFirst_perm: "mset (ancestorsFirst bs) = mset bs"
  and ancestorsFirst_ok: "ancestors_ok (ancestorsFirst bs)"
  using foldl_ancestors [of "[]" bs] by (auto simp: ancestorsFirst_def ancestors_ok_def)

lemma ancestorsFirst_set: "set (ancestorsFirst bs) = set bs"
  using ancestorsFirst_perm by (metis set_mset_mset)

lemma ancestorsFirst_dsts: "mset (map b_Dst (ancestorsFirst bs)) = mset (map b_Dst bs)"
  using ancestorsFirst_perm by (metis mset_map)

subsection \<open>Validation of both layers\<close>

definition good_guest :: "string \<Rightarrow> bool" where
  "good_guest g \<longleftrightarrow> CheckPath g = Inr () \<and> g \<noteq> ''/'' \<and> \<not> Under g ''/proc'' \<and> \<not> Under g ''/dev''"

lemma claim_iff:
  "p_GuestReserved (r_Policy r) = [''/proc'', ''/dev''] \<Longrightarrow>
   claim r guests g = Inr x \<longleftrightarrow> good_guest g \<and> g \<notin> set guests \<and> x = g # guests"
  by (auto simp: claim_def good_guest_def)

lemma bw_claim_iff: "bw_claim dsts d = Inr x \<longleftrightarrow> good_guest d \<and> d \<notin> set dsts \<and> x = dsts @ [d]"
  by (auto simp: bw_claim_def bw_checkDst_def good_guest_def bw_same split: if_splits)

lemma claims_iff:
  assumes "p_GuestReserved (r_Policy r) = [''/proc'', ''/dev'']"
  shows "claims r guests gs = Inr x \<longleftrightarrow>
    list_all good_guest gs \<and> distinct gs \<and> set gs \<inter> set guests = {} \<and> x = rev gs @ guests"
  by (induction gs arbitrary: guests) (auto simp: claim_iff [OF assms])

lemma validate_mounts_iff:
  assumes "p_GuestReserved (r_Policy r) = [''/proc'', ''/dev'']" "cap_PathRemap (r_Caps r)"
  shows "validate_mounts r w guests mg ms = Inr (guests', mg') \<longleftrightarrow>
    list_all (\<lambda>m. CheckPath (m_HostPath m) = Inr () \<and> good_guest (Guest m) \<and>
      checkSource r m (m_HostPath m) w True [] = Inr ()) ms \<and>
    distinct (map Guest ms) \<and> set (map Guest ms) \<inter> set guests = {} \<and>
    guests' = rev (map Guest ms) @ guests \<and> mg' = mg @ map Guest ms"
proof (induction ms arbitrary: guests mg)
  case (Cons m ms)
  then show ?case using assms by (auto simp: claim_iff)
qed auto

lemma validate_scratch_iff:
  assumes "p_GuestReserved (r_Policy r) = [''/proc'', ''/dev'']" "cap_PathRemap (r_Caps r)"
  shows "validate_scratch r inner guests ps = Inr x \<longleftrightarrow>
    list_all (\<lambda>p. good_guest p \<and> \<not> (\<exists>g\<in>set inner. p \<noteq> g \<and> Under p g)) ps \<and> distinct ps \<and>
    set ps \<inter> set guests = {} \<and> x = rev ps @ guests"
  using assms by (induction ps arbitrary: guests) (auto simp: claim_iff)

lemma bw_symlinks_iff:
  "bw_symlinks dsts ls = Inr x \<longleftrightarrow>
    list_all (\<lambda>l. good_guest (l_Dst l) \<and> l_Target l \<noteq> [] \<and> \<not> HasControl (l_Target l)) ls \<and>
    distinct (map l_Dst ls) \<and> set (map l_Dst ls) \<inter> set dsts = {} \<and> x = dsts @ map l_Dst ls"
  by (induction ls arbitrary: dsts) (auto simp: bw_claim_iff bw_same split: if_splits)

lemma bw_tmpfs_iff:
  "bw_tmpfs dsts ts = Inr x \<longleftrightarrow>
    list_all good_guest ts \<and> distinct ts \<and> set ts \<inter> set dsts = {} \<and> x = dsts @ ts"
  by (induction ts arbitrary: dsts) (auto simp: bw_claim_iff)

lemma bw_binds_iff:
  "bw_binds h dsts bs = Inr x \<longleftrightarrow>
    list_all (\<lambda>b. good_guest (b_Dst b) \<and> bw_checkSrc h b (b_Src b) True = Inr ()) bs \<and>
    distinct (map b_Dst bs) \<and> set (map b_Dst bs) \<inter> set dsts = {} \<and> x = dsts @ map b_Dst bs"
  by (induction bs arbitrary: dsts) (auto simp: bw_claim_iff)

lemma bw_env_iff: "bw_env seen es = Inr () \<longleftrightarrow> validate_env seen es = Inr ()"
  by (induction es arbitrary: seen) (auto simp: bw_same)

lemma bw_validate_iff:
  "bw_validate s = Inr () \<longleftrightarrow>
     bw_host_check (bs_Host s) = Inr () \<and>
     list_all (\<lambda>l. good_guest (l_Dst l) \<and> l_Target l \<noteq> [] \<and> \<not> HasControl (l_Target l)) (bs_Symlinks s) \<and>
     list_all good_guest (bs_Tmpfs s) \<and>
     list_all (\<lambda>b. good_guest (b_Dst b) \<and> bw_checkSrc (bs_Host s) b (b_Src b) True = Inr ()) (bs_Binds s) \<and>
     distinct (map l_Dst (bs_Symlinks s) @ bs_Tmpfs s @ map b_Dst (bs_Binds s)) \<and>
     (\<forall>l\<in>set (bs_Symlinks s). \<forall>c\<in>set (map l_Dst (bs_Symlinks s) @ bs_Tmpfs s @ map b_Dst (bs_Binds s)).
        c = l_Dst l \<or> \<not> Under c (l_Dst l)) \<and>
     validate_env [] (bs_Env s) = Inr () \<and> (bs_Chdir s = [] \<or> CheckPath (bs_Chdir s) = Inr ()) \<and>
     bs_Cmd s \<noteq> [] \<and> CheckPath (hd (bs_Cmd s)) = Inr () \<and> (\<forall>c\<in>set (bs_Cmd s). CHR 0x00 \<notin> set c)"
  unfolding bw_validate_def
  by (auto simp: bw_symlinks_iff bw_tmpfs_iff bw_binds_iff bw_env_iff bw_same split: if_splits)

lemma usr_facts:
  "list_all (\<lambda>p. \<not> Overlap ''/usr'' p) bw_protectedTrees" "''/usr'' \<notin> set bw_wholeDenied" "CheckPath ''/usr'' = Inr ()"
  "good_guest ''/usr''" "list_all (\<lambda>l. good_guest (l_Dst l) \<and> l_Target l \<noteq> [] \<and> \<not> HasControl (l_Target l)) system_symlinks"
  "map l_Dst system_symlinks = [''/lib'', ''/lib64'', ''/bin'', ''/sbin'']"
  by code_simp+

lemma usr_checkSrc_iff:
  assumes "CheckPath (bh_Home h) = Inr ()" "bh_Home h \<noteq> ''/''" "bh_resolvedTrees h = []"
  shows "bw_checkSrc h usr_bind ''/usr'' True = Inr () \<longleftrightarrow>
    \<not> Under (bh_Home h) ''/usr'' \<and> (\<forall>sec\<in>set (bh_Secrets h). \<not> Overlap ''/usr'' sec)"
proof -
  obtain t where t: "bh_Home h = CHR ''/'' # t" using assms(1) unfolding CheckPath_iff by blast
  have "\<not> Under ''/usr'' (bh_Home h)" if "\<not> Under (bh_Home h) ''/usr''"
  proof
    assume "Under ''/usr'' (bh_Home h)"
    moreover have "''/usr'' \<noteq> bh_Home h" using that pt.under_refl by metis
    ultimately obtain u where "''/usr'' = (CHR ''/'' # t) @ ''/'' @ u"
      using assms(2) t by (auto simp: Under_def has_prefix_iff)
    then have "count_list ''/usr'' (CHR ''/'') = count_list ((CHR ''/'' # t) @ ''/'' @ u) (CHR ''/'')" by metis
    then show False by simp
  qed
  then show ?thesis
    using usr_facts(1-3) assms(3)
    by (auto simp: bw_checkSrc_def bw_same usr_bind_def list_all_iff)
qed

lemma New_backend_fields [simp]:
  "be_host (New_backend h) = h" "r_Host (be_rules (New_backend h)) = h"
  "r_Policy (be_rules (New_backend h)) = LinuxPolicy" "r_Caps (be_rules (New_backend h)) = bw_Capabilities"
  by (simp_all add: New_backend_def)

text \<open>What \<open>Validate\<close> has established, in the terms of the second validation.\<close>

lemma Validate_facts:
  assumes "Validate (be_rules (New_backend h)) s = Inr ()"
  defines "sys \<equiv> if sp_System s then [''/usr''] else []" and "links \<equiv> if sp_System s then [''/lib'', ''/lib64'', ''/bin'', ''/sbin''] else []"
  shows "Host_check h = Inr ()" "CheckPath (sp_Exec s) = Inr ()" "\<forall>a\<in>set (sp_Args s). CHR 0x00 \<notin> set a"
    "sp_Dir s = [] \<or> CheckPath (sp_Dir s) = Inr ()" "validate_env [] (sp_Env s) = Inr ()"
    "list_all (\<lambda>m. good_guest (Guest m) \<and> checkSource (be_rules (New_backend h)) m (m_HostPath m) False True [] = Inr ()) (sp_Read s)"
    "list_all (\<lambda>m. good_guest (Guest m) \<and> checkSource (be_rules (New_backend h)) m (m_HostPath m) True True [] = Inr ()) (sp_Write s)"
    "list_all good_guest (sp_Scratch s)"
    "distinct (sp_Scratch s @ map Guest (sp_Write s) @ map Guest (sp_Read s) @ links @ sys)"
    "\<forall>g\<in>set (sp_Scratch s @ map Guest (sp_Write s) @ map Guest (sp_Read s) @ links @ sys). \<forall>l\<in>set links. g = l \<or> \<not> Under g l"
proof -
  let ?r = "be_rules (New_backend h)"
  have res: "p_GuestReserved (r_Policy ?r) = [''/proc'', ''/dev'']" "cap_PathRemap (r_Caps ?r)"
    by (simp_all add: linux_policy_fields bw_Capabilities_def)
  from assms(1) show "Host_check h = Inr ()" "CheckPath (sp_Exec s) = Inr ()" "\<forall>a\<in>set (sp_Args s). CHR 0x00 \<notin> set a"
    "sp_Dir s = [] \<or> CheckPath (sp_Dir s) = Inr ()" "validate_env [] (sp_Env s) = Inr ()"
    unfolding Validate_def by (auto split: if_splits)
  from assms(1) obtain g0 g1 m1 g2 m2 g3 where
    c: "claims ?r [] (sys @ links) = Inr g0" and m1: "validate_mounts ?r False g0 [] (sp_Read s) = Inr (g1, m1)"
    and m2: "validate_mounts ?r True g1 m1 (sp_Write s) = Inr (g2, m2)"
    and sc: "validate_scratch ?r (m2 @ sys) g2 (sp_Scratch s) = Inr g3"
    and ul: "\<not> (\<exists>g\<in>set g3. \<exists>link\<in>set links. g \<noteq> link \<and> Under g link)"
    unfolding Validate_def New_backend_fields linux_policy_fields sys_def [symmetric] links_def [symmetric] Let_def
    by (auto split: if_splits)
  note c' = c [unfolded claims_iff [OF res(1)]] and m1' = m1 [unfolded validate_mounts_iff [OF res]]
    and m2' = m2 [unfolded validate_mounts_iff [OF res]] and sc' = sc [unfolded validate_scratch_iff [OF res]]
  show "list_all (\<lambda>m. good_guest (Guest m) \<and> checkSource ?r m (m_HostPath m) False True [] = Inr ()) (sp_Read s)"
    using m1' by (simp add: list_all_iff)
  show "list_all (\<lambda>m. good_guest (Guest m) \<and> checkSource ?r m (m_HostPath m) True True [] = Inr ()) (sp_Write s)"
    using m2' by (simp add: list_all_iff)
  show "list_all good_guest (sp_Scratch s)" using sc' by (simp add: list_all_iff)
  have g: "g3 = rev (sp_Scratch s) @ rev (map Guest (sp_Write s)) @ rev (map Guest (sp_Read s)) @ rev links @ rev sys"
    using c' m1' m2' sc' by simp
  show "distinct (sp_Scratch s @ map Guest (sp_Write s) @ map Guest (sp_Read s) @ links @ sys)"
    using c' m1' m2' sc' by auto
  show "\<forall>g\<in>set (sp_Scratch s @ map Guest (sp_Write s) @ map Guest (sp_Read s) @ links @ sys). \<forall>l\<in>set links. g = l \<or> \<not> Under g l"
    using ul unfolding g by auto
qed

lemma bw_validate_translate:
  assumes v: "Validate (be_rules (New_backend h)) s = Inr ()"
  shows "bw_validate (translate (New_backend h) s) = Inr () \<longleftrightarrow>
    (sp_System s \<longrightarrow> \<not> Under (h_Home h) ''/usr'' \<and> (\<forall>sec\<in>set (h_Secrets h). \<not> Overlap ''/usr'' sec))"
proof -
  let ?t = "translate (New_backend h) s"
  let ?binds = "(if sp_System s then [usr_bind] else []) @ map read_bind (sp_Read s) @ map write_bind (sp_Write s)"
  note f = Validate_facts [OF v]
  have home: "CheckPath (h_Home h) = Inr ()" "h_Home h \<noteq> ''/''" using Host_check_home [OF f(1)] by simp_all
  have host: "bw_host_check (bs_Host ?t) = Inr ()"
    using f(1) by (auto simp: bw_host_check_def Host_check_def bw_same translate_def split: if_splits)
  have usr: "bw_checkSrc (bs_Host ?t) usr_bind ''/usr'' True = Inr () \<longleftrightarrow>
      \<not> Under (h_Home h) ''/usr'' \<and> (\<forall>sec\<in>set (h_Secrets h). \<not> Overlap ''/usr'' sec)"
    using usr_checkSrc_iff [of "bs_Host ?t"] home by (simp add: translate_def)
  have rd: "good_guest (b_Dst (read_bind m)) \<and> bw_checkSrc (bs_Host ?t) (read_bind m) (b_Src (read_bind m)) True = Inr ()"
    if "m \<in> set (sp_Read s)" for m
    using f(6) that bw_checkSrc_eq [of "be_rules (New_backend h)" "bs_Host ?t" "read_bind m" m]
    by (simp add: list_all_iff translate_def read_bind_def)
  have wr: "good_guest (b_Dst (write_bind m)) \<and> bw_checkSrc (bs_Host ?t) (write_bind m) (b_Src (write_bind m)) True = Inr ()"
    if "m \<in> set (sp_Write s)" for m
    using f(7) that bw_checkSrc_eq [of "be_rules (New_backend h)" "bs_Host ?t" "write_bind m" m]
    by (simp add: list_all_iff translate_def write_bind_def)
  have all: "list_all (\<lambda>b. good_guest (b_Dst b) \<and> bw_checkSrc (bs_Host ?t) b (b_Src b) True = Inr ()) (bs_Binds ?t) \<longleftrightarrow>
      (sp_System s \<longrightarrow> bw_checkSrc (bs_Host ?t) usr_bind ''/usr'' True = Inr ())"
  proof -
    define P where "P b \<longleftrightarrow> good_guest (b_Dst b) \<and> bw_checkSrc (bs_Host ?t) b (b_Src b) True = Inr ()" for b
    have "set (bs_Binds ?t) = set ?binds" by (simp add: translate_def ancestorsFirst_set)
    moreover have "\<forall>m\<in>set (sp_Read s). P (read_bind m)" "\<forall>m\<in>set (sp_Write s). P (write_bind m)"
      using rd wr by (simp_all add: P_def)
    moreover have "P usr_bind \<longleftrightarrow> bw_checkSrc (bs_Host ?t) usr_bind ''/usr'' True = Inr ()"
      using usr_facts(4) by (simp add: P_def usr_bind_def)
    ultimately show ?thesis unfolding P_def [symmetric] list_all_iff by (cases "sp_System s") auto
  qed
  have dst: "map b_Dst ?binds = (if sp_System s then [''/usr''] else []) @ map Guest (sp_Read s) @ map Guest (sp_Write s)"
    by (simp add: usr_bind_def read_bind_def write_bind_def comp_def)
  have links: "map l_Dst (bs_Symlinks ?t) = (if sp_System s then [''/lib'', ''/lib64'', ''/bin'', ''/sbin''] else [])"
    using usr_facts(6) by (simp add: translate_def)
  have dsts: "mset (map l_Dst (bs_Symlinks ?t) @ bs_Tmpfs ?t @ map b_Dst (bs_Binds ?t)) =
     mset (sp_Scratch s @ map Guest (sp_Write s) @ map Guest (sp_Read s) @ (if sp_System s then [''/lib'', ''/lib64'', ''/bin'', ''/sbin''] else []) @
       (if sp_System s then [''/usr''] else []))"
    using ancestorsFirst_dsts [of ?binds] unfolding links dst by (simp add: translate_def ac_simps)
  have "distinct (map l_Dst (bs_Symlinks ?t) @ bs_Tmpfs ?t @ map b_Dst (bs_Binds ?t))"
    using f(9) mset_eq_imp_distinct_iff [OF dsts] by simp
  moreover have "\<forall>l\<in>set (bs_Symlinks ?t). \<forall>c\<in>set (map l_Dst (bs_Symlinks ?t) @ bs_Tmpfs ?t @ map b_Dst (bs_Binds ?t)).
        c = l_Dst l \<or> \<not> Under c (l_Dst l)"
  proof (intro ballI)
    fix l c
    assume l: "l \<in> set (bs_Symlinks ?t)" and c: "c \<in> set (map l_Dst (bs_Symlinks ?t) @ bs_Tmpfs ?t @ map b_Dst (bs_Binds ?t))"
    from l have "l_Dst l \<in> set (map l_Dst (bs_Symlinks ?t))" by simp
    moreover from c have "c \<in> set (sp_Scratch s @ map Guest (sp_Write s) @ map Guest (sp_Read s) @
        (if sp_System s then [''/lib'', ''/lib64'', ''/bin'', ''/sbin''] else []) @ (if sp_System s then [''/usr''] else []))"
      using mset_eq_setD [OF dsts] by blast
    ultimately show "c = l_Dst l \<or> \<not> Under c (l_Dst l)" using f(10) unfolding links by blast
  qed
  moreover have "list_all (\<lambda>l. good_guest (l_Dst l) \<and> l_Target l \<noteq> [] \<and> \<not> HasControl (l_Target l)) (bs_Symlinks ?t)"
    using usr_facts(5) by (simp add: translate_def)
  moreover have "list_all good_guest (bs_Tmpfs ?t)" "validate_env [] (bs_Env ?t) = Inr ()"
    "bs_Chdir ?t = [] \<or> CheckPath (bs_Chdir ?t) = Inr ()" "bs_Cmd ?t \<noteq> [] \<and> CheckPath (hd (bs_Cmd ?t)) = Inr ()"
    "\<forall>c\<in>set (bs_Cmd ?t). CHR 0x00 \<notin> set c"
    using f CheckPath_no_nul by (auto simp: translate_def)
  ultimately show ?thesis unfolding bw_validate_iff using host all usr by simp
qed

subsection \<open>Reading the command line back\<close>

text \<open>
  The command line as bwrap reads it: every option takes a fixed number of arguments, and what
  follows \<open>--\<close> is the command.
\<close>

datatype bw_opt =
    OUnshareAll | ODieWithParent | ONewSession | OAsPid1 | OClearenv
  | OProc string | ODev string | OTmpfs string | OChdir string
  | OSymlink string string | OBind string string | OROBind string string | OSetenv string string

definition flag_opt :: "string \<Rightarrow> bw_opt option" where
  "flag_opt a =
     (if a = ''--unshare-all'' then Some OUnshareAll else if a = ''--die-with-parent'' then Some ODieWithParent
      else if a = ''--new-session'' then Some ONewSession else if a = ''--as-pid-1'' then Some OAsPid1
      else if a = ''--clearenv'' then Some OClearenv else None)"

definition unary_opt :: "string \<Rightarrow> (string \<Rightarrow> bw_opt) option" where
  "unary_opt a =
     (if a = ''--proc'' then Some OProc else if a = ''--dev'' then Some ODev
      else if a = ''--tmpfs'' then Some OTmpfs else if a = ''--chdir'' then Some OChdir else None)"

definition binary_opt :: "string \<Rightarrow> (string \<Rightarrow> string \<Rightarrow> bw_opt) option" where
  "binary_opt a =
     (if a = ''--symlink'' then Some OSymlink else if a = ''--bind'' then Some OBind
      else if a = ''--ro-bind'' then Some OROBind else if a = ''--setenv'' then Some OSetenv else None)"

fun parse_opts :: "string list \<Rightarrow> (bw_opt list \<times> string list) option" where
  "parse_opts [] = None"
| "parse_opts (a # rest) =
     (if a = ''--'' then Some ([], rest)
      else (case flag_opt a of
        Some f \<Rightarrow> map_option (\<lambda>(os, cmd). (f # os, cmd)) (parse_opts rest)
      | None \<Rightarrow> (case unary_opt a of
          Some f \<Rightarrow> (case rest of x # r \<Rightarrow> map_option (\<lambda>(os, cmd). (f x # os, cmd)) (parse_opts r) | [] \<Rightarrow> None)
        | None \<Rightarrow> (case binary_opt a of
            Some f \<Rightarrow> (case rest of x # y # r \<Rightarrow> map_option (\<lambda>(os, cmd). (f x y # os, cmd)) (parse_opts r) | _ \<Rightarrow> None)
          | None \<Rightarrow> None))))"

definition bind_opt :: "bind \<Rightarrow> bw_opt" where
  "bind_opt b = (if b_RW b then OBind (b_Src b) (b_Dst b) else OROBind (b_Src b) (b_Dst b))"

definition spec_opts :: "bw_spec \<Rightarrow> bw_opt list" where
  "spec_opts s =
     [OUnshareAll, ODieWithParent] @ (if bs_NewSession s then [ONewSession] else []) @
     (if bs_AsPID1 s then [OAsPid1] else []) @
     map (\<lambda>l. OSymlink (l_Target l) (l_Dst l)) (bs_Symlinks s) @ [OProc ''/proc'', ODev ''/dev''] @
     map OTmpfs (bs_Tmpfs s) @ map bind_opt (bs_Binds s) @
     (if bs_Chdir s \<noteq> [] then [OChdir (bs_Chdir s)] else []) @ [OClearenv] @
     map (\<lambda>e. OSetenv (ev_Key e) (ev_Value e)) (bs_Env s)"

definition opts_cons :: "bw_opt list \<Rightarrow> (bw_opt list \<times> string list) option \<Rightarrow> (bw_opt list \<times> string list) option" where
  "opts_cons os r = map_option (\<lambda>(os', cmd). (os @ os', cmd)) r"

lemma parse_opts_words:
  "parse_opts (''--unshare-all'' # r) = opts_cons [OUnshareAll] (parse_opts r)"
  "parse_opts (''--die-with-parent'' # r) = opts_cons [ODieWithParent] (parse_opts r)"
  "parse_opts (''--new-session'' # r) = opts_cons [ONewSession] (parse_opts r)"
  "parse_opts (''--as-pid-1'' # r) = opts_cons [OAsPid1] (parse_opts r)"
  "parse_opts (''--clearenv'' # r) = opts_cons [OClearenv] (parse_opts r)"
  "parse_opts (''--proc'' # x # r) = opts_cons [OProc x] (parse_opts r)"
  "parse_opts (''--dev'' # x # r) = opts_cons [ODev x] (parse_opts r)"
  "parse_opts (''--tmpfs'' # x # r) = opts_cons [OTmpfs x] (parse_opts r)"
  "parse_opts (''--chdir'' # x # r) = opts_cons [OChdir x] (parse_opts r)"
  "parse_opts (''--symlink'' # x # y # r) = opts_cons [OSymlink x y] (parse_opts r)"
  "parse_opts (''--bind'' # x # y # r) = opts_cons [OBind x y] (parse_opts r)"
  "parse_opts (''--ro-bind'' # x # y # r) = opts_cons [OROBind x y] (parse_opts r)"
  "parse_opts (''--setenv'' # x # y # r) = opts_cons [OSetenv x y] (parse_opts r)"
  "parse_opts (''--'' # r) = Some ([], r)"
  by (simp_all add: flag_opt_def unary_opt_def binary_opt_def opts_cons_def)

lemma opts_cons_simps:
  "opts_cons os (opts_cons os' r) = opts_cons (os @ os') r" "opts_cons [] r = r" "opts_cons os (Some (os', cmd)) = Some (os @ os', cmd)"
  by (cases r; auto simp: opts_cons_def)+

lemma parse_opts_lists:
  "parse_opts (concat (map (\<lambda>l. [''--symlink'', l_Target l, l_Dst l]) ls) @ r) = opts_cons (map (\<lambda>l. OSymlink (l_Target l) (l_Dst l)) ls) (parse_opts r)"
  "parse_opts (concat (map (\<lambda>t. [''--tmpfs'', t]) ts) @ r) = opts_cons (map OTmpfs ts) (parse_opts r)"
  "parse_opts (concat (map bind_args bs) @ r) = opts_cons (map bind_opt bs) (parse_opts r)"
  "parse_opts (concat (map (\<lambda>e. [''--setenv'', ev_Key e, ev_Value e]) es) @ r) = opts_cons (map (\<lambda>e. OSetenv (ev_Key e) (ev_Value e)) es) (parse_opts r)"
  subgoal by (induction ls) (simp_all add: parse_opts_words opts_cons_simps del: parse_opts.simps)
  subgoal by (induction ts) (simp_all add: parse_opts_words opts_cons_simps del: parse_opts.simps)
  subgoal by (induction bs) (simp_all add: parse_opts_words opts_cons_simps bind_args_def bind_opt_def del: parse_opts.simps)
  subgoal by (induction es) (simp_all add: parse_opts_words opts_cons_simps del: parse_opts.simps)
  done

lemma parse_argv: "parse_opts (tl (bw_argv s)) = Some (spec_opts s, bs_Cmd s)"
  unfolding bw_argv_def spec_opts_def
  by (simp add: parse_opts_words parse_opts_lists opts_cons_simps del: parse_opts.simps)

subsection \<open>Starting\<close>

lemma resolve_binds_sources:
  "resolve_binds eval h bs = Inr rs \<Longrightarrow>
   \<forall>x\<in>set rs. \<exists>b\<in>set bs. eval (b_Src b) = Some (b_Src x) \<and> x = b\<lparr>b_Src := b_Src x\<rparr> \<and> bw_checkSrc h b (b_Src x) False = Inr ()"
proof (induction bs arbitrary: rs)
  case (Cons b bs)
  then obtain real rs' where r: "eval (b_Src b) = Some real" "bw_checkSrc h b real False = Inr ()"
    "resolve_binds eval h bs = Inr rs'" "rs = b\<lparr>b_Src := real\<rparr> # rs'"
    by (auto split: option.splits)
  from Cons.IH [OF r(3)] r show ?case by auto
qed simp

lemma bw_resolved_host_fields:
  "bh_Home (bw_resolved_host eval (bs_Host (translate (New_backend h) s))) = h_Home (resolved_host eval h)"
  "bh_Secrets (bw_resolved_host eval (bs_Host (translate (New_backend h) s))) = h_Secrets (resolved_host eval h)"
  by (simp_all add: bw_resolved_host_def resolved_host_def translate_def Let_def)

lemma bw_checkSrc_hides:
  assumes "bw_checkSrc (bw_resolved_host eval (bs_Host (translate (New_backend h) s))) b src False = Inr ()"
    and "Host_check (resolved_host eval h) = Inr ()" and "Under q src"
  shows "\<not> secret_path (resolved_host eval h) q"
proof -
  let ?r = "\<lparr>r_Host = resolved_host eval h, r_Policy = LinuxPolicy, r_Caps = bw_Capabilities\<rparr>"
  let ?m = "\<lparr>m_HostPath = [], m_GuestPath = [], m_InHome = b_InHome b\<rparr>"
  have "checkSource ?r ?m src (b_RW b) False
      (bh_resolvedTrees (bw_resolved_host eval (bs_Host (translate (New_backend h) s)))) = Inr ()"
    using assms(1) bw_checkSrc_eq [of ?r _ b ?m] by (simp add: bw_resolved_host_fields)
  from checkSource_hides(1) [OF this _ _ assms(3)] Host_check_home [OF assms(2)] show ?thesis by simp
qed

lemma backend_start_Inr:
  assumes "backend_start eval pe b s = Inr argv"
  shows "Validate (be_rules b) s = Inr () \<and> (\<exists>bs'. withResolvedSrcs eval (translate b s) = Inr bs' \<and> argv = bw_argv bs') \<and>
    (sp_Terminal s \<longrightarrow> \<not> pe_stdio_tty pe \<and> \<not> pe_ctty pe \<or> checkTIOCSTI pe) \<and> pe_close_fds pe"
  using assms unfolding backend_start_def Start_def
  by (auto simp: Let_def translate_def split: if_splits)

section \<open>Properties\<close>

text \<open>
  C40: The second validation never contradicts the first, except for the system tree. Preparing a
  cage succeeds exactly when the contract's validation accepts the specification and, if the system
  tree is asked for, neither the home nor a secret of the host overlaps \<open>/usr\<close> (which the contract
  does not check); the command line is then that of the translated specification.
\<close>

theorem Prepare_agrees:
  "Prepare (New_backend h) s = Inr argv \<longleftrightarrow>
     Validate (be_rules (New_backend h)) s = Inr () \<and>
     (if sp_System s then \<not> Under (h_Home h) ''/usr'' \<and> (\<forall>sec\<in>set (h_Secrets h). \<not> Overlap ''/usr'' sec) else True) \<and>
     argv = bw_argv (translate (New_backend h) s)"
  using bw_validate_translate [of h s] by (auto simp: Prepare_def Argv_def)

theorem Prepare_agrees_witness:
  "Prepare (New_backend (r_Host example_rules)) example_spec =
     Inr (bw_argv (translate (New_backend (r_Host example_rules)) example_spec))"
proof -
  have "be_rules (New_backend (r_Host example_rules)) = example_rules"
    by (simp add: New_backend_def example_rules_def bw_Capabilities_def)
  moreover have "\<not> Under (h_Home (r_Host example_rules)) ''/usr'' \<and> list_all (\<lambda>sec. \<not> Overlap ''/usr'' sec) (h_Secrets (r_Host example_rules))"
    by code_simp
  ultimately show ?thesis
    using Prepare_agrees [of "r_Host example_rules" example_spec] example_Validate by (auto simp: list_all_iff)
qed

text \<open>
  C38: A cage that is started is closed and hides the host's secrets. Read back as bwrap reads it, the
  command line that is executed runs exactly the command of the specification, unshares everything,
  dies with its parent and clears the environment; every bind shows a tree in which nothing is
  secret on the host as resolved; what is writable is the real path of a \<open>Write\<close> mount at its own
  place; and without a new session there is no terminal, or injecting into it is disabled.
\<close>

theorem start_safe:
  assumes "backend_start eval pe (New_backend h) s = Inr argv" and "Host_check (resolved_host eval h) = Inr ()"
  shows "\<exists>opts. parse_opts (tl argv) = Some (opts, sp_Exec s # sp_Args s) \<and>
    {OUnshareAll, ODieWithParent, OClearenv} \<subseteq> set opts \<and>
    (\<forall>src dst q. OBind src dst \<in> set opts \<or> OROBind src dst \<in> set opts \<longrightarrow> Under q src \<longrightarrow> \<not> secret_path (resolved_host eval h) q) \<and>
    (\<forall>src dst. OBind src dst \<in> set opts \<longrightarrow> (\<exists>m\<in>set (sp_Write s). eval (m_HostPath m) = Some src \<and> dst = Guest m)) \<and>
    (ONewSession \<in> set opts \<or> \<not> pe_stdio_tty pe \<and> \<not> pe_ctty pe \<or> checkTIOCSTI pe)"
proof -
  let ?t = "translate (New_backend h) s"
  from backend_start_Inr [OF assms(1)] obtain bs' where w: "withResolvedSrcs eval ?t = Inr bs'" and argv: "argv = bw_argv bs'"
    and tty: "sp_Terminal s \<longrightarrow> \<not> pe_stdio_tty pe \<and> \<not> pe_ctty pe \<or> checkTIOCSTI pe" by blast
  from w obtain rs where rs: "resolve_binds eval (bw_resolved_host eval (bs_Host ?t)) (bs_Binds ?t) = Inr rs" and bs': "bs' = ?t\<lparr>bs_Binds := rs\<rparr>"
    by (auto simp: withResolvedSrcs_def)
  note src = resolve_binds_sources [OF rs]
  have opts: "OBind a c \<in> set (spec_opts bs') \<or> OROBind a c \<in> set (spec_opts bs') \<Longrightarrow> \<exists>x\<in>set rs. b_Src x = a \<and> b_Dst x = c" 
    "OBind a c \<in> set (spec_opts bs') \<Longrightarrow> \<exists>x\<in>set rs. b_Src x = a \<and> b_Dst x = c \<and> b_RW x" for a c
    by (auto simp: spec_opts_def bs' bind_opt_def split: if_splits)
  have hide: "\<not> secret_path (resolved_host eval h) q"
    if "OBind a c \<in> set (spec_opts bs') \<or> OROBind a c \<in> set (spec_opts bs')" "Under q a" for a c q
    using opts(1) [OF that(1)] src bw_checkSrc_hides [OF _ assms(2) that(2), of s] by blast
  have rw: "\<exists>m\<in>set (sp_Write s). eval (m_HostPath m) = Some a \<and> c = Guest m" if o: "OBind a c \<in> set (spec_opts bs')" for a c
  proof -
    from opts(2) [OF o] obtain x where x: "x \<in> set rs" "b_Src x = a" "b_Dst x = c" "b_RW x" by blast
    with src obtain b where b: "b \<in> set (bs_Binds ?t)" "eval (b_Src b) = Some a" "x = b\<lparr>b_Src := a\<rparr>" by blast
    then have "b_RW b" "b_Dst b = c" using x by auto
    with b show ?thesis by (auto simp: translate_def ancestorsFirst_set usr_bind_def read_bind_def write_bind_def split: if_splits)
  qed
  have "parse_opts (tl argv) = Some (spec_opts bs', sp_Exec s # sp_Args s)"
    using parse_argv [of bs'] by (simp add: argv bs' translate_def)
  moreover have "{OUnshareAll, ODieWithParent, OClearenv} \<subseteq> set (spec_opts bs')" by (simp add: spec_opts_def)
  moreover have "ONewSession \<in> set (spec_opts bs') \<or> \<not> pe_stdio_tty pe \<and> \<not> pe_ctty pe \<or> checkTIOCSTI pe"
    using tty by (auto simp: spec_opts_def bs' translate_def)
  ultimately show ?thesis using hide rw by blast
qed

definition example_proc :: proc_env where
  "example_proc = \<lparr>pe_stdio_tty = True, pe_ctty = True, pe_tiocsti = None, pe_close_fds = True, pe_exec = True\<rparr>"

definition example_backend :: backend where
  "example_backend = New_backend (r_Host example_rules)"

lemma example_backend_rules: "be_rules example_backend = example_rules"
  by (simp add: example_backend_def New_backend_def example_rules_def bw_Capabilities_def)

lemma example_resolve:
  "Resolve example_eval example_rules example_spec = Inr ([], [''/home/u/clone''])"
  "withResolvedSrcs example_eval (translate example_backend example_spec) = Inr (translate example_backend example_spec)"
  "Host_check (resolved_host example_eval (r_Host example_rules)) = Inr ()"
  by code_simp+

lemma example_bw_validate: "bw_validate (translate example_backend example_spec) = Inr ()"
proof -
  have "\<not> Under (h_Home (r_Host example_rules)) ''/usr'' \<and> list_all (\<lambda>sec. \<not> Overlap ''/usr'' sec) (h_Secrets (r_Host example_rules))"
    by code_simp
  then show ?thesis
    using bw_validate_translate [of "r_Host example_rules" example_spec] example_Validate example_backend_rules
    by (simp add: example_backend_def list_all_iff)
qed

lemma example_start:
  "backend_start example_eval example_proc (New_backend (r_Host example_rules)) example_spec =
     Inr (bw_argv (translate example_backend example_spec))"
proof -
  have "bs_NewSession (translate example_backend example_spec)" by (simp add: translate_def example_spec_def)
  then show ?thesis
    using example_Validate example_bw_validate example_resolve(1,2) example_backend_rules
    unfolding backend_start_def Start_def Argv_def example_backend_def [symmetric]
    by (simp add: Let_def example_proc_def)
qed

theorem start_safe_witness:
  "\<exists>opts. parse_opts (tl (bw_argv (translate example_backend example_spec))) = Some (opts, [''/usr/bin/git'', ''status'']) \<and>
     ONewSession \<in> set opts"
proof -
  from start_safe [OF example_start example_resolve(3)] obtain opts where
    "parse_opts (tl (bw_argv (translate example_backend example_spec))) = Some (opts, sp_Exec example_spec # sp_Args example_spec)"
    "ONewSession \<in> set opts \<or> \<not> pe_stdio_tty example_proc \<and> \<not> pe_ctty example_proc \<or> checkTIOCSTI example_proc"
    by blast
  then show ?thesis by (intro exI [of _ opts]) (auto simp: example_spec_def example_proc_def checkTIOCSTI_def)
qed

text \<open>
  \<open>ancestorsFirst\<close> only reorders the binds, and no bind that lies below another one comes before
  it, so that no mount hides an inner one.
\<close>

theorem ancestorsFirst_correct:
  "mset (ancestorsFirst bs) = mset bs \<and> sorted_wrt (\<lambda>a b. \<not> has_prefix (b_Dst a) (b_Dst b @ ''/'')) (ancestorsFirst bs)"
  using ancestorsFirst_perm ancestorsFirst_ok by (simp add: ancestors_ok_def below_def)

end
