(* ===== verification/Github_Pull.thy ===== *)
theory Github_Pull
  imports Git_Receive
begin

text \<open>
  Pull requests from the cage (package egress/github: error.go, route.go, text.go, pull.go, result.go).
  The only request is the creation of a draft pull request whose head lies in the session's own
  namespace; what is sent upstream is rebuilt from the values that were checked.

  The parts of the standard library behind the checks are parameters of the definitions: the record
  \<open>text_env\<close> stands for the decoding of UTF-8 and the tables of package unicode, \<open>json_env\<close> for
  package encoding/json. Nothing is assumed about them.
\<close>

section \<open>Errors (error.go)\<close>

datatype pull_code =
    PCodeBadRoute | PCodeTooLarge | PCodeBadJSON | PCodeUnknownField | PCodeDuplicateField | PCodeBadField
  | PCodeRepoNotAllowed | PCodeHeadNotAllowed | PCodeQuota | PCodeBadResponse

fun pull_code_string :: "pull_code \<Rightarrow> string" where
  "pull_code_string PCodeBadRoute = ''bad-route''"
| "pull_code_string PCodeTooLarge = ''too-large''"
| "pull_code_string PCodeBadJSON = ''bad-json''"
| "pull_code_string PCodeUnknownField = ''unknown-field''"
| "pull_code_string PCodeDuplicateField = ''duplicate-field''"
| "pull_code_string PCodeBadField = ''bad-field''"
| "pull_code_string PCodeRepoNotAllowed = ''repo-not-allowed''"
| "pull_code_string PCodeHeadNotAllowed = ''head-not-allowed''"
| "pull_code_string PCodeQuota = ''quota''"
| "pull_code_string PCodeBadResponse = ''bad-response''"

section \<open>Routes (route.go)\<close>

definition PullPathPrefix :: string where
  "PullPathPrefix = ''/github-api/''"

definition ParsePullRoute :: "string \<Rightarrow> string \<Rightarrow> pull_code + repo" where
  "ParsePullRoute method target =
     (case cut_prefix target (PullPathPrefix @ ''repos/'') of
        None \<Rightarrow> Inl PCodeBadRoute
      | Some rest \<Rightarrow>
          if method \<noteq> ''POST'' then Inl PCodeBadRoute
          else let parts = split (CHR ''/'') rest in
          if length parts \<noteq> 3 \<or> parts ! 2 \<noteq> ''pulls'' then Inl PCodeBadRoute
          else (case ParseRepo (parts ! 0 @ ''/'' @ parts ! 1) of
                  Inl _ \<Rightarrow> Inl PCodeBadRoute
                | Inr rep \<Rightarrow> Inr rep))"

definition RepoPath :: "repo \<Rightarrow> string" where
  "RepoPath r = ''/repos/'' @ lower (Owner r) @ ''/'' @ lower (Name r)"

definition PullsPath :: "repo \<Rightarrow> string" where
  "PullsPath r = RepoPath r @ ''/pulls''"

section \<open>Text (text.go)\<close>

record text_env =
  u_Valid :: "string \<Rightarrow> bool"
  u_runes :: "string \<Rightarrow> nat list"
  u_IsControl :: "nat \<Rightarrow> bool"
  u_Cf :: "nat \<Rightarrow> bool"
  u_IsSpace :: "nat \<Rightarrow> bool"
  u_Ignorable :: "nat \<Rightarrow> bool"
  u_VariationSelector :: "nat \<Rightarrow> bool"
  u_TrimSpace :: "string \<Rightarrow> string"

definition isVariationSelector :: "nat \<Rightarrow> bool" where
  "isVariationSelector r \<longleftrightarrow> (0xfe00 \<le> r \<and> r \<le> 0xfe0f) \<or> (0xe0100 \<le> r \<and> r \<le> 0xe01ef)"

definition forbiddenRune :: "text_env \<Rightarrow> nat \<Rightarrow> nat \<Rightarrow> bool \<Rightarrow> bool" where
  "forbiddenRune u prev r multiline =
     (if multiline \<and> (r = 10 \<or> r = 13 \<or> r = 9) then False
      else if u_IsControl u r \<or> u_Cf u r \<or> r = 0x2028 \<or> r = 0x2029 \<or> r = 0x2800 then True
      else if isVariationSelector r then prev = 0 \<or> isVariationSelector prev \<or> u_IsSpace u prev
      else u_Ignorable u r \<or> u_VariationSelector u r)"

fun checkRunes :: "text_env \<Rightarrow> bool \<Rightarrow> nat \<Rightarrow> nat list \<Rightarrow> bool" where
  "checkRunes u multiline prev [] \<longleftrightarrow> True"
| "checkRunes u multiline prev (r # rs) \<longleftrightarrow> \<not> forbiddenRune u prev r multiline \<and> checkRunes u multiline r rs"

definition checkText :: "text_env \<Rightarrow> string \<Rightarrow> nat \<Rightarrow> bool \<Rightarrow> pull_code + unit" where
  "checkText u s maxLen multiline =
     (if length s > maxLen then Inl PCodeBadField
      else if \<not> checkRunes u multiline 0 (u_runes u s) then Inl PCodeBadField
      else Inr ())"

section \<open>Requests (pull.go)\<close>

definition MaxRequestBytes :: nat where "MaxRequestBytes = 512 * 1024"
definition MaxTitleBytes :: nat where "MaxTitleBytes = 256"
definition MaxBodyBytes :: nat where "MaxBodyBytes = 64 * 1024"

definition allowedFields :: "string list" where
  "allowedFields = [''title'', ''body'', ''head'', ''base'', ''draft'']"

record pull_policy =
  pp_Push :: policy
  pp_Targets :: "repo list"

record pull =
  pl_Repo :: repo
  pl_Title :: string
  pl_Body :: string
  pl_Head :: string
  pl_Base :: string

text \<open>
  What a \<open>json.Decoder\<close> delivers for a body that should be one object: whether it opens as an object,
  then the members in order (the key, or that it is not a readable string, and the raw value, or
  that it cannot be read), and how it ends.
\<close>

datatype json_end = ObjClosed | ObjNotClosed | ObjTrailing

datatype json_doc = NotObject | Object "(string option \<times> string option) list" json_end

record json_env =
  js_decode :: "string \<Rightarrow> json_doc"
  js_string :: "string \<Rightarrow> string option"
  js_result :: "string \<Rightarrow> (int \<times> string \<times> bool option) option"
  js_branch :: "string \<Rightarrow> string option"

fun decode_members :: "(string option \<times> string option) list \<Rightarrow> (string \<times> string) list \<Rightarrow> pull_code + (string \<times> string) list" where
  "decode_members [] fs = Inr fs"
| "decode_members ((None, v) # ms) fs = Inl PCodeBadJSON"
| "decode_members ((Some key, v) # ms) fs =
     (if key \<notin> set allowedFields then Inl PCodeUnknownField
      else if key \<in> fst ` set fs then Inl PCodeDuplicateField
      else (case v of None \<Rightarrow> Inl PCodeBadJSON | Some raw \<Rightarrow> decode_members ms (fs @ [(key, raw)])))"

definition decodeFields :: "json_env \<Rightarrow> string \<Rightarrow> pull_code + (string \<rightharpoonup> string)" where
  "decodeFields js body =
     (case js_decode js body of
        NotObject \<Rightarrow> Inl PCodeBadJSON
      | Object members fin \<Rightarrow>
          bindR (decode_members members []) (\<lambda>fs.
            if fin \<noteq> ObjClosed then Inl PCodeBadJSON else Inr (map_of fs)))"

definition decodeString :: "json_env \<Rightarrow> string \<Rightarrow> pull_code + string" where
  "decodeString js raw =
     (if raw = [] \<or> hd raw \<noteq> CHR 0x22 then Inl PCodeBadField
      else (case js_string js raw of None \<Rightarrow> Inl PCodeBadJSON | Some s \<Rightarrow> Inr s))"

definition field :: "json_env \<Rightarrow> (string \<rightharpoonup> string) \<Rightarrow> string \<Rightarrow> bool \<Rightarrow> pull_code + string" where
  "field js fs name required =
     (case fs name of
        None \<Rightarrow> if required then Inl PCodeBadField else Inr []
      | Some raw \<Rightarrow> decodeString js raw)"

definition pull_target :: "pull_policy \<Rightarrow> repo \<Rightarrow> repo option" where
  "pull_target pp r =
     (let targets = (if pp_Targets pp = [] then [pol_Repo (pp_Push pp)] else pp_Targets pp) in
      find (\<lambda>t. Repo_Equal t r) targets)"

definition pull_head :: "pull_policy \<Rightarrow> repo \<Rightarrow> string \<Rightarrow> pull_code + string" where
  "pull_head pp target head =
     (case cut (CHR '':'') head of (owner0, branch0, hasOwner) \<Rightarrow>
        let owner = (if hasOwner then owner0 else []);
            branch = (if hasOwner then branch0 else head);
            same = Repo_Equal target (pol_Repo (pp_Push pp)) in
        if failed (CheckBranch (pp_Push pp) branch) then Inl PCodeHeadNotAllowed
        else if hasOwner \<and> \<not> equal_fold owner (Owner (pol_Repo (pp_Push pp))) then Inl PCodeHeadNotAllowed
        else if \<not> hasOwner \<and> \<not> same then Inl PCodeHeadNotAllowed
        else if same then Inr branch
        else Inr (Owner (pol_Repo (pp_Push pp)) @ '':'' @ branch))"

definition ParsePull :: "text_env \<Rightarrow> json_env \<Rightarrow> pull_policy \<Rightarrow> repo \<Rightarrow> string \<Rightarrow> pull_code + pull" where
  "ParsePull u js pp r body =
     (case pull_target pp r of
        None \<Rightarrow> Inl PCodeRepoNotAllowed
      | Some target \<Rightarrow>
          if length body > MaxRequestBytes then Inl PCodeTooLarge
          else if \<not> u_Valid u body then Inl PCodeBadJSON
          else bindR (decodeFields js body) (\<lambda>fs.
          bindR (field js fs ''title'' True) (\<lambda>title.
          bindR (field js fs ''body'' False) (\<lambda>text.
          bindR (field js fs ''head'' True) (\<lambda>head0.
          bindR (field js fs ''base'' False) (\<lambda>base.
          if (case fs ''draft'' of Some raw \<Rightarrow> raw \<noteq> ''true'' \<and> raw \<noteq> ''false'' | None \<Rightarrow> False) then Inl PCodeBadField
          else bindR (checkText u title MaxTitleBytes False) (\<lambda>_.
          if u_TrimSpace u title = [] then Inl PCodeBadField
          else bindR (checkText u text MaxBodyBytes True) (\<lambda>_.
          bindR (pull_head pp target head0) (\<lambda>head.
          if fs ''base'' \<noteq> None \<and> failed (CheckBranchName base) then Inl PCodeBadField
          else Inr \<lparr>pl_Repo = target, pl_Title = title, pl_Body = text, pl_Head = head, pl_Base = base\<rparr>)))))))))"

definition WithBase :: "pull \<Rightarrow> string \<Rightarrow> pull_code + pull" where
  "WithBase p name = (if failed (CheckBranchName name) then Inl PCodeBadField else Inr (p\<lparr>pl_Base := name\<rparr>))"

record wire_pull =
  w_Title :: string
  w_Body :: string
  w_Head :: string
  w_Base :: string
  w_Draft :: bool

text \<open>The value that \<open>Pull.JSON\<close> marshals; \<open>None\<close> is its error.\<close>

definition Pull_JSON :: "pull \<Rightarrow> wire_pull option" where
  "Pull_JSON p =
     (if pl_Head p = [] \<or> pl_Base p = [] then None
      else Some \<lparr>w_Title = pl_Title p, w_Body = pl_Body p, w_Head = pl_Head p, w_Base = pl_Base p, w_Draft = True\<rparr>)"

section \<open>Results (result.go)\<close>

definition MaxResponseBytes :: nat where "MaxResponseBytes = 4 * 1024 * 1024"

record pull_result =
  res_Number :: nat
  res_URL :: string
  res_Draft :: bool

definition ParseResult :: "json_env \<Rightarrow> string \<Rightarrow> repo \<Rightarrow> pull_code + pull_result" where
  "ParseResult js body r =
     (if length body > MaxResponseBytes then Inl PCodeTooLarge
      else (case js_result js body of
              None \<Rightarrow> Inl PCodeBadResponse
            | Some (number, url, draft) \<Rightarrow>
                if number < 1 then Inl PCodeBadResponse
                else let want = ''https://github.com/'' @ Owner r @ ''/'' @ Name r @ ''/pull/'' @ format_uint (nat number) in
                if \<not> equal_fold url want then Inl PCodeBadResponse
                else Inr \<lparr>res_Number = nat number, res_URL = want, res_Draft = (draft = Some True)\<rparr>))"

definition DefaultBranch :: "json_env \<Rightarrow> string \<Rightarrow> pull_code + string" where
  "DefaultBranch js body =
     (if length body > MaxResponseBytes then Inl PCodeTooLarge
      else (case js_branch js body of
              None \<Rightarrow> Inl PCodeBadResponse
            | Some branch \<Rightarrow> if failed (CheckBranchName branch) then Inl PCodeBadResponse else Inr branch))"

text \<open>The quota of a session: a counter that is taken from under its lock.\<close>

definition NewQuota :: "int \<Rightarrow> nat" where
  "NewQuota n = nat (max n 0)"

definition Quota_Take :: "nat \<Rightarrow> pull_code + nat" where
  "Quota_Take left = (if left = 0 then Inl PCodeQuota else Inr (left - 1))"

section \<open>Lemmas\<close>

lemma failed_Inr_unit [simp]: "\<not> failed (r :: 'e + unit) \<longleftrightarrow> r = Inr ()"
  by (cases r) simp_all

lemma ParsePullRoute_iff:
  "ParsePullRoute method target = Inr r \<longleftrightarrow>
     wf_repo r \<and> method = ''POST'' \<and> target = ''/github-api/repos/'' @ Repo_String r @ ''/pulls''"
proof
  assume a: "ParsePullRoute method target = Inr r"
  then obtain rest where c: "cut_prefix target (PullPathPrefix @ ''repos/'') = Some rest"
    by (cases "cut_prefix target (PullPathPrefix @ ''repos/'')") (simp_all add: ParsePullRoute_def)
  then have t: "target = PullPathPrefix @ ''repos/'' @ rest" by simp
  let ?ps = "split (CHR ''/'') rest"
  have b: "method = ''POST''" "length ?ps = 3" "?ps ! 2 = ''pulls''"
    and p: "ParseRepo (?ps ! 0 @ ''/'' @ ?ps ! 1) = Inr r"
    using a unfolding ParsePullRoute_def c by (auto simp: Let_def split: if_splits sum.splits)
  obtain x y where ps: "?ps = [x, y, ''pulls'']"
    using b(2,3) by (auto simp: numeral_3_eq_3 length_Suc_conv)
  then have "rest = x @ ''/'' @ y @ ''/pulls''" by (simp add: split_eq_iff)
  with p ps b t show "wf_repo r \<and> method = ''POST'' \<and> target = ''/github-api/repos/'' @ Repo_String r @ ''/pulls''"
    by (simp add: ParseRepo_iff PullPathPrefix_def)
next
  assume a: "wf_repo r \<and> method = ''POST'' \<and> target = ''/github-api/repos/'' @ Repo_String r @ ''/pulls''"
  have sep: "CHR ''/'' \<notin> set (Owner r)" "CHR ''/'' \<notin> set (Name r)"
    using a by (auto simp: wf_repo_def dest: validOwner_chars validRepoName_chars)
  have s: "split (CHR ''/'') (Repo_String r @ ''/pulls'') = [Owner r, Name r, ''pulls'']"
    using sep by (simp add: split_eq_iff Repo_String_def)
  have c: "cut_prefix target (PullPathPrefix @ ''repos/'') = Some (Repo_String r @ ''/pulls'')"
    using a by (simp add: PullPathPrefix_def)
  have "ParseRepo (Owner r @ ''/'' @ Name r) = Inr r"
    using a ParseRepo_iff [of "Owner r @ ''/'' @ Name r" r] by (simp add: Repo_String_def)
  with a s show "ParsePullRoute method target = Inr r"
    unfolding ParsePullRoute_def c by (simp add: Let_def)
qed

interpretation pull_route_codec: strict_codec
  "\<lambda>r. (''POST'', ''/github-api/repos/'' @ Repo_String r @ ''/pulls'')" "\<lambda>(m, t). ParsePullRoute m t" wf_repo
  by unfold_locales (auto simp: ParsePullRoute_iff)

lemma pull_head_sound:
  assumes "pull_head pp target head0 = Inr head"
  shows "\<exists>branch. CheckBranch (pp_Push pp) branch = Inr () \<and>
    head = (if Repo_Equal target (pol_Repo (pp_Push pp)) then branch else Owner (pol_Repo (pp_Push pp)) @ '':'' @ branch)"
proof -
  obtain a b c where cut: "cut (CHR '':'') head0 = (a, b, c)" by (cases "cut (CHR '':'') head0")
  show ?thesis
    using assms cut by (auto simp: pull_head_def Let_def split: if_splits)
qed

lemma ParsePull_fields:
  assumes "ParsePull u js pp r body = Inr p"
  shows "pull_target pp r = Some (pl_Repo p) \<and> checkText u (pl_Title p) MaxTitleBytes False = Inr () \<and>
    checkText u (pl_Body p) MaxBodyBytes True = Inr () \<and> (\<exists>h. pull_head pp (pl_Repo p) h = Inr (pl_Head p)) \<and>
    (pl_Base p = [] \<or> CheckBranchName (pl_Base p) = Inr ())"
  using assms unfolding ParsePull_def
  by (auto simp: field_def split: option.splits if_splits)

lemma checkText_length: "checkText u s m ml = Inr () \<Longrightarrow> length s \<le> m \<and> checkRunes u ml 0 (u_runes u s)"
  by (auto simp: checkText_def split: if_splits)

section \<open>Properties\<close>

text \<open>
  The only pull request route is \<open>POST /github-api/repos/<owner>/<name>/pulls\<close> for a valid
  owner and name, and nothing else is read as one.
\<close>

theorem ParsePullRoute_exact:
  "ParsePullRoute method target = Inr r \<longleftrightarrow>
     validOwner (Owner r) \<and> validRepoName (Name r) \<and> method = ''POST'' \<and>
     target = ''/github-api/repos/'' @ Owner r @ ''/'' @ Name r @ ''/pulls''"
  using pull_route_codec.dec_iff [of "(method, target)" r] by (auto simp: wf_repo_def Repo_String_def)

text \<open>
  C33: Whatever the decoder delivers, a pull request that passes the checks and is marshalled is a
  draft, targets one of the repositories of the policy, takes its head from the session's
  namespace (written with the owner exactly when the target is another repository), has a valid base
  branch, and its title and body are within their limits and free of forbidden characters.
\<close>

theorem ParsePull_safe:
  assumes "ParsePull u js pp r body = Inr p" and "Pull_JSON p = Some w"
  shows "w_Draft w \<and> pl_Repo p \<in> set (if pp_Targets pp = [] then [pol_Repo (pp_Push pp)] else pp_Targets pp) \<and>
    Repo_Equal (pl_Repo p) r \<and>
    (\<exists>branch. CheckRef (pp_Push pp) (''refs/heads/'' @ branch) = Inr () \<and>
       w_Head w = (if Repo_Equal (pl_Repo p) (pol_Repo (pp_Push pp)) then branch
                   else Owner (pol_Repo (pp_Push pp)) @ '':'' @ branch)) \<and>
    CheckBranchName (w_Base w) = Inr () \<and>
    length (w_Title w) \<le> 256 \<and> checkRunes u False 0 (u_runes u (w_Title w)) \<and>
    length (w_Body w) \<le> 65536 \<and> checkRunes u True 0 (u_runes u (w_Body w))"
proof -
  note f = ParsePull_fields [OF assms(1)]
  from assms(2) have w: "w = \<lparr>w_Title = pl_Title p, w_Body = pl_Body p, w_Head = pl_Head p, w_Base = pl_Base p, w_Draft = True\<rparr>"
    and ne: "pl_Base p \<noteq> []" by (auto simp: Pull_JSON_def split: if_splits)
  from f have "pl_Repo p \<in> set (if pp_Targets pp = [] then [pol_Repo (pp_Push pp)] else pp_Targets pp) \<and> Repo_Equal (pl_Repo p) r"
    by (auto simp: pull_target_def find_Some_iff Let_def)
  moreover from f obtain h where "pull_head pp (pl_Repo p) h = Inr (pl_Head p)" by blast
  from pull_head_sound [OF this] have "\<exists>branch. CheckRef (pp_Push pp) (''refs/heads/'' @ branch) = Inr () \<and>
       pl_Head p = (if Repo_Equal (pl_Repo p) (pol_Repo (pp_Push pp)) then branch else Owner (pol_Repo (pp_Push pp)) @ '':'' @ branch)"
    by (simp add: CheckBranch_def)
  moreover have "CheckBranchName (pl_Base p) = Inr ()" using f ne by blast
  moreover have "length (pl_Title p) \<le> 256 \<and> checkRunes u False 0 (u_runes u (pl_Title p))"
    "length (pl_Body p) \<le> 65536 \<and> checkRunes u True 0 (u_runes u (pl_Body p))"
    using f checkText_length [of u "pl_Title p"] checkText_length [of u "pl_Body p"]
    by (auto simp: MaxTitleBytes_def MaxBodyBytes_def)
  ultimately show ?thesis unfolding w by simp
qed

definition example_text :: text_env where
  "example_text = \<lparr>u_Valid = (\<lambda>_. True), u_runes = map of_char, u_IsControl = (\<lambda>r. r < 32 \<or> r = 127), u_Cf = (\<lambda>_. False),
     u_IsSpace = (\<lambda>r. r = 32), u_Ignorable = (\<lambda>_. False), u_VariationSelector = (\<lambda>_. False), u_TrimSpace = dropWhile (\<lambda>c. c = CHR '' '')\<rparr>"

definition example_json :: json_env where
  "example_json = \<lparr>js_decode = (\<lambda>_. Object [(Some ''title'', Some [CHR 0x22, CHR ''t'', CHR 0x22]),
       (Some ''head'', Some [CHR 0x22, CHR ''h'', CHR 0x22]), (Some ''base'', Some [CHR 0x22, CHR ''b'', CHR 0x22]), (Some ''draft'', Some ''false'')] ObjClosed),
     js_string = (\<lambda>raw. Some (if raw ! 1 = CHR ''t'' then ''Fix'' else if raw ! 1 = CHR ''h'' then ''goronation/s1/x'' else ''main'')),
     js_result = (\<lambda>_. Some (1, ''https://github.com/nananek/goronation/pull/1'', Some True)), js_branch = (\<lambda>_. Some ''main'')\<rparr>"

definition example_pull_policy :: pull_policy where
  "example_pull_policy = \<lparr>pp_Push = example_policy, pp_Targets = []\<rparr>"

definition example_pull :: pull where
  "example_pull = \<lparr>pl_Repo = pol_Repo example_policy, pl_Title = ''Fix'', pl_Body = [], pl_Head = ''goronation/s1/x'', pl_Base = ''main''\<rparr>"

lemma example_parts_pull:
  "pull_target example_pull_policy (pol_Repo example_policy) = Some (pol_Repo example_policy)"
  "pull_head example_pull_policy (pol_Repo example_policy) ''goronation/s1/x'' = Inr ''goronation/s1/x''"
  "CheckBranchName ''main'' = Inr ()"
  by code_simp+

lemma example_runes: "checkRunes example_text False 0 (u_runes example_text ''Fix'')"
  by (simp add: example_text_def forbiddenRune_def isVariationSelector_def)

lemma example_texts:
  "checkText example_text ''Fix'' MaxTitleBytes False = Inr ()" "checkText example_text [] MaxBodyBytes True = Inr ()"
  "u_Valid example_text s" "u_TrimSpace example_text ''Fix'' \<noteq> []"
  using example_runes by (simp_all add: checkText_def MaxTitleBytes_def) (simp_all add: example_text_def)

definition example_fields :: "(string \<times> string) list" where
  "example_fields = [(''title'', [CHR 0x22, CHR ''t'', CHR 0x22]), (''head'', [CHR 0x22, CHR ''h'', CHR 0x22]),
     (''base'', [CHR 0x22, CHR ''b'', CHR 0x22]), (''draft'', ''false'')]"

lemma example_decode:
  "decodeFields example_json ''x'' = Inr (map_of example_fields)"
  "field example_json (map_of example_fields) ''title'' True = Inr ''Fix''"
  "field example_json (map_of example_fields) ''body'' False = Inr []"
  "field example_json (map_of example_fields) ''head'' True = Inr ''goronation/s1/x''"
  "field example_json (map_of example_fields) ''base'' False = Inr ''main''"
  "map_of example_fields ''draft'' = Some ''false''"
  by (simp_all add: decodeFields_def example_json_def allowedFields_def example_fields_def field_def decodeString_def)

lemma example_ParsePull: "ParsePull example_text example_json example_pull_policy (pol_Repo example_policy) ''x'' = Inr example_pull"
  unfolding ParsePull_def
  by (simp add: example_parts_pull example_decode example_texts MaxRequestBytes_def example_pull_def)

theorem ParsePull_safe_witness:
  "w_Draft \<lparr>w_Title = ''Fix'', w_Body = [], w_Head = ''goronation/s1/x'', w_Base = ''main'', w_Draft = True\<rparr>"
proof -
  have "Pull_JSON example_pull = Some \<lparr>w_Title = ''Fix'', w_Body = [], w_Head = ''goronation/s1/x'', w_Base = ''main'', w_Draft = True\<rparr>"
    by (simp add: Pull_JSON_def example_pull_def)
  from ParsePull_safe [OF example_ParsePull this] show ?thesis by blast
qed

end
