(* ===== verification/Gateway.thy ===== *)
theory Gateway
  imports Github_Pull Egress_Addr
begin

text \<open>
  The gateway between the cage and GitHub (package egress/gateway: config.go, handler.go, git.go,
  pull.go, audit.go, client.go). It relays the git requests that the policy authorises and the pull
  requests that pass the checks, adds the credential that the cage never sees, and keeps an audit log.

  A handler is a function from its state (the quota that is left) and a request to its new state and
  the list of its effects in order. The outside world is the record \<open>gw_env\<close>: where credentials come
  from, whether net/http can build a request for a URL, how the upstream answers a request, and the
  decoders of the pull request component. Byte counts and durations of the audit log are left out.
\<close>

section \<open>Requests and effects\<close>

record http_req =
  rq_Method :: string
  rq_URI :: string
  rq_Header :: "string \<Rightarrow> string"
  rq_Body :: reader

datatype auth = BasicAuth string string | Bearer string

datatype up_body = NoBody | BodyOf reader | BodyJSON wire_pull

record up_req =
  up_Method :: string
  up_URL :: string
  up_Headers :: "(string \<times> string) list"
  up_Body :: up_body
  up_Auth :: auth

datatype up_err = UpMaxBytes | UpErr

record up_resp =
  rs_Status :: nat
  rs_Length :: int
  rs_Header :: "string \<Rightarrow> string"
  rs_Body :: reader

record gw_env =
  ge_Token :: "string \<Rightarrow> string option"
  ge_NewRequest :: "string \<Rightarrow> bool"
  ge_Do :: "up_req \<Rightarrow> up_err + up_resp"
  ge_json :: json_env
  ge_text :: text_env

record gw_audit =
  ga_Event :: string
  ga_Repo :: string
  ga_Op :: string
  ga_Ref :: string
  ga_Status :: nat
  ga_Reason :: string

datatype gw_effect =
    GUpstream up_req
  | GAudit gw_audit
  | GError nat
  | GReply nat "(string \<times> string) list" string
  | GCreated nat string

text \<open>\<open>http.MaxBytesReader\<close>: a body that is longer than the limit fails behind it. \<open>io.ReadAll\<close> needs
  the end of the body; \<open>io.LimitReader\<close> just stops.\<close>

definition max_bytes_reader :: "reader \<Rightarrow> nat \<Rightarrow> reader" where
  "max_bytes_reader r n =
     (if length (rd_data r) \<le> n then r else \<lparr>rd_data = take n (rd_data r), rd_end = ReadFails MaxBytesError\<rparr>)"

definition read_all :: "reader \<Rightarrow> string option" where
  "read_all r = (case rd_end r of EOF \<Rightarrow> Some (rd_data r) | ReadFails _ \<Rightarrow> None)"

definition limit_reader :: "reader \<Rightarrow> nat \<Rightarrow> reader" where
  "limit_reader r n = (if length (rd_data r) < n then r else \<lparr>rd_data = take n (rd_data r), rd_end = EOF\<rparr>)"

section \<open>Configuration (config.go)\<close>

definition CredentialName :: string where "CredentialName = ''github''"
definition DefaultMaxPackBytes :: int where "DefaultMaxPackBytes = 512 * 1024 * 1024"
definition DefaultPRQuota :: int where "DefaultPRQuota = 5"
definition defaultGitBaseURL :: string where "defaultGitBaseURL = ''https://github.com''"
definition defaultAPIBaseURL :: string where "defaultAPIBaseURL = ''https://api.github.com''"
definition maxResponseBytes :: nat where "maxResponseBytes = 256 * 1024"
definition upstreamUserAgent :: string where "upstreamUserAgent = ''goronation-egress/1''"

record gw_config =
  gc_Push :: policy
  gc_Pull :: pull_policy
  gc_Credentials :: bool
  gc_GitBaseURL :: string
  gc_APIBaseURL :: string
  gc_MaxPackBytes :: int
  gc_PRQuota :: int

record handler =
  gh_push :: policy
  gh_pull :: pull_policy
  gh_gitBase :: string
  gh_apiBase :: string
  gh_maxPack :: nat
  gh_quota :: nat

datatype gw_config_err = BadPush | BadPullPush | BadTarget | NoCredentials | BadGitBase | BadAPIBase

record url =
  url_Scheme :: string
  url_Host :: string
  url_Path :: string
  url_RawQuery :: string
  url_Fragment :: string

definition checkPolicy :: "policy \<Rightarrow> bool" where
  "checkPolicy p \<longleftrightarrow> \<not> failed (NewPolicy (pol_Repo p) (pol_Session p))"

text \<open>\<open>parse\<close> is \<open>url.Parse\<close>.\<close>

definition checkBaseURL :: "(string \<Rightarrow> url option) \<Rightarrow> string \<Rightarrow> string \<Rightarrow> string option" where
  "checkBaseURL parse u0 def =
     (let u = (if u0 = [] then def else u0) in
      case parse u of
        None \<Rightarrow> None
      | Some p \<Rightarrow>
          if (url_Scheme p \<noteq> ''http'' \<and> url_Scheme p \<noteq> ''https'') \<or> url_Host p = [] \<or> url_Path p \<noteq> [] \<or>
            url_RawQuery p \<noteq> [] \<or> url_Fragment p \<noteq> [] then None
          else Some u)"

definition New_gateway :: "(string \<Rightarrow> url option) \<Rightarrow> gw_config \<Rightarrow> gw_config_err + handler" where
  "New_gateway parse cfg =
     (if \<not> checkPolicy (gc_Push cfg) then Inl BadPush
      else if \<not> checkPolicy (pp_Push (gc_Pull cfg)) then Inl BadPullPush
      else if \<exists>t\<in>set (pp_Targets (gc_Pull cfg)). ParseRepo (Repo_String t) \<noteq> Inr t then Inl BadTarget
      else if \<not> gc_Credentials cfg then Inl NoCredentials
      else (case checkBaseURL parse (gc_GitBaseURL cfg) defaultGitBaseURL of
        None \<Rightarrow> Inl BadGitBase
      | Some gitBase \<Rightarrow>
          (case checkBaseURL parse (gc_APIBaseURL cfg) defaultAPIBaseURL of
             None \<Rightarrow> Inl BadAPIBase
           | Some apiBase \<Rightarrow>
               Inr \<lparr>gh_push = gc_Push cfg, gh_pull = gc_Pull cfg, gh_gitBase = gitBase, gh_apiBase = apiBase,
                 gh_maxPack = nat (if gc_MaxPackBytes cfg \<le> 0 then DefaultMaxPackBytes else gc_MaxPackBytes cfg),
                 gh_quota = NewQuota (if gc_PRQuota cfg \<le> 0 then DefaultPRQuota else gc_PRQuota cfg)\<rparr>)))"

text \<open>\<open>dialControl\<close> of client.go: the addresses the upstream client may connect to.\<close>

definition dialControl :: "addr option \<Rightarrow> bool" where
  "dialControl address = (case address of None \<Rightarrow> False | Some a \<Rightarrow> \<not> ForbiddenAddr a)"

section \<open>Status codes and rejections (handler.go, audit.go)\<close>

definition gitStatus :: "string \<Rightarrow> nat" where
  "gitStatus code =
     (if code = git_code_string CodeTooLarge then 413
      else if code = git_code_string CodeDelete \<or> code = git_code_string CodeRefNotAllowed \<or>
        code = git_code_string CodeRepoNotAllowed then 403
      else 400)"

definition pullStatus :: "string \<Rightarrow> nat" where
  "pullStatus code =
     (if code = pull_code_string PCodeTooLarge then 413
      else if code = pull_code_string PCodeRepoNotAllowed \<or> code = pull_code_string PCodeHeadNotAllowed then 403
      else if code = pull_code_string PCodeQuota then 429
      else if code = pull_code_string PCodeBadResponse then 502
      else 400)"

definition orInternal :: "string \<Rightarrow> string" where
  "orInternal code = (if code = [] then ''internal'' else code)"

definition repoString :: "repo option \<Rightarrow> string" where
  "repoString r = (case r of None \<Rightarrow> [] | Some x \<Rightarrow> Repo_String x)"

definition rejectGit :: "repo option \<Rightarrow> string \<Rightarrow> nat \<Rightarrow> string \<Rightarrow> gw_effect list" where
  "rejectGit r op status reason =
     [GAudit \<lparr>ga_Event = ''git'', ga_Repo = repoString r, ga_Op = op, ga_Ref = [], ga_Status = status, ga_Reason = reason\<rparr>,
      GError status]"

definition rejectPull :: "repo option \<Rightarrow> nat \<Rightarrow> string \<Rightarrow> gw_effect list" where
  "rejectPull r status reason =
     [GAudit \<lparr>ga_Event = ''pull'', ga_Repo = repoString r, ga_Op = [], ga_Ref = [], ga_Status = status, ga_Reason = reason\<rparr>,
      GError status]"

section \<open>Git (git.go)\<close>

definition tooLargeResponse :: "int \<Rightarrow> int \<Rightarrow> bool" where
  "tooLargeResponse cl cap \<longleftrightarrow> cl > 0 \<and> cl > cap"

definition git_headers :: "http_req \<Rightarrow> route \<Rightarrow> bool \<Rightarrow> (string \<times> string) list" where
  "git_headers r rt hasBody =
     (if hasBody \<and> Op_RequestType (rt_Op rt) \<noteq> [] then [(''Content-Type'', Op_RequestType (rt_Op rt))] else []) @
     (if rq_Header r ''Accept'' \<noteq> [] then [(''Accept'', rq_Header r ''Accept'')] else []) @
     (if rq_Header r ''Git-Protocol'' = ''version=1'' \<or> rq_Header r ''Git-Protocol'' = ''version=2''
      then [(''Git-Protocol'', rq_Header r ''Git-Protocol'')] else []) @
     [(''User-Agent'', upstreamUserAgent)]"

definition relayGit :: "handler \<Rightarrow> gw_env \<Rightarrow> http_req \<Rightarrow> route \<Rightarrow> reader option \<Rightarrow> string \<Rightarrow> gw_effect list" where
  "relayGit h env r rt body ref =
     (let op = Op_String (rt_Op rt);
          url = gh_gitBase h @ Upstream rt in
      if \<not> ge_NewRequest env url then rejectGit (Some (rt_Repo rt)) op 500 ''internal''
      else (case ge_Token env CredentialName of
        None \<Rightarrow> rejectGit (Some (rt_Repo rt)) op 502 ''credential''
      | Some tok \<Rightarrow>
          let req = \<lparr>up_Method = (if body = None then ''GET'' else ''POST''), up_URL = url,
                up_Headers = git_headers r rt (body \<noteq> None),
                up_Body = (case body of None \<Rightarrow> NoBody | Some b \<Rightarrow> BodyOf b), up_Auth = BasicAuth ''x-access-token'' tok\<rparr> in
          GUpstream req #
          (case ge_Do env req of
             Inl UpMaxBytes \<Rightarrow> rejectGit (Some (rt_Repo rt)) op (gitStatus (git_code_string CodeTooLarge)) ''pack-too-large''
           | Inl UpErr \<Rightarrow> rejectGit (Some (rt_Repo rt)) op 502 ''upstream''
           | Inr resp \<Rightarrow>
               if tooLargeResponse (rs_Length resp) (int (gh_maxPack h)) then
                 rejectGit (Some (rt_Repo rt)) op 502 ''response-too-large''
               else
                 [GReply (rs_Status resp)
                    (filter (\<lambda>(k, v). v \<noteq> []) (map (\<lambda>k. (k, rs_Header resp k)) [''Content-Type'', ''Cache-Control'', ''Vary'']))
                    (take (gh_maxPack h) (rd_data (rs_Body resp))),
                  GAudit \<lparr>ga_Event = ''git'', ga_Repo = Repo_String (rt_Repo rt), ga_Op = op, ga_Ref = ref,
                    ga_Status = rs_Status resp, ga_Reason = []\<rparr>])))"

definition serveReceivePack :: "handler \<Rightarrow> gw_env \<Rightarrow> http_req \<Rightarrow> route \<Rightarrow> gw_effect list" where
  "serveReceivePack h env r rt =
     (if rq_Header r ''Content-Encoding'' \<noteq> [] then
        rejectGit (Some (rt_Repo rt)) ''receive-pack'' 415 ''content-encoding''
      else (case ReadPush (gh_push h) (max_bytes_reader (rq_Body r) (gh_maxPack h)) \<lparr>MaxBytes = 0, MaxCommands = 0\<rparr> of
        Inl (GitIo MaxBytesError) \<Rightarrow>
          rejectGit (Some (rt_Repo rt)) ''receive-pack'' (gitStatus (git_code_string CodeTooLarge)) ''pack-too-large''
      | Inl e \<Rightarrow> rejectGit (Some (rt_Repo rt)) ''receive-pack'' (gitStatus (git_Reason e)) (orInternal (git_Reason e))
      | Inr (pu, rest) \<Rightarrow>
          let ref = (case Commands pu of [] \<Rightarrow> [] | c # _ \<Rightarrow> Old c @ '' '' @ New c @ '' '' @ Ref c) in
          relayGit h env r rt (Some (rest\<lparr>rd_data := Raw pu @ rd_data rest\<rparr>)) ref))"

definition serveGit :: "handler \<Rightarrow> gw_env \<Rightarrow> http_req \<Rightarrow> gw_effect list" where
  "serveGit h env r =
     (case AuthorizedRoute (gh_push h) (rq_Method r) (rq_URI r) of
        Inl e \<Rightarrow> rejectGit None [] (gitStatus (git_Reason e)) (orInternal (git_Reason e))
      | Inr rt \<Rightarrow>
          (case rt_Op rt of
             OpAdvertiseUpload \<Rightarrow> relayGit h env r rt None []
           | OpAdvertiseReceive \<Rightarrow> relayGit h env r rt None []
           | OpUploadPack \<Rightarrow> relayGit h env r rt (Some (max_bytes_reader (rq_Body r) (gh_maxPack h))) []
           | OpReceivePack \<Rightarrow> serveReceivePack h env r rt))"

section \<open>Pull requests (pull.go)\<close>

text \<open>\<open>defaultBranch\<close>, with the request it sends, if it gets that far.\<close>

definition defaultBranch :: "handler \<Rightarrow> gw_env \<Rightarrow> repo \<Rightarrow> gw_effect list \<times> string option" where
  "defaultBranch h env rep =
     (let url = gh_apiBase h @ RepoPath rep in
      if \<not> ge_NewRequest env url then ([], None)
      else (case ge_Token env CredentialName of
        None \<Rightarrow> ([], None)
      | Some tok \<Rightarrow>
          let req = \<lparr>up_Method = ''GET'', up_URL = url,
                up_Headers = [(''Accept'', ''application/vnd.github+json''), (''User-Agent'', upstreamUserAgent)],
                up_Body = NoBody, up_Auth = Bearer tok\<rparr> in
          ([GUpstream req],
           case ge_Do env req of
             Inl _ \<Rightarrow> None
           | Inr resp \<Rightarrow>
               if rs_Status resp \<noteq> 200 then None
               else (case read_all (limit_reader (rs_Body resp) maxResponseBytes) of
                       None \<Rightarrow> None
                     | Some b \<Rightarrow> (case DefaultBranch (ge_json env) b of Inl _ \<Rightarrow> None | Inr branch \<Rightarrow> Some branch)))))"

definition pull_audit :: "repo \<Rightarrow> nat \<Rightarrow> string \<Rightarrow> gw_effect" where
  "pull_audit rep status reason =
     GAudit \<lparr>ga_Event = ''pull'', ga_Repo = Repo_String rep, ga_Op = [], ga_Ref = [], ga_Status = status, ga_Reason = reason\<rparr>"

definition relayPull :: "handler \<Rightarrow> gw_env \<Rightarrow> repo \<Rightarrow> wire_pull \<Rightarrow> gw_effect list" where
  "relayPull h env rep wire =
     (let url = gh_apiBase h @ PullsPath rep in
      if \<not> ge_NewRequest env url then rejectPull (Some rep) 500 ''internal''
      else (case ge_Token env CredentialName of
        None \<Rightarrow> rejectPull (Some rep) 502 ''credential''
      | Some tok \<Rightarrow>
          let req = \<lparr>up_Method = ''POST'', up_URL = url,
                up_Headers = [(''Content-Type'', ''application/json''), (''Accept'', ''application/vnd.github+json''),
                  (''User-Agent'', upstreamUserAgent)],
                up_Body = BodyJSON wire, up_Auth = Bearer tok\<rparr> in
          GUpstream req #
          (case ge_Do env req of
             Inl _ \<Rightarrow> rejectPull (Some rep) 502 ''upstream''
           | Inr resp \<Rightarrow>
               (case read_all (limit_reader (rs_Body resp) maxResponseBytes) of
                  None \<Rightarrow> rejectPull (Some rep) 502 ''upstream-read''
                | Some b \<Rightarrow>
                    if rs_Status resp < 200 \<or> rs_Status resp \<ge> 300 then
                      [pull_audit rep (rs_Status resp) ''upstream-error'', GError 502]
                    else (case ParseResult (ge_json env) b rep of
                      Inl _ \<Rightarrow> [pull_audit rep (rs_Status resp) ''bad-response'', GError 502]
                    | Inr result \<Rightarrow>
                        [pull_audit rep 201 (if res_Draft result then [] else ''not-draft''),
                         GCreated (res_Number result) (res_URL result)])))))"

definition takeAndRelay :: "handler \<Rightarrow> gw_env \<Rightarrow> repo \<Rightarrow> pull \<Rightarrow> handler \<times> gw_effect list" where
  "takeAndRelay h env rep p =
     (case Quota_Take (gh_quota h) of
        Inl e \<Rightarrow> (h, rejectPull (Some rep) (pullStatus (pull_code_string e)) (orInternal (pull_code_string e)))
      | Inr left \<Rightarrow>
          let h' = h\<lparr>gh_quota := left\<rparr> in
          (case Pull_JSON p of
             None \<Rightarrow> (h', rejectPull (Some rep) 500 ''internal'')
           | Some wire \<Rightarrow> (h', relayPull h' env (pl_Repo p) wire)))"

definition servePull :: "handler \<Rightarrow> gw_env \<Rightarrow> http_req \<Rightarrow> handler \<times> gw_effect list" where
  "servePull h env r =
     (case ParsePullRoute (rq_Method r) (rq_URI r) of
        Inl e \<Rightarrow> (h, rejectPull None (pullStatus (pull_code_string e)) (orInternal (pull_code_string e)))
      | Inr rep \<Rightarrow>
          (case read_all (max_bytes_reader (rq_Body r) MaxRequestBytes) of
             None \<Rightarrow> (h, rejectPull (Some rep) (pullStatus (pull_code_string PCodeTooLarge)) ''too-large'')
           | Some body \<Rightarrow>
               (case ParsePull (ge_text env) (ge_json env) (gh_pull h) rep body of
                  Inl e \<Rightarrow> (h, rejectPull (Some rep) (pullStatus (pull_code_string e)) (orInternal (pull_code_string e)))
                | Inr p \<Rightarrow>
                    if pl_Base p \<noteq> [] then takeAndRelay h env rep p
                    else (case defaultBranch h env (pl_Repo p) of
                      (effs, None) \<Rightarrow> (h, effs @ rejectPull (Some rep) 502 ''default-branch'')
                    | (effs, Some branch) \<Rightarrow>
                        (case WithBase p branch of
                           Inl _ \<Rightarrow> (h, effs @ rejectPull (Some rep) 502 ''default-branch-invalid'')
                         | Inr p' \<Rightarrow>
                             (case takeAndRelay h env rep p' of (h', effs') \<Rightarrow> (h', effs @ effs')))))))"

definition ServeHTTP :: "handler \<Rightarrow> gw_env \<Rightarrow> http_req \<Rightarrow> handler \<times> gw_effect list" where
  "ServeHTTP h env r =
     (if has_prefix (rq_URI r) PathPrefix then (h, serveGit h env r)
      else if has_prefix (rq_URI r) PullPathPrefix then servePull h env r
      else (h, [GError 404]))"

text \<open>A session: requests one after the other (the quota is taken under its lock).\<close>

fun serveAll :: "handler \<Rightarrow> (gw_env \<times> http_req) list \<Rightarrow> handler \<times> gw_effect list" where
  "serveAll h [] = (h, [])"
| "serveAll h ((env, r) # rs) =
     (case ServeHTTP h env r of (h', effs) \<Rightarrow> case serveAll h' rs of (h'', effs') \<Rightarrow> (h'', effs @ effs'))"

section \<open>What may be sent upstream\<close>

definition pull_targets :: "handler \<Rightarrow> repo list" where
  "pull_targets h = (if pp_Targets (gh_pull h) = [] then [pol_Repo (pp_Push (gh_pull h))] else pp_Targets (gh_pull h))"

text \<open>The contract of the gateway: the requests it may send with a token.\<close>

inductive may_send :: "handler \<Rightarrow> string \<Rightarrow> up_req \<Rightarrow> bool" for h tok where
  send_git: "\<lbrakk>up_Method req = route_method op;
      up_URL req = gh_gitBase h @ ''/'' @ lower (Owner (pol_Repo (gh_push h))) @ ''/'' @
        lower (Name (pol_Repo (gh_push h))) @ ''.git/'' @ upstream_tail op;
      up_Body req = NoBody \<longleftrightarrow> route_method op = ''GET'';
      up_Auth req = BasicAuth ''x-access-token'' tok\<rbrakk> \<Longrightarrow> may_send h tok req"
| send_lookup: "\<lbrakk>up_Method req = ''GET''; t \<in> set (pull_targets h); up_URL req = gh_apiBase h @ RepoPath t;
      up_Body req = NoBody; up_Auth req = Bearer tok\<rbrakk> \<Longrightarrow> may_send h tok req"
| send_pull: "\<lbrakk>up_Method req = ''POST''; t \<in> set (pull_targets h); up_URL req = gh_apiBase h @ PullsPath t;
      up_Body req = BodyJSON w; w_Draft w; up_Auth req = Bearer tok\<rbrakk> \<Longrightarrow> may_send h tok req"

definition wf_handler :: "handler \<Rightarrow> bool" where
  "wf_handler h \<longleftrightarrow> checkPolicy (gh_push h) \<and> checkPolicy (pp_Push (gh_pull h))"

fun creates_pull :: "gw_effect \<Rightarrow> bool" where
  "creates_pull (GUpstream req) = (case up_Body req of BodyJSON _ \<Rightarrow> True | _ \<Rightarrow> False)"
| "creates_pull _ = False"

fun is_audit :: "gw_effect \<Rightarrow> bool" where
  "is_audit (GAudit _) = True"
| "is_audit _ = False"

fun is_response :: "gw_effect \<Rightarrow> bool" where
  "is_response (GUpstream _) = False"
| "is_response (GAudit _) = False"
| "is_response _ = True"

section \<open>Lemmas\<close>

lemma checkPolicy_New: "checkPolicy p \<Longrightarrow> NewPolicy (pol_Repo p) (pol_Session p) = Inr p"
  by (cases p) (auto simp: checkPolicy_def NewPolicy_def split: if_splits)

lemma New_gateway_Inr:
  assumes "New_gateway parse cfg = Inr h"
  shows "wf_handler h \<and> gh_push h = gc_Push cfg \<and> gh_pull h = gc_Pull cfg \<and>
    gh_quota h = nat (if gc_PRQuota cfg \<le> 0 then 5 else gc_PRQuota cfg)"
  using assms unfolding New_gateway_def
  by (auto simp: wf_handler_def NewQuota_def DefaultPRQuota_def split: if_splits option.splits)

lemma wf_handler_quota [simp]: "wf_handler (h\<lparr>gh_quota := q\<rparr>) = wf_handler h"
  by (simp add: wf_handler_def)

lemma pull_targets_quota [simp]: "pull_targets (h\<lparr>gh_quota := q\<rparr>) = pull_targets h"
  by (simp add: pull_targets_def)

lemma may_send_quota [simp]: "may_send (h\<lparr>gh_quota := q\<rparr>) tok req = may_send h tok req"
  by (simp add: may_send.simps)

subsection \<open>Git\<close>

lemma reject_effects [simp]:
  "GUpstream req \<notin> set (rejectGit rp op st reason)" "GUpstream req \<notin> set (rejectPull rp st reason)"
  "filter creates_pull (rejectGit rp op st reason) = []" "filter creates_pull (rejectPull rp st reason) = []"
  "length (filter is_audit (rejectGit rp op st reason)) = Suc 0" "length (filter is_audit (rejectPull rp st reason)) = Suc 0"
  "length (filter is_response (rejectGit rp op st reason)) = Suc 0" "length (filter is_response (rejectPull rp st reason)) = Suc 0"
  by (simp_all add: rejectGit_def rejectPull_def)

lemma relayGit_upstream:
  assumes "GUpstream req \<in> set (relayGit h env r rt body ref)"
  shows "\<exists>tok. ge_Token env CredentialName = Some tok \<and>
    up_Method req = (if body = None then ''GET'' else ''POST'') \<and> up_URL req = gh_gitBase h @ Upstream rt \<and>
    up_Body req = (case body of None \<Rightarrow> NoBody | Some b \<Rightarrow> BodyOf b) \<and> up_Auth req = BasicAuth ''x-access-token'' tok"
  using assms unfolding relayGit_def
  by (auto simp: Let_def split: if_splits option.splits sum.splits up_err.splits)

lemma serveReceivePack_upstream:
  assumes "GUpstream req \<in> set (serveReceivePack h env r rt)"
  shows "\<exists>pu rest ref. ReadPush (gh_push h) (max_bytes_reader (rq_Body r) (gh_maxPack h)) \<lparr>MaxBytes = 0, MaxCommands = 0\<rparr> = Inr (pu, rest) \<and>
    GUpstream req \<in> set (relayGit h env r rt (Some (rest\<lparr>rd_data := Raw pu @ rd_data rest\<rparr>)) ref)"
  using assms unfolding serveReceivePack_def
  by (auto simp: Let_def split: if_splits sum.splits git_err.splits io_err.splits)

definition git_body :: "handler \<Rightarrow> http_req \<Rightarrow> op \<Rightarrow> reader option \<Rightarrow> bool" where
  "git_body h r op body \<longleftrightarrow> (case op of
       OpUploadPack \<Rightarrow> body = Some (max_bytes_reader (rq_Body r) (gh_maxPack h))
     | OpReceivePack \<Rightarrow> \<exists>pu rest. ReadPush (gh_push h) (max_bytes_reader (rq_Body r) (gh_maxPack h)) \<lparr>MaxBytes = 0, MaxCommands = 0\<rparr> = Inr (pu, rest) \<and>
         body = Some (rest\<lparr>rd_data := Raw pu @ rd_data rest\<rparr>)
     | _ \<Rightarrow> body = None)"

lemma serveGit_upstream:
  assumes "GUpstream req \<in> set (serveGit h env r)"
  shows "\<exists>rt body ref. AuthorizedRoute (gh_push h) (rq_Method r) (rq_URI r) = Inr rt \<and>
    GUpstream req \<in> set (relayGit h env r rt body ref) \<and> git_body h r (rt_Op rt) body"
proof -
  from assms obtain rt where rt: "AuthorizedRoute (gh_push h) (rq_Method r) (rq_URI r) = Inr rt"
    unfolding serveGit_def by (auto split: sum.splits)
  have "\<exists>body ref. GUpstream req \<in> set (relayGit h env r rt body ref) \<and> git_body h r (rt_Op rt) body"
  proof (cases "rt_Op rt")
    case OpReceivePack
    then have "GUpstream req \<in> set (serveReceivePack h env r rt)" using assms by (simp add: serveGit_def rt)
    from serveReceivePack_upstream [OF this] show ?thesis by (auto simp: OpReceivePack git_body_def)
  qed (use assms in \<open>auto simp: serveGit_def rt git_body_def\<close>)
  with rt show ?thesis by blast
qed

lemma git_body_method: "git_body h r op body \<Longrightarrow> body = None \<longleftrightarrow> route_method op = ''GET''"
  by (cases op) (auto simp: git_body_def)

lemma route_method_cases: "route_method op = (if route_method op = ''GET'' then ''GET'' else ''POST'')"
  by (cases op) simp_all

lemma serveGit_may_send:
  assumes "wf_handler h" and "GUpstream req \<in> set (serveGit h env r)"
  shows "\<exists>tok. ge_Token env CredentialName = Some tok \<and> may_send h tok req"
proof -
  from serveGit_upstream [OF assms(2)] obtain rt body ref where rt: "AuthorizedRoute (gh_push h) (rq_Method r) (rq_URI r) = Inr rt"
    and rel: "GUpstream req \<in> set (relayGit h env r rt body ref)" and b: "git_body h r (rt_Op rt) body" by blast
  from relayGit_upstream [OF rel] obtain tok where tok: "ge_Token env CredentialName = Some tok"
    and req: "up_Method req = (if body = None then ''GET'' else ''POST'')" "up_URL req = gh_gitBase h @ Upstream rt"
      "up_Body req = (case body of None \<Rightarrow> NoBody | Some b \<Rightarrow> BodyOf b)" "up_Auth req = BasicAuth ''x-access-token'' tok" by blast
  have "checkPolicy (gh_push h)" using assms(1) by (simp add: wf_handler_def)
  from AuthorizedRoute_upstream [OF checkPolicy_New [OF this] rt]
  have "may_send h tok req"
    using req git_body_method [OF b] route_method_cases [of "rt_Op rt"]
    by (intro send_git [of req "rt_Op rt"]) (auto split: option.splits)
  with tok show ?thesis by blast
qed

subsection \<open>Pull requests\<close>

lemma pull_target_targets: "pull_target (gh_pull h) rp = Some t \<Longrightarrow> t \<in> set (pull_targets h)"
  by (auto simp: pull_target_def pull_targets_def find_Some_iff Let_def)

lemma defaultBranch_upstream:
  assumes "defaultBranch h env t = (effs, b)" and "GUpstream req \<in> set effs" and "t \<in> set (pull_targets h)"
  shows "\<exists>tok. ge_Token env CredentialName = Some tok \<and> may_send h tok req \<and> (\<forall>b. up_Body req \<noteq> BodyOf b)"
  using assms unfolding defaultBranch_def
  by (auto simp: Let_def split: if_splits option.splits intro: send_lookup)

lemma defaultBranch_filter:
  assumes "defaultBranch h env t = (effs, b)"
  shows "filter creates_pull effs = [] \<and> filter is_audit effs = [] \<and> filter is_response effs = []"
  using assms unfolding defaultBranch_def by (auto simp: Let_def split: if_splits option.splits)

lemma relayPull_upstream:
  assumes "GUpstream req \<in> set (relayPull h env t w)" and "t \<in> set (pull_targets h)" and "w_Draft w"
  shows "\<exists>tok. ge_Token env CredentialName = Some tok \<and> may_send h tok req \<and> (\<forall>b. up_Body req \<noteq> BodyOf b)"
  using assms unfolding relayPull_def
  by (auto simp: Let_def pull_audit_def split: if_splits option.splits sum.splits intro: send_pull)

lemma relayPull_filter:
  "length (filter creates_pull (relayPull h env t w)) \<le> Suc 0 \<and> length (filter is_audit (relayPull h env t w)) = Suc 0 \<and>
   length (filter is_response (relayPull h env t w)) = Suc 0"
  unfolding relayPull_def
  by (auto simp: Let_def pull_audit_def split: option.splits sum.splits)

lemma takeAndRelay_upstream:
  assumes "takeAndRelay h env rp p = (h', effs)" and "GUpstream req \<in> set effs" and "pl_Repo p \<in> set (pull_targets h)"
  shows "\<exists>tok. ge_Token env CredentialName = Some tok \<and> may_send h tok req \<and> (\<forall>b. up_Body req \<noteq> BodyOf b)"
proof -
  from assms(1,2) obtain q w where "Pull_JSON p = Some w"
    and rel: "GUpstream req \<in> set (relayPull (h\<lparr>gh_quota := q\<rparr>) env (pl_Repo p) w)"
    unfolding takeAndRelay_def by (auto simp: Let_def split: sum.splits option.splits)
  then have "w_Draft w" by (auto simp: Pull_JSON_def split: if_splits)
  then show ?thesis using relayPull_upstream [OF rel] assms(3) by simp
qed

lemma takeAndRelay_quota:
  assumes "takeAndRelay h env rp p = (h', effs)"
  shows "h' = h\<lparr>gh_quota := gh_quota h'\<rparr> \<and> length (filter creates_pull effs) + gh_quota h' \<le> gh_quota h \<and>
    length (filter is_audit effs) = Suc 0 \<and> length (filter is_response effs) = Suc 0"
proof (cases "gh_quota h = 0 \<or> Pull_JSON p = None")
  case True
  then show ?thesis
    using assms by (auto simp: takeAndRelay_def Quota_Take_def split: if_splits)
next
  case False
  then obtain w where w: "Pull_JSON p = Some w" "0 < gh_quota h" by auto
  then show ?thesis
    using assms relayPull_filter [of "h\<lparr>gh_quota := gh_quota h - 1\<rparr>" env "pl_Repo p" w]
    by (auto simp: takeAndRelay_def Quota_Take_def Let_def)
qed

text \<open>A pull request is rejected before the quota is touched, or takes from the quota and is relayed; either may
  come after the lookup of the default branch.\<close>

lemma servePull_cases:
  assumes s: "servePull h env r = (h', effs)"
  obtains (rejected) rp st reason effs0 where "h' = h" "effs = effs0 @ rejectPull rp st reason"
      "effs0 = [] \<or> (\<exists>t b. t \<in> set (pull_targets h) \<and> defaultBranch h env t = (effs0, b))"
  | (relayed) rp p effs0 effs1 where "takeAndRelay h env rp p = (h', effs1)" "effs = effs0 @ effs1" "pl_Repo p \<in> set (pull_targets h)"
      "effs0 = [] \<or> (\<exists>b. defaultBranch h env (pl_Repo p) = (effs0, b))"
proof (cases "\<exists>rep body p. ParsePullRoute (rq_Method r) (rq_URI r) = Inr rep \<and>
    read_all (max_bytes_reader (rq_Body r) MaxRequestBytes) = Some body \<and>
    ParsePull (ge_text env) (ge_json env) (gh_pull h) rep body = Inr p")
  case False
  then have "\<exists>rp st reason. h' = h \<and> effs = rejectPull rp st reason"
    using s unfolding servePull_def by (auto split: sum.splits option.splits)
  then show ?thesis using rejected [of "[]"] by auto
next
  case True
  then obtain rep body p where pr: "ParsePullRoute (rq_Method r) (rq_URI r) = Inr rep"
    "read_all (max_bytes_reader (rq_Body r) MaxRequestBytes) = Some body"
    "ParsePull (ge_text env) (ge_json env) (gh_pull h) rep body = Inr p" by blast
  then have t: "pl_Repo p \<in> set (pull_targets h)"
    using ParsePull_fields [OF pr(3)] pull_target_targets by blast
  show ?thesis
  proof (cases "pl_Base p = []")
    case False
    then have "takeAndRelay h env rep p = (h', effs)" using s by (simp add: servePull_def pr)
    from relayed [OF this, of "[]"] t show ?thesis by simp
  next
    case True
    obtain effs0 b where d: "defaultBranch h env (pl_Repo p) = (effs0, b)" by fastforce
    show ?thesis
    proof (cases "\<exists>branch p'. b = Some branch \<and> WithBase p branch = Inr p'")
      case True
      then obtain branch p' where w: "b = Some branch" "WithBase p branch = Inr p'" by blast
      then have "pl_Repo p' = pl_Repo p" by (auto simp: WithBase_def split: if_splits)
      moreover obtain h1 effs1 where tk: "takeAndRelay h env rep p' = (h1, effs1)" by fastforce
      moreover have "h' = h1 \<and> effs = effs0 @ effs1" using s \<open>pl_Base p = []\<close> by (simp add: servePull_def pr d w tk)
      ultimately show ?thesis using relayed [of rep p' effs1 effs0] t d by auto
    next
      case False
      then have "\<exists>rp st reason. h' = h \<and> effs = effs0 @ rejectPull rp st reason"
        using s \<open>pl_Base p = []\<close> by (auto simp: servePull_def pr d split: option.splits sum.splits)
      then show ?thesis using rejected [of effs0] t d by blast
    qed
  qed
qed

lemma servePull_may_send:
  assumes "servePull h env r = (h', effs)" and "GUpstream req \<in> set effs"
  shows "\<exists>tok. ge_Token env CredentialName = Some tok \<and> may_send h tok req \<and> (\<forall>b. up_Body req \<noteq> BodyOf b)"
  using assms(1)
proof (cases rule: servePull_cases)
  case rejected
  then show ?thesis using assms(2) defaultBranch_upstream by fastforce
next
  case relayed
  then show ?thesis using assms(2) defaultBranch_upstream takeAndRelay_upstream by fastforce
qed

lemma servePull_quota:
  assumes "servePull h env r = (h', effs)"
  shows "h' = h\<lparr>gh_quota := gh_quota h'\<rparr> \<and> length (filter creates_pull effs) + gh_quota h' \<le> gh_quota h \<and>
    length (filter is_audit effs) = Suc 0 \<and> length (filter is_response effs) = Suc 0"
  using assms
proof (cases rule: servePull_cases)
  case (rejected rp st reason effs0)
  then have "filter creates_pull effs0 = [] \<and> filter is_audit effs0 = [] \<and> filter is_response effs0 = []"
    using defaultBranch_filter by auto
  with rejected show ?thesis by simp
next
  case (relayed rp p effs0 effs1)
  then have "filter creates_pull effs0 = [] \<and> filter is_audit effs0 = [] \<and> filter is_response effs0 = []"
    using defaultBranch_filter by auto
  with relayed takeAndRelay_quota [OF relayed(1)] show ?thesis by simp
qed

text \<open>Git never creates pull requests, and answers and audits once.\<close>

definition answers_once :: "gw_effect list \<Rightarrow> bool" where
  "answers_once effs \<longleftrightarrow> filter creates_pull effs = [] \<and> length (filter is_audit effs) = Suc 0 \<and>
     length (filter is_response effs) = Suc 0"

lemma answers_once_simps [simp]:
  "answers_once (rejectGit rp op st reason)" "answers_once [GReply st hs b, GAudit a]"
  "answers_once (GUpstream req # effs) \<longleftrightarrow> \<not> creates_pull (GUpstream req) \<and> answers_once effs"
  by (simp_all add: answers_once_def)

lemma relayGit_once: "answers_once (relayGit h env r rt body ref)"
  unfolding relayGit_def by (simp add: Let_def split: option.split sum.split up_err.split)

lemma serveReceivePack_once: "answers_once (serveReceivePack h env r rt)"
  unfolding serveReceivePack_def by (simp add: Let_def relayGit_once split: sum.split git_err.split io_err.split prod.split)

lemma serveGit_once: "answers_once (serveGit h env r)"
  unfolding serveGit_def by (simp add: relayGit_once serveReceivePack_once split: sum.split op.split)

lemma ServeHTTP_step:
  assumes "ServeHTTP h env r = (h', effs)"
  shows "h' = h\<lparr>gh_quota := gh_quota h'\<rparr> \<and> length (filter creates_pull effs) + gh_quota h' \<le> gh_quota h \<and>
    length (filter is_response effs) = Suc 0 \<and>
    length (filter is_audit effs) = (if has_prefix (rq_URI r) PathPrefix \<or> has_prefix (rq_URI r) PullPathPrefix then 1 else 0)"
  using assms servePull_quota [of h env r h' effs] serveGit_once [of h env r]
  by (auto simp: ServeHTTP_def answers_once_def split: if_splits)

lemma ServeHTTP_may_send:
  assumes "wf_handler h" and "ServeHTTP h env r = (h', effs)" and "GUpstream req \<in> set effs"
  shows "\<exists>tok. ge_Token env CredentialName = Some tok \<and> may_send h tok req"
  using assms serveGit_may_send [of h req env r] servePull_may_send [of h env r h' effs req]
  by (auto simp: ServeHTTP_def split: if_splits)

lemma serveAll_may_send:
  assumes "wf_handler h" and "serveAll h rs = (h', effs)" and "GUpstream req \<in> set effs"
  shows "\<exists>env r tok. (env, r) \<in> set rs \<and> ge_Token env CredentialName = Some tok \<and> may_send h tok req"
  using assms
proof (induction rs arbitrary: h effs)
  case Nil
  then show ?case by simp
next
  case (Cons er rs)
  obtain env r where er: "er = (env, r)" by fastforce
  obtain h1 e1 where s: "ServeHTTP h env r = (h1, e1)" by fastforce
  obtain e2 where a: "serveAll h1 rs = (h', e2)" and effs: "effs = e1 @ e2"
    using Cons.prems(2) by (auto simp: er s split: prod.splits)
  have h1: "h1 = h\<lparr>gh_quota := gh_quota h1\<rparr>" using ServeHTTP_step [OF s] by blast
  with Cons.prems(1) have wf: "wf_handler h1" by (metis wf_handler_quota)
  have "GUpstream req \<in> set e1 \<or> GUpstream req \<in> set e2" using Cons.prems(3) by (simp add: effs)
  then show ?case
  proof
    assume "GUpstream req \<in> set e1"
    from ServeHTTP_may_send [OF Cons.prems(1) s this] show ?thesis by (auto simp: er)
  next
    assume "GUpstream req \<in> set e2"
    from Cons.IH [OF wf a this] show ?thesis using h1 may_send_quota by (metis list.set_intros(2))
  qed
qed

lemma serveAll_quota:
  assumes "serveAll h rs = (h', effs)"
  shows "length (filter creates_pull effs) + gh_quota h' \<le> gh_quota h"
  using assms
proof (induction rs arbitrary: h effs)
  case Nil
  then show ?case by simp
next
  case (Cons er rs)
  obtain env r where er: "er = (env, r)" by fastforce
  obtain h1 e1 where s: "ServeHTTP h env r = (h1, e1)" by fastforce
  obtain e2 where a: "serveAll h1 rs = (h', e2)" and effs: "effs = e1 @ e2"
    using Cons.prems by (auto simp: er s split: prod.splits)
  show ?case using Cons.IH [OF a] ServeHTTP_step [OF s] by (simp add: effs)
qed

lemma max_bytes_reader_data:
  "\<exists>n. rd_data (max_bytes_reader r k) = take n (rd_data r)" "length (rd_data (max_bytes_reader r k)) \<le> k"
  by (auto simp: max_bytes_reader_def intro: exI [of _ "length (rd_data r)"] exI [of _ k])

lemma ServeHTTP_raw_body:
  assumes "ServeHTTP h env r = (h', effs)" and "GUpstream req \<in> set effs" and "up_Body req = BodyOf b"
  shows "GUpstream req \<in> set (serveGit h env r)"
  using assms servePull_may_send [of h env r h' effs req] by (auto simp: ServeHTTP_def split: if_splits)

lemma ReadPush_end: "ReadPush p r lim = Inr (pu, r') \<Longrightarrow> r = r'\<lparr>rd_data := Raw pu @ rd_data r'\<rparr>"
  using ParseCommands_sound [of r lim pu r'] by (simp add: ReadPush_Inr_iff)

section \<open>Properties\<close>

text \<open>
  C2: A session of requests, in any order and with any answers of the upstream, makes the gateway
  send only what its contract allows, with the token of its one credential: the four git endpoints
  of the policy's repository, the lookup of an allowed target's repository, and the creation of
  draft pull requests there.
\<close>

theorem gateway_confined:
  assumes "New_gateway parse cfg = Inr h" and "serveAll h rs = (h', effs)" and "GUpstream req \<in> set effs"
  shows "gh_push h = gc_Push cfg \<and> gh_pull h = gc_Pull cfg \<and>
    (\<exists>env r tok. (env, r) \<in> set rs \<and> ge_Token env ''github'' = Some tok \<and> may_send h tok req)"
  using serveAll_may_send [OF _ assms(2,3)] New_gateway_Inr [OF assms(1)] by (simp add: CredentialName_def)

text \<open>
  C3: A body that reaches the upstream unparsed is the client's own body up to the limit, and goes
  to the fetch endpoint, or is a push whose every command writes a reference of the session's
  namespace and deletes nothing.
\<close>

theorem gateway_push_checked:
  assumes "New_gateway parse cfg = Inr h" and "ServeHTTP (h\<lparr>gh_quota := q\<rparr>) env r = (h', effs)"
    and "GUpstream req \<in> set effs" and "up_Body req = BodyOf b"
  shows "b = max_bytes_reader (rq_Body r) (gh_maxPack h) \<and>
    (\<exists>base. up_URL req = base @ ''.git/git-upload-pack'' \<or>
       up_URL req = base @ ''.git/git-receive-pack'' \<and>
       (\<exists>cmds caps pack. rd_data b = encode_cmds True cmds caps @ pack \<and>
          (\<forall>c\<in>set cmds. New c \<noteq> zeroOID \<and>
            (\<exists>segs. segs \<noteq> [] \<and> list_all validSegment segs \<and>
               Ref c = ''refs/heads/goronation/'' @ pol_Session (gc_Push cfg) @ ''/'' @ join ''/'' segs))))"
proof -
  let ?h = "h\<lparr>gh_quota := q\<rparr>" and ?lim = "\<lparr>MaxBytes = 0, MaxCommands = 0\<rparr>"
  let ?in = "max_bytes_reader (rq_Body r) (gh_maxPack h)"
  note cfg = New_gateway_Inr [OF assms(1)]
  from serveGit_upstream [OF ServeHTTP_raw_body [OF assms(2-4)]] obtain rt body ref
    where rel: "GUpstream req \<in> set (relayGit ?h env r rt body ref)" and gb: "git_body ?h r (rt_Op rt) body" by blast
  from relayGit_upstream [OF rel] assms(4) have body: "body = Some b" and url: "up_URL req = gh_gitBase h @ Upstream rt"
    by (auto split: option.splits)
  show ?thesis
  proof (cases "rt_Op rt")
    case OpReceivePack
    with gb body obtain pu rest where push: "ReadPush (gh_push h) ?in ?lim = Inr (pu, rest)"
      and b: "b = rest\<lparr>rd_data := Raw pu @ rd_data rest\<rparr>" by (auto simp: git_body_def)
    have "NewPolicy (pol_Repo (gh_push h)) (pol_Session (gh_push h)) = Inr (gh_push h)"
      using cfg unfolding wf_handler_def by (blast intro: checkPolicy_New)
    from ReadPush_sound [OF this push] cfg b ReadPush_end [OF push] OpReceivePack
    show ?thesis by (auto simp: url Upstream_def)
  qed (use gb body url in \<open>auto simp: git_body_def Upstream_def\<close>)
qed

text \<open>
  Over a session the gateway asks the upstream for at most as many pull requests as its quota
  (five unless configured), whatever the upstream answers.
\<close>

theorem gateway_quota:
  assumes "New_gateway parse cfg = Inr h" and "serveAll h rs = (h', effs)"
  shows "int (length (filter creates_pull effs)) \<le> (if gc_PRQuota cfg \<le> 0 then 5 else gc_PRQuota cfg)"
  using serveAll_quota [OF assms(2)] New_gateway_Inr [OF assms(1)] by (auto split: if_splits)

text \<open>
  C34: Every request gets exactly one response, and every request below the two prefixes leaves
  exactly one audit record; a request outside them leaves none and is answered 404 without any
  request upstream.
\<close>

theorem gateway_one_response:
  "length (filter is_response (snd (ServeHTTP h env r))) = 1 \<and>
   (if has_prefix (rq_URI r) PathPrefix \<or> has_prefix (rq_URI r) PullPathPrefix
    then length (filter is_audit (snd (ServeHTTP h env r))) = 1
    else ServeHTTP h env r = (h, [GError 404]))"
  using ServeHTTP_step [of h env r "fst (ServeHTTP h env r)" "snd (ServeHTTP h env r)"] by (simp add: ServeHTTP_def)

text \<open>An exhausted quota does not stop the lookup of the default branch: the quota is taken behind it.\<close>

lemma lookup_ignores_quota:
  assumes "ParsePullRoute (rq_Method r) (rq_URI r) = Inr rep" and "read_all (max_bytes_reader (rq_Body r) MaxRequestBytes) = Some body"
    and "ParsePull (ge_text env) (ge_json env) (gh_pull h) rep body = Inr p" and "pl_Base p = []"
    and "ge_NewRequest env (gh_apiBase h @ RepoPath (pl_Repo p))" and "ge_Token env CredentialName = Some tok" and "gh_quota h = 0"
  shows "\<exists>req. GUpstream req \<in> set (snd (servePull h env r))"
  using assms
  by (auto simp: servePull_def defaultBranch_def Let_def split: option.splits sum.splits prod.splits)

section \<open>Witnesses\<close>

definition example_url :: "string \<Rightarrow> url option" where
  "example_url u = Some \<lparr>url_Scheme = ''https'', url_Host = drop 8 u, url_Path = [], url_RawQuery = [], url_Fragment = []\<rparr>"

definition example_gw_config :: gw_config where
  "example_gw_config = \<lparr>gc_Push = example_policy, gc_Pull = example_pull_policy, gc_Credentials = True, gc_GitBaseURL = [],
     gc_APIBaseURL = [], gc_MaxPackBytes = 0, gc_PRQuota = 0\<rparr>"

definition example_handler :: handler where
  "example_handler = \<lparr>gh_push = example_policy, gh_pull = example_pull_policy, gh_gitBase = ''https://github.com'',
     gh_apiBase = ''https://api.github.com'', gh_maxPack = 536870912, gh_quota = 5\<rparr>"

lemma example_New_gateway: "New_gateway example_url example_gw_config = Inr example_handler"
  using example_policy_New
  by (simp add: New_gateway_def example_gw_config_def example_handler_def example_url_def checkBaseURL_def checkPolicy_def
      example_pull_policy_def example_policy_def defaultGitBaseURL_def defaultAPIBaseURL_def DefaultMaxPackBytes_def
      DefaultPRQuota_def NewQuota_def)

definition example_gw_env :: gw_env where
  "example_gw_env = \<lparr>ge_Token = (\<lambda>n. if n = CredentialName then Some ''ghs'' else None), ge_NewRequest = (\<lambda>_. True),
     ge_Do = (\<lambda>_. Inl UpErr), ge_json = example_json, ge_text = example_text\<rparr>"

definition example_push_req :: http_req where
  "example_push_req = \<lparr>rq_Method = ''POST'', rq_URI = ''/git/github.com/nananek/goronation.git/git-receive-pack'',
     rq_Header = (\<lambda>_. []), rq_Body = \<lparr>rd_data = Raw example_push @ ''PACK'', rd_end = EOF\<rparr>\<rparr>"

definition example_up_req :: up_req where
  "example_up_req = \<lparr>up_Method = ''POST'', up_URL = ''https://github.com/nananek/goronation.git/git-receive-pack'',
     up_Headers = [(''Content-Type'', ''application/x-git-receive-pack-request''), (''User-Agent'', upstreamUserAgent)],
     up_Body = BodyOf (rq_Body example_push_req), up_Auth = BasicAuth ''x-access-token'' ''ghs''\<rparr>"

lemma example_route:
  "AuthorizedRoute example_policy ''POST'' ''/git/github.com/nananek/goronation.git/git-receive-pack'' =
     Inr \<lparr>rt_Repo = pol_Repo example_policy, rt_Op = OpReceivePack\<rparr>"
  "has_prefix ''/git/github.com/nananek/goronation.git/git-receive-pack'' PathPrefix"
  "Upstream \<lparr>rt_Repo = pol_Repo example_policy, rt_Op = OpReceivePack\<rparr> = ''/nananek/goronation.git/git-receive-pack''"
  by code_simp+

lemma example_body: "max_bytes_reader (rq_Body example_push_req) 536870912 = rq_Body example_push_req"
  by (simp add: max_bytes_reader_def example_push_req_def example_Raw)

lemma example_ServeHTTP:
  "ServeHTTP example_handler example_gw_env example_push_req =
     (example_handler, GUpstream example_up_req # rejectGit (Some (pol_Repo example_policy)) ''receive-pack'' 502 ''upstream'')"
proof -
  have p: "ReadPush example_policy (rq_Body example_push_req) \<lparr>MaxBytes = 0, MaxCommands = 0\<rparr> =
      Inr (example_push, \<lparr>rd_data = ''PACK'', rd_end = EOF\<rparr>)"
    using example_ReadPush by (simp add: example_push_req_def)
  have h: "gh_push example_handler = example_policy" "gh_maxPack example_handler = 536870912"
    "gh_gitBase example_handler = ''https://github.com''" by (simp_all add: example_handler_def)
  have r: "rq_Method example_push_req = ''POST''" "rq_Header example_push_req k = []"
    "rq_URI example_push_req = ''/git/github.com/nananek/goronation.git/git-receive-pack''"
    "rq_Body example_push_req = \<lparr>rd_data = Raw example_push @ ''PACK'', rd_end = EOF\<rparr>" for k
    by (simp_all add: example_push_req_def)
  show ?thesis
    unfolding ServeHTTP_def serveGit_def serveReceivePack_def relayGit_def
    by (simp add: h r(1-3) example_route example_body p Let_def git_headers_def example_up_req_def example_gw_env_def)
      (simp add: r)
qed

theorem gateway_confined_witness:
  "may_send example_handler ''ghs'' example_up_req"
  using gateway_confined [OF example_New_gateway, of "[(example_gw_env, example_push_req)]" example_handler _ example_up_req]
  by (simp add: example_ServeHTTP) (auto simp: example_gw_env_def CredentialName_def)

theorem gateway_push_checked_witness:
  "\<exists>base. up_URL example_up_req = base @ ''.git/git-upload-pack'' \<or> up_URL example_up_req = base @ ''.git/git-receive-pack''"
proof -
  have q: "example_handler\<lparr>gh_quota := 5\<rparr> = example_handler" by (simp add: example_handler_def)
  have s: "ServeHTTP (example_handler\<lparr>gh_quota := 5\<rparr>) example_gw_env example_push_req =
     (example_handler, GUpstream example_up_req # rejectGit (Some (pol_Repo example_policy)) ''receive-pack'' 502 ''upstream'')"
    unfolding q by (rule example_ServeHTTP)
  have "up_Body example_up_req = BodyOf (rq_Body example_push_req)" by (simp add: example_up_req_def)
  from gateway_push_checked [OF example_New_gateway s _ this] show ?thesis by auto
qed

theorem gateway_quota_witness:
  "int (length (filter creates_pull (snd (serveAll example_handler [(example_gw_env, example_push_req)])))) \<le> 5"
  using gateway_quota [OF example_New_gateway, of "[(example_gw_env, example_push_req)]" "fst (serveAll example_handler [(example_gw_env, example_push_req)])"
      "snd (serveAll example_handler [(example_gw_env, example_push_req)])"]
  by (simp add: example_gw_config_def)

end
