(* ===== verification/Go_Utf8.thy ===== *)
theory Go_Utf8
  imports Go_Prelude
begin

text \<open>
  Package unicode/utf8 and the \<open>range\<close> loop over a string: the runes of a byte string, where a byte
  that starts no valid sequence is read as U+FFFD of width one, and the validity of a byte string.
\<close>

definition cont_byte :: "char \<Rightarrow> bool" where
  "cont_byte c \<longleftrightarrow> 0x80 \<le> byte c \<and> byte c \<le> 0xBF"

definition second_ok :: "nat \<Rightarrow> char \<Rightarrow> bool" where
  "second_ok b0 c \<longleftrightarrow>
     (if b0 = 0xE0 then 0xA0 \<le> byte c \<and> byte c \<le> 0xBF
      else if b0 = 0xED then 0x80 \<le> byte c \<and> byte c \<le> 0x9F
      else if b0 = 0xF0 then 0x90 \<le> byte c \<and> byte c \<le> 0xBF
      else if b0 = 0xF4 then 0x80 \<le> byte c \<and> byte c \<le> 0x8F
      else cont_byte c)"

text \<open>The valid sequence at the start of a string: its rune and its width.\<close>

definition utf8_first :: "string \<Rightarrow> (nat \<times> nat) option" where
  "utf8_first s =
     (case s of
        [] \<Rightarrow> None
      | a # s1 \<Rightarrow>
          let b0 = byte a in
          if b0 < 0x80 then Some (b0, 1)
          else if 0xC2 \<le> b0 \<and> b0 \<le> 0xDF then
            (case s1 of b # _ \<Rightarrow> if second_ok b0 b then Some ((b0 - 0xC0) * 64 + (byte b - 0x80), 2) else None | [] \<Rightarrow> None)
          else if 0xE0 \<le> b0 \<and> b0 \<le> 0xEF then
            (case s1 of
               b # c # _ \<Rightarrow>
                 if second_ok b0 b \<and> cont_byte c
                 then Some ((b0 - 0xE0) * 4096 + (byte b - 0x80) * 64 + (byte c - 0x80), 3) else None
             | _ \<Rightarrow> None)
          else if 0xF0 \<le> b0 \<and> b0 \<le> 0xF4 then
            (case s1 of
               b # c # d # _ \<Rightarrow>
                 if second_ok b0 b \<and> cont_byte c \<and> cont_byte d
                 then Some ((b0 - 0xF0) * 262144 + (byte b - 0x80) * 4096 + (byte c - 0x80) * 64 + (byte d - 0x80), 4) else None
             | _ \<Rightarrow> None)
          else None)"

lemma utf8_first_width: "utf8_first s = Some (r, w) \<Longrightarrow> 0 < w"
  by (auto simp: utf8_first_def Let_def split: list.splits if_splits)

lemma utf8_first_shorter: "utf8_first s = Some (r, w) \<Longrightarrow> length s - w < length s"
  using utf8_first_width [of s r w] by (cases s) (simp_all add: utf8_first_def)

function utf8_runes :: "string \<Rightarrow> nat list" where
  "utf8_runes s =
     (if s = [] then []
      else (case utf8_first s of None \<Rightarrow> 0xFFFD # utf8_runes (drop 1 s) | Some (r, w) \<Rightarrow> r # utf8_runes (drop w s)))"
  by pat_completeness auto
termination
  by (relation "measure length") (auto dest: utf8_first_shorter)

function utf8_valid :: "string \<Rightarrow> bool" where
  "utf8_valid s \<longleftrightarrow>
     s = [] \<or> (case utf8_first s of None \<Rightarrow> False | Some (r, w) \<Rightarrow> utf8_valid (drop w s))"
  by pat_completeness auto
termination
  by (relation "measure length") (auto dest: utf8_first_shorter)

declare utf8_runes.simps [simp del] utf8_valid.simps [simp del]

lemma utf8_runes_Nil [simp]: "utf8_runes [] = []"
  by (simp add: utf8_runes.simps)

lemma utf8_valid_Nil [simp]: "utf8_valid []"
  by (simp add: utf8_valid.simps)

lemma utf8_first_ascii: "byte a < 0x80 \<Longrightarrow> utf8_first (a # s) = Some (byte a, 1)"
  by (simp add: utf8_first_def)

lemma utf8_ascii_Cons [simp]:
  "byte a < 0x80 \<Longrightarrow> utf8_runes (a # s) = byte a # utf8_runes s"
  "byte a < 0x80 \<Longrightarrow> utf8_valid (a # s) = utf8_valid s"
  by (simp_all add: utf8_runes.simps [of "a # s"] utf8_valid.simps [of "a # s"] utf8_first_ascii)

lemma utf8_ascii: "\<forall>c\<in>set s. byte c < 0x80 \<Longrightarrow> utf8_valid s \<and> utf8_runes s = map byte s"
  by (induction s) simp_all

end
