(* ===== verification/Vault_Store.thy ===== *)
theory Vault_Store
  imports Go_Path Go_Utf8
begin

text \<open>
  What the vault stores and how (packages core/credential, core/vault, and store.go, crypto.go and
  audit.go of package vault): names of credentials, the limits of login states, the document that
  lies in vault.json, its atomic replacement, the audit log, and the encryption of body key and items.

  The directory of the vault is a record with the contents of its files and whether its lock is
  held; each system call that can fail is a field of an environment. The cryptographic primitives
  and the JSON codec are the record \<open>vault_lib\<close>.
\<close>

section \<open>Errors\<close>

datatype vault_err =
    ErrLocked | ErrNotInitialized | ErrAlreadyInitialized | ErrUnlockFailed | ErrWrapExists | ErrWrapNotFound
  | ErrLastWrap | ErrSameCredential | ErrInUse | ErrClosed | ErrFormat | ErrInvalidInput | ErrNotDurable
  | ErrVaultChanged | ErrInvalidName | ErrCredentialNotFound | ErrStateNotFound | ErrInvalidState | ErrAuth | ErrOther

section \<open>Credentials (core/credential)\<close>

text \<open>The expression \<open>^[a-z][a-z0-9-]{0,31}$\<close>.\<close>

definition nameRE :: "string \<Rightarrow> bool" where
  "nameRE s \<longleftrightarrow> (case s of [] \<Rightarrow> False | c # cs \<Rightarrow>
     is_lower c \<and> length cs \<le> 31 \<and> (\<forall>x\<in>set cs. is_lower x \<or> is_digit x \<or> x = CHR ''-''))"

definition CheckName :: "string \<Rightarrow> vault_err + unit" where
  "CheckName name = (if \<not> nameRE name then Inl ErrInvalidName else Inr ())"

text \<open>\<open>Secret\<close> holds its value behind a pointer; everything but \<open>Reveal\<close> prints the same text.\<close>

record secret =
  sec_v :: "string option"

definition New_secret :: "string \<Rightarrow> secret" where "New_secret v = \<lparr>sec_v = Some v\<rparr>"

definition Reveal :: "secret \<Rightarrow> string" where
  "Reveal s = (case sec_v s of None \<Rightarrow> [] | Some v \<Rightarrow> v)"

section \<open>Login states (core/vault)\<close>

definition MaxStateFiles :: nat where "MaxStateFiles = 8"
definition MaxStateFileSize :: nat where "MaxStateFileSize = 64 * 1024"
definition MaxStateTotalSize :: nat where "MaxStateTotalSize = 256 * 1024"
definition MaxStateNameLen :: nat where "MaxStateNameLen = 128"

record state_file =
  sf_Name :: string
  sf_Data :: string

definition checkName :: "string \<Rightarrow> vault_err + unit" where
  "checkName name =
     (if name = [] \<or> length name > MaxStateNameLen then Inl ErrInvalidState
      else if \<not> utf8_valid name then Inl ErrInvalidState
      else if name = ''.'' \<or> \<not> IsLocal name \<or> Clean name \<noteq> name then Inl ErrInvalidState
      else eachR (\<lambda>r. if r < 0x20 \<or> (r \<ge> 0x7f \<and> r \<le> 0x9f) then Inl ErrInvalidState else Inr ()) (utf8_runes name))"

fun checkFiles_loop :: "string set \<Rightarrow> nat \<Rightarrow> state_file list \<Rightarrow> vault_err + unit" where
  "checkFiles_loop seen tot [] = Inr ()"
| "checkFiles_loop seen tot (f # fs) =
     bindR (checkName (sf_Name f)) (\<lambda>_.
     if sf_Name f \<in> seen then Inl ErrInvalidState
     else if length (sf_Data f) > MaxStateFileSize then Inl ErrInvalidState
     else if tot + length (sf_Data f) > MaxStateTotalSize then Inl ErrInvalidState
     else checkFiles_loop (insert (sf_Name f) seen) (tot + length (sf_Data f)) fs)"

definition CheckFiles :: "state_file list \<Rightarrow> vault_err + unit" where
  "CheckFiles fs = (if length fs > MaxStateFiles then Inl ErrInvalidState else checkFiles_loop {} 0 fs)"

section \<open>The document (store.go)\<close>

definition maxFileSize :: nat where "maxFileSize = 32 * 1024 * 1024"
definition maxWraps :: nat where "maxWraps = 16"
definition maxItems :: nat where "maxItems = 128"
definition formatVersion :: int where "formatVersion = 1"
definition maxIDLen :: nat where "maxIDLen = 1400"
definition PRFSize :: nat where "PRFSize = 32"
definition SaltSize :: nat where "SaltSize = 32"
definition keySize :: nat where "keySize = 32"
definition vaultIDSize :: nat where "vaultIDSize = 16"
definition itemRndSize :: nat where "itemRndSize = 16"
definition nonceSize :: nat where "nonceSize = 12"

lemmas vault_sizes = maxFileSize_def maxWraps_def maxItems_def formatVersion_def maxIDLen_def PRFSize_def SaltSize_def
  keySize_def vaultIDSize_def itemRndSize_def nonceSize_def

definition kindCredential :: string where "kindCredential = ''credential''"
definition kindSigningKey :: string where "kindSigningKey = ''signing-key''"
definition kindLoginState :: string where "kindLoginState = ''login-state''"

lemmas kind_defs = kindCredential_def kindSigningKey_def kindLoginState_def

definition validKind :: "string \<Rightarrow> bool" where
  "validKind k \<longleftrightarrow> k = kindCredential \<or> k = kindSigningKey \<or> k = kindLoginState"

definition validID :: "string \<Rightarrow> bool" where
  "validID s \<longleftrightarrow> s \<noteq> [] \<and> length s \<le> maxIDLen \<and>
     (\<forall>c\<in>set s. is_lower c \<or> is_upper c \<or> is_digit c \<or> c = CHR ''_'' \<or> c = CHR ''-'')"

record wrap_record =
  w_CredentialID :: string
  w_Salt :: string
  w_Nonce :: string
  w_Ct :: string

record item_record =
  it_Kind :: string
  it_Name :: string
  it_Rand :: string
  it_Ct :: string

record document =
  doc_Version :: int
  doc_ID :: string
  doc_Wraps :: "wrap_record list"
  doc_Items :: "item_record list"

definition item_key :: "item_record \<Rightarrow> string \<times> string" where
  "item_key it = (it_Kind it, it_Name it)"

fun validate_wraps :: "string set \<Rightarrow> wrap_record list \<Rightarrow> vault_err + unit" where
  "validate_wraps seen [] = Inr ()"
| "validate_wraps seen (w # ws) =
     (if \<not> validID (w_CredentialID w) \<or> length (w_Salt w) \<noteq> SaltSize \<or> length (w_Nonce w) \<noteq> nonceSize \<or> w_Ct w = [] then Inl ErrFormat
      else if w_CredentialID w \<in> seen then Inl ErrFormat
      else validate_wraps (insert (w_CredentialID w) seen) ws)"

fun validate_items :: "string set \<Rightarrow> item_record list \<Rightarrow> vault_err + unit" where
  "validate_items seen [] = Inr ()"
| "validate_items seen (it # its) =
     (if \<not> validKind (it_Kind it) \<or> CheckName (it_Name it) \<noteq> Inr () \<or> length (it_Rand it) \<noteq> itemRndSize \<or> it_Ct it = [] then Inl ErrFormat
      else let key = it_Kind it @ CHR 0x00 # it_Name it in
      if key \<in> seen then Inl ErrFormat
      else validate_items (insert key seen) its)"

definition doc_validate :: "document \<Rightarrow> vault_err + unit" where
  "doc_validate d =
     (if doc_Version d \<noteq> formatVersion then Inl ErrFormat
      else if length (doc_ID d) \<noteq> vaultIDSize then Inl ErrFormat
      else if doc_Wraps d = [] \<or> length (doc_Wraps d) > maxWraps then Inl ErrFormat
      else if length (doc_Items d) > maxItems then Inl ErrFormat
      else bindR (validate_wraps {} (doc_Wraps d)) (\<lambda>_. validate_items {} (doc_Items d)))"

section \<open>The directory\<close>

record audit_entry =
  au_Event :: string
  au_VaultID :: string
  au_Credential :: string
  au_Target :: string

record vdir =
  fd_json :: "string option"
  fd_tmp :: "string option"
  fd_audit :: "audit_entry list"
  fd_locked :: bool

record fstat =
  st_IsDir :: bool
  st_IsRegular :: bool
  st_Perm :: nat
  st_Uid :: "nat option"

datatype 'a os_res = OsOk 'a | OsNotExist | OsErr

record dir_env =
  de_lstat :: "fstat os_res"
  de_mkdir :: bool
  de_lstat2 :: "fstat os_res"
  de_euid :: nat
  de_open :: bool
  de_fstat :: "fstat option"
  de_flock :: bool

record file_env =
  fe_open :: bool
  fe_stat :: "fstat option"
  fe_euid :: nat
  fe_read :: bool

record write_env =
  we_remove :: bool
  we_create :: bool
  we_write :: bool
  we_partial :: string
  we_sync :: bool
  we_close :: bool
  we_rename :: bool
  we_syncdir :: bool
  we_cleanup :: bool

record audit_env =
  ae_open :: bool
  ae_stat :: "fstat option"
  ae_euid :: nat
  ae_write :: bool
  ae_sync :: bool
  ae_close :: bool

record vault_lib =
  lib_hkdf :: "string \<Rightarrow> string \<Rightarrow> string \<Rightarrow> nat \<Rightarrow> string option"
  lib_seal :: "string \<Rightarrow> string \<Rightarrow> string \<Rightarrow> string \<Rightarrow> string"
  lib_open :: "string \<Rightarrow> string \<Rightarrow> string \<Rightarrow> string \<Rightarrow> string option"
  lib_marshal :: "document \<Rightarrow> string option"
  lib_decode :: "string \<Rightarrow> (document \<times> bool) option"
  lib_id :: "string \<Rightarrow> string option"
  lib_marshal_files :: "state_file list \<Rightarrow> string option"
  lib_decode_files :: "string \<Rightarrow> state_file list option"

text \<open>\<open>Perm()&0o077\<close>: the six low bits.\<close>

definition wide_perm :: "fstat \<Rightarrow> bool" where
  "wide_perm st \<longleftrightarrow> st_Perm st mod 64 \<noteq> 0"

definition checkDir :: "dir_env \<Rightarrow> vault_err + unit" where
  "checkDir de =
     bindR (case de_lstat de of
              OsNotExist \<Rightarrow> if \<not> de_mkdir de then Inl ErrOther
                            else (case de_lstat2 de of OsOk st \<Rightarrow> Inr st | _ \<Rightarrow> Inl ErrOther)
            | OsErr \<Rightarrow> Inl ErrOther
            | OsOk st \<Rightarrow> Inr st)
       (\<lambda>st. if \<not> st_IsDir st then Inl ErrOther
             else if wide_perm st then Inl ErrOther
             else if st_Uid st \<noteq> Some (de_euid de) then Inl ErrOther
             else Inr ())"

definition checkOwned :: "fstat option \<Rightarrow> nat \<Rightarrow> bool \<Rightarrow> vault_err + unit" where
  "checkOwned fi euid wantDir =
     (case fi of
        None \<Rightarrow> Inl ErrOther
      | Some st \<Rightarrow>
          if wantDir \<and> \<not> st_IsDir st then Inl ErrOther
          else if \<not> wantDir \<and> \<not> st_IsRegular st then Inl ErrOther
          else if wide_perm st then Inl ErrOther
          else if st_Uid st \<noteq> Some euid then Inl ErrOther
          else Inr ())"

definition lockDir :: "dir_env \<Rightarrow> 'a vdir_scheme \<Rightarrow> vault_err + 'a vdir_scheme" where
  "lockDir de d =
     (if \<not> de_open de then Inl ErrOther
      else bindR (checkOwned (de_fstat de) (de_euid de) True) (\<lambda>_.
      if fd_locked d then Inl ErrInUse
      else if \<not> de_flock de then Inl ErrOther
      else Inr (d\<lparr>fd_locked := True\<rparr>)))"

text \<open>\<open>readRegular\<close>; a file that does not exist is \<open>Inr None\<close>.\<close>

definition readRegular :: "file_env \<Rightarrow> string option \<Rightarrow> nat \<Rightarrow> vault_err + string option" where
  "readRegular fe content limit =
     (case content of
        None \<Rightarrow> Inr None
      | Some data0 \<Rightarrow>
          if \<not> fe_open fe then Inl ErrOther
          else bindR (checkOwned (fe_stat fe) (fe_euid fe) False) (\<lambda>_.
          if length data0 > limit then Inl ErrOther
          else if \<not> fe_read fe then Inl ErrOther
          else let dat = take (limit + 1) data0 in
          if length dat > limit then Inl ErrOther else Inr (Some dat)))"

definition loadDocument :: "vault_lib \<Rightarrow> file_env \<Rightarrow> 'a vdir_scheme \<Rightarrow> vault_err + document option" where
  "loadDocument lib fe d =
     (case readRegular fe (fd_json d) maxFileSize of
        Inl _ \<Rightarrow> Inl ErrFormat
      | Inr None \<Rightarrow> Inr None
      | Inr (Some dat) \<Rightarrow>
          (case lib_decode lib dat of
             None \<Rightarrow> Inl ErrFormat
           | Some (doc, trailing) \<Rightarrow>
               if trailing then Inl ErrFormat
               else bindR (doc_validate doc) (\<lambda>_. Inr (Some doc))))"

text \<open>
  \<open>writeDocument\<close>: whether the rename happened, the error, and the directory. A partial write
  leaves something in the temporary file; the removals behind a failure may fail themselves.
\<close>

definition remove_tmp :: "write_env \<Rightarrow> 'a vdir_scheme \<Rightarrow> 'a vdir_scheme" where
  "remove_tmp we d = (if we_cleanup we then d\<lparr>fd_tmp := None\<rparr> else d)"

definition writeDocument :: "vault_lib \<Rightarrow> write_env \<Rightarrow> document \<Rightarrow> 'a vdir_scheme \<Rightarrow> bool \<times> vault_err option \<times> 'a vdir_scheme" where
  "writeDocument lib we doc d =
     (case lib_marshal lib doc of
        None \<Rightarrow> (False, Some ErrOther, d)
      | Some dat \<Rightarrow>
          if length dat > maxFileSize then (False, Some ErrInvalidInput, d)
          else if \<not> we_remove we then (False, Some ErrOther, d)
          else let d1 = d\<lparr>fd_tmp := None\<rparr> in
          if \<not> we_create we then (False, Some ErrOther, d1)
          else let d2 = d1\<lparr>fd_tmp := Some (if we_write we then dat else we_partial we)\<rparr> in
          if \<not> we_write we \<or> \<not> we_sync we \<or> \<not> we_close we \<or> \<not> we_rename we then
            (False, Some ErrOther, remove_tmp we d2)
          else let d3 = d2\<lparr>fd_json := fd_tmp d2, fd_tmp := None\<rparr> in
          if \<not> we_syncdir we then (True, Some ErrNotDurable, d3)
          else (True, None, d3))"

section \<open>The audit log (audit.go)\<close>

definition idHead :: nat where "idHead = 12"

definition id_head :: "string \<Rightarrow> string" where
  "id_head s = (if length s > idHead then take idHead s else s)"

definition appendAudit :: "audit_env \<Rightarrow> audit_entry \<Rightarrow> 'a vdir_scheme \<Rightarrow> vault_err option \<times> 'a vdir_scheme" where
  "appendAudit ae e d =
     (if \<not> ae_open ae then (Some ErrOther, d)
      else if checkOwned (ae_stat ae) (ae_euid ae) False \<noteq> Inr () then (Some ErrOther, d)
      else if \<not> ae_write ae then (Some ErrOther, d)
      else let d' = d\<lparr>fd_audit := fd_audit d @ [e]\<rparr> in
      if \<not> ae_sync ae then (Some ErrOther, d')
      else if \<not> ae_close ae then (Some ErrOther, d')
      else (None, d'))"

text \<open>\<open>hex.EncodeToString\<close>.\<close>

definition hex_digit :: "nat \<Rightarrow> char" where
  "hex_digit n = (if n < 10 then char_of (48 + n) else char_of (87 + n))"

definition hex_encode :: "string \<Rightarrow> string" where
  "hex_encode s = concat (map (\<lambda>c. [hex_digit (byte c div 16), hex_digit (byte c mod 16)]) s)"

section \<open>Encryption (crypto.go)\<close>

definition infoWrap :: string where "infoWrap = ''goronation/vault/wrap/v1'' @ [CHR 0x00]"
definition infoItem :: string where "infoItem = ''goronation/vault/item/v1'' @ [CHR 0x00]"
definition aadWrap :: string where "aadWrap = ''goronation/vault/wrap-aad/v1''"
definition aadItem :: string where "aadItem = ''goronation/vault/item-aad/v1''"

text \<open>A source of random bytes, or its failure.\<close>

type_synonym random = "(nat \<Rightarrow> char) option"

definition randBytes :: "random \<Rightarrow> nat \<Rightarrow> vault_err + string" where
  "randBytes r n = (case r of None \<Rightarrow> Inl ErrOther | Some f \<Rightarrow> Inr (map f [0..<n]))"

text \<open>\<open>binary.BigEndian.AppendUint32\<close> of a length, which wraps at 32 bits.\<close>

definition be32 :: "nat \<Rightarrow> string" where
  "be32 n = map (\<lambda>i. char_of ((n div 256 ^ i) mod 256)) [3, 2, 1, 0]"

definition aad :: "string list \<Rightarrow> string" where
  "aad parts = concat (map (\<lambda>p. be32 (length p) @ p) parts)"

text \<open>\<open>aes.NewCipher\<close> accepts keys of 16, 24 and 32 bytes.\<close>

definition newGCM :: "string \<Rightarrow> bool" where
  "newGCM key \<longleftrightarrow> length key \<in> {16, 24, 32}"

definition deriveWrapKey :: "vault_lib \<Rightarrow> string \<Rightarrow> string \<Rightarrow> string \<Rightarrow> string option" where
  "deriveWrapKey lib prf vaultID credentialID = lib_hkdf lib prf vaultID (infoWrap @ credentialID) keySize"

definition wrapAAD :: "string \<Rightarrow> string \<Rightarrow> string \<Rightarrow> string" where
  "wrapAAD vaultID credentialID salt = aad [aadWrap, vaultID, credentialID, salt, [char_of (nat formatVersion)]]"

definition wrapBodyKey :: "vault_lib \<Rightarrow> random \<Rightarrow> string \<Rightarrow> string \<Rightarrow> string \<Rightarrow> string \<Rightarrow> string \<Rightarrow> vault_err + string \<times> string" where
  "wrapBodyKey lib r bodyKey prf vaultID credentialID salt =
     (case deriveWrapKey lib prf vaultID credentialID of
        None \<Rightarrow> Inl ErrOther
      | Some wk \<Rightarrow>
          if \<not> newGCM wk then Inl ErrOther
          else bindR (randBytes r nonceSize) (\<lambda>nonce.
            Inr (nonce, lib_seal lib wk nonce bodyKey (wrapAAD vaultID credentialID salt))))"

definition unwrapBodyKey :: "vault_lib \<Rightarrow> string \<Rightarrow> string \<Rightarrow> string \<Rightarrow> string \<Rightarrow> string \<Rightarrow> string \<Rightarrow> vault_err + string" where
  "unwrapBodyKey lib prf vaultID credentialID salt nonce ct =
     (if length nonce \<noteq> nonceSize then Inl ErrAuth
      else (case deriveWrapKey lib prf vaultID credentialID of
              None \<Rightarrow> Inl ErrAuth
            | Some wk \<Rightarrow>
                if \<not> newGCM wk then Inl ErrAuth
                else (case lib_open lib wk nonce ct (wrapAAD vaultID credentialID salt) of
                        None \<Rightarrow> Inl ErrAuth
                      | Some bk \<Rightarrow> if length bk \<noteq> keySize then Inl ErrAuth else Inr bk)))"

definition itemInfo :: "string \<Rightarrow> string \<Rightarrow> string \<Rightarrow> string" where
  "itemInfo kind name rnd = infoItem @ kind @ CHR 0x00 # name @ CHR 0x00 # rnd"

definition itemKey :: "vault_lib \<Rightarrow> string \<Rightarrow> string \<Rightarrow> string \<Rightarrow> string \<Rightarrow> string \<Rightarrow> string option" where
  "itemKey lib bodyKey vaultID kind name rnd = lib_hkdf lib bodyKey vaultID (itemInfo kind name rnd) keySize"

definition itemAAD :: "string \<Rightarrow> string \<Rightarrow> string \<Rightarrow> string" where
  "itemAAD vaultID kind name = aad [aadItem, vaultID, kind, name, [char_of (nat formatVersion)]]"

definition zeroNonce :: string where "zeroNonce = replicate nonceSize (CHR 0x00)"

definition sealItem :: "vault_lib \<Rightarrow> random \<Rightarrow> string \<Rightarrow> string \<Rightarrow> string \<Rightarrow> string \<Rightarrow> string \<Rightarrow> vault_err + string \<times> string" where
  "sealItem lib r bodyKey vaultID kind name plaintext =
     bindR (randBytes r itemRndSize) (\<lambda>rnd.
     case itemKey lib bodyKey vaultID kind name rnd of
       None \<Rightarrow> Inl ErrOther
     | Some k \<Rightarrow>
         if \<not> newGCM k then Inl ErrOther
         else Inr (rnd, lib_seal lib k zeroNonce plaintext (itemAAD vaultID kind name)))"

definition openItem :: "vault_lib \<Rightarrow> string \<Rightarrow> string \<Rightarrow> string \<Rightarrow> string \<Rightarrow> string \<Rightarrow> string \<Rightarrow> vault_err + string" where
  "openItem lib bodyKey vaultID kind name rnd ct =
     (if length rnd \<noteq> itemRndSize then Inl ErrAuth
      else (case itemKey lib bodyKey vaultID kind name rnd of
              None \<Rightarrow> Inl ErrAuth
            | Some k \<Rightarrow>
                if \<not> newGCM k then Inl ErrAuth
                else (case lib_open lib k zeroNonce ct (itemAAD vaultID kind name) of
                        None \<Rightarrow> Inl ErrAuth
                      | Some pt \<Rightarrow> Inr pt)))"

section \<open>What the vault relies on\<close>

text \<open>
  The documented behaviour of the libraries: HKDF-SHA256 delivers keys of the size asked for, up to
  255 blocks; AES-GCM opens what it sealed under the same key, nonce and additional data, and
  appends a tag of 16 bytes; encoding/json reads back what it wrote.
\<close>

definition hkdf_ok :: "vault_lib \<Rightarrow> bool" where
  "hkdf_ok lib \<longleftrightarrow> (\<forall>k s i n. n \<le> 255 * 32 \<longrightarrow> (\<exists>out. lib_hkdf lib k s i n = Some out \<and> length out = n))"

definition gcm_ok :: "vault_lib \<Rightarrow> bool" where
  "gcm_ok lib \<longleftrightarrow> (\<forall>k n p a. newGCM k \<longrightarrow> lib_open lib k n (lib_seal lib k n p a) a = Some p \<and>
     length (lib_seal lib k n p a) = length p + 16)"

definition json_ok :: "vault_lib \<Rightarrow> bool" where
  "json_ok lib \<longleftrightarrow>
     (\<forall>d. doc_validate d = Inr () \<longrightarrow> (\<exists>s. lib_marshal lib d = Some s \<and> lib_decode lib s = Some (d, False))) \<and>
     (\<forall>fs. CheckFiles fs = Inr () \<longrightarrow> (\<exists>s. lib_marshal_files lib fs = Some s \<and> lib_decode_files lib s = Some fs))"

definition lib_ok :: "vault_lib \<Rightarrow> bool" where
  "lib_ok lib \<longleftrightarrow> hkdf_ok lib \<and> gcm_ok lib \<and> json_ok lib"

section \<open>Lemmas\<close>

subsection \<open>Valid documents\<close>

definition wf_wrap :: "wrap_record \<Rightarrow> bool" where
  "wf_wrap w \<longleftrightarrow> validID (w_CredentialID w) \<and> length (w_Salt w) = SaltSize \<and> length (w_Nonce w) = nonceSize \<and> w_Ct w \<noteq> []"

definition wf_item :: "item_record \<Rightarrow> bool" where
  "wf_item it \<longleftrightarrow> validKind (it_Kind it) \<and> nameRE (it_Name it) \<and> length (it_Rand it) = itemRndSize \<and> it_Ct it \<noteq> []"

lemma CheckName_iff [simp]: "CheckName n = Inr u \<longleftrightarrow> nameRE n"
  by (simp add: CheckName_def)

lemma validate_wraps_iff:
  "validate_wraps seen ws = Inr () \<longleftrightarrow>
     list_all wf_wrap ws \<and> distinct (map w_CredentialID ws) \<and> set (map w_CredentialID ws) \<inter> seen = {}"
  by (induction ws arbitrary: seen) (auto simp: wf_wrap_def)

lemma validKind_no_nul: "validKind k \<Longrightarrow> CHR 0x00 \<notin> set k"
  by (auto simp: validKind_def kind_defs)

lemma nul_framing:
  assumes "CHR 0x00 \<notin> set a" "CHR 0x00 \<notin> set b"
  shows "a @ CHR 0x00 # x = b @ CHR 0x00 # y \<longleftrightarrow> a = b \<and> x = y"
proof
  assume e: "a @ CHR 0x00 # x = b @ CHR 0x00 # y"
  then have "takeWhile (\<lambda>c. c \<noteq> CHR 0x00) (a @ CHR 0x00 # x) = takeWhile (\<lambda>c. c \<noteq> CHR 0x00) (b @ CHR 0x00 # y)" by (rule arg_cong)
  moreover have "takeWhile (\<lambda>c. c \<noteq> CHR 0x00) (a @ CHR 0x00 # x) = a" "takeWhile (\<lambda>c. c \<noteq> CHR 0x00) (b @ CHR 0x00 # y) = b"
    using assms by (auto simp: takeWhile_append)
  ultimately have "a = b" by simp
  with e show "a = b \<and> x = y" by simp
qed simp

abbreviation item_tag :: "item_record \<Rightarrow> string" where
  "item_tag it \<equiv> it_Kind it @ CHR 0x00 # it_Name it"

lemma validate_items_iff:
  "validate_items seen its = Inr () \<longleftrightarrow>
     list_all wf_item its \<and> distinct (map item_tag its) \<and> set (map item_tag its) \<inter> seen = {}"
  by (induction its arbitrary: seen) (auto simp: wf_item_def Let_def)

lemma item_tag_key: "wf_item a \<Longrightarrow> wf_item b \<Longrightarrow> item_tag a = item_tag b \<longleftrightarrow> item_key a = item_key b"
  by (simp add: wf_item_def nul_framing validKind_no_nul item_key_def)

lemma distinct_item_tag:
  "list_all wf_item its \<Longrightarrow> distinct (map item_tag its) \<longleftrightarrow> distinct (map item_key its)"
  by (induction its) (auto simp: list_all_iff item_tag_key image_iff)

lemma doc_validate_iff:
  "doc_validate d = Inr () \<longleftrightarrow>
     doc_Version d = 1 \<and> length (doc_ID d) = 16 \<and> doc_Wraps d \<noteq> [] \<and> length (doc_Wraps d) \<le> 16 \<and> length (doc_Items d) \<le> 128 \<and>
     list_all wf_wrap (doc_Wraps d) \<and> distinct (map w_CredentialID (doc_Wraps d)) \<and>
     list_all wf_item (doc_Items d) \<and> distinct (map item_key (doc_Items d))"
  by (auto simp: doc_validate_def validate_wraps_iff validate_items_iff distinct_item_tag vault_sizes)

lemma checkFiles_loop_iff:
  "checkFiles_loop seen tot fs = Inr () \<longleftrightarrow>
     (\<forall>f\<in>set fs. checkName (sf_Name f) = Inr () \<and> length (sf_Data f) \<le> MaxStateFileSize) \<and>
     distinct (map sf_Name fs) \<and> set (map sf_Name fs) \<inter> seen = {} \<and>
     (fs \<noteq> [] \<longrightarrow> tot + sum_list (map (\<lambda>f. length (sf_Data f)) fs) \<le> MaxStateTotalSize)"
  by (induction fs arbitrary: seen tot) (auto simp: not_less add.assoc)

lemma checkName_Inl: "checkName n = Inl e \<Longrightarrow> e = ErrInvalidState"
  by (auto simp: checkName_def split: if_splits dest!: eachR_Inl)

lemma checkFiles_loop_Inl: "checkFiles_loop seen tot fs = Inl e \<Longrightarrow> e = ErrInvalidState"
  by (induction fs arbitrary: seen tot) (auto simp: bindR_Inl_iff split: if_splits dest: checkName_Inl)

lemma CheckFiles_Inl: "CheckFiles fs = Inl e \<Longrightarrow> e = ErrInvalidState"
  by (auto simp: CheckFiles_def split: if_splits dest: checkFiles_loop_Inl)

subsection \<open>Files\<close>

lemma appendAudit_cases:
  assumes "appendAudit ae e d = (err, d')"
  obtains (written) "d' = d\<lparr>fd_audit := fd_audit d @ [e]\<rparr>" | (nothing) "d' = d" "err \<noteq> None"
  using assms by (auto simp: appendAudit_def Let_def split: if_splits)

lemma writeDocument_cases:
  assumes "writeDocument lib we doc d = (applied, err, d')"
  obtains (applied) s where "applied" "lib_marshal lib doc = Some s" "length s \<le> maxFileSize"
      "d' = d\<lparr>fd_json := Some s, fd_tmp := None\<rparr>" "err = (if we_syncdir we then None else Some ErrNotDurable)"
  | (kept) tmp where "\<not> applied" "d' = d\<lparr>fd_tmp := tmp\<rparr>" "err \<notin> {None, Some ErrNotDurable}"
proof (cases applied)
  case True
  then show ?thesis
    using assms that(1) by (auto simp: writeDocument_def Let_def split: option.splits if_splits)
next
  case False
  then have "\<exists>tmp. d' = d\<lparr>fd_tmp := tmp\<rparr> \<and> err \<notin> {None, Some ErrNotDurable}"
    using assms by (auto simp: writeDocument_def Let_def remove_tmp_def split: option.splits if_splits
        intro: exI [of _ "fd_tmp d"])
  with False that(2) show ?thesis by blast
qed

subsection \<open>Framing\<close>

lemma be32_length [simp]: "length (be32 n) = 4"
  by (simp add: be32_def)

lemma be32_inj:
  assumes "be32 m = be32 n" "m < 2 ^ 32" "n < 2 ^ 32"
  shows "m = n"
proof -
  have b: "map byte (be32 k) = [k div 256 ^ 3 mod 256, k div 256 ^ 2 mod 256, k div 256 mod 256, k mod 256]" for k
    by (simp add: be32_def)
  have split: "k = ((k div 256 ^ 3 * 256 + k div 256 ^ 2 mod 256) * 256 + k div 256 mod 256) * 256 + k mod 256" for k :: nat
    using div_mult_mod_eq [of k 256] div_mult_mod_eq [of "k div 256" 256] div_mult_mod_eq [of "k div 256 div 256" 256]
    by (simp add: div_mult2_eq [symmetric])
  have "map byte (be32 m) = map byte (be32 n)" using assms(1) by simp
  then have "m div 256 ^ 3 mod 256 = n div 256 ^ 3 mod 256" "m div 256 ^ 2 mod 256 = n div 256 ^ 2 mod 256"
    "m div 256 mod 256 = n div 256 mod 256" "m mod 256 = n mod 256" by (simp_all only: b list.inject)
  moreover have "m div 256 ^ 3 mod 256 = m div 256 ^ 3" "n div 256 ^ 3 mod 256 = n div 256 ^ 3"
    using assms by simp_all
  ultimately show ?thesis using split [of m] split [of n] by simp
qed

lemma aad_inj:
  assumes "aad ps = aad qs" "\<forall>p\<in>set ps. length p < 2 ^ 32" "\<forall>q\<in>set qs. length q < 2 ^ 32"
  shows "ps = qs"
  using assms
proof (induction ps arbitrary: qs)
  case Nil
  then show ?case by (cases qs) (auto simp: aad_def dest: arg_cong [of _ _ length])
next
  case (Cons p ps)
  then obtain q qs' where qs: "qs = q # qs'" by (cases qs) (auto simp: aad_def dest: arg_cong [of _ _ length])
  have e: "be32 (length p) @ p @ aad ps = be32 (length q) @ q @ aad qs'" using Cons.prems(1) by (simp add: aad_def qs)
  then have "be32 (length p) = be32 (length q)" by (simp add: append_eq_append_conv)
  then have l: "length p = length q" using Cons.prems by (intro be32_inj) (auto simp: qs)
  with e have "p = q" "aad ps = aad qs'" by (simp_all add: append_eq_append_conv)
  then show ?case using Cons.IH [of qs'] Cons.prems by (simp add: qs)
qed

lemma aad_eq_iff:
  assumes "\<forall>p\<in>set ps \<union> set qs. length p \<le> 1400"
  shows "aad ps = aad qs \<longleftrightarrow> ps = qs"
proof -
  have "\<forall>p\<in>set ps. length p < 2 ^ 32" "\<forall>q\<in>set qs. length q < 2 ^ 32"
    using assms by (auto intro: order.strict_trans1)
  then show ?thesis using aad_inj by blast
qed

lemma nameRE_no_nul: "nameRE n \<Longrightarrow> CHR 0x00 \<notin> set n"
  by (auto simp: nameRE_def byte_class_defs split: list.splits)

lemma itemInfo_inj:
  assumes "validKind k" "validKind k'" "nameRE n" "nameRE n'" "itemInfo k n r = itemInfo k' n' r'"
  shows "k = k' \<and> n = n' \<and> r = r'"
  using assms by (simp add: itemInfo_def nul_framing validKind_no_nul nameRE_no_nul)

subsection \<open>Sealing\<close>

lemma newGCM_keySize [simp]: "length k = keySize \<Longrightarrow> newGCM k"
  by (simp add: newGCM_def keySize_def)

lemma randBytes_length: "randBytes r n = Inr b \<Longrightarrow> length b = n"
  by (auto simp: randBytes_def split: option.splits)

lemma gcm_seal:
  assumes "gcm_ok lib" "newGCM k"
  shows "lib_open lib k n (lib_seal lib k n p a) a = Some p" "lib_seal lib k n p a \<noteq> []"
proof -
  show "lib_open lib k n (lib_seal lib k n p a) a = Some p" using assms by (simp add: gcm_ok_def)
  have "length (lib_seal lib k n p a) = length p + 16" using assms by (simp add: gcm_ok_def)
  then show "lib_seal lib k n p a \<noteq> []" by auto
qed

lemma seal_open_item:
  assumes "gcm_ok lib" "sealItem lib r bk vid kind name pt = Inr (rnd, ct)"
  shows "openItem lib bk vid kind name rnd ct = Inr pt \<and> length rnd = itemRndSize \<and> ct \<noteq> []"
  using assms by (auto simp: sealItem_def openItem_def gcm_seal dest: randBytes_length split: option.splits if_splits)

lemma sealItem_Inl: "sealItem lib r bk vid kind name pt = Inl e \<Longrightarrow> e = ErrOther"
  by (auto simp: sealItem_def randBytes_def bindR_Inl_iff split: option.splits if_splits)

lemma wrap_unwrap:
  assumes "gcm_ok lib" "length bk = keySize" "wrapBodyKey lib r bk prf vid cid salt = Inr (nonce, ct)"
  shows "unwrapBodyKey lib prf vid cid salt nonce ct = Inr bk \<and> length nonce = nonceSize \<and> ct \<noteq> []"
  using assms by (auto simp: wrapBodyKey_def unwrapBodyKey_def gcm_seal dest: randBytes_length split: option.splits if_splits)

lemma unwrapBodyKey_length: "unwrapBodyKey lib prf vid cid salt nonce ct = Inr bk \<Longrightarrow> length bk = keySize"
  by (auto simp: unwrapBodyKey_def split: if_splits option.splits)

subsection \<open>Names\<close>

definition wf_state_name :: "string \<Rightarrow> bool" where
  "wf_state_name n \<longleftrightarrow> length n \<le> 128 \<and> utf8_valid n \<and> (\<exists>cs. cs \<noteq> [] \<and> list_all ok_comp cs \<and> n = join ''/'' cs) \<and>
     (\<forall>r\<in>set (utf8_runes n). 0x20 \<le> r \<and> \<not> (0x7f \<le> r \<and> r \<le> 0x9f))"

lemma checkName_iff: "checkName n = Inr () \<longleftrightarrow> wf_state_name n"
proof -
  have "n \<noteq> [] \<and> \<not> (n = ''.'' \<or> \<not> IsLocal n \<or> Clean n \<noteq> n) \<longleftrightarrow> (\<exists>cs. cs \<noteq> [] \<and> list_all ok_comp cs \<and> n = join ''/'' cs)"
    using local_clean_iff [of n] by blast
  then show ?thesis
    unfolding checkName_def wf_state_name_def by (auto simp: MaxStateNameLen_def not_less not_le split: if_splits)
qed

lemma part_lengths:
  "validKind k \<Longrightarrow> length k \<le> 1400" "nameRE n \<Longrightarrow> length n \<le> 1400" "validID c \<Longrightarrow> length c \<le> 1400"
  by (auto simp: validKind_def kind_defs nameRE_def validID_def maxIDLen_def split: list.splits)

section \<open>Properties\<close>

text \<open>
  The limits of login states, exactly: at most eight files of at most 64 KiB and 256 KiB
  together, under distinct names of at most 128 bytes of UTF-8 without control characters, which are
  relative paths with no empty, \<open>.\<close> or \<open>..\<close> element, so that restoring them stays in the target directory.
\<close>

theorem CheckFiles_exact:
  "CheckFiles fs = Inr () \<longleftrightarrow>
     length fs \<le> 8 \<and> distinct (map sf_Name fs) \<and> list_all (\<lambda>f. wf_state_name (sf_Name f) \<and> length (sf_Data f) \<le> 65536) fs \<and>
     sum_list (map (\<lambda>f. length (sf_Data f)) fs) \<le> 262144"
  by (cases "fs = []")
    (auto simp: CheckFiles_def checkFiles_loop_iff checkName_iff list_all_iff MaxStateFiles_def MaxStateFileSize_def MaxStateTotalSize_def)

text \<open>
  Keys and additional data are bound to what they are for: the derivation input of an item key
  determines kind, name and random value, the additional data of an item determines vault, kind and
  name, that of a wrap determines vault, passkey and salt, and the two are never the same.
\<close>

theorem bindings_unambiguous:
  assumes "validKind k" and "validKind k'" and "nameRE n" and "nameRE n'" and "validID c" and "validID c'"
    and "length vid = vaultIDSize" and "length vid' = vaultIDSize" and "length salt = SaltSize" and "length salt' = SaltSize"
  shows "(itemInfo k n r = itemInfo k' n' r' \<longleftrightarrow> k = k' \<and> n = n' \<and> r = r') \<and>
    (itemAAD vid k n = itemAAD vid' k' n' \<longleftrightarrow> vid = vid' \<and> k = k' \<and> n = n') \<and>
    (wrapAAD vid c salt = wrapAAD vid' c' salt' \<longleftrightarrow> vid = vid' \<and> c = c' \<and> salt = salt') \<and>
    itemAAD vid k n \<noteq> wrapAAD vid' c salt"
proof -
  have l: "length k \<le> 1400" "length k' \<le> 1400" "length n \<le> 1400" "length n' \<le> 1400" "length c \<le> 1400" "length c' \<le> 1400"
    "length vid = 16" "length vid' = 16" "length salt = 32" "length salt' = 32" "length aadItem = 28" "length aadWrap = 28"
    using assms part_lengths by (auto simp: vaultIDSize_def SaltSize_def aadItem_def aadWrap_def)
  have "itemAAD vid k n = itemAAD vid' k' n' \<longleftrightarrow> vid = vid' \<and> k = k' \<and> n = n'"
    unfolding itemAAD_def by (subst aad_eq_iff) (use l in auto)
  moreover have "wrapAAD vid c salt = wrapAAD vid' c' salt' \<longleftrightarrow> vid = vid' \<and> c = c' \<and> salt = salt'"
    unfolding wrapAAD_def by (subst aad_eq_iff) (use l in auto)
  moreover have "itemAAD vid k n \<noteq> wrapAAD vid' c salt"
    unfolding itemAAD_def wrapAAD_def by (subst aad_eq_iff) (use l in \<open>auto simp: aadItem_def aadWrap_def\<close>)
  ultimately show ?thesis using itemInfo_inj [OF assms(1-4)] by blast
qed

theorem bindings_unambiguous_witness:
  "itemAAD (replicate 16 CHR ''v'') ''credential'' ''github'' \<noteq> wrapAAD (replicate 16 CHR ''v'') ''id'' (replicate 32 CHR ''s'')"
proof -
  have "validKind ''credential''" "nameRE ''github''" "validID ''id''"
    by (simp_all add: validKind_def kind_defs nameRE_def validID_def maxIDLen_def byte_class_defs)
  from bindings_unambiguous [OF this(1) this(1) this(2) this(2) this(3) this(3),
      of "replicate 16 CHR ''v''" "replicate 16 CHR ''v''" "replicate 32 CHR ''s''" "replicate 32 CHR ''s''"]
  show ?thesis by (simp add: vaultIDSize_def SaltSize_def)
qed

end
