(* ===== verification/Vault.thy ===== *)
theory Vault
  imports Vault_Store
begin

text \<open>
  The vault (package vault: vault.go and reset.go). The body key encrypts the items; every passkey
  has a wrap, which is the body key under a key derived from the passkey's PRF output. The state of an
  open vault extends the directory it lies in by the document in memory, the body key while it is
  unlocked, and whether it is closed. Every method holds the mutex from the first check of the state
  to its last change, so the methods are functions of the state, and interleavings are sequences of
  calls. Clearing key material in memory is not modelled.
\<close>

record vsys = vdir +
  vt_doc :: "document option"
  vt_key :: "string option"
  vt_closed :: bool

text \<open>The environment of one call: random sources, two writes to the audit log, and the replacement of vault.json.\<close>

record vault_env =
  ve_rand1 :: random
  ve_rand2 :: random
  ve_rand3 :: random
  ve_audit1 :: audit_env
  ve_audit2 :: audit_env
  ve_write :: write_env

record passkey_proof =
  pf_CredentialID :: string
  pf_PRF :: string

record enrollment =
  en_CredentialID :: string
  en_Salt :: string
  en_PRF :: string

record wrap_info =
  wi_CredentialID :: string
  wi_Salt :: string

definition maxSecretSize :: nat where "maxSecretSize = 16 * 1024"
definition maxItemSize :: nat where "maxItemSize = 1024 * 1024"

section \<open>Opening, closing, locking\<close>

text \<open>A failure leaves the directory as it was: a lock that was taken is released again.\<close>

definition v_Open :: "vault_lib \<Rightarrow> dir_env \<Rightarrow> file_env \<Rightarrow> vdir \<Rightarrow> vault_err + vsys" where
  "v_Open lib de fe d =
     bindR (checkDir de) (\<lambda>_.
     bindR (lockDir de d) (\<lambda>d'.
     bindR (loadDocument lib fe d') (\<lambda>doc.
       Inr (vdir.extend d' (vsys.fields doc None False)))))"

definition lockLocked :: "vsys \<Rightarrow> vsys" where
  "lockLocked v = v\<lparr>vt_key := None\<rparr>"

definition v_Close :: "vsys \<Rightarrow> vsys" where
  "v_Close v = (if vt_closed v then v else (lockLocked v)\<lparr>vt_closed := True, fd_locked := False\<rparr>)"

definition v_Lock :: "vsys \<Rightarrow> vsys" where
  "v_Lock v = lockLocked v"

definition v_Unlocked :: "vsys \<Rightarrow> bool" where
  "v_Unlocked v \<longleftrightarrow> vt_key v \<noteq> None"

definition v_Initialized :: "vsys \<Rightarrow> bool" where
  "v_Initialized v \<longleftrightarrow> vt_doc v \<noteq> None"

definition NewSalt :: "random \<Rightarrow> vault_err + string" where
  "NewSalt r = randBytes r SaltSize"

definition WrapInfos :: "vsys \<Rightarrow> wrap_info list" where
  "WrapInfos v =
     (case vt_doc v of
        None \<Rightarrow> []
      | Some doc \<Rightarrow> if vt_closed v then []
          else map (\<lambda>w. \<lparr>wi_CredentialID = w_CredentialID w, wi_Salt = w_Salt w\<rparr>) (doc_Wraps doc))"

section \<open>Checks\<close>

definition checkID :: "string \<Rightarrow> vault_err + unit" where
  "checkID s = (if \<not> validID s then Inl ErrInvalidInput else Inr ())"

definition checkSized :: "string \<Rightarrow> nat \<Rightarrow> vault_err + unit" where
  "checkSized b n = (if length b \<noteq> n then Inl ErrInvalidInput else Inr ())"

text \<open>The checks that \<open>errors.Join\<close> collects all fail with the same error, so its value is that of the first.\<close>

definition joined :: "(vault_err + unit) list \<Rightarrow> vault_err + unit" where
  "joined rs = eachR (\<lambda>r. r) rs"

section \<open>Changing the document\<close>

definition vault_write :: "vault_lib \<Rightarrow> write_env \<Rightarrow> document \<Rightarrow> vsys \<Rightarrow> bool \<times> vault_err option \<times> vsys" where
  "vault_write lib we doc' v =
     (case writeDocument lib we doc' v of (applied, err, v') \<Rightarrow>
        (applied, err, if applied then v'\<lparr>vt_doc := Some doc'\<rparr> else v'))"

definition commit :: "vault_lib \<Rightarrow> vault_env \<Rightarrow> document \<Rightarrow> audit_entry \<Rightarrow> vsys \<Rightarrow> vault_err option \<times> vsys" where
  "commit lib env doc' e v =
     (case appendAudit (ve_audit1 env) e v of
        (Some err, v1) \<Rightarrow> (Some err, v1)
      | (None, v1) \<Rightarrow>
          (case vault_write lib (ve_write env) doc' v1 of
             (applied, None, v2) \<Rightarrow> (None, v2)
           | (applied, Some err, v2) \<Rightarrow>
               let suffix = (if applied then ''-not-durable'' else ''-failed'') in
               (Some err, snd (appendAudit (ve_audit2 env) (e\<lparr>au_Event := au_Event e @ suffix\<rparr>) v2))))"

definition audit_of :: "string \<Rightarrow> document \<Rightarrow> string \<Rightarrow> string \<Rightarrow> audit_entry" where
  "audit_of event doc cred target =
     \<lparr>au_Event = event, au_VaultID = hex_encode (doc_ID doc), au_Credential = id_head cred, au_Target = id_head target\<rparr>"

definition auditDenied :: "vault_env \<Rightarrow> string \<Rightarrow> document \<Rightarrow> string \<Rightarrow> string \<Rightarrow> vsys \<Rightarrow> vsys" where
  "auditDenied env event doc authorizer target v =
     (if validID authorizer \<and> validID target
      then snd (appendAudit (ve_audit1 env) (audit_of event doc authorizer target) v)
      else v)"

definition v_Init :: "vault_lib \<Rightarrow> vault_env \<Rightarrow> string \<Rightarrow> string \<Rightarrow> string \<Rightarrow> vsys \<Rightarrow> vault_err option \<times> vsys" where
  "v_Init lib env credentialID salt prf v =
     (if vt_closed v then (Some ErrClosed, v)
      else if vt_doc v \<noteq> None then (Some ErrAlreadyInitialized, v)
      else
        let prep = bindR (joined [checkID credentialID, checkSized salt SaltSize, checkSized prf PRFSize]) (\<lambda>_.
                   bindR (randBytes (ve_rand1 env) vaultIDSize) (\<lambda>vid.
                   bindR (randBytes (ve_rand2 env) keySize) (\<lambda>bk.
                   bindR (wrapBodyKey lib (ve_rand3 env) bk prf vid credentialID salt) (\<lambda>(nonce, ct).
                     Inr (bk, \<lparr>doc_Version = formatVersion, doc_ID = vid,
                       doc_Wraps = [\<lparr>w_CredentialID = credentialID, w_Salt = salt, w_Nonce = nonce, w_Ct = ct\<rparr>],
                       doc_Items = []\<rparr>))))) in
        (case prep of
           Inl e \<Rightarrow> (Some e, v)
         | Inr (bk, doc) \<Rightarrow>
             (case commit lib env doc (audit_of ''init'' doc credentialID []) v of
                (Some e, v') \<Rightarrow> (Some e, v')
              | (None, v') \<Rightarrow> (None, v'\<lparr>vt_key := Some bk\<rparr>))))"

section \<open>Passkeys\<close>

definition find_wrap :: "document \<Rightarrow> string \<Rightarrow> wrap_record option" where
  "find_wrap doc credentialID = find (\<lambda>w. w_CredentialID w = credentialID) (doc_Wraps doc)"

definition prove :: "vault_lib \<Rightarrow> document \<Rightarrow> passkey_proof \<Rightarrow> vault_err + string" where
  "prove lib doc p =
     bindR (joined [checkID (pf_CredentialID p), checkSized (pf_PRF p) PRFSize]) (\<lambda>_.
     case find_wrap doc (pf_CredentialID p) of
       None \<Rightarrow> Inl ErrUnlockFailed
     | Some w \<Rightarrow>
         (case unwrapBodyKey lib (pf_PRF p) (doc_ID doc) (w_CredentialID w) (w_Salt w) (w_Nonce w) (w_Ct w) of
            Inl _ \<Rightarrow> Inl ErrUnlockFailed
          | Inr bk \<Rightarrow> Inr bk))"

definition v_Unlock :: "vault_lib \<Rightarrow> string \<Rightarrow> string \<Rightarrow> vsys \<Rightarrow> vault_err option \<times> vsys" where
  "v_Unlock lib credentialID prf v =
     (if vt_closed v then (Some ErrClosed, v)
      else (case vt_doc v of
              None \<Rightarrow> (Some ErrNotInitialized, v)
            | Some doc \<Rightarrow>
                (case prove lib doc \<lparr>pf_CredentialID = credentialID, pf_PRF = prf\<rparr> of
                   Inl e \<Rightarrow> (Some e, v)
                 | Inr bk \<Rightarrow> (None, v\<lparr>vt_key := Some bk\<rparr>))))"

definition AddWrap :: "vault_lib \<Rightarrow> vault_env \<Rightarrow> passkey_proof \<Rightarrow> enrollment \<Rightarrow> vsys \<Rightarrow> vault_err option \<times> vsys" where
  "AddWrap lib env authorizer candidate v =
     (if vt_closed v then (Some ErrClosed, v)
      else (case vt_doc v of
        None \<Rightarrow> (Some ErrNotInitialized, v)
      | Some doc \<Rightarrow>
          (case joined [checkID (en_CredentialID candidate), checkSized (en_Salt candidate) SaltSize, checkSized (en_PRF candidate) PRFSize] of
             Inl e \<Rightarrow> (Some e, v)
           | Inr _ \<Rightarrow>
               (case prove lib doc authorizer of
                  Inl e \<Rightarrow> (Some e, auditDenied env ''add-wrap-denied'' doc (pf_CredentialID authorizer) (en_CredentialID candidate) v)
                | Inr bk \<Rightarrow>
                    if find_wrap doc (en_CredentialID candidate) \<noteq> None then (Some ErrWrapExists, v)
                    else if length (doc_Wraps doc) \<ge> maxWraps then (Some ErrInvalidInput, v)
                    else (case wrapBodyKey lib (ve_rand1 env) bk (en_PRF candidate) (doc_ID doc) (en_CredentialID candidate) (en_Salt candidate) of
                            Inl e \<Rightarrow> (Some e, v)
                          | Inr (nonce, ct) \<Rightarrow>
                              commit lib env
                                (doc\<lparr>doc_Wraps := doc_Wraps doc @ [\<lparr>w_CredentialID = en_CredentialID candidate, w_Salt = en_Salt candidate,
                                   w_Nonce = nonce, w_Ct = ct\<rparr>]\<rparr>)
                                (audit_of ''add-wrap'' doc (pf_CredentialID authorizer) (en_CredentialID candidate)) v)))))"

definition RemoveWrap :: "vault_lib \<Rightarrow> vault_env \<Rightarrow> passkey_proof \<Rightarrow> string \<Rightarrow> vsys \<Rightarrow> vault_err option \<times> vsys" where
  "RemoveWrap lib env authorizer target v =
     (if vt_closed v then (Some ErrClosed, v)
      else (case vt_doc v of
        None \<Rightarrow> (Some ErrNotInitialized, v)
      | Some doc \<Rightarrow>
          (case vt_key v of
             None \<Rightarrow> (Some ErrLocked, v)
           | Some key \<Rightarrow>
               if failed (checkID target) then (Some ErrInvalidInput, v)
               else if pf_CredentialID authorizer = target then (Some ErrSameCredential, v)
               else (case prove lib doc authorizer of
                  Inl e \<Rightarrow> (Some e, auditDenied env ''remove-wrap-denied'' doc (pf_CredentialID authorizer) target v)
                | Inr bk \<Rightarrow>
                    if bk \<noteq> key then (Some ErrUnlockFailed, v)
                    else if length (doc_Wraps doc) \<le> 1 then (Some ErrLastWrap, v)
                    else if find_wrap doc target = None then (Some ErrWrapNotFound, v)
                    else commit lib env
                           (doc\<lparr>doc_Wraps := filter (\<lambda>w. w_CredentialID w \<noteq> target) (doc_Wraps doc)\<rparr>)
                           (audit_of ''remove-wrap'' doc (pf_CredentialID authorizer) target) v))))"

section \<open>Items\<close>

fun index_item :: "item_record list \<Rightarrow> string \<Rightarrow> string \<Rightarrow> nat option" where
  "index_item [] kind name = None"
| "index_item (it # its) kind name =
     (if it_Kind it = kind \<and> it_Name it = name then Some 0 else map_option Suc (index_item its kind name))"

definition putItem :: "vault_lib \<Rightarrow> vault_env \<Rightarrow> string \<Rightarrow> string \<Rightarrow> string \<Rightarrow> vsys \<Rightarrow> vault_err option \<times> vsys" where
  "putItem lib env kind name plaintext v =
     (if vt_closed v then (Some ErrClosed, v)
      else (case vt_doc v of
        None \<Rightarrow> (Some ErrNotInitialized, v)
      | Some doc \<Rightarrow>
          (case vt_key v of
             None \<Rightarrow> (Some ErrLocked, v)
           | Some key \<Rightarrow>
               if length plaintext > maxItemSize then (Some ErrInvalidInput, v)
               else (case sealItem lib (ve_rand1 env) key (doc_ID doc) kind name plaintext of
                  Inl e \<Rightarrow> (Some e, v)
                | Inr (rnd, ct) \<Rightarrow>
                    let rec = \<lparr>it_Kind = kind, it_Name = name, it_Rand = rnd, it_Ct = ct\<rparr>;
                        put = (\<lambda>its. case vault_write lib (ve_write env) (doc\<lparr>doc_Items := its\<rparr>) v of (_, err, v') \<Rightarrow> (err, v')) in
                    (case index_item (doc_Items doc) kind name of
                       Some i \<Rightarrow> put ((doc_Items doc)[i := rec])
                     | None \<Rightarrow> if length (doc_Items doc) \<ge> maxItems then (Some ErrInvalidInput, v)
                               else put (doc_Items doc @ [rec]))))))"

definition getItem :: "vault_lib \<Rightarrow> string \<Rightarrow> string \<Rightarrow> vsys \<Rightarrow> vault_err + string option" where
  "getItem lib kind name v =
     (if vt_closed v then Inl ErrClosed
      else (case vt_doc v of
        None \<Rightarrow> Inl ErrNotInitialized
      | Some doc \<Rightarrow>
          (case vt_key v of
             None \<Rightarrow> Inl ErrLocked
           | Some key \<Rightarrow>
               (case find (\<lambda>it. it_Kind it = kind \<and> it_Name it = name) (doc_Items doc) of
                  None \<Rightarrow> Inr None
                | Some it \<Rightarrow>
                    (case openItem lib key (doc_ID doc) kind name (it_Rand it) (it_Ct it) of
                       Inl _ \<Rightarrow> Inl ErrFormat
                     | Inr pt \<Rightarrow> Inr (Some pt))))))"

definition PutCredential :: "vault_lib \<Rightarrow> vault_env \<Rightarrow> string \<Rightarrow> secret \<Rightarrow> vsys \<Rightarrow> vault_err option \<times> vsys" where
  "PutCredential lib env name s v =
     (if failed (CheckName name) then (Some ErrInvalidName, v)
      else let val = Reveal s in
      if val = [] \<or> length val > maxSecretSize then (Some ErrInvalidInput, v)
      else putItem lib env kindCredential name val v)"

definition Token :: "vault_lib \<Rightarrow> string \<Rightarrow> vsys \<Rightarrow> vault_err + secret" where
  "Token lib name v =
     bindR (CheckName name) (\<lambda>_.
     bindR (getItem lib kindCredential name v) (\<lambda>r.
     case r of None \<Rightarrow> Inl ErrCredentialNotFound | Some pt \<Rightarrow> Inr (New_secret pt)))"

definition Put_state :: "vault_lib \<Rightarrow> vault_env \<Rightarrow> string \<Rightarrow> state_file list \<Rightarrow> vsys \<Rightarrow> vault_err option \<times> vsys" where
  "Put_state lib env agent fs v =
     (case CheckName agent of
        Inl e \<Rightarrow> (Some e, v)
      | Inr _ \<Rightarrow>
          (case CheckFiles fs of
             Inl e \<Rightarrow> (Some e, v)
           | Inr _ \<Rightarrow>
               (case lib_marshal_files lib fs of
                  None \<Rightarrow> (Some ErrOther, v)
                | Some pt \<Rightarrow> putItem lib env kindLoginState agent pt v)))"

definition Get_state :: "vault_lib \<Rightarrow> string \<Rightarrow> vsys \<Rightarrow> vault_err + state_file list" where
  "Get_state lib agent v =
     bindR (CheckName agent) (\<lambda>_.
     bindR (getItem lib kindLoginState agent v) (\<lambda>r.
     case r of
       None \<Rightarrow> Inl ErrStateNotFound
     | Some pt \<Rightarrow>
         (case lib_decode_files lib pt of
            None \<Rightarrow> Inl ErrFormat
          | Some fs \<Rightarrow> bindR (CheckFiles fs) (\<lambda>_. Inr fs))))"

section \<open>Reset (reset.go)\<close>

record reset_env =
  rs_exists :: bool
  rs_dir :: dir_env
  rs_file :: file_env
  rs_audit :: audit_env
  rs_remove_json :: bool
  rs_remove_tmp :: bool
  rs_syncdir :: bool

definition readVaultID :: "vault_lib \<Rightarrow> file_env \<Rightarrow> 'a vdir_scheme \<Rightarrow> string" where
  "readVaultID lib fe d =
     (case readRegular fe (fd_json d) maxFileSize of
        Inr (Some dat) \<Rightarrow>
          (case lib_id lib dat of
             None \<Rightarrow> ''unknown''
           | Some vid \<Rightarrow> if length vid \<noteq> vaultIDSize then ''unknown'' else hex_encode vid)
      | _ \<Rightarrow> ''unknown'')"

definition v_Reset :: "vault_lib \<Rightarrow> reset_env \<Rightarrow> string \<Rightarrow> vdir \<Rightarrow> (vault_err + string) \<times> vdir" where
  "v_Reset lib re expectID d =
     (if \<not> rs_exists re then (Inl ErrNotInitialized, d)
      else (case bindR (checkDir (rs_dir re)) (\<lambda>_. lockDir (rs_dir re) d) of
        Inl e \<Rightarrow> (Inl e, d)
      | Inr d1 \<Rightarrow>
          let unlock = (\<lambda>x. x\<lparr>fd_locked := False\<rparr>);
              vaultID = readVaultID lib (rs_file re) d1 in
          if expectID \<noteq> [] \<and> expectID \<noteq> vaultID then (Inl ErrVaultChanged, unlock d1)
          else (case appendAudit (rs_audit re) \<lparr>au_Event = ''reset'', au_VaultID = vaultID, au_Credential = [], au_Target = []\<rparr> d1 of
            (Some e, d2) \<Rightarrow> (Inl e, unlock d2)
          | (None, d2) \<Rightarrow>
              if \<not> rs_remove_json re then (Inl ErrOther, unlock d2)
              else let d3 = d2\<lparr>fd_json := None\<rparr> in
              if \<not> rs_remove_tmp re then (Inl ErrOther, unlock d3)
              else let d4 = d3\<lparr>fd_tmp := None\<rparr> in
              if \<not> rs_syncdir re then (Inl ErrOther, unlock d4)
              else (Inr vaultID, unlock d4))))"

definition PeekID :: "vault_lib \<Rightarrow> reset_env \<Rightarrow> vdir \<Rightarrow> vault_err + string" where
  "PeekID lib re d =
     (if \<not> rs_exists re then Inl ErrNotInitialized
      else bindR (checkDir (rs_dir re)) (\<lambda>_. Inr (readVaultID lib (rs_file re) d)))"

section \<open>Sequences of calls\<close>

datatype vault_op =
    VInit string string string
  | VUnlock string string
  | VAddWrap passkey_proof enrollment
  | VRemoveWrap passkey_proof string
  | VPutCredential string secret
  | VPut string "state_file list"
  | VLock
  | VClose

fun run_op :: "vault_lib \<Rightarrow> vault_env \<Rightarrow> vault_op \<Rightarrow> vsys \<Rightarrow> vault_err option \<times> vsys" where
  "run_op lib env (VInit c salt prf) v = v_Init lib env c salt prf v"
| "run_op lib env (VUnlock c prf) v = v_Unlock lib c prf v"
| "run_op lib env (VAddWrap a c) v = AddWrap lib env a c v"
| "run_op lib env (VRemoveWrap a t) v = RemoveWrap lib env a t v"
| "run_op lib env (VPutCredential n x) v = PutCredential lib env n x v"
| "run_op lib env (VPut a fs) v = Put_state lib env a fs v"
| "run_op lib env VLock v = (None, v_Lock v)"
| "run_op lib env VClose v = (None, v_Close v)"

fun run_ops :: "vault_lib \<Rightarrow> (vault_env \<times> vault_op) list \<Rightarrow> vsys \<Rightarrow> vsys" where
  "run_ops lib [] v = v"
| "run_ops lib ((env, op) # ops) v = run_ops lib ops (snd (run_op lib env op v))"

definition wraps :: "vsys \<Rightarrow> wrap_record list" where
  "wraps v = (case vt_doc v of None \<Rightarrow> [] | Some doc \<Rightarrow> doc_Wraps doc)"

text \<open>The invariant: what is in memory is what lies on the disk, and it is valid.\<close>

definition on_disk :: "vault_lib \<Rightarrow> vsys \<Rightarrow> document \<Rightarrow> bool" where
  "on_disk lib v doc \<longleftrightarrow> doc_validate doc = Inr () \<and>
     (\<exists>s. fd_json v = Some s \<and> length s \<le> maxFileSize \<and> lib_decode lib s = Some (doc, False))"

definition vault_inv :: "vault_lib \<Rightarrow> vsys \<Rightarrow> bool" where
  "vault_inv lib v \<longleftrightarrow>
     (case vt_doc v of None \<Rightarrow> fd_json v = None \<and> vt_key v = None | Some doc \<Rightarrow> on_disk lib v doc) \<and>
     (case vt_key v of None \<Rightarrow> True | Some k \<Rightarrow> length k = keySize) \<and>
     (if vt_closed v then vt_key v = None else fd_locked v)"

section \<open>Lemmas\<close>

subsection \<open>How the state may change\<close>

text \<open>A call leaves the document alone, up to entries in the log and remains in the temporary file, or replaces it.\<close>

inductive touched :: "vsys \<Rightarrow> audit_entry list \<Rightarrow> vsys \<Rightarrow> bool" for v where
  touched: "touched v es (v\<lparr>fd_audit := fd_audit v @ es, fd_tmp := tmp\<rparr>)"

inductive replaced :: "vault_lib \<Rightarrow> vsys \<Rightarrow> document \<Rightarrow> audit_entry list \<Rightarrow> vsys \<Rightarrow> bool" for lib v doc where
  replaced: "\<lbrakk>lib_marshal lib doc = Some s; length s \<le> maxFileSize\<rbrakk> \<Longrightarrow>
     replaced lib v doc es (v\<lparr>fd_audit := fd_audit v @ es, fd_tmp := None, fd_json := Some s, vt_doc := Some doc\<rparr>)"

inductive_cases touchedE: "touched v es v'"
inductive_cases replacedE: "replaced lib v doc es v'"

lemma touched_refl [simp]: "touched v [] v"
  using touched [of v "[]" "fd_tmp v"] by simp

lemma touched_fields:
  "touched v es v' \<Longrightarrow> vt_doc v' = vt_doc v \<and> vt_key v' = vt_key v \<and> vt_closed v' = vt_closed v \<and> fd_json v' = fd_json v \<and>
     fd_locked v' = fd_locked v \<and> fd_audit v' = fd_audit v @ es"
  by (auto elim!: touchedE)

lemma replaced_fields:
  "replaced lib v doc es v' \<Longrightarrow> vt_doc v' = Some doc \<and> vt_key v' = vt_key v \<and> vt_closed v' = vt_closed v \<and>
     fd_locked v' = fd_locked v \<and> fd_audit v' = fd_audit v @ es"
  by (auto elim!: replacedE)

lemma touched_audit:
  assumes "touched v es v'"
  shows "touched v (es @ es') (v'\<lparr>fd_audit := fd_audit v' @ es'\<rparr>)"
proof -
  from assms obtain tmp where "v' = v\<lparr>fd_audit := fd_audit v @ es, fd_tmp := tmp\<rparr>" by (auto elim: touchedE)
  then have "v'\<lparr>fd_audit := fd_audit v' @ es'\<rparr> = v\<lparr>fd_audit := fd_audit v @ (es @ es'), fd_tmp := tmp\<rparr>" by simp
  then show ?thesis using touched [of v "es @ es'" tmp] by (simp only:)
qed

lemma replaced_audit:
  assumes "replaced lib v doc es v'"
  shows "replaced lib v doc (es @ es') (v'\<lparr>fd_audit := fd_audit v' @ es'\<rparr>)"
proof -
  from assms obtain s where s: "v' = v\<lparr>fd_audit := fd_audit v @ es, fd_tmp := None, fd_json := Some s, vt_doc := Some doc\<rparr>"
    "lib_marshal lib doc = Some s" "length s \<le> maxFileSize" by (auto elim: replacedE)
  then have "v'\<lparr>fd_audit := fd_audit v' @ es'\<rparr> =
     v\<lparr>fd_audit := fd_audit v @ (es @ es'), fd_tmp := None, fd_json := Some s, vt_doc := Some doc\<rparr>" by simp
  then show ?thesis using replaced [OF s(2,3), of v "es @ es'"] by (simp only:)
qed

lemma vault_inv_touched: "vault_inv lib v \<Longrightarrow> touched v es v' \<Longrightarrow> vault_inv lib v'"
  by (auto elim!: touchedE simp: vault_inv_def on_disk_def split: option.splits)

lemma vault_inv_replaced:
  assumes "lib_ok lib" "vault_inv lib v" "replaced lib v doc es v'" "doc_validate doc = Inr ()"
  shows "vault_inv lib v'"
proof -
  have "\<And>s. lib_marshal lib doc = Some s \<Longrightarrow> lib_decode lib s = Some (doc, False)"
    using assms(1,4) by (fastforce simp: lib_ok_def json_ok_def)
  then show ?thesis
    using assms by (auto elim!: replacedE simp: vault_inv_def on_disk_def split: option.splits)
qed

lemma vault_write_effect:
  assumes "vault_write lib we doc v = (applied, err, v')"
  shows "if applied then replaced lib v doc [] v' \<and> err \<in> {None, Some ErrNotDurable} else touched v [] v' \<and> err \<notin> {None, Some ErrNotDurable}"
proof -
  obtain a e d where w: "writeDocument lib we doc v = (a, e, d)" by (cases "writeDocument lib we doc v")
  from w show ?thesis
  proof (cases rule: writeDocument_cases)
    case (applied s)
    then have "v' = v\<lparr>fd_audit := fd_audit v @ [], fd_tmp := None, fd_json := Some s, vt_doc := Some doc\<rparr>"
      using assms w by (auto simp: vault_write_def)
    with applied replaced [of lib doc s v "[]"] assms w show ?thesis by (auto simp: vault_write_def split: if_splits)
  next
    case (kept tmp)
    then show ?thesis using assms w touched [of v "[]" tmp] by (auto simp: vault_write_def)
  qed
qed

lemma commit_effect:
  assumes "commit lib env doc e v = (err, v')"
  shows "(\<exists>es. replaced lib v doc (e # es) v' \<and> err \<in> {None, Some ErrNotDurable}) \<or> (\<exists>es. touched v es v' \<and> err \<notin> {None})"
proof -
  obtain err1 v1 where a1: "appendAudit (ve_audit1 env) e v = (err1, v1)" by fastforce
  obtain ap err2 v2 where w: "vault_write lib (ve_write env) doc v1 = (ap, err2, v2)" by (cases "vault_write lib (ve_write env) doc v1")
  obtain err3 v3 where a2: "appendAudit (ve_audit2 env) (e\<lparr>au_Event := au_Event e @ (if ap then ''-not-durable'' else ''-failed'')\<rparr>) v2 = (err3, v3)"
    by fastforce
  have t1: "\<exists>es. touched v es v1 \<and> (err1 = None \<longrightarrow> v1 = v\<lparr>fd_audit := fd_audit v @ [e]\<rparr>)"
    using a1 by (cases rule: appendAudit_cases) (auto intro: exI [of _ "[]"] exI [of _ "[e]"] touched [of v "[e]" "fd_tmp v", simplified])
  show ?thesis
  proof (cases err1)
    case (Some x)
    with t1 assms a1 show ?thesis by (auto simp: commit_def)
  next
    case None
    then have v1: "v1 = v\<lparr>fd_audit := fd_audit v @ [e]\<rparr>" using t1 by blast
    have eff: "if ap then replaced lib v doc [e] v2 \<and> err2 \<in> {None, Some ErrNotDurable} else touched v [e] v2 \<and> err2 \<notin> {None, Some ErrNotDurable}"
      using vault_write_effect [OF w] unfolding v1
      by (auto elim!: touchedE replacedE intro: touched [of v "[e]", simplified] replaced [of lib doc _ v "[e]", simplified] split: if_splits)
    have "\<exists>es. v3 = v2\<lparr>fd_audit := fd_audit v2 @ es\<rparr>"
      using a2 by (cases rule: appendAudit_cases) (auto intro: exI [of _ "[]"])
    then obtain es where v3: "v3 = v2\<lparr>fd_audit := fd_audit v2 @ es\<rparr>" by blast
    have res: "(err, v') = (case err2 of None \<Rightarrow> (None, v2) | Some x \<Rightarrow> (Some x, v3))"
      using assms a1 None w a2 by (auto simp: commit_def split: option.splits)
    show ?thesis
    proof (cases ap)
      case True
      then have "replaced lib v doc [e] v2" "err2 \<in> {None, Some ErrNotDurable}" using eff by simp_all
      moreover from this have "replaced lib v doc (e # es) v3"
        using v3 replaced_audit [of lib v doc "[e]" v2 es] by simp
      ultimately show ?thesis using res by (auto split: option.splits)
    next
      case False
      then have "touched v [e] v2" "err2 \<noteq> None" using eff by auto
      moreover from this have "touched v (e # es) v3"
        using v3 touched_audit [of v "[e]" v2 es] by simp
      ultimately show ?thesis using res by (auto split: option.splits)
    qed
  qed
qed

subsection \<open>Items\<close>

lemma index_item_find:
  "index_item its k n = Some i \<Longrightarrow>
     i < length its \<and> it_Kind (its ! i) = k \<and> it_Name (its ! i) = n \<and>
     find (\<lambda>it. it_Kind it = k \<and> it_Name it = n) (its[i := it']) =
       (if it_Kind it' = k \<and> it_Name it' = n then Some it' else find (\<lambda>it. it_Kind it = k \<and> it_Name it = n) (its[i := it']))"
  by (induction its arbitrary: i) (auto split: if_splits)

lemma index_item_None: "index_item its k n = None \<longleftrightarrow> (\<forall>it\<in>set its. \<not> (it_Kind it = k \<and> it_Name it = n))"
  by (induction its) auto

lemma find_update_other:
  "i < length xs \<Longrightarrow> \<not> P (xs ! i) \<Longrightarrow> \<not> P y \<Longrightarrow> find P (xs[i := y]) = find P xs"
  by (induction xs arbitrary: i) (auto split: nat.splits)

lemma find_append: "find P (xs @ ys) = (case find P xs of None \<Rightarrow> find P ys | Some x \<Rightarrow> Some x)"
  by (induction xs) auto

definition put_items :: "item_record list \<Rightarrow> item_record \<Rightarrow> item_record list" where
  "put_items its it = (case index_item its (it_Kind it) (it_Name it) of Some i \<Rightarrow> its[i := it] | None \<Rightarrow> its @ [it])"

lemma find_put_items:
  "find (\<lambda>x. it_Kind x = k \<and> it_Name x = n) (put_items its it) =
     (if it_Kind it = k \<and> it_Name it = n then Some it else find (\<lambda>x. it_Kind x = k \<and> it_Name x = n) its)"
proof (cases "index_item its (it_Kind it) (it_Name it)")
  case None
  then have "find (\<lambda>x. it_Kind x = it_Kind it \<and> it_Name x = it_Name it) its = None"
    by (auto simp: index_item_None find_None_iff)
  with None show ?thesis by (auto simp: put_items_def find_append split: option.splits)
next
  case (Some i)
  from index_item_find [OF Some, of it] show ?thesis
    by (auto simp: put_items_def Some find_update_other)
qed

lemma item_key_put:
  "set (map item_key (put_items its it)) = insert (item_key it) (set (map item_key its)) \<and>
   (distinct (map item_key its) \<longrightarrow> distinct (map item_key (put_items its it)))"
proof (cases "index_item its (it_Kind it) (it_Name it)")
  case None
  then have "put_items its it = its @ [it]" by (simp add: put_items_def)
  then show ?thesis using None by (auto simp: index_item_None item_key_def)
next
  case (Some i)
  from index_item_find [OF Some] have i: "i < length its" "item_key (its ! i) = item_key it" by (auto simp: item_key_def)
  then have "map item_key (its[i := it]) = map item_key its" by (metis list_update_id map_update nth_map length_map)
  moreover from i have "item_key it \<in> set (map item_key its)" by (metis length_map nth_map nth_mem)
  ultimately show ?thesis by (auto simp: put_items_def Some insert_absorb)
qed

lemma put_items_wf: "list_all wf_item its \<Longrightarrow> wf_item it \<Longrightarrow> list_all wf_item (put_items its it)"
  by (auto simp: put_items_def list_all_iff split: option.splits dest: subsetD [OF set_update_subset_insert])

definition item_room :: "item_record list \<Rightarrow> string \<Rightarrow> string \<Rightarrow> bool" where
  "item_room its k n \<longleftrightarrow> index_item its k n \<noteq> None \<or> length its < maxItems"

lemma put_items_length:
  "item_room its (it_Kind it) (it_Name it) \<Longrightarrow> length its \<le> 128 \<Longrightarrow> length (put_items its it) \<le> 128"
  by (auto simp: put_items_def item_room_def maxItems_def split: option.splits)

lemma putItem_effect:
  assumes "putItem lib env kind name pt v = (err, v')"
  shows "(\<exists>doc key rnd ct. vt_closed v = False \<and> vt_doc v = Some doc \<and> vt_key v = Some key \<and>
      sealItem lib (ve_rand1 env) key (doc_ID doc) kind name pt = Inr (rnd, ct) \<and> item_room (doc_Items doc) kind name \<and>
      replaced lib v (doc\<lparr>doc_Items := put_items (doc_Items doc) \<lparr>it_Kind = kind, it_Name = name, it_Rand = rnd, it_Ct = ct\<rparr>\<rparr>) [] v' \<and>
      err \<in> {None, Some ErrNotDurable}) \<or>
    touched v [] v' \<and> err \<notin> {None, Some ErrNotDurable}"
proof (cases "\<exists>doc key rnd ct. vt_closed v = False \<and> vt_doc v = Some doc \<and> vt_key v = Some key \<and> length pt \<le> maxItemSize \<and>
    sealItem lib (ve_rand1 env) key (doc_ID doc) kind name pt = Inr (rnd, ct) \<and> item_room (doc_Items doc) kind name")
  case False
  then have "v' = v \<and> err \<notin> {None, Some ErrNotDurable}"
    using assms unfolding putItem_def item_room_def
    by (auto simp: Let_def not_le dest: sealItem_Inl split: if_splits option.splits sum.splits)
  then show ?thesis by simp
next
  case True
  then obtain doc key rnd ct where c: "vt_closed v = False" "vt_doc v = Some doc" "vt_key v = Some key" "length pt \<le> maxItemSize"
    "sealItem lib (ve_rand1 env) key (doc_ID doc) kind name pt = Inr (rnd, ct)" "item_room (doc_Items doc) kind name" by blast
  let ?doc = "doc\<lparr>doc_Items := put_items (doc_Items doc) \<lparr>it_Kind = kind, it_Name = name, it_Rand = rnd, it_Ct = ct\<rparr>\<rparr>"
  obtain ap e w where w: "vault_write lib (ve_write env) ?doc v = (ap, e, w)" by (cases "vault_write lib (ve_write env) ?doc v")
  have "(err, v') = (e, w)"
    using assms c w unfolding putItem_def item_room_def
    by (auto simp: Let_def put_items_def split: option.splits)
  then show ?thesis using vault_write_effect [OF w] c by (cases ap) auto
qed

subsection \<open>Passkeys\<close>

lemma find_wrap_Some: "find_wrap doc c = Some w \<Longrightarrow> w_CredentialID w = c \<and> w \<in> set (doc_Wraps doc)"
  by (auto simp: find_wrap_def find_Some_iff)

lemma find_wrap_None: "find_wrap doc c = None \<longleftrightarrow> c \<notin> w_CredentialID ` set (doc_Wraps doc)"
  by (auto simp: find_wrap_def find_None_iff)

lemma joined_iff [simp]: "joined rs = Inr u \<longleftrightarrow> (\<forall>r\<in>set rs. r = Inr ())"
  by (simp add: joined_def)

lemma checks_iff [simp]:
  "checkID s = Inr u \<longleftrightarrow> validID s" "checkSized b n = Inr u \<longleftrightarrow> length b = n"
  by (simp_all add: checkID_def checkSized_def)

lemma prove_length: "prove lib doc p = Inr bk \<Longrightarrow> length bk = keySize"
  by (auto simp: prove_def split: option.splits sum.splits dest: unwrapBodyKey_length)

lemma find_filter_other:
  "(\<And>x. P x \<Longrightarrow> Q x) \<Longrightarrow> find P (filter Q xs) = find P xs"
  by (induction xs) auto

definition add_wrap :: "document \<Rightarrow> wrap_record \<Rightarrow> document" where
  "add_wrap doc w = doc\<lparr>doc_Wraps := doc_Wraps doc @ [w]\<rparr>"

definition del_wrap :: "document \<Rightarrow> string \<Rightarrow> document" where
  "del_wrap doc c = doc\<lparr>doc_Wraps := filter (\<lambda>w. w_CredentialID w \<noteq> c) (doc_Wraps doc)\<rparr>"

lemma find_wrap_add:
  "find_wrap doc (w_CredentialID w) = None \<Longrightarrow>
     find_wrap (add_wrap doc w) c = (if c = w_CredentialID w then Some w else find_wrap doc c)"
  by (auto simp: find_wrap_def add_wrap_def find_append split: option.splits)

lemma find_wrap_del: "find_wrap (del_wrap doc t) c = (if c = t then None else find_wrap doc c)"
  by (auto simp: find_wrap_def del_wrap_def find_None_iff intro: find_filter_other)

lemma prove_other:
  assumes "find_wrap doc' (pf_CredentialID p) = find_wrap doc (pf_CredentialID p)" "doc_ID doc' = doc_ID doc"
  shows "prove lib doc' p = prove lib doc p"
  unfolding prove_def assms ..

lemma auditDenied_touched: "\<exists>es. touched v es (auditDenied env ev doc x y v)"
  using touched [of v _ "fd_tmp v"]
  by (auto simp: auditDenied_def appendAudit_def Let_def intro: exI [of _ "[]"] exI [of _ "[audit_of ev doc x y]"])

lemma refused_touched:
  assumes "v' = v \<and> err \<noteq> None \<or> (\<exists>ev doc x y. v' = auditDenied env ev doc x y v \<and> err \<noteq> None)"
  shows "\<exists>es. touched v es v' \<and> err \<noteq> None"
  using assms auditDenied_touched touched_refl by metis

lemma AddWrap_effect:
  assumes "AddWrap lib env a c v = (err, v')"
  shows "(\<exists>doc bk nonce ct es. vt_closed v = False \<and> vt_doc v = Some doc \<and> prove lib doc a = Inr bk \<and>
      find_wrap doc (en_CredentialID c) = None \<and> length (doc_Wraps doc) < maxWraps \<and>
      validID (en_CredentialID c) \<and> length (en_Salt c) = SaltSize \<and> length (en_PRF c) = PRFSize \<and>
      wrapBodyKey lib (ve_rand1 env) bk (en_PRF c) (doc_ID doc) (en_CredentialID c) (en_Salt c) = Inr (nonce, ct) \<and>
      replaced lib v (add_wrap doc \<lparr>w_CredentialID = en_CredentialID c, w_Salt = en_Salt c, w_Nonce = nonce, w_Ct = ct\<rparr>)
        (audit_of ''add-wrap'' doc (pf_CredentialID a) (en_CredentialID c) # es) v' \<and> err \<in> {None, Some ErrNotDurable}) \<or>
    (\<exists>es. touched v es v' \<and> err \<noteq> None)"
proof (cases "\<exists>doc bk nonce ct. vt_closed v = False \<and> vt_doc v = Some doc \<and> prove lib doc a = Inr bk \<and>
      find_wrap doc (en_CredentialID c) = None \<and> length (doc_Wraps doc) < maxWraps \<and>
      validID (en_CredentialID c) \<and> length (en_Salt c) = SaltSize \<and> length (en_PRF c) = PRFSize \<and>
      wrapBodyKey lib (ve_rand1 env) bk (en_PRF c) (doc_ID doc) (en_CredentialID c) (en_Salt c) = Inr (nonce, ct)")
  case False
  have "v' = v \<and> err \<noteq> None \<or> (\<exists>ev doc x y. v' = auditDenied env ev doc x y v \<and> err \<noteq> None)"
    using assms False unfolding AddWrap_def
    by (auto simp: joined_def split: if_splits option.splits sum.splits)
  from refused_touched [OF this] show ?thesis by (rule disjI2)
next
  case True
  then obtain doc bk nonce ct where t: "vt_closed v = False" "vt_doc v = Some doc" "prove lib doc a = Inr bk"
      "find_wrap doc (en_CredentialID c) = None" "length (doc_Wraps doc) < maxWraps"
      "validID (en_CredentialID c)" "length (en_Salt c) = SaltSize" "length (en_PRF c) = PRFSize"
      "wrapBodyKey lib (ve_rand1 env) bk (en_PRF c) (doc_ID doc) (en_CredentialID c) (en_Salt c) = Inr (nonce, ct)" by blast
  let ?doc = "add_wrap doc \<lparr>w_CredentialID = en_CredentialID c, w_Salt = en_Salt c, w_Nonce = nonce, w_Ct = ct\<rparr>"
  have "commit lib env ?doc (audit_of ''add-wrap'' doc (pf_CredentialID a) (en_CredentialID c)) v = (err, v')"
    using assms t by (simp add: AddWrap_def add_wrap_def joined_def checkID_def checkSized_def)
  from commit_effect [OF this] t show ?thesis by auto
qed

lemma RemoveWrap_effect:
  assumes "RemoveWrap lib env a t v = (err, v')"
  shows "(\<exists>doc bk es. vt_closed v = False \<and> vt_doc v = Some doc \<and> vt_key v = Some bk \<and> prove lib doc a = Inr bk \<and>
      pf_CredentialID a \<noteq> t \<and> validID t \<and> 1 < length (doc_Wraps doc) \<and> find_wrap doc t \<noteq> None \<and>
      replaced lib v (del_wrap doc t) (audit_of ''remove-wrap'' doc (pf_CredentialID a) t # es) v' \<and> err \<in> {None, Some ErrNotDurable}) \<or>
    (\<exists>es. touched v es v' \<and> err \<noteq> None)"
proof (cases "\<exists>doc bk. vt_closed v = False \<and> vt_doc v = Some doc \<and> vt_key v = Some bk \<and> prove lib doc a = Inr bk \<and>
      pf_CredentialID a \<noteq> t \<and> validID t \<and> 1 < length (doc_Wraps doc) \<and> find_wrap doc t \<noteq> None")
  case False
  have "v' = v \<and> err \<noteq> None \<or> (\<exists>ev doc x y. v' = auditDenied env ev doc x y v \<and> err \<noteq> None)"
    using assms False unfolding RemoveWrap_def
    by (auto simp: checkID_def split: if_splits option.splits sum.splits)
  from refused_touched [OF this] show ?thesis by (rule disjI2)
next
  case True
  then obtain doc bk where c: "vt_closed v = False" "vt_doc v = Some doc" "vt_key v = Some bk" "prove lib doc a = Inr bk"
      "pf_CredentialID a \<noteq> t" "validID t" "1 < length (doc_Wraps doc)" "find_wrap doc t \<noteq> None" by blast
  have "commit lib env (del_wrap doc t) (audit_of ''remove-wrap'' doc (pf_CredentialID a) t) v = (err, v')"
    using assms c by (simp add: RemoveWrap_def del_wrap_def checkID_def)
  from commit_effect [OF this] c show ?thesis by auto
qed

definition init_doc :: "string \<Rightarrow> wrap_record \<Rightarrow> document" where
  "init_doc vid w = \<lparr>doc_Version = formatVersion, doc_ID = vid, doc_Wraps = [w], doc_Items = []\<rparr>"

lemma Init_effect:
  assumes "v_Init lib env c salt prf v = (err, v')"
  shows "(\<exists>vid bk nonce ct es v1. vt_closed v = False \<and> vt_doc v = None \<and> validID c \<and> length salt = SaltSize \<and> length prf = PRFSize \<and>
      length vid = vaultIDSize \<and> length bk = keySize \<and> randBytes (ve_rand2 env) keySize = Inr bk \<and>
      wrapBodyKey lib (ve_rand3 env) bk prf vid c salt = Inr (nonce, ct) \<and>
      replaced lib v (init_doc vid \<lparr>w_CredentialID = c, w_Salt = salt, w_Nonce = nonce, w_Ct = ct\<rparr>)
        (audit_of ''init'' (init_doc vid \<lparr>w_CredentialID = c, w_Salt = salt, w_Nonce = nonce, w_Ct = ct\<rparr>) c [] # es) v1 \<and>
      (if err = None then v' = v1\<lparr>vt_key := Some bk\<rparr> else err = Some ErrNotDurable \<and> v' = v1)) \<or>
    (\<exists>es. touched v es v' \<and> err \<noteq> None)"
proof (cases "\<exists>vid bk nonce ct. vt_closed v = False \<and> vt_doc v = None \<and> validID c \<and> length salt = SaltSize \<and> length prf = PRFSize \<and>
      randBytes (ve_rand1 env) vaultIDSize = Inr vid \<and> randBytes (ve_rand2 env) keySize = Inr bk \<and>
      wrapBodyKey lib (ve_rand3 env) bk prf vid c salt = Inr (nonce, ct)")
  case False
  then have "v' = v \<and> err \<noteq> None"
    using assms unfolding v_Init_def
    by (auto simp: Let_def split: if_splits option.splits sum.splits)
  then show ?thesis using touched_refl by blast
next
  case True
  then obtain vid bk nonce ct where t: "vt_closed v = False" "vt_doc v = None" "validID c" "length salt = SaltSize" "length prf = PRFSize"
    "randBytes (ve_rand1 env) vaultIDSize = Inr vid" "randBytes (ve_rand2 env) keySize = Inr bk"
    "wrapBodyKey lib (ve_rand3 env) bk prf vid c salt = Inr (nonce, ct)" by blast
  let ?doc = "init_doc vid \<lparr>w_CredentialID = c, w_Salt = salt, w_Nonce = nonce, w_Ct = ct\<rparr>"
  obtain e w where w: "commit lib env ?doc (audit_of ''init'' ?doc c []) v = (e, w)" by fastforce
  have res: "(err, v') = (case e of None \<Rightarrow> (None, w\<lparr>vt_key := Some bk\<rparr>) | Some x \<Rightarrow> (Some x, w))"
    using assms t w by (simp add: v_Init_def joined_def checkID_def checkSized_def init_doc_def split: option.splits)
  have l: "length vid = vaultIDSize" "length bk = keySize" using t randBytes_length by blast+
  from commit_effect [OF w] show ?thesis
  proof
    assume "\<exists>es. replaced lib v ?doc (audit_of ''init'' ?doc c [] # es) w \<and> e \<in> {None, Some ErrNotDurable}"
    then obtain es where r: "replaced lib v ?doc (audit_of ''init'' ?doc c [] # es) w" "e \<in> {None, Some ErrNotDurable}" by blast
    then have "if err = None then v' = w\<lparr>vt_key := Some bk\<rparr> else err = Some ErrNotDurable \<and> v' = w" using res by auto
    with r(1) t(1-5,7,8) l show ?thesis by blast
  qed (use res in auto)
qed

subsection \<open>The invariant\<close>

lemma vault_inv_key:
  "vault_inv lib v \<Longrightarrow> \<not> vt_closed v \<Longrightarrow> vt_doc v \<noteq> None \<Longrightarrow> length k = keySize \<Longrightarrow> vault_inv lib (v\<lparr>vt_key := Some k\<rparr>)"
  by (auto simp: vault_inv_def on_disk_def split: option.splits)

lemma vault_inv_lock: "vault_inv lib v \<Longrightarrow> vault_inv lib (v\<lparr>vt_key := None\<rparr>)"
  by (auto simp: vault_inv_def on_disk_def split: option.splits)

lemma vault_inv_doc: "vault_inv lib v \<Longrightarrow> vt_doc v = Some doc \<Longrightarrow> doc_validate doc = Inr ()"
  by (simp add: vault_inv_def on_disk_def)

lemma vault_inv_keySize: "vault_inv lib v \<Longrightarrow> vt_key v = Some k \<Longrightarrow> length k = keySize"
  by (simp add: vault_inv_def)

lemma validate_add_wrap:
  assumes "doc_validate doc = Inr ()" "wf_wrap w" "find_wrap doc (w_CredentialID w) = None" "length (doc_Wraps doc) < maxWraps"
  shows "doc_validate (add_wrap doc w) = Inr ()"
  using assms by (auto simp: doc_validate_iff add_wrap_def find_wrap_None maxWraps_def)

lemma validate_del_wrap:
  assumes "doc_validate doc = Inr ()" "find_wrap doc a \<noteq> None" "a \<noteq> t"
  shows "doc_validate (del_wrap doc t) = Inr ()"
proof -
  from assms(2,3) have "filter (\<lambda>w. w_CredentialID w \<noteq> t) (doc_Wraps doc) \<noteq> []"
    by (auto simp: find_wrap_None filter_empty_conv)
  moreover have "length (filter (\<lambda>w. w_CredentialID w \<noteq> t) (doc_Wraps doc)) \<le> 16"
    using assms(1) by (intro order_trans [OF length_filter_le]) (simp add: doc_validate_iff)
  ultimately show ?thesis
    using assms(1) by (auto simp: doc_validate_iff del_wrap_def list_all_iff intro: distinct_map_filter)
qed

lemma validate_put_items:
  assumes "doc_validate doc = Inr ()" "wf_item it" "item_room (doc_Items doc) (it_Kind it) (it_Name it)"
  shows "doc_validate (doc\<lparr>doc_Items := put_items (doc_Items doc) it\<rparr>) = Inr ()"
  using assms item_key_put [of "doc_Items doc" it] put_items_wf put_items_length by (simp add: doc_validate_iff)

lemma prove_find: "prove lib doc p = Inr bk \<Longrightarrow> find_wrap doc (pf_CredentialID p) \<noteq> None"
  by (auto simp: prove_def split: option.splits)

lemma putItem_inv:
  assumes "lib_ok lib" "vault_inv lib v" "validKind kind" "nameRE name" "putItem lib env kind name pt v = (err, v')"
  shows "vault_inv lib v'"
  using putItem_effect [OF assms(5)]
proof (elim disjE exE conjE)
  fix doc key rnd ct
  assume d: "vt_doc v = Some doc" and sl: "sealItem lib (ve_rand1 env) key (doc_ID doc) kind name pt = Inr (rnd, ct)"
    and room: "item_room (doc_Items doc) kind name"
    and r: "replaced lib v (doc\<lparr>doc_Items := put_items (doc_Items doc) \<lparr>it_Kind = kind, it_Name = name, it_Rand = rnd, it_Ct = ct\<rparr>\<rparr>) [] v'"
  have "gcm_ok lib" using assms(1) by (simp add: lib_ok_def)
  with seal_open_item [OF _ sl] assms(3,4) have "wf_item \<lparr>it_Kind = kind, it_Name = name, it_Rand = rnd, it_Ct = ct\<rparr>"
    by (simp add: wf_item_def)
  then show ?thesis
    using room by (intro vault_inv_replaced [OF assms(1,2) r] validate_put_items vault_inv_doc [OF assms(2) d]) simp_all
qed (use vault_inv_touched [OF assms(2)] in blast)

lemma AddWrap_inv:
  assumes "lib_ok lib" "vault_inv lib v" "AddWrap lib env a c v = (err, v')"
  shows "vault_inv lib v'"
  using AddWrap_effect [OF assms(3)]
proof (elim disjE exE conjE)
  fix doc bk nonce ct es
  let ?w = "\<lparr>w_CredentialID = en_CredentialID c, w_Salt = en_Salt c, w_Nonce = nonce, w_Ct = ct\<rparr>"
  assume d: "vt_doc v = Some doc" "prove lib doc a = Inr bk" "find_wrap doc (en_CredentialID c) = None" "length (doc_Wraps doc) < maxWraps"
    "validID (en_CredentialID c)" "length (en_Salt c) = SaltSize"
    and wr: "wrapBodyKey lib (ve_rand1 env) bk (en_PRF c) (doc_ID doc) (en_CredentialID c) (en_Salt c) = Inr (nonce, ct)"
    and r: "replaced lib v (add_wrap doc ?w) (audit_of ''add-wrap'' doc (pf_CredentialID a) (en_CredentialID c) # es) v'"
  have "wf_wrap ?w"
    using wrap_unwrap [OF _ prove_length [OF d(2)] wr] assms(1) d by (simp add: wf_wrap_def lib_ok_def)
  then show ?thesis
    using d by (intro vault_inv_replaced [OF assms(1,2) r] validate_add_wrap vault_inv_doc [OF assms(2) d(1)]) simp_all
qed (use vault_inv_touched [OF assms(2)] in blast)

lemma RemoveWrap_inv:
  assumes "lib_ok lib" "vault_inv lib v" "RemoveWrap lib env a t v = (err, v')"
  shows "vault_inv lib v'"
  using RemoveWrap_effect [OF assms(3)]
proof (elim disjE exE conjE)
  fix doc bk es
  assume d: "vt_doc v = Some doc" "prove lib doc a = Inr bk" "pf_CredentialID a \<noteq> t"
    and r: "replaced lib v (del_wrap doc t) (audit_of ''remove-wrap'' doc (pf_CredentialID a) t # es) v'"
  show ?thesis
    by (rule vault_inv_replaced [OF assms(1,2) r validate_del_wrap [OF vault_inv_doc [OF assms(2) d(1)] prove_find [OF d(2)] d(3)]])
qed (use vault_inv_touched [OF assms(2)] in blast)

lemma Init_inv:
  assumes "lib_ok lib" "vault_inv lib v" "v_Init lib env c salt prf v = (err, v')"
  shows "vault_inv lib v'"
  using Init_effect [OF assms(3)]
proof (elim disjE exE conjE)
  fix vid bk nonce ct es v1
  let ?w = "\<lparr>w_CredentialID = c, w_Salt = salt, w_Nonce = nonce, w_Ct = ct\<rparr>"
  assume d: "vt_closed v = False" "validID c" "length salt = SaltSize" "length vid = vaultIDSize" "length bk = keySize"
    and wr: "wrapBodyKey lib (ve_rand3 env) bk prf vid c salt = Inr (nonce, ct)"
    and r: "replaced lib v (init_doc vid ?w) (audit_of ''init'' (init_doc vid ?w) c [] # es) v1"
    and e: "if err = None then v' = v1\<lparr>vt_key := Some bk\<rparr> else err = Some ErrNotDurable \<and> v' = v1"
  have "wf_wrap ?w" using wrap_unwrap [OF _ d(5) wr] assms(1) d by (simp add: wf_wrap_def lib_ok_def)
  then have "doc_validate (init_doc vid ?w) = Inr ()" using d by (simp add: doc_validate_iff init_doc_def vault_sizes)
  then have "vault_inv lib v1" by (rule vault_inv_replaced [OF assms(1,2) r])
  with e d replaced_fields [OF r] show ?thesis by (auto intro: vault_inv_key split: if_splits)
qed (use vault_inv_touched [OF assms(2)] in blast)

lemma Unlock_effect:
  "v_Unlock lib c prf v = (err, v') \<Longrightarrow>
     (err \<noteq> None \<and> v' = v) \<or>
     (\<exists>doc bk. err = None \<and> vt_closed v = False \<and> vt_doc v = Some doc \<and>
        prove lib doc \<lparr>pf_CredentialID = c, pf_PRF = prf\<rparr> = Inr bk \<and> v' = v\<lparr>vt_key := Some bk\<rparr>)"
  by (auto simp: v_Unlock_def split: if_splits option.splits sum.splits)

lemma run_op_inv:
  assumes "lib_ok lib" "vault_inv lib v" "run_op lib env op v = (err, v')"
  shows "vault_inv lib v'"
proof (cases op)
  case (VUnlock c p)
  then have "v_Unlock lib c p v = (err, v')" using assms(3) by simp
  from Unlock_effect [OF this] assms(2) show ?thesis by (auto intro: vault_inv_key prove_length)
next
  case (VPutCredential n x)
  then show ?thesis
    using assms putItem_inv [OF assms(1,2), of kindCredential n env "Reveal x" err v']
    by (auto simp: PutCredential_def Let_def validKind_def not_failed_iff split: if_splits)
next
  case (VPut a fs)
  then show ?thesis
    using assms putItem_inv [OF assms(1,2), of kindLoginState a env _ err v']
    by (auto simp: Put_state_def validKind_def split: sum.splits option.splits)
next
  case VClose
  then show ?thesis
    using assms vault_inv_lock [OF assms(2)] by (auto simp: v_Close_def lockLocked_def vault_inv_def on_disk_def split: if_splits option.splits)
next
  case (VInit c salt p)
  then show ?thesis using assms by (auto intro: Init_inv)
next
  case (VAddWrap a c)
  then show ?thesis using assms by (auto intro: AddWrap_inv)
next
  case (VRemoveWrap a t)
  then show ?thesis using assms by (auto intro: RemoveWrap_inv)
next
  case VLock
  then show ?thesis using assms vault_inv_lock [OF assms(2)] by (auto simp: v_Lock_def lockLocked_def)
qed

lemma run_ops_inv: "lib_ok lib \<Longrightarrow> vault_inv lib v \<Longrightarrow> vault_inv lib (run_ops lib ops v)"
proof (induction ops arbitrary: v)
  case (Cons eo ops)
  obtain env op where "eo = (env, op)" by fastforce
  moreover have "vault_inv lib (snd (run_op lib env op v))"
    using run_op_inv [OF Cons.prems, of env op] by (metis prod.collapse)
  ultimately show ?case using Cons.IH [OF Cons.prems(1)] by simp
qed simp

lemma Open_inv:
  assumes "v_Open lib de fe d = Inr v"
  shows "vault_inv lib v \<and> vt_key v = None \<and> \<not> vt_closed v \<and> \<not> fd_locked d"
  using assms
  by (auto simp: v_Open_def lockDir_def loadDocument_def readRegular_def vault_inv_def on_disk_def vdir.defs vsys.defs Let_def
      split: if_splits sum.splits option.splits)

subsection \<open>Reading back\<close>

lemma on_disk_load:
  assumes "vault_inv lib v" "fe_open fe" "checkOwned (fe_stat fe) (fe_euid fe) False = Inr ()" "fe_read fe"
  shows "loadDocument lib fe v = Inr (vt_doc v)"
  using assms by (auto simp: vault_inv_def on_disk_def loadDocument_def readRegular_def split: option.splits)

lemma getItem_replaced:
  assumes "gcm_ok lib" "putItem lib env kind name pt v = (err, v')" "err \<in> {None, Some ErrNotDurable}"
  shows "getItem lib k n v' = (if k = kind \<and> n = name then Inr (Some pt) else getItem lib k n v)"
  using putItem_effect [OF assms(2)]
proof (elim disjE exE conjE)
  fix doc key rnd ct
  let ?it = "\<lparr>it_Kind = kind, it_Name = name, it_Rand = rnd, it_Ct = ct\<rparr>"
  assume d: "vt_closed v = False" "vt_doc v = Some doc" "vt_key v = Some key"
    and sl: "sealItem lib (ve_rand1 env) key (doc_ID doc) kind name pt = Inr (rnd, ct)"
    and r: "replaced lib v (doc\<lparr>doc_Items := put_items (doc_Items doc) ?it\<rparr>) [] v'"
  from replaced_fields [OF r] d have v': "vt_closed v' = False" "vt_key v' = Some key"
    "vt_doc v' = Some (doc\<lparr>doc_Items := put_items (doc_Items doc) ?it\<rparr>)" by auto
  show ?thesis
    using seal_open_item [OF assms(1) sl] by (simp add: getItem_def v' d find_put_items split: option.split)
qed (use assms in auto)

lemma getItem_touched: "touched v es v' \<Longrightarrow> getItem lib k n v' = getItem lib k n v"
  by (elim touchedE) (simp add: getItem_def split: option.split)

section \<open>The stores as interfaces\<close>

text \<open>The state of the interface pairs the library with the vault: the vault is unlocked and keeps its invariant.\<close>

definition store_inv :: "vault_lib \<times> vsys \<Rightarrow> bool" where
  "store_inv s = (case s of (lib, v) \<Rightarrow> lib_ok lib \<and> vault_inv lib v \<and> \<not> vt_closed v)"

definition cred_put :: "vault_env \<Rightarrow> string \<Rightarrow> secret \<Rightarrow> vault_lib \<times> vsys \<Rightarrow> vault_lib \<times> vsys" where
  "cred_put env n x s = (case s of (lib, v) \<Rightarrow> (lib, snd (PutCredential lib env n x v)))"

definition applied :: "vault_err option \<times> vsys \<Rightarrow> bool" where
  "applied r \<longleftrightarrow> fst r = None \<or> fst r = Some ErrNotDurable"

definition cred_stored :: "vault_env \<Rightarrow> string \<Rightarrow> secret \<Rightarrow> vault_lib \<times> vsys \<Rightarrow> bool" where
  "cred_stored env n x s = (case s of (lib, v) \<Rightarrow> applied (PutCredential lib env n x v))"

definition cred_get :: "string \<Rightarrow> vault_lib \<times> vsys \<Rightarrow> vault_err + secret" where
  "cred_get n s = (case s of (lib, v) \<Rightarrow> Token lib n v)"

definition state_put :: "vault_env \<Rightarrow> string \<Rightarrow> state_file list \<Rightarrow> vault_lib \<times> vsys \<Rightarrow> vault_lib \<times> vsys" where
  "state_put env n x s = (case s of (lib, v) \<Rightarrow> (lib, snd (Put_state lib env n x v)))"

definition state_stored :: "vault_env \<Rightarrow> string \<Rightarrow> state_file list \<Rightarrow> vault_lib \<times> vsys \<Rightarrow> bool" where
  "state_stored env n x s = (case s of (lib, v) \<Rightarrow> applied (Put_state lib env n x v))"

definition state_get :: "string \<Rightarrow> vault_lib \<times> vsys \<Rightarrow> vault_err + state_file list" where
  "state_get n s = (case s of (lib, v) \<Rightarrow> Get_state lib n v)"

lemmas store_defs = store_inv_def cred_put_def cred_stored_def cred_get_def state_put_def state_stored_def state_get_def

lemma put_fst: "fst (cred_put e k x s) = fst s" "fst (state_put e k y s) = fst s"
  by (simp_all add: cred_put_def state_put_def split: prod.split)

lemma lib_ok_gcm: "lib_ok lib \<Longrightarrow> gcm_ok lib"
  by (simp add: lib_ok_def)

lemma putItem_get:
  assumes "lib_ok lib" "putItem lib env kind name pt v = (err, v')"
  shows "getItem lib k n v' = (if k = kind \<and> n = name \<and> applied (err, v') then Inr (Some pt) else getItem lib k n v)"
proof (cases "touched v [] v' \<and> err \<notin> {None, Some ErrNotDurable}")
  case True
  then show ?thesis using getItem_touched by (auto simp: applied_def)
next
  case False
  then show ?thesis using putItem_effect [OF assms(2)] getItem_replaced [OF lib_ok_gcm [OF assms(1)] assms(2)] by (auto simp: applied_def)
qed

lemma PutCredential_get:
  assumes "lib_ok lib" "PutCredential lib env name x v = (err, v')"
  shows "getItem lib k n v' = (if k = kindCredential \<and> n = name \<and> applied (err, v') then Inr (Some (Reveal x)) else getItem lib k n v)"
  using assms putItem_get [OF assms(1), of env kindCredential name "Reveal x" v err v']
  by (auto simp: PutCredential_def Let_def applied_def split: if_splits)

lemma Put_state_get:
  assumes "lib_ok lib" "Put_state lib env name fs v = (err, v')"
  shows "if applied (err, v')
    then \<exists>pt. CheckFiles fs = Inr () \<and> lib_decode_files lib pt = Some fs \<and> nameRE name \<and>
      getItem lib k n v' = (if k = kindLoginState \<and> n = name then Inr (Some pt) else getItem lib k n v)
    else getItem lib k n v' = getItem lib k n v"
proof (cases "nameRE name \<and> CheckFiles fs = Inr ()")
  case True
  then obtain pt where pt: "lib_marshal_files lib fs = Some pt" "lib_decode_files lib pt = Some fs"
    using assms(1) by (auto simp: lib_ok_def json_ok_def)
  have "putItem lib env kindLoginState name pt v = (err, v')"
    using assms(2) True pt by (simp add: Put_state_def CheckName_def)
  from putItem_get [OF assms(1) this, of k n] True pt show ?thesis by auto
next
  case False
  then have "v' = v \<and> \<not> applied (err, v')"
    using assms(2) by (auto simp: Put_state_def applied_def CheckName_def split: if_splits sum.splits dest: CheckFiles_Inl)
  then show ?thesis by auto
qed

lemma store_inv_run:
  assumes "store_inv (lib, v)" "run_op lib env op v = (err, v')" "vt_closed v' = vt_closed v"
  shows "store_inv (lib, v')"
  using assms run_op_inv [of lib v env op err v'] by (auto simp: store_inv_def)

lemma putItem_frame:
  "putItem lib env k n pt v = (err, v') \<Longrightarrow>
     vt_closed v' = vt_closed v \<and> vt_key v' = vt_key v \<and> wraps v' = wraps v \<and> fd_audit v' = fd_audit v"
  using putItem_effect [of lib env k n pt v err v'] by (auto dest!: replaced_fields touched_fields simp: wraps_def)

lemma put_frame:
  assumes "run_op lib env (VPutCredential n x) v = (err, v') \<or> run_op lib env (VPut n fs) v = (err, v')"
  shows "vt_closed v' = vt_closed v \<and> vt_key v' = vt_key v \<and> wraps v' = wraps v \<and> fd_audit v' = fd_audit v"
proof -
  have "v' = v \<or> (\<exists>k pt. putItem lib env k n pt v = (err, v'))"
    using assms by (auto simp: PutCredential_def Put_state_def Let_def split: if_splits sum.splits option.splits)
  then show ?thesis using putItem_frame by blast
qed

interpretation creds: keyed_store store_inv cred_put cred_stored cred_get "\<lambda>x. Inr (New_secret (Reveal x))"
proof unfold_locales
  fix s :: "vault_lib \<times> vsys" and e k x k'
  assume i: "store_inv s"
  obtain lib v where s: "s = (lib, v)" by fastforce
  obtain err v' where p: "PutCredential lib e k x v = (err, v')" by fastforce
  have l: "lib_ok lib" using i by (simp add: s store_inv_def)
  show "store_inv (cred_put e k x s)"
    using store_inv_run [of lib v e "VPutCredential k x"] i p put_frame [of lib e k x v err v'] by (simp add: s cred_put_def)
  show "cred_get k (cred_put e k x s) = Inr (New_secret (Reveal x))" if "cred_stored e k x s"
  proof -
    have "nameRE k" using that p by (auto simp: cred_stored_def s applied_def PutCredential_def CheckName_def split: if_splits)
    then show ?thesis
      using that p PutCredential_get [OF l p, of kindCredential k] by (simp add: s store_defs Token_def CheckName_def)
  qed
  show "cred_get k' (cred_put e k x s) = cred_get k' s" if "k' \<noteq> k \<or> \<not> cred_stored e k x s"
    using that p PutCredential_get [OF l p, of kindCredential k'] by (auto simp: s store_defs Token_def)
qed

interpretation states: keyed_store store_inv state_put state_stored state_get Inr
proof unfold_locales
  fix s :: "vault_lib \<times> vsys" and e k x k'
  assume i: "store_inv s"
  obtain lib v where s: "s = (lib, v)" by fastforce
  obtain err v' where p: "Put_state lib e k x v = (err, v')" by fastforce
  have l: "lib_ok lib" using i by (simp add: s store_inv_def)
  show "store_inv (state_put e k x s)"
    using store_inv_run [of lib v e "VPut k x"] i p put_frame [of lib e k _ v err v' x] by (simp add: s state_put_def)
  show "state_get k (state_put e k x s) = Inr x" if "state_stored e k x s"
    using that p Put_state_get [OF l p, of kindLoginState k] by (auto simp: s store_defs Get_state_def CheckName_def)
  show "state_get k' (state_put e k x s) = state_get k' s" if "k' \<noteq> k \<or> \<not> state_stored e k x s"
    using that p Put_state_get [OF l p, of kindLoginState k'] by (auto simp: s store_defs Get_state_def split: if_splits)
qed

subsection \<open>Passkeys after a change\<close>

lemma AddWrap_prove:
  assumes "lib_ok lib" "AddWrap lib env a c v = (None, v')"
  shows "\<exists>doc doc' bk. vt_doc v = Some doc \<and> vt_doc v' = Some doc' \<and> prove lib doc a = Inr bk \<and>
    prove lib doc' \<lparr>pf_CredentialID = en_CredentialID c, pf_PRF = en_PRF c\<rparr> = Inr bk \<and>
    (\<forall>p. pf_CredentialID p = en_CredentialID c \<or> prove lib doc' p = prove lib doc p)"
proof -
  from AddWrap_effect [OF assms(2)] obtain doc bk nonce ct es where d: "vt_doc v = Some doc" "prove lib doc a = Inr bk"
    "find_wrap doc (en_CredentialID c) = None" "validID (en_CredentialID c)" "length (en_PRF c) = PRFSize"
    and wr: "wrapBodyKey lib (ve_rand1 env) bk (en_PRF c) (doc_ID doc) (en_CredentialID c) (en_Salt c) = Inr (nonce, ct)"
    and r: "replaced lib v (add_wrap doc \<lparr>w_CredentialID = en_CredentialID c, w_Salt = en_Salt c, w_Nonce = nonce, w_Ct = ct\<rparr>)
        (audit_of ''add-wrap'' doc (pf_CredentialID a) (en_CredentialID c) # es) v'" by auto
  let ?doc = "add_wrap doc \<lparr>w_CredentialID = en_CredentialID c, w_Salt = en_Salt c, w_Nonce = nonce, w_Ct = ct\<rparr>"
  have u: "unwrapBodyKey lib (en_PRF c) (doc_ID doc) (en_CredentialID c) (en_Salt c) nonce ct = Inr bk"
    using wrap_unwrap [OF lib_ok_gcm [OF assms(1)] prove_length [OF d(2)] wr] by blast
  have f: "find_wrap ?doc x = (if x = en_CredentialID c then Some \<lparr>w_CredentialID = en_CredentialID c, w_Salt = en_Salt c, w_Nonce = nonce, w_Ct = ct\<rparr>
      else find_wrap doc x)" for x
    using find_wrap_add [of doc "\<lparr>w_CredentialID = en_CredentialID c, w_Salt = en_Salt c, w_Nonce = nonce, w_Ct = ct\<rparr>"] d by simp
  have i: "doc_ID ?doc = doc_ID doc" by (simp add: add_wrap_def)
  have "prove lib ?doc \<lparr>pf_CredentialID = en_CredentialID c, pf_PRF = en_PRF c\<rparr> = Inr bk"
    using d u by (simp add: prove_def f i joined_def checkID_def checkSized_def)
  moreover have "pf_CredentialID p = en_CredentialID c \<or> prove lib ?doc p = prove lib doc p" for p
    using prove_other [OF _ i, of p lib] f by (cases "pf_CredentialID p = en_CredentialID c") simp_all
  ultimately show ?thesis using d replaced_fields [OF r] by blast
qed

lemma RemoveWrap_prove:
  assumes "RemoveWrap lib env a t v = (None, v')"
  shows "\<exists>doc doc' bk. vt_doc v = Some doc \<and> vt_doc v' = Some doc' \<and> prove lib doc a = Inr bk \<and> vt_key v = Some bk \<and>
    (\<forall>p. failed (prove lib doc' \<lparr>pf_CredentialID = t, pf_PRF = p\<rparr>)) \<and>
    (\<forall>p. pf_CredentialID p = t \<or> prove lib doc' p = prove lib doc p)"
proof -
  from RemoveWrap_effect [OF assms] obtain doc bk es where d: "vt_doc v = Some doc" "vt_key v = Some bk" "prove lib doc a = Inr bk"
    and r: "replaced lib v (del_wrap doc t) (audit_of ''remove-wrap'' doc (pf_CredentialID a) t # es) v'" by auto
  have "failed (prove lib (del_wrap doc t) \<lparr>pf_CredentialID = t, pf_PRF = p\<rparr>)" for p
    using prove_find [of lib "del_wrap doc t" "\<lparr>pf_CredentialID = t, pf_PRF = p\<rparr>"]
    by (cases "prove lib (del_wrap doc t) \<lparr>pf_CredentialID = t, pf_PRF = p\<rparr>") (simp_all add: find_wrap_del)
  moreover have "pf_CredentialID p = t \<or> prove lib (del_wrap doc t) p = prove lib doc p" for p
    using prove_other [of "del_wrap doc t" p doc lib] by (cases "pf_CredentialID p = t") (simp_all add: find_wrap_del, simp add: del_wrap_def)
  ultimately show ?thesis using d replaced_fields [OF r] by blast
qed

section \<open>Properties\<close>

text \<open>
  C16: Whatever calls follow the opening of a vault, and wherever random source, audit log or any step of
  the replacement of the file fails, the document in memory is the one that reading the directory
  again would deliver, it satisfies all limits, and until it is closed the vault holds the lock.
\<close>

theorem vault_memory_is_disk:
  assumes "lib_ok lib" and "v_Open lib de fe d = Inr v0"
    and "fe_open fe'" and "checkOwned (fe_stat fe') (fe_euid fe') False = Inr ()" and "fe_read fe'"
  shows "loadDocument lib fe' (run_ops lib ops v0) = Inr (vt_doc (run_ops lib ops v0)) \<and>
    (case vt_doc (run_ops lib ops v0) of None \<Rightarrow> True | Some doc \<Rightarrow> doc_validate doc = Inr ()) \<and>
    (vt_closed (run_ops lib ops v0) \<or> fd_locked (run_ops lib ops v0))"
proof -
  have i: "vault_inv lib (run_ops lib ops v0)"
    using run_ops_inv [OF assms(1)] Open_inv [OF assms(2)] by blast
  then show ?thesis
    using on_disk_load [OF i assms(3-5)] by (auto simp: vault_inv_def on_disk_def split: option.splits if_splits)
qed

lemma touched_wraps: "touched v es v' \<Longrightarrow> fd_audit v' = fd_audit v @ es \<and> wraps v' = wraps v"
  using touched_fields by (fastforce simp: wraps_def)

lemma Init_wraps:
  assumes "v_Init lib env c salt p v = (err, v')"
  shows "\<exists>es. fd_audit v' = fd_audit v @ es \<and>
    (wraps v' = wraps v \<or> vt_doc v = None \<and> map w_CredentialID (wraps v') = [c] \<and> es \<noteq> [] \<and> au_Event (hd es) = ''init'')"
  using Init_effect [OF assms]
proof (elim disjE exE conjE)
  fix vid bk nonce ct es v1
  let ?doc = "init_doc vid \<lparr>w_CredentialID = c, w_Salt = salt, w_Nonce = nonce, w_Ct = ct\<rparr>"
  assume d: "vt_doc v = None" and r: "replaced lib v ?doc (audit_of ''init'' ?doc c [] # es) v1"
    and e: "if err = None then v' = v1\<lparr>vt_key := Some bk\<rparr> else err = Some ErrNotDurable \<and> v' = v1"
  have "vt_doc v' = Some ?doc" "fd_audit v' = fd_audit v @ audit_of ''init'' ?doc c [] # es"
    using replaced_fields [OF r] e by (auto split: if_splits)
  then show ?thesis
    using d by (intro exI [of _ "audit_of ''init'' ?doc c [] # es"]) (simp add: wraps_def init_doc_def audit_of_def)
qed (use touched_wraps in blast)

lemma AddWrap_wraps:
  assumes "AddWrap lib env a c v = (err, v')"
  shows "\<exists>es. fd_audit v' = fd_audit v @ es \<and>
    (wraps v' = wraps v \<or>
     (\<exists>doc bk w. vt_doc v = Some doc \<and> prove lib doc a = Inr bk \<and> wraps v' = wraps v @ [w] \<and>
        w_CredentialID w = en_CredentialID c \<and> find_wrap doc (en_CredentialID c) = None) \<and>
     es \<noteq> [] \<and> au_Event (hd es) = ''add-wrap'' \<and> au_Target (hd es) = id_head (en_CredentialID c))"
  using AddWrap_effect [OF assms]
proof (elim disjE exE conjE)
  fix doc bk nonce ct es
  let ?w = "\<lparr>w_CredentialID = en_CredentialID c, w_Salt = en_Salt c, w_Nonce = nonce, w_Ct = ct\<rparr>"
  let ?e = "audit_of ''add-wrap'' doc (pf_CredentialID a) (en_CredentialID c)"
  assume d: "vt_doc v = Some doc" "prove lib doc a = Inr bk" "find_wrap doc (en_CredentialID c) = None"
    and r: "replaced lib v (add_wrap doc ?w) (?e # es) v'"
  have "wraps v' = wraps v @ [?w]" using replaced_fields [OF r] d by (simp add: wraps_def add_wrap_def)
  then show ?thesis
    using d replaced_fields [OF r] by (intro exI [of _ "?e # es"]) (auto simp: audit_of_def)
qed (use touched_wraps in blast)

lemma RemoveWrap_wraps:
  assumes "RemoveWrap lib env a t v = (err, v')"
  shows "\<exists>es. fd_audit v' = fd_audit v @ es \<and>
    (wraps v' = wraps v \<or>
     (\<exists>doc bk. vt_doc v = Some doc \<and> vt_key v = Some bk \<and> prove lib doc a = Inr bk) \<and>
     wraps v' = filter (\<lambda>w. w_CredentialID w \<noteq> t) (wraps v) \<and>
     pf_CredentialID a \<in> w_CredentialID ` set (wraps v') \<and>
     es \<noteq> [] \<and> au_Event (hd es) = ''remove-wrap'' \<and> au_Target (hd es) = id_head t)"
  using RemoveWrap_effect [OF assms]
proof (elim disjE exE conjE)
  fix doc bk es
  let ?e = "audit_of ''remove-wrap'' doc (pf_CredentialID a) t"
  assume d: "vt_doc v = Some doc" "vt_key v = Some bk" "prove lib doc a = Inr bk" "pf_CredentialID a \<noteq> t"
    and r: "replaced lib v (del_wrap doc t) (?e # es) v'"
  have w: "wraps v' = filter (\<lambda>w. w_CredentialID w \<noteq> t) (wraps v)"
    using replaced_fields [OF r] d by (simp add: wraps_def del_wrap_def)
  moreover have "pf_CredentialID a \<in> w_CredentialID ` set (wraps v')"
    using prove_find [OF d(3)] d unfolding w by (auto simp: find_wrap_None wraps_def)
  ultimately show ?thesis
    using d replaced_fields [OF r] by (intro exI [of _ "?e # es"]) (auto simp: audit_of_def)
qed (use touched_wraps in blast)

text \<open>
  C15: The set of passkeys changes in three ways only, and only after an entry in the audit log: the
  first passkey of an uninitialised vault; one passkey added at the end, on the proof of a registered one;
  one removed while the vault is unlocked, on the proof, against the same body key, of another one,
  which stays. No call ever shortens or rewrites the log.
\<close>

theorem wraps_change:
  assumes "run_op lib env op v = (err, v')"
  shows "\<exists>es. fd_audit v' = fd_audit v @ es \<and>
    (wraps v' = wraps v \<or>
     (case op of
        VInit c salt p \<Rightarrow> vt_doc v = None \<and> map w_CredentialID (wraps v') = [c] \<and> es \<noteq> [] \<and> au_Event (hd es) = ''init''
      | VAddWrap a c \<Rightarrow>
          (\<exists>doc bk w. vt_doc v = Some doc \<and> prove lib doc a = Inr bk \<and> wraps v' = wraps v @ [w] \<and>
             w_CredentialID w = en_CredentialID c \<and> find_wrap doc (en_CredentialID c) = None) \<and>
          es \<noteq> [] \<and> au_Event (hd es) = ''add-wrap'' \<and> au_Target (hd es) = id_head (en_CredentialID c)
      | VRemoveWrap a t \<Rightarrow>
          (\<exists>doc bk. vt_doc v = Some doc \<and> vt_key v = Some bk \<and> prove lib doc a = Inr bk) \<and>
          wraps v' = filter (\<lambda>w. w_CredentialID w \<noteq> t) (wraps v) \<and>
          pf_CredentialID a \<in> w_CredentialID ` set (wraps v') \<and>
          es \<noteq> [] \<and> au_Event (hd es) = ''remove-wrap'' \<and> au_Target (hd es) = id_head t
      | _ \<Rightarrow> False))"
proof (cases op)
  case (VInit c salt p)
  then show ?thesis using assms Init_wraps [of lib env c salt p v err v'] by simp
next
  case (VAddWrap a c)
  then show ?thesis using assms AddWrap_wraps [of lib env a c v err v'] by simp
next
  case (VRemoveWrap a t)
  then show ?thesis using assms RemoveWrap_wraps [of lib env a t v err v'] by simp
next
  case (VUnlock c p)
  then have "v_Unlock lib c p v = (err, v')" using assms by simp
  from Unlock_effect [OF this] show ?thesis by (auto simp: wraps_def)
next
  case (VPutCredential n x)
  then show ?thesis using assms put_frame [of lib env n x v err v'] by (auto split: option.splits)
next
  case (VPut a fs)
  then show ?thesis using assms put_frame [of lib env a _ v err v' fs] by (auto split: option.splits)
qed (use assms in \<open>auto simp: v_Lock_def v_Close_def lockLocked_def wraps_def\<close>)

text \<open>
  C17: The body key is in memory only by proof: a call that leaves the vault with another key than
  before is an initialisation of a vault without a document that succeeds, with the key it has just drawn and a document in which the named
  passkey is the only one, or an unlock whose PRF output opens the wrap of the passkey it
  names; and an unlock that fails changes nothing at all.
\<close>

theorem key_only_by_proof:
  assumes "run_op lib env op v = (err, v')"
  shows "(case vt_key v' of
       None \<Rightarrow> True
     | Some k \<Rightarrow> vt_key v = Some k \<or>
         (\<exists>c salt p doc. op = VInit c salt p \<and> err = None \<and> vt_doc v = None \<and> randBytes (ve_rand2 env) keySize = Inr k \<and>
            vt_doc v' = Some doc \<and> map w_CredentialID (doc_Wraps doc) = [c]) \<or>
         (\<exists>c p doc. op = VUnlock c p \<and> err = None \<and> vt_doc v = Some doc \<and> prove lib doc \<lparr>pf_CredentialID = c, pf_PRF = p\<rparr> = Inr k)) \<and>
    (case op of VUnlock c p \<Rightarrow> err = None \<or> v' = v | _ \<Rightarrow> True)"
proof (cases op)
  case (VInit c salt p)
  then have "v_Init lib env c salt p v = (err, v')" using assms by simp
  from Init_effect [OF this] show ?thesis
  proof (elim disjE exE conjE)
    fix vid bk nonce ct es v1
    assume a: "vt_doc v = None" "randBytes (ve_rand2 env) keySize = Inr bk"
      "replaced lib v (init_doc vid \<lparr>w_CredentialID = c, w_Salt = salt, w_Nonce = nonce, w_Ct = ct\<rparr>)
        (audit_of ''init'' (init_doc vid \<lparr>w_CredentialID = c, w_Salt = salt, w_Nonce = nonce, w_Ct = ct\<rparr>) c [] # es) v1"
      "if err = None then v' = v1\<lparr>vt_key := Some bk\<rparr> else err = Some ErrNotDurable \<and> v' = v1"
    show ?thesis using VInit a(1,2,4) replaced_fields [OF a(3)] by (cases "err = None"; cases "vt_key v") (simp_all add: init_doc_def)
  next
    fix es
    assume "touched v es v'"
    then show ?thesis using touched_fields VInit by (fastforce split: option.splits)
  qed
next
  case (VAddWrap a c)
  then have "AddWrap lib env a c v = (err, v')" using assms by simp
  from AddWrap_effect [OF this] VAddWrap show ?thesis by (auto dest!: touched_fields replaced_fields split: option.splits)
next
  case (VRemoveWrap a t)
  then have "RemoveWrap lib env a t v = (err, v')" using assms by simp
  from RemoveWrap_effect [OF this] VRemoveWrap show ?thesis by (auto dest!: touched_fields replaced_fields split: option.splits)
next
  case (VUnlock c p)
  then have "v_Unlock lib c p v = (err, v')" using assms by simp
  from Unlock_effect [OF this] VUnlock show ?thesis by (auto split: option.splits)
next
  case (VPutCredential n x)
  then show ?thesis using assms put_frame [of lib env n x v err v'] by (auto split: option.splits)
next
  case (VPut a fs)
  then show ?thesis using assms put_frame [of lib env a _ v err v' fs] by (auto split: option.splits)
qed (use assms in \<open>auto simp: v_Lock_def v_Close_def lockLocked_def split: option.splits if_splits\<close>)

text \<open>
  Passkeys work exactly while they are registered. A passkey that was added unlocks the body key
  of the one that vouched for it; one that was removed, which takes the proof of another one against
  the key in memory, unlocks nothing; every other passkey proves exactly what it proved before.
\<close>

theorem passkey_changes:
  assumes "lib_ok lib" and "AddWrap lib env a c v = (None, v1)" and "RemoveWrap lib env' a' t v1 = (None, v2)"
  shows "\<exists>doc doc1 doc2 bk bk'. vt_doc v = Some doc \<and> vt_doc v1 = Some doc1 \<and> vt_doc v2 = Some doc2 \<and>
    prove lib doc a = Inr bk \<and> prove lib doc1 \<lparr>pf_CredentialID = en_CredentialID c, pf_PRF = en_PRF c\<rparr> = Inr bk \<and>
    (\<forall>p. pf_CredentialID p = en_CredentialID c \<or> prove lib doc1 p = prove lib doc p) \<and>
    prove lib doc1 a' = Inr bk' \<and> vt_key v1 = Some bk' \<and>
    (\<forall>p. failed (prove lib doc2 \<lparr>pf_CredentialID = t, pf_PRF = p\<rparr>)) \<and>
    (\<forall>p. pf_CredentialID p = t \<or> prove lib doc2 p = prove lib doc1 p)"
  using AddWrap_prove [OF assms(1,2)] RemoveWrap_prove [OF assms(3)] by auto

text \<open>
  C18: Credentials and login states are stores. After any calls that store credentials, some of which may
  fail, a name delivers the value that was last stored under it, or what it delivered before; the
  login states are what they were, and likewise for the agents' login states.
\<close>

theorem stores_last_value:
  assumes "lib_ok lib" and "vault_inv lib v" and "\<not> vt_closed v"
  shows "Token lib n (snd (creds.puts xs (lib, v))) =
      (case creds.last_stored xs n (lib, v) of Some x \<Rightarrow> Inr (New_secret (Reveal x)) | None \<Rightarrow> Token lib n v) \<and>
    Get_state lib ag (snd (states.puts ys (lib, v))) =
      (case states.last_stored ys ag (lib, v) of Some fs \<Rightarrow> Inr fs | None \<Rightarrow> Get_state lib ag v)"
proof -
  have i: "store_inv (lib, v)" using assms by (simp add: store_inv_def)
  have c: "fst (creds.puts xs s) = fst s" for s
    by (induction xs s rule: creds.puts.induct) (simp_all add: put_fst)
  have t: "fst (states.puts ys s) = fst s" for s
    by (induction ys s rule: states.puts.induct) (simp_all add: put_fst)
  have g: "cred_get n s = Token (fst s) n (snd s)" "state_get ag s = Get_state (fst s) ag (snd s)" for s
    by (simp_all add: cred_get_def state_get_def split: prod.split)
  show ?thesis
    using creds.get_puts [OF i, of n xs] states.get_puts [OF i, of ag ys] unfolding g c t by (simp cong: option.case_cong)
qed

text \<open>
  The destruction of a vault is refused while an opened vault holds the lock, needs the audit entry
  first, spares a vault that is not the confirmed one, and in the end leaves no document and no lock.
\<close>

theorem reset_guarded:
  assumes "v_Reset lib re expect d = (r, d')"
  shows "(\<exists>es. fd_audit d' = fd_audit d @ es \<and> (fd_json d' = fd_json d \<or> map au_Event es = [''reset''])) \<and>
    (fd_locked d \<longrightarrow> d' = d \<and> (\<exists>e. r = Inl e)) \<and>
    (\<forall>vid. r = Inr vid \<longrightarrow> fd_json d' = None \<and> fd_tmp d' = None \<and> fd_audit d' \<noteq> fd_audit d \<and> \<not> fd_locked d' \<and>
       (expect = [] \<or> vid = expect))"
proof -
  have "d' = d \<and> (\<exists>e. r = Inl e)" if "fd_locked d"
    using assms that by (auto simp: v_Reset_def lockDir_def bindR_Inl_iff split: if_splits sum.splits)
  moreover have "\<exists>es. fd_audit d' = fd_audit d @ es \<and> (fd_json d' = fd_json d \<or> map au_Event es = [''reset''])"
    using assms by (auto simp: v_Reset_def lockDir_def appendAudit_def Let_def split: if_splits sum.splits)
  moreover have "fd_json d' = None \<and> fd_tmp d' = None \<and> fd_audit d' \<noteq> fd_audit d \<and> \<not> fd_locked d' \<and> (expect = [] \<or> vid = expect)"
    if "r = Inr vid" for vid
    using assms that by (auto simp: v_Reset_def lockDir_def appendAudit_def Let_def split: if_splits sum.splits)
  ultimately show ?thesis by blast
qed

section \<open>Witnesses\<close>

text \<open>
  A library that satisfies what the vault relies on: a constant key derivation, a cipher that appends
  a constant tag, and an encoding of lists of strings with unary lengths. It hides nothing, but shows that the
  assumptions can hold.
\<close>

definition frame :: "string \<Rightarrow> string" where
  "frame s = replicate (length s) (CHR 0x01) @ CHR 0x00 # s"

fun unframes :: "nat \<Rightarrow> string \<Rightarrow> string list" where
  "unframes 0 s = []"
| "unframes (Suc f) s =
     (if s = [] then []
      else let n = length (takeWhile (\<lambda>c. c = CHR 0x01) s); r = drop (Suc n) s in take n r # unframes f (drop n r))"

definition enc_strings :: "string list \<Rightarrow> string" where
  "enc_strings ss = concat (map frame ss)"

definition dec_strings :: "string \<Rightarrow> string list" where
  "dec_strings s = unframes (length s) s"

lemma unframes_frame: "unframes (Suc f) (frame s @ t) = s # unframes f t"
proof -
  have "takeWhile (\<lambda>c. c = CHR 0x01) (frame s @ t) = replicate (length s) (CHR 0x01)"
    by (simp add: frame_def takeWhile_append)
  then show ?thesis by (simp add: frame_def)
qed

lemma unframes_enc: "length ss \<le> f \<Longrightarrow> unframes f (enc_strings ss) = ss"
proof (induction ss arbitrary: f)
  case Nil
  then show ?case by (cases f) (simp_all add: enc_strings_def)
next
  case (Cons s ss)
  then obtain f' where "f = Suc f'" by (cases f) auto
  with Cons unframes_frame [of f' s "enc_strings ss"] show ?case by (simp add: enc_strings_def)
qed

lemma enc_strings_length: "length ss \<le> length (enc_strings ss)"
  by (induction ss) (auto simp: enc_strings_def frame_def)

lemma dec_enc_strings [simp]: "dec_strings (enc_strings ss) = ss"
  by (simp add: dec_strings_def unframes_enc enc_strings_length)

fun wraps_of :: "string list \<Rightarrow> wrap_record list" where
  "wraps_of (a # b # c # d # ss) = \<lparr>w_CredentialID = a, w_Salt = b, w_Nonce = c, w_Ct = d\<rparr> # wraps_of ss"
| "wraps_of _ = []"

fun items_of :: "string list \<Rightarrow> item_record list" where
  "items_of (a # b # c # d # ss) = \<lparr>it_Kind = a, it_Name = b, it_Rand = c, it_Ct = d\<rparr> # items_of ss"
| "items_of _ = []"

fun files_of :: "string list \<Rightarrow> state_file list" where
  "files_of (a # b # ss) = \<lparr>sf_Name = a, sf_Data = b\<rparr> # files_of ss"
| "files_of _ = []"

definition strings_of_wraps :: "wrap_record list \<Rightarrow> string list" where
  "strings_of_wraps ws = concat (map (\<lambda>w. [w_CredentialID w, w_Salt w, w_Nonce w, w_Ct w]) ws)"

definition strings_of_items :: "item_record list \<Rightarrow> string list" where
  "strings_of_items its = concat (map (\<lambda>it. [it_Kind it, it_Name it, it_Rand it, it_Ct it]) its)"

lemma wraps_of_strings [simp]: "wraps_of (strings_of_wraps ws) = ws"
  by (induction ws) (simp_all add: strings_of_wraps_def)

lemma items_of_strings [simp]: "items_of (strings_of_items its) = its"
  by (induction its) (simp_all add: strings_of_items_def)

lemma files_of_strings [simp]: "files_of (concat (map (\<lambda>f. [sf_Name f, sf_Data f]) fs)) = fs"
  by (induction fs) simp_all

definition example_lib :: vault_lib where
  "example_lib = \<lparr>lib_hkdf = (\<lambda>_ _ _ n. Some (replicate n (CHR ''k''))),
     lib_seal = (\<lambda>_ _ p _. p @ replicate 16 (CHR ''t'')), lib_open = (\<lambda>_ _ c _. Some (take (length c - 16) c)),
     lib_marshal = (\<lambda>d. Some (enc_strings (doc_ID d # enc_strings (strings_of_wraps (doc_Wraps d)) # strings_of_items (doc_Items d)))),
     lib_decode = (\<lambda>s. case dec_strings s of vid # ws # its \<Rightarrow>
         Some (\<lparr>doc_Version = 1, doc_ID = vid, doc_Wraps = wraps_of (dec_strings ws), doc_Items = items_of its\<rparr>, False) | _ \<Rightarrow> None),
     lib_id = (\<lambda>s. case dec_strings s of vid # _ \<Rightarrow> Some vid | _ \<Rightarrow> None),
     lib_marshal_files = (\<lambda>fs. Some (enc_strings (concat (map (\<lambda>f. [sf_Name f, sf_Data f]) fs)))),
     lib_decode_files = (\<lambda>s. Some (files_of (dec_strings s)))\<rparr>"

lemma example_lib_ok: "lib_ok example_lib"
proof -
  have "json_ok example_lib" by (auto simp: json_ok_def example_lib_def doc_validate_iff)
  moreover have "hkdf_ok example_lib" "gcm_ok example_lib" by (simp_all add: hkdf_ok_def gcm_ok_def example_lib_def)
  ultimately show ?thesis by (simp add: lib_ok_def)
qed

definition example_stat :: "bool \<Rightarrow> fstat" where
  "example_stat dir = \<lparr>st_IsDir = dir, st_IsRegular = (\<not> dir), st_Perm = (if dir then 448 else 384), st_Uid = Some 1000\<rparr>"

definition example_dir_env :: dir_env where
  "example_dir_env = \<lparr>de_lstat = OsOk (example_stat True), de_mkdir = False, de_lstat2 = OsErr, de_euid = 1000, de_open = True,
     de_fstat = Some (example_stat True), de_flock = True\<rparr>"

definition example_file_env :: file_env where
  "example_file_env = \<lparr>fe_open = True, fe_stat = Some (example_stat False), fe_euid = 1000, fe_read = True\<rparr>"

definition example_audit_env :: audit_env where
  "example_audit_env = \<lparr>ae_open = True, ae_stat = Some (example_stat False), ae_euid = 1000, ae_write = True, ae_sync = True, ae_close = True\<rparr>"

definition example_vault_env :: vault_env where
  "example_vault_env = \<lparr>ve_rand1 = Some (\<lambda>_. CHR ''1''), ve_rand2 = Some (\<lambda>_. CHR ''2''), ve_rand3 = Some (\<lambda>_. CHR ''3''),
     ve_audit1 = example_audit_env, ve_audit2 = example_audit_env,
     ve_write = \<lparr>we_remove = True, we_create = True, we_write = True, we_partial = [], we_sync = True, we_close = True, we_rename = True,
       we_syncdir = True, we_cleanup = True\<rparr>\<rparr>"

definition example_vdir :: vdir where
  "example_vdir = \<lparr>fd_json = None, fd_tmp = None, fd_audit = [], fd_locked = False\<rparr>"

definition example_vsys :: vsys where
  "example_vsys = \<lparr>fd_json = None, fd_tmp = None, fd_audit = [], fd_locked = True, vt_doc = None, vt_key = None, vt_closed = False\<rparr>"

lemma example_stats [simp]:
  "checkOwned (Some (example_stat False)) 1000 False = Inr ()" "checkOwned (Some (example_stat True)) 1000 True = Inr ()"
  "checkDir example_dir_env = Inr ()"
  by (simp_all add: checkOwned_def checkDir_def example_stat_def wide_perm_def example_dir_env_def)

lemma example_Open: "v_Open example_lib example_dir_env example_file_env example_vdir = Inr example_vsys"
  by (simp add: v_Open_def lockDir_def loadDocument_def readRegular_def example_vdir_def example_vsys_def vdir.defs vsys.defs)
    (simp add: example_dir_env_def)

definition example_wrap :: "string \<Rightarrow> char \<Rightarrow> wrap_record" where
  "example_wrap c x = \<lparr>w_CredentialID = c, w_Salt = replicate 32 (CHR ''s''), w_Nonce = replicate 12 x,
     w_Ct = replicate 32 (CHR ''2'') @ replicate 16 (CHR ''t'')\<rparr>"

definition example_doc :: "wrap_record list \<Rightarrow> document" where
  "example_doc ws = \<lparr>doc_Version = 1, doc_ID = replicate 16 (CHR ''1''), doc_Wraps = ws, doc_Items = []\<rparr>"

definition vault_json :: "document \<Rightarrow> string" where
  "vault_json d = enc_strings (doc_ID d # enc_strings (strings_of_wraps (doc_Wraps d)) # strings_of_items (doc_Items d))"

definition example_state :: "wrap_record list \<Rightarrow> audit_entry list \<Rightarrow> vsys" where
  "example_state ws log = \<lparr>fd_json = Some (vault_json (example_doc ws)), fd_tmp = None, fd_audit = log, fd_locked = True,
     vt_doc = Some (example_doc ws), vt_key = Some (replicate 32 (CHR ''2'')), vt_closed = False\<rparr>"

definition wrapA :: wrap_record where "wrapA = example_wrap ''a'' (CHR ''3'')"
definition wrapB :: wrap_record where "wrapB = example_wrap ''b'' (CHR ''1'')"

lemma enc_length: "length (enc_strings ss) = sum_list (map (\<lambda>s. 2 * length s + 1) ss)"
  by (induction ss) (simp_all add: enc_strings_def frame_def)

lemma example_small:
  "length (vault_json (example_doc [wrapA])) \<le> maxFileSize" "length (vault_json (example_doc [wrapA, wrapB])) \<le> maxFileSize"
  "length (vault_json (example_doc [wrapB])) \<le> maxFileSize"
  by (simp_all add: vault_json_def example_doc_def enc_length strings_of_wraps_def strings_of_items_def wrapA_def wrapB_def
      example_wrap_def maxFileSize_def)

lemma example_ids: "validID ''a''" "validID ''b''"
  by (simp_all add: validID_def maxIDLen_def byte_class_defs)

lemma example_wrapBodyKey:
  "wrapBodyKey example_lib (Some (\<lambda>_. x)) (replicate 32 (CHR ''2'')) prf' vid c (replicate 32 (CHR ''s'')) =
     Inr (w_Nonce (example_wrap c x), w_Ct (example_wrap c x))"
  by (simp add: wrapBodyKey_def deriveWrapKey_def example_lib_def newGCM_def keySize_def randBytes_def nonceSize_def example_wrap_def
      map_replicate_const)

lemma example_prove:
  "prove example_lib (example_doc ws) \<lparr>pf_CredentialID = c, pf_PRF = replicate 32 y\<rparr> = Inr (replicate 32 (CHR ''2''))"
  if "validID c" "find_wrap (example_doc ws) c = Some (example_wrap c x)"
  using that by (simp add: prove_def joined_def checkID_def checkSized_def PRFSize_def unwrapBodyKey_def deriveWrapKey_def example_wrap_def
      nonceSize_def newGCM_def keySize_def) (simp add: example_lib_def keySize_def)

lemma example_commit:
  assumes "length (vault_json (example_doc ws)) \<le> maxFileSize" "fd_tmp v = None"
  shows "commit example_lib example_vault_env (example_doc ws) e v =
    (None, v\<lparr>fd_audit := fd_audit v @ [e], fd_json := Some (vault_json (example_doc ws)), fd_tmp := None, vt_doc := Some (example_doc ws)\<rparr>)"
  using assms
  by (simp add: commit_def appendAudit_def example_vault_env_def example_audit_env_def vault_write_def writeDocument_def Let_def
      example_lib_def vault_json_def)

lemma example_Init:
  "v_Init example_lib example_vault_env ''a'' (replicate 32 (CHR ''s'')) (replicate 32 (CHR ''p'')) example_vsys =
     (None, example_state [wrapA] [audit_of ''init'' (example_doc [wrapA]) ''a'' []])"
proof -
  have r: "ve_rand1 example_vault_env = Some (\<lambda>_. CHR ''1'')" "ve_rand2 example_vault_env = Some (\<lambda>_. CHR ''2'')"
    "ve_rand3 example_vault_env = Some (\<lambda>_. CHR ''3'')" by (simp_all add: example_vault_env_def)
  have d: "\<lparr>doc_Version = formatVersion, doc_ID = replicate 16 (CHR ''1''),
      doc_Wraps = [\<lparr>w_CredentialID = ''a'', w_Salt = replicate 32 (CHR ''s''), w_Nonce = w_Nonce (example_wrap ''a'' (CHR ''3'')),
        w_Ct = w_Ct (example_wrap ''a'' (CHR ''3''))\<rparr>], doc_Items = []\<rparr> = example_doc [wrapA]"
    by (simp add: example_doc_def wrapA_def example_wrap_def formatVersion_def)
  have rb: "randBytes (Some (\<lambda>_. x)) n = Inr (replicate n x)" for x n by (simp add: randBytes_def map_replicate_const)
  have v: "vt_closed example_vsys = False" "vt_doc example_vsys = None" "fd_tmp example_vsys = None" by (simp_all add: example_vsys_def)
  show ?thesis
    using example_ids
    by (simp add: v_Init_def v r rb joined_def checkID_def checkSized_def SaltSize_def PRFSize_def vaultIDSize_def keySize_def
        example_wrapBodyKey d example_commit [OF example_small(1) v(3)])
      (simp add: example_vsys_def example_state_def)
qed

definition example_enrollment :: enrollment where
  "example_enrollment = \<lparr>en_CredentialID = ''b'', en_Salt = replicate 32 (CHR ''s''), en_PRF = replicate 32 (CHR ''q'')\<rparr>"

lemma example_finds:
  "find_wrap (example_doc [wrapA]) ''a'' = Some (example_wrap ''a'' (CHR ''3''))" "find_wrap (example_doc [wrapA]) ''b'' = None"
  "find_wrap (example_doc [wrapA, wrapB]) ''b'' = Some (example_wrap ''b'' (CHR ''1''))"
  "find_wrap (example_doc [wrapA, wrapB]) ''a'' = Some (example_wrap ''a'' (CHR ''3''))"
  by (simp_all add: find_wrap_def example_doc_def wrapA_def wrapB_def example_wrap_def)

lemma example_AddWrap:
  "AddWrap example_lib example_vault_env \<lparr>pf_CredentialID = ''a'', pf_PRF = replicate 32 (CHR ''p'')\<rparr> example_enrollment (example_state [wrapA] log) =
     (None, example_state [wrapA, wrapB] (log @ [audit_of ''add-wrap'' (example_doc [wrapA]) ''a'' ''b'']))"
proof -
  have r: "ve_rand1 example_vault_env = Some (\<lambda>_. CHR ''1'')" by (simp add: example_vault_env_def)
  have v: "vt_closed (example_state [wrapA] log) = False" "vt_doc (example_state [wrapA] log) = Some (example_doc [wrapA])"
    "fd_tmp (example_state [wrapA] log) = None" by (simp_all add: example_state_def)
  have d: "(example_doc [wrapA])\<lparr>doc_Wraps := doc_Wraps (example_doc [wrapA]) @ [\<lparr>w_CredentialID = ''b'', w_Salt = replicate 32 (CHR ''s''),
      w_Nonce = w_Nonce (example_wrap ''b'' (CHR ''1'')), w_Ct = w_Ct (example_wrap ''b'' (CHR ''1''))\<rparr>]\<rparr> = example_doc [wrapA, wrapB]"
    "length (doc_Wraps (example_doc [wrapA])) = 1"
    by (simp_all add: example_doc_def wrapB_def example_wrap_def)
  show ?thesis
    using example_ids
    by (simp add: AddWrap_def v example_enrollment_def joined_def checkID_def checkSized_def SaltSize_def PRFSize_def
        example_prove [OF example_ids(1) example_finds(1)] example_finds(2) d maxWraps_def r example_wrapBodyKey
        example_commit [OF example_small(2) v(3)])
      (simp add: example_state_def)
qed

lemma example_RemoveWrap:
  "RemoveWrap example_lib example_vault_env \<lparr>pf_CredentialID = ''b'', pf_PRF = replicate 32 (CHR ''q'')\<rparr> ''a'' (example_state [wrapA, wrapB] log) =
     (None, example_state [wrapB] (log @ [audit_of ''remove-wrap'' (example_doc [wrapA, wrapB]) ''b'' ''a'']))"
proof -
  have v: "vt_closed (example_state [wrapA, wrapB] log) = False" "vt_doc (example_state [wrapA, wrapB] log) = Some (example_doc [wrapA, wrapB])"
    "vt_key (example_state [wrapA, wrapB] log) = Some (replicate 32 (CHR ''2''))"
    "fd_tmp (example_state [wrapA, wrapB] log) = None" by (simp_all add: example_state_def)
  have d: "(example_doc [wrapA, wrapB])\<lparr>doc_Wraps := filter (\<lambda>w. w_CredentialID w \<noteq> ''a'') (doc_Wraps (example_doc [wrapA, wrapB]))\<rparr> = example_doc [wrapB]"
    "length (doc_Wraps (example_doc [wrapA, wrapB])) = 2"
    by (simp_all add: example_doc_def wrapA_def wrapB_def example_wrap_def)
  show ?thesis
    using example_ids
    by (simp add: RemoveWrap_def v checkID_def example_prove [OF example_ids(2) example_finds(3)] example_finds d
        example_commit [OF example_small(3) v(4)])
      (simp add: example_state_def)
qed

lemma example_vault_inv: "vault_inv example_lib (example_state [wrapA] log)"
proof -
  have "vault_inv example_lib (example_state [wrapA] [audit_of ''init'' (example_doc [wrapA]) ''a'' []])"
    using Init_inv [OF example_lib_ok _ example_Init] Open_inv [OF example_Open] by blast
  then show ?thesis by (auto simp: vault_inv_def on_disk_def example_state_def)
qed

theorem vault_memory_is_disk_witness:
  "loadDocument example_lib example_file_env (run_ops example_lib
     [(example_vault_env, VInit ''a'' (replicate 32 (CHR ''s'')) (replicate 32 (CHR ''p''))), (example_vault_env, VClose)] example_vsys) =
   Inr (Some (example_doc [wrapA]))"
proof -
  have f: "fe_open example_file_env" "checkOwned (fe_stat example_file_env) (fe_euid example_file_env) False = Inr ()" "fe_read example_file_env"
    by (simp_all add: example_file_env_def)
  show ?thesis
    using vault_memory_is_disk [OF example_lib_ok example_Open f,
        of "[(example_vault_env, VInit ''a'' (replicate 32 (CHR ''s'')) (replicate 32 (CHR ''p''))), (example_vault_env, VClose)]"]
    by (simp add: example_Init) (simp add: example_state_def v_Close_def lockLocked_def)
qed

theorem wraps_change_witness:
  "\<exists>es. fd_audit (example_state [wrapA, wrapB] [audit_of ''add-wrap'' (example_doc [wrapA]) ''a'' ''b'']) = es \<and> es \<noteq> [] \<and> au_Event (hd es) = ''add-wrap''"
proof -
  have w: "wraps (example_state [wrapA, wrapB] l) \<noteq> wraps (example_state [wrapA] l')" for l l'
    by (simp add: wraps_def example_state_def example_doc_def)
  have r: "run_op example_lib example_vault_env (VAddWrap \<lparr>pf_CredentialID = ''a'', pf_PRF = replicate 32 (CHR ''p'')\<rparr> example_enrollment) (example_state [wrapA] []) =
     (None, example_state [wrapA, wrapB] [audit_of ''add-wrap'' (example_doc [wrapA]) ''a'' ''b''])"
    using example_AddWrap [of "[]"] by simp
  from wraps_change [OF r] w show ?thesis by (auto simp: example_state_def)
qed

theorem key_only_by_proof_witness:
  "v_Unlock example_lib ''b'' (replicate 32 (CHR ''p'')) (example_state [wrapA] []) = (Some ErrUnlockFailed, example_state [wrapA] [])"
proof -
  obtain err v' where u: "v_Unlock example_lib ''b'' (replicate 32 (CHR ''p'')) (example_state [wrapA] []) = (err, v')" by fastforce
  then have e: "err = Some ErrUnlockFailed"
    using example_ids by (simp add: v_Unlock_def example_state_def prove_def joined_def checkID_def checkSized_def PRFSize_def example_finds)
  have "run_op example_lib example_vault_env (VUnlock ''b'' (replicate 32 (CHR ''p''))) (example_state [wrapA] []) = (err, v')"
    using u by simp
  from key_only_by_proof [OF this] e u show ?thesis by simp
qed

theorem passkey_changes_witness:
  "\<exists>doc. vt_doc (example_state [wrapB] [audit_of ''add-wrap'' (example_doc [wrapA]) ''a'' ''b'', audit_of ''remove-wrap'' (example_doc [wrapA, wrapB]) ''b'' ''a'']) = Some doc \<and>
     failed (prove example_lib doc \<lparr>pf_CredentialID = ''a'', pf_PRF = replicate 32 (CHR ''p'')\<rparr>)"
  using passkey_changes [OF example_lib_ok example_AddWrap example_RemoveWrap, of "[]"] by auto

lemma example_put: "applied (PutCredential example_lib example_vault_env ''github'' (New_secret ''t'') (example_state [wrapA] []))"
proof -
  have n: "CheckName ''github'' = Inr ()" by (simp add: CheckName_def nameRE_def byte_class_defs)
  have sl: "sealItem example_lib (Some (\<lambda>_. CHR ''1'')) key vid kind name pt = Inr (replicate 16 (CHR ''1''), pt @ replicate 16 (CHR ''t''))" for key vid kind name pt
    by (simp add: sealItem_def randBytes_def itemRndSize_def itemKey_def example_lib_def newGCM_def keySize_def map_replicate_const)
  show ?thesis
    by (simp add: PutCredential_def n Reveal_def New_secret_def maxSecretSize_def putItem_def example_state_def example_vault_env_def
        maxItemSize_def sl example_doc_def maxItems_def vault_write_def)
      (simp add: writeDocument_def example_lib_def enc_length strings_of_wraps_def strings_of_items_def wrapA_def example_wrap_def
        kindCredential_def maxFileSize_def applied_def)
qed

theorem stores_last_value_witness:
  "Token example_lib ''github'' (snd (creds.puts [(example_vault_env, ''github'', New_secret ''t'')] (example_lib, example_state [wrapA] []))) =
     Inr (New_secret ''t'')"
proof -
  have "\<not> vt_closed (example_state [wrapA] [])" by (simp add: example_state_def)
  from stores_last_value [OF example_lib_ok example_vault_inv this, of "''github''" "[(example_vault_env, ''github'', New_secret ''t'')]" "''claude''" "[]"]
  show ?thesis using example_put by (simp add: cred_stored_def) (simp add: Reveal_def New_secret_def)
qed

definition example_reset_env :: reset_env where
  "example_reset_env = \<lparr>rs_exists = True, rs_dir = example_dir_env, rs_file = example_file_env, rs_audit = example_audit_env,
     rs_remove_json = True, rs_remove_tmp = True, rs_syncdir = True\<rparr>"

theorem reset_guarded_witness:
  "snd (v_Reset example_lib example_reset_env [] (example_vdir\<lparr>fd_locked := True\<rparr>)) = example_vdir\<lparr>fd_locked := True\<rparr>"
  using reset_guarded [of example_lib example_reset_env "[]" "example_vdir\<lparr>fd_locked := True\<rparr>"]
  by (cases "v_Reset example_lib example_reset_env [] (example_vdir\<lparr>fd_locked := True\<rparr>)") simp

end
