(* ===== verification/Event_Log.thy ===== *)
theory Event_Log
  imports Go_Prelude
begin

text \<open>
  The durable event log of a chat session (package cmd/internal/eventlog: eventlog.go, files.go,
  sweep.go). The SQLite table of the one generation that a store writes is the list of its rows in the
  order of \<open>seq\<close>; a transaction or query that fails leaves it as it was, so one flag per statement of the
  environment stands for every error SQLite may report. Sequence numbers are unsigned 64-bit values
  below 2^63 - 1 by the checks of \<open>Apply\<close>, so no arithmetic on them wraps; \<open>writeMu\<close> makes every writer one
  step. That another process rewrites the database, opening it, and the time column are not modelled.
\<close>

datatype log_err = LogClosed | LogAfterNotIssued | LogSeqOrder | LogPayload | LogCorrupt | LogDB | LogGeneration

definition DefaultMaxPayload :: nat where "DefaultMaxPayload = 4 * 1024 * 1024"
definition maxGeneration :: nat where "maxGeneration = 64"
definition maxRangeRows :: nat where "maxRangeRows = 4096"
definition maxRangeBytes :: nat where "maxRangeBytes = 8 * 1024 * 1024"
definition MaxInt64 :: nat where "MaxInt64 = 2 ^ 63 - 1"

record event_row =
  row_Seq :: nat
  row_Payload :: string

record db_row = event_row +
  row_pinned :: bool

record log_op =
  op_Append :: "event_row list"
  op_Pin :: "nat list"
  op_Unpin :: "nat list"

text \<open>The rows and the existence of the database files are the disk; \<open>hasLast\<close> and \<open>last\<close>, and \<open>hasTrim\<close> and \<open>trimmed\<close>, are options.\<close>

record log_store =
  el_rows :: "db_row list"
  el_files :: bool
  el_maxPayload :: nat
  el_total :: int
  el_closed :: bool
  el_last :: "nat option"
  el_trimmed :: "nat option"
  el_floor :: nat

section \<open>Opening\<close>

definition validGeneration :: "string \<Rightarrow> bool" where
  "validGeneration g \<longleftrightarrow> g \<noteq> [] \<and> length g \<le> maxGeneration \<and> (\<forall>c\<in>set g. 0x21 \<le> byte c \<and> byte c \<le> 0x7e)"

text \<open>The store that \<open>Open\<close> returns once the lock is held and the fresh database is verified.\<close>

definition Open_log :: "string \<Rightarrow> int \<Rightarrow> log_err + log_store" where
  "Open_log generation maxPayload =
     (if \<not> validGeneration generation then Inl LogGeneration
      else Inr \<lparr>el_rows = [], el_files = True, el_maxPayload = (if maxPayload \<le> 0 then DefaultMaxPayload else nat maxPayload), el_total = 0,
        el_closed = False, el_last = None, el_trimmed = None, el_floor = 0\<rparr>)"

definition log_next :: "log_store \<Rightarrow> nat" where
  "log_next s = (case el_last s of None \<Rightarrow> 0 | Some l \<Rightarrow> l + 1)"

section \<open>Apply\<close>

fun check_append :: "nat \<Rightarrow> nat option \<Rightarrow> event_row list \<Rightarrow> log_err + nat option" where
  "check_append maxP prev [] = Inr prev"
| "check_append maxP prev (r # rs) =
     (if row_Payload r = [] \<or> length (row_Payload r) > maxP then Inl LogPayload
      else if row_Seq r \<ge> MaxInt64 \<or> (case prev of Some p \<Rightarrow> row_Seq r \<le> p | None \<Rightarrow> False) then Inl LogSeqOrder
      else check_append maxP (Some (row_Seq r)) rs)"

definition check_seqs :: "nat list \<Rightarrow> log_err + unit" where
  "check_seqs seqs = eachR (\<lambda>q. if q \<ge> MaxInt64 then Inl LogSeqOrder else Inr ()) seqs"

text \<open>The statements of the transaction: INSERT keeps the primary key, UPDATE touches the rows it finds.\<close>

definition db_insert :: "event_row \<Rightarrow> db_row list \<Rightarrow> db_row list option" where
  "db_insert r rows =
     (if row_Seq r \<in> row_Seq ` set rows then None
      else Some (filter (\<lambda>x. row_Seq x < row_Seq r) rows @
             \<lparr>row_Seq = row_Seq r, row_Payload = row_Payload r, row_pinned = False\<rparr> # filter (\<lambda>x. row_Seq x > row_Seq r) rows))"

fun db_inserts :: "event_row list \<Rightarrow> db_row list \<Rightarrow> db_row list option" where
  "db_inserts [] rows = Some rows"
| "db_inserts (r # rs) rows = (case db_insert r rows of None \<Rightarrow> None | Some rows' \<Rightarrow> db_inserts rs rows')"

definition db_pin :: "bool \<Rightarrow> nat list \<Rightarrow> db_row list \<Rightarrow> db_row list" where
  "db_pin val seqs rows = map (\<lambda>x. if row_Seq x \<in> set seqs then x\<lparr>row_pinned := val\<rparr> else x) rows"

definition Apply :: "bool \<Rightarrow> log_op \<Rightarrow> log_store \<Rightarrow> log_err option \<times> log_store" where
  "Apply tx op s =
     (if el_closed s then (Some LogClosed, s)
      else (case bindR (check_append (el_maxPayload s) (el_last s) (op_Append op)) (\<lambda>prev.
               bindR (check_seqs (op_Pin op)) (\<lambda>_. bindR (check_seqs (op_Unpin op)) (\<lambda>_. Inr prev))) of
        Inl e \<Rightarrow> (Some e, s)
      | Inr prev \<Rightarrow>
          if op_Append op = [] \<and> op_Pin op = [] \<and> op_Unpin op = [] then (None, s)
          else if \<not> tx then (Some LogDB, s)
          else (case db_inserts (op_Append op) (el_rows s) of
                  None \<Rightarrow> (Some LogDB, s)
                | Some rows \<Rightarrow>
                    (None, s\<lparr>el_rows := db_pin False (op_Unpin op) (db_pin True (op_Pin op) rows),
                       el_total := el_total s + int (sum_list (map (length \<circ> row_Payload) (op_Append op))),
                       el_last := prev\<rparr>))))"

section \<open>Range\<close>

text \<open>The loop over the rows of the query, where a payload over the limit arrives as NULL.\<close>

fun range_loop :: "nat \<Rightarrow> nat \<Rightarrow> nat \<Rightarrow> nat \<Rightarrow> db_row list \<Rightarrow> log_err + event_row list" where
  "range_loop maxP before prev tot [] = Inr []"
| "range_loop maxP before prev tot (x # xs) =
     (let payload = (if length (row_Payload x) > maxP then [] else row_Payload x) in
      if row_Seq x \<le> prev \<or> row_Seq x \<ge> before \<or> payload = [] then Inl LogCorrupt
      else let r = \<lparr>row_Seq = row_Seq x, row_Payload = payload\<rparr> in
      if tot + length payload \<ge> maxRangeBytes then Inr [r]
      else bindR (range_loop maxP before (row_Seq x) (tot + length payload) xs) (\<lambda>rs. Inr (r # rs)))"

definition Range_log :: "bool \<Rightarrow> nat \<Rightarrow> nat \<Rightarrow> int \<Rightarrow> log_store \<Rightarrow> log_err + event_row list" where
  "Range_log q after before limit s =
     (if el_closed s then Inl LogClosed
      else if after \<ge> log_next s then Inl LogAfterNotIssued
      else if limit \<le> 0 \<or> before \<le> after + 1 then Inr []
      else let limit' = min (nat limit) maxRangeRows; before' = min before MaxInt64 in
      if \<not> q then Inl LogDB
      else range_loop (el_maxPayload s) before' after 0
             (take limit' (filter (\<lambda>x. after < row_Seq x \<and> row_Seq x < before') (el_rows s))))"

section \<open>Trim\<close>

definition FirstUnpinned :: "bool \<Rightarrow> log_store \<Rightarrow> nat option" where
  "FirstUnpinned q s =
     (if el_closed s \<or> \<not> q then None
      else (case filter (\<lambda>x. \<not> row_pinned x \<and> (case el_trimmed s of None \<Rightarrow> True | Some t \<Rightarrow> row_Seq x > t)) (el_rows s) of
              [] \<Rightarrow> None
            | x # _ \<Rightarrow> Some (max (row_Seq x) (el_floor s))))"

text \<open>The rows to delete: the last one read and the bytes they free.\<close>

fun trim_scan :: "int \<Rightarrow> int \<Rightarrow> db_row list \<Rightarrow> (nat \<times> int) option" where
  "trim_scan need freed [] = None"
| "trim_scan need freed (x # xs) =
     (let freed' = freed + int (length (row_Payload x)) in
      if freed' \<ge> need then Some (row_Seq x, freed')
      else (case trim_scan need freed' xs of None \<Rightarrow> Some (row_Seq x, freed') | Some r \<Rightarrow> Some r))"

definition trim :: "bool \<Rightarrow> bool \<Rightarrow> int \<Rightarrow> log_store \<Rightarrow> log_err option \<times> log_store" where
  "trim q del budget0 s =
     (if el_closed s then (Some LogClosed, s)
      else let budget = max budget0 0 in
      if el_total s \<le> budget then (None, s)
      else if \<not> q then (Some LogDB, s)
      else (case trim_scan (el_total s - budget) 0 (filter (\<lambda>x. \<not> row_pinned x) (el_rows s)) of
              None \<Rightarrow> (None, s)
            | Some (cutoff, freed) \<Rightarrow>
                if \<not> del then (Some LogDB, s)
                else (None, s\<lparr>el_rows := filter (\<lambda>x. row_pinned x \<or> row_Seq x > cutoff) (el_rows s),
                       el_total := el_total s - freed,
                       el_trimmed := (case el_trimmed s of None \<Rightarrow> Some cutoff
                                      | Some t \<Rightarrow> if cutoff > t then Some cutoff else Some t)\<rparr>)))"

definition Trim :: "bool \<Rightarrow> bool \<Rightarrow> bool \<Rightarrow> int \<Rightarrow> log_store \<Rightarrow> (log_err + nat) \<times> log_store" where
  "Trim q del q' budget s =
     (case trim q del budget s of
        (Some e, s') \<Rightarrow> (Inl e, s')
      | (None, s') \<Rightarrow>
          (case FirstUnpinned q' s' of
             None \<Rightarrow> (Inr 0, s')
           | Some first \<Rightarrow> (Inr first, s'\<lparr>el_floor := first\<rparr>)))"

text \<open>\<open>Close\<close>; the flag says whether \<open>removeDBFiles\<close> succeeds.\<close>

definition Close_log :: "bool \<Rightarrow> bool \<Rightarrow> log_store \<Rightarrow> log_store" where
  "Close_log rm rmok s =
     (if el_closed s then s else s\<lparr>el_closed := True, el_files := el_files s \<and> \<not> (rm \<and> rmok)\<rparr>)"

section \<open>Sequences of calls\<close>

datatype log_call = CApply bool log_op | CTrim bool bool bool int | CClose bool bool

datatype log_answer = Applied "log_err option" | Trimmed "log_err + nat" | ClosedNow

fun do_call :: "log_call \<Rightarrow> log_store \<Rightarrow> log_answer \<times> log_store" where
  "do_call (CApply tx op) s = (case Apply tx op s of (e, s') \<Rightarrow> (Applied e, s'))"
| "do_call (CTrim q del q' b) s = (case Trim q del q' b s of (r, s') \<Rightarrow> (Trimmed r, s'))"
| "do_call (CClose rm rmok) s = (ClosedNow, Close_log rm rmok s)"

inductive log_run :: "log_store \<Rightarrow> (log_call \<times> log_answer) list \<Rightarrow> log_store \<Rightarrow> bool" where
  log_run_Nil: "log_run s [] s"
| log_run_snoc: "\<lbrakk>log_run s tr s1; do_call c s1 = (a, s2)\<rbrakk> \<Longrightarrow> log_run s (tr @ [(c, a)]) s2"

inductive_cases log_run_snocE: "log_run s (tr @ [e]) s2"

text \<open>The rows that the calls of a history have issued.\<close>

fun issued :: "(log_call \<times> log_answer) list \<Rightarrow> event_row list" where
  "issued [] = []"
| "issued ((CApply tx op, Applied None) # tr) = op_Append op @ issued tr"
| "issued (_ # tr) = issued tr"

text \<open>What a reader does: it asks again behind the last row it got, until nothing comes.\<close>

fun pages :: "nat \<Rightarrow> nat \<Rightarrow> nat \<Rightarrow> int \<Rightarrow> log_store \<Rightarrow> log_err + event_row list" where
  "pages 0 after before limit s = Inr []"
| "pages (Suc f) after before limit s =
     bindR (Range_log True after before limit s) (\<lambda>rs.
       if rs = [] then Inr []
       else bindR (pages f (row_Seq (last rs)) before limit s) (\<lambda>more. Inr (rs @ more)))"

section \<open>Lemmas\<close>

definition payload_bytes :: "db_row list \<Rightarrow> int" where
  "payload_bytes rows = int (sum_list (map (length \<circ> row_Payload) rows))"

definition wf_row :: "nat \<Rightarrow> db_row \<Rightarrow> bool" where
  "wf_row maxP x \<longleftrightarrow> row_Payload x \<noteq> [] \<and> length (row_Payload x) \<le> maxP \<and> row_Seq x < MaxInt64"

definition log_inv :: "log_store \<Rightarrow> bool" where
  "log_inv s \<longleftrightarrow> sorted_wrt (<) (map row_Seq (el_rows s)) \<and> (\<forall>x\<in>set (el_rows s). wf_row (el_maxPayload s) x) \<and>
     el_total s = payload_bytes (el_rows s) \<and>
     (case el_last s of None \<Rightarrow> el_rows s = [] | Some l \<Rightarrow> l < MaxInt64 \<and> (\<forall>x\<in>set (el_rows s). row_Seq x \<le> l))"

lemma payload_bytes_simps [simp]:
  "payload_bytes [] = 0" "payload_bytes (x # xs) = int (length (row_Payload x)) + payload_bytes xs"
  "payload_bytes (xs @ ys) = payload_bytes xs + payload_bytes ys"
  by (simp_all add: payload_bytes_def)

lemma payload_bytes_nonneg: "0 \<le> payload_bytes xs"
  by (simp add: payload_bytes_def)

lemma payload_bytes_split: "payload_bytes xs = payload_bytes (filter P xs) + payload_bytes (filter (\<lambda>x. \<not> P x) xs)"
  by (induction xs) auto

lemma db_pin_simps [simp]:
  "map row_Seq (db_pin b qs rows) = map row_Seq rows" "payload_bytes (db_pin b qs rows) = payload_bytes rows"
  by (induction rows) (auto simp: db_pin_def)

lemma db_pin_wf: "x \<in> set (db_pin b qs rows) \<Longrightarrow> \<exists>y\<in>set rows. row_Seq x = row_Seq y \<and> row_Payload x = row_Payload y"
  by (auto simp: db_pin_def split: if_splits)

definition fresh_row :: "event_row \<Rightarrow> db_row" where
  "fresh_row r = \<lparr>row_Seq = row_Seq r, row_Payload = row_Payload r, row_pinned = False\<rparr>"

lemma fresh_row_simps [simp]: "row_Seq (fresh_row r) = row_Seq r" "row_Payload (fresh_row r) = row_Payload r" "\<not> row_pinned (fresh_row r)"
  by (simp_all add: fresh_row_def)

text \<open>Behind the check of the sequence numbers an INSERT appends.\<close>

lemma db_inserts_append:
  assumes "check_append maxP prev rs = Inr prev'" "\<forall>x\<in>set rows. \<exists>p. prev = Some p \<and> row_Seq x \<le> p"
  shows "db_inserts rs rows = Some (rows @ map fresh_row rs)"
  using assms
proof (induction rs arbitrary: prev rows)
  case (Cons r rs)
  have big: "\<forall>x\<in>set rows. row_Seq x < row_Seq r"
    using Cons.prems by (fastforce split: if_splits option.splits)
  then have f: "filter (\<lambda>x. row_Seq x < row_Seq r) rows = rows" "filter (\<lambda>x. row_Seq r < row_Seq x) rows = []" "row_Seq r \<notin> row_Seq ` set rows"
    by (auto simp: filter_empty_conv)
  then have "db_insert r rows = Some (rows @ [fresh_row r])" by (simp add: db_insert_def fresh_row_def)
  moreover have "db_inserts rs (rows @ [fresh_row r]) = Some ((rows @ [fresh_row r]) @ map fresh_row rs)"
    using Cons.prems big by (intro Cons.IH [of "Some (row_Seq r)"]) (auto split: if_splits)
  ultimately show ?case by simp
qed simp

lemma check_append_sound:
  assumes "check_append maxP prev rs = Inr prev'"
  shows "(\<forall>r\<in>set rs. row_Payload r \<noteq> [] \<and> length (row_Payload r) \<le> maxP \<and> row_Seq r < MaxInt64) \<and>
    sorted_wrt (<) (map row_Seq rs) \<and> (\<forall>p r. prev = Some p \<and> r \<in> set rs \<longrightarrow> p < row_Seq r) \<and>
    prev' = (if rs = [] then prev else Some (row_Seq (last rs)))"
  using assms
proof (induction rs arbitrary: prev)
  case (Cons r rs)
  then have "check_append maxP (Some (row_Seq r)) rs = Inr prev'" by (auto split: if_splits)
  from Cons.IH [OF this] Cons.prems show ?case
    by (fastforce split: if_splits option.splits)
qed simp

lemma Apply_effect:
  assumes "log_inv s" "Apply tx op s = (e, s')"
  shows "if e = None
    then \<exists>prev. \<not> el_closed s \<and> check_append (el_maxPayload s) (el_last s) (op_Append op) = Inr prev \<and>
      s' = s\<lparr>el_rows := db_pin False (op_Unpin op) (db_pin True (op_Pin op) (el_rows s @ map fresh_row (op_Append op))),
        el_total := el_total s + int (sum_list (map (length \<circ> row_Payload) (op_Append op))), el_last := prev\<rparr>
    else s' = s"
proof (cases "e = None")
  case False
  then show ?thesis using assms(2) by (auto simp: Apply_def split: if_splits sum.splits option.splits)
next
  case True
  then obtain prev where c: "\<not> el_closed s" "check_append (el_maxPayload s) (el_last s) (op_Append op) = Inr prev"
    using assms(2) by (auto simp: Apply_def split: if_splits sum.splits option.splits)
  have ins: "db_inserts (op_Append op) (el_rows s) = Some (el_rows s @ map fresh_row (op_Append op))"
    using assms(1) by (intro db_inserts_append [OF c(2)]) (auto simp: log_inv_def split: option.splits)
  show ?thesis
  proof (cases "op_Append op = [] \<and> op_Pin op = [] \<and> op_Unpin op = []")
    case nothing: True
    then have n: "op_Append op = []" "op_Pin op = []" "op_Unpin op = []" by simp_all
    have p: "prev = el_last s" using c(2) by (simp add: n)
    have "s' = s" using assms(2) c by (simp add: Apply_def n check_seqs_def)
    then show ?thesis using True c p by (simp add: n db_pin_def)
  next
    case False
    with True c assms(2) ins show ?thesis
      by (auto simp: Apply_def split: if_splits sum.splits option.splits)
  qed
qed

lemma sorted_append_last:
  "sorted_wrt (<) (map f xs) \<Longrightarrow> x \<in> set xs \<Longrightarrow> (f x :: nat) \<le> f (last xs)"
  by (induction xs rule: rev_induct) (auto simp: sorted_wrt_append intro: less_imp_le)

lemma Apply_inv:
  assumes "log_inv s" "Apply tx op s = (e, s')"
  shows "log_inv s'"
proof (cases "e = None")
  case True
  let ?rows = "el_rows s @ map fresh_row (op_Append op)"
  from Apply_effect [OF assms] True obtain prev where c: "check_append (el_maxPayload s) (el_last s) (op_Append op) = Inr prev"
    and s': "s' = s\<lparr>el_rows := db_pin False (op_Unpin op) (db_pin True (op_Pin op) ?rows),
        el_total := el_total s + int (sum_list (map (length \<circ> row_Payload) (op_Append op))), el_last := prev\<rparr>" by auto
  note a = check_append_sound [OF c]
  have srt: "sorted_wrt (<) (map row_Seq ?rows)"
    using assms(1) a by (fastforce simp: log_inv_def sorted_wrt_append comp_def split: option.splits)
  have wf: "\<forall>x\<in>set ?rows. wf_row (el_maxPayload s) x" using assms(1) a by (auto simp: log_inv_def wf_row_def)
  have lst: "case prev of None \<Rightarrow> ?rows = [] | Some l \<Rightarrow> l < MaxInt64 \<and> (\<forall>x\<in>set ?rows. row_Seq x \<le> l)"
  proof (cases "op_Append op = []")
    case True
    with a assms(1) show ?thesis by (auto simp: log_inv_def split: option.splits)
  next
    case False
    then have "prev = Some (row_Seq (last (op_Append op)))" "last (op_Append op) \<in> set (op_Append op)" using a by auto
    moreover have "\<forall>x\<in>set ?rows. row_Seq x \<le> row_Seq (last (op_Append op))"
    proof
      fix x assume "x \<in> set ?rows"
      moreover have "last ?rows = fresh_row (last (op_Append op))" using False by (simp add: last_map)
      ultimately show "row_Seq x \<le> row_Seq (last (op_Append op))" using sorted_append_last [OF srt] by fastforce
    qed
    ultimately show ?thesis using a by auto
  qed
  have tot: "el_total s' = payload_bytes (el_rows s')"
    using assms(1) by (simp add: s' log_inv_def) (simp add: payload_bytes_def comp_def)
  have rows': "x \<in> set (el_rows s') \<Longrightarrow> \<exists>y\<in>set ?rows. row_Seq x = row_Seq y \<and> row_Payload x = row_Payload y" for x
    using db_pin_wf [of x False "op_Unpin op" "db_pin True (op_Pin op) ?rows"] db_pin_wf [of _ True "op_Pin op" ?rows]
    by (fastforce simp: s')
  have "\<forall>x\<in>set (el_rows s'). wf_row (el_maxPayload s') x" using rows' wf by (fastforce simp: wf_row_def s')
  moreover have "case el_last s' of None \<Rightarrow> el_rows s' = [] | Some l \<Rightarrow> l < MaxInt64 \<and> (\<forall>x\<in>set (el_rows s'). row_Seq x \<le> l)"
  proof (cases prev)
    case None
    with lst show ?thesis by (simp add: s' db_pin_def)
  next
    case (Some l)
    then have "el_last s' = Some l" "l < MaxInt64" "\<forall>y\<in>set ?rows. row_Seq y \<le> l" using lst by (simp_all add: s')
    then show ?thesis by (auto dest!: rows')
  qed
  moreover have "sorted_wrt (<) (map row_Seq (el_rows s'))" using srt by (simp add: s')
  ultimately show ?thesis using tot unfolding log_inv_def by blast
qed (use Apply_effect [OF assms] assms in auto)

subsection \<open>Trim\<close>

text \<open>The scan ends with the shortest prefix that frees enough, or with everything.\<close>

lemma trim_scan_spec:
  assumes "trim_scan need freed xs = Some (c, f)"
  shows "\<exists>ys y zs. xs = ys @ y # zs \<and> c = row_Seq y \<and> f = freed + payload_bytes (ys @ [y]) \<and>
    (need \<le> f \<or> zs = []) \<and> (ys = [] \<or> freed + payload_bytes ys < need)"
  using assms
proof (induction xs arbitrary: freed)
  case (Cons x xs)
  let ?f = "freed + int (length (row_Payload x))"
  consider "need \<le> ?f" "c = row_Seq x" "f = ?f" | "?f < need" "trim_scan need ?f xs = None" "c = row_Seq x" "f = ?f"
    | "?f < need" "trim_scan need ?f xs = Some (c, f)"
    using Cons.prems by (cases "need \<le> ?f"; cases "trim_scan need ?f xs") (simp_all add: Let_def not_le)
  then show ?case
  proof cases
    case 1
    then show ?thesis by (intro exI [of _ "[]"] exI [of _ x] exI [of _ xs]) simp
  next
    case 2
    then have "xs = []" by (cases xs) (auto simp: Let_def split: if_splits option.splits)
    with 2 show ?thesis by (intro exI [of _ "[]"] exI [of _ x] exI [of _ "[]"]) simp
  next
    case 3
    from Cons.IH [OF 3(2)] obtain ys y zs where "xs = ys @ y # zs" "c = row_Seq y" "f = ?f + payload_bytes (ys @ [y])"
      "need \<le> f \<or> zs = []" "ys = [] \<or> ?f + payload_bytes ys < need" by blast
    with 3 show ?thesis by (intro exI [of _ "x # ys"] exI [of _ y] exI [of _ zs]) auto
  qed
qed simp

definition unpinned :: "log_store \<Rightarrow> db_row list" where
  "unpinned s = filter (\<lambda>x. \<not> row_pinned x) (el_rows s)"

definition pinned :: "log_store \<Rightarrow> db_row list" where
  "pinned s = filter row_pinned (el_rows s)"

lemma sorted_filter_gt:
  assumes "sorted_wrt (<) (map row_Seq (ys @ y # zs))"
  shows "filter (\<lambda>x. row_Seq x > row_Seq y) (ys @ y # zs) = (zs :: db_row list)"
  using assms by (auto simp: sorted_wrt_append filter_empty_conv filter_id_conv)

lemma filter_unpinned_gt:
  "filter (\<lambda>x. \<not> row_pinned x) (filter (\<lambda>x. row_pinned x \<or> row_Seq x > c) (xs :: db_row list)) =
   filter (\<lambda>x. row_Seq x > c) (filter (\<lambda>x. \<not> row_pinned x) xs)"
  by (induction xs) auto

lemma trim_effect:
  assumes "log_inv s" "trim q del b s = (None, s')"
  shows "\<exists>ys zs. unpinned s = ys @ zs \<and> unpinned s' = zs \<and> pinned s' = pinned s \<and>
    (el_total s' \<le> max b 0 \<or> zs = []) \<and> (ys = [] \<or> max b 0 < el_total s' + int (length (row_Payload (last ys)))) \<and>
    (\<exists>P. el_rows s' = filter P (el_rows s)) \<and> el_total s' = el_total s - payload_bytes ys \<and>
    el_closed s' = el_closed s \<and> el_last s' = el_last s \<and> el_maxPayload s' = el_maxPayload s \<and> el_floor s' = el_floor s"
proof (cases "el_total s \<le> max b 0 \<or> trim_scan (el_total s - max b 0) 0 (unpinned s) = None")
  case True
  have "trim_scan need f xs = None \<Longrightarrow> xs = []" for need f xs
    by (cases xs) (auto simp: Let_def split: if_splits option.splits)
  with True have "s' = s \<and> (el_total s \<le> max b 0 \<or> unpinned s = [])"
    using assms(2) by (auto simp: trim_def unpinned_def Let_def split: if_splits option.splits)
  then show ?thesis by (intro exI [of _ "[]"] exI [of _ "unpinned s"]) (auto intro: exI [of _ "\<lambda>_. True"])
next
  case False
  then obtain c f where sc: "trim_scan (el_total s - max b 0) 0 (unpinned s) = Some (c, f)" by auto
  from trim_scan_spec [OF sc] obtain ys y zs where u: "unpinned s = ys @ y # zs" "c = row_Seq y" "f = payload_bytes (ys @ [y])"
    "el_total s - max b 0 \<le> f \<or> zs = []" "ys = [] \<or> payload_bytes ys < el_total s - max b 0" by auto
  have s': "s' = s\<lparr>el_rows := filter (\<lambda>x. row_pinned x \<or> row_Seq x > c) (el_rows s), el_total := el_total s - f, el_trimmed := el_trimmed s'\<rparr>"
    using assms(2) False sc by (auto simp: trim_def unpinned_def Let_def split: if_splits)
  have "sorted_wrt (<) (map row_Seq (unpinned s))"
    using assms(1) by (auto simp: log_inv_def unpinned_def sorted_wrt_map intro: sorted_wrt_filter)
  then have "filter (\<lambda>x. row_Seq x > c) (unpinned s) = zs"
    using sorted_filter_gt [of ys y zs] u(1,2) by simp
  then have "unpinned s' = zs" by (subst s') (simp add: unpinned_def filter_unpinned_gt del: filter_filter)
  moreover have "pinned s' = pinned s" by (subst s') (auto simp: pinned_def intro: filter_cong)
  moreover have "max b 0 < el_total s' + int (length (row_Payload (last (ys @ [y]))))"
    using u(3,5) False by (subst s') auto
  moreover have "el_total s' \<le> max b 0 \<or> zs = []" "el_total s' = el_total s - payload_bytes (ys @ [y])"
    using u(3,4) by (subst s'; auto)+
  moreover have "\<exists>P. el_rows s' = filter P (el_rows s)" by (subst s') auto
  moreover have "el_closed s' = el_closed s" "el_last s' = el_last s" "el_maxPayload s' = el_maxPayload s" "el_floor s' = el_floor s"
    by (subst s'; simp)+
  ultimately show ?thesis using u(1) by (intro exI [of _ "ys @ [y]"] exI [of _ zs]) simp
qed

lemma payload_bytes_pins: "payload_bytes (el_rows s) = payload_bytes (pinned s) + payload_bytes (unpinned s)"
  unfolding pinned_def unpinned_def by (rule payload_bytes_split)

lemma trim_inv:
  assumes "log_inv s" "trim q del b s = (e, s')"
  shows "log_inv s'"
proof (cases e)
  case None
  with assms trim_effect [of s q del b s'] obtain ys zs P where t: "unpinned s = ys @ zs" "unpinned s' = zs" "pinned s' = pinned s"
    "el_rows s' = filter P (el_rows s)" "el_total s' = el_total s - payload_bytes ys" "el_last s' = el_last s" "el_maxPayload s' = el_maxPayload s" by auto
  have "el_total s' = payload_bytes (el_rows s')"
    using assms(1) t payload_bytes_pins [of s] payload_bytes_pins [of s'] by (simp add: log_inv_def)
  then show ?thesis
    using assms(1) t by (auto simp: log_inv_def sorted_wrt_map intro: sorted_wrt_filter split: option.splits)
next
  case (Some x)
  then have "s' = s" using assms(2) by (auto simp: trim_def Let_def split: if_splits option.splits)
  with assms show ?thesis by simp
qed

lemma log_inv_cong:
  "el_rows s' = el_rows s \<Longrightarrow> el_maxPayload s' = el_maxPayload s \<Longrightarrow> el_total s' = el_total s \<Longrightarrow> el_last s' = el_last s \<Longrightarrow>
   log_inv s' = log_inv s"
  by (simp add: log_inv_def split: option.split)

lemma Trim_inv:
  assumes "log_inv s" "Trim q del q' b s = (r, s')"
  shows "log_inv s'"
proof -
  obtain e s1 where t: "trim q del b s = (e, s1)" by force
  then have "el_rows s' = el_rows s1" "el_maxPayload s' = el_maxPayload s1" "el_total s' = el_total s1" "el_last s' = el_last s1"
    using assms(2) by (auto simp: Trim_def split: option.splits)
  then show ?thesis using trim_inv [OF assms(1) t] log_inv_cong by blast
qed

lemma Close_log_inv: "log_inv (Close_log rm rmok s) = log_inv s"
  by (intro log_inv_cong) (simp_all add: Close_log_def)

lemma do_call_inv: "log_inv s \<Longrightarrow> do_call c s = (a, s') \<Longrightarrow> log_inv s'"
  by (cases c) (auto simp: Close_log_inv split: prod.splits dest: Apply_inv Trim_inv)

lemma log_run_inv: "log_run s tr s' \<Longrightarrow> log_inv s \<Longrightarrow> log_inv s'"
  by (induction rule: log_run.induct) (auto dest: do_call_inv)

lemma Open_log_inv: "Open_log g m = Inr s \<Longrightarrow> log_inv s"
  by (auto simp: Open_log_def log_inv_def split: if_splits)

subsection \<open>The floor\<close>

lemma FirstUnpinned_floor: "FirstUnpinned q s = Some r \<Longrightarrow> el_floor s \<le> r"
  by (auto simp: FirstUnpinned_def split: if_splits list.splits)

lemma trim_floor: "trim q del b s = (e, s') \<Longrightarrow> el_floor s' = el_floor s"
  by (auto simp: trim_def Let_def split: if_splits option.splits)

lemma do_call_floor:
  assumes "do_call c s = (a, s')"
  shows "el_floor s \<le> el_floor s' \<and> (\<forall>r. a = Trimmed (Inr r) \<and> r \<noteq> 0 \<longrightarrow> el_floor s \<le> r \<and> el_floor s' = r)"
proof (cases c)
  case (CApply tx op)
  then show ?thesis using assms by (auto simp: Apply_def split: if_splits sum.splits option.splits)
next
  case (CTrim q del q' b)
  obtain e s1 where t: "trim q del b s = (e, s1)" by force
  with trim_floor [OF t] assms CTrim FirstUnpinned_floor [of q' s1] show ?thesis
    by (auto simp: Trim_def split: option.splits)
next
  case (CClose rm rmok)
  then show ?thesis using assms by (auto simp: Close_log_def)
qed

lemma issued_snoc: "issued (tr @ [(c, a)]) = issued tr @ issued [(c, a)]"
  by (induction tr rule: issued.induct) auto

lemma log_run_floor:
  assumes "log_run s tr s'" "(c, Trimmed (Inr r)) \<in> set tr" "r \<noteq> 0"
  shows "r \<le> el_floor s'"
  using assms
proof (induction rule: log_run.induct)
  case (log_run_snoc s tr s1 d a s2)
  note f = do_call_floor [OF log_run_snoc.hyps(2)]
  show ?case
  proof (cases "(c, Trimmed (Inr r)) \<in> set tr")
    case True
    then show ?thesis using log_run_snoc.IH log_run_snoc.prems f by auto
  next
    case False
    then show ?thesis using log_run_snoc.prems f by auto
  qed
qed simp

subsection \<open>What is retained\<close>

definition strip :: "db_row \<Rightarrow> event_row" where
  "strip x = \<lparr>row_Seq = row_Seq x, row_Payload = row_Payload x\<rparr>"

definition kept_or_trimmed :: "log_store \<Rightarrow> event_row \<Rightarrow> bool" where
  "kept_or_trimmed s r \<longleftrightarrow> r \<in> strip ` set (el_rows s) \<or> (\<exists>t. el_trimmed s = Some t \<and> row_Seq r \<le> t)"

lemma strip_simps [simp]:
  "row_Seq (strip x) = row_Seq x" "row_Payload (strip x) = row_Payload x" "strip (x\<lparr>row_pinned := b\<rparr>) = strip x" "strip (fresh_row r) = r"
  by (simp_all add: strip_def fresh_row_def)

lemma strip_db_pin: "strip ` set (db_pin b qs rows) = strip ` set rows"
proof -
  have "map strip (db_pin b qs rows) = map strip rows" by (simp add: db_pin_def)
  then show ?thesis by (metis set_map)
qed

lemma trim_retained:
  assumes "trim q del b s = (e, s')" "kept_or_trimmed s r"
  shows "kept_or_trimmed s' r"
proof (cases "s' = s")
  case False
  then obtain c f where sc: "trim_scan (el_total s - max b 0) 0 (filter (\<lambda>x. \<not> row_pinned x) (el_rows s)) = Some (c, f)"
    using assms(1) by (auto simp: trim_def Let_def split: if_splits option.splits)
  then have s': "s' = s\<lparr>el_rows := filter (\<lambda>x. row_pinned x \<or> row_Seq x > c) (el_rows s), el_total := el_total s - f,
      el_trimmed := (case el_trimmed s of None \<Rightarrow> Some c | Some t \<Rightarrow> if c > t then Some c else Some t)\<rparr>"
    using False assms(1) by (auto simp: trim_def Let_def split: if_splits)
  have t: "\<exists>t'. el_trimmed s' = Some t' \<and> c \<le> t' \<and> (\<forall>t. el_trimmed s = Some t \<longrightarrow> t \<le> t')"
    by (auto simp: s' split: option.splits)
  from assms(2) consider x where "x \<in> set (el_rows s)" "r = strip x" | t where "el_trimmed s = Some t" "row_Seq r \<le> t"
    by (auto simp: kept_or_trimmed_def)
  then show ?thesis
  proof cases
    case 1
    show ?thesis
    proof (cases "row_Seq x \<le> c")
      case True
      with t 1 show ?thesis by (fastforce simp: kept_or_trimmed_def)
    next
      case False
      with 1 have "x \<in> set (el_rows s')" by (simp add: s')
      with 1 show ?thesis by (auto simp: kept_or_trimmed_def)
    qed
  next
    case 2
    with t show ?thesis by (fastforce simp: kept_or_trimmed_def)
  qed
qed (use assms in simp)

lemma kept_or_trimmed_cong:
  "el_rows s' = el_rows s \<Longrightarrow> el_trimmed s' = el_trimmed s \<Longrightarrow> kept_or_trimmed s' r = kept_or_trimmed s r"
  by (simp add: kept_or_trimmed_def)

lemma do_call_retained:
  assumes "log_inv s" "do_call c s = (a, s')" "kept_or_trimmed s r \<or> r \<in> set (issued [(c, a)])"
  shows "kept_or_trimmed s' r"
proof (cases c)
  case (CApply tx op)
  then obtain e where e: "Apply tx op s = (e, s')" "a = Applied e" using assms(2) by (auto split: prod.splits)
  from Apply_effect [OF assms(1) e(1)] show ?thesis
  proof (cases "e = None")
    case True
    with Apply_effect [OF assms(1) e(1)] obtain prev where "s' = s\<lparr>el_rows := db_pin False (op_Unpin op) (db_pin True (op_Pin op) (el_rows s @ map fresh_row (op_Append op))),
        el_total := el_total s + int (sum_list (map (length \<circ> row_Payload) (op_Append op))), el_last := prev\<rparr>" by auto
    then have "strip ` set (el_rows s') = strip ` set (el_rows s) \<union> set (op_Append op)" "el_trimmed s' = el_trimmed s"
      by (simp_all add: strip_db_pin image_Un image_image)
    with assms(3) CApply e True show ?thesis by (auto simp: kept_or_trimmed_def)
  next
    case False
    with Apply_effect [OF assms(1) e(1)] assms(3) CApply e show ?thesis by (cases e) auto
  qed
next
  case (CTrim q del q' b)
  obtain e s1 where t: "trim q del b s = (e, s1)" by force
  with assms(2) CTrim have "el_rows s' = el_rows s1" "el_trimmed s' = el_trimmed s1"
    by (auto simp: Trim_def split: option.splits)
  then have "kept_or_trimmed s' r = kept_or_trimmed s1 r" by (rule kept_or_trimmed_cong)
  moreover have "kept_or_trimmed s r" using assms(3) CTrim by simp
  ultimately show ?thesis using trim_retained [OF t] by simp
next
  case (CClose rm rmok)
  then show ?thesis using assms(2,3) by (auto simp: Close_log_def kept_or_trimmed_def)
qed

lemma log_run_retained:
  assumes "log_run s tr s'" "log_inv s" "r \<in> set (issued tr)"
  shows "kept_or_trimmed s' r"
  using assms
proof (induction rule: log_run.induct)
  case (log_run_snoc s tr s1 c a s2)
  have "log_inv s1" using log_run_inv log_run_snoc.hyps log_run_snoc.prems by blast
  moreover have "kept_or_trimmed s1 r \<or> r \<in> set (issued [(c, a)])"
    using log_run_snoc.IH log_run_snoc.prems unfolding issued_snoc by auto
  ultimately show ?case using do_call_retained log_run_snoc.hyps(2) by blast
qed simp

lemma FirstUnpinned_above: "FirstUnpinned q s = Some r \<Longrightarrow> el_trimmed s = Some t \<Longrightarrow> t < r"
  by (auto simp: FirstUnpinned_def dest: filter_eq_ConsD split: if_splits list.splits)

subsection \<open>Paging\<close>

definition between :: "nat \<Rightarrow> nat \<Rightarrow> log_store \<Rightarrow> db_row list" where
  "between after before s = filter (\<lambda>x. after < row_Seq x \<and> row_Seq x < before) (el_rows s)"

lemma range_loop_prefix:
  assumes "sorted_wrt (<) (map row_Seq xs)" "\<forall>x\<in>set xs. prev < row_Seq x \<and> row_Seq x < before \<and> wf_row maxP x"
  shows "\<exists>k. range_loop maxP before prev tot xs = Inr (map strip (take k xs)) \<and> (xs = [] \<or> 0 < k)"
  using assms
proof (induction xs arbitrary: prev tot)
  case (Cons x xs)
  let ?t = "tot + length (row_Payload x)"
  from Cons.prems have x: "prev < row_Seq x" "row_Seq x < before" "row_Payload x \<noteq> []" "length (row_Payload x) \<le> maxP"
    by (simp_all add: wf_row_def)
  obtain k where k: "range_loop maxP before (row_Seq x) ?t xs = Inr (map strip (take k xs))"
    using Cons.IH [of "row_Seq x" ?t] Cons.prems by auto
  show ?case
  proof (cases "maxRangeBytes \<le> ?t")
    case True
    with x show ?thesis by (intro exI [of _ 1]) (simp add: strip_def Let_def)
  next
    case False
    with x k show ?thesis by (intro exI [of _ "Suc k"]) (simp add: strip_def Let_def)
  qed
qed simp

lemma log_inv_sorted: "log_inv s \<Longrightarrow> sorted_wrt (<) (map row_Seq (filter P (el_rows s)))"
  by (auto simp: log_inv_def sorted_wrt_map intro: sorted_wrt_filter)

lemma between_cap: "log_inv s \<Longrightarrow> between after (min before MaxInt64) s = between after before s"
  by (auto simp: between_def log_inv_def wf_row_def intro!: filter_cong)

lemma Range_log_prefix:
  assumes "log_inv s" "\<not> el_closed s" "after < log_next s" "0 < limit"
  shows "\<exists>k. Range_log True after before limit s = Inr (map strip (take k (between after before s))) \<and>
    (between after before s = [] \<or> 0 < k)"
proof (cases "before \<le> after + 1")
  case True
  then have "between after before s = []" by (auto simp: between_def filter_empty_conv)
  with True assms show ?thesis by (auto simp: Range_log_def)
next
  case False
  let ?b = "min before MaxInt64" and ?l = "min (nat limit) maxRangeRows"
  let ?xs = "take ?l (between after ?b s)"
  have srt: "sorted_wrt (<) (map row_Seq ?xs)"
    using log_inv_sorted [OF assms(1)] by (simp add: between_def sorted_wrt_take flip: take_map)
  have "x \<in> set ?xs \<Longrightarrow> after < row_Seq x \<and> row_Seq x < ?b \<and> wf_row (el_maxPayload s) x" for x
    using assms(1) by (auto simp: between_def log_inv_def dest!: in_set_takeD)
  with range_loop_prefix [OF srt] obtain k where k: "range_loop (el_maxPayload s) ?b after 0 ?xs = Inr (map strip (take k ?xs))"
    "?xs = [] \<or> 0 < k" by meson
  have "Range_log True after before limit s = Inr (map strip (take (min k ?l) (between after before s)))"
    using assms False k(1) by (simp add: Range_log_def Let_def between_cap between_def [symmetric])
  moreover have "between after before s = [] \<or> 0 < min k ?l"
    using k(2) assms(4) by (auto simp: between_cap [OF assms(1)] maxRangeRows_def)
  ultimately show ?thesis by blast
qed

lemma sorted_drop_filter:
  assumes "sorted_wrt (<) (map row_Seq xs)" "0 < k" "xs \<noteq> []"
  shows "filter (\<lambda>x. row_Seq (last (take k xs)) < row_Seq x) xs = (drop k xs :: db_row list)"
proof -
  have "take k xs \<noteq> []" using assms by simp
  then obtain ys y where y: "take k xs = ys @ [y]" by (cases "take k xs" rule: rev_cases) auto
  then have "xs = ys @ y # drop k xs" using append_take_drop_id [of k xs] by simp
  with sorted_filter_gt [of ys y "drop k xs"] assms(1) y show ?thesis by (metis last_snoc)
qed

lemma pages_between:
  assumes "log_inv s" "\<not> el_closed s" "after < log_next s" "0 < limit" "length (between after before s) < fuel"
  shows "pages fuel after before limit s = Inr (map strip (between after before s))"
  using assms
proof (induction fuel arbitrary: after)
  case (Suc f)
  let ?B = "between after before s"
  obtain k where k: "Range_log True after before limit s = Inr (map strip (take k ?B))" "?B = [] \<or> 0 < k"
    using Range_log_prefix Suc.prems by blast
  show ?case
  proof (cases "?B = []")
    case False
    let ?a = "row_Seq (last (take k ?B))"
    have ne: "take k ?B \<noteq> []" using False k by simp
    then have mem: "last (take k ?B) \<in> set ?B" by (meson in_set_takeD last_in_set)
    then have a: "after < ?a" "?a < log_next s"
      using Suc.prems(1) by (auto simp: between_def log_inv_def log_next_def split: option.splits)
    have "between ?a before s = filter (\<lambda>x. ?a < row_Seq x) ?B"
      unfolding between_def filter_filter using a(1) by (intro filter_cong) (auto simp: between_def)
    also have "\<dots> = drop k ?B"
      using False k(2) log_inv_sorted [OF Suc.prems(1)] by (intro sorted_drop_filter) (simp_all add: between_def)
    finally have d: "between ?a before s = drop k ?B" .
    have "0 < length ?B" "0 < k" using False k(2) by auto
    then have "length (between ?a before s) < f" using Suc.prems(5) unfolding d length_drop by linarith
    then have "pages f ?a before limit s = Inr (map strip (drop k ?B))"
      using Suc.IH [of ?a] a Suc.prems by (simp add: d)
    moreover have "row_Seq (last (map strip (take k ?B))) = ?a" using ne by (simp add: last_map)
    ultimately show ?thesis using k ne by (simp flip: map_append)
  qed (use k in simp)
qed simp

subsection \<open>Running a list of calls\<close>

fun run_calls :: "log_store \<Rightarrow> log_call list \<Rightarrow> (log_call \<times> log_answer) list \<times> log_store" where
  "run_calls s [] = ([], s)"
| "run_calls s (c # cs) = (let (a, s1) = do_call c s; (tr, s2) = run_calls s1 cs in ((c, a) # tr, s2))"

lemma log_run_Cons: "log_run s1 tr s2 \<Longrightarrow> do_call c s = (a, s1) \<Longrightarrow> log_run s ((c, a) # tr) s2"
proof (induction rule: log_run.induct)
  case (log_run_Nil s1)
  then show ?case using log_run.log_run_snoc [OF log_run.log_run_Nil, of c s a s1] by simp
next
  case (log_run_snoc s1 tr s2 d b s3)
  then show ?case using log_run.log_run_snoc [of s "(c, a) # tr" s2 d b s3] by simp
qed

lemma run_calls_run: "run_calls s cs = (tr, s') \<Longrightarrow> log_run s tr s'"
  by (induction cs arbitrary: s tr) (auto intro: log_run_Nil log_run_Cons split: prod.splits)

text \<open>A history for the examples: three rows, the first of them pinned, a Trim, and a fourth row.\<close>

definition ex_open :: log_store where
  "ex_open = \<lparr>el_rows = [], el_files = True, el_maxPayload = 10, el_total = 0, el_closed = False, el_last = None, el_trimmed = None, el_floor = 0\<rparr>"

definition ex_rows :: "event_row list" where
  "ex_rows = [\<lparr>row_Seq = 1, row_Payload = ''ab''\<rparr>, \<lparr>row_Seq = 2, row_Payload = ''cd''\<rparr>, \<lparr>row_Seq = 3, row_Payload = ''ef''\<rparr>]"

definition ex_calls :: "log_call list" where
  "ex_calls = [CApply True \<lparr>op_Append = ex_rows, op_Pin = [1], op_Unpin = []\<rparr>, CTrim True True True 5,
     CApply True \<lparr>op_Append = [\<lparr>row_Seq = 4, row_Payload = ''gh''\<rparr>], op_Pin = [], op_Unpin = []\<rparr>]"

definition ex_trace :: "(log_call \<times> log_answer) list" where
  "ex_trace = zip ex_calls [Applied None, Trimmed (Inr 3), Applied None]"

definition ex_store :: log_store where
  "ex_store = \<lparr>el_rows = [\<lparr>row_Seq = 1, row_Payload = ''ab'', row_pinned = True\<rparr>, \<lparr>row_Seq = 3, row_Payload = ''ef'', row_pinned = False\<rparr>,
       \<lparr>row_Seq = 4, row_Payload = ''gh'', row_pinned = False\<rparr>], el_files = True, el_maxPayload = 10, el_total = 6, el_closed = False,
     el_last = Some 4, el_trimmed = Some 2, el_floor = 3\<rparr>"

lemmas ex_run_defs = ex_open_def ex_rows_def ex_calls_def ex_trace_def ex_store_def Apply_def Trim_def trim_def FirstUnpinned_def
  check_seqs_def db_insert_def db_pin_def Let_def MaxInt64_def

lemma ex_opened: "Open_log ''g'' 10 = Inr ex_open"
  by (simp add: Open_log_def validGeneration_def maxGeneration_def ex_open_def)

lemma ex_run: "log_run ex_open ex_trace ex_store"
  by (rule run_calls_run [of _ ex_calls]) (simp add: ex_run_defs)

section \<open>Properties\<close>

text \<open>
  Whatever sequence of Apply, Trim and Close calls a store sees after it was opened, with any of them failing, the
  rows of the log are strictly increasing in their sequence numbers, every payload is within the limits, the
  byte count the store keeps in memory is the number of payload bytes on disk, and no row is newer than the last
  sequence number the store remembers.
\<close>

theorem log_consistent:
  assumes "Open_log g m = Inr s0" "log_run s0 tr s"
  shows "sorted_wrt (<) (map row_Seq (el_rows s)) \<and>
    (\<forall>x\<in>set (el_rows s). 0 < length (row_Payload x) \<and> length (row_Payload x) \<le> el_maxPayload s \<and> row_Seq x < log_next s) \<and>
    el_total s = int (sum_list (map (length \<circ> row_Payload) (el_rows s))) \<and> log_next s \<le> MaxInt64"
proof -
  have "log_inv s" using log_run_inv [OF assms(2) Open_log_inv [OF assms(1)]] .
  then show ?thesis
    by (auto simp: log_inv_def wf_row_def payload_bytes_def log_next_def le_imp_less_Suc split: option.splits)
qed

theorem log_consistent_witness: "el_total ex_store = int (sum_list (map (length \<circ> row_Payload) (el_rows ex_store)))"
  using log_consistent [OF ex_opened ex_run] by blast

text \<open>
  A successful Trim, after any history, deletes exactly a prefix of the unpinned rows: pinned rows all stay, the
  rest fits the budget or no unpinned row is left, and keeping the newest deleted row would have gone over the
  budget. The number it returns is the one that FirstUnpinned gives from then on.
\<close>

theorem Trim_minimal:
  assumes "Open_log g m = Inr s0" "log_run s0 tr s" "Trim q del True b s = (Inr r, s')"
  shows "\<exists>ys zs. unpinned s = ys @ zs \<and> unpinned s' = zs \<and> pinned s' = pinned s \<and>
    (el_total s' \<le> max b 0 \<or> zs = []) \<and> (ys = [] \<or> max b 0 < el_total s' + int (length (row_Payload (last ys)))) \<and>
    (FirstUnpinned True s' = Some r \<or> FirstUnpinned True s' = None \<and> r = 0)"
proof -
  have inv: "log_inv s" using log_run_inv [OF assms(2) Open_log_inv [OF assms(1)]] .
  obtain s1 where t: "trim q del b s = (None, s1)"
    using assms(3) by (auto simp: Trim_def split: prod.splits option.splits)
  have f: "s' = (case FirstUnpinned True s1 of None \<Rightarrow> s1 | Some x \<Rightarrow> s1\<lparr>el_floor := x\<rparr>)" "r = (case FirstUnpinned True s1 of None \<Rightarrow> 0 | Some x \<Rightarrow> x)"
    using assms(3) t by (auto simp: Trim_def split: option.splits)
  have eq: "el_rows s' = el_rows s1" "el_total s' = el_total s1" "unpinned s' = unpinned s1" "pinned s' = pinned s1"
    using f(1) by (auto simp: unpinned_def pinned_def split: option.splits)
  have "FirstUnpinned True s' = FirstUnpinned True s1"
    by (auto simp: f FirstUnpinned_def split: option.splits list.splits if_splits)
  with f(2) have "FirstUnpinned True s' = Some r \<or> FirstUnpinned True s' = None \<and> r = 0" by (auto split: option.splits)
  with trim_effect [OF inv t] show ?thesis unfolding eq by metis
qed

theorem Trim_minimal_witness:
  "\<exists>s'. Trim True True True 2 ex_store = (Inr 0, s') \<and> (\<exists>ys zs. unpinned ex_store = ys @ zs \<and> unpinned s' = zs \<and> pinned s' = pinned ex_store)"
proof -
  obtain s' where "Trim True True True 2 ex_store = (Inr 0, s')" by (simp add: ex_run_defs)
  with Trim_minimal [OF ex_opened ex_run this] show ?thesis by blast
qed

text \<open>
  The contract of Trim on its results: along any sequence of calls the nonzero results of Trim never decrease,
  whatever is pinned and unpinned in between.
\<close>

theorem Trim_monotone:
  assumes "log_run s0 (tr1 @ [(c1, Trimmed (Inr a))] @ tr2 @ [(c2, Trimmed (Inr b))]) s" "a \<noteq> 0" "b \<noteq> 0"
  shows "a \<le> b"
proof -
  obtain s1 where s1: "log_run s0 (tr1 @ [(c1, Trimmed (Inr a))] @ tr2) s1" "do_call c2 s1 = (Trimmed (Inr b), s)"
    using assms(1) log_run_snocE [of s0 "tr1 @ [(c1, Trimmed (Inr a))] @ tr2" "(c2, Trimmed (Inr b))" s] by auto
  have "a \<le> el_floor s1" using log_run_floor [OF s1(1), of c1 a] assms(2) by simp
  then show ?thesis using do_call_floor [OF s1(2)] assms(3) by auto
qed

theorem Trim_monotone_witness:
  "\<exists>s tr. log_run ex_open (ex_trace @ tr) s \<and> tr = [(CTrim True True True 4, Trimmed (Inr 4))] \<and> (3::nat) \<le> 4"
proof -
  obtain s where d: "do_call (CTrim True True True 4) ex_store = (Trimmed (Inr 4), s)" by (simp add: ex_run_defs)
  note r = log_run_snoc [OF ex_run d]
  have e: "ex_trace = [ex_trace ! 0] @ [(CTrim True True True 5, Trimmed (Inr 3))] @ [ex_trace ! 2]" by (simp add: ex_trace_def ex_calls_def)
  have "(3::nat) \<le> 4"
    by (rule Trim_monotone [of ex_open "[ex_trace ! 0]" "CTrim True True True 5" 3 "[ex_trace ! 2]" "CTrim True True True 4" 4 s])
      (use r in \<open>simp_all add: ex_trace_def ex_calls_def\<close>)
  with r show ?thesis by blast
qed

text \<open>
  C21: What the first sequence number announced to a client promises: after any history, every row that a successful Apply
  has ever issued from that number on is still in the log, with its payload.
\<close>

theorem retained_from_first:
  assumes "Open_log g m = Inr s0" "log_run s0 tr s" "FirstUnpinned q s = Some r" "e \<in> set (issued tr)" "r \<le> row_Seq e"
  shows "\<exists>x\<in>set (el_rows s). row_Seq x = row_Seq e \<and> row_Payload x = row_Payload e"
proof -
  have "kept_or_trimmed s e" using log_run_retained [OF assms(2) Open_log_inv [OF assms(1)] assms(4)] .
  then show ?thesis using FirstUnpinned_above [OF assms(3)] assms(5) by (fastforce simp: kept_or_trimmed_def)
qed

theorem retained_from_first_witness:
  "\<exists>x\<in>set (el_rows ex_store). row_Seq x = 3 \<and> row_Payload x = ''ef''"
  using retained_from_first [OF ex_opened ex_run, of True 3 "\<lparr>row_Seq = 3, row_Payload = ''ef''\<rparr>"] by (simp add: ex_run_defs)

text \<open>
  C22: A reader that asks Range again behind the last row it got obtains, whatever page size it asks for, exactly the
  rows of the log between its two bounds, in order, and is done after at most one page per row and an empty one.
\<close>

theorem paging_complete:
  assumes "Open_log g m = Inr s0" "log_run s0 tr s" "\<not> el_closed s" "after < log_next s" "0 < limit" "length (el_rows s) < fuel"
  shows "pages fuel after before limit s =
    Inr (map (\<lambda>x. \<lparr>row_Seq = row_Seq x, row_Payload = row_Payload x\<rparr>)
          (filter (\<lambda>x. after < row_Seq x \<and> row_Seq x < before) (el_rows s)))"
proof -
  have "length (between after before s) < fuel" using assms(6) by (simp add: between_def le_less_trans [OF length_filter_le])
  from pages_between [OF log_run_inv [OF assms(2) Open_log_inv [OF assms(1)]] assms(3-5) this]
  show ?thesis by (simp add: between_def strip_def [abs_def])
qed

theorem paging_complete_witness:
  "pages 4 1 9 1 ex_store = Inr [\<lparr>row_Seq = 3, row_Payload = ''ef''\<rparr>, \<lparr>row_Seq = 4, row_Payload = ''gh''\<rparr>]"
  using paging_complete [OF ex_opened ex_run, of 1 1 4 9] by (simp add: ex_store_def log_next_def)

end
