(* ===== verification/Chat_Hub.thy ===== *)
theory Chat_Hub
  imports Go_Prelude
begin

text \<open>
  The fan-out of a chat (cmd/internal/chat/hub.go): a ring of events bounded in bytes, the events pinned beside it,
  and the subscribers with their bounded queues; and the queue of the writer of the durable log
  (the part of durable.go that \<open>Hub.Update\<close> calls).

  A \<open>*Subscription\<close> is an index into the list of all subscriptions ever made; \<open>subs\<close> are the indices that
  are registered. \<open>Hub.mu\<close> makes every method of the hub one step, but a reader holds only the mutex of its own
  subscription: it may run between any two pushes of an \<open>Update\<close>. That schedule is an argument of
  \<open>Update\<close>: how many times each subscriber calls \<open>Next\<close> before each push. The list \<open>sb_got\<close> is what \<open>Next\<close> has
  returned so far; no code reads it. The channel \<open>notify\<close>, which only wakes a waiting reader, is left out.
\<close>

section \<open>Events and operations of the store\<close>

record event =
  ev_Seq :: nat
  ev_Type :: string
  ev_Durable :: bool
  ev_JSON :: string

definition zero_event :: event where
  "zero_event = \<lparr>ev_Seq = 0, ev_Type = [], ev_Durable = False, ev_JSON = []\<rparr>"

definition DefaultMaxLine :: nat where "DefaultMaxLine = 1024 * 1024"
definition DefaultMaxEvent :: nat where "DefaultMaxEvent = 2 * DefaultMaxLine"

definition event_size :: "event \<Rightarrow> nat" where
  "event_size e = length (ev_JSON e) + 64"

record stored_event =
  st_Seq :: nat
  st_Payload :: string

record store_op =
  so_Append :: "stored_event list"
  so_Pin :: "nat list"
  so_Unpin :: "nat list"

section \<open>The queue of the writer\<close>

definition DefaultStoreQueueBytes :: int where "DefaultStoreQueueBytes = 4 * 1024 * 1024"
definition DefaultStoreMaxBytes :: int where "DefaultStoreMaxBytes = 64 * 1024 * 1024"

record store_writer =
  sw_queueMax :: int
  sw_gcMax :: int
  sw_written :: int
  sw_degraded :: bool
  sw_trimmed :: nat
  sw_trims :: nat
  sw_pending :: "store_op list"
  sw_bytes :: int
  sw_closing :: bool

definition or_default :: "int \<Rightarrow> int \<Rightarrow> int" where
  "or_default x d = (if x \<le> 0 then d else x)"

definition newStoreWriter :: "int \<Rightarrow> int \<Rightarrow> store_writer" where
  "newStoreWriter queueBytes maxBytes =
     \<lparr>sw_queueMax = or_default queueBytes DefaultStoreQueueBytes, sw_gcMax = or_default maxBytes DefaultStoreMaxBytes, sw_written = -1,
      sw_degraded = False, sw_trimmed = 0, sw_trims = 0, sw_pending = [], sw_bytes = 0, sw_closing = False\<rparr>"

definition degrade :: "store_writer \<Rightarrow> store_writer" where
  "degrade w = (if sw_degraded w then w else w\<lparr>sw_degraded := True, sw_pending := [], sw_bytes := 0\<rparr>)"

definition opSize :: "store_op \<Rightarrow> int" where
  "opSize op = 64 + 16 * int (length (so_Pin op) + length (so_Unpin op)) +
     int (sum_list (map (\<lambda>e. length (st_Payload e) + 64) (so_Append op)))"

definition enqueue :: "store_op \<Rightarrow> store_writer \<Rightarrow> store_writer" where
  "enqueue op w =
     (if sw_degraded w \<or> so_Append op = [] \<and> so_Pin op = [] \<and> so_Unpin op = [] then w
      else if sw_closing w then w
      else if sw_bytes w + opSize op > sw_queueMax w then degrade w
      else w\<lparr>sw_pending := sw_pending w @ [op], sw_bytes := sw_bytes w + opSize op\<rparr>)"

definition closeInput :: "store_writer \<Rightarrow> store_writer" where
  "closeInput w = w\<lparr>sw_closing := True\<rparr>"

section \<open>The hub\<close>

definition DefaultHubMaxBytes :: int where "DefaultHubMaxBytes = 4 * 1024 * 1024"
definition DefaultSubMaxBytes :: int where "DefaultSubMaxBytes = 4 * 1024 * 1024"
definition DefaultSubMaxEvents :: int where "DefaultSubMaxEvents = 4096"
definition DefaultMaxPinned :: int where "DefaultMaxPinned = 16"
definition hubSubscribersHardLimit :: nat where "hubSubscribersHardLimit = 65536"

text \<open>\<open>Store\<close> is the store itself; here only whether there is one.\<close>

record hub_config =
  hc_MaxBytes :: int
  hc_SubBytes :: int
  hc_SubEvents :: int
  hc_MaxPinned :: int
  hc_Store :: bool
  hc_StoreQueueBytes :: int
  hc_StoreMaxBytes :: int

datatype sub_err = ErrSlowSubscriber | SubCanceled

record subscription =
  sb_Snapshot :: "event list"
  sb_FirstSeq :: nat
  sb_resumed :: bool
  sb_durable :: bool
  sb_queue :: "event list"
  sb_bytes :: int
  sb_done :: bool
  sb_err :: "sub_err option"
  sb_exit :: int
  sb_got :: "event list"

record hub =
  hb_cfg :: hub_config
  hb_ring :: "event list"
  hb_head :: nat
  hb_pinned :: "event list"
  hb_bytes :: int
  hb_nextSeq :: nat
  hb_subs :: "nat list"
  hb_objs :: "subscription list"
  hb_ended :: bool
  hb_exitCode :: int
  hb_w :: "store_writer option"

definition NewHub :: "hub_config \<Rightarrow> hub" where
  "NewHub cfg =
     \<lparr>hb_cfg = cfg\<lparr>hc_MaxBytes := or_default (hc_MaxBytes cfg) DefaultHubMaxBytes, hc_SubBytes := or_default (hc_SubBytes cfg) DefaultSubMaxBytes,
        hc_SubEvents := or_default (hc_SubEvents cfg) DefaultSubMaxEvents, hc_MaxPinned := or_default (hc_MaxPinned cfg) DefaultMaxPinned\<rparr>,
      hb_ring = [], hb_head = 0, hb_pinned = [], hb_bytes = 0, hb_nextSeq = 0, hb_subs = [], hb_objs = [], hb_ended = False, hb_exitCode = 0,
      hb_w = (if hc_Store cfg then Some (newStoreWriter (hc_StoreQueueBytes cfg) (hc_StoreMaxBytes cfg)) else None)\<rparr>"

subsection \<open>Subscriptions\<close>

definition push :: "hub_config \<Rightarrow> event \<Rightarrow> subscription \<Rightarrow> subscription" where
  "push cfg e s =
     (if sb_done s then s
      else if sb_queue s \<noteq> [] \<and> (int (length (sb_queue s)) + 1 > hc_SubEvents cfg \<or> sb_bytes s + int (event_size e) > hc_SubBytes cfg)
      then s\<lparr>sb_queue := [], sb_bytes := 0, sb_done := True, sb_err := Some ErrSlowSubscriber\<rparr>
      else s\<lparr>sb_queue := sb_queue s @ [e], sb_bytes := sb_bytes s + int (event_size e)\<rparr>)"

definition finish :: "sub_err option \<Rightarrow> int \<Rightarrow> subscription \<Rightarrow> subscription" where
  "finish err exitCode s = (if sb_done s then s else s\<lparr>sb_done := True, sb_err := err, sb_exit := exitCode\<rparr>)"

text \<open>\<open>Next\<close>: the next event, the end, or waiting.\<close>

datatype next_result = Got event | NextEOF | NextErr sub_err | Waits

definition Next :: "subscription \<Rightarrow> next_result \<times> subscription" where
  "Next s =
     (case sb_queue s of
        e # q \<Rightarrow> (Got e, s\<lparr>sb_queue := q, sb_bytes := sb_bytes s - int (event_size e), sb_got := sb_got s @ [e]\<rparr>)
      | [] \<Rightarrow> if sb_done s then (case sb_err s of None \<Rightarrow> (NextEOF, s) | Some x \<Rightarrow> (NextErr x, s)) else (Waits, s))"

fun reads :: "nat \<Rightarrow> subscription \<Rightarrow> subscription" where
  "reads 0 s = s"
| "reads (Suc n) s = reads n (snd (Next s))"

text \<open>What a loop over the registered subscribers does, in whatever order the map yields them.\<close>

definition upd_subs :: "(nat \<Rightarrow> subscription \<Rightarrow> subscription) \<Rightarrow> nat list \<Rightarrow> subscription list \<Rightarrow> subscription list" where
  "upd_subs f subs objs = map (\<lambda>(i, s). if i \<in> set subs then f i s else s) (enumerate 0 objs)"

subsection \<open>Update\<close>

fun pin_loop :: "int \<Rightarrow> event list \<Rightarrow> event list \<Rightarrow> event list \<times> nat list" where
  "pin_loop maxPinned pinned [] = (pinned, [])"
| "pin_loop maxPinned pinned (e # es) =
     (if ev_Seq e \<notin> ev_Seq ` set pinned \<and> int (length pinned) \<ge> maxPinned then pin_loop maxPinned pinned es
      else let pinned' = (if ev_Seq e \<in> ev_Seq ` set pinned then map (\<lambda>p. if ev_Seq p = ev_Seq e then e else p) pinned else pinned @ [e]);
               (res, qs) = pin_loop maxPinned pinned' es
           in (res, ev_Seq e # qs))"

fun unpin_loop :: "event list \<Rightarrow> nat list \<Rightarrow> event list \<times> nat list" where
  "unpin_loop pinned [] = (pinned, [])"
| "unpin_loop pinned (q # qs) =
     (if q \<in> ev_Seq ` set pinned
      then let (res, us) = unpin_loop (filter (\<lambda>p. ev_Seq p \<noteq> q) pinned) qs in (res, q # us)
      else unpin_loop pinned qs)"

definition stored_of :: "event \<Rightarrow> stored_event" where
  "stored_of e = \<lparr>st_Seq = ev_Seq e, st_Payload = ev_JSON e\<rparr>"

definition publish_event :: "(nat \<Rightarrow> nat) \<Rightarrow> event \<Rightarrow> hub \<Rightarrow> hub" where
  "publish_event rd e h =
     h\<lparr>hb_ring := hb_ring h @ [e], hb_bytes := hb_bytes h + int (event_size e), hb_nextSeq := ev_Seq e + 1,
       hb_objs := upd_subs (\<lambda>i s. push (hb_cfg h) e (reads (rd i) s)) (hb_subs h) (hb_objs h)\<rparr>"

fun publish_loop :: "(nat \<Rightarrow> nat \<Rightarrow> nat) \<Rightarrow> event list \<Rightarrow> hub \<Rightarrow> hub" where
  "publish_loop rd [] h = h"
| "publish_loop rd (e # es) h = publish_loop (\<lambda>k. rd (Suc k)) es (publish_event (rd 0) e h)"

text \<open>The part of \<open>Update\<close> up to the hand-over to the writer.\<close>

definition update_begin :: "(nat \<Rightarrow> nat \<Rightarrow> nat) \<Rightarrow> event list \<Rightarrow> event list \<Rightarrow> nat list \<Rightarrow> hub \<Rightarrow> hub" where
  "update_begin rd events pin unpin h =
     (let (pinned1, pins) = pin_loop (hc_MaxPinned (hb_cfg h)) (hb_pinned h) pin;
          (pinned2, unpins) = unpin_loop pinned1 unpin;
          op = \<lparr>so_Append = map stored_of (filter ev_Durable events), so_Pin = pins, so_Unpin = unpins\<rparr>;
          h1 = publish_loop rd events (h\<lparr>hb_pinned := pinned2\<rparr>)
      in h1\<lparr>hb_w := map_option (enqueue op) (hb_w h1)\<rparr>)"

text \<open>The eviction from the ring, one event per round.\<close>

definition must_evict :: "hub \<Rightarrow> bool" where
  "must_evict h \<longleftrightarrow> hb_head h + 1 < length (hb_ring h) \<and> hb_bytes h > hc_MaxBytes (hb_cfg h)"

definition evict_step :: "hub \<Rightarrow> hub" where
  "evict_step h =
     (let old = hb_ring h ! hb_head h in
      h\<lparr>hb_w := (case hb_w h of
           None \<Rightarrow> None
         | Some w \<Rightarrow> Some (if ev_Durable old \<and> int (ev_Seq old) > sw_written w then degrade w else w)),
        hb_bytes := hb_bytes h - int (event_size old), hb_ring := (hb_ring h)[hb_head h := zero_event], hb_head := hb_head h + 1\<rparr>)"

function evict :: "hub \<Rightarrow> hub" where
  "evict h = (if must_evict h then evict (evict_step h) else h)"
  by pat_completeness auto
termination by (relation "measure (\<lambda>h. length (hb_ring h) - hb_head h)") (auto simp: must_evict_def evict_step_def Let_def)

declare evict.simps [simp del]

text \<open>The compaction of the slice and the removal of the subscribers that are done.\<close>

definition update_end :: "hub \<Rightarrow> hub" where
  "update_end h =
     (let h1 = (if hb_head h > 0 \<and> hb_head h \<ge> length (hb_ring h) div 2
                then h\<lparr>hb_ring := drop (hb_head h) (hb_ring h), hb_head := 0\<rparr> else h)
      in h1\<lparr>hb_subs := filter (\<lambda>i. \<not> sb_done (hb_objs h1 ! i)) (hb_subs h1)\<rparr>)"

definition Update :: "(nat \<Rightarrow> nat \<Rightarrow> nat) \<Rightarrow> event list \<Rightarrow> event list \<Rightarrow> nat list \<Rightarrow> hub \<Rightarrow> hub" where
  "Update rd events pin unpin h =
     (if hb_ended h then h else update_end (evict (update_begin rd events pin unpin h)))"

definition Hub_Close :: "int \<Rightarrow> hub \<Rightarrow> hub" where
  "Hub_Close exitCode h =
     (if hb_ended h then h
      else h\<lparr>hb_ended := True, hb_exitCode := exitCode, hb_w := map_option closeInput (hb_w h),
        hb_objs := upd_subs (\<lambda>i. finish None exitCode) (hb_subs h) (hb_objs h), hb_subs := []\<rparr>)"

subsection \<open>Subscribing\<close>

definition hub_ring :: "hub \<Rightarrow> event list" where
  "hub_ring h = drop (hb_head h) (hb_ring h)"

definition ring_first :: "hub \<Rightarrow> nat" where
  "ring_first h = (case hub_ring h of [] \<Rightarrow> hb_nextSeq h | e # _ \<Rightarrow> ev_Seq e)"

text \<open>Registering a new subscription; the index is the pointer that is returned.\<close>

definition register :: "subscription \<Rightarrow> hub \<Rightarrow> nat \<times> hub" where
  "register s h =
     (if hb_ended h
      then (length (hb_objs h), h\<lparr>hb_objs := hb_objs h @ [s\<lparr>sb_done := True, sb_exit := hb_exitCode h\<rparr>]\<rparr>)
      else (length (hb_objs h), h\<lparr>hb_objs := hb_objs h @ [s], hb_subs := hb_subs h @ [length (hb_objs h)]\<rparr>))"

definition subscribeLocked :: "hub \<Rightarrow> (nat \<times> hub) option" where
  "subscribeLocked h =
     (if length (hb_subs h) \<ge> hubSubscribersHardLimit then None
      else let first = ring_first h;
               old = sort_key ev_Seq (filter (\<lambda>e. ev_Seq e < first) (hb_pinned h))
           in Some (register \<lparr>sb_Snapshot = old @ hub_ring h, sb_FirstSeq = first, sb_resumed = False,
                sb_durable = (case hb_w h of None \<Rightarrow> False | Some w \<Rightarrow> \<not> sw_degraded w), sb_queue = [], sb_bytes = 0, sb_done = False,
                sb_err = None, sb_exit = 0, sb_got = []\<rparr> h))"

definition Sub_Close :: "nat \<Rightarrow> hub \<Rightarrow> hub" where
  "Sub_Close i h =
     h\<lparr>hb_subs := filter (\<lambda>j. j \<noteq> i) (hb_subs h),
       hb_objs := (hb_objs h)[i := (let s = hb_objs h ! i; s1 = (if sb_done s then s else s\<lparr>sb_done := True, sb_err := Some SubCanceled\<rparr>)
          in s1\<lparr>sb_queue := [], sb_bytes := 0\<rparr>)]\<rparr>"

definition Sub_Next :: "nat \<Rightarrow> hub \<Rightarrow> next_result \<times> hub" where
  "Sub_Next i h = (case Next (hb_objs h ! i) of (r, s) \<Rightarrow> (r, h\<lparr>hb_objs := (hb_objs h)[i := s]\<rparr>))"

subsection \<open>Sequences of calls\<close>

text \<open>The events that a call publishes and the state behind it. A call on a subscription has a pointer that \<open>Subscribe\<close> returned.\<close>

datatype hub_call =
    HUpdate "nat \<Rightarrow> nat \<Rightarrow> nat" "event list" "event list" "nat list"
  | HClose int
  | HSubscribe
  | HSubClose nat
  | HNext nat

fun do_hub :: "hub_call \<Rightarrow> hub \<Rightarrow> event list \<times> hub" where
  "do_hub (HUpdate rd es p u) h = (if hb_ended h then [] else es, Update rd es p u h)"
| "do_hub (HClose x) h = ([], Hub_Close x h)"
| "do_hub HSubscribe h = ([], case subscribeLocked h of None \<Rightarrow> h | Some (i, h') \<Rightarrow> h')"
| "do_hub (HSubClose i) h = ([], if i < length (hb_objs h) then Sub_Close i h else h)"
| "do_hub (HNext i) h = ([], if i < length (hb_objs h) then snd (Sub_Next i h) else h)"

fun run_hub :: "hub_call list \<Rightarrow> hub \<Rightarrow> event list \<times> hub" where
  "run_hub [] h = ([], h)"
| "run_hub (c # cs) h = (case do_hub c h of (p, h1) \<Rightarrow> (case run_hub cs h1 of (ps, h2) \<Rightarrow> (p @ ps, h2)))"

section \<open>Lemmas\<close>

subsection \<open>What a subscriber gets\<close>

lemma Next_keeps:
  "sb_got (snd (Next s)) @ sb_queue (snd (Next s)) = sb_got s @ sb_queue s" "sb_done (snd (Next s)) = sb_done s"
  "sb_err (snd (Next s)) = sb_err s" "sb_Snapshot (snd (Next s)) = sb_Snapshot s" "sb_FirstSeq (snd (Next s)) = sb_FirstSeq s"
  by (simp_all add: Next_def split: list.split option.split)

lemma reads_keeps:
  "sb_got (reads n s) @ sb_queue (reads n s) = sb_got s @ sb_queue s" "sb_done (reads n s) = sb_done s"
  "sb_err (reads n s) = sb_err s" "sb_Snapshot (reads n s) = sb_Snapshot s" "sb_FirstSeq (reads n s) = sb_FirstSeq s"
  by (induction n arbitrary: s) (simp_all add: Next_keeps)

text \<open>What the loop over the events does to one subscriber.\<close>

fun feed :: "hub_config \<Rightarrow> (nat \<Rightarrow> nat) \<Rightarrow> event list \<Rightarrow> subscription \<Rightarrow> subscription" where
  "feed cfg rd [] s = s"
| "feed cfg rd (e # es) s = feed cfg (\<lambda>k. rd (Suc k)) es (push cfg e (reads (rd 0) s))"

lemma length_upd_subs [simp]: "length (upd_subs f subs objs) = length objs"
  by (simp add: upd_subs_def)

lemma nth_upd_subs [simp]: "i < length objs \<Longrightarrow> upd_subs f subs objs ! i = (if i \<in> set subs then f i (objs ! i) else objs ! i)"
  by (simp add: upd_subs_def nth_enumerate_eq)

lemma set_upd_subs: "s \<in> set (upd_subs f subs objs) \<Longrightarrow> \<exists>i. \<exists>r\<in>set objs. s = r \<or> s = f i r"
  by (fastforce simp: upd_subs_def in_set_enumerate_eq)

lemma publish_loop_fields [simp]:
  "hb_cfg (publish_loop rd es h) = hb_cfg h" "hb_subs (publish_loop rd es h) = hb_subs h" "hb_head (publish_loop rd es h) = hb_head h"
  "hb_ring (publish_loop rd es h) = hb_ring h @ es" "hb_pinned (publish_loop rd es h) = hb_pinned h" "hb_ended (publish_loop rd es h) = hb_ended h"
  "hb_w (publish_loop rd es h) = hb_w h" "length (hb_objs (publish_loop rd es h)) = length (hb_objs h)"
  "hb_nextSeq (publish_loop rd es h) = (if es = [] then hb_nextSeq h else ev_Seq (last es) + 1)"
  "hb_bytes (publish_loop rd es h) = hb_bytes h + int (sum_list (map event_size es))"
  by (induction es arbitrary: rd h) (simp_all add: publish_event_def)

lemma publish_loop_objs:
  "i < length (hb_objs h) \<Longrightarrow>
   hb_objs (publish_loop rd es h) ! i = (if i \<in> set (hb_subs h) then feed (hb_cfg h) (\<lambda>k. rd k i) es (hb_objs h ! i) else hb_objs h ! i)"
  by (induction es arbitrary: rd h) (simp_all add: publish_event_def)

definition sees :: "event list \<Rightarrow> subscription \<Rightarrow> bool" where
  "sees pub s \<longleftrightarrow> (\<exists>ys. pub = sb_got s @ ys) \<and> (if sb_err s = None then sb_got s @ sb_queue s = pub else sb_done s \<and> sb_queue s = [])"

lemma sees_reads: "sees pub s \<Longrightarrow> sees pub (reads n s)"
proof (induction n arbitrary: s)
  case (Suc n)
  have "sees pub (snd (Next s))"
    using Suc.prems by (auto simp: sees_def Next_def split: list.splits option.splits if_splits)
  then show ?case using Suc.IH by simp
qed simp

lemma sees_push: "sees pub s \<Longrightarrow> sb_done s \<longleftrightarrow> sb_err s \<noteq> None \<Longrightarrow> sees (pub @ [e]) (push cfg e s) \<and> (sb_done (push cfg e s) \<longleftrightarrow> sb_err (push cfg e s) \<noteq> None)"
  by (auto simp: sees_def push_def)

lemma sees_feed:
  "sees pub s \<Longrightarrow> sb_done s \<longleftrightarrow> sb_err s \<noteq> None \<Longrightarrow>
   sees (pub @ es) (feed cfg rd es s) \<and> (sb_done (feed cfg rd es s) \<longleftrightarrow> sb_err (feed cfg rd es s) \<noteq> None)"
proof (induction es arbitrary: pub rd s)
  case (Cons e es)
  have "sees (pub @ [e]) (push cfg e (reads (rd 0) s)) \<and>
      (sb_done (push cfg e (reads (rd 0) s)) \<longleftrightarrow> sb_err (push cfg e (reads (rd 0) s)) \<noteq> None)"
    using sees_push [OF sees_reads [OF Cons.prems(1)]] Cons.prems(2) by (simp add: reads_keeps)
  then show ?case using Cons.IH [of "pub @ [e]"] by simp
qed simp

lemma feed_snapshot [simp]: "sb_Snapshot (feed cfg rd es s) = sb_Snapshot s" "sb_FirstSeq (feed cfg rd es s) = sb_FirstSeq s"
  by (induction es arbitrary: rd s) (simp_all add: push_def reads_keeps)

subsection \<open>Update\<close>

lemma update_begin_fields:
  "hb_cfg (update_begin rd es p u h) = hb_cfg h" "hb_subs (update_begin rd es p u h) = hb_subs h"
  "hb_head (update_begin rd es p u h) = hb_head h" "hb_ring (update_begin rd es p u h) = hb_ring h @ es"
  "hb_ended (update_begin rd es p u h) = hb_ended h" "length (hb_objs (update_begin rd es p u h)) = length (hb_objs h)"
  "hb_nextSeq (update_begin rd es p u h) = (if es = [] then hb_nextSeq h else ev_Seq (last es) + 1)"
  "hb_bytes (update_begin rd es p u h) = hb_bytes h + int (sum_list (map event_size es))"
  "hb_pinned (update_begin rd es p u h) = fst (unpin_loop (fst (pin_loop (hc_MaxPinned (hb_cfg h)) (hb_pinned h) p)) u)"
  by (simp_all add: update_begin_def Let_def split: prod.split)

lemma update_begin_objs:
  "i < length (hb_objs h) \<Longrightarrow>
   hb_objs (update_begin rd es p u h) ! i = (if i \<in> set (hb_subs h) then feed (hb_cfg h) (\<lambda>k. rd k i) es (hb_objs h ! i) else hb_objs h ! i)"
  by (simp add: update_begin_def Let_def publish_loop_objs split: prod.split)

lemma evict_step_fields [simp]:
  "hb_cfg (evict_step h) = hb_cfg h" "hb_subs (evict_step h) = hb_subs h" "hb_objs (evict_step h) = hb_objs h"
  "hb_ended (evict_step h) = hb_ended h" "hb_nextSeq (evict_step h) = hb_nextSeq h" "hb_pinned (evict_step h) = hb_pinned h"
  "length (hb_ring (evict_step h)) = length (hb_ring h)" "hb_head (evict_step h) = hb_head h + 1"
  by (simp_all add: evict_step_def Let_def)

lemma evict_step_ring:
  assumes "must_evict h"
  shows "hub_ring h = hb_ring h ! hb_head h # hub_ring (evict_step h)"
    and "hb_bytes (evict_step h) = hb_bytes h - int (event_size (hb_ring h ! hb_head h))"
proof -
  have "hb_head h < length (hb_ring h)" using assms by (simp add: must_evict_def)
  then show "hub_ring h = hb_ring h ! hb_head h # hub_ring (evict_step h)"
    by (simp add: hub_ring_def evict_step_def Let_def Cons_nth_drop_Suc drop_update_cancel)
qed (simp add: evict_step_def Let_def)

lemma evict_fields [simp]:
  "hb_cfg (evict h) = hb_cfg h" "hb_subs (evict h) = hb_subs h" "hb_objs (evict h) = hb_objs h"
  "hb_ended (evict h) = hb_ended h" "hb_nextSeq (evict h) = hb_nextSeq h" "hb_pinned (evict h) = hb_pinned h"
  by (induction h rule: evict.induct; subst evict.simps; simp)+

lemma evict_ring: "\<exists>old. hub_ring h = old @ hub_ring (evict h) \<and> hb_bytes h = hb_bytes (evict h) + int (sum_list (map event_size old))"
proof (induction h rule: evict.induct)
  case (1 h)
  show ?case
  proof (cases "must_evict h")
    case True
    then obtain old where "hub_ring (evict_step h) = old @ hub_ring (evict h)"
      "hb_bytes (evict_step h) = hb_bytes (evict h) + int (sum_list (map event_size old))"
      using 1 by (auto simp: evict.simps [of h])
    then show ?thesis using evict_step_ring [OF True] by (intro exI [of _ "hb_ring h ! hb_head h # old"]) simp
  next
    case False
    then show ?thesis by (simp add: evict.simps [of h])
  qed
qed

lemma evict_done: "\<not> must_evict (evict h)"
  by (induction h rule: evict.induct) (subst evict.simps; simp)

lemma evict_head: "hb_head h \<le> length (hb_ring h) \<Longrightarrow> hb_head (evict h) \<le> length (hb_ring (evict h))"
  by (induction h rule: evict.induct) (subst (1 2) evict.simps; simp add: must_evict_def)

lemma update_end_fields [simp]:
  "hb_cfg (update_end h) = hb_cfg h" "hb_objs (update_end h) = hb_objs h" "hb_ended (update_end h) = hb_ended h"
  "hb_nextSeq (update_end h) = hb_nextSeq h" "hb_pinned (update_end h) = hb_pinned h" "hb_bytes (update_end h) = hb_bytes h"
  "hub_ring (update_end h) = hub_ring h" "hb_subs (update_end h) = filter (\<lambda>i. \<not> sb_done (hb_objs h ! i)) (hb_subs h)"
  "hb_w (update_end h) = hb_w h"
  by (simp_all add: update_end_def Let_def hub_ring_def)

subsection \<open>Following one subscriber\<close>

definition track :: "nat \<Rightarrow> event list \<Rightarrow> event list \<Rightarrow> hub \<Rightarrow> bool" where
  "track i snap pub h \<longleftrightarrow> i < length (hb_objs h) \<and>
     (let s = hb_objs h ! i in sees pub s \<and> sb_Snapshot s = snap \<and> (sb_err s = None \<longrightarrow> sb_done s = hb_ended h) \<and>
        (\<not> sb_done s \<longrightarrow> i \<in> set (hb_subs h)))"

lemma track_begin:
  assumes "track i snap pub h" "\<not> hb_ended h"
  shows "track i snap (pub @ es) (update_begin rd es p u h)"
proof -
  let ?s = "hb_objs h ! i" and ?s' = "hb_objs (update_begin rd es p u h) ! i"
  have i: "i < length (hb_objs h)" and s: "sees pub ?s" "sb_Snapshot ?s = snap" "sb_done ?s \<longleftrightarrow> sb_err ?s \<noteq> None" "\<not> sb_done ?s \<longrightarrow> i \<in> set (hb_subs h)"
    using assms by (auto simp: track_def sees_def Let_def)
  have s': "?s' = (if i \<in> set (hb_subs h) then feed (hb_cfg h) (\<lambda>k. rd k i) es ?s else ?s)"
    by (simp add: update_begin_objs i)
  have sees: "sees (pub @ es) ?s' \<and> (sb_done ?s' \<longleftrightarrow> sb_err ?s' \<noteq> None)"
  proof (cases "i \<in> set (hb_subs h)")
    case True
    then show ?thesis unfolding s' using sees_feed [OF s(1,3)] by simp
  next
    case False
    then show ?thesis unfolding s' using s by (auto simp: sees_def)
  qed
  have "\<not> sb_done ?s' \<longrightarrow> i \<in> set (hb_subs h)" using s(4) s' by auto
  then show ?thesis
    using sees s(2) s' assms(2) i by (auto simp: track_def Let_def update_begin_fields)
qed

lemma track_cong:
  "hb_objs h' = hb_objs h \<Longrightarrow> hb_subs h' = hb_subs h \<Longrightarrow> hb_ended h' = hb_ended h \<Longrightarrow> track i snap pub h' = track i snap pub h"
  by (simp add: track_def)

lemma track_end: "track i snap pub h \<Longrightarrow> track i snap pub (update_end h)"
  by (auto simp: track_def Let_def)

lemma track_Update:
  assumes "track i snap pub h" "\<not> hb_ended h"
  shows "track i snap (pub @ es) (Update rd es p u h)"
  using track_end [of i snap "pub @ es" "evict (update_begin rd es p u h)"] track_begin [OF assms, of es rd p u] assms(2)
  by (simp add: Update_def track_cong [of "evict h" h for h])

lemma track_step:
  assumes "track i snap pub h" "do_hub c h = (p, h')" "c \<noteq> HSubClose i"
  shows "track i snap (pub @ p) h'"
proof (cases c)
  case (HUpdate rd es q u)
  then show ?thesis using assms track_Update [of i snap pub h es rd q u] by (auto simp: Update_def split: if_splits)
next
  case (HClose x)
  then show ?thesis using assms by (auto simp: Hub_Close_def track_def Let_def finish_def sees_def split: if_splits)
next
  case HSubscribe
  then show ?thesis
    using assms by (auto simp: subscribeLocked_def register_def track_def Let_def nth_append split: if_splits)
next
  case (HSubClose j)
  then show ?thesis using assms by (auto simp: Sub_Close_def track_def Let_def split: if_splits)
next
  case (HNext j)
  show ?thesis
  proof (cases "j = i")
    case True
    have "sees pub (snd (Next (hb_objs h ! i)))"
      using assms(1) sees_reads [of pub "hb_objs h ! i" 1] by (simp add: track_def Let_def)
    then show ?thesis using assms HNext True
      by (cases "Next (hb_objs h ! i)") (use Next_keeps [of "hb_objs h ! i"] in \<open>auto simp: Sub_Next_def track_def Let_def split: if_splits\<close>)
  next
    case False
    then show ?thesis using assms HNext by (auto simp: Sub_Next_def track_def Let_def split: prod.splits if_splits)
  qed
qed

lemma track_run:
  "track i snap pub h \<Longrightarrow> run_hub cs h = (ps, h') \<Longrightarrow> HSubClose i \<notin> set cs \<Longrightarrow> track i snap (pub @ ps) h'"
proof (induction cs arbitrary: pub ps h)
  case (Cons c cs)
  obtain p h1 qs where c: "do_hub c h = (p, h1)" "run_hub cs h1 = (qs, h')" "ps = p @ qs"
    using Cons.prems(2) by (auto split: prod.splits)
  have "track i snap (pub @ p) h1" using track_step [OF Cons.prems(1) c(1)] Cons.prems(3) by auto
  from Cons.IH [OF this c(2)] Cons.prems(3) c(3) show ?case by simp
qed simp

lemma track_new:
  assumes "subscribeLocked h = Some (i, h')"
  shows "track i (sb_Snapshot (hb_objs h' ! i)) [] h'"
  using assms by (auto simp: subscribeLocked_def register_def track_def sees_def Let_def split: if_splits)

subsection \<open>The bounds\<close>

definition sum_size :: "event list \<Rightarrow> int" where
  "sum_size es = int (sum_list (map event_size es))"

lemma sum_size_simps [simp]: "sum_size [] = 0" "sum_size (e # es) = int (event_size e) + sum_size es" "sum_size (xs @ ys) = sum_size xs + sum_size ys"
  by (simp_all add: sum_size_def)

definition sub_ok :: "hub_config \<Rightarrow> subscription \<Rightarrow> bool" where
  "sub_ok cfg s \<longleftrightarrow> sb_bytes s = sum_size (sb_queue s) \<and>
     (length (sb_queue s) \<le> 1 \<or> int (length (sb_queue s)) \<le> hc_SubEvents cfg \<and> sb_bytes s \<le> hc_SubBytes cfg)"

definition hub_inv :: "event list \<Rightarrow> hub \<Rightarrow> bool" where
  "hub_inv pub h \<longleftrightarrow> hb_head h \<le> length (hb_ring h) \<and> (\<exists>old. pub = old @ hub_ring h) \<and> (pub \<noteq> [] \<longrightarrow> hub_ring h \<noteq> []) \<and>
     hb_bytes h = sum_size (hub_ring h) \<and>
     (length (hub_ring h) \<le> 1 \<or> hb_bytes h \<le> hc_MaxBytes (hb_cfg h)) \<and> int (length (hb_pinned h)) \<le> hc_MaxPinned (hb_cfg h) \<and>
     hb_nextSeq h = (if pub = [] then 0 else ev_Seq (last pub) + 1) \<and> (\<forall>s\<in>set (hb_objs h). sub_ok (hb_cfg h) s)"

lemma sub_ok_Next: "sub_ok cfg s \<Longrightarrow> sub_ok cfg (snd (Next s))"
  by (auto simp: sub_ok_def Next_def split: list.splits option.splits)

lemma sub_ok_reads: "sub_ok cfg s \<Longrightarrow> sub_ok cfg (reads n s)"
  by (induction n arbitrary: s) (simp_all add: sub_ok_Next)

lemma sub_ok_push: "sub_ok cfg s \<Longrightarrow> sub_ok cfg (push cfg e s)"
  by (cases "sb_queue s") (auto simp: sub_ok_def push_def)

lemma sub_ok_feed: "sub_ok cfg s \<Longrightarrow> sub_ok cfg (feed cfg rd es s)"
  by (induction es arbitrary: rd s) (simp_all add: sub_ok_push sub_ok_reads)

lemma pin_loop_length:
  "int (length pinned) \<le> m \<Longrightarrow> int (length (fst (pin_loop m pinned es))) \<le> m"
  by (induction m pinned es rule: pin_loop.induct) (auto simp: Let_def split: prod.splits)

lemma unpin_loop_length: "length (fst (unpin_loop pinned qs)) \<le> length pinned"
proof (induction pinned qs rule: unpin_loop.induct)
  case (2 pinned q qs)
  then show ?case using length_filter_le [of "\<lambda>p. ev_Seq p \<noteq> q" pinned]
    by (auto simp: Let_def split: prod.splits intro: order_trans)
qed simp

lemma evict_not_Nil: "hub_ring h \<noteq> [] \<Longrightarrow> hub_ring (evict h) \<noteq> []"
proof (induction h rule: evict.induct)
  case (1 h)
  show ?case
  proof (cases "must_evict h")
    case True
    then have "hub_ring (evict_step h) \<noteq> []" by (simp add: must_evict_def evict_step_def hub_ring_def Let_def)
    then show ?thesis using 1(1) [OF True] True by (simp add: evict.simps [of h])
  next
    case False
    then show ?thesis using 1(2) by (simp add: evict.simps [of h])
  qed
qed

lemma hub_inv_Update:
  assumes "hub_inv pub h" "\<not> hb_ended h"
  shows "hub_inv (pub @ es) (Update rd es p u h)"
proof -
  let ?b = "update_begin rd es p u h"
  let ?h' = "Update rd es p u h"
  have h': "?h' = update_end (evict ?b)" using assms(2) by (simp add: Update_def)
  from assms(1) obtain old where inv: "hb_head h \<le> length (hb_ring h)" "pub = old @ hub_ring h" "hb_bytes h = sum_size (hub_ring h)"
    "int (length (hb_pinned h)) \<le> hc_MaxPinned (hb_cfg h)" "hb_nextSeq h = (if pub = [] then 0 else ev_Seq (last pub) + 1)"
    "\<forall>s\<in>set (hb_objs h). sub_ok (hb_cfg h) s" by (auto simp: hub_inv_def)
  have b: "hub_ring ?b = hub_ring h @ es" "hb_bytes ?b = sum_size (hub_ring ?b)" "hb_head ?b \<le> length (hb_ring ?b)"
    using inv(1,3) by (simp_all add: hub_ring_def update_begin_fields sum_size_def)
  obtain old' where o: "hub_ring ?b = old' @ hub_ring (evict ?b)" "hb_bytes ?b = hb_bytes (evict ?b) + sum_size old'"
    using evict_ring [of ?b] by (auto simp: sum_size_def)
  have head: "hb_head (evict ?b) \<le> length (hb_ring (evict ?b))" using evict_head b(3) by blast
  have "length (hub_ring (evict ?b)) \<le> 1 \<or> hb_bytes (evict ?b) \<le> hc_MaxBytes (hb_cfg h)"
    using evict_done [of ?b] by (auto simp: must_evict_def hub_ring_def update_begin_fields)
  moreover have "pub @ es = (old @ old') @ hub_ring (evict ?b)" using inv(2) b(1) o(1) by simp
  moreover have "hub_ring (evict ?b) \<noteq> []" if "pub @ es \<noteq> []"
  proof (rule evict_not_Nil)
    show "hub_ring ?b \<noteq> []" using that b(1) assms(1) by (auto simp: hub_inv_def)
  qed
  moreover have "hb_bytes (evict ?b) = sum_size (hub_ring (evict ?b))" using b(2) o by simp
  moreover have "int (length (hb_pinned ?b)) \<le> hc_MaxPinned (hb_cfg h)"
    using pin_loop_length [OF inv(4), of p] unpin_loop_length [of _ u] unfolding update_begin_fields by (meson of_nat_mono order_trans)
  moreover have "hb_nextSeq ?b = (if pub @ es = [] then 0 else ev_Seq (last (pub @ es)) + 1)"
    using inv(5) by (auto simp: update_begin_fields)
  moreover have "sub_ok (hb_cfg h) (hb_objs ?b ! i)" if "i < length (hb_objs ?b)" for i
    using that inv(6) by (simp add: update_begin_objs update_begin_fields sub_ok_feed)
  moreover have "hb_head ?h' \<le> length (hb_ring ?h')" using head by (simp add: h' update_end_def Let_def)
  ultimately show ?thesis
    unfolding hub_inv_def by (auto simp: h' update_begin_fields in_set_conv_nth)
qed

lemma hub_inv_cong:
  assumes "hub_inv pub h" "hb_head h' = hb_head h" "hb_ring h' = hb_ring h" "hb_bytes h' = hb_bytes h" "hb_cfg h' = hb_cfg h"
    "hb_pinned h' = hb_pinned h" "hb_nextSeq h' = hb_nextSeq h" "\<forall>s\<in>set (hb_objs h'). sub_ok (hb_cfg h) s"
  shows "hub_inv pub h'"
  using assms(1,8) unfolding hub_inv_def hub_ring_def assms(2-7) by blast

lemma hub_inv_step:
  assumes "hub_inv pub h" "do_hub c h = (p, h')"
  shows "hub_inv (pub @ p) h'"
proof (cases c)
  case (HUpdate rd es q u)
  then show ?thesis using assms hub_inv_Update [of pub h es rd q u] by (auto simp: Update_def split: if_splits)
next
  case (HClose x)
  have "sub_ok cfg (finish err x s) = sub_ok cfg s" for cfg err s by (simp add: sub_ok_def finish_def)
  then have "\<forall>s\<in>set (upd_subs (\<lambda>i. finish None x) (hb_subs h) (hb_objs h)). sub_ok (hb_cfg h) s"
    using assms(1) by (auto simp: hub_inv_def dest!: set_upd_subs)
  then show ?thesis using assms HClose by (auto simp: Hub_Close_def intro: hub_inv_cong split: if_splits)
next
  case HSubscribe
  then show ?thesis using assms
    by (auto simp: subscribeLocked_def register_def Let_def split: if_splits intro!: hub_inv_cong [OF assms(1)])
      (use assms(1) in \<open>simp_all add: hub_inv_def sub_ok_def\<close>)
next
  case (HSubClose j)
  have "\<forall>s\<in>set ((hb_objs h)[j := r\<lparr>sb_queue := [], sb_bytes := 0\<rparr>]). sub_ok (hb_cfg h) s" for r
    using assms(1) by (auto simp: hub_inv_def sub_ok_def dest!: set_update_subset_insert [THEN subsetD])
  then show ?thesis using assms HSubClose by (auto simp: Sub_Close_def Let_def intro: hub_inv_cong split: if_splits)
next
  case (HNext j)
  show ?thesis
  proof (cases "j < length (hb_objs h)")
    case True
    then have "sub_ok (hb_cfg h) (snd (Next (hb_objs h ! j)))" using assms(1) sub_ok_Next by (auto simp: hub_inv_def)
    then have "\<forall>s\<in>set ((hb_objs h)[j := snd (Next (hb_objs h ! j))]). sub_ok (hb_cfg h) s"
      using assms(1) by (auto simp: hub_inv_def dest!: set_update_subset_insert [THEN subsetD])
    then show ?thesis using assms HNext True by (auto simp: Sub_Next_def intro!: hub_inv_cong [OF assms(1)] split: prod.splits)
  qed (use assms HNext in auto)
qed

lemma hub_inv_run: "hub_inv pub h \<Longrightarrow> run_hub cs h = (ps, h') \<Longrightarrow> hub_inv (pub @ ps) h'"
proof (induction cs arbitrary: pub ps h)
  case (Cons c cs)
  obtain p h1 qs where c: "do_hub c h = (p, h1)" "run_hub cs h1 = (qs, h')" "ps = p @ qs"
    using Cons.prems(2) by (auto split: prod.splits)
  from Cons.IH [OF hub_inv_step [OF Cons.prems(1) c(1)] c(2)] c(3) show ?case by simp
qed simp

lemma hub_inv_New: "hub_inv [] (NewHub cfg)"
  by (simp add: hub_inv_def NewHub_def hub_ring_def or_default_def DefaultMaxPinned_def)

lemma do_hub_cfg: "do_hub c h = (p, h') \<Longrightarrow> hb_cfg h' = hb_cfg h"
  by (cases c) (auto simp: Update_def update_begin_fields Hub_Close_def subscribeLocked_def register_def Let_def Sub_Close_def Sub_Next_def
      split: if_splits prod.splits)

lemma run_hub_cfg: "run_hub cs h = (ps, h') \<Longrightarrow> hb_cfg h' = hb_cfg h"
  by (induction cs arbitrary: ps h) (auto split: prod.splits dest: do_hub_cfg)

text \<open>A hub with the default limits, for the examples.\<close>

definition ex_hub_config :: hub_config where
  "ex_hub_config = \<lparr>hc_MaxBytes = 0, hc_SubBytes = 0, hc_SubEvents = 0, hc_MaxPinned = 0, hc_Store = False, hc_StoreQueueBytes = 0, hc_StoreMaxBytes = 0\<rparr>"

definition ex_event :: "nat \<Rightarrow> event" where
  "ex_event n = \<lparr>ev_Seq = n, ev_Type = ''x'', ev_Durable = True, ev_JSON = ''{}''\<rparr>"

lemmas ex_hub_defs = ex_hub_config_def ex_event_def NewHub_def or_default_def DefaultHubMaxBytes_def DefaultSubMaxBytes_def DefaultSubMaxEvents_def
  DefaultMaxPinned_def Update_def update_begin_def publish_event_def evict.simps must_evict_def update_end_def event_size_def push_def Next_def
  upd_subs_def Sub_Next_def Let_def

lemma ex_published: "run_hub [HUpdate (\<lambda>_ _. 0) [ex_event 0] [ex_event 0] []] (NewHub ex_hub_config) = ([ex_event 0],
    (NewHub ex_hub_config)\<lparr>hb_ring := [ex_event 0], hb_pinned := [ex_event 0], hb_bytes := 66, hb_nextSeq := 1\<rparr>)"
  by (simp add: ex_hub_defs)

section \<open>Properties\<close>

text \<open>
  C23: Between the snapshot and the live events a subscriber misses nothing and gets nothing twice, however its reads
  fall between the pushes: the snapshot is the events that are pinned and older than the ring, by number, and then the whole ring, which is
  the last events published before it subscribed (at least one, if there was any); and what it reads
  afterwards, in order, is a prefix of what is published from then on; unless the hub
  has dropped it as too slow, what it has read and what still waits for it are all of it.
\<close>

theorem subscriber_misses_nothing:
  assumes "run_hub cs (NewHub cfg) = (pub0, h0)" "subscribeLocked h0 = Some (i, h1)" "run_hub cs' h1 = (pub, h2)" "HSubClose i \<notin> set cs'"
  shows "(\<exists>dropped. pub0 = dropped @ hub_ring h0) \<and> (pub0 \<noteq> [] \<longrightarrow> hub_ring h0 \<noteq> []) \<and>
    sb_Snapshot (hb_objs h2 ! i) =
      sort_key ev_Seq (filter (\<lambda>e. hub_ring h0 \<noteq> [] \<and> ev_Seq e < ev_Seq (hd (hub_ring h0))) (hb_pinned h0)) @ hub_ring h0 \<and>
    (\<exists>rest. pub = sb_got (hb_objs h2 ! i) @ rest \<and> (sb_err (hb_objs h2 ! i) = None \<longrightarrow> rest = sb_queue (hb_objs h2 ! i)))"
proof -
  have inv: "hub_inv pub0 h0" using hub_inv_run [OF hub_inv_New assms(1)] by simp
  then have d: "\<exists>dropped. pub0 = dropped @ hub_ring h0" "pub0 \<noteq> [] \<longrightarrow> hub_ring h0 \<noteq> []" by (auto simp: hub_inv_def)
  let ?old = "sort_key ev_Seq (filter (\<lambda>e. hub_ring h0 \<noteq> [] \<and> ev_Seq e < ev_Seq (hd (hub_ring h0))) (hb_pinned h0))"
  have snap: "sb_Snapshot (hb_objs h1 ! i) = ?old @ hub_ring h0"
  proof -
    have f: "ev_Seq e < ring_first h0 \<longleftrightarrow> hub_ring h0 \<noteq> [] \<and> ev_Seq e < ev_Seq (hd (hub_ring h0))" for e
      using inv by (cases "hub_ring h0") (auto simp: ring_first_def hub_inv_def)
    show ?thesis using assms(2) by (auto simp: subscribeLocked_def register_def Let_def f split: if_splits)
  qed
  have "track i (sb_Snapshot (hb_objs h1 ! i)) pub h2"
    using track_run [OF track_new [OF assms(2)] assms(3,4)] by simp
  then have s: "sb_Snapshot (hb_objs h2 ! i) = ?old @ hub_ring h0" and g: "sees pub (hb_objs h2 ! i)"
    using snap by (simp_all add: track_def Let_def)
  obtain rest where "pub = sb_got (hb_objs h2 ! i) @ rest" "sb_err (hb_objs h2 ! i) = None \<longrightarrow> rest = sb_queue (hb_objs h2 ! i)"
    using g by (auto simp: sees_def split: if_splits)
  then have "\<exists>rest. pub = sb_got (hb_objs h2 ! i) @ rest \<and> (sb_err (hb_objs h2 ! i) = None \<longrightarrow> rest = sb_queue (hb_objs h2 ! i))"
    by (intro exI [of _ rest] conjI)
  with d s show ?thesis by (intro conjI)
qed

theorem subscriber_misses_nothing_witness:
  "\<exists>h1 h2 i. subscribeLocked ((NewHub ex_hub_config)\<lparr>hb_ring := [ex_event 0], hb_pinned := [ex_event 0], hb_bytes := 66, hb_nextSeq := 1\<rparr>) = Some (i, h1) \<and>
     run_hub [HUpdate (\<lambda>_ _. 0) [ex_event 1, ex_event 2] [] [], HNext i] h1 = ([ex_event 1, ex_event 2], h2) \<and>
     sb_Snapshot (hb_objs h2 ! i) = [ex_event 0] \<and>
     (\<exists>rest. [ex_event 1, ex_event 2] = sb_got (hb_objs h2 ! i) @ rest)"
proof -
  let ?h0 = "(NewHub ex_hub_config)\<lparr>hb_ring := [ex_event 0], hb_pinned := [ex_event 0], hb_bytes := 66, hb_nextSeq := 1\<rparr>"
  obtain h1 where s: "subscribeLocked ?h0 = Some (0, h1)" and h1: "h1 = snd (the (subscribeLocked ?h0))"
    by (simp add: subscribeLocked_def register_def hubSubscribersHardLimit_def NewHub_def Let_def)
  have "\<exists>h2. run_hub [HUpdate (\<lambda>_ _. 0) [ex_event 1, ex_event 2] [] [], HNext 0] h1 = ([ex_event 1, ex_event 2], h2)"
    unfolding h1 by (simp add: subscribeLocked_def register_def hubSubscribersHardLimit_def NewHub_def Let_def split: prod.split)
  then obtain h2 where r: "run_hub [HUpdate (\<lambda>_ _. 0) [ex_event 1, ex_event 2] [] [], HNext 0] h1 = ([ex_event 1, ex_event 2], h2)" by blast
  have n: "HSubClose 0 \<notin> set [HUpdate (\<lambda>_ _. 0) [ex_event 1, ex_event 2] [] [], HNext 0]" by simp
  have "hub_ring ?h0 = [ex_event 0]" "hb_pinned ?h0 = [ex_event 0]" by (simp_all add: hub_ring_def NewHub_def)
  then have "sb_Snapshot (hb_objs h2 ! 0) = [ex_event 0] \<and> (\<exists>rest. [ex_event 1, ex_event 2] = sb_got (hb_objs h2 ! 0) @ rest)"
    using subscriber_misses_nothing [OF ex_published s r n] by auto
  then show ?thesis using s r by blast
qed

text \<open>
  C31: Whatever the agent publishes and however slow its readers are, the memory of the hub is bounded: the ring holds the most recent
  events within its byte limit (or only the last one), at most the configured number of events is pinned, and every
  queue of a subscriber is within both of its limits (or holds one event).
\<close>

theorem hub_bounded:
  assumes "run_hub cs (NewHub cfg) = (pub, h)"
  shows "\<exists>old. pub = old @ hub_ring h \<and>
    (length (hub_ring h) \<le> 1 \<or> sum_size (hub_ring h) \<le> or_default (hc_MaxBytes cfg) DefaultHubMaxBytes) \<and>
    int (length (hb_pinned h)) \<le> or_default (hc_MaxPinned cfg) DefaultMaxPinned \<and>
    list_all (\<lambda>s. length (sb_queue s) \<le> 1 \<or>
       int (length (sb_queue s)) \<le> or_default (hc_SubEvents cfg) DefaultSubMaxEvents \<and>
       sum_size (sb_queue s) \<le> or_default (hc_SubBytes cfg) DefaultSubMaxBytes) (hb_objs h)"
proof -
  have cfg: "hb_cfg h = hb_cfg (NewHub cfg)"
    using run_hub_cfg [OF assms] .
  from hub_inv_run [OF hub_inv_New assms] show ?thesis
    unfolding hub_inv_def cfg by (auto simp: NewHub_def sub_ok_def list_all_iff)
qed

theorem hub_bounded_witness:
  "int (length (hb_pinned ((NewHub ex_hub_config)\<lparr>hb_ring := [ex_event 0], hb_pinned := [ex_event 0], hb_bytes := 66, hb_nextSeq := 1\<rparr>))) \<le>
     or_default (hc_MaxPinned ex_hub_config) DefaultMaxPinned"
  using hub_bounded [OF ex_published] by blast

end
