(* ===== verification/Spec_V0.thy ===== *)
theory Spec_V0
  imports Go_Utf8
begin

text \<open>
  The messages between an agent and its user (package spec/v0): permission requests, forms and
  the answers to them, with their limits, and the comparison of content hashes. Lengths are counted in
  runes. A \<open>json.RawMessage\<close> is its text; whether a text is a JSON object is asked of \<open>encoding/json\<close>, a parameter.
\<close>

datatype v0_err = ErrInvalidForm | ErrInvalidPermission | ErrHashMismatch | ErrHashRequired

definition rune_count :: "string \<Rightarrow> nat" where "rune_count s = length (utf8_runes s)"

section \<open>Vocabulary\<close>

definition TypePermissionRequested :: string where "TypePermissionRequested = ''permission.requested''"
definition TypePermissionResolved :: string where "TypePermissionResolved = ''permission.resolved''"
definition TypeFormRequested :: string where "TypeFormRequested = ''form.requested''"
definition TypeFormResolved :: string where "TypeFormResolved = ''form.resolved''"
definition TypeTurnCompleted :: string where "TypeTurnCompleted = ''turn.completed''"
definition TypeError :: string where "TypeError = ''error''"
definition TypeAgentFrame :: string where "TypeAgentFrame = ''agent.frame''"
definition AllowOnce :: string where "AllowOnce = ''allow_once''"
definition RejectOnce :: string where "RejectOnce = ''reject_once''"
definition FormAnswered :: string where "FormAnswered = ''answered''"
definition FormCancelled :: string where "FormCancelled = ''cancelled''"
definition FieldSelect :: string where "FieldSelect = ''select''"
definition FieldMultiselect :: string where "FieldMultiselect = ''multiselect''"
definition FieldText :: string where "FieldText = ''text''"

lemmas v0_types = TypePermissionRequested_def TypePermissionResolved_def TypeFormRequested_def TypeFormResolved_def TypeTurnCompleted_def
  TypeError_def TypeAgentFrame_def

definition Version :: nat where "Version = 0"

record origin =
  og_ID :: string
  og_Parent :: string

text \<open>An envelope is its public part and the raw frame.\<close>

record ui_envelope =
  env_V :: nat
  env_ID :: string
  env_TS :: string
  env_Session :: string
  env_Seq :: nat
  env_Type :: string
  env_Durable :: bool
  env_Origin :: "origin option"
  env_Data :: string

record envelope = ui_envelope +
  env_Raw :: string

definition Public :: "envelope \<Rightarrow> ui_envelope" where
  "Public e = \<lparr>env_V = env_V e, env_ID = env_ID e, env_TS = env_TS e, env_Session = env_Session e, env_Seq = env_Seq e, env_Type = env_Type e,
     env_Durable = env_Durable e, env_Origin = env_Origin e, env_Data = env_Data e\<rparr>"

section \<open>Permission requests\<close>

definition MaxSummaryLen :: nat where "MaxSummaryLen = 200"
definition MaxDetails :: nat where "MaxDetails = 16"
definition MaxDetailLabelLen :: nat where "MaxDetailLabelLen = 64"
definition MaxDetailTextLen :: nat where "MaxDetailTextLen = 4000"
definition MaxToolNameLen :: nat where "MaxToolNameLen = 128"

record detail =
  dt_Label :: string
  dt_Text :: string
  dt_Kind :: string

record permission_requested =
  pr_RequestID :: string
  pr_CallID :: string
  pr_ToolName :: string
  pr_Kind :: string
  pr_Input :: string
  pr_Title :: string
  pr_Summary :: string
  pr_Details :: "detail list"
  pr_DetailsTruncated :: bool
  pr_ContentHash :: string

record permission_resolve =
  ps_RequestID :: string
  ps_Outcome :: string
  ps_ContentHash :: string

definition Permission_Validate :: "(string \<Rightarrow> bool) \<Rightarrow> permission_requested \<Rightarrow> v0_err + unit" where
  "Permission_Validate isJSONObject p =
     (if pr_RequestID p = [] \<or> pr_ToolName p = [] \<or> rune_count (pr_ToolName p) > MaxToolNameLen then Inl ErrInvalidPermission
      else if \<not> isJSONObject (pr_Input p) then Inl ErrInvalidPermission
      else if rune_count (pr_Summary p) > MaxSummaryLen \<or> CHR 0x0D \<in> set (pr_Summary p) \<or> CHR 0x0A \<in> set (pr_Summary p)
      then Inl ErrInvalidPermission
      else if length (pr_Details p) > MaxDetails then Inl ErrInvalidPermission
      else eachR (\<lambda>d. if dt_Label d = [] \<or> rune_count (dt_Label d) > MaxDetailLabelLen \<or> rune_count (dt_Text d) > MaxDetailTextLen
                     then Inl ErrInvalidPermission else Inr ()) (pr_Details p))"

section \<open>Forms\<close>

definition MaxFormFields :: nat where "MaxFormFields = 16"
definition MaxFormOptions :: nat where "MaxFormOptions = 32"
definition MaxFormKeyLen :: nat where "MaxFormKeyLen = 64"
definition MaxFormKindLen :: nat where "MaxFormKindLen = 64"
definition MaxFormTitleLen :: nat where "MaxFormTitleLen = 200"
definition MaxFormLabelLen :: nat where "MaxFormLabelLen = 200"
definition MaxFormValueLen :: nat where "MaxFormValueLen = 200"
definition MaxFormDescription :: nat where "MaxFormDescription = 1000"
definition MaxFormAnswerText :: nat where "MaxFormAnswerText = 4000"
definition MaxFormAnswerValues :: nat where "MaxFormAnswerValues = MaxFormOptions + 8"

record form_option =
  fo_Label :: string
  fo_Value :: string
  fo_Description :: string

record form_field =
  fd_Key :: string
  fd_Title :: string
  fd_Description :: string
  fd_Type :: string
  fd_Options :: "form_option list"
  fd_Custom :: bool
  fd_Required :: bool

record form_requested =
  fr_RequestID :: string
  fr_CallID :: string
  fr_Kind :: string
  fr_Title :: string
  fr_Fields :: "form_field list"
  fr_ContentHash :: string

record form_value =
  fv_Multi :: bool
  fv_Values :: "string list"

text \<open>The map of answers is the list of its entries.\<close>

record form_resolve =
  fs_RequestID :: string
  fs_Outcome :: string
  fs_Answer :: "(string \<times> form_value) list"
  fs_ContentHash :: string

fun check_options :: "string list \<Rightarrow> form_option list \<Rightarrow> v0_err + unit" where
  "check_options vals [] = Inr ()"
| "check_options vals (o1 # os) =
     (if fo_Value o1 = [] \<or> rune_count (fo_Value o1) > MaxFormValueLen \<or> fo_Label o1 = [] \<or> rune_count (fo_Label o1) > MaxFormLabelLen \<or>
         rune_count (fo_Description o1) > MaxFormDescription then Inl ErrInvalidForm
      else if fo_Value o1 \<in> set vals then Inl ErrInvalidForm
      else check_options (fo_Value o1 # vals) os)"

definition check_field_type :: "form_field \<Rightarrow> v0_err + unit" where
  "check_field_type fd =
     (if fd_Type fd = FieldSelect \<or> fd_Type fd = FieldMultiselect then
        if fd_Options fd = [] \<or> length (fd_Options fd) > MaxFormOptions then Inl ErrInvalidForm else check_options [] (fd_Options fd)
      else if fd_Type fd = FieldText then if fd_Options fd \<noteq> [] then Inl ErrInvalidForm else Inr ()
      else Inl ErrInvalidForm)"

fun check_fields :: "string list \<Rightarrow> form_field list \<Rightarrow> v0_err + unit" where
  "check_fields seen [] = Inr ()"
| "check_fields seen (fd # fds) =
     (if rune_count (fd_Key fd) = 0 \<or> rune_count (fd_Key fd) > MaxFormKeyLen then Inl ErrInvalidForm
      else if fd_Key fd \<in> set seen then Inl ErrInvalidForm
      else if rune_count (fd_Title fd) > MaxFormTitleLen \<or> rune_count (fd_Description fd) > MaxFormDescription then Inl ErrInvalidForm
      else bindR (check_field_type fd) (\<lambda>_. check_fields (fd_Key fd # seen) fds))"

definition Form_Validate :: "form_requested \<Rightarrow> v0_err + unit" where
  "Form_Validate f =
     (if fr_RequestID f = [] then Inl ErrInvalidForm
      else if rune_count (fr_Kind f) = 0 \<or> rune_count (fr_Kind f) > MaxFormKindLen then Inl ErrInvalidForm
      else if rune_count (fr_Title f) > MaxFormTitleLen then Inl ErrInvalidForm
      else if fr_Fields f = [] \<or> length (fr_Fields f) > MaxFormFields then Inl ErrInvalidForm
      else check_fields [] (fr_Fields f))"

section \<open>Answers\<close>

definition checkValue :: "form_field \<Rightarrow> form_value \<Rightarrow> v0_err + unit" where
  "checkValue fd v =
     (if (fd_Type fd = FieldSelect \<or> fd_Type fd = FieldText) \<and> (fv_Multi v \<or> length (fv_Values v) \<noteq> 1) then Inl ErrInvalidForm
      else if fd_Type fd = FieldMultiselect \<and> (\<not> fv_Multi v \<or> length (fv_Values v) > MaxFormAnswerValues) then Inl ErrInvalidForm
      else bindR (eachR (\<lambda>s.
             if rune_count s > MaxFormAnswerText then Inl ErrInvalidForm
             else if fd_Type fd = FieldMultiselect \<and> s = [] then Inl ErrInvalidForm
             else if fd_Type fd \<noteq> FieldText \<and> \<not> fd_Custom fd \<and> s \<notin> fo_Value ` set (fd_Options fd) then Inl ErrInvalidForm
             else Inr ()) (fv_Values v)) (\<lambda>_.
           if fd_Type fd = FieldMultiselect \<and> length (remdups (fv_Values v)) \<noteq> length (fv_Values v) then Inl ErrInvalidForm else Inr ()))"

text \<open>The map \<open>fields\<close>: the last field of a key wins.\<close>

definition field_of :: "form_requested \<Rightarrow> string \<Rightarrow> form_field option" where
  "field_of req k = map_of (rev (map (\<lambda>fd. (fd_Key fd, fd)) (fr_Fields req))) k"

definition Answer_Validate :: "form_requested \<Rightarrow> form_resolve \<Rightarrow> v0_err + unit" where
  "Answer_Validate req r =
     (if fs_RequestID r \<noteq> fr_RequestID req then Inl ErrInvalidForm
      else if fs_Outcome r = FormCancelled then if fs_Answer r \<noteq> [] then Inl ErrInvalidForm else Inr ()
      else if fs_Outcome r \<noteq> FormAnswered then Inl ErrInvalidForm
      else bindR (eachR (\<lambda>(k, v). case field_of req k of None \<Rightarrow> Inl ErrInvalidForm | Some fd \<Rightarrow> checkValue fd v) (fs_Answer r)) (\<lambda>_.
           eachR (\<lambda>fd.
             if fd_Required fd \<and> (case map_of (fs_Answer r) (fd_Key fd) of None \<Rightarrow> True | Some v \<Rightarrow> \<not> list_ex (\<lambda>s. s \<noteq> []) (fv_Values v))
             then Inl ErrInvalidForm else Inr ()) (fr_Fields req)))"

section \<open>Commands\<close>

text \<open>The data of the commands that goronation sends, as the values it marshals.\<close>

datatype command_data =
    PromptText string
  | PermissionAnswer string string
  | FormAnswer form_resolve

definition CommandPrompt :: string where "CommandPrompt = ''prompt''"
definition CommandPermissionResolve :: string where "CommandPermissionResolve = ''permission.resolve''"
definition CommandFormResolve :: string where "CommandFormResolve = ''form.resolve''"

record command =
  cmd_V :: nat
  cmd_Type :: string
  cmd_Data :: command_data

section \<open>Content hashes\<close>

definition HashPrefix :: string where "HashPrefix = ''sha256:''"

text \<open>\<open>hashOf\<close> over the canonical JSON of the content, \<open>None\<close> when it cannot be written.\<close>

definition hashOf :: "(string \<Rightarrow> string) \<Rightarrow> string \<Rightarrow> string option \<Rightarrow> string" where
  "hashOf sha256_hex typ canon =
     (case canon of None \<Rightarrow> [] | Some c \<Rightarrow> HashPrefix @ sha256_hex (''goronation/v0/'' @ typ @ [CHR 0x0A] @ c))"

definition Permission_Hash :: "(string \<Rightarrow> string) \<Rightarrow> (permission_requested \<Rightarrow> string option) \<Rightarrow> permission_requested \<Rightarrow> string" where
  "Permission_Hash sha256_hex canon p = hashOf sha256_hex ''permission.requested'' (canon (p\<lparr>pr_ContentHash := []\<rparr>))"

definition Form_Hash :: "(string \<Rightarrow> string) \<Rightarrow> (form_requested \<Rightarrow> string option) \<Rightarrow> form_requested \<Rightarrow> string" where
  "Form_Hash sha256_hex canon f = hashOf sha256_hex ''form.requested'' (canon (f\<lparr>fr_ContentHash := []\<rparr>))"

definition VerifyHash :: "string \<Rightarrow> string \<Rightarrow> bool \<Rightarrow> v0_err + unit" where
  "VerifyHash want got require =
     (if got = [] then if require then Inl ErrHashRequired else Inr ()
      else if want = [] \<or> want \<noteq> got then Inl ErrHashMismatch else Inr ())"

section \<open>Lemmas\<close>

lemma check_options_iff:
  "check_options vals os = Inr () \<longleftrightarrow>
     (\<forall>p\<in>set os. fo_Value p \<noteq> [] \<and> rune_count (fo_Value p) \<le> MaxFormValueLen \<and> fo_Label p \<noteq> [] \<and> rune_count (fo_Label p) \<le> MaxFormLabelLen \<and>
        rune_count (fo_Description p) \<le> MaxFormDescription) \<and> distinct (map fo_Value os) \<and> set vals \<inter> fo_Value ` set os = {}"
  by (induction os arbitrary: vals) auto

lemma check_fields_iff:
  "check_fields seen fds = Inr () \<longleftrightarrow>
     (\<forall>fd\<in>set fds. 0 < rune_count (fd_Key fd) \<and> rune_count (fd_Key fd) \<le> MaxFormKeyLen \<and> rune_count (fd_Title fd) \<le> MaxFormTitleLen \<and>
        rune_count (fd_Description fd) \<le> MaxFormDescription \<and> check_field_type fd = Inr ()) \<and>
     distinct (map fd_Key fds) \<and> set seen \<inter> fd_Key ` set fds = {}"
  by (induction fds arbitrary: seen) auto

lemma Form_Validate_fields:
  assumes "Form_Validate f = Inr ()"
  shows "distinct (map fd_Key (fr_Fields f))" "fd \<in> set (fr_Fields f) \<Longrightarrow> fd_Type fd \<in> {FieldSelect, FieldMultiselect, FieldText}"
  using assms by (auto simp: Form_Validate_def check_fields_iff check_field_type_def split: if_splits)

lemma field_of_iff:
  assumes "distinct (map fd_Key (fr_Fields req))"
  shows "field_of req k = Some fd \<longleftrightarrow> fd \<in> set (fr_Fields req) \<and> fd_Key fd = k"
proof -
  let ?xs = "rev (map (\<lambda>fd. (fd_Key fd, fd)) (fr_Fields req))"
  have "distinct (map fst ?xs)" using assms by (simp add: rev_map [symmetric] comp_def)
  then show ?thesis unfolding field_of_def by (auto simp: map_of_eq_Some_iff)
qed

text \<open>What an answer to one field may be.\<close>

definition value_ok :: "form_field \<Rightarrow> form_value \<Rightarrow> bool" where
  "value_ok fd v \<longleftrightarrow>
     (if fd_Type fd = FieldMultiselect then fv_Multi v \<and> length (fv_Values v) \<le> 40 \<and> distinct (fv_Values v) \<and> [] \<notin> set (fv_Values v)
      else \<not> fv_Multi v \<and> length (fv_Values v) = 1) \<and>
     (\<forall>s\<in>set (fv_Values v). rune_count s \<le> 4000 \<and>
        (s \<in> fo_Value ` set (fd_Options fd) \<or> fd_Custom fd \<or> fd_Type fd = FieldText))"

lemma checkValue_iff:
  assumes "fd_Type fd \<in> {FieldSelect, FieldMultiselect, FieldText}"
  shows "checkValue fd v = Inr () \<longleftrightarrow> value_ok fd v"
proof -
  have d: "length (remdups (fv_Values v)) = length (fv_Values v) \<longleftrightarrow> distinct (fv_Values v)"
    by simp
  consider "fd_Type fd = FieldMultiselect" | "fd_Type fd \<noteq> FieldMultiselect" "fd_Type fd = FieldSelect \<or> fd_Type fd = FieldText" using assms by auto
  then show ?thesis
  proof cases
    case 1
    then show ?thesis
      by (auto simp: checkValue_def value_ok_def d FieldSelect_def FieldMultiselect_def FieldText_def MaxFormAnswerValues_def MaxFormOptions_def
          MaxFormAnswerText_def not_less split: if_splits)
  next
    case 2
    then show ?thesis
      by (auto simp: checkValue_def value_ok_def FieldSelect_def FieldMultiselect_def FieldText_def MaxFormAnswerText_def not_less split: if_splits)
  qed
qed

text \<open>A form with one optional text field, for the examples.\<close>

definition ex_field :: form_field where
  "ex_field = \<lparr>fd_Key = ''k'', fd_Title = [], fd_Description = [], fd_Type = ''text'', fd_Options = [], fd_Custom = False, fd_Required = False\<rparr>"

definition ex_form :: form_requested where
  "ex_form = \<lparr>fr_RequestID = ''r'', fr_CallID = [], fr_Kind = ''question'', fr_Title = [], fr_Fields = [ex_field], fr_ContentHash = ''h''\<rparr>"

definition ex_answer :: form_resolve where
  "ex_answer = \<lparr>fs_RequestID = ''r'', fs_Outcome = ''answered'', fs_Answer = [], fs_ContentHash = ''h''\<rparr>"

lemma ex_form_valid: "Form_Validate ex_form = Inr ()"
  by (simp add: Form_Validate_def check_field_type_def rune_count_def ex_form_def ex_field_def MaxFormKindLen_def MaxFormTitleLen_def MaxFormFields_def
      MaxFormKeyLen_def MaxFormDescription_def FieldSelect_def FieldMultiselect_def FieldText_def)

section \<open>Properties\<close>

text \<open>
  Which answers to a well-formed form are accepted, exactly: a cancellation without answers, or answers to fields of that form only, each
  of the shape of its field, drawn from its options unless the field allows free text, within the limits and (for a
  multiple choice) without repetition, that leave no required field empty.
\<close>

theorem answer_exact:
  assumes "Form_Validate req = Inr ()" "distinct (map fst (fs_Answer r))"
  shows "Answer_Validate req r = Inr () \<longleftrightarrow> fs_RequestID r = fr_RequestID req \<and>
    (fs_Outcome r = ''cancelled'' \<and> fs_Answer r = [] \<or>
     fs_Outcome r = ''answered'' \<and>
     (\<forall>(k, v)\<in>set (fs_Answer r). \<exists>fd\<in>set (fr_Fields req). fd_Key fd = k \<and> value_ok fd v) \<and>
     (\<forall>fd\<in>set (fr_Fields req). fd_Required fd \<longrightarrow> (\<exists>v s. (fd_Key fd, v) \<in> set (fs_Answer r) \<and> s \<in> set (fv_Values v) \<and> s \<noteq> [])))"
proof -
  note fields = Form_Validate_fields [OF assms(1)]
  have keys: "(case field_of req k of None \<Rightarrow> Inl ErrInvalidForm | Some fd \<Rightarrow> checkValue fd v) = Inr () \<longleftrightarrow>
      (\<exists>fd\<in>set (fr_Fields req). fd_Key fd = k \<and> value_ok fd v)" for k v
  proof (cases "field_of req k")
    case None
    then have "\<not> (\<exists>fd\<in>set (fr_Fields req). fd_Key fd = k)" by (metis field_of_iff [OF fields(1)] option.distinct(1))
    with None show ?thesis by auto
  next
    case (Some fd)
    then have fd: "fd \<in> set (fr_Fields req)" "fd_Key fd = k" using field_of_iff [OF fields(1)] by auto
    have "fd' = fd" if "fd' \<in> set (fr_Fields req)" "fd_Key fd' = k" for fd'
      using that Some field_of_iff [OF fields(1), of k fd'] by simp
    then have "(\<exists>fd'\<in>set (fr_Fields req). fd_Key fd' = k \<and> value_ok fd' v) \<longleftrightarrow> value_ok fd v" using fd by blast
    with Some show ?thesis by (simp add: checkValue_iff [OF fields(2) [OF fd(1)]])
  qed
  have req: "(case map_of (fs_Answer r) k of None \<Rightarrow> True | Some v \<Rightarrow> \<not> list_ex (\<lambda>s. s \<noteq> []) (fv_Values v)) \<longleftrightarrow>
      \<not> (\<exists>v s. (k, v) \<in> set (fs_Answer r) \<and> s \<in> set (fv_Values v) \<and> s \<noteq> [])" for k
  proof (cases "map_of (fs_Answer r) k")
    case None
    then have "\<And>v. (k, v) \<notin> set (fs_Answer r)" by (auto simp: map_of_eq_None_iff image_iff)
    with None show ?thesis by simp
  next
    case (Some w)
    then have "(k, v) \<in> set (fs_Answer r) \<longleftrightarrow> v = w" for v using map_of_eq_Some_iff [OF assms(2), of k v] by auto
    with Some show ?thesis by (auto simp: list_ex_iff)
  qed
  show ?thesis
    by (auto simp: Answer_Validate_def keys req FormCancelled_def FormAnswered_def split: if_splits prod.splits)
qed

theorem answer_exact_witness:
  "Answer_Validate ex_form \<lparr>fs_RequestID = ''r'', fs_Outcome = ''answered'', fs_Answer = [(''k'', \<lparr>fv_Multi = False, fv_Values = [''v'']\<rparr>)], fs_ContentHash = []\<rparr> =
   Inr ()"
  by (subst answer_exact [OF ex_form_valid])
    (simp_all add: ex_form_def ex_field_def value_ok_def FieldMultiselect_def FieldText_def rune_count_def)

end
