(* ===== verification/Chat_Conversation.thy ===== *)
theory Chat_Conversation
  imports Chat_Hub Spec_V0
begin

text \<open>
  A conversation with one run of an agent (cmd/internal/chat: conversation.go and feed.go): the state
  machine between the agent's output, its input and the human who answers its requests.

  The agent is hostile. Its adapter (\<open>agent.Stream\<close>) is a parameter: two functions on a state of any type, about which nothing is
  assumed. So are the texts that \<open>encoding/json\<close> writes and reads and SHA-256 (\<open>chat_lib\<close>), and the environment: whether
  each write to the agent succeeds, the clock, and how the readers of the hub are scheduled. \<open>Conversation.mu\<close> makes every
  method one step; \<open>Feed.mu\<close> is only taken inside it. The fields \<open>cv_written\<close> and \<open>cv_published\<close> record the lines that went to the
  agent (with the command each encodes) and the events handed to the hub; no code reads them.
\<close>

section \<open>Parameters\<close>

record 's agent_stream =
  DecodeFrame :: "string \<Rightarrow> 's \<Rightarrow> (unit + envelope list) \<times> 's"
  EncodeCommand :: "command \<Rightarrow> 's \<Rightarrow> (unit + string \<times> envelope list) \<times> 's"

text \<open>The data of the events that the conversation itself makes.\<close>

datatype emit_data = EmitResolved string string | EmitWriteError

record chat_lib =
  cl_marshal :: "ui_envelope \<Rightarrow> string option"
  cl_emit :: "emit_data \<Rightarrow> string option"
  cl_marshal_perm :: "permission_requested \<Rightarrow> string option"
  cl_marshal_form :: "form_requested \<Rightarrow> string option"
  cl_data_perm :: "string \<Rightarrow> permission_requested option"
  cl_data_form :: "string \<Rightarrow> form_requested option"
  cl_event_perm :: "string \<Rightarrow> permission_requested option"
  cl_event_form :: "string \<Rightarrow> form_requested option"
  cl_event_id :: "string \<Rightarrow> string option"
  cl_isJSONObject :: "string \<Rightarrow> bool"
  cl_canon_perm :: "permission_requested \<Rightarrow> string option"
  cl_canon_form :: "form_requested \<Rightarrow> string option"
  cl_sha256 :: "string \<Rightarrow> string"

record chat_env =
  ce_write :: "nat \<Rightarrow> bool"
  ce_now :: "nat \<Rightarrow> string"
  ce_reads :: "nat \<Rightarrow> nat \<Rightarrow> nat \<Rightarrow> nat"

section \<open>State\<close>

definition MaxMessageBytes :: nat where "MaxMessageBytes = 64 * 1024"
definition MaxPendingRequests :: nat where "MaxPendingRequests = 8"
definition maxSettled :: nat where "maxSettled = 4096"

datatype conv_err =
    ErrBusy | ErrConvClosed | ErrEmptyText | ErrTextTooLong | ErrBadText | ErrBadOutcome | ErrUnknownRequest | ErrNoGeneration
  | ErrStaleGeneration | ErrAlreadyResolved | ErrWriteFailed | ErrBadAnswer | ErrContentChanged | ErrContentHashRequired
  | ErrStream | ErrMarshal | ErrEventTooLarge

datatype conv_state = StateIdle | StateTurn | StateAwaitingPermission | StateClosed

record held =
  pi_ev :: event
  pi_hash :: string
  pi_form :: "form_requested option"

record 's conv =
  cv_stream :: 's
  cv_seq :: nat
  cv_session :: string
  cv_hub :: hub
  cv_generation :: string
  cv_requireHash :: bool
  cv_state :: conv_state
  cv_pending :: "(string \<times> held) list"
  cv_settled :: "string set"
  cv_settledQ :: "string list"
  cv_orphans :: "string set"
  cv_stopped :: bool
  cv_lastErr :: string
  cv_stopOnce :: bool
  cv_tick :: nat
  cv_written :: "(command \<times> string) list"
  cv_published :: "event list"

definition NewConversation :: "'s \<Rightarrow> string \<Rightarrow> hub \<Rightarrow> string \<Rightarrow> bool \<Rightarrow> 's conv" where
  "NewConversation st session h generation requireHash =
     \<lparr>cv_stream = st, cv_seq = 0, cv_session = session, cv_hub = h, cv_generation = generation, cv_requireHash = requireHash, cv_state = StateIdle,
      cv_pending = [], cv_settled = {}, cv_settledQ = [], cv_orphans = {}, cv_stopped = False, cv_lastErr = [], cv_stopOnce = False, cv_tick = 0,
      cv_written = [], cv_published = []\<rparr>"

definition stateLocked :: "'s conv \<Rightarrow> conv_state" where
  "stateLocked c = (if cv_state c = StateTurn \<and> cv_pending c \<noteq> [] then StateAwaitingPermission else cv_state c)"

section \<open>Feed\<close>

definition marshalLine :: "string option \<Rightarrow> conv_err + string" where
  "marshalLine t = (case t of None \<Rightarrow> Inl ErrMarshal | Some b \<Rightarrow> if length b > DefaultMaxEvent then Inl ErrEventTooLarge else Inr b)"

definition asFrame :: "envelope \<Rightarrow> envelope" where
  "asFrame e = e\<lparr>env_Type := TypeAgentFrame, env_Durable := False, env_Data := ''{}''\<rparr>"

definition sealRequest :: "chat_lib \<Rightarrow> envelope \<Rightarrow> envelope" where
  "sealRequest lib e =
     (if env_Type e = TypePermissionRequested then
        (case cl_data_perm lib (env_Data e) of
           None \<Rightarrow> asFrame e
         | Some p \<Rightarrow>
             if failed (Permission_Validate (cl_isJSONObject lib) p) then asFrame e
             else (case marshalLine (cl_marshal_perm lib (p\<lparr>pr_ContentHash := Permission_Hash (cl_sha256 lib) (cl_canon_perm lib) p\<rparr>)) of
                     Inl _ \<Rightarrow> asFrame e | Inr b \<Rightarrow> e\<lparr>env_Data := b\<rparr>))
      else if env_Type e = TypeFormRequested then
        (case cl_data_form lib (env_Data e) of
           None \<Rightarrow> asFrame e
         | Some f \<Rightarrow>
             if failed (Form_Validate f) then asFrame e
             else (case marshalLine (cl_marshal_form lib (f\<lparr>fr_ContentHash := Form_Hash (cl_sha256 lib) (cl_canon_form lib) f\<rparr>)) of
                     Inl _ \<Rightarrow> asFrame e | Inr b \<Rightarrow> e\<lparr>env_Data := b\<rparr>))
      else e)"

fun feed_events :: "chat_lib \<Rightarrow> string \<Rightarrow> string \<Rightarrow> nat \<Rightarrow> envelope list \<Rightarrow> conv_err + event list" where
  "feed_events lib ts session seq [] = Inr []"
| "feed_events lib ts session seq (e # es) =
     (let e1 = sealRequest lib e;
          e2 = e1\<lparr>env_V := Version, env_ID := ''e'' @ format_uint seq, env_TS := ts, env_Session := session, env_Seq := seq\<rparr>;
          e3 = (if env_Data e2 = [] then e2\<lparr>env_Data := ''{}''\<rparr> else e2)
      in bindR (marshalLine (cl_marshal lib (Public e3))) (\<lambda>b.
         bindR (feed_events lib ts session (seq + 1) es) (\<lambda>rest.
         Inr (\<lparr>ev_Seq = seq, ev_Type = env_Type e3, ev_Durable = env_Durable e3, ev_JSON = b\<rparr> # rest))))"

definition make_events :: "chat_lib \<Rightarrow> chat_env \<Rightarrow> envelope list \<Rightarrow> 's conv \<Rightarrow> (conv_err + event list) \<times> 's conv" where
  "make_events lib E envs c =
     (case feed_events lib (ce_now E (cv_seq c)) (cv_session c) (cv_seq c) envs of
        Inl x \<Rightarrow> (Inl x, c)
      | Inr evs \<Rightarrow> (Inr evs, c\<lparr>cv_seq := cv_seq c + length envs\<rparr>))"

definition feed_Decode :: "'s agent_stream \<Rightarrow> chat_lib \<Rightarrow> chat_env \<Rightarrow> string \<Rightarrow> 's conv \<Rightarrow> (conv_err + event list) \<times> 's conv" where
  "feed_Decode S lib E line c =
     (case DecodeFrame S line (cv_stream c) of
        (Inl _, s') \<Rightarrow> (Inl ErrStream, c\<lparr>cv_stream := s'\<rparr>)
      | (Inr envs, s') \<Rightarrow> make_events lib E envs (c\<lparr>cv_stream := s'\<rparr>))"

definition feed_Encode :: "'s agent_stream \<Rightarrow> chat_lib \<Rightarrow> chat_env \<Rightarrow> command \<Rightarrow> 's conv \<Rightarrow> (conv_err + string \<times> event list) \<times> 's conv" where
  "feed_Encode S lib E cmd c =
     (case EncodeCommand S cmd (cv_stream c) of
        (Inl _, s') \<Rightarrow> (Inl ErrStream, c\<lparr>cv_stream := s'\<rparr>)
      | (Inr (raw, envs), s') \<Rightarrow>
          (case make_events lib E envs (c\<lparr>cv_stream := s'\<rparr>) of
             (Inl x, c') \<Rightarrow> (Inl x, c') | (Inr evs, c') \<Rightarrow> (Inr (raw, evs), c')))"

definition feed_EncodeQuiet :: "'s agent_stream \<Rightarrow> command \<Rightarrow> 's conv \<Rightarrow> (conv_err + string) \<times> 's conv" where
  "feed_EncodeQuiet S cmd c =
     (case EncodeCommand S cmd (cv_stream c) of
        (Inl _, s') \<Rightarrow> (Inl ErrStream, c\<lparr>cv_stream := s'\<rparr>) | (Inr (raw, _), s') \<Rightarrow> (Inr raw, c\<lparr>cv_stream := s'\<rparr>))"

definition feed_Emit :: "chat_lib \<Rightarrow> chat_env \<Rightarrow> string \<Rightarrow> bool \<Rightarrow> emit_data \<Rightarrow> 's conv \<Rightarrow> (conv_err + event) \<times> 's conv" where
  "feed_Emit lib E typ durable data c =
     (case marshalLine (cl_emit lib data) of
        Inl x \<Rightarrow> (Inl x, c)
      | Inr b \<Rightarrow>
          (case make_events lib E [\<lparr>env_V = Version, env_ID = [], env_TS = [], env_Session = [], env_Seq = 0, env_Type = typ, env_Durable = durable,
                env_Origin = None, env_Data = b, env_Raw = []\<rparr>] c of
             (Inl x, c') \<Rightarrow> (Inl x, c') | (Inr evs, c') \<Rightarrow> (Inr (hd evs), c')))"

section \<open>Calls to the hub and the agent\<close>

definition hub_update :: "chat_env \<Rightarrow> event list \<Rightarrow> event list \<Rightarrow> nat list \<Rightarrow> 's conv \<Rightarrow> 's conv" where
  "hub_update E evs pin unpin c =
     c\<lparr>cv_hub := Update (ce_reads E (cv_tick c)) evs pin unpin (cv_hub c), cv_tick := cv_tick c + 1,
       cv_published := cv_published c @ (if hb_ended (cv_hub c) then [] else evs)\<rparr>"

definition write_line :: "chat_env \<Rightarrow> command \<Rightarrow> string \<Rightarrow> 's conv \<Rightarrow> bool \<times> 's conv" where
  "write_line E cmd raw c =
     (if ce_write E (cv_tick c) then (True, c\<lparr>cv_tick := cv_tick c + 1, cv_written := cv_written c @ [(cmd, raw)]\<rparr>)
      else (False, c\<lparr>cv_tick := cv_tick c + 1\<rparr>))"

section \<open>Requests and their settlement\<close>

definition requestID :: "chat_lib \<Rightarrow> event \<Rightarrow> string option" where
  "requestID lib e = (case cl_event_id lib (ev_JSON e) of None \<Rightarrow> None | Some i \<Rightarrow> if i = [] then None else Some i)"

definition holdRequest :: "chat_lib \<Rightarrow> event \<Rightarrow> held option" where
  "holdRequest lib e =
     (if ev_Type e = TypePermissionRequested then
        (case cl_event_perm lib (ev_JSON e) of None \<Rightarrow> None | Some p \<Rightarrow> Some \<lparr>pi_ev = e, pi_hash = pr_ContentHash p, pi_form = None\<rparr>)
      else if ev_Type e = TypeFormRequested then
        (case cl_event_form lib (ev_JSON e) of None \<Rightarrow> None | Some f \<Rightarrow> Some \<lparr>pi_ev = e, pi_hash = fr_ContentHash f, pi_form = Some f\<rparr>)
      else None)"

definition settleLocked :: "chat_lib \<Rightarrow> string \<Rightarrow> 's conv \<Rightarrow> 's conv" where
  "settleLocked lib rid c =
     (let c1 = c\<lparr>cv_pending := filter (\<lambda>(k, _). k \<noteq> rid) (cv_pending c)\<rparr>; k = cl_sha256 lib rid in
      if k \<in> cv_settled c1 then c1
      else let c2 = (if length (cv_settledQ c1) \<ge> maxSettled
                     then c1\<lparr>cv_settled := cv_settled c1 - {hd (cv_settledQ c1)}, cv_settledQ := tl (cv_settledQ c1)\<rparr> else c1)
           in c2\<lparr>cv_settled := insert k (cv_settled c2), cv_settledQ := cv_settledQ c2 @ [k]\<rparr>)"

definition resolved_type :: "bool \<Rightarrow> string" where
  "resolved_type form = (if form then TypeFormResolved else TypePermissionResolved)"

definition emitResolvedLocked :: "chat_lib \<Rightarrow> chat_env \<Rightarrow> string \<Rightarrow> bool \<Rightarrow> string \<Rightarrow> 's conv \<Rightarrow> 's conv" where
  "emitResolvedLocked lib E rid form outcome c =
     (case feed_Emit lib E (resolved_type form) True (EmitResolved outcome rid) c of
        (Inl _, c') \<Rightarrow> c' | (Inr e, c') \<Rightarrow> hub_update E [e] [] [] c')"

fun expire_loop :: "chat_lib \<Rightarrow> chat_env \<Rightarrow> (string \<times> held) list \<Rightarrow> 's conv \<Rightarrow> event list \<times> 's conv" where
  "expire_loop lib E [] c = ([], c)"
| "expire_loop lib E ((rid, it) # xs) c =
     (let c1 = settleLocked lib rid c;
          c2 = c1\<lparr>cv_orphans := insert (cl_sha256 lib rid) (cv_orphans c1)\<rparr>
      in case feed_Emit lib E (resolved_type (pi_form it \<noteq> None)) True (EmitResolved ''cancelled'' rid) c2 of
           (r, c3) \<Rightarrow> (case expire_loop lib E xs c3 of
              (out, c4) \<Rightarrow> (case r of Inl _ \<Rightarrow> (out, c4) | Inr e \<Rightarrow> (e # out, c4))))"

definition expireAllLocked :: "chat_lib \<Rightarrow> chat_env \<Rightarrow> 's conv \<Rightarrow> 's conv" where
  "expireAllLocked lib E c =
     (if cv_pending c = [] then c
      else let items = sort_key (\<lambda>(_, it). ev_Seq (pi_ev it)) (cv_pending c) in
      case expire_loop lib E items c of (out, c') \<Rightarrow> hub_update E out [] (map (\<lambda>(_, it). ev_Seq (pi_ev it)) items) c')"

definition failLocked :: "chat_lib \<Rightarrow> chat_env \<Rightarrow> 's conv \<Rightarrow> 's conv" where
  "failLocked lib E c =
     (let c1 = expireAllLocked lib E (c\<lparr>cv_state := StateClosed, cv_stopped := True, cv_stopOnce := True\<rparr>) in
      case feed_Emit lib E TypeError True EmitWriteError c1 of (Inl _, c2) \<Rightarrow> c2 | (Inr e, c2) \<Rightarrow> hub_update E [e] [] [] c2)"

section \<open>Instructions and answers of the user\<close>

definition Send :: "'s agent_stream \<Rightarrow> chat_lib \<Rightarrow> chat_env \<Rightarrow> string \<Rightarrow> 's conv \<Rightarrow> conv_err option \<times> 's conv" where
  "Send S lib E txt c =
     (if txt = [] then (Some ErrEmptyText, c)
      else if length txt > MaxMessageBytes then (Some ErrTextTooLong, c)
      else if \<not> utf8_valid txt then (Some ErrBadText, c)
      else if cv_state c = StateClosed \<or> cv_stopped c then (Some ErrConvClosed, c)
      else if cv_state c \<noteq> StateIdle then (Some ErrBusy, c)
      else let cmd = \<lparr>cmd_V = Version, cmd_Type = CommandPrompt, cmd_Data = PromptText txt\<rparr> in
      (case feed_Encode S lib E cmd c of
         (Inl x, c1) \<Rightarrow> (Some x, c1)
       | (Inr (raw, evs), c1) \<Rightarrow>
           (case write_line E cmd raw c1 of
              (False, c2) \<Rightarrow> (Some ErrWriteFailed, failLocked lib E c2)
            | (True, c2) \<Rightarrow> (None, hub_update E evs [] [] (c2\<lparr>cv_state := StateTurn\<rparr>)))))"

definition heldLocked :: "chat_lib \<Rightarrow> string \<Rightarrow> bool \<Rightarrow> 's conv \<Rightarrow> conv_err + held" where
  "heldLocked lib rid form c =
     (case map_of (cv_pending c) rid of
        Some it \<Rightarrow> if (pi_form it \<noteq> None) = form then Inr it else Inl ErrUnknownRequest
      | None \<Rightarrow> if cl_sha256 lib rid \<in> cv_settled c \<and> cv_state c \<noteq> StateClosed \<and> \<not> cv_stopped c then Inl ErrAlreadyResolved
                else Inl ErrUnknownRequest)"

definition verifyHash :: "held \<Rightarrow> string \<Rightarrow> 's conv \<Rightarrow> conv_err + unit" where
  "verifyHash it got c =
     (case VerifyHash (pi_hash it) got (cv_requireHash c) of
        Inl ErrHashRequired \<Rightarrow> Inl ErrContentHashRequired | Inl _ \<Rightarrow> Inl ErrContentChanged | Inr _ \<Rightarrow> Inr ())"

definition writeResolveLocked ::
  "'s agent_stream \<Rightarrow> chat_lib \<Rightarrow> chat_env \<Rightarrow> string \<Rightarrow> held \<Rightarrow> command \<Rightarrow> 's conv \<Rightarrow> conv_err option \<times> 's conv" where
  "writeResolveLocked S lib E rid it cmd c =
     (case feed_Encode S lib E cmd c of
        (Inl _, c1) \<Rightarrow> (Some ErrUnknownRequest, hub_update E [] [] [ev_Seq (pi_ev it)] (settleLocked lib rid c1))
      | (Inr (raw, evs), c1) \<Rightarrow>
          (case write_line E cmd raw (settleLocked lib rid c1) of
             (False, c2) \<Rightarrow>
               (Some ErrWriteFailed,
                failLocked lib E (emitResolvedLocked lib E rid (pi_form it \<noteq> None) ''cancelled'' (hub_update E [] [] [ev_Seq (pi_ev it)] c2)))
           | (True, c2) \<Rightarrow> (None, hub_update E evs [] [ev_Seq (pi_ev it)] c2)))"

definition resolve :: "'s agent_stream \<Rightarrow> chat_lib \<Rightarrow> chat_env \<Rightarrow> string \<Rightarrow> string \<Rightarrow> string \<Rightarrow> 's conv \<Rightarrow> conv_err option \<times> 's conv" where
  "resolve S lib E rid outcome hash c =
     (if outcome \<noteq> AllowOnce \<and> outcome \<noteq> RejectOnce then (Some ErrBadOutcome, c)
      else (case heldLocked lib rid False c of
        Inl x \<Rightarrow> (Some x, c)
      | Inr it \<Rightarrow>
          (case verifyHash it hash c of
             Inl x \<Rightarrow> (Some x, c)
           | Inr _ \<Rightarrow> writeResolveLocked S lib E rid it
               \<lparr>cmd_V = Version, cmd_Type = CommandPermissionResolve, cmd_Data = PermissionAnswer rid outcome\<rparr> c)))"

definition ResolvePermissionIn ::
  "'s agent_stream \<Rightarrow> chat_lib \<Rightarrow> chat_env \<Rightarrow> string \<Rightarrow> permission_resolve \<Rightarrow> 's conv \<Rightarrow> conv_err option \<times> 's conv" where
  "ResolvePermissionIn S lib E generation r c =
     (if generation = [] then (Some ErrNoGeneration, c)
      else if generation \<noteq> cv_generation c then (Some ErrStaleGeneration, c)
      else resolve S lib E (ps_RequestID r) (ps_Outcome r) (ps_ContentHash r) c)"

definition ResolveFormIn ::
  "'s agent_stream \<Rightarrow> chat_lib \<Rightarrow> chat_env \<Rightarrow> string \<Rightarrow> string \<Rightarrow> form_resolve \<Rightarrow> 's conv \<Rightarrow> conv_err option \<times> 's conv" where
  "ResolveFormIn S lib E generation rid r c =
     (if generation = [] then (Some ErrNoGeneration, c)
      else if generation \<noteq> cv_generation c then (Some ErrStaleGeneration, c)
      else if fs_RequestID r \<noteq> rid then (Some ErrBadAnswer, c)
      else if fs_Outcome r \<noteq> FormAnswered \<and> fs_Outcome r \<noteq> FormCancelled then (Some ErrBadOutcome, c)
      else (case heldLocked lib rid True c of
        Inl x \<Rightarrow> (Some x, c)
      | Inr it \<Rightarrow>
          (case verifyHash it (fs_ContentHash r) c of
             Inl x \<Rightarrow> (Some x, c)
           | Inr _ \<Rightarrow>
               if failed (Answer_Validate (the (pi_form it)) r) then (Some ErrBadAnswer, c)
               else writeResolveLocked S lib E rid it
                 \<lparr>cmd_V = Version, cmd_Type = CommandFormResolve, cmd_Data = FormAnswer (r\<lparr>fs_ContentHash := []\<rparr>)\<rparr> c)))"

definition Stop :: "chat_lib \<Rightarrow> chat_env \<Rightarrow> 's conv \<Rightarrow> 's conv" where
  "Stop lib E c = (if cv_stopped c then c else expireAllLocked lib E (c\<lparr>cv_stopped := True\<rparr>))\<lparr>cv_stopOnce := True\<rparr>"

definition Conv_Close :: "chat_lib \<Rightarrow> chat_env \<Rightarrow> int \<Rightarrow> 's conv \<Rightarrow> 's conv" where
  "Conv_Close lib E x c =
     (let c1 = expireAllLocked lib E (c\<lparr>cv_state := StateClosed\<rparr>) in c1\<lparr>cv_hub := Hub_Close x (cv_hub c1)\<rparr>)"

section \<open>The output of the agent\<close>

fun index_sub :: "string \<Rightarrow> string \<Rightarrow> nat option" where
  "index_sub [] p = (if p = [] then Some 0 else None)"
| "index_sub (x # xs) p = (if has_prefix (x # xs) p then Some 0 else map_option Suc (index_sub xs p))"

definition data_key :: "event \<Rightarrow> string" where
  "data_key e = drop (case index_sub (ev_JSON e) ([CHR 0x22] @ ''data'' @ [CHR 0x22] @ '':'') of None \<Rightarrow> 0 | Some i \<Rightarrow> i) (ev_JSON e)"

record line_acc =
  la_publish :: "event list"
  la_pin :: "event list"
  la_unpin :: "nat list"
  la_rejects :: "(string \<times> bool) list"
  la_completed :: bool

definition pass_on :: "event \<Rightarrow> line_acc \<times> 's conv \<Rightarrow> line_acc \<times> 's conv" where
  "pass_on e = (\<lambda>(acc, c). (acc\<lparr>la_publish := la_publish acc @ [e]\<rparr>, if ev_Type e = TypeError then c else c\<lparr>cv_lastErr := []\<rparr>))"

definition line_event :: "chat_lib \<Rightarrow> event \<Rightarrow> line_acc \<times> 's conv \<Rightarrow> line_acc \<times> 's conv" where
  "line_event lib e = (\<lambda>(acc, c).
     if ev_Type e = TypeError then
       (if data_key e = cv_lastErr c then (acc, c) else pass_on e (acc, c\<lparr>cv_lastErr := data_key e\<rparr>))
     else if ev_Type e = TypePermissionRequested \<or> ev_Type e = TypeFormRequested then
       (case (requestID lib e, holdRequest lib e) of
          (Some rid, Some it) \<Rightarrow>
            if cv_state c \<noteq> StateTurn \<or> cv_stopped c \<or> length (cv_pending c) \<ge> MaxPendingRequests
            then pass_on e (acc\<lparr>la_rejects := la_rejects acc @ [(rid, pi_form it \<noteq> None)]\<rparr>, c)
            else pass_on e (acc\<lparr>la_pin := la_pin acc @ [e]\<rparr>,
                   c\<lparr>cv_pending := filter (\<lambda>(k, _). k \<noteq> rid) (cv_pending c) @ [(rid, it)]\<rparr>)
        | _ \<Rightarrow> (acc, c))
     else if ev_Type e = TypePermissionResolved \<or> ev_Type e = TypeFormResolved then
       (case requestID lib e of
          None \<Rightarrow> pass_on e (acc, c)
        | Some rid \<Rightarrow>
            (case map_of (cv_pending c) rid of
               Some it \<Rightarrow> pass_on e (acc\<lparr>la_unpin := la_unpin acc @ [ev_Seq (pi_ev it)]\<rparr>, settleLocked lib rid c)
             | None \<Rightarrow>
                 if cl_sha256 lib rid \<in> cv_orphans c then (acc, c\<lparr>cv_orphans := cv_orphans c - {cl_sha256 lib rid}\<rparr>)
                 else pass_on e (acc, c)))
     else if ev_Type e = TypeTurnCompleted then pass_on e (acc\<lparr>la_completed := True\<rparr>, c)
     else pass_on e (acc, c))"

definition reject_command :: "string \<Rightarrow> bool \<Rightarrow> command" where
  "reject_command rid form =
     (if form then \<lparr>cmd_V = Version, cmd_Type = CommandFormResolve,
        cmd_Data = FormAnswer \<lparr>fs_RequestID = rid, fs_Outcome = FormCancelled, fs_Answer = [], fs_ContentHash = []\<rparr>\<rparr>
      else \<lparr>cmd_V = Version, cmd_Type = CommandPermissionResolve, cmd_Data = PermissionAnswer rid RejectOnce\<rparr>)"

definition autoRejectLocked :: "'s agent_stream \<Rightarrow> chat_lib \<Rightarrow> chat_env \<Rightarrow> string \<times> bool \<Rightarrow> 's conv \<Rightarrow> 's conv" where
  "autoRejectLocked S lib E r c =
     (case r of (rid, form) \<Rightarrow>
      let c1 = settleLocked lib rid c in
      if cv_state c1 = StateClosed \<or> cv_stopped c1
      then emitResolvedLocked lib E rid form ''cancelled'' (c1\<lparr>cv_orphans := insert (cl_sha256 lib rid) (cv_orphans c1)\<rparr>)
      else (case feed_EncodeQuiet S (reject_command rid form) c1 of
        (Inl _, c2) \<Rightarrow> emitResolvedLocked lib E rid form ''cancelled'' c2
      | (Inr raw, c2) \<Rightarrow>
          (case write_line E (reject_command rid form) raw c2 of
             (False, c3) \<Rightarrow> failLocked lib E (emitResolvedLocked lib E rid form ''cancelled'' c3)
           | (True, c3) \<Rightarrow> emitResolvedLocked lib E rid form (if form then FormCancelled else RejectOnce) c3)))"

definition OnLine :: "'s agent_stream \<Rightarrow> chat_lib \<Rightarrow> chat_env \<Rightarrow> string \<Rightarrow> 's conv \<Rightarrow> conv_err option \<times> 's conv" where
  "OnLine S lib E line c =
     (case feed_Decode S lib E line c of
        (Inl x, c1) \<Rightarrow> (Some x, c1)
      | (Inr evs, c1) \<Rightarrow>
          (case fold (line_event lib) evs (\<lparr>la_publish = [], la_pin = [], la_unpin = [], la_rejects = [], la_completed = False\<rparr>, c1) of
             (acc, c2) \<Rightarrow>
               let c3 = hub_update E (la_publish acc) (la_pin acc) (la_unpin acc) c2;
                   c4 = (if la_completed acc \<and> cv_state c3 = StateTurn then expireAllLocked lib E (c3\<lparr>cv_state := StateIdle\<rparr>) else c3)
               in (None, fold (autoRejectLocked S lib E) (la_rejects acc) c4)))"

section \<open>Sequences of calls\<close>

datatype conv_call =
    CSend string
  | CPermission string permission_resolve
  | CForm string string form_resolve
  | CStop
  | CClose_conv int
  | CLine string

fun do_conv :: "'s agent_stream \<Rightarrow> chat_lib \<Rightarrow> chat_env \<Rightarrow> conv_call \<Rightarrow> 's conv \<Rightarrow> conv_err option \<times> 's conv" where
  "do_conv S lib E (CSend t) c = Send S lib E t c"
| "do_conv S lib E (CPermission g r) c = ResolvePermissionIn S lib E g r c"
| "do_conv S lib E (CForm g i r) c = ResolveFormIn S lib E g i r c"
| "do_conv S lib E CStop c = (None, Stop lib E c)"
| "do_conv S lib E (CClose_conv x) c = (None, Conv_Close lib E x c)"
| "do_conv S lib E (CLine l) c = OnLine S lib E l c"

definition run_conv :: "'s agent_stream \<Rightarrow> chat_lib \<Rightarrow> chat_env \<Rightarrow> conv_call list \<Rightarrow> 's conv \<Rightarrow> 's conv" where
  "run_conv S lib E calls c = fold (\<lambda>k c. snd (do_conv S lib E k c)) calls c"

section \<open>Lemmas\<close>

subsection \<open>Numbering\<close>

lemma feed_events_seqs:
  "feed_events lib ts session seq es = Inr evs \<Longrightarrow> length evs = length es \<and> map ev_Seq evs = [seq..<seq + length es]"
proof (induction es arbitrary: seq evs)
  case (Cons e es)
  then obtain x rest where r: "evs = x # rest" "ev_Seq x = seq" "feed_events lib ts session (seq + 1) es = Inr rest"
    by (auto simp: Let_def)
  from Cons.IH [OF r(3)] r show ?case by (simp add: upt_rec [of seq] del: upt_Suc)
qed simp

lemma make_events_spec:
  assumes "make_events lib E envs c = (r, c')"
  shows "c' = c\<lparr>cv_seq := cv_seq c'\<rparr> \<and> cv_seq c \<le> cv_seq c' \<and> (\<forall>evs. r = Inr evs \<longrightarrow> map ev_Seq evs = [cv_seq c..<cv_seq c'] \<and> length evs = length envs)"
  using assms by (auto simp: make_events_def dest: feed_events_seqs split: sum.splits)

lemma upt_ConsD: "x # xs = [a..<b] \<Longrightarrow> x = a \<and> a < b \<and> xs = [Suc a..<b]"
  by (cases "a < b") (auto simp: upt_conv_Cons)

lemma upt_NilD: "[] = [a..<b] \<Longrightarrow> b \<le> a"
  by (metis diff_is_0_eq length_upt list.size(3))

lemma feed_Emit_spec:
  assumes "feed_Emit lib E typ d x c = (r, c')"
  shows "c' = c\<lparr>cv_seq := cv_seq c'\<rparr> \<and> cv_seq c \<le> cv_seq c' \<and> (\<forall>e. r = Inr e \<longrightarrow> ev_Seq e = cv_seq c \<and> cv_seq c' = cv_seq c + 1)"
proof (cases "marshalLine (cl_emit lib x)")
  case (Inl y)
  then show ?thesis using assms by (auto simp: feed_Emit_def)
next
  case (Inr b)
  let ?env = "\<lparr>env_V = Version, env_ID = [], env_TS = [], env_Session = [], env_Seq = 0, env_Type = typ, env_Durable = d, env_Origin = None,
    env_Data = b, env_Raw = []\<rparr>"
  obtain q where q: "make_events lib E [?env] c = (q, c')" "r = (case q of Inl y \<Rightarrow> Inl y | Inr evs \<Rightarrow> Inr (hd evs))"
    using assms Inr by (auto simp: feed_Emit_def split: prod.splits sum.splits)
  show ?thesis
  proof (cases q)
    case (Inl y)
    then show ?thesis using make_events_spec [OF q(1)] q(2) by auto
  next
    case (Inr evs)
    then obtain e where "evs = [e]" "[ev_Seq e] = [cv_seq c..<cv_seq c']" using make_events_spec [OF q(1)] by (cases evs) auto
    then have "ev_Seq (hd evs) = cv_seq c \<and> cv_seq c' = cv_seq c + 1" using upt_ConsD [of "ev_Seq e" "[]" "cv_seq c" "cv_seq c'"] upt_NilD by fastforce
    then show ?thesis using make_events_spec [OF q(1)] q(2) Inr by auto
  qed
qed

text \<open>What every helper keeps: it publishes new events only, numbered above the old ones.\<close>

definition emits :: "'s conv \<Rightarrow> 's conv \<Rightarrow> bool" where
  "emits c c' \<longleftrightarrow> cv_seq c \<le> cv_seq c' \<and> hb_ended (cv_hub c') = hb_ended (cv_hub c) \<and>
     (\<exists>es. cv_published c' = cv_published c @ es \<and> sorted_wrt (<) (map ev_Seq es) \<and> (\<forall>e\<in>set es. cv_seq c \<le> ev_Seq e \<and> ev_Seq e < cv_seq c'))"

lemma emits_refl [simp]: "emits c c"
  by (simp add: emits_def)

lemma emits_trans: "emits a b \<Longrightarrow> emits b c \<Longrightarrow> emits a c"
proof -
  assume ab: "emits a b" and bc: "emits b c"
  obtain es fs where "cv_published b = cv_published a @ es" "sorted_wrt (<) (map ev_Seq es)" "\<forall>e\<in>set es. cv_seq a \<le> ev_Seq e \<and> ev_Seq e < cv_seq b"
    "cv_published c = cv_published b @ fs" "sorted_wrt (<) (map ev_Seq fs)" "\<forall>e\<in>set fs. cv_seq b \<le> ev_Seq e \<and> ev_Seq e < cv_seq c"
    using ab bc by (auto simp: emits_def)
  then show "emits a c"
    using ab bc unfolding emits_def by (intro conjI exI [of _ "es @ fs"]) (fastforce simp: sorted_wrt_append)+
qed

lemma Update_ended [simp]: "hb_ended (Update rd es p u h) = hb_ended h"
  by (simp add: Update_def update_begin_fields)

lemma emits_hub_update:
  "sorted_wrt (<) (map ev_Seq es) \<Longrightarrow> \<forall>e\<in>set es. n \<le> ev_Seq e \<and> ev_Seq e < cv_seq c \<Longrightarrow> cv_seq c0 = n \<Longrightarrow> n \<le> cv_seq c \<Longrightarrow>
   cv_published c = cv_published c0 \<Longrightarrow> hb_ended (cv_hub c) = hb_ended (cv_hub c0) \<Longrightarrow> emits c0 (hub_update E es p u c)"
  by (auto simp: emits_def hub_update_def)

lemma emits_fields: "emits c0 c \<Longrightarrow> cv_seq c' = cv_seq c \<Longrightarrow> cv_published c' = cv_published c \<Longrightarrow> cv_hub c' = cv_hub c \<Longrightarrow> emits c0 c'"
  by (simp add: emits_def)

definition numbered :: "'s conv \<Rightarrow> bool" where
  "numbered c \<longleftrightarrow> sorted_wrt (<) (map ev_Seq (cv_published c)) \<and> (\<forall>e\<in>set (cv_published c). ev_Seq e < cv_seq c)"

lemma numbered_emits: "numbered c \<Longrightarrow> emits c c' \<Longrightarrow> numbered c'"
  unfolding numbered_def emits_def by (fastforce simp: sorted_wrt_append)

subsection \<open>Helpers\<close>

lemma settleLocked_fields [simp]:
  "cv_stream (settleLocked lib i c) = cv_stream c" "cv_seq (settleLocked lib i c) = cv_seq c" "cv_hub (settleLocked lib i c) = cv_hub c"
  "cv_session (settleLocked lib i c) = cv_session c" "cv_generation (settleLocked lib i c) = cv_generation c"
  "cv_requireHash (settleLocked lib i c) = cv_requireHash c" "cv_state (settleLocked lib i c) = cv_state c"
  "cv_stopped (settleLocked lib i c) = cv_stopped c" "cv_orphans (settleLocked lib i c) = cv_orphans c" "cv_tick (settleLocked lib i c) = cv_tick c"
  "cv_written (settleLocked lib i c) = cv_written c" "cv_published (settleLocked lib i c) = cv_published c"
  "cv_pending (settleLocked lib i c) = filter (\<lambda>(k, _). k \<noteq> i) (cv_pending c)"
  by (simp_all add: settleLocked_def Let_def)

lemma hub_update_fields [simp]:
  "cv_stream (hub_update E es p u c) = cv_stream c" "cv_seq (hub_update E es p u c) = cv_seq c"
  "cv_session (hub_update E es p u c) = cv_session c" "cv_generation (hub_update E es p u c) = cv_generation c"
  "cv_requireHash (hub_update E es p u c) = cv_requireHash c" "cv_state (hub_update E es p u c) = cv_state c"
  "cv_stopped (hub_update E es p u c) = cv_stopped c" "cv_orphans (hub_update E es p u c) = cv_orphans c"
  "cv_written (hub_update E es p u c) = cv_written c" "cv_pending (hub_update E es p u c) = cv_pending c"
  "cv_settled (hub_update E es p u c) = cv_settled c" "cv_settledQ (hub_update E es p u c) = cv_settledQ c"
  by (simp_all add: hub_update_def)

definition kept :: "'s conv \<Rightarrow> 's conv \<Rightarrow> bool" where
  "kept c c' \<longleftrightarrow> cv_written c' = cv_written c \<and> cv_generation c' = cv_generation c \<and> cv_requireHash c' = cv_requireHash c \<and>
     cv_session c' = cv_session c \<and> cv_state c' = cv_state c \<and> cv_stopped c' = cv_stopped c"

lemma kept_refl [simp]: "kept c c"
  by (simp add: kept_def)

lemma kept_trans: "kept a b \<Longrightarrow> kept b c \<Longrightarrow> kept a c"
  by (simp add: kept_def)

lemma kept_settle [simp]: "kept c (settleLocked lib i c)"
  by (simp add: kept_def)

lemma kept_hub_update [simp]: "kept c (hub_update E es p u c)"
  by (simp add: kept_def)

definition settled_ok :: "'s conv \<Rightarrow> bool" where
  "settled_ok c \<longleftrightarrow> cv_settled c = set (cv_settledQ c) \<and> distinct (cv_settledQ c) \<and> length (cv_settledQ c) \<le> maxSettled"

lemma settled_ok_settle:
  assumes "settled_ok c"
  shows "settled_ok (settleLocked lib i c)" and "cl_sha256 lib i \<in> cv_settled (settleLocked lib i c)"
proof -
  have "length (cv_settledQ c) \<ge> maxSettled \<Longrightarrow> cv_settledQ c \<noteq> []" by (auto simp: maxSettled_def)
  then show "settled_ok (settleLocked lib i c)"
    using assms by (cases "cv_settledQ c") (auto simp: settled_ok_def settleLocked_def Let_def maxSettled_def)
  show "cl_sha256 lib i \<in> cv_settled (settleLocked lib i c)" by (simp add: settleLocked_def Let_def)
qed

lemma settled_ok_cong: "settled_ok c \<Longrightarrow> cv_settled c' = cv_settled c \<Longrightarrow> cv_settledQ c' = cv_settledQ c \<Longrightarrow> settled_ok c'"
  by (simp add: settled_ok_def)

lemma emitResolved_spec:
  "emits c (emitResolvedLocked lib E i f x c) \<and> kept c (emitResolvedLocked lib E i f x c) \<and>
   cv_pending (emitResolvedLocked lib E i f x c) = cv_pending c \<and> (settled_ok c \<longrightarrow> settled_ok (emitResolvedLocked lib E i f x c))"
proof -
  obtain r c1 where f: "feed_Emit lib E (resolved_type f) True (EmitResolved x i) c = (r, c1)" by force
  note s = feed_Emit_spec [OF f]
  have c1: "c1 = c\<lparr>cv_seq := cv_seq c1\<rparr>" "cv_seq c \<le> cv_seq c1" using s by auto
  have k: "kept c c1" "cv_pending c1 = cv_pending c" "cv_settled c1 = cv_settled c" "cv_settledQ c1 = cv_settledQ c"
    "cv_published c1 = cv_published c" "cv_hub c1 = cv_hub c" by (subst c1(1); simp add: kept_def)+
  show ?thesis
  proof (cases r)
    case (Inl y)
    then show ?thesis using f k c1(2) by (auto simp: emitResolvedLocked_def emits_def settled_ok_def)
  next
    case (Inr e)
    then have "emits c (hub_update E [e] [] [] c1)"
      using s k by (intro emits_hub_update) auto
    then show ?thesis using f k Inr kept_trans [OF k(1) kept_hub_update] by (simp add: emitResolvedLocked_def settled_ok_def)
  qed
qed

lemma expire_loop_spec:
  assumes "expire_loop lib E items c = (out, c')"
  shows "cv_published c' = cv_published c \<and> cv_hub c' = cv_hub c \<and> cv_seq c \<le> cv_seq c' \<and> kept c c' \<and>
    cv_pending c' = filter (\<lambda>(k, _). k \<notin> fst ` set items) (cv_pending c) \<and> (settled_ok c \<longrightarrow> settled_ok c') \<and>
    sorted_wrt (<) (map ev_Seq out) \<and> (\<forall>e\<in>set out. cv_seq c \<le> ev_Seq e \<and> ev_Seq e < cv_seq c')"
  using assms
proof (induction lib E items c arbitrary: out c' rule: expire_loop.induct)
  case (2 lib E rid it xs c)
  let ?c1 = "settleLocked lib rid c"
  let ?c2 = "?c1\<lparr>cv_orphans := insert (cl_sha256 lib rid) (cv_orphans ?c1)\<rparr>"
  obtain r c3 where f: "feed_Emit lib E (resolved_type (pi_form it \<noteq> None)) True (EmitResolved ''cancelled'' rid) ?c2 = (r, c3)" by force
  obtain out' where l: "expire_loop lib E xs c3 = (out', c')" "out = (case r of Inl _ \<Rightarrow> out' | Inr e \<Rightarrow> e # out')"
    using "2.prems" f by (auto simp: Let_def split: prod.splits sum.splits)
  note s = feed_Emit_spec [OF f]
  have c3: "c3 = ?c2\<lparr>cv_seq := cv_seq c3\<rparr>" "cv_seq c \<le> cv_seq c3" using s by auto
  have k: "kept c c3" "cv_pending c3 = filter (\<lambda>(k, _). k \<noteq> rid) (cv_pending c)" "cv_published c3 = cv_published c" "cv_hub c3 = cv_hub c"
    by (subst c3(1); simp add: kept_def)+
  have ok: "settled_ok c \<longrightarrow> settled_ok c3"
    using settled_ok_settle(1) [of c lib rid] by (subst c3(1)) (auto simp: settled_ok_def)
  note ih = "2.IH" [OF refl refl f [symmetric] l(1)]
  have "sorted_wrt (<) (map ev_Seq out) \<and> (\<forall>e\<in>set out. cv_seq c \<le> ev_Seq e \<and> ev_Seq e < cv_seq c')"
    using ih s c3(2) l(2) by (cases r) fastforce+
  then show ?case
    using ih k c3(2) ok kept_trans [OF k(1)] by (auto simp: filter_filter intro!: filter_cong)
qed simp

lemma expireAll_spec:
  "emits c (expireAllLocked lib E c) \<and> kept c (expireAllLocked lib E c) \<and> cv_pending (expireAllLocked lib E c) = [] \<and>
   (settled_ok c \<longrightarrow> settled_ok (expireAllLocked lib E c))"
proof (cases "cv_pending c = []")
  case False
  let ?items = "sort_key (\<lambda>(_, it). ev_Seq (pi_ev it)) (cv_pending c)"
  obtain out c' where l: "expire_loop lib E ?items c = (out, c')" by force
  note s = expire_loop_spec [OF l]
  have e: "emits c (hub_update E out [] u c')" for u using s by (intro emits_hub_update) auto
  have p: "cv_pending c' = []" using s by (auto simp: filter_empty_conv image_iff)
  show ?thesis using False l e p s kept_trans [of c c'] by (simp add: expireAllLocked_def Let_def settled_ok_def)
qed (simp add: expireAllLocked_def)

lemma failLocked_spec:
  "emits c (failLocked lib E c) \<and> cv_written (failLocked lib E c) = cv_written c \<and> cv_generation (failLocked lib E c) = cv_generation c \<and>
   cv_requireHash (failLocked lib E c) = cv_requireHash c \<and> cv_state (failLocked lib E c) = StateClosed \<and> cv_stopped (failLocked lib E c) \<and>
   cv_pending (failLocked lib E c) = [] \<and> (settled_ok c \<longrightarrow> settled_ok (failLocked lib E c))"
proof -
  let ?c0 = "c\<lparr>cv_state := StateClosed, cv_stopped := True, cv_stopOnce := True\<rparr>"
  let ?c1 = "expireAllLocked lib E ?c0"
  have e0: "emits c ?c0" by (simp add: emits_def)
  note x = expireAll_spec [of ?c0 lib E]
  obtain r c2 where f: "feed_Emit lib E TypeError True EmitWriteError ?c1 = (r, c2)" by force
  note s = feed_Emit_spec [OF f]
  have c2: "c2 = ?c1\<lparr>cv_seq := cv_seq c2\<rparr>" "cv_seq ?c1 \<le> cv_seq c2" using s by auto
  have k: "kept ?c1 c2" "cv_pending c2 = []" "cv_settled c2 = cv_settled ?c1" "cv_settledQ c2 = cv_settledQ ?c1"
    "cv_published c2 = cv_published ?c1" "cv_hub c2 = cv_hub ?c1" by (subst c2(1); simp add: kept_def x)+
  have fin: "failLocked lib E c = (case r of Inl _ \<Rightarrow> c2 | Inr e \<Rightarrow> hub_update E [e] [] [] c2)"
    using f by (simp add: failLocked_def Let_def split: sum.split)
  have "emits ?c1 (failLocked lib E c)"
  proof (cases r)
    case (Inl y)
    then show ?thesis using fin k c2(2) by (simp add: emits_def)
  next
    case (Inr e)
    then have "emits ?c1 (hub_update E [e] [] [] c2)"
      using s k by (intro emits_hub_update [where n = "cv_seq ?c1"]) (simp_all add: k)
    then show ?thesis using fin Inr by simp
  qed
  then have "emits c (failLocked lib E c)" using emits_trans e0 x by blast
  moreover have "kept ?c0 (failLocked lib E c) \<and> cv_pending (failLocked lib E c) = [] \<and> (settled_ok c \<longrightarrow> settled_ok (failLocked lib E c))"
    using x k fin kept_trans [of ?c0 ?c1] kept_trans [of ?c1 c2] by (cases r) (auto simp: settled_ok_def kept_def)
  ultimately show ?thesis by (auto simp: kept_def)
qed

lemma feed_Encode_spec:
  assumes "feed_Encode S lib E cmd c = (r, c')"
  shows "\<exists>st n. c' = c\<lparr>cv_stream := st, cv_seq := n\<rparr> \<and> cv_seq c \<le> n \<and> (\<forall>raw evs. r = Inr (raw, evs) \<longrightarrow> map ev_Seq evs = [cv_seq c..<n])"
proof -
  obtain q st where q: "EncodeCommand S cmd (cv_stream c) = (q, st)" by force
  show ?thesis
  proof (cases q)
    case (Inl y)
    then have "c' = c\<lparr>cv_stream := st\<rparr>" "r = Inl ErrStream" using assms q by (simp_all add: feed_Encode_def)
    then show ?thesis by (intro exI [of _ st] exI [of _ "cv_seq c"]) simp
  next
    case (Inr re)
    obtain raw envs where re: "re = (raw, envs)" by force
    obtain m c1 where m: "make_events lib E envs (c\<lparr>cv_stream := st\<rparr>) = (m, c1)" by force
    then have "c' = c1 \<and> r = (case m of Inl x \<Rightarrow> Inl x | Inr evs \<Rightarrow> Inr (raw, evs))"
      using assms q Inr re by (auto simp: feed_Encode_def split: sum.splits)
    then show ?thesis using make_events_spec [OF m]
      by (intro exI [of _ st] exI [of _ "cv_seq c1"]) (auto split: sum.splits)
  qed
qed

lemma feed_Decode_spec:
  assumes "feed_Decode S lib E line c = (r, c')"
  shows "\<exists>st n. c' = c\<lparr>cv_stream := st, cv_seq := n\<rparr> \<and> cv_seq c \<le> n \<and> (\<forall>evs. r = Inr evs \<longrightarrow> map ev_Seq evs = [cv_seq c..<n])"
proof -
  obtain q st where q: "DecodeFrame S line (cv_stream c) = (q, st)" by force
  show ?thesis
  proof (cases q)
    case (Inl y)
    then have "c' = c\<lparr>cv_stream := st\<rparr>" "r = Inl ErrStream" using assms q by (simp_all add: feed_Decode_def)
    then show ?thesis by (intro exI [of _ st] exI [of _ "cv_seq c"]) simp
  next
    case (Inr envs)
    then have "make_events lib E envs (c\<lparr>cv_stream := st\<rparr>) = (r, c')" using assms q by (simp add: feed_Decode_def)
    from make_events_spec [OF this] show ?thesis by (intro exI [of _ st] exI [of _ "cv_seq c'"]) auto
  qed
qed

lemma upt_seqs: "map ev_Seq evs = [a..<b] \<Longrightarrow> sorted_wrt (<) (map ev_Seq evs) \<and> (\<forall>e\<in>set evs. a \<le> ev_Seq e \<and> ev_Seq e < b)"
proof -
  assume a: "map ev_Seq evs = [a..<b]"
  then have "ev_Seq ` set evs = {a..<b}" by (metis set_map set_upt)
  then show ?thesis using a by (auto simp: sorted_wrt_upt)
qed

subsection \<open>The invariant\<close>

definition pending_ok :: "chat_lib \<Rightarrow> event set \<Rightarrow> 's conv \<Rightarrow> bool" where
  "pending_ok lib shown c \<longleftrightarrow> distinct (map fst (cv_pending c)) \<and> length (cv_pending c) \<le> MaxPendingRequests \<and>
     (cv_pending c \<noteq> [] \<longrightarrow> cv_state c = StateTurn \<and> \<not> cv_stopped c) \<and>
     (\<forall>(rid, it)\<in>set (cv_pending c). pi_ev it \<in> shown \<and> requestID lib (pi_ev it) = Some rid \<and> holdRequest lib (pi_ev it) = Some it)"

definition conv_inv :: "chat_lib \<Rightarrow> 's conv \<Rightarrow> bool" where
  "conv_inv lib c \<longleftrightarrow> settled_ok c \<and> numbered c \<and> pending_ok lib (set (cv_published c)) c \<and>
     (hb_ended (cv_hub c) \<longrightarrow> cv_state c = StateClosed) \<and> cv_state c \<noteq> StateAwaitingPermission"

lemma pending_ok_filter:
  assumes "pending_ok lib A c" "cv_pending c' = filter P (cv_pending c)" "A \<subseteq> B"
    "cv_pending c' = [] \<or> cv_state c' = cv_state c \<and> cv_stopped c' = cv_stopped c"
  shows "pending_ok lib B c'"
proof -
  have "distinct (map fst (filter P (cv_pending c)))" "length (filter P (cv_pending c)) \<le> MaxPendingRequests"
    using assms(1) by (simp_all add: pending_ok_def distinct_map_filter le_trans [OF length_filter_le])
  then show ?thesis using assms by (auto simp: pending_ok_def)
qed

lemma conv_inv_weaken:
  assumes "conv_inv lib c" "emits c c'" "settled_ok c'" "cv_pending c' = filter P (cv_pending c)"
    "cv_pending c' = [] \<or> cv_state c' = cv_state c \<and> cv_stopped c' = cv_stopped c"
    "cv_state c' = cv_state c \<or> cv_state c' = StateClosed \<or> cv_state c' \<noteq> StateAwaitingPermission \<and> cv_state c \<noteq> StateClosed"
  shows "conv_inv lib c'"
proof -
  have "set (cv_published c) \<subseteq> set (cv_published c')" using assms(2) by (auto simp: emits_def)
  with assms(1,4,5) have "pending_ok lib (set (cv_published c')) c'" by (auto simp: conv_inv_def intro: pending_ok_filter)
  then show ?thesis
    using assms numbered_emits by (auto simp: conv_inv_def emits_def)
qed

lemma emits_advance: "cv_seq c \<le> n \<Longrightarrow> emits c (c\<lparr>cv_stream := st, cv_seq := n\<rparr>)"
  by (simp add: emits_def)

lemma filter_True_conv: "xs = filter (\<lambda>_. True) xs"
  by simp

text \<open>What an answer writes.\<close>

lemma writeResolve_spec:
  assumes "writeResolveLocked S lib E rid it cmd c = (err, c')" "settled_ok c"
  shows "emits c c' \<and> settled_ok c' \<and> cv_generation c' = cv_generation c \<and> cv_requireHash c' = cv_requireHash c \<and>
    (if err = None then (\<exists>raw. cv_written c' = cv_written c @ [(cmd, raw)]) else cv_written c' = cv_written c) \<and>
    (if err = Some ErrWriteFailed then cv_pending c' = [] \<and> cv_state c' = StateClosed \<and> cv_stopped c'
     else cv_pending c' = filter (\<lambda>(k, _). k \<noteq> rid) (cv_pending c) \<and> cv_state c' = cv_state c \<and> cv_stopped c' = cv_stopped c \<and>
       cl_sha256 lib rid \<in> cv_settled c')"
proof -
  obtain r c1 where f: "feed_Encode S lib E cmd c = (r, c1)" by force
  obtain st n where c1: "c1 = c\<lparr>cv_stream := st, cv_seq := n\<rparr>" "cv_seq c \<le> n" "\<forall>raw evs. r = Inr (raw, evs) \<longrightarrow> map ev_Seq evs = [cv_seq c..<n]"
    using feed_Encode_spec [OF f] by blast
  have ok1: "settled_ok c1" using assms(2) by (simp add: c1(1) settled_ok_def)
  let ?c2 = "settleLocked lib rid c1"
  note ok2 = settled_ok_settle [OF ok1, of lib rid]
  have e2: "emits c ?c2" using c1(1,2) by (simp add: emits_def)
  let ?u = "[ev_Seq (pi_ev it)]"
  have upd: "emits c' (hub_update E [] [] u c')" for c' :: "'a conv" and u by (rule emits_hub_update) auto
  show ?thesis
  proof (cases r)
    case (Inl x)
    then have "err = Some ErrUnknownRequest" "c' = hub_update E [] [] ?u ?c2" using assms(1) f by (simp_all add: writeResolveLocked_def)
    then show ?thesis using e2 ok2 emits_trans [OF e2 upd] by (simp add: c1(1) settled_ok_def)
  next
    case (Inr re)
    obtain raw evs where re: "re = (raw, evs)" by force
    have seqs: "sorted_wrt (<) (map ev_Seq evs) \<and> (\<forall>e\<in>set evs. cv_seq c \<le> ev_Seq e \<and> ev_Seq e < n)"
      using c1(3) Inr re upt_seqs by blast
    show ?thesis
    proof (cases "ce_write E (cv_tick ?c2)")
      case True
      let ?c3 = "?c2\<lparr>cv_tick := cv_tick ?c2 + 1, cv_written := cv_written ?c2 @ [(cmd, raw)]\<rparr>"
      have r: "err = None" "c' = hub_update E evs [] ?u ?c3"
        using assms(1) f Inr re True by (simp_all add: writeResolveLocked_def write_line_def del: settleLocked_fields)
      have "emits c c'" unfolding r(2) using seqs c1(1,2) by (intro emits_hub_update) auto
      then show ?thesis using r ok2 by (simp add: c1(1) settled_ok_def)
    next
      case False
      let ?c3 = "?c2\<lparr>cv_tick := cv_tick ?c2 + 1\<rparr>"
      let ?c4 = "emitResolvedLocked lib E rid (pi_form it \<noteq> None) ''cancelled'' (hub_update E [] [] ?u ?c3)"
      have r: "err = Some ErrWriteFailed" "c' = failLocked lib E ?c4"
        using assms(1) f Inr re False by (simp_all add: writeResolveLocked_def write_line_def del: settleLocked_fields)
      have e3: "emits c (hub_update E [] [] ?u ?c3)"
        using e2 by (intro emits_trans [OF _ upd]) (simp add: emits_def)
      have ok3: "settled_ok (hub_update E [] [] ?u ?c3)" using ok2(1) by (simp add: settled_ok_def)
      note x = emitResolved_spec [of "hub_update E [] [] ?u ?c3" lib E rid "pi_form it \<noteq> None" "''cancelled''"]
      note y = failLocked_spec [of ?c4 lib E]
      have "emits c c'" unfolding r(2) using e3 x y emits_trans by blast
      moreover have "cv_written ?c4 = cv_written c \<and> cv_generation ?c4 = cv_generation c \<and> cv_requireHash ?c4 = cv_requireHash c"
        using x by (simp add: kept_def c1(1))
      ultimately show ?thesis using r x y ok3 by simp
    qed
  qed
qed

lemma conv_inv_fields: "conv_inv lib c \<Longrightarrow> settled_ok c" "conv_inv lib c \<Longrightarrow> cv_state c \<noteq> StateTurn \<or> cv_stopped c \<Longrightarrow> cv_pending c = []"
  by (auto simp: conv_inv_def pending_ok_def)

lemma writeResolve_inv:
  assumes "conv_inv lib c" "writeResolveLocked S lib E rid it cmd c = (err, c')"
  shows "conv_inv lib c'"
proof -
  note w = writeResolve_spec [OF assms(2) conv_inv_fields(1) [OF assms(1)]]
  have "\<exists>P. cv_pending c' = filter P (cv_pending c)"
    using w by (cases "err = Some ErrWriteFailed") (auto intro: exI [of _ "\<lambda>_. False"])
  then obtain P where "cv_pending c' = filter P (cv_pending c)" by blast
  then show ?thesis using w by (intro conv_inv_weaken [OF assms(1)]) (auto split: if_splits)
qed

lemma Send_spec:
  assumes "conv_inv lib c" "Send S lib E txt c = (err, c')"
  shows "conv_inv lib c' \<and> cv_generation c' = cv_generation c \<and> cv_requireHash c' = cv_requireHash c \<and>
    (if err = None
     then \<not> cv_stopped c \<and> cv_state c = StateIdle \<and>
       (\<exists>raw. cv_written c' = cv_written c @ [(\<lparr>cmd_V = Version, cmd_Type = CommandPrompt, cmd_Data = PromptText txt\<rparr>, raw)])
     else cv_written c' = cv_written c)"
proof (cases "txt = [] \<or> length txt > MaxMessageBytes \<or> \<not> utf8_valid txt \<or> cv_state c = StateClosed \<or> cv_stopped c \<or> cv_state c \<noteq> StateIdle")
  case True
  then have "c' = c \<and> err \<noteq> None" using assms(2) by (auto simp: Send_def split: if_splits)
  with assms(1) show ?thesis by auto
next
  case False
  let ?cmd = "\<lparr>cmd_V = Version, cmd_Type = CommandPrompt, cmd_Data = PromptText txt\<rparr>"
  have idle: "cv_state c = StateIdle" "\<not> cv_stopped c" "cv_pending c = []" using False assms(1) by (auto simp: conv_inv_def pending_ok_def)
  obtain r c1 where f: "feed_Encode S lib E ?cmd c = (r, c1)" by force
  obtain st n where c1: "c1 = c\<lparr>cv_stream := st, cv_seq := n\<rparr>" "cv_seq c \<le> n" "\<forall>raw evs. r = Inr (raw, evs) \<longrightarrow> map ev_Seq evs = [cv_seq c..<n]"
    using feed_Encode_spec [OF f] by blast
  have ok1: "settled_ok c1" using assms(1) by (simp add: c1(1) settled_ok_def conv_inv_def)
  show ?thesis
  proof (cases r)
    case (Inl x)
    then have "err = Some x" "c' = c1" using assms(2) f False by (auto simp: Send_def)
    then show ?thesis
      using conv_inv_weaken [OF assms(1) emits_advance [OF c1(2)], of st "\<lambda>_. True"] ok1 by (simp add: c1(1))
  next
    case (Inr re)
    obtain raw evs where re: "re = (raw, evs)" by force
    have seqs: "sorted_wrt (<) (map ev_Seq evs) \<and> (\<forall>e\<in>set evs. cv_seq c \<le> ev_Seq e \<and> ev_Seq e < n)"
      using c1(3) Inr re upt_seqs by blast
    show ?thesis
    proof (cases "ce_write E (cv_tick c1)")
      case True
      let ?c3 = "c1\<lparr>cv_tick := cv_tick c1 + 1, cv_written := cv_written c1 @ [(?cmd, raw)], cv_state := StateTurn\<rparr>"
      have r: "err = None" "c' = hub_update E evs [] [] ?c3"
        using assms(2) f Inr re True False by (auto simp: Send_def write_line_def)
      have e: "emits c c'" unfolding r(2) using seqs c1(1,2) by (intro emits_hub_update) auto
      have "conv_inv lib c'"
        by (rule conv_inv_weaken [OF assms(1) e, where P = "\<lambda>_. True"]) (use ok1 idle in \<open>simp_all add: r(2) c1(1) settled_ok_def\<close>)
      then show ?thesis using r idle by (simp add: c1(1))
    next
      case no: False
      let ?c3 = "c1\<lparr>cv_tick := cv_tick c1 + 1\<rparr>"
      have r: "err = Some ErrWriteFailed" "c' = failLocked lib E ?c3"
        using assms(2) f Inr re no False by (auto simp: Send_def write_line_def)
      have e3: "emits c ?c3" using c1(1,2) by (simp add: emits_def)
      note y = failLocked_spec [of ?c3 lib E]
      have e: "emits c c'" unfolding r(2) using e3 y emits_trans by blast
      have "conv_inv lib c'"
        by (rule conv_inv_weaken [OF assms(1) e, where P = "\<lambda>_. False"]) (use ok1 y in \<open>simp_all add: r(2) settled_ok_def\<close>)
      then show ?thesis using r y by (simp add: c1(1))
    qed
  qed
qed

lemma Stop_spec:
  assumes "conv_inv lib c"
  shows "conv_inv lib (Stop lib E c) \<and> cv_generation (Stop lib E c) = cv_generation c \<and> cv_requireHash (Stop lib E c) = cv_requireHash c \<and>
    cv_written (Stop lib E c) = cv_written c \<and> cv_stopped (Stop lib E c) \<and> cv_state (Stop lib E c) = cv_state c"
proof (cases "cv_stopped c")
  case True
  then have "conv_inv lib (c\<lparr>cv_stopOnce := True\<rparr>)"
    by (intro conv_inv_weaken [OF assms, where P = "\<lambda>_. True"]) (use assms in \<open>simp_all add: emits_def conv_inv_def settled_ok_def\<close>)
  with True show ?thesis by (simp add: Stop_def)
next
  case False
  let ?c1 = "expireAllLocked lib E (c\<lparr>cv_stopped := True\<rparr>)"
  note x = expireAll_spec [of "c\<lparr>cv_stopped := True\<rparr>" lib E]
  have "emits c (c\<lparr>cv_stopped := True\<rparr>)" by (simp add: emits_def)
  then have e: "emits c (?c1\<lparr>cv_stopOnce := True\<rparr>)" using x emits_trans emits_fields [of c ?c1 "?c1\<lparr>cv_stopOnce := True\<rparr>"] by auto
  have "conv_inv lib (?c1\<lparr>cv_stopOnce := True\<rparr>)"
    by (rule conv_inv_weaken [OF assms e, where P = "\<lambda>_. False"]) (use x assms in \<open>simp_all add: kept_def conv_inv_def settled_ok_def\<close>)
  with False x show ?thesis by (simp add: Stop_def kept_def)
qed

lemma Close_spec:
  assumes "conv_inv lib c"
  shows "conv_inv lib (Conv_Close lib E x c) \<and> cv_generation (Conv_Close lib E x c) = cv_generation c \<and>
    cv_requireHash (Conv_Close lib E x c) = cv_requireHash c \<and>
    cv_written (Conv_Close lib E x c) = cv_written c \<and> cv_stopped (Conv_Close lib E x c) = cv_stopped c \<and> cv_state (Conv_Close lib E x c) = StateClosed"
proof -
  let ?c1 = "expireAllLocked lib E (c\<lparr>cv_state := StateClosed\<rparr>)"
  note y = expireAll_spec [of "c\<lparr>cv_state := StateClosed\<rparr>" lib E]
  have "emits c (c\<lparr>cv_state := StateClosed\<rparr>)" by (simp add: emits_def)
  then have e: "emits c ?c1" using y emits_trans by blast
  have i: "conv_inv lib ?c1"
    by (rule conv_inv_weaken [OF assms e, where P = "\<lambda>_. False"]) (use y assms in \<open>simp_all add: kept_def conv_inv_def settled_ok_def\<close>)
  have "conv_inv lib (?c1\<lparr>cv_hub := Hub_Close x (cv_hub ?c1)\<rparr>)"
    using i y by (auto simp: conv_inv_def numbered_def pending_ok_def settled_ok_def kept_def)
  with y show ?thesis by (simp add: Conv_Close_def Let_def kept_def)
qed

subsection \<open>A line of output\<close>

text \<open>The loop over the events of a line, which are numbered upwards from \<open>lo\<close>; \<open>hi\<close> is above those seen.\<close>

definition line_ok :: "chat_lib \<Rightarrow> 's conv \<Rightarrow> nat \<Rightarrow> nat \<Rightarrow> line_acc \<times> 's conv \<Rightarrow> bool" where
  "line_ok lib c0 lo hi = (\<lambda>(acc, c). kept c0 c \<and> cv_published c = cv_published c0 \<and> cv_hub c = cv_hub c0 \<and> cv_seq c = cv_seq c0 \<and> settled_ok c \<and>
     pending_ok lib (set (cv_published c0) \<union> set (la_publish acc)) c \<and>
     sorted_wrt (<) (map ev_Seq (la_publish acc)) \<and> (\<forall>e\<in>set (la_publish acc). lo \<le> ev_Seq e \<and> ev_Seq e < hi))"

lemma line_ok_pass:
  assumes "line_ok lib c0 lo hi (acc, c)" "hi \<le> ev_Seq e" "lo \<le> ev_Seq e"
    "la_publish acc' = la_publish acc" "kept c c'" "cv_published c' = cv_published c" "cv_hub c' = cv_hub c" "cv_seq c' = cv_seq c" "settled_ok c'"
    "pending_ok lib (insert e (set (cv_published c0) \<union> set (la_publish acc))) c'"
  shows "line_ok lib c0 lo (ev_Seq e + 1) (pass_on e (acc', c'))"
proof -
  have "pending_ok lib A (if b then c' else c'\<lparr>cv_lastErr := []\<rparr>) = pending_ok lib A c'" "settled_ok (if b then c' else c'\<lparr>cv_lastErr := []\<rparr>) = settled_ok c'"
    for A b by (simp_all add: pending_ok_def settled_ok_def)
  then show ?thesis
    using assms by (fastforce simp: line_ok_def pass_on_def kept_def sorted_wrt_append insert_commute)
qed

lemma line_ok_skip:
  assumes "line_ok lib c0 lo hi (acc, c)" "hi \<le> hi'" "kept c c'" "cv_published c' = cv_published c" "cv_hub c' = cv_hub c" "cv_seq c' = cv_seq c"
    "cv_settled c' = cv_settled c" "cv_settledQ c' = cv_settledQ c" "cv_pending c' = cv_pending c"
  shows "line_ok lib c0 lo hi' (acc, c')"
  using assms by (fastforce simp: line_ok_def kept_def settled_ok_def pending_ok_def)

lemma pending_ok_put:
  assumes "pending_ok lib A c" "requestID lib e = Some rid" "holdRequest lib e = Some it"
    "cv_state c = StateTurn" "\<not> cv_stopped c" "length (cv_pending c) < MaxPendingRequests"
  shows "pending_ok lib (insert e A) (c\<lparr>cv_pending := filter (\<lambda>(k, _). k \<noteq> rid) (cv_pending c) @ [(rid, it)]\<rparr>)"
proof -
  have "pi_ev it = e" using assms(3) by (auto simp: holdRequest_def split: if_splits option.splits)
  moreover have "length (filter (\<lambda>(k, _). k \<noteq> rid) (cv_pending c)) < MaxPendingRequests"
    using assms(6) length_filter_le [of "\<lambda>(k, _). k \<noteq> rid" "cv_pending c"] by linarith
  moreover have "distinct (map fst (filter (\<lambda>(k, _). k \<noteq> rid) (cv_pending c)))" using assms(1) by (simp add: pending_ok_def distinct_map_filter)
  ultimately show ?thesis using assms by (auto simp: pending_ok_def)
qed

lemma line_event_ok:
  assumes "line_ok lib c0 lo hi (acc, c)" "hi \<le> ev_Seq e" "lo \<le> ev_Seq e"
  shows "line_ok lib c0 lo (ev_Seq e + 1) (line_event lib e (acc, c))"
proof -
  let ?A = "set (cv_published c0) \<union> set (la_publish acc)"
  from assms(1) have ok: "settled_ok c" "pending_ok lib ?A c" by (simp_all add: line_ok_def)
  have more: "pending_ok lib (insert e ?A) c'" if "pending_ok lib ?A c'" for c' :: "'a conv" using that by (auto simp: pending_ok_def)
  note pass = line_ok_pass [OF assms]
  have plain: "line_ok lib c0 lo (ev_Seq e + 1) (pass_on e (acc', c\<lparr>cv_lastErr := x\<rparr>))" if "la_publish acc' = la_publish acc" for acc' x
    by (rule pass) (use that ok more in \<open>simp_all add: kept_def settled_ok_def pending_ok_def\<close>)
  have plain': "line_ok lib c0 lo (ev_Seq e + 1) (pass_on e (acc', c))" if "la_publish acc' = la_publish acc" for acc'
    by (rule pass) (use that ok more in \<open>simp_all add: kept_def\<close>)
  have skip: "line_ok lib c0 lo (ev_Seq e + 1) (acc, c\<lparr>cv_orphans := x\<rparr>)" "line_ok lib c0 lo (ev_Seq e + 1) (acc, c)" for x
    by (rule line_ok_skip [OF assms(1)]; use assms(2) in \<open>simp add: kept_def\<close>)+
  consider "ev_Type e = TypeError" | "ev_Type e = TypePermissionRequested \<or> ev_Type e = TypeFormRequested"
    | "ev_Type e = TypePermissionResolved \<or> ev_Type e = TypeFormResolved" | "ev_Type e \<notin> {TypeError, TypePermissionRequested, TypeFormRequested, TypePermissionResolved, TypeFormResolved}"
    by auto
  then show ?thesis
  proof cases
    case 1
    then show ?thesis using skip plain by (simp add: line_event_def)
  next
    case 2
    then have t: "ev_Type e \<noteq> TypeError" by (auto simp: v0_types)
    show ?thesis
    proof (cases "requestID lib e = None \<or> holdRequest lib e = None")
      case True
      then show ?thesis using 2 t skip by (auto simp: line_event_def split: option.splits)
    next
      case False
      then obtain rid it where h: "requestID lib e = Some rid" "holdRequest lib e = Some it" by auto
      show ?thesis
      proof (cases "cv_state c \<noteq> StateTurn \<or> cv_stopped c \<or> length (cv_pending c) \<ge> MaxPendingRequests")
        case True
        then show ?thesis using 2 t h plain' by (simp add: line_event_def)
      next
        case no: False
        let ?c = "c\<lparr>cv_pending := filter (\<lambda>(k, _). k \<noteq> rid) (cv_pending c) @ [(rid, it)]\<rparr>"
        have "pending_ok lib (insert e ?A) ?c" using no by (intro pending_ok_put ok h) auto
        then have "line_ok lib c0 lo (ev_Seq e + 1) (pass_on e (acc\<lparr>la_pin := la_pin acc @ [e]\<rparr>, ?c))"
          using ok by (intro pass) (simp_all add: kept_def settled_ok_def)
        then show ?thesis using 2 t h no by (simp add: line_event_def)
      qed
    qed
  next
    case 3
    then have t: "ev_Type e \<noteq> TypeError" "ev_Type e \<noteq> TypePermissionRequested" "ev_Type e \<noteq> TypeFormRequested" by (auto simp: v0_types)
    show ?thesis
    proof (cases "requestID lib e")
      case None
      then show ?thesis using 3 t plain' by (simp add: line_event_def)
    next
      case (Some rid)
      show ?thesis
      proof (cases "map_of (cv_pending c) rid")
        case None
        then show ?thesis using 3 t Some plain' skip by (simp add: line_event_def)
      next
        case it: (Some it)
        have "pending_ok lib (insert e ?A) (settleLocked lib rid c)"
          by (rule pending_ok_filter [OF ok(2)]) auto
        then have "line_ok lib c0 lo (ev_Seq e + 1) (pass_on e (acc\<lparr>la_unpin := la_unpin acc @ [ev_Seq (pi_ev it)]\<rparr>, settleLocked lib rid c))"
          using settled_ok_settle(1) [OF ok(1)] by (intro pass) simp_all
        then show ?thesis using 3 t Some it by (simp add: line_event_def)
      qed
    qed
  next
    case 4
    then show ?thesis using plain' by (simp add: line_event_def)
  qed
qed

lemma line_fold_ok:
  assumes "line_ok lib c0 lo hi (acc, c)" "map ev_Seq evs = [hi..<n]" "lo \<le> hi" "hi \<le> n"
  shows "line_ok lib c0 lo n (fold (line_event lib) evs (acc, c))"
  using assms
proof (induction evs arbitrary: acc c hi)
  case Nil
  then have "hi = n" using upt_NilD [of hi n] by simp
  with Nil show ?case by simp
next
  case (Cons e evs)
  then have e: "ev_Seq e = hi" "map ev_Seq evs = [Suc hi..<n]" "hi < n" using upt_ConsD [of "ev_Seq e" "map ev_Seq evs" hi n] by simp_all
  obtain acc' c' where l: "line_event lib e (acc, c) = (acc', c')" by force
  have "line_ok lib c0 lo (ev_Seq e + 1) (acc', c')" using line_event_ok [OF Cons.prems(1), of e] e Cons.prems(3) l by simp
  then show ?case using Cons.IH [of "Suc hi" acc' c'] e Cons.prems(3) l by simp
qed

definition dead :: "'s conv \<Rightarrow> bool" where
  "dead c \<longleftrightarrow> cv_stopped c \<or> cv_state c = StateClosed"

lemma autoReject_spec:
  assumes "conv_inv lib c"
  shows "conv_inv lib (autoRejectLocked S lib E (rid, f) c) \<and>
    cv_generation (autoRejectLocked S lib E (rid, f) c) = cv_generation c \<and> cv_requireHash (autoRejectLocked S lib E (rid, f) c) = cv_requireHash c \<and>
    (\<exists>ws. cv_written (autoRejectLocked S lib E (rid, f) c) = cv_written c @ ws \<and> fst ` set ws \<subseteq> {reject_command rid f} \<and> (dead c \<longrightarrow> ws = [])) \<and>
    (dead c \<longrightarrow> dead (autoRejectLocked S lib E (rid, f) c))"
proof -
  let ?c1 = "settleLocked lib rid c"
  let ?res = "emitResolvedLocked lib E rid f"
  have ok: "settled_ok ?c1" using assms settled_ok_settle(1) conv_inv_fields(1) by blast
  have final: "conv_inv lib (?res x c2) \<and> cv_generation (?res x c2) = cv_generation c \<and> cv_requireHash (?res x c2) = cv_requireHash c \<and>
      cv_written (?res x c2) = cv_written c2 \<and> (dead c \<longrightarrow> dead (?res x c2))"
    if "emits c c2" "settled_ok c2" "cv_pending c2 = cv_pending ?c1" "cv_state c2 = cv_state c" "cv_stopped c2 = cv_stopped c"
      "cv_generation c2 = cv_generation c" "cv_requireHash c2 = cv_requireHash c" for c2 :: "'a conv" and x
  proof -
    note y = emitResolved_spec [of c2 lib E rid f x]
    have "emits c (?res x c2)" using that(1) y emits_trans by blast
    then have "conv_inv lib (?res x c2)"
      by (rule conv_inv_weaken [OF assms, where P = "\<lambda>(k, _). k \<noteq> rid"]) (use that y in \<open>auto simp: kept_def\<close>)
    then show ?thesis using that y by (auto simp: kept_def dead_def)
  qed
  show ?thesis
  proof (cases "cv_state ?c1 = StateClosed \<or> cv_stopped ?c1")
    case True
    let ?c2 = "?c1\<lparr>cv_orphans := insert (cl_sha256 lib rid) (cv_orphans ?c1)\<rparr>"
    have "autoRejectLocked S lib E (rid, f) c = ?res ''cancelled'' ?c2" using True by (simp add: autoRejectLocked_def Let_def)
    then show ?thesis using final [of ?c2 "''cancelled''"] ok by (simp add: emits_def settled_ok_def)
  next
    case False
    obtain r st where r: "EncodeCommand S (reject_command rid f) (cv_stream ?c1) = (r, st)" by force
    let ?c2 = "?c1\<lparr>cv_stream := st\<rparr>"
    show ?thesis
    proof (cases r)
      case (Inl x)
      then have "autoRejectLocked S lib E (rid, f) c = ?res ''cancelled'' ?c2"
        using False r by (simp add: autoRejectLocked_def Let_def feed_EncodeQuiet_def)
      then show ?thesis using final [of ?c2 "''cancelled''"] ok by (simp add: emits_def settled_ok_def)
    next
      case (Inr re)
      obtain raw envs where re: "re = (raw, envs)" by force
      have live: "\<not> dead c" using False by (simp add: dead_def)
      show ?thesis
      proof (cases "ce_write E (cv_tick ?c2)")
        case True
        let ?c3 = "?c2\<lparr>cv_tick := cv_tick ?c2 + 1, cv_written := cv_written ?c2 @ [(reject_command rid f, raw)]\<rparr>"
        have "autoRejectLocked S lib E (rid, f) c = ?res (if f then FormCancelled else RejectOnce) ?c3"
          using False r Inr re True by (simp add: autoRejectLocked_def Let_def feed_EncodeQuiet_def write_line_def)
        then show ?thesis using final [of ?c3 "if f then FormCancelled else RejectOnce"] ok live
          by (simp add: emits_def settled_ok_def)
      next
        case no: False
        let ?c3 = "?c2\<lparr>cv_tick := cv_tick ?c2 + 1\<rparr>"
        have a: "autoRejectLocked S lib E (rid, f) c = failLocked lib E (?res ''cancelled'' ?c3)"
          using False r Inr re no by (simp add: autoRejectLocked_def Let_def feed_EncodeQuiet_def write_line_def)
        have c3: "emits c ?c3" "settled_ok ?c3" using ok by (simp_all add: emits_def settled_ok_def)
        note y = emitResolved_spec [of ?c3 lib E rid f "''cancelled''"] and z = failLocked_spec [of "?res ''cancelled'' ?c3" lib E]
        have e: "emits c (failLocked lib E (?res ''cancelled'' ?c3))" using c3(1) y z emits_trans by blast
        have "conv_inv lib (failLocked lib E (?res ''cancelled'' ?c3))"
          by (rule conv_inv_weaken [OF assms e, where P = "\<lambda>_. False"]) (use y z c3(2) in simp_all)
        then show ?thesis using a y z live by (simp add: kept_def)
      qed
    qed
  qed
qed

lemma autoRejects_spec:
  assumes "conv_inv lib c"
  shows "conv_inv lib (fold (autoRejectLocked S lib E) rs c) \<and>
    cv_generation (fold (autoRejectLocked S lib E) rs c) = cv_generation c \<and> cv_requireHash (fold (autoRejectLocked S lib E) rs c) = cv_requireHash c \<and>
    (\<exists>ws. cv_written (fold (autoRejectLocked S lib E) rs c) = cv_written c @ ws \<and> fst ` set ws \<subseteq> (\<lambda>(rid, f). reject_command rid f) ` set rs \<and>
       (dead c \<longrightarrow> ws = [])) \<and> (dead c \<longrightarrow> dead (fold (autoRejectLocked S lib E) rs c))"
  using assms
proof (induction rs arbitrary: c)
  case (Cons r rs)
  obtain rid f where r: "r = (rid, f)" by force
  note one = autoReject_spec [OF Cons.prems, of S E rid f]
  then have "conv_inv lib (autoRejectLocked S lib E r c)" by (simp add: r)
  from Cons.IH [OF this] one obtain ws ws' where
    "cv_written (fold (autoRejectLocked S lib E) rs (autoRejectLocked S lib E r c)) = cv_written (autoRejectLocked S lib E r c) @ ws'"
    "fst ` set ws' \<subseteq> (\<lambda>(rid, f). reject_command rid f) ` set rs" "dead (autoRejectLocked S lib E r c) \<longrightarrow> ws' = []"
    "cv_written (autoRejectLocked S lib E r c) = cv_written c @ ws" "fst ` set ws \<subseteq> {reject_command rid f}" "dead c \<longrightarrow> ws = []"
    by (auto simp: r)
  then have "\<exists>us. cv_written (fold (autoRejectLocked S lib E) (r # rs) c) = cv_written c @ us \<and>
      fst ` set us \<subseteq> (\<lambda>(rid, f). reject_command rid f) ` set (r # rs) \<and> (dead c \<longrightarrow> us = [])"
    using one by (intro exI [of _ "ws @ ws'"]) (auto simp: r)
  then show ?case using Cons.IH [OF \<open>conv_inv lib (autoRejectLocked S lib E r c)\<close>] one by (auto simp: r)
qed simp

lemma OnLine_spec:
  assumes "conv_inv lib c" "OnLine S lib E line c = (err, c')"
  shows "conv_inv lib c' \<and> cv_generation c' = cv_generation c \<and> cv_requireHash c' = cv_requireHash c \<and>
    (\<exists>ws. cv_written c' = cv_written c @ ws \<and> fst ` set ws \<subseteq> range (\<lambda>(rid, f). reject_command rid f) \<and> (dead c \<longrightarrow> ws = [])) \<and>
    (dead c \<longrightarrow> dead c')"
proof -
  obtain r c1 where f: "feed_Decode S lib E line c = (r, c1)" by force
  obtain st n where c1: "c1 = c\<lparr>cv_stream := st, cv_seq := n\<rparr>" "cv_seq c \<le> n" "\<forall>evs. r = Inr evs \<longrightarrow> map ev_Seq evs = [cv_seq c..<n]"
    using feed_Decode_spec [OF f] by blast
  have i1: "conv_inv lib c1" unfolding c1(1)
    by (rule conv_inv_weaken [OF assms(1) emits_advance [OF c1(2)], where P = "\<lambda>_. True"]) (use assms(1) in \<open>simp_all add: conv_inv_def settled_ok_def\<close>)
  show ?thesis
  proof (cases r)
    case (Inl x)
    then have "c' = c1" using assms(2) f by (simp add: OnLine_def)
    then show ?thesis using i1 by (simp add: c1(1) dead_def)
  next
    case (Inr evs)
    let ?acc0 = "\<lparr>la_publish = [], la_pin = [], la_unpin = [], la_rejects = [], la_completed = False\<rparr>"
    obtain acc c2 where l: "fold (line_event lib) evs (?acc0, c1) = (acc, c2)" by force
    have "line_ok lib c1 (cv_seq c) (cv_seq c) (?acc0, c1)"
      using i1 by (simp add: line_ok_def conv_inv_def)
    from line_fold_ok [OF this, of evs n] c1(2,3) Inr l have lo: "line_ok lib c1 (cv_seq c) n (acc, c2)" by simp
    let ?c3 = "hub_update E (la_publish acc) (la_pin acc) (la_unpin acc) c2"
    let ?c4 = "if la_completed acc \<and> cv_state ?c3 = StateTurn then expireAllLocked lib E (?c3\<lparr>cv_state := StateIdle\<rparr>) else ?c3"
    have c': "c' = fold (autoRejectLocked S lib E) (la_rejects acc) ?c4"
      using assms(2) f Inr l by (simp add: OnLine_def Let_def)
    have k: "kept c c2" "cv_published c2 = cv_published c" "hb_ended (cv_hub c2) = hb_ended (cv_hub c)" "cv_seq c2 = n" "settled_ok c2"
      using lo by (simp_all add: line_ok_def c1(1) kept_def)
    have e3: "emits c ?c3" using lo c1(2) k by (intro emits_hub_update) (auto simp: line_ok_def)
    have p3: "pending_ok lib (set (cv_published ?c3)) ?c3"
    proof (cases "hb_ended (cv_hub c)")
      case True
      then have "cv_pending c2 = []" using lo assms(1) by (auto simp: line_ok_def conv_inv_def pending_ok_def kept_def c1(1))
      then show ?thesis by (simp add: pending_ok_def)
    next
      case False
      then have "set (cv_published ?c3) = set (cv_published c1) \<union> set (la_publish acc)" using k by (simp add: hub_update_def c1(1))
      then show ?thesis using lo by (simp add: line_ok_def pending_ok_def)
    qed
    have "numbered ?c3" using numbered_emits [OF _ e3] assms(1) by (simp add: conv_inv_def)
    then have i3: "conv_inv lib ?c3"
      using p3 k assms(1) by (simp add: conv_inv_def kept_def settled_ok_def) (simp add: hub_update_def k)
    have k3: "kept c ?c3" using kept_trans [OF k(1) kept_hub_update] .
    have i4: "conv_inv lib ?c4 \<and> cv_generation ?c4 = cv_generation c \<and> cv_requireHash ?c4 = cv_requireHash c \<and> cv_written ?c4 = cv_written c \<and>
        (dead c \<longrightarrow> dead ?c4)"
    proof (cases "la_completed acc \<and> cv_state ?c3 = StateTurn")
      case True
      let ?i = "?c3\<lparr>cv_state := StateIdle\<rparr>"
      note y = expireAll_spec [of ?i lib E]
      have "emits ?c3 ?i" by (simp add: emits_def)
      then have e: "emits ?c3 (expireAllLocked lib E ?i)" using y emits_trans by blast
      have "conv_inv lib (expireAllLocked lib E ?i)"
        by (rule conv_inv_weaken [OF i3 e, where P = "\<lambda>_. False"]) (use y i3 True in \<open>simp_all add: kept_def conv_inv_def settled_ok_def\<close>)
      moreover have "dead c \<longrightarrow> dead (expireAllLocked lib E ?i)" using y k3 True by (auto simp: kept_def dead_def)
      ultimately show ?thesis unfolding if_P [OF True] using y k3 by (simp add: kept_def)
    next
      case False
      have "?c4 = ?c3" using False by (rule if_not_P)
      then show ?thesis using i3 k3 by (auto simp: kept_def dead_def)
    qed
    show ?thesis
      using autoRejects_spec [of lib ?c4 S E "la_rejects acc"] i4 unfolding c' by fastforce
  qed
qed

subsection \<open>Calls\<close>

lemma verifyHash_Inr: "verifyHash it got c = Inr u \<longleftrightarrow> (if got = [] then \<not> cv_requireHash c else pi_hash it = got)"
  by (auto simp: verifyHash_def VerifyHash_def split: if_splits)

lemma heldLocked_Inr: "heldLocked lib rid f c = Inr it \<longleftrightarrow> map_of (cv_pending c) rid = Some it \<and> (pi_form it \<noteq> None) = f"
  by (auto simp: heldLocked_def split: option.splits if_splits)

lemma Permission_cases:
  assumes "ResolvePermissionIn S lib E g r c = (err, c')"
  obtains "c' = c" "err \<noteq> None"
  | it where "g \<noteq> []" "g = cv_generation c" "ps_Outcome r \<in> {AllowOnce, RejectOnce}" "map_of (cv_pending c) (ps_RequestID r) = Some it" "pi_form it = None"
      "if ps_ContentHash r = [] then \<not> cv_requireHash c else pi_hash it = ps_ContentHash r"
      "writeResolveLocked S lib E (ps_RequestID r) it
        \<lparr>cmd_V = Version, cmd_Type = CommandPermissionResolve, cmd_Data = PermissionAnswer (ps_RequestID r) (ps_Outcome r)\<rparr> c = (err, c')"
proof (cases "g \<noteq> [] \<and> g = cv_generation c \<and> ps_Outcome r \<in> {AllowOnce, RejectOnce} \<and>
    (\<exists>it. heldLocked lib (ps_RequestID r) False c = Inr it \<and> verifyHash it (ps_ContentHash r) c = Inr ())")
  case True
  then obtain it where h: "heldLocked lib (ps_RequestID r) False c = Inr it" "verifyHash it (ps_ContentHash r) c = Inr ()" by auto
  show thesis
  proof (rule that(2) [of it])
    show "writeResolveLocked S lib E (ps_RequestID r) it
        \<lparr>cmd_V = Version, cmd_Type = CommandPermissionResolve, cmd_Data = PermissionAnswer (ps_RequestID r) (ps_Outcome r)\<rparr> c = (err, c')"
      using assms True h by (auto simp: ResolvePermissionIn_def resolve_def)
  qed (use True h in \<open>auto simp: heldLocked_Inr verifyHash_Inr\<close>)
next
  case False
  have "c' = c \<and> err \<noteq> None"
    using assms False by (auto simp: ResolvePermissionIn_def resolve_def split: if_splits sum.splits)
  then show thesis using that(1) by blast
qed

lemma Form_cases:
  assumes "ResolveFormIn S lib E g rid r c = (err, c')"
  obtains "c' = c" "err \<noteq> None"
  | it f where "g \<noteq> []" "g = cv_generation c" "fs_RequestID r = rid" "map_of (cv_pending c) rid = Some it" "pi_form it = Some f"
      "if fs_ContentHash r = [] then \<not> cv_requireHash c else pi_hash it = fs_ContentHash r" "Answer_Validate f r = Inr ()"
      "writeResolveLocked S lib E rid it \<lparr>cmd_V = Version, cmd_Type = CommandFormResolve, cmd_Data = FormAnswer (r\<lparr>fs_ContentHash := []\<rparr>)\<rparr> c = (err, c')"
proof (cases "g \<noteq> [] \<and> g = cv_generation c \<and> fs_RequestID r = rid \<and> fs_Outcome r \<in> {FormAnswered, FormCancelled} \<and>
    (\<exists>it f. heldLocked lib rid True c = Inr it \<and> verifyHash it (fs_ContentHash r) c = Inr () \<and> pi_form it = Some f \<and> Answer_Validate f r = Inr ())")
  case True
  then obtain it f where h: "heldLocked lib rid True c = Inr it" "verifyHash it (fs_ContentHash r) c = Inr ()" "pi_form it = Some f" "Answer_Validate f r = Inr ()" by auto
  show thesis
  proof (rule that(2) [of it f])
    show "writeResolveLocked S lib E rid it \<lparr>cmd_V = Version, cmd_Type = CommandFormResolve, cmd_Data = FormAnswer (r\<lparr>fs_ContentHash := []\<rparr>)\<rparr> c = (err, c')"
      using assms True h by (auto simp: ResolveFormIn_def)
  qed (use True h in \<open>auto simp: heldLocked_Inr verifyHash_Inr\<close>)
next
  case False
  have "c' = c \<and> err \<noteq> None"
  proof (cases "heldLocked lib rid True c")
    case (Inl x)
    then show ?thesis using assms by (auto simp: ResolveFormIn_def split: if_splits)
  next
    case (Inr it)
    then obtain f where "pi_form it = Some f" by (auto simp: heldLocked_Inr)
    then show ?thesis using assms False Inr by (auto simp: ResolveFormIn_def not_failed_iff split: if_splits sum.splits)
  qed
  then show thesis using that(1) by blast
qed

definition grows :: "chat_lib \<Rightarrow> 's conv \<Rightarrow> 's conv \<Rightarrow> bool" where
  "grows lib c c' \<longleftrightarrow> conv_inv lib c' \<and> cv_generation c' = cv_generation c \<and> cv_requireHash c' = cv_requireHash c \<and>
     (dead c \<longrightarrow> dead c' \<and> cv_written c' = cv_written c)"

lemma grows_refl: "conv_inv lib c \<Longrightarrow> c' = c \<Longrightarrow> grows lib c c'"
  by (simp add: grows_def)

lemma grows_answer:
  assumes "conv_inv lib c" "writeResolveLocked S lib E rid it cmd c = (err, c')" "map_of (cv_pending c) rid = Some it"
  shows "grows lib c c'"
proof -
  have "cv_pending c \<noteq> []" using assms(3) by auto
  then have "\<not> dead c" using assms(1) by (auto simp: conv_inv_def pending_ok_def dead_def)
  then show ?thesis
    using writeResolve_inv [OF assms(1,2)] writeResolve_spec [OF assms(2) conv_inv_fields(1) [OF assms(1)]] by (simp add: grows_def)
qed

lemma do_conv_grows:
  assumes "conv_inv lib c" "do_conv S lib E k c = (err, c')"
  shows "grows lib c c'"
proof (cases k)
  case (CSend t)
  then have s: "Send S lib E t c = (err, c')" using assms(2) by simp
  show ?thesis
  proof (cases "dead c")
    case True
    then have "c' = c" using s by (auto simp: Send_def dead_def split: if_splits)
    with assms(1) show ?thesis by (simp add: grows_def)
  qed (use Send_spec [OF assms(1) s] in \<open>simp add: grows_def\<close>)
next
  case (CPermission g r)
  then have s: "ResolvePermissionIn S lib E g r c = (err, c')" using assms(2) by simp
  show ?thesis by (rule Permission_cases [OF s]) (use assms(1) in \<open>blast intro: grows_answer grows_refl\<close>)+
next
  case (CForm g i r)
  then have s: "ResolveFormIn S lib E g i r c = (err, c')" using assms(2) by simp
  show ?thesis by (rule Form_cases [OF s]) (use assms(1) in \<open>blast intro: grows_answer grows_refl\<close>)+
next
  case CStop
  then show ?thesis using assms Stop_spec [OF assms(1), of E] by (auto simp: grows_def dead_def)
next
  case (CClose_conv x)
  then show ?thesis using assms Close_spec [OF assms(1), of E x] by (auto simp: grows_def dead_def)
next
  case (CLine l)
  then show ?thesis using assms OnLine_spec [OF assms(1), of S E l err c'] by (auto simp: grows_def)
qed

lemma run_conv_simps [simp]:
  "run_conv S lib E [] c = c" "run_conv S lib E (k # ks) c = run_conv S lib E ks (snd (do_conv S lib E k c))"
  "run_conv S lib E (ks @ ks') c = run_conv S lib E ks' (run_conv S lib E ks c)"
  by (simp_all add: run_conv_def)

lemma run_conv_grows: "conv_inv lib c \<Longrightarrow> grows lib c (run_conv S lib E ks c)"
proof (induction ks arbitrary: c)
  case (Cons k ks)
  have "grows lib c (snd (do_conv S lib E k c))" using do_conv_grows [OF Cons.prems] by (metis prod.collapse)
  then show ?case using Cons.IH [of "snd (do_conv S lib E k c)"] by (auto simp: grows_def)
qed (simp add: grows_def)

lemma conv_inv_New: "\<not> hb_ended h \<Longrightarrow> conv_inv lib (NewConversation st session h g req)"
  by (simp add: conv_inv_def NewConversation_def settled_ok_def numbered_def pending_ok_def)

lemma run_conv_inv:
  assumes "\<not> hb_ended h" "c = run_conv S lib E calls (NewConversation st session h g req)"
  shows "conv_inv lib c" "cv_generation c = g" "cv_requireHash c = req"
  using run_conv_grows [where c = "NewConversation st session h g req" and S = S and E = E and ks = calls, OF conv_inv_New [OF assms(1)]] assms(2)
  by (simp_all add: grows_def NewConversation_def)

lemma conv_inv_pending:
  assumes "conv_inv lib c" "map_of (cv_pending c) rid = Some it"
  shows "pi_ev it \<in> set (cv_published c)" "requestID lib (pi_ev it) = Some rid" "holdRequest lib (pi_ev it) = Some it"
  using assms map_of_SomeD [OF assms(2)] by (auto simp: conv_inv_def pending_ok_def)

lemma new_written:
  "cv_written c' = cv_written c @ ws \<Longrightarrow> set (drop (length (cv_written c)) (cv_written c')) = set ws"
  by simp

lemma reject_only: "fst ` set ws \<subseteq> range (\<lambda>(i, f). reject_command i f) \<Longrightarrow> x \<in> set ws \<Longrightarrow> \<exists>i f. fst x = reject_command i f"
  by (auto simp: subset_iff image_iff)

lemma hold_permission:
  "holdRequest lib e = Some it \<Longrightarrow> pi_form it = None \<Longrightarrow> \<exists>p. ev_Type e = TypePermissionRequested \<and> cl_event_perm lib (ev_JSON e) = Some p \<and> pi_hash it = pr_ContentHash p"
  by (auto simp: holdRequest_def split: if_splits option.splits)

lemma hold_form:
  "holdRequest lib e = Some it \<Longrightarrow> pi_form it = Some f \<Longrightarrow> ev_Type e = TypeFormRequested \<and> cl_event_form lib (ev_JSON e) = Some f \<and> pi_hash it = fr_ContentHash f"
  by (auto simp: holdRequest_def split: if_splits option.splits)

lemma settled_after:
  assumes "conv_inv lib c" "writeResolveLocked S lib E rid it cmd c = (err, c')"
  shows "rid \<notin> fst ` set (cv_pending c')"
proof -
  have "cv_pending c' = [] \<or> cv_pending c' = filter (\<lambda>(k, _). k \<noteq> rid) (cv_pending c)"
    using writeResolve_spec [OF assms(2) conv_inv_fields(1) [OF assms(1)]] by presburger
  then show ?thesis by auto
qed

text \<open>What the calls write that are not the answer in question.\<close>

lemma permission_writes:
  assumes "conv_inv lib c" "do_conv S lib E (CPermission g r) c = (err, c')" "x \<in> set (drop (length (cv_written c)) (cv_written c'))"
  shows "cmd_Data (fst x) = PermissionAnswer (ps_RequestID r) (ps_Outcome r)"
proof -
  from assms(2) have "ResolvePermissionIn S lib E g r c = (err, c')" by simp
  then show ?thesis
  proof (cases rule: Permission_cases)
    case (2 it)
    then show ?thesis using writeResolve_spec [OF 2(7) conv_inv_fields(1) [OF assms(1)]] assms(3) by (auto split: if_splits)
  qed (use assms(3) in simp)
qed

lemma form_writes:
  assumes "conv_inv lib c" "do_conv S lib E (CForm g i r) c = (err, c')" "x \<in> set (drop (length (cv_written c)) (cv_written c'))"
  shows "cmd_Data (fst x) = FormAnswer (r\<lparr>fs_ContentHash := []\<rparr>)"
proof -
  from assms(2) have "ResolveFormIn S lib E g i r c = (err, c')" by simp
  then show ?thesis
  proof (cases rule: Form_cases)
    case (2 it f)
    then show ?thesis using writeResolve_spec [OF 2(8) conv_inv_fields(1) [OF assms(1)]] assms(3) by (auto split: if_splits)
  qed (use assms(3) in simp)
qed

lemma other_writes:
  assumes "conv_inv lib c" "do_conv S lib E k c = (err, c')" "x \<in> set (drop (length (cv_written c)) (cv_written c'))"
    "\<And>g r. k \<noteq> CPermission g r" "\<And>g i r. k \<noteq> CForm g i r"
  shows "(\<exists>t. cmd_Data (fst x) = PromptText t) \<or> (\<exists>i. cmd_Data (fst x) = PermissionAnswer i RejectOnce) \<or>
    (\<exists>i. cmd_Data (fst x) = FormAnswer \<lparr>fs_RequestID = i, fs_Outcome = FormCancelled, fs_Answer = [], fs_ContentHash = []\<rparr>)"
proof (cases k)
  case (CSend t)
  then show ?thesis using Send_spec [OF assms(1), of S E t err c'] assms(2,3) by (auto split: if_splits)
next
  case CStop
  then show ?thesis using Stop_spec [OF assms(1), of E] assms(2,3) by auto
next
  case (CClose_conv y)
  then show ?thesis using Close_spec [OF assms(1), of E y] assms(2,3) by auto
next
  case (CLine l)
  then obtain ws where "cv_written c' = cv_written c @ ws" "fst ` set ws \<subseteq> range (\<lambda>(i, f). reject_command i f)"
    using OnLine_spec [OF assms(1), of S E l err c'] assms(2) by auto
  then show ?thesis using reject_only [of ws x] assms(3) by (auto simp: reject_command_def split: if_splits)
qed (use assms(4,5) in blast)+

text \<open>The one way an answer allow_once is written.\<close>

lemma allow_cases:
  assumes "\<not> hb_ended h" "c = run_conv S lib E calls (NewConversation st session h g req)" "do_conv S lib E k c = (err, c')"
    "x \<in> set (drop (length (cv_written c)) (cv_written c'))" "cmd_Data (fst x) = PermissionAnswer rid ''allow_once''"
  obtains r it where "k = CPermission g r" "g \<noteq> []" "ps_RequestID r = rid" "ps_Outcome r = ''allow_once''"
    "map_of (cv_pending c) rid = Some it" "pi_form it = None" "pi_hash it = ps_ContentHash r \<or> ps_ContentHash r = [] \<and> \<not> req"
    "writeResolveLocked S lib E rid it \<lparr>cmd_V = Version, cmd_Type = CommandPermissionResolve, cmd_Data = PermissionAnswer rid ''allow_once''\<rparr> c = (err, c')"
    "cv_written c' = cv_written c @ [x]"
proof (cases k)
  note inv = run_conv_inv [OF assms(1,2)]
  case (CPermission g' r)
  then have "ResolvePermissionIn S lib E g' r c = (err, c')" using assms(3) by simp
  then show thesis
  proof (cases rule: Permission_cases)
    case 1
    then show ?thesis using assms(4) by simp
  next
    case (2 it)
    note w = writeResolve_spec [OF 2(7) conv_inv_fields(1) [OF inv(1)]]
    have wx: "cv_written c' = cv_written c @ [x]" "cmd_Data (fst x) = PermissionAnswer (ps_RequestID r) (ps_Outcome r)"
      using w assms(4) by (auto split: if_splits)
    show ?thesis by (rule that [of r it]) (use CPermission 2 wx inv assms(5) in \<open>auto split: if_splits\<close>)
  qed
next
  note inv = run_conv_inv [OF assms(1,2)]
  case (CForm g' i r)
  then show ?thesis using form_writes [OF inv(1)] assms(3-5) by fastforce
qed (use other_writes [OF run_conv_inv(1) [OF assms(1,2)] assms(3,4)] assms(5) in \<open>auto simp: RejectOnce_def\<close>)

text \<open>The line that an answer writes is the one of the adapter.\<close>

lemma answer_line:
  assumes "writeResolveLocked S lib E rid it cmd c = (err, c')" "settled_ok c" "cv_written c' = cv_written c @ [x]"
  shows "fst x = cmd \<and> (\<exists>envs s'. EncodeCommand S cmd (cv_stream c) = (Inr (snd x, envs), s'))"
proof -
  have n: "err = None" using writeResolve_spec [OF assms(1,2)] assms(3) by (auto split: if_splits)
  obtain r c1 where f: "feed_Encode S lib E cmd c = (r, c1)" by force
  with assms(1) n obtain raw evs where r: "r = Inr (raw, evs)" by (auto simp: writeResolveLocked_def split: sum.splits)
  obtain b c2 where l: "write_line E cmd raw (settleLocked lib rid c1) = (b, c2)" by force
  have s: "cv_written c1 = cv_written c" "\<exists>envs s'. EncodeCommand S cmd (cv_stream c) = (Inr (raw, envs), s')"
    using f r by (auto simp: feed_Encode_def make_events_def split: sum.splits prod.splits)
  have "b \<and> c' = hub_update E evs [] [ev_Seq (pi_ev it)] c2" using assms(1) f r l n by (cases b) (auto simp: writeResolveLocked_def)
  then have "cv_written c' = cv_written c @ [(cmd, raw)]" using l s(1) by (auto simp: write_line_def split: if_splits)
  then show ?thesis using s(2) assms(3) by auto
qed

text \<open>An agent that answers every line with one permission request (or form), for the examples.\<close>

definition ex_permission :: permission_requested where
  "ex_permission = \<lparr>pr_RequestID = ''r'', pr_CallID = [], pr_ToolName = ''Bash'', pr_Kind = ''execute'', pr_Input = ''{}'', pr_Title = [],
     pr_Summary = [], pr_Details = [], pr_DetailsTruncated = False, pr_ContentHash = ''h''\<rparr>"

definition ex_stream :: "string \<Rightarrow> unit agent_stream" where
  "ex_stream typ = \<lparr>DecodeFrame = (\<lambda>_ s. (Inr [\<lparr>env_V = 0, env_ID = [], env_TS = [], env_Session = [], env_Seq = 0, env_Type = typ,
       env_Durable = True, env_Origin = None, env_Data = ''x'', env_Raw = []\<rparr>], s)),
     EncodeCommand = (\<lambda>_ s. (Inr (''line'', []), s))\<rparr>"

definition ex_lib :: chat_lib where
  "ex_lib = \<lparr>cl_marshal = (\<lambda>_. Some ''j''), cl_emit = (\<lambda>_. Some ''m''), cl_marshal_perm = (\<lambda>_. Some ''p''), cl_marshal_form = (\<lambda>_. Some ''f''),
     cl_data_perm = (\<lambda>_. Some ex_permission), cl_data_form = (\<lambda>_. Some ex_form), cl_event_perm = (\<lambda>_. Some ex_permission),
     cl_event_form = (\<lambda>_. Some ex_form), cl_event_id = (\<lambda>_. Some ''r''), cl_isJSONObject = (\<lambda>_. True), cl_canon_perm = (\<lambda>_. Some ''c''),
     cl_canon_form = (\<lambda>_. Some ''c''), cl_sha256 = (\<lambda>s. s)\<rparr>"

definition ex_env :: chat_env where
  "ex_env = \<lparr>ce_write = (\<lambda>_. True), ce_now = (\<lambda>_. ''t''), ce_reads = (\<lambda>_ _ _. 0)\<rparr>"

definition ex_run :: "string \<Rightarrow> conv_call list \<Rightarrow> unit conv" where
  "ex_run typ calls = run_conv (ex_stream typ) ex_lib ex_env calls (NewConversation () ''s'' (NewHub ex_hub_config) ''g'' True)"

lemma ex_valid: "Permission_Validate (cl_isJSONObject ex_lib) ex_permission = Inr ()" "Form_Validate ex_form = Inr ()"
  by (simp_all add: ex_form_valid Permission_Validate_def rune_count_def ex_lib_def ex_permission_def MaxToolNameLen_def MaxSummaryLen_def MaxDetails_def)

lemma ex_decode:
  assumes "typ = TypePermissionRequested \<or> typ = TypeFormRequested"
  shows "feed_Decode (ex_stream typ) ex_lib ex_env l c =
    (Inr [\<lparr>ev_Seq = cv_seq c, ev_Type = typ, ev_Durable = True, ev_JSON = ''j''\<rparr>], c\<lparr>cv_seq := cv_seq c + 1\<rparr>)"
proof -
  have seal: "sealRequest ex_lib e = e\<lparr>env_Data := (if env_Type e = TypePermissionRequested then ''p'' else ''f'')\<rparr>"
    if "env_Type e = TypePermissionRequested \<or> env_Type e = TypeFormRequested" for e
    using that ex_valid by (auto simp: sealRequest_def marshalLine_def DefaultMaxEvent_def DefaultMaxLine_def ex_lib_def v0_types)
  show ?thesis
    using assms by (auto simp: feed_Decode_def ex_stream_def make_events_def seal marshalLine_def DefaultMaxEvent_def DefaultMaxLine_def Let_def)
      (simp_all add: ex_lib_def DefaultMaxEvent_def DefaultMaxLine_def)
qed

lemma ex_encode: "feed_Encode (ex_stream typ) ex_lib ex_env cmd c = (Inr (''line'', []), c)"
  by (simp add: feed_Encode_def ex_stream_def make_events_def)

lemma ex_write: "write_line ex_env cmd raw c = (True, c\<lparr>cv_tick := cv_tick c + 1, cv_written := cv_written c @ [(cmd, raw)]\<rparr>)"
  by (simp add: write_line_def ex_env_def)

definition ex_request :: "nat \<Rightarrow> string \<Rightarrow> event" where
  "ex_request n typ = \<lparr>ev_Seq = n, ev_Type = typ, ev_Durable = True, ev_JSON = ''j''\<rparr>"

definition ex_held :: "nat \<Rightarrow> string \<Rightarrow> held" where
  "ex_held n typ = \<lparr>pi_ev = ex_request n typ, pi_hash = ''h'', pi_form = (if typ = TypePermissionRequested then None else Some ex_form)\<rparr>"

lemma ex_hold:
  assumes "typ = TypePermissionRequested \<or> typ = TypeFormRequested"
  shows "requestID ex_lib (ex_request n typ) = Some ''r''" "holdRequest ex_lib (ex_request n typ) = Some (ex_held n typ)"
  using assms by (auto simp: requestID_def holdRequest_def ex_lib_def ex_request_def ex_held_def ex_permission_def ex_form_def v0_types)

lemma ex_line:
  assumes "typ = TypePermissionRequested \<or> typ = TypeFormRequested" "cv_state c = StateTurn" "\<not> cv_stopped c" "cv_pending c = []"
  shows "cv_pending (snd (OnLine (ex_stream typ) ex_lib ex_env l c)) = [(''r'', ex_held (cv_seq c) typ)] \<and>
    cv_generation (snd (OnLine (ex_stream typ) ex_lib ex_env l c)) = cv_generation c \<and>
    cv_requireHash (snd (OnLine (ex_stream typ) ex_lib ex_env l c)) = cv_requireHash c"
proof -
  have t: "typ \<noteq> TypeError" using assms(1) by (auto simp: v0_types)
  have e: "ev_Type (ex_request n typ) = typ" for n by (simp add: ex_request_def)
  let ?acc = "\<lparr>la_publish = [], la_pin = [], la_unpin = [], la_rejects = [], la_completed = False\<rparr>"
  let ?e = "ex_request (cv_seq c) typ"
  have "line_event ex_lib ?e (?acc, c\<lparr>cv_seq := cv_seq c + 1\<rparr>) =
      (?acc\<lparr>la_pin := [?e], la_publish := [?e]\<rparr>, c\<lparr>cv_seq := cv_seq c + 1, cv_pending := [(''r'', ex_held (cv_seq c) typ)], cv_lastErr := []\<rparr>)"
    using t assms(1) by (simp add: line_event_def pass_on_def e ex_hold [OF assms(1)] assms(2-4) MaxPendingRequests_def)
  moreover have "feed_Decode (ex_stream typ) ex_lib ex_env l c = (Inr [?e], c\<lparr>cv_seq := cv_seq c + 1\<rparr>)"
    using ex_decode [OF assms(1)] by (simp add: ex_request_def)
  ultimately show ?thesis by (simp add: OnLine_def)
qed

definition ex_asked :: "string \<Rightarrow> unit conv" where
  "ex_asked typ = ex_run typ [CSend ''hi'', CLine ''l'']"

lemma ex_New: "\<not> hb_ended (NewHub ex_hub_config)"
  by (simp add: NewHub_def)

lemma ex_asked_fields:
  assumes "typ = TypePermissionRequested \<or> typ = TypeFormRequested"
  shows "cv_pending (ex_asked typ) = [(''r'', ex_held 0 typ)]" "cv_generation (ex_asked typ) = ''g''" "cv_requireHash (ex_asked typ)"
proof -
  let ?c = "snd (Send (ex_stream typ) ex_lib ex_env ''hi'' (NewConversation () ''s'' (NewHub ex_hub_config) ''g'' True))"
  have "cv_state ?c = StateTurn \<and> \<not> cv_stopped ?c \<and> cv_pending ?c = [] \<and> cv_seq ?c = 0 \<and> cv_generation ?c = ''g'' \<and> cv_requireHash ?c"
    by (simp add: Send_def NewConversation_def MaxMessageBytes_def ex_encode ex_write)
  with ex_line [OF assms, of ?c "''l''"] show "cv_pending (ex_asked typ) = [(''r'', ex_held 0 typ)]" "cv_generation (ex_asked typ) = ''g''"
    "cv_requireHash (ex_asked typ)" by (simp_all add: ex_asked_def ex_run_def)
qed

lemma ex_writeResolve:
  "writeResolveLocked (ex_stream typ) ex_lib ex_env rid it cmd c = (err, c') \<Longrightarrow> err = None \<and> cv_written c' = cv_written c @ [(cmd, ''line'')]"
  by (auto simp: writeResolveLocked_def ex_encode ex_write)

lemma ex_allow:
  "\<exists>c'. do_conv (ex_stream TypePermissionRequested) ex_lib ex_env (CPermission ''g'' \<lparr>ps_RequestID = ''r'', ps_Outcome = ''allow_once'', ps_ContentHash = ''h''\<rparr>)
      (ex_asked TypePermissionRequested) = (None, c') \<and>
     cv_written c' = cv_written (ex_asked TypePermissionRequested) @
       [(\<lparr>cmd_V = Version, cmd_Type = CommandPermissionResolve, cmd_Data = PermissionAnswer ''r'' ''allow_once''\<rparr>, ''line'')]"
proof -
  let ?c = "ex_asked TypePermissionRequested"
  let ?cmd = "\<lparr>cmd_V = Version, cmd_Type = CommandPermissionResolve, cmd_Data = PermissionAnswer ''r'' ''allow_once''\<rparr>"
  obtain err c' where w: "writeResolveLocked (ex_stream TypePermissionRequested) ex_lib ex_env ''r'' (ex_held 0 TypePermissionRequested) ?cmd ?c = (err, c')"
    by force
  have h: "heldLocked ex_lib ''r'' False ?c = Inr (ex_held 0 TypePermissionRequested)" "verifyHash (ex_held 0 TypePermissionRequested) ''h'' ?c = Inr ()"
    using ex_asked_fields by (simp_all add: heldLocked_Inr verifyHash_Inr ex_held_def)
  show ?thesis
    using w ex_writeResolve [OF w] ex_asked_fields h by (simp add: ResolvePermissionIn_def resolve_def AllowOnce_def)
qed

lemma ex_form_answer:
  "\<exists>c'. do_conv (ex_stream TypeFormRequested) ex_lib ex_env (CForm ''g'' ''r'' ex_answer) (ex_asked TypeFormRequested) = (None, c') \<and>
     cv_written c' = cv_written (ex_asked TypeFormRequested) @
       [(\<lparr>cmd_V = Version, cmd_Type = CommandFormResolve, cmd_Data = FormAnswer (ex_answer\<lparr>fs_ContentHash := []\<rparr>)\<rparr>, ''line'')]"
proof -
  let ?c = "ex_asked TypeFormRequested"
  let ?cmd = "\<lparr>cmd_V = Version, cmd_Type = CommandFormResolve, cmd_Data = FormAnswer (ex_answer\<lparr>fs_ContentHash := []\<rparr>)\<rparr>"
  obtain err c' where w: "writeResolveLocked (ex_stream TypeFormRequested) ex_lib ex_env ''r'' (ex_held 0 TypeFormRequested) ?cmd ?c = (err, c')"
    by force
  have p: "pi_form (ex_held 0 TypeFormRequested) = Some ex_form" by (simp add: ex_held_def v0_types)
  have h: "heldLocked ex_lib ''r'' True ?c = Inr (ex_held 0 TypeFormRequested)" "verifyHash (ex_held 0 TypeFormRequested) ''h'' ?c = Inr ()"
    using ex_asked_fields p by (simp_all add: heldLocked_Inr verifyHash_Inr) (simp add: ex_held_def)
  have a: "Answer_Validate ex_form ex_answer = Inr ()" "fs_RequestID ex_answer = ''r''" "fs_Outcome ex_answer = FormAnswered" "fs_ContentHash ex_answer = ''h''"
    by (simp_all add: Answer_Validate_def ex_form_def ex_answer_def ex_field_def FormCancelled_def FormAnswered_def)
  show ?thesis
    using w ex_writeResolve [OF w] ex_asked_fields h a p by (simp add: ResolveFormIn_def)
qed

section \<open>Properties\<close>

text \<open>
  After Stop or Close nothing is ever written to the agent again, whatever the agent sends and whatever is answered or asked.
\<close>

theorem silent_after_stop:
  assumes "\<not> hb_ended h" "c = run_conv S lib E calls (NewConversation st session h g req)" "k \<in> {CStop, CClose_conv x}"
  shows "cv_written (run_conv S lib E (k # rest) c) = cv_written c"
proof -
  note inv = run_conv_inv [OF assms(1,2)]
  let ?c1 = "snd (do_conv S lib E k c)"
  have "dead ?c1 \<and> cv_written ?c1 = cv_written c"
    using assms(3) Stop_spec [OF inv(1), of E] Close_spec [OF inv(1), of E x] by (auto simp: dead_def)
  moreover have "conv_inv lib ?c1" using do_conv_grows [OF inv(1), of S E k "fst (do_conv S lib E k c)" ?c1] by (simp add: grows_def)
  ultimately show ?thesis using run_conv_grows [of lib ?c1 S E rest] by (simp add: grows_def)
qed

theorem silent_after_stop_witness:
  "cv_written (run_conv (ex_stream TypePermissionRequested) ex_lib ex_env [CStop, CSend ''again''] (ex_asked TypePermissionRequested)) =
   cv_written (ex_asked TypePermissionRequested)"
  by (rule silent_after_stop [OF ex_New, where calls = "[CSend ''hi'', CLine ''l'']" and st = "()" and session = "''s''" and g = "''g''" and req = True and x = 0])
    (simp_all add: ex_asked_def ex_run_def)

text \<open>
  C29: In every reachable state of a conversation at most eight requests wait for the human, each of them a published event that the
  conversation can still answer (a turn is running and nobody has stopped it); at most 4096 settled requests
  are remembered; and the events published are strictly increasing in their numbers.
\<close>

theorem conversation_invariant:
  assumes "\<not> hb_ended h" "c = run_conv S lib E calls (NewConversation st session h g req)"
  shows "length (cv_pending c) \<le> 8 \<and> distinct (map fst (cv_pending c)) \<and> list_all (\<lambda>(i, it). pi_ev it \<in> set (cv_published c)) (cv_pending c) \<and>
    (cv_pending c = [] \<or> stateLocked c = StateAwaitingPermission \<and> \<not> cv_stopped c) \<and>
    card (cv_settled c) \<le> 4096 \<and> sorted_wrt (<) (map ev_Seq (cv_published c))"
proof -
  have inv: "conv_inv lib c" using run_conv_inv [OF assms] by blast
  then have "card (cv_settled c) \<le> 4096" by (auto simp: conv_inv_def settled_ok_def distinct_card maxSettled_def)
  then show ?thesis
    using inv by (auto simp: conv_inv_def pending_ok_def numbered_def list_all_iff stateLocked_def MaxPendingRequests_def)
qed

theorem conversation_invariant_witness:
  "length (cv_pending (ex_asked TypePermissionRequested)) \<le> 8 \<and> card (cv_settled (ex_asked TypePermissionRequested)) \<le> 4096"
  using conversation_invariant [OF ex_New, of "ex_asked TypePermissionRequested" "ex_stream TypePermissionRequested" ex_lib ex_env
      "[CSend ''hi'', CLine ''l'']" "()" "''s''" "''g''" True]
  by (simp add: ex_asked_def ex_run_def)

end
