(* ===== verification/Chat_Lines.thy ===== *)
theory Chat_Lines
  imports Chat_Conversation Go_Utf8
begin

text \<open>
  The two ends of the pipe to an agent (cmd/internal/chat: linereader.go, sse.go, http.go, queue.go and the loops of agent.go): reading
  what the agent prints, line by line or as server-sent events, and the bounded queue of what it is told.

  A source is the bytes that are left of it and how it ends. \<open>bufio.Reader.ReadSlice\<close> is modelled with its buffer of 4096 bytes; how the
  bytes come in does not matter to it, but for a source that reports its error together with its last bytes it can answer once less than here,
  with the same result of \<open>Next\<close>.
\<close>

section \<open>Reading lines\<close>

abbreviation LF :: char where "LF \<equiv> CHR 0x0A"
abbreviation CR :: char where "CR \<equiv> CHR 0x0D"

datatype src_end = SrcEOF | SrcFails

definition readerSize :: nat where "readerSize = 4096"

datatype slice_end = SliceLine | SliceFull | SliceEnd

definition ReadSlice :: "string \<Rightarrow> string \<times> string \<times> slice_end" where
  "ReadSlice s =
     (case index_byte (take readerSize s) LF of
        Some i \<Rightarrow> (take (i + 1) s, drop (i + 1) s, SliceLine)
      | None \<Rightarrow> if length s \<ge> readerSize then (take readerSize s, drop readerSize s, SliceFull) else (s, [], SliceEnd))"

lemma ReadSlice_append: "ReadSlice s = (chunk, s', e) \<Longrightarrow> s = chunk @ s'"
  by (auto simp: ReadSlice_def split: option.splits if_splits)

lemma ReadSlice_Full: "ReadSlice s = (chunk, s', SliceFull) \<Longrightarrow> length s' < length s \<and> LF \<notin> set chunk"
  by (auto simp: ReadSlice_def readerSize_def split: option.splits if_splits)

text \<open>One chunk more for the buffer, unless the line is too long already.\<close>

definition gather :: "nat \<Rightarrow> string \<Rightarrow> string \<Rightarrow> bool \<Rightarrow> string \<times> bool" where
  "gather m chunk buf over =
     (if over then (buf, True) else if length buf + length chunk > m + 2 then ([], True) else (buf @ chunk, False))"

function read_line :: "nat \<Rightarrow> string \<Rightarrow> string \<Rightarrow> bool \<Rightarrow> string \<times> bool \<times> bool \<times> string" where
  "read_line m s buf over =
     (case ReadSlice s of
        (chunk, s', e) \<Rightarrow>
          (case gather m chunk buf over of
             (buf', over') \<Rightarrow> if e = SliceFull then read_line m s' buf' over' else (buf', over', e = SliceEnd, s')))"
  by pat_completeness auto
termination by (relation "measure (\<lambda>(m, s, buf, over). length s)") (auto dest: ReadSlice_Full [OF sym])

declare read_line.simps [simp del]

datatype line_result = Line string | LineTooLong | BadLine | LineEOF | LineFails

text \<open>The line at the front of the rest: up to and with its LF, whether it has one, and what is behind it.\<close>

definition first_line :: "string \<Rightarrow> string \<times> bool \<times> string" where
  "first_line s = (case index_byte s LF of Some i \<Rightarrow> (take (i + 1) s, True, drop (i + 1) s) | None \<Rightarrow> (s, False, []))"

lemma index_byte_split:
  assumes "index_byte s c = Some i"
  shows "\<exists>a b. s = a @ c # b \<and> length a = i \<and> c \<notin> set a"
proof -
  note i = index_byte_Some [OF assms]
  then have "s = take i s @ s ! i # drop (Suc i) s" by (intro id_take_nth_drop) simp
  then have "s = take i s @ c # drop (Suc i) s" using i by metis
  then show ?thesis using i by (intro exI [of _ "take i s"] exI [of _ "drop (Suc i) s"]) auto
qed

lemma first_line_none: "LF \<notin> set s \<Longrightarrow> first_line s = (s, False, [])"
  using index_byte_None [of s LF] by (simp add: first_line_def del: index_byte_None)

lemma first_line_some: "LF \<notin> set a \<Longrightarrow> first_line (a @ LF # b) = (a @ [LF], True, b)"
  using index_byte_append [of LF a b] by (simp add: first_line_def)

lemma first_line_Full:
  assumes "ReadSlice s = (chunk, s', SliceFull)" "first_line s' = (raw, t, rest)"
  shows "first_line s = (chunk @ raw, t, rest)"
proof -
  have s: "s = chunk @ s'" "LF \<notin> set chunk" using ReadSlice_append [OF assms(1)] ReadSlice_Full [OF assms(1)] by auto
  show ?thesis
  proof (cases "index_byte s' LF")
    case None
    then show ?thesis using assms(2) s first_line_none [of s'] first_line_none [of s] by auto
  next
    case (Some i)
    obtain a b where ab: "s' = a @ LF # b" "LF \<notin> set a" using index_byte_split [OF Some] by blast
    then have "s = (chunk @ a) @ LF # b" "LF \<notin> set (chunk @ a)" using s by auto
    then show ?thesis using assms(2) ab s(1) first_line_some [of a b] first_line_some [of "chunk @ a" b] by auto
  qed
qed

lemma first_line_else:
  assumes "ReadSlice s = (chunk, s', e)" "e \<noteq> SliceFull"
  shows "first_line s = (chunk, e = SliceLine, s')"
proof (cases "index_byte (take readerSize s) LF")
  case None
  have r: "length s < readerSize" "chunk = s" "s' = []" "e = SliceEnd"
    using assms unfolding ReadSlice_def None option.case by (auto split: if_splits)
  then have "LF \<notin> set s" using None by simp
  then show ?thesis using r first_line_none [of s] by simp
next
  case (Some i)
  obtain a b where ab: "take readerSize s = a @ LF # b" "length a = i" "LF \<notin> set a" using index_byte_split [OF Some] by blast
  then have s: "s = a @ LF # (b @ drop readerSize s)" by (metis append.assoc append_Cons append_take_drop_id)
  have "take (i + 1) s = a @ [LF]" "drop (i + 1) s = b @ drop readerSize s"
    by (subst s, simp add: ab(2))+
  then show ?thesis using assms first_line_some [OF ab(3), of "b @ drop readerSize s"] unfolding s [symmetric] ReadSlice_def Some option.case by auto
qed

lemma read_line_spec:
  assumes "first_line s = (raw, t, rest)" "over \<longrightarrow> buf = []" "\<not> over \<longrightarrow> length buf \<le> m + 2"
  shows "read_line m s buf over =
    (if over \<or> length buf + length raw > m + 2 then ([], True, \<not> t, rest) else (buf @ raw, False, \<not> t, rest))"
  using assms
proof (induction m s buf over arbitrary: raw rule: read_line.induct)
  case (1 m s buf over)
  obtain chunk s' e where c: "ReadSlice s = (chunk, s', e)" by (cases "ReadSlice s") auto
  obtain buf' over' where g: "gather m chunk buf over = (buf', over')" by force
  have g': "over' \<longleftrightarrow> over \<or> length buf + length chunk > m + 2" "buf' = (if over' then [] else buf @ chunk)"
    using g 1(3,4) by (auto simp: gather_def split: if_splits)
  show ?case
  proof (cases "e = SliceFull")
    case True
    obtain raw' t' rest' where f: "first_line s' = (raw', t', rest')" by (cases "first_line s'") auto
    have r: "raw = chunk @ raw'" "t' = t" "rest' = rest" using first_line_Full [OF c [unfolded True] f] 1(2) by auto
    have "read_line m s' buf' over' = (if over' \<or> length buf' + length raw' > m + 2 then ([], True, \<not> t, rest) else (buf' @ raw', False, \<not> t, rest))"
      using 1(1) [OF c [symmetric] refl g [symmetric]] True f r(2,3) g' by auto
    then show ?thesis using True c g g' r(1) by (subst read_line.simps) auto
  next
    case False
    have r: "raw = chunk" "t = (e = SliceLine)" "rest = s'" using first_line_else [OF c False] 1(2) by auto
    have "(e = SliceEnd) = (\<not> t)" using r(2) False by (cases e) auto
    then show ?thesis using False c g g' r by (subst read_line.simps) auto
  qed
qed

lemma read_line_shorter:
  assumes "read_line m s [] False = (buf, over, ended, s')" "\<not> over" "ended \<longrightarrow> buf \<noteq> []"
  shows "length s' < length s"
proof -
  obtain raw t rest where f: "first_line s = (raw, t, rest)" by (cases "first_line s") auto
  have "s = raw @ rest" "raw = [] \<longrightarrow> \<not> t" using f by (auto simp: first_line_def dest: index_byte_Some split: option.splits)
  moreover have "buf = raw" "ended = (\<not> t)" "s' = rest" using read_line_spec [OF f, of False "[]" m] assms(1,2) by (auto split: if_splits)
  ultimately show ?thesis using assms(3) by auto
qed

text \<open>\<open>Next\<close>, with the number of blank lines that it has skipped.\<close>

definition trim_eol :: "string \<Rightarrow> string" where
  "trim_eol s = trim_suffix (trim_suffix s [LF]) [CR]"

function next_line :: "nat \<Rightarrow> src_end \<Rightarrow> nat \<Rightarrow> string \<Rightarrow> line_result \<times> string" where
  "next_line m e blank s =
     (case read_line m s [] False of
        (buf, over, ended, s') \<Rightarrow>
          if ended \<and> e = SrcFails then (LineFails, s')
          else if ended \<and> \<not> over \<and> buf = [] then (LineEOF, s')
          else if over then (LineTooLong, s')
          else if length (trim_eol buf) > m then (LineTooLong, s')
          else if trim_eol buf = [] then (if blank + 1 > m then (BadLine, s') else next_line m e (blank + 1) s')
          else if char_of (0::nat) \<in> set (trim_eol buf) \<or> \<not> utf8_valid (trim_eol buf) then (BadLine, s')
          else (Line (trim_eol buf), s'))"
  by pat_completeness auto
termination by (relation "measure (\<lambda>(m, e, blank, s). length s)") (auto dest!: read_line_shorter [OF sym])

declare next_line.simps [simp del]

record line_reader =
  lr_max :: nat
  lr_end :: src_end
  lr_src :: string

definition NewLineReader :: "string \<Rightarrow> src_end \<Rightarrow> int \<Rightarrow> line_reader" where
  "NewLineReader s e m = \<lparr>lr_max = (if m \<le> 0 then DefaultMaxLine else nat m), lr_end = e, lr_src = s\<rparr>"

definition Line_Next :: "line_reader \<Rightarrow> line_result \<times> line_reader" where
  "Line_Next l = (case next_line (lr_max l) (lr_end l) 0 (lr_src l) of (r, s') \<Rightarrow> (r, l\<lparr>lr_src := s'\<rparr>))"

section \<open>What comes out of a source\<close>

text \<open>The lines of a text, without their ends; the last one counts without an LF only at the end of the file.\<close>

definition text_lines :: "src_end \<Rightarrow> string \<Rightarrow> string list" where
  "text_lines e s = (let ps = split LF s in map (\<lambda>p. trim_suffix p [CR]) (if e = SrcEOF \<and> last ps \<noteq> [] then ps else butlast ps))"

definition acceptable :: "nat \<Rightarrow> string \<Rightarrow> bool" where
  "acceptable m l \<longleftrightarrow> l \<noteq> [] \<and> length l \<le> m \<and> char_of (0::nat) \<notin> set l \<and> utf8_valid l"

definition kept_lines :: "nat \<Rightarrow> src_end \<Rightarrow> string \<Rightarrow> string list" where
  "kept_lines m e s = filter (acceptable m) (text_lines e s)"

lemma text_lines_cases:
  assumes "first_line s = (raw, t, rest)"
  shows "text_lines e s = (if t then trim_eol raw # text_lines e rest else if e = SrcEOF \<and> s \<noteq> [] then [trim_eol raw] else [])"
proof (cases "LF \<in> set s")
  case False
  then have "\<not> has_suffix s [LF]" by (auto simp: has_suffix_iff)
  then show ?thesis using assms False by (simp add: first_line_none text_lines_def split_none trim_eol_def trim_suffix_id Let_def)
next
  case True
  then obtain a b where s: "s = a @ LF # b" "LF \<notin> set a" by (meson split_list_first)
  then have "raw = a @ [LF]" "t" "rest = b" using assms by (auto simp: first_line_some)
  then show ?thesis using s by (simp add: text_lines_def split_append trim_eol_def trim_suffix_append Let_def)
qed

lemma first_line_parts:
  "first_line s = (raw, t, rest) \<Longrightarrow> s = raw @ rest \<and> (t \<longrightarrow> raw \<noteq> []) \<and> (\<not> t \<longrightarrow> rest = [])"
  by (auto simp: first_line_def dest: index_byte_Some split: option.splits)

lemma trim_eol_length: "length s \<le> length (trim_eol s) + 2"
  using trim_suffix_length [of s "[LF]"] trim_suffix_length [of "trim_suffix s [LF]" "[CR]"] by (simp add: trim_eol_def)

text \<open>What \<open>Next\<close> says about the lines that are left.\<close>

fun next_ok :: "nat \<Rightarrow> src_end \<Rightarrow> string \<Rightarrow> line_result \<Rightarrow> string \<Rightarrow> bool" where
  "next_ok m e s (Line l) s' = (kept_lines m e s = l # kept_lines m e s' \<and> length s' < length s)"
| "next_ok m e s LineTooLong s' = (kept_lines m e s = kept_lines m e s' \<and> length s' < length s)"
| "next_ok m e s BadLine s' = (kept_lines m e s = kept_lines m e s' \<and> length s' < length s)"
| "next_ok m e s LineEOF s' = (kept_lines m e s = [] \<and> e = SrcEOF)"
| "next_ok m e s LineFails s' = (kept_lines m e s = [] \<and> e = SrcFails)"

lemma next_ok_skip:
  assumes "next_ok m e s' r s2" "kept_lines m e s = kept_lines m e s'" "length s' < length s"
  shows "next_ok m e s r s2"
  using assms by (cases r) auto

lemma next_line_step:
  assumes "first_line s = (raw, t, rest)"
  shows "next_line m e blank s =
    (if \<not> t \<and> e = SrcFails then (LineFails, rest)
     else if \<not> t \<and> raw = [] then (LineEOF, rest)
     else if length (trim_eol raw) > m then (LineTooLong, rest)
     else if trim_eol raw = [] then (if blank + 1 > m then (BadLine, rest) else next_line m e (blank + 1) rest)
     else if char_of (0::nat) \<in> set (trim_eol raw) \<or> \<not> utf8_valid (trim_eol raw) then (BadLine, rest)
     else (Line (trim_eol raw), rest))"
  using read_line_spec [OF assms, of False "[]" m] trim_eol_length [of raw] by (subst next_line.simps) auto

lemma next_line_ok: "next_line m e blank s = (r, s2) \<Longrightarrow> next_ok m e s r s2"
proof (induction "length s" arbitrary: s blank rule: less_induct)
  case less
  obtain raw t rest where f: "first_line s = (raw, t, rest)" by (cases "first_line s") auto
  note parts = first_line_parts [OF f] and tl = text_lines_cases [OF f, of e]
  note step = less.prems [unfolded next_line_step [OF f]]
  have empty: "text_lines e [] = []" by (simp add: text_lines_def)
  show ?case
  proof (cases "\<not> t \<and> (e = SrcFails \<or> raw = [])")
    case True
    then have "r = (if e = SrcFails then LineFails else LineEOF)" using step by (auto split: if_splits)
    moreover have "kept_lines m e s = []" using tl True parts by (auto simp: kept_lines_def)
    ultimately show ?thesis by (cases e) auto
  next
    case False
    then have ne: "raw \<noteq> []" "t \<or> e = SrcEOF" using parts by (auto intro: src_end.exhaust)
    then have short: "length rest < length s" using parts by auto
    have tl': "text_lines e s = trim_eol raw # text_lines e rest"
      using tl ne parts empty by auto
    show ?thesis
    proof (cases "trim_eol raw = [] \<and> blank + 1 \<le> m")
      case True
      then have "next_line m e (blank + 1) rest = (r, s2)" using step False by (auto split: if_splits)
      from less.hyps [OF short this] have "next_ok m e rest r s2" .
      moreover have "kept_lines m e s = kept_lines m e rest" using tl' True by (simp add: kept_lines_def acceptable_def)
      ultimately show ?thesis using next_ok_skip short by blast
    next
      case skip: False
      have "s2 = rest" "r = (if length (trim_eol raw) > m then LineTooLong else if acceptable m (trim_eol raw) then Line (trim_eol raw) else BadLine)"
        using step False skip by (auto simp: acceptable_def split: if_splits)
      then show ?thesis using tl' short by (auto simp: kept_lines_def acceptable_def)
    qed
  qed
qed

section \<open>The output of an agent on its standard output\<close>

text \<open>\<open>Session.ReadOutput\<close>: the loop until the end of the source, with the number of rounds it may take. \<open>OnLine\<close> is that of the
  conversation; its error is dropped.\<close>

fun ReadOutput :: "nat \<Rightarrow> 's agent_stream \<Rightarrow> chat_lib \<Rightarrow> chat_env \<Rightarrow> line_reader \<Rightarrow> 's conv \<Rightarrow> 's conv option" where
  "ReadOutput 0 S lib E l c = None"
| "ReadOutput (Suc n) S lib E l c =
     (case Line_Next l of
        (Line x, l') \<Rightarrow> ReadOutput n S lib E l' (snd (OnLine S lib E x c))
      | (LineTooLong, l') \<Rightarrow> ReadOutput n S lib E l' c
      | (BadLine, l') \<Rightarrow> ReadOutput n S lib E l' c
      | (LineEOF, l') \<Rightarrow> Some c
      | (LineFails, l') \<Rightarrow> Some c)"

lemma run_conv_lines: "run_conv S lib E (CLine x # ks) c = run_conv S lib E ks (snd (OnLine S lib E x c))"
  by (simp add: run_conv_def)

lemma run_conv_Nil: "run_conv S lib E [] c = c"
  by (simp add: run_conv_def)

lemma ReadOutput_kept:
  "length (lr_src l) < n \<Longrightarrow> ReadOutput n S lib E l c = Some (run_conv S lib E (map CLine (kept_lines (lr_max l) (lr_end l) (lr_src l))) c)"
proof (induction n S lib E l c rule: ReadOutput.induct)
  case (2 n S lib E l c)
  obtain r s2 where r: "next_line (lr_max l) (lr_end l) 0 (lr_src l) = (r, s2)" by force
  note ok = next_line_ok [OF r]
  have n: "Line_Next l = (r, l\<lparr>lr_src := s2\<rparr>)" using r by (simp add: Line_Next_def)
  show ?case
  proof (cases r)
    case (Line x)
    then show ?thesis using 2(1) [OF n [symmetric] Line] 2(4) ok n by (simp add: run_conv_lines)
  next
    case LineTooLong
    then show ?thesis using 2(2) [OF n [symmetric] LineTooLong] 2(4) ok n by simp
  next
    case BadLine
    then show ?thesis using 2(3) [OF n [symmetric] BadLine] 2(4) ok n by simp
  next
    case LineEOF
    have "kept_lines (lr_max l) (lr_end l) (lr_src l) = []" using ok [unfolded LineEOF next_ok.simps] by blast
    then show ?thesis using n LineEOF by (simp add: run_conv_Nil)
  next
    case LineFails
    have "kept_lines (lr_max l) (lr_end l) (lr_src l) = []" using ok [unfolded LineFails next_ok.simps] by blast
    then show ?thesis using n LineFails by (simp add: run_conv_Nil)
  qed
qed simp

section \<open>Server-sent events\<close>

text \<open>\<open>SSEReader.Next\<close>: the lines without \<open>data:\<close> are skipped.\<close>

definition data_body :: "string \<Rightarrow> string option" where
  "data_body line = map_option (\<lambda>b. trim_prefix b '' '') (cut_prefix line ''data:'')"

function sse_next :: "line_reader \<Rightarrow> line_result \<times> line_reader" where
  "sse_next l =
     (case Line_Next l of
        (Line x, l') \<Rightarrow> (case data_body x of None \<Rightarrow> sse_next l' | Some b \<Rightarrow> (Line b, l'))
      | (r, l') \<Rightarrow> (r, l'))"
  by pat_completeness auto

lemma Line_Next_shorter:
  assumes "Line_Next l = (Line x, l')"
  shows "length (lr_src l') < length (lr_src l)"
proof -
  obtain s2 where "next_line (lr_max l) (lr_end l) 0 (lr_src l) = (Line x, s2)" "l' = l\<lparr>lr_src := s2\<rparr>"
    using assms by (auto simp: Line_Next_def split: prod.splits)
  then show ?thesis using next_line_ok by fastforce
qed

termination sse_next by (relation "measure (\<lambda>l. length (lr_src l))") (auto dest: Line_Next_shorter [OF sym])

declare sse_next.simps [simp del]

text \<open>What \<open>json.Unmarshal\<close> reads of an event: its type, the session and the raw value of the parent (empty if there is none).\<close>

record sse_frame =
  sf_type :: string
  sf_session :: string
  sf_parent :: string

definition validID :: "string \<Rightarrow> bool" where
  "validID s \<longleftrightarrow> s \<noteq> [] \<and> length s \<le> 128 \<and> (\<forall>c\<in>set s. is_lower c \<or> is_upper c \<or> is_digit c \<or> c = CHR ''_'' \<or> c = CHR ''-'')"

definition ValidSessionID :: "string \<Rightarrow> bool" where
  "ValidSessionID s = validID s"

definition parentlessSessionCreated :: "(string \<Rightarrow> sse_frame option) \<Rightarrow> string \<Rightarrow> string option" where
  "parentlessSessionCreated J d =
     (case J d of
        None \<Rightarrow> None
      | Some f \<Rightarrow>
          if sf_type f \<noteq> ''session.created'' then None
          else if trim_space (sf_parent f) \<noteq> [] \<and> trim_space (sf_parent f) \<noteq> [CHR 0x22, CHR 0x22] then None
          else if \<not> ValidSessionID (sf_session f) then None
          else Some (sf_session f))"

text \<open>\<open>Session.ReadSSE\<close>: how the loop ends, whether \<open>onRoot\<close> was called, and the conversation.\<close>

datatype sse_end = SSEEnds | ErrRootMismatch

fun ReadSSE ::
  "nat \<Rightarrow> (string \<Rightarrow> sse_frame option) \<Rightarrow> 's agent_stream \<Rightarrow> chat_lib \<Rightarrow> chat_env \<Rightarrow> string \<Rightarrow> bool \<Rightarrow> line_reader \<Rightarrow> 's conv \<Rightarrow>
   (sse_end \<times> bool \<times> 's conv) option" where
  "ReadSSE 0 J S lib E want rooted l c = None"
| "ReadSSE (Suc n) J S lib E want rooted l c =
     (case sse_next l of
        (Line d, l') \<Rightarrow>
          if rooted then ReadSSE n J S lib E want rooted l' (snd (OnLine S lib E d c))
          else (case parentlessSessionCreated J d of
            None \<Rightarrow> ReadSSE n J S lib E want rooted l' c
          | Some i \<Rightarrow> if i \<noteq> want then Some (ErrRootMismatch, rooted, c) else ReadSSE n J S lib E want True l' (snd (OnLine S lib E d c)))
      | (LineTooLong, l') \<Rightarrow> ReadSSE n J S lib E want rooted l' c
      | (BadLine, l') \<Rightarrow> ReadSSE n J S lib E want rooted l' c
      | (LineEOF, l') \<Rightarrow> Some (SSEEnds, rooted, c)
      | (LineFails, l') \<Rightarrow> Some (SSEEnds, rooted, c))"

text \<open>The bodies of the events of a source.\<close>

definition bodies :: "line_reader \<Rightarrow> string list" where
  "bodies l = List.map_filter data_body (kept_lines (lr_max l) (lr_end l) (lr_src l))"

fun sse_ok :: "line_reader \<Rightarrow> line_result \<Rightarrow> line_reader \<Rightarrow> bool" where
  "sse_ok l (Line d) l' = (bodies l = d # bodies l' \<and> length (lr_src l') < length (lr_src l))"
| "sse_ok l LineEOF l' = (bodies l = [])"
| "sse_ok l LineFails l' = (bodies l = [])"
| "sse_ok l _ l' = (bodies l = bodies l' \<and> length (lr_src l') < length (lr_src l))"

lemma sse_next_ok: "sse_next l = (r, l') \<Longrightarrow> sse_ok l r l'"
proof (induction l arbitrary: r rule: sse_next.induct)
  case (1 l)
  obtain r1 s2 where r1: "next_line (lr_max l) (lr_end l) 0 (lr_src l) = (r1, s2)" by force
  let ?l = "l\<lparr>lr_src := s2\<rparr>"
  note ok = next_line_ok [OF r1]
  have n: "Line_Next l = (r1, ?l)" using r1 by (simp add: Line_Next_def)
  show ?case
  proof (cases "\<exists>x. r1 = Line x \<and> data_body x = None")
    case True
    then obtain x where x: "r1 = Line x" "data_body x = None" by blast
    have "sse_next ?l = (r, l')" using 1(2) n x by (subst (asm) sse_next.simps) simp
    from 1(1) [OF n [symmetric] x this] have "sse_ok ?l r l'" .
    moreover have "bodies l = bodies ?l" "length s2 < length (lr_src l)" using ok x by (simp_all add: bodies_def map_filter_simps)
    ultimately show ?thesis by (cases r) auto
  next
    case False
    then show ?thesis using 1(2) n ok
      by (cases r1; subst (asm) sse_next.simps) (auto simp: bodies_def map_filter_simps split: option.splits)
  qed
qed

text \<open>How the loop ends, and the bodies that reach the conversation.\<close>

definition from_root :: "(string \<Rightarrow> sse_frame option) \<Rightarrow> string \<Rightarrow> string list \<Rightarrow> sse_end \<times> string list" where
  "from_root J want ds =
     (case dropWhile (\<lambda>d. parentlessSessionCreated J d = None) ds of
        [] \<Rightarrow> (SSEEnds, [])
      | d # ds' \<Rightarrow> if parentlessSessionCreated J d = Some want then (SSEEnds, d # ds') else (ErrRootMismatch, []))"

lemma from_root_simps:
  "from_root J want [] = (SSEEnds, [])"
  "parentlessSessionCreated J d = None \<Longrightarrow> from_root J want (d # ds) = from_root J want ds"
  "parentlessSessionCreated J d = Some i \<Longrightarrow> from_root J want (d # ds) = (if i = want then (SSEEnds, d # ds) else (ErrRootMismatch, []))"
  by (simp_all add: from_root_def)

definition sse_result :: "(string \<Rightarrow> sse_frame option) \<Rightarrow> string \<Rightarrow> bool \<Rightarrow> string list \<Rightarrow> sse_end \<times> string list" where
  "sse_result J want rooted ds = (if rooted then (SSEEnds, ds) else from_root J want ds)"

lemma ReadSSE_bodies:
  assumes "length (lr_src l) < n" "sse_result J want rooted (bodies l) = (e, ds)"
  shows "ReadSSE n J S lib E want rooted l c = Some (e, rooted \<or> ds \<noteq> [], run_conv S lib E (map CLine ds) c)"
  using assms
proof (induction n J S lib E want rooted l c arbitrary: ds rule: ReadSSE.induct)
  case (2 n J S lib E want rooted l c)
  obtain r l' where n: "sse_next l = (r, l')" by force
  note ok = sse_next_ok [OF n]
  show ?case
  proof (cases r)
    case (Line d)
    have b: "bodies l = d # bodies l'" "length (lr_src l') < n" using ok Line 2(6) by auto
    show ?thesis
    proof (cases rooted)
      case True
      then have "ds = d # bodies l'" "e = SSEEnds" using 2(7) b(1) by (simp_all add: sse_result_def)
      then show ?thesis using 2(1) [OF n [symmetric] Line True b(2), of "bodies l'"] n Line True by (simp add: run_conv_lines sse_result_def)
    next
      case F: False
      show ?thesis
      proof (cases "parentlessSessionCreated J d")
        case None
        then show ?thesis using 2(2) [OF n [symmetric] Line F None b(2)] 2(7) n Line b(1) F by (simp add: sse_result_def from_root_simps)
      next
        case (Some i)
        show ?thesis
        proof (cases "i = want")
          case True
          then have "ds = d # bodies l'" "e = SSEEnds" using 2(7) b(1) F Some by (simp_all add: sse_result_def from_root_simps)
          then show ?thesis using 2(3) [OF n [symmetric] Line F Some _ b(2), of "bodies l'"] n Line F Some True
            by (simp add: run_conv_lines sse_result_def)
        qed (use 2(7) b(1) n Line F Some in \<open>simp add: sse_result_def from_root_simps run_conv_Nil\<close>)
      qed
    qed
  next
    case LineTooLong
    then show ?thesis using 2(4) [OF n [symmetric] LineTooLong, of ds] n ok 2(6,7) by simp
  next
    case BadLine
    then show ?thesis using 2(5) [OF n [symmetric] BadLine, of ds] n ok 2(6,7) by simp
  qed (use n ok 2(7) in \<open>simp_all add: sse_result_def from_root_simps run_conv_Nil split: if_splits\<close>)
qed simp

section \<open>Requests to an agent behind HTTP\<close>

definition MaxHTTPRequest :: nat where "MaxHTTPRequest = 1024 * 1024"

record http_request =
  hr_Method :: string
  hr_Path :: string
  hr_Body :: "string option"

text \<open>What the strict decoder reads of a line: method, path and raw body (empty if there is none), and whether the line ends there.\<close>

record http_json =
  hj_decode :: "string \<Rightarrow> (string \<times> string \<times> string) option"
  hj_at_end :: "string \<Rightarrow> bool"

datatype http_err = HTooLarge | HUnreadable | HTrailing | HNotAllowed | HBodyNotObject | HBodyMismatch

definition allowedRoute :: "string \<Rightarrow> string \<Rightarrow> bool" where
  "allowedRoute m path =
     (case cut_prefix path ''/api/session/'' of
        None \<Rightarrow> False
      | Some rest \<Rightarrow>
          (case split (CHR ''/'') rest of
             [] \<Rightarrow> False
           | sid # seg \<Rightarrow> validID sid \<and>
               (case seg of
                  [w] \<Rightarrow> (w = ''prompt'' \<or> w = ''interrupt'') \<and> m = ''POST''
                | [w, i, t] \<Rightarrow> (w = ''permission'' \<or> w = ''form'') \<and> t = ''reply'' \<and> m = ''POST'' \<and> validID i
                | [w, i] \<Rightarrow> w = ''form'' \<and> m = ''DELETE'' \<and> validID i
                | _ \<Rightarrow> False)))"

definition ParseHTTPRequest :: "http_json \<Rightarrow> string \<Rightarrow> http_err + http_request" where
  "ParseHTTPRequest J line =
     (if length line > MaxHTTPRequest then Inl HTooLarge
      else (case hj_decode J line of
        None \<Rightarrow> Inl HUnreadable
      | Some (m, path, raw) \<Rightarrow>
          if \<not> hj_at_end J line then Inl HTrailing
          else if \<not> allowedRoute m path then Inl HNotAllowed
          else let body = trim_space raw; hasBody = body \<noteq> [] \<and> body \<noteq> ''null'' in
            if hasBody \<and> hd body \<noteq> CHR ''{'' then Inl HBodyNotObject
            else if hasBody \<noteq> (has_suffix path ''/prompt'' \<or> has_suffix path ''/reply'') then Inl HBodyMismatch
            else Inr \<lparr>hr_Method = m, hr_Path = path, hr_Body = (if hasBody then Some body else None)\<rparr>))"

text \<open>The five requests there are. Whether a request has a body is decided by the end of its path: the cancellation of a form whose
  number is \<open>prompt\<close> or \<open>reply\<close> needs one, too.\<close>

datatype agent_call = Prompt string | Interrupt string | PermissionReply string string | FormReply string string | FormCancel string string

fun wf_agent_call :: "agent_call \<Rightarrow> bool" where
  "wf_agent_call (Prompt s) = validID s"
| "wf_agent_call (Interrupt s) = validID s"
| "wf_agent_call (PermissionReply s i) \<longleftrightarrow> validID s \<and> validID i"
| "wf_agent_call (FormReply s i) \<longleftrightarrow> validID s \<and> validID i"
| "wf_agent_call (FormCancel s i) \<longleftrightarrow> validID s \<and> validID i"

fun call_method :: "agent_call \<Rightarrow> string" where
  "call_method (FormCancel s i) = ''DELETE''"
| "call_method _ = ''POST''"

fun call_segments :: "agent_call \<Rightarrow> string list" where
  "call_segments (Prompt s) = [s, ''prompt'']"
| "call_segments (Interrupt s) = [s, ''interrupt'']"
| "call_segments (PermissionReply s i) = [s, ''permission'', i, ''reply'']"
| "call_segments (FormReply s i) = [s, ''form'', i, ''reply'']"
| "call_segments (FormCancel s i) = [s, ''form'', i]"

definition call_path :: "agent_call \<Rightarrow> string" where
  "call_path k = ''/api/session/'' @ join ''/'' (call_segments k)"

fun call_body :: "agent_call \<Rightarrow> bool" where
  "call_body (Prompt s) = True"
| "call_body (PermissionReply s i) = True"
| "call_body (FormReply s i) = True"
| "call_body (Interrupt s) = False"
| "call_body (FormCancel s i) \<longleftrightarrow> i = ''prompt'' \<or> i = ''reply''"

lemma validID_no_slash: "validID s \<Longrightarrow> CHR ''/'' \<notin> set s"
  by (auto simp: validID_def byte_class_defs)

lemma call_segments_ok: "wf_agent_call k \<Longrightarrow> call_segments k \<noteq> [] \<and> (\<forall>p\<in>set (call_segments k). CHR ''/'' \<notin> set p)"
  by (cases k) (auto dest: validID_no_slash)

lemma allowedRoute_iff: "allowedRoute m path \<longleftrightarrow> (\<exists>k. wf_agent_call k \<and> m = call_method k \<and> path = call_path k)"
proof
  assume "allowedRoute m path"
  then obtain rest where r: "path = ''/api/session/'' @ rest" and
    seg: "case split (CHR ''/'') rest of [] \<Rightarrow> False | sid # seg \<Rightarrow> validID sid \<and>
               (case seg of
                  [w] \<Rightarrow> (w = ''prompt'' \<or> w = ''interrupt'') \<and> m = ''POST''
                | [w, i, t] \<Rightarrow> (w = ''permission'' \<or> w = ''form'') \<and> t = ''reply'' \<and> m = ''POST'' \<and> validID i
                | [w, i] \<Rightarrow> w = ''form'' \<and> m = ''DELETE'' \<and> validID i
                | _ \<Rightarrow> False)"
    by (auto simp: allowedRoute_def split: option.splits)
  have "\<exists>k. wf_agent_call k \<and> m = call_method k \<and> split (CHR ''/'') rest = call_segments k"
  proof -
    obtain sid sg where s: "split (CHR ''/'') rest = sid # sg" "validID sid" using seg by (auto split: list.splits)
    consider (a) w where "sg = [w]" "w = ''prompt'' \<or> w = ''interrupt''" "m = ''POST''"
      | (b) w i where "sg = [w, i, ''reply'']" "w = ''permission'' \<or> w = ''form''" "m = ''POST''" "validID i"
      | (c) i where "sg = [''form'', i]" "m = ''DELETE''" "validID i"
      using seg s by (auto split: list.splits)
    then show ?thesis
    proof cases
      case a
      then show ?thesis using s by (auto intro: exI [of _ "Prompt sid"] exI [of _ "Interrupt sid"])
    next
      case b
      then show ?thesis using s by (auto intro: exI [of _ "PermissionReply sid i"] exI [of _ "FormReply sid i"])
    next
      case c
      then show ?thesis using s by (auto intro: exI [of _ "FormCancel sid i"])
    qed
  qed
  then show "\<exists>k. wf_agent_call k \<and> m = call_method k \<and> path = call_path k"
    unfolding r call_path_def by (metis join_split)
next
  assume "\<exists>k. wf_agent_call k \<and> m = call_method k \<and> path = call_path k"
  then obtain k where k: "wf_agent_call k" "m = call_method k" "path = call_path k" by blast
  then have sp: "split (CHR ''/'') (join ''/'' (call_segments k)) = call_segments k"
    using call_segments_ok [OF k(1)] by (intro split_join) auto
  have cp: "cut_prefix path ''/api/session/'' = Some (join ''/'' (call_segments k))" unfolding k(3) call_path_def by (rule cut_append(1))
  show "allowedRoute m path" unfolding allowedRoute_def cp option.case sp using k(1,2) by (cases k) auto
qed

lemma suffix_segment:
  assumes "CHR ''/'' \<notin> set i" "CHR ''/'' \<notin> set w"
  shows "has_suffix (p @ CHR ''/'' # i) (CHR ''/'' # w) \<longleftrightarrow> i = w"
proof
  assume "has_suffix (p @ CHR ''/'' # i) (CHR ''/'' # w)"
  then obtain r where "p @ CHR ''/'' # i = r @ CHR ''/'' # w" by (auto simp: has_suffix_iff)
  then have "rev i @ CHR ''/'' # rev p = rev w @ CHR ''/'' # rev r" by (metis append.assoc append_Cons append_Nil rev.simps(2) rev_append)
  then show "i = w" using append_sep_inject [of "CHR ''/''" "rev i" "rev w" "rev p" "rev r"] assms by simp
qed (simp add: has_suffix_iff)

lemma call_path_body:
  assumes "wf_agent_call k"
  shows "has_suffix (call_path k) ''/prompt'' \<or> has_suffix (call_path k) ''/reply'' \<longleftrightarrow> call_body k"
proof -
  let ?p = "''/api/session/'' @ join ''/'' (butlast (call_segments k))" and ?w = "last (call_segments k)"
  have w: "call_path k = ?p @ CHR ''/'' # ?w" by (cases k) (simp_all add: call_path_def)
  have "CHR ''/'' \<notin> set ?w" using assms by (cases k) (simp_all add: validID_no_slash)
  then show ?thesis unfolding w using suffix_segment [of ?w "''prompt''" ?p] suffix_segment [of ?w "''reply''" ?p]
    by (cases k) (simp_all del: append_assoc append.assoc)
qed

text \<open>What is accepted, and what it becomes.\<close>

definition http_accepts :: "http_json \<Rightarrow> string \<Rightarrow> agent_call \<Rightarrow> string option \<Rightarrow> bool" where
  "http_accepts J line k body \<longleftrightarrow> length line \<le> MaxHTTPRequest \<and> wf_agent_call k \<and> hj_at_end J line \<and>
     (\<exists>raw. hj_decode J line = Some (call_method k, call_path k, raw) \<and>
        (if call_body k then body = Some (trim_space raw) \<and> (\<exists>t. trim_space raw = CHR ''{'' # t)
         else body = None \<and> trim_space raw \<in> {[], ''null''}))"

lemma ParseHTTPRequest_iff:
  "ParseHTTPRequest J line = Inr r \<longleftrightarrow>
    (\<exists>k body. http_accepts J line k body \<and> r = \<lparr>hr_Method = call_method k, hr_Path = call_path k, hr_Body = body\<rparr>)"
proof
  assume "ParseHTTPRequest J line = Inr r"
  then obtain m path raw where p: "length line \<le> MaxHTTPRequest" "hj_decode J line = Some (m, path, raw)" "hj_at_end J line" "allowedRoute m path"
    and b: "let body = trim_space raw; hasBody = body \<noteq> [] \<and> body \<noteq> ''null'' in
       \<not> (hasBody \<and> hd body \<noteq> CHR ''{'') \<and> hasBody = (has_suffix path ''/prompt'' \<or> has_suffix path ''/reply'') \<and>
       r = \<lparr>hr_Method = m, hr_Path = path, hr_Body = (if hasBody then Some body else None)\<rparr>"
    unfolding ParseHTTPRequest_def Let_def by (auto split: if_splits option.splits prod.splits)
  from p(4) obtain k where k: "wf_agent_call k" "m = call_method k" "path = call_path k" by (auto simp: allowedRoute_iff)
  have "http_accepts J line k (hr_Body r)"
    using p k b call_path_body [OF k(1)] by (cases "trim_space raw") (auto simp: http_accepts_def Let_def)
  then show "\<exists>k body. http_accepts J line k body \<and> r = \<lparr>hr_Method = call_method k, hr_Path = call_path k, hr_Body = body\<rparr>"
    using b k by (auto simp: Let_def)
next
  assume "\<exists>k body. http_accepts J line k body \<and> r = \<lparr>hr_Method = call_method k, hr_Path = call_path k, hr_Body = body\<rparr>"
  then obtain k body where k: "http_accepts J line k body" "r = \<lparr>hr_Method = call_method k, hr_Path = call_path k, hr_Body = body\<rparr>" by blast
  then have "allowedRoute (call_method k) (call_path k)" "wf_agent_call k" by (auto simp: allowedRoute_iff http_accepts_def)
  then show "ParseHTTPRequest J line = Inr r"
    using k call_path_body [of k] by (auto simp: ParseHTTPRequest_def http_accepts_def Let_def split: if_splits)
qed

section \<open>The queue to the agent\<close>

definition DefaultQueueLines :: int where "DefaultQueueLines = 256"
definition DefaultQueueBytes :: int where "DefaultQueueBytes = 4 * 1024 * 1024"

datatype queue_err = ErrQueueFull | ErrQueueClosed | ErrQueueWrite

text \<open>Where the goroutine \<open>drain\<close> is: at the head of its loop, in \<open>Write\<close> with a line, and returned. The lines that were accepted and
  those that \<open>Write\<close> has taken are histories, and so is whether lines were thrown away.\<close>

datatype drain_pc = DrainIdle | DrainWriting string | DrainDone

record queued_writer =
  qw_maxLines :: int
  qw_maxBytes :: int
  qw_lines :: "string list"
  qw_bytes :: int
  qw_closed :: bool
  qw_err :: bool
  qw_pc :: drain_pc
  qw_accepted :: "string list"
  qw_out :: "string list"
  qw_lost :: bool

definition NewQueuedWriter :: "int \<Rightarrow> int \<Rightarrow> queued_writer" where
  "NewQueuedWriter maxLines maxBytes =
     \<lparr>qw_maxLines = or_default maxLines DefaultQueueLines, qw_maxBytes = or_default maxBytes DefaultQueueBytes, qw_lines = [], qw_bytes = 0,
      qw_closed = False, qw_err = False, qw_pc = DrainIdle, qw_accepted = [], qw_out = [], qw_lost = False\<rparr>"

definition WriteLine :: "string \<Rightarrow> queued_writer \<Rightarrow> queue_err option \<times> queued_writer" where
  "WriteLine line q =
     (if qw_closed q then (Some (if qw_err q then ErrQueueWrite else ErrQueueClosed), q)
      else if int (length (qw_lines q)) \<ge> qw_maxLines q \<or> qw_bytes q + int (length line) > qw_maxBytes q then (Some ErrQueueFull, q)
      else (None, q\<lparr>qw_lines := qw_lines q @ [line], qw_bytes := qw_bytes q + int (length line), qw_accepted := qw_accepted q @ [line]\<rparr>))"

definition Queue_Close :: "queued_writer \<Rightarrow> queued_writer" where
  "Queue_Close q = q\<lparr>qw_closed := True\<rparr>"

definition Discard :: "queued_writer \<Rightarrow> queued_writer" where
  "Discard q = q\<lparr>qw_closed := True, qw_lines := [], qw_bytes := 0, qw_lost := True\<rparr>"

text \<open>The steps of \<open>drain\<close>: taking a line, returning, and the two ways \<open>Write\<close> can end.\<close>

inductive drain_step :: "queued_writer \<Rightarrow> queued_writer \<Rightarrow> bool" where
  drain_take: "\<lbrakk>qw_pc q = DrainIdle; qw_lines q = l # ls\<rbrakk> \<Longrightarrow>
    drain_step q (q\<lparr>qw_pc := DrainWriting l, qw_lines := ls, qw_bytes := qw_bytes q - int (length l)\<rparr>)"
| drain_end: "\<lbrakk>qw_pc q = DrainIdle; qw_lines q = []; qw_closed q\<rbrakk> \<Longrightarrow> drain_step q (q\<lparr>qw_pc := DrainDone\<rparr>)"
| drain_wrote: "qw_pc q = DrainWriting l \<Longrightarrow> drain_step q (q\<lparr>qw_pc := DrainIdle, qw_out := qw_out q @ [l]\<rparr>)"
| drain_failed: "qw_pc q = DrainWriting l \<Longrightarrow>
    drain_step q (q\<lparr>qw_pc := DrainDone, qw_closed := True, qw_err := True, qw_lines := [], qw_bytes := 0, qw_lost := True\<rparr>)"

inductive_cases drain_stepE: "drain_step q q'"

inductive queue_step :: "queued_writer \<Rightarrow> queued_writer \<Rightarrow> bool" where
  queue_write: "WriteLine l q = (e, q') \<Longrightarrow> queue_step q q'"
| queue_close: "queue_step q (Queue_Close q)"
| queue_discard: "queue_step q (Discard q)"
| queue_drain: "drain_step q q' \<Longrightarrow> queue_step q q'"

inductive queue_reachable :: "queued_writer \<Rightarrow> queued_writer \<Rightarrow> bool" for q0 where
  queue_start: "queue_reachable q0 q0"
| queue_next: "queue_reachable q0 q \<Longrightarrow> queue_step q q' \<Longrightarrow> queue_reachable q0 q'"

fun in_hand :: "drain_pc \<Rightarrow> string list" where
  "in_hand (DrainWriting l) = [l]"
| "in_hand _ = []"

text \<open>The abstract queue: what was accepted is what was written, what is being written, and what waits, unless lines were thrown away.\<close>

definition queue_inv :: "queued_writer \<Rightarrow> bool" where
  "queue_inv q \<longleftrightarrow> qw_bytes q = int (sum_list (map length (qw_lines q))) \<and> int (length (qw_lines q)) \<le> qw_maxLines q \<and> qw_bytes q \<le> qw_maxBytes q \<and>
     (\<exists>rest. qw_accepted q = qw_out q @ rest \<and> (qw_lost q \<longrightarrow> qw_closed q \<and> qw_lines q = []) \<and>
        (\<not> qw_lost q \<longrightarrow> rest = in_hand (qw_pc q) @ qw_lines q) \<and> (\<exists>more. rest = in_hand (qw_pc q) @ more)) \<and>
     (qw_pc q = DrainDone \<longrightarrow> qw_closed q \<and> qw_lines q = []) \<and> (qw_err q \<longrightarrow> qw_closed q)"

lemma queue_inv_New: "queue_inv (NewQueuedWriter m b)"
  by (simp add: queue_inv_def NewQueuedWriter_def or_default_def DefaultQueueLines_def DefaultQueueBytes_def)

lemma queue_inv_write: "queue_inv q \<Longrightarrow> WriteLine l q = (e, q') \<Longrightarrow> queue_inv q'"
  by (auto simp: queue_inv_def WriteLine_def split: if_splits)

lemma queue_inv_close: "queue_inv q \<Longrightarrow> queue_inv (Queue_Close q)"
  by (auto simp: queue_inv_def Queue_Close_def)

lemma queue_inv_discard: "queue_inv q \<Longrightarrow> queue_inv (Discard q)"
  by (auto simp: queue_inv_def Discard_def)

lemma queue_inv_drain: "drain_step q q' \<Longrightarrow> queue_inv q \<Longrightarrow> queue_inv q'"
  by (induction rule: drain_step.induct) (auto simp: queue_inv_def)

lemma queue_inv_step: "queue_step q q' \<Longrightarrow> queue_inv q \<Longrightarrow> queue_inv q'"
  by (induction rule: queue_step.induct) (auto intro: queue_inv_write queue_inv_close queue_inv_discard queue_inv_drain)

lemma queue_inv_reachable: "queue_reachable q0 q \<Longrightarrow> queue_inv q0 \<Longrightarrow> queue_inv q"
  by (induction rule: queue_reachable.induct) (auto intro: queue_inv_step)

section \<open>How an agent is started\<close>

datatype transport = TransportStdio | TransportHTTP

text \<open>The adapter of a launch is the parameter \<open>agent_stream\<close> of the conversation.\<close>

record launch =
  la_name :: string
  la_args :: "string list"
  la_transport :: transport

definition Agent :: "string \<Rightarrow> launch option" where
  "Agent name =
     (if name = ''claude'' then Some \<lparr>la_name = name,
        la_args = [''-p'', ''--input-format'', ''stream-json'', ''--output-format'', ''stream-json'', ''--verbose'', ''--permission-prompt-tool'', ''stdio'',
          ''--permission-mode'', ''default'', ''--setting-sources'', ''user''], la_transport = TransportStdio\<rparr>
      else if name = ''opencode'' then Some \<lparr>la_name = name, la_args = [''serve'', ''--stdio'', ''--hostname'', ''127.0.0.1''], la_transport = TransportHTTP\<rparr>
      else None)"

section \<open>A session\<close>

text \<open>
  \<open>Session\<close> puts the conversation before the queue: the lines that the conversation has written are those the queue accepted, while
  the goroutine of the queue runs beside it. A \<open>WriteLine\<close> that fails is a failing write of the conversation. \<open>OnStop\<close> discards the
  queue, after the conversation has let go of its mutex. The calls are a history.
\<close>

record 's session =
  ss_conv :: "'s conv"
  ss_q :: queued_writer
  ss_stopping :: bool
  ss_calls :: "conv_call list"

definition NewSession :: "'s \<Rightarrow> string \<Rightarrow> hub \<Rightarrow> string \<Rightarrow> bool \<Rightarrow> 's session" where
  "NewSession st sid h generation requireHash =
     \<lparr>ss_conv = NewConversation st sid h generation requireHash, ss_q = NewQueuedWriter 0 0, ss_stopping = False, ss_calls = []\<rparr>"

inductive queue_writes :: "string list \<Rightarrow> queued_writer \<Rightarrow> queued_writer \<Rightarrow> bool" where
  writes_none: "queue_writes [] q q"
| writes_drain: "drain_step q q1 \<Longrightarrow> queue_writes ls q1 q2 \<Longrightarrow> queue_writes ls q q2"
| writes_line: "WriteLine l q = (None, q1) \<Longrightarrow> queue_writes ls q1 q2 \<Longrightarrow> queue_writes (l # ls) q q2"

inductive session_step :: "'s agent_stream \<Rightarrow> chat_lib \<Rightarrow> 's session \<Rightarrow> 's session \<Rightarrow> bool" for S lib where
  session_call: "\<lbrakk>do_conv S lib E k (ss_conv s) = (err, c'); queue_writes (map snd (drop (length (cv_written (ss_conv s))) (cv_written c'))) (ss_q s) q'\<rbrakk> \<Longrightarrow>
    session_step S lib s (s\<lparr>ss_conv := c', ss_q := q', ss_calls := ss_calls s @ [k],
      ss_stopping := ss_stopping s \<or> cv_stopOnce c' \<and> \<not> cv_stopOnce (ss_conv s)\<rparr>)"
| session_drain: "drain_step (ss_q s) q' \<Longrightarrow> session_step S lib s (s\<lparr>ss_q := q'\<rparr>)"
| session_stop: "ss_stopping s \<Longrightarrow> session_step S lib s (s\<lparr>ss_q := Discard (ss_q s), ss_stopping := False\<rparr>)"
| session_finish: "do_conv S lib E (CClose_conv x) (ss_conv s) = (err, c') \<Longrightarrow>
    session_step S lib s (s\<lparr>ss_conv := c', ss_q := Discard (ss_q s), ss_calls := ss_calls s @ [CClose_conv x]\<rparr>)"

inductive session_reachable :: "'s agent_stream \<Rightarrow> chat_lib \<Rightarrow> 's session \<Rightarrow> 's session \<Rightarrow> bool" for S lib s0 where
  session_start: "session_reachable S lib s0 s0"
| session_next: "session_reachable S lib s0 s \<Longrightarrow> session_step S lib s s' \<Longrightarrow> session_reachable S lib s0 s'"

lemma queue_accepts:
  "drain_step q q' \<Longrightarrow> qw_accepted q' = qw_accepted q"
  "WriteLine l q = (None, q') \<Longrightarrow> qw_accepted q' = qw_accepted q @ [l]"
  by (auto elim: drain_stepE simp: WriteLine_def split: if_splits)

definition same_limits :: "queued_writer \<Rightarrow> queued_writer \<Rightarrow> bool" where
  "same_limits q q' \<longleftrightarrow> qw_maxLines q' = qw_maxLines q \<and> qw_maxBytes q' = qw_maxBytes q"

lemma same_limits_simps [simp]: "same_limits q q" "same_limits q0 (Discard q) = same_limits q0 q"
  by (simp_all add: same_limits_def Discard_def)

lemma same_limits_step:
  "drain_step q q' \<Longrightarrow> same_limits q0 q' = same_limits q0 q"
  "WriteLine l q = (e, q') \<Longrightarrow> same_limits q0 q' = same_limits q0 q"
  by (auto elim: drain_stepE simp: WriteLine_def same_limits_def split: if_splits)

lemma queue_writes_spec:
  "queue_writes ls q q' \<Longrightarrow> queue_inv q \<Longrightarrow> queue_inv q' \<and> qw_accepted q' = qw_accepted q @ ls \<and> same_limits q0 q' = same_limits q0 q"
proof (induction rule: queue_writes.induct)
  case (writes_drain q q1 ls q2)
  then show ?case using queue_inv_drain queue_accepts(1) [OF writes_drain.hyps(1)] same_limits_step(1) [OF writes_drain.hyps(1)] by simp
next
  case (writes_line l q q1 ls q2)
  then show ?case using queue_inv_write queue_accepts(2) [OF writes_line.hyps(1)] same_limits_step(2) [OF writes_line.hyps(1)] by simp
qed simp

lemma do_conv_written:
  assumes "conv_inv lib c" "do_conv S lib E k c = (err, c')"
  shows "\<exists>ws. cv_written c' = cv_written c @ ws"
proof (cases k)
  case (CSend t)
  then show ?thesis using Send_spec [OF assms(1), of S E t err c'] assms(2) by (auto split: if_splits)
next
  case (CPermission g r)
  then have "ResolvePermissionIn S lib E g r c = (err, c')" using assms(2) by simp
  then show ?thesis
  proof (cases rule: Permission_cases)
    case (2 it)
    then show ?thesis using writeResolve_spec [OF 2(7) conv_inv_fields(1) [OF assms(1)]] by (auto split: if_splits)
  qed simp
next
  case (CForm g i r)
  then have "ResolveFormIn S lib E g i r c = (err, c')" using assms(2) by simp
  then show ?thesis
  proof (cases rule: Form_cases)
    case (2 it f)
    then show ?thesis using writeResolve_spec [OF 2(8) conv_inv_fields(1) [OF assms(1)]] by (auto split: if_splits)
  qed simp
next
  case (CLine l)
  then show ?thesis using OnLine_spec [OF assms(1), of S E l err c'] assms(2) by auto
next
  case CStop
  then show ?thesis using Stop_spec [OF assms(1), of E] assms(2) by auto
next
  case (CClose_conv x)
  then show ?thesis using Close_spec [OF assms(1), of E x] assms(2) by auto
qed

lemma allow_from_call:
  assumes "conv_inv lib c" "do_conv S lib E k c = (err, c')" "x \<in> set (drop (length (cv_written c)) (cv_written c'))"
    "cmd_Data (fst x) = PermissionAnswer rid AllowOnce"
  shows "\<exists>g r. k = CPermission g r \<and> ps_RequestID r = rid \<and> ps_Outcome r = AllowOnce"
proof (cases "\<exists>g r. k = CPermission g r")
  case True
  then show ?thesis using permission_writes [OF assms(1)] assms(2-4) by fastforce
next
  case False
  show ?thesis
  proof (cases "\<exists>g i r. k = CForm g i r")
    case True
    then show ?thesis using form_writes [OF assms(1)] assms(2-4) by fastforce
  next
    case False2: False
    then show ?thesis using other_writes [OF assms(1-3)] False assms(4) by (auto simp: AllowOnce_def RejectOnce_def)
  qed
qed

definition session_inv :: "chat_lib \<Rightarrow> 's session \<Rightarrow> bool" where
  "session_inv lib s \<longleftrightarrow> conv_inv lib (ss_conv s) \<and> queue_inv (ss_q s) \<and> same_limits (NewQueuedWriter 0 0) (ss_q s) \<and> qw_accepted (ss_q s) = map snd (cv_written (ss_conv s)) \<and>
     (\<forall>x\<in>set (cv_written (ss_conv s)). \<forall>rid. cmd_Data (fst x) = PermissionAnswer rid AllowOnce \<longrightarrow>
        (\<exists>g r. CPermission g r \<in> set (ss_calls s) \<and> ps_RequestID r = rid \<and> ps_Outcome r = AllowOnce))"

lemma session_inv_call:
  assumes "session_inv lib s" "do_conv S lib E k (ss_conv s) = (err, c')"
    "queue_inv q'" "same_limits (NewQueuedWriter 0 0) q'" "qw_accepted q' = qw_accepted (ss_q s) @ map snd (drop (length (cv_written (ss_conv s))) (cv_written c'))"
  shows "session_inv lib (s\<lparr>ss_conv := c', ss_q := q', ss_calls := ss_calls s @ [k], ss_stopping := b\<rparr>)"
proof -
  have inv: "conv_inv lib (ss_conv s)" using assms(1) by (simp add: session_inv_def)
  obtain ws where ws: "cv_written c' = cv_written (ss_conv s) @ ws" using do_conv_written [OF inv assms(2)] by blast
  have "\<exists>g r. CPermission g r \<in> set (ss_calls s @ [k]) \<and> ps_RequestID r = rid \<and> ps_Outcome r = AllowOnce"
    if x: "x \<in> set (cv_written c')" and m: "cmd_Data (fst x) = PermissionAnswer rid AllowOnce" for x rid
  proof (cases "x \<in> set (cv_written (ss_conv s))")
    case True
    then obtain g r where "CPermission g r \<in> set (ss_calls s)" "ps_RequestID r = rid" "ps_Outcome r = AllowOnce"
      using assms(1) m unfolding session_inv_def by blast
    then show ?thesis by auto
  next
    case False
    then have "x \<in> set (drop (length (cv_written (ss_conv s))) (cv_written c'))" using ws x by simp
    from allow_from_call [OF inv assms(2) this m] show ?thesis by auto
  qed
  moreover have "conv_inv lib c'" using do_conv_grows [OF inv assms(2)] by (simp add: grows_def)
  ultimately show ?thesis using assms(1,3-5) ws by (auto simp: session_inv_def)
qed

lemma session_inv_step: "session_step S lib s s' \<Longrightarrow> session_inv lib s \<Longrightarrow> session_inv lib s'"
proof (induction rule: session_step.induct)
  case (session_call E k s err c' q')
  then show ?case using queue_writes_spec [OF session_call.hyps(2)] by (intro session_inv_call) (simp_all add: session_inv_def)
next
  case (session_drain s q')
  then show ?case using queue_inv_drain queue_accepts(1) [OF session_drain.hyps] same_limits_step(1) [OF session_drain.hyps] by (simp add: session_inv_def)
next
  case (session_stop s)
  then show ?case using queue_inv_discard [of "ss_q s"] by (simp add: session_inv_def) (simp add: Discard_def)
next
  case (session_finish E x s err c')
  have inv: "conv_inv lib (ss_conv s)" using session_finish.prems by (simp add: session_inv_def)
  have "cv_written c' = cv_written (ss_conv s)" using Close_spec [OF inv, of E x] session_finish.hyps by auto
  then have "session_inv lib (s\<lparr>ss_conv := c', ss_q := Discard (ss_q s), ss_calls := ss_calls s @ [CClose_conv x], ss_stopping := ss_stopping s\<rparr>)"
    using session_finish queue_inv_discard by (intro session_inv_call) (auto simp: session_inv_def, simp add: Discard_def)
  then show ?case by simp
qed

lemma session_inv_reachable:
  assumes "session_reachable S lib s0 s" "session_inv lib s0"
  shows "session_inv lib s"
  using assms by (induction rule: session_reachable.induct) (auto intro: session_inv_step)

lemma session_inv_New: "\<not> hb_ended h \<Longrightarrow> session_inv lib (NewSession st sid h g req)"
  using conv_inv_New [of h lib st sid g req] queue_inv_New by (simp add: session_inv_def NewSession_def) (simp add: NewConversation_def NewQueuedWriter_def)

text \<open>What a session that is over still gives to the agent.\<close>

lemma dead_step:
  assumes "session_step S lib s s'" "session_inv lib s" "dead (ss_conv s)"
  shows "dead (ss_conv s') \<and> qw_accepted (ss_q s') = qw_accepted (ss_q s)"
  using assms
proof (induction rule: session_step.induct)
  case (session_call E k s err c' q')
  have inv: "conv_inv lib (ss_conv s)" "queue_inv (ss_q s)" using session_call.prems by (simp_all add: session_inv_def)
  have "dead c' \<and> cv_written c' = cv_written (ss_conv s)" using do_conv_grows [OF inv(1) session_call.hyps(1)] session_call.prems(2) by (simp add: grows_def)
  then show ?case using queue_writes_spec [OF session_call.hyps(2) inv(2)] by simp
next
  case (session_drain s q')
  then show ?case using queue_accepts(1) by simp
next
  case (session_finish E x s err c')
  have inv: "conv_inv lib (ss_conv s)" using session_finish.prems by (simp add: session_inv_def)
  show ?case using do_conv_grows [OF inv session_finish.hyps] session_finish.prems(2) by (simp add: grows_def Discard_def)
qed (simp add: Discard_def)

lemma dead_reachable:
  assumes "session_reachable S lib s s'" "session_inv lib s" "dead (ss_conv s)"
  shows "dead (ss_conv s') \<and> qw_accepted (ss_q s') = qw_accepted (ss_q s)"
  using assms
proof (induction rule: session_reachable.induct)
  case (session_next s1 s2)
  then show ?case using dead_step [OF session_next.hyps(2)] session_inv_reachable [OF session_next.hyps(1)] by simp
qed simp

section \<open>Properties\<close>

text \<open>
  C27: Reading the output of an agent ends and passes on exactly the good lines: for every output, however long its lines and however many
  of them are blank or broken, the loop comes to the end of the source within one round more than there are bytes, and
  what the conversation then is, is what it becomes by the non-empty lines of valid UTF-8 without NUL within the limit, in order, each once.
\<close>

theorem output_is_conversation:
  assumes "length txt < n"
  shows "ReadOutput n S lib E (NewLineReader txt e m) c =
    Some (run_conv S lib E (map CLine (filter (acceptable (if m \<le> 0 then DefaultMaxLine else nat m)) (text_lines e txt))) c)"
  using ReadOutput_kept [of "NewLineReader txt e m" n S lib E c] assms by (simp add: NewLineReader_def kept_lines_def)

definition ex_text :: string where
  "ex_text = ''ab'' @ [CR, LF, LF, char_of (0::nat), LF] @ ''long'' @ [LF] @ ''c''"

theorem output_is_conversation_witness:
  "ReadOutput 14 (ex_stream TypePermissionRequested) ex_lib ex_env (NewLineReader ex_text SrcEOF 3) (ex_asked TypePermissionRequested) =
     Some (run_conv (ex_stream TypePermissionRequested) ex_lib ex_env [CLine ''ab'', CLine ''c''] (ex_asked TypePermissionRequested))"
proof -
  have "utf8_valid ''ab''" "utf8_valid ''c''" by (simp_all add: utf8_ascii)
  then have "filter (acceptable 3) (text_lines SrcEOF ex_text) = [''ab'', ''c'']"
    by (simp add: text_lines_def ex_text_def trim_suffix_def cut_suffix_def has_suffix_def acceptable_def Let_def char_of_eq_iff)
  moreover have "length ex_text < 14" by (simp add: ex_text_def)
  ultimately show ?thesis using output_is_conversation [of ex_text 14 _ _ _ SrcEOF 3] by simp
qed

text \<open>
  C28: A conversation never takes up another session: of the events that come in over HTTP nothing reaches the conversation before the event
  that created the session asked for, everything from it on does, and if a session without a parent was created before it, nothing ever
  does and the reading ends with an error. The reading ends in any case.
\<close>

theorem sse_from_root:
  assumes "length txt < n"
  shows "ReadSSE n J S lib E want False (NewLineReader txt e 0) c =
    (case dropWhile (\<lambda>d. parentlessSessionCreated J d = None) (bodies (NewLineReader txt e 0)) of
       [] \<Rightarrow> Some (SSEEnds, False, c)
     | d # rest \<Rightarrow>
         if parentlessSessionCreated J d = Some want then Some (SSEEnds, True, run_conv S lib E (map CLine (d # rest)) c)
         else Some (ErrRootMismatch, False, c))"
proof -
  let ?l = "NewLineReader txt e 0"
  obtain e1 ds where r: "from_root J want (bodies ?l) = (e1, ds)" by force
  have "length (lr_src ?l) < n" using assms by (simp add: NewLineReader_def)
  then have "ReadSSE n J S lib E want False ?l c = Some (e1, ds \<noteq> [], run_conv S lib E (map CLine ds) c)"
    using ReadSSE_bodies [of ?l n J want False e1 ds] r by (simp add: sse_result_def)
  moreover obtain xs where xs: "dropWhile (\<lambda>d. parentlessSessionCreated J d = None) (bodies ?l) = xs" by blast
  ultimately show ?thesis
    using r unfolding from_root_def xs by (cases xs) (auto simp: run_conv_Nil split: if_splits)
qed

definition ex_sse :: "string \<Rightarrow> sse_frame option" where
  "ex_sse d = (if d = ''r'' then Some \<lparr>sf_type = ''session.created'', sf_session = ''ses_1'', sf_parent = []\<rparr> else None)"

theorem sse_from_root_witness:
  "ReadSSE 30 ex_sse (ex_stream TypePermissionRequested) ex_lib ex_env ''ses_1'' False
      (NewLineReader (''data: a'' @ [LF] @ ''data: r'' @ [LF] @ '':x'' @ [LF] @ ''data:b'') SrcEOF 0) (ex_asked TypePermissionRequested) =
    Some (SSEEnds, True, run_conv (ex_stream TypePermissionRequested) ex_lib ex_env [CLine ''r'', CLine ''b''] (ex_asked TypePermissionRequested))"
proof -
  let ?t = "''data: a'' @ [LF] @ ''data: r'' @ [LF] @ '':x'' @ [LF] @ ''data:b''"
  have "utf8_valid ''data: a''" "utf8_valid ''data: r''" "utf8_valid '':x''" "utf8_valid ''data:b''" by (simp_all add: utf8_ascii)
  then have "bodies (NewLineReader ?t SrcEOF 0) = [''a'', ''r'', ''b'']"
    by (simp add: bodies_def NewLineReader_def kept_lines_def text_lines_def trim_suffix_def cut_suffix_def has_suffix_def acceptable_def Let_def char_of_eq_iff
        DefaultMaxLine_def data_body_def cut_prefix_def has_prefix_def trim_prefix_def map_filter_simps)
  moreover have "parentlessSessionCreated ex_sse ''a'' = None" "parentlessSessionCreated ex_sse ''r'' = Some ''ses_1''"
    by (simp_all add: parentlessSessionCreated_def ex_sse_def trim_space_def ValidSessionID_def validID_def byte_class_defs)
  moreover have "length ?t < 30" by simp
  ultimately show ?thesis using sse_from_root [of ?t 30 ex_sse _ _ _ "''ses_1''" SrcEOF] by simp
qed

text \<open>
  Only five requests are ever sent to an agent behind HTTP, whatever the adapter hands over: a line is accepted exactly if it decodes to
  the method and path of a prompt, an interrupt, a reply to a permission or form, or the cancellation of a form, with numbers of
  letters, digits, underscores and hyphens, and has a JSON object as its body exactly when that path needs one.
\<close>

theorem http_request_exact:
  "ParseHTTPRequest J line = Inr r \<longleftrightarrow>
    (\<exists>k body. http_accepts J line k body \<and> r = \<lparr>hr_Method = call_method k, hr_Path = call_path k, hr_Body = body\<rparr>)"
  by (rule ParseHTTPRequest_iff)

text \<open>
  C25: What the agent is told is what the conversation wrote: at every moment the lines that went into the agent's input are a prefix of the
  lines the conversation wrote, the queue between them is within its limits, and if a line that went in is the permission allow_once
  for a request, then the human gave that answer to that request in a call.
\<close>

theorem agent_input:
  assumes "\<not> hb_ended h" "session_reachable S lib (NewSession st sid h g req) s"
  shows "\<exists>rest. map snd (cv_written (ss_conv s)) = qw_out (ss_q s) @ rest \<and>
    length (qw_lines (ss_q s)) \<le> 256 \<and> sum_list (map length (qw_lines (ss_q s))) \<le> 4 * 1024 * 1024 \<and>
    (\<forall>x\<in>set (take (length (qw_out (ss_q s))) (cv_written (ss_conv s))). \<forall>rid. cmd_Data (fst x) = PermissionAnswer rid ''allow_once'' \<longrightarrow>
       (\<exists>gen r. CPermission gen r \<in> set (ss_calls s) \<and> ps_RequestID r = rid \<and> ps_Outcome r = ''allow_once''))"
proof -
  have inv: "session_inv lib s" using session_inv_reachable [OF assms(2) session_inv_New [OF assms(1)]] .
  then have q: "queue_inv (ss_q s)" "same_limits (NewQueuedWriter 0 0) (ss_q s)" "qw_accepted (ss_q s) = map snd (cv_written (ss_conv s))"
    and calls: "x \<in> set (cv_written (ss_conv s)) \<Longrightarrow> cmd_Data (fst x) = PermissionAnswer rid AllowOnce \<Longrightarrow>
      \<exists>gen r. CPermission gen r \<in> set (ss_calls s) \<and> ps_RequestID r = rid \<and> ps_Outcome r = AllowOnce" for x rid
    unfolding session_inv_def by blast+
  have "int (length (qw_lines (ss_q s))) \<le> 256" "int (sum_list (map length (qw_lines (ss_q s)))) \<le> 4 * 1024 * 1024"
    using q(1,2) by (auto simp: queue_inv_def same_limits_def NewQueuedWriter_def or_default_def DefaultQueueLines_def DefaultQueueBytes_def)
  moreover obtain rest where "map snd (cv_written (ss_conv s)) = qw_out (ss_q s) @ rest" using q(1,3) by (auto simp: queue_inv_def)
  ultimately show ?thesis using calls in_set_takeD [of _ "length (qw_out (ss_q s))" "cv_written (ss_conv s)"] unfolding AllowOnce_def by force
qed

text \<open>A session in which the human says something and the agent reads it.\<close>

lemma ex_session:
  "\<exists>s. session_reachable (ex_stream TypePermissionRequested) ex_lib (NewSession () ''s'' (NewHub ex_hub_config) ''g'' True) s \<and>
     qw_out (ss_q s) = [''line''] \<and> ss_calls s = [CSend ''hi'']"
proof -
  let ?S = "ex_stream TypePermissionRequested" and ?s0 = "NewSession () ''s'' (NewHub ex_hub_config) ''g'' True"
  obtain err c1 where c: "do_conv ?S ex_lib ex_env (CSend ''hi'') (ss_conv ?s0) = (err, c1)" by force
  have w: "map snd (drop (length (cv_written (ss_conv ?s0))) (cv_written c1)) = [''line'']"
    using c by (auto simp: NewSession_def Send_def NewConversation_def MaxMessageBytes_def ex_encode ex_write)
  let ?q1 = "snd (WriteLine ''line'' (ss_q ?s0))"
  have q1: "WriteLine ''line'' (ss_q ?s0) = (None, ?q1)" "qw_pc ?q1 = DrainIdle" "qw_lines ?q1 = [''line'']" "qw_out ?q1 = []"
    by (simp_all add: NewSession_def WriteLine_def NewQueuedWriter_def or_default_def DefaultQueueLines_def DefaultQueueBytes_def)
  have "queue_writes [''line''] (ss_q ?s0) ?q1" by (rule writes_line [OF q1(1) writes_none])
  then have "session_step ?S ex_lib ?s0 (?s0\<lparr>ss_conv := c1, ss_q := ?q1, ss_calls := ss_calls ?s0 @ [CSend ''hi''],
      ss_stopping := ss_stopping ?s0 \<or> cv_stopOnce c1 \<and> \<not> cv_stopOnce (ss_conv ?s0)\<rparr>)" (is "session_step _ _ _ ?s1")
    by (intro session_call [OF c]) (simp add: w)
  then have r1: "session_reachable ?S ex_lib ?s0 ?s1" by (intro session_next [OF session_start])
  obtain q2 where q2: "drain_step ?q1 q2" "qw_pc q2 = DrainWriting ''line''" "qw_out q2 = []"
    using drain_take [OF q1(2,3)] q1(4) by fastforce
  then have r2: "session_reachable ?S ex_lib ?s0 (?s1\<lparr>ss_q := q2\<rparr>)" by (intro session_next [OF r1 session_drain]) simp
  have "session_reachable ?S ex_lib ?s0 ((?s1\<lparr>ss_q := q2\<rparr>)\<lparr>ss_q := q2\<lparr>qw_pc := DrainIdle, qw_out := qw_out q2 @ [''line'']\<rparr>\<rparr>)"
    using drain_wrote [OF q2(2)] by (intro session_next [OF r2 session_drain]) simp
  then show ?thesis using q2(3) by (intro exI conjI) (auto simp: NewSession_def)
qed

theorem agent_input_witness:
  "\<exists>s. session_reachable (ex_stream TypePermissionRequested) ex_lib (NewSession () ''s'' (NewHub ex_hub_config) ''g'' True) s \<and>
     qw_out (ss_q s) = [''line''] \<and> (\<exists>rest. map snd (cv_written (ss_conv s)) = ''line'' # rest)"
proof -
  obtain s where s: "session_reachable (ex_stream TypePermissionRequested) ex_lib (NewSession () ''s'' (NewHub ex_hub_config) ''g'' True) s"
    "qw_out (ss_q s) = [''line'']" using ex_session by blast
  from agent_input [OF ex_New s(1)] s show ?thesis by auto
qed

text \<open>
  C26: A session that is over is over for the agent, too: once the conversation is stopped or closed, whatever happens afterwards, the
  queue accepts no further line, and all that still goes into the agent's input was accepted before.
\<close>

theorem stop_is_final:
  assumes "\<not> hb_ended h" "session_reachable S lib (NewSession st sid h g req) s" "cv_stopped (ss_conv s) \<or> cv_state (ss_conv s) = StateClosed"
    "session_reachable S lib s s'"
  shows "qw_accepted (ss_q s') = qw_accepted (ss_q s) \<and> (\<exists>rest. qw_accepted (ss_q s) = qw_out (ss_q s') @ rest)"
proof -
  have inv: "session_inv lib s" using session_inv_reachable [OF assms(2) session_inv_New [OF assms(1)]] .
  have "dead (ss_conv s)" using assms(3) by (simp add: dead_def)
  from dead_reachable [OF assms(4) inv this] session_inv_reachable [OF assms(4) inv] show ?thesis
    by (auto simp: session_inv_def queue_inv_def)
qed

theorem stop_is_final_witness:
  "\<exists>s. session_reachable (ex_stream TypePermissionRequested) ex_lib (NewSession () ''s'' (NewHub ex_hub_config) ''g'' True) s \<and>
     cv_stopped (ss_conv s) \<and> (\<exists>rest. qw_accepted (ss_q s) = qw_out (ss_q s) @ rest) \<and> qw_out (ss_q s) = [''line'']"
proof -
  let ?S = "ex_stream TypePermissionRequested" and ?s0 = "NewSession () ''s'' (NewHub ex_hub_config) ''g'' True"
  obtain s where s: "session_reachable ?S ex_lib ?s0 s" "qw_out (ss_q s) = [''line'']" using ex_session by blast
  have inv: "conv_inv ex_lib (ss_conv s)" using session_inv_reachable [OF s(1) session_inv_New [OF ex_New]] by (simp add: session_inv_def)
  let ?c = "Stop ex_lib ex_env (ss_conv s)"
  have c: "do_conv ?S ex_lib ex_env CStop (ss_conv s) = (None, ?c)" by simp
  have "cv_stopped ?c" "cv_written ?c = cv_written (ss_conv s)" using Stop_spec [OF inv, of ex_env] by auto
  then have "session_step ?S ex_lib s (s\<lparr>ss_conv := ?c, ss_q := ss_q s, ss_calls := ss_calls s @ [CStop],
      ss_stopping := ss_stopping s \<or> cv_stopOnce ?c \<and> \<not> cv_stopOnce (ss_conv s)\<rparr>)" (is "session_step _ _ _ ?s1")
    by (intro session_call [OF c]) (simp add: writes_none)
  then have r: "session_reachable ?S ex_lib ?s0 ?s1" by (intro session_next [OF s(1)])
  have st: "cv_stopped (ss_conv ?s1) \<or> cv_state (ss_conv ?s1) = StateClosed" using \<open>cv_stopped ?c\<close> by simp
  from stop_is_final [OF ex_New r st session_start] \<open>cv_stopped ?c\<close> r s(2) show ?thesis by (intro exI [of _ ?s1]) simp
qed

end
