(* ===== verification/Chat_Store.thy ===== *)
theory Chat_Store
  imports Chat_Hub Event_Log
begin

text \<open>
  The durable half of a chat (cmd/internal/chat/durable.go) put together with the event log behind it
  (cmd/goronation/chat_eventlog.go): the goroutine that writes what the hub decided, and the subscriptions that
  continue from the log.

  Hub, writer and readers run concurrently. \<open>sys_step\<close> interleaves them at the grain of the code: each method under
  \<open>Hub.mu\<close> is a step, with \<open>Hub.Update\<close> in its parts since the writer runs beside it; the writer and a reader take one step per access
  to the store and per change of the atomic fields that the others read. The store is the interface
  \<open>EventStore\<close>, a record of functions whose first argument is what the environment decides; \<open>chatEventStore\<close> is the one that the
  program plugs in. The fields \<open>sy_pub\<close>, \<open>rd_got\<close>, \<open>rd_pub\<close>, \<open>rd_first\<close> and \<open>rd_before\<close> record a history; no code reads them.
\<close>

section \<open>The interface of the store\<close>

type_synonym choice = "bool \<times> bool \<times> bool"

record 's store_if =
  es_Apply :: "choice \<Rightarrow> store_op \<Rightarrow> 's \<Rightarrow> bool \<times> 's"
  es_Range :: "choice \<Rightarrow> nat \<Rightarrow> nat \<Rightarrow> int \<Rightarrow> 's \<Rightarrow> stored_event list option"
  es_Trim :: "choice \<Rightarrow> int \<Rightarrow> 's \<Rightarrow> nat option \<times> 's"

definition to_row :: "stored_event \<Rightarrow> event_row" where
  "to_row e = \<lparr>row_Seq = st_Seq e, row_Payload = st_Payload e\<rparr>"

definition of_row :: "event_row \<Rightarrow> stored_event" where
  "of_row r = \<lparr>st_Seq = row_Seq r, st_Payload = row_Payload r\<rparr>"

definition chat_Apply :: "choice \<Rightarrow> store_op \<Rightarrow> log_store \<Rightarrow> bool \<times> log_store" where
  "chat_Apply k op s =
     (case Apply (fst k) \<lparr>op_Append = map to_row (so_Append op), op_Pin = so_Pin op, op_Unpin = so_Unpin op\<rparr> s of (e, s') \<Rightarrow> (e = None, s'))"

definition chat_Range :: "choice \<Rightarrow> nat \<Rightarrow> nat \<Rightarrow> int \<Rightarrow> log_store \<Rightarrow> stored_event list option" where
  "chat_Range k after before limit s = (case Range_log (fst k) after before limit s of Inl _ \<Rightarrow> None | Inr rows \<Rightarrow> Some (map of_row rows))"

definition chat_Trim :: "choice \<Rightarrow> int \<Rightarrow> log_store \<Rightarrow> nat option \<times> log_store" where
  "chat_Trim k budget s =
     (case k of (q, del, q') \<Rightarrow> (case Trim q del q' budget s of (Inl _, s') \<Rightarrow> (None, s') | (Inr f, s') \<Rightarrow> (Some f, s')))"

definition chatEventStore :: "log_store store_if" where
  "chatEventStore = \<lparr>es_Apply = chat_Apply, es_Range = chat_Range, es_Trim = chat_Trim\<rparr>"

section \<open>The writer\<close>

definition writeBatchEvents :: nat where "writeBatchEvents = 256"
definition writeBatchBytes :: int where "writeBatchBytes = 1024 * 1024"
definition defaultBackfillBatch :: int where "defaultBackfillBatch = 64"
definition defaultSlowCommit :: int where "defaultSlowCommit = 50 * 1000000"
definition defaultHardCommit :: int where "defaultHardCommit = 5 * 1000000000"
definition defaultSlowRun :: nat where "defaultSlowRun = 5"
definition gcTargetNum :: int where "gcTargetNum = 3"
definition gcTargetDen :: int where "gcTargetDen = 4"

fun take_ops :: "bool \<Rightarrow> nat \<Rightarrow> int \<Rightarrow> store_op list \<Rightarrow> store_op list \<times> store_op list" where
  "take_ops first n b [] = ([], [])"
| "take_ops first n b (p # ps) =
     (if first \<or> n < writeBatchEvents \<and> b < writeBatchBytes
      then (case take_ops False (n + length (so_Append p)) (b + opSize p) ps of (ops, rest) \<Rightarrow> (p # ops, rest))
      else ([], p # ps))"

definition normalizePins :: "store_op \<Rightarrow> store_op" where
  "normalizePins op =
     (if so_Pin op = [] \<or> so_Unpin op = [] then op else op\<lparr>so_Pin := filter (\<lambda>q. q \<notin> set (so_Unpin op)) (so_Pin op)\<rparr>)"

text \<open>The map \<open>state\<close> and the order in which its keys came.\<close>

definition note_pin :: "bool \<Rightarrow> nat \<Rightarrow> nat list \<times> (nat \<Rightarrow> bool option) \<Rightarrow> nat list \<times> (nat \<Rightarrow> bool option)" where
  "note_pin v q = (\<lambda>(order, st). (if st q = None then order @ [q] else order, st(q \<mapsto> v)))"

definition note_op :: "store_op \<Rightarrow> nat list \<times> (nat \<Rightarrow> bool option) \<Rightarrow> nat list \<times> (nat \<Rightarrow> bool option)" where
  "note_op op acc = fold (note_pin False) (so_Unpin op) (fold (note_pin True) (so_Pin op) acc)"

definition mergeOps :: "store_op list \<Rightarrow> store_op" where
  "mergeOps ops =
     (case ops of
        [op] \<Rightarrow> normalizePins op
      | _ \<Rightarrow> (case fold note_op ops ([], \<lambda>_. None) of
          (order, st) \<Rightarrow> \<lparr>so_Append = concat (map so_Append ops), so_Pin = filter (\<lambda>q. st q = Some True) order,
                         so_Unpin = filter (\<lambda>q. st q \<noteq> Some True) order\<rparr>))"

datatype take_result = Taken store_op | TakeEnd | TakeWaits

definition take_op :: "store_writer \<Rightarrow> take_result \<times> store_writer" where
  "take_op w =
     (if sw_degraded w then (TakeEnd, w)
      else if sw_pending w \<noteq> [] then
        (case take_ops True 0 0 (sw_pending w) of (ops, rest) \<Rightarrow>
           (Taken (mergeOps ops), w\<lparr>sw_pending := rest, sw_bytes := sw_bytes w - sum_list (map opSize ops)\<rparr>))
      else if sw_closing w then (TakeEnd, w)
      else (TakeWaits, w))"

text \<open>The judgement of a write of duration \<open>d\<close> (nanoseconds): whether to go on, the run of slow writes, the writer.\<close>

definition judge :: "int \<Rightarrow> nat \<Rightarrow> store_writer \<Rightarrow> bool \<times> nat \<times> store_writer" where
  "judge d slow w =
     (if d > defaultHardCommit then (False, slow, degrade w)
      else if d > defaultSlowCommit then
        (if slow + 1 \<ge> defaultSlowRun then (False, slow + 1, degrade w) else (True, slow + 1, w))
      else (True, 0, w))"

text \<open>Where the goroutine \<open>run\<close> is: waiting for an operation, with one to apply, behind \<open>Apply\<close>, before \<open>Trim\<close>, in it, behind it,
  behind the store of \<open>trimmed\<close>, and returned.\<close>

datatype writer_pc = WTake | WApply store_op | WApplied store_op bool | WTrim | WTrimming | WTrimmed "nat option" | WTrimEnd bool | WStopped

record writer_run =
  wr_pc :: writer_pc
  wr_stored :: int
  wr_slow :: nat

definition run_applied :: "int \<Rightarrow> store_op \<Rightarrow> bool \<Rightarrow> store_writer \<Rightarrow> writer_run \<Rightarrow> store_writer \<times> writer_run" where
  "run_applied d op applied w r =
     (if sw_degraded w then (w, r\<lparr>wr_pc := WStopped\<rparr>)
      else if \<not> applied then (degrade w, r\<lparr>wr_pc := WStopped\<rparr>)
      else
        let w1 = (if so_Append op = [] then w else w\<lparr>sw_written := int (st_Seq (last (so_Append op)))\<rparr>);
            stored = wr_stored r + int (sum_list (map (\<lambda>e. length (st_Payload e)) (so_Append op)))
        in case judge d (wr_slow r) w1 of (go, slow, w2) \<Rightarrow>
             (w2, \<lparr>wr_pc = (if \<not> go then WStopped else if stored > sw_gcMax w2 then WTrim else WTake), wr_stored = stored, wr_slow = slow\<rparr>))"

definition trim_target :: "store_writer \<Rightarrow> int" where
  "trim_target w = sw_gcMax w div gcTargetDen * gcTargetNum"

definition run_trimmed :: "nat option \<Rightarrow> store_writer \<Rightarrow> store_writer" where
  "run_trimmed res w =
     (case res of
        None \<Rightarrow> w
      | Some f \<Rightarrow> let first = (if f = 0 then nat (sw_written w + 1) else f) in if first > sw_trimmed w then w\<lparr>sw_trimmed := first\<rparr> else w)"

definition run_trim_end :: "int \<Rightarrow> bool \<Rightarrow> store_writer \<Rightarrow> writer_run \<Rightarrow> store_writer \<times> writer_run" where
  "run_trim_end d trimOK w0 r =
     (let w = w0\<lparr>sw_trims := sw_trims w0 + 1\<rparr> in
      if \<not> trimOK then (degrade w, r\<lparr>wr_pc := WStopped\<rparr>)
      else case judge d (wr_slow r) w of (go, slow, w2) \<Rightarrow> (w2, \<lparr>wr_pc = (if go then WTake else WStopped), wr_stored = trim_target w, wr_slow = slow\<rparr>))"

definition writer_step :: "'s store_if \<Rightarrow> choice \<Rightarrow> int \<Rightarrow> store_writer \<times> writer_run \<times> 's \<Rightarrow> store_writer \<times> writer_run \<times> 's" where
  "writer_step S k d = (\<lambda>(w, r, db).
     case wr_pc r of
       WTake \<Rightarrow> (case take_op w of
           (Taken op, w') \<Rightarrow> (w', r\<lparr>wr_pc := WApply op\<rparr>, db)
         | (TakeEnd, w') \<Rightarrow> (w', r\<lparr>wr_pc := WStopped\<rparr>, db)
         | (TakeWaits, w') \<Rightarrow> (w', r, db))
     | WApply op \<Rightarrow> (case es_Apply S k op db of (applied, db') \<Rightarrow> (w, r\<lparr>wr_pc := WApplied op applied\<rparr>, db'))
     | WApplied op applied \<Rightarrow> (case run_applied d op applied w r of (w', r') \<Rightarrow> (w', r', db))
     | WTrim \<Rightarrow> (w\<lparr>sw_trims := sw_trims w + 1\<rparr>, r\<lparr>wr_pc := WTrimming\<rparr>, db)
     | WTrimming \<Rightarrow> (case es_Trim S k (trim_target w) db of (res, db') \<Rightarrow> (w, r\<lparr>wr_pc := WTrimmed res\<rparr>, db'))
     | WTrimmed res \<Rightarrow> (run_trimmed res w, r\<lparr>wr_pc := WTrimEnd (res \<noteq> None)\<rparr>, db)
     | WTrimEnd trimOK \<Rightarrow> (case run_trim_end d trimOK w r of (w', r') \<Rightarrow> (w', r', db))
     | WStopped \<Rightarrow> (w, r, db))"

section \<open>Continuing from the log\<close>

text \<open>Reading the JSON of a stored event: the members of the object, and its values as \<open>uint64\<close>, string and bool.\<close>

record stored_json =
  sj_members :: "string \<Rightarrow> (string \<times> string) list option"
  sj_uint :: "string \<Rightarrow> nat option option"
  sj_string :: "string \<Rightarrow> string option"
  sj_bool :: "string \<Rightarrow> bool option"

definition event_type_char :: "char \<Rightarrow> bool" where
  "event_type_char c \<longleftrightarrow> is_lower c \<or> is_upper c \<or> is_digit c \<or> c \<in> {CHR ''.'', CHR ''_'', CHR ''-''}"

definition validEventType :: "string \<Rightarrow> bool" where
  "validEventType t \<longleftrightarrow> t \<noteq> [] \<and> length t \<le> 64 \<and> (\<forall>c\<in>set t. event_type_char c)"

definition raw_member :: "('a \<Rightarrow> 'b option) \<Rightarrow> string \<Rightarrow> (string \<times> 'a) list \<Rightarrow> 'b option" where
  "raw_member dec key m = (case map_of m key of None \<Rightarrow> None | Some v \<Rightarrow> dec v)"

definition bad_key :: "string \<Rightarrow> bool" where
  "bad_key k \<longleftrightarrow> (\<exists>want\<in>{''seq'', ''type'', ''durable''}. k \<noteq> want \<and> equal_fold k want)"

definition storedEvent :: "stored_json \<Rightarrow> stored_event \<Rightarrow> nat \<Rightarrow> nat \<Rightarrow> event option" where
  "storedEvent J r after before =
     (if st_Seq r \<le> after \<or> st_Seq r \<ge> before then None
      else if st_Payload r = [] \<or> length (st_Payload r) > DefaultMaxEvent then None
      else if char_of (10::nat) \<in> set (st_Payload r) \<or> char_of (13::nat) \<in> set (st_Payload r) then None
      else (case sj_members J (st_Payload r) of
        None \<Rightarrow> None
      | Some m \<Rightarrow>
          if (\<exists>k\<in>fst ` set m. bad_key k) then None
          else (case (raw_member (sj_uint J) ''seq'' m, raw_member (sj_string J) ''type'' m, raw_member (sj_bool J) ''durable'' m) of
            (Some (Some seq), Some typ, Some True) \<Rightarrow>
              if seq = st_Seq r \<and> validEventType typ
              then Some \<lparr>ev_Seq = st_Seq r, ev_Type = typ, ev_Durable = True, ev_JSON = st_Payload r\<rparr> else None
          | _ \<Rightarrow> None)))"

record backfill =
  bf_cursor :: nat
  bf_before :: nat
  bf_batch :: int
  bf_trims :: nat

function search_seq :: "event list \<Rightarrow> nat \<Rightarrow> nat \<Rightarrow> nat \<Rightarrow> nat" where
  "search_seq ring after lo hi =
     (if lo < hi then
        let m = (lo + hi) div 2 in
        if ev_Seq (ring ! m) \<le> after then search_seq ring after (m + 1) hi else search_seq ring after lo m
      else lo)"
  by pat_completeness auto
termination by (relation "measure (\<lambda>(ring, after, lo, hi). hi - lo)") auto

declare search_seq.simps [simp del]

definition sortSearchSeq :: "event list \<Rightarrow> nat \<Rightarrow> nat" where
  "sortSearchSeq ring after = search_seq ring after 0 (length ring)"

definition pinnedOnlyInMemory :: "nat \<Rightarrow> hub \<Rightarrow> bool" where
  "pinnedOnlyInMemory after h \<longleftrightarrow> (\<exists>e\<in>set (hb_pinned h). after < ev_Seq e \<and> ev_Seq e < ring_first h \<and> \<not> ev_Durable e)"

text \<open>\<open>SubscribeAfter\<close>, given the value of \<open>trims\<close> that it loaded before it took the mutex.\<close>

datatype after_result = ErrBadAfter | ErrTooManySubscribers | Full nat | Resumed nat "backfill option"

definition after_first :: "nat \<Rightarrow> store_writer \<Rightarrow> nat \<Rightarrow> nat" where
  "after_first trims w ringFirst =
     (if trims > 0 then if sw_trimmed w \<noteq> 0 then min (sw_trimmed w) ringFirst else ringFirst else 0)"

definition SubscribeAfter :: "nat \<Rightarrow> nat \<Rightarrow> hub \<Rightarrow> after_result \<times> hub" where
  "SubscribeAfter trims after h =
     (let all = (case subscribeLocked h of None \<Rightarrow> (ErrTooManySubscribers, h) | Some (i, h') \<Rightarrow> (Full i, h')) in
      if after \<ge> hb_nextSeq h then (ErrBadAfter, h)
      else (case hb_w h of
        None \<Rightarrow> all
      | Some w \<Rightarrow>
          if sw_degraded w \<or> odd trims \<or> pinnedOnlyInMemory after h then all
          else if length (hb_subs h) \<ge> hubSubscribersHardLimit then (ErrTooManySubscribers, h)
          else
            let ring = hub_ring h;
                s = \<lparr>sb_Snapshot = drop (sortSearchSeq ring after) ring, sb_FirstSeq = after_first trims w (ring_first h), sb_resumed = True,
                     sb_durable = True, sb_queue = [], sb_bytes = 0, sb_done = False, sb_err = None, sb_exit = 0, sb_got = []\<rparr>
            in (case register s h of
                  (i, h') \<Rightarrow>
                    (Resumed i (if after + 1 < ring_first h
                        then Some \<lparr>bf_cursor = after, bf_before = ring_first h, bf_batch = defaultBackfillBatch, bf_trims = trims\<rparr>
                        else None), h'))))"

text \<open>The loop of \<open>Next\<close> over the rows of a batch: the cursor behind them and the events, or nothing if a row is bad.\<close>

fun stored_rows :: "stored_json \<Rightarrow> nat \<Rightarrow> nat \<Rightarrow> stored_event list \<Rightarrow> (nat \<times> event list) option" where
  "stored_rows J cursor before [] = Some (cursor, [])"
| "stored_rows J cursor before (r # rs) =
     (case storedEvent J r cursor before of
        None \<Rightarrow> None
      | Some e \<Rightarrow> (case stored_rows J (ev_Seq e) before rs of None \<Rightarrow> None | Some (c, es) \<Rightarrow> Some (c, e # es)))"

text \<open>Where a reader is: not started, behind the load of \<open>trims\<close>, before the check of \<open>trims\<close> in \<open>Next\<close>, before \<open>Range\<close>, behind an
  empty batch, and the ways it ends.\<close>

datatype reader_pc = RIdle | RLoaded nat | RCheck | RRange | RFinal | REOF | RStale | RFailed | RNotResumed after_result | RClosed

record reader =
  rd_pc :: reader_pc
  rd_after :: nat
  rd_sub :: nat
  rd_bf :: backfill
  rd_got :: "event list"
  rd_pub :: "event list"
  rd_first :: nat
  rd_before :: nat

definition new_reader :: reader where
  "new_reader = \<lparr>rd_pc = RIdle, rd_after = 0, rd_sub = 0, rd_bf = \<lparr>bf_cursor = 0, bf_before = 0, bf_batch = 0, bf_trims = 0\<rparr>, rd_got = [],
     rd_pub = [], rd_first = 0, rd_before = 0\<rparr>"

definition hub_trims :: "hub \<Rightarrow> nat" where
  "hub_trims h = (case hb_w h of None \<Rightarrow> 0 | Some w \<Rightarrow> sw_trims w)"

definition hub_degrade :: "hub \<Rightarrow> hub" where
  "hub_degrade h = h\<lparr>hb_w := map_option degrade (hb_w h)\<rparr>"

text \<open>The end of the loop in \<open>Next\<close>: what \<open>Range\<close> answered.\<close>

definition next_rows :: "stored_json \<Rightarrow> stored_event list option \<Rightarrow> reader \<Rightarrow> hub \<Rightarrow> reader \<times> hub" where
  "next_rows J res r h =
     (case res of
        None \<Rightarrow> (r\<lparr>rd_pc := RFailed\<rparr>, hub_degrade h)
      | Some [] \<Rightarrow> (r\<lparr>rd_pc := RFinal\<rparr>, h)
      | Some rows \<Rightarrow>
          if int (length rows) > bf_batch (rd_bf r) then (r\<lparr>rd_pc := RFailed\<rparr>, hub_degrade h)
          else (case stored_rows J (bf_cursor (rd_bf r)) (bf_before (rd_bf r)) rows of
                  None \<Rightarrow> (r\<lparr>rd_pc := RFailed\<rparr>, hub_degrade h)
                | Some (c, es) \<Rightarrow> (r\<lparr>rd_pc := RCheck, rd_bf := (rd_bf r)\<lparr>bf_cursor := c\<rparr>, rd_got := rd_got r @ es\<rparr>, h)))"

definition reader_resumes :: "nat \<Rightarrow> event list \<Rightarrow> reader \<Rightarrow> hub \<Rightarrow> reader \<times> hub" where
  "reader_resumes trims pub r h =
     (case SubscribeAfter trims (rd_after r) h of
        (Resumed i bf, h') \<Rightarrow>
          (r\<lparr>rd_pc := (if bf = None then REOF else RCheck), rd_sub := i, rd_bf := (case bf of None \<Rightarrow> rd_bf r | Some b \<Rightarrow> b), rd_got := [],
             rd_pub := pub, rd_first := sb_FirstSeq (hb_objs h' ! i), rd_before := ring_first h\<rparr>, h')
      | (res, h') \<Rightarrow> (r\<lparr>rd_pc := RNotResumed res\<rparr>, h'))"

section \<open>The system\<close>

record 's sys =
  sy_hub :: hub
  sy_busy :: bool
  sy_db :: 's
  sy_run :: writer_run
  sy_readers :: "nat \<Rightarrow> reader"
  sy_pub :: "event list"

definition start_sys :: "hub_config \<Rightarrow> 's \<Rightarrow> 's sys" where
  "start_sys cfg db = \<lparr>sy_hub = NewHub cfg, sy_busy = False, sy_db = db, sy_run = \<lparr>wr_pc = WTake, wr_stored = 0, wr_slow = 0\<rparr>,
     sy_readers = (\<lambda>_. new_reader), sy_pub = []\<rparr>"

text \<open>What the callers of \<open>Update\<close> keep to: sequence numbers go up (\<open>Feed\<close> numbers the events).\<close>

definition follows :: "event list \<Rightarrow> hub \<Rightarrow> bool" where
  "follows es h \<longleftrightarrow> sorted_wrt (<) (map ev_Seq es) \<and> (\<forall>e\<in>set es. hb_nextSeq h \<le> ev_Seq e)"

definition following :: "reader \<Rightarrow> nat \<Rightarrow> bool" where
  "following r j \<longleftrightarrow> rd_pc r \<in> {RCheck, RRange, RFinal, REOF} \<and> rd_sub r = j"

inductive sys_step :: "'s store_if \<Rightarrow> stored_json \<Rightarrow> 's sys \<Rightarrow> 's sys \<Rightarrow> bool" for S :: "'s store_if" and J :: stored_json where
  step_update: "\<lbrakk>\<not> sy_busy s; \<not> hb_ended (sy_hub s); follows es (sy_hub s)\<rbrakk> \<Longrightarrow>
    sys_step S J s (s\<lparr>sy_hub := update_begin rd es p u (sy_hub s), sy_busy := True, sy_pub := sy_pub s @ es\<rparr>)"
| step_evict: "\<lbrakk>sy_busy s; must_evict (sy_hub s)\<rbrakk> \<Longrightarrow> sys_step S J s (s\<lparr>sy_hub := evict_step (sy_hub s)\<rparr>)"
| step_updated: "\<lbrakk>sy_busy s; \<not> must_evict (sy_hub s)\<rbrakk> \<Longrightarrow> sys_step S J s (s\<lparr>sy_hub := update_end (sy_hub s), sy_busy := False\<rparr>)"
| step_close: "\<not> sy_busy s \<Longrightarrow> sys_step S J s (s\<lparr>sy_hub := Hub_Close x (sy_hub s)\<rparr>)"
| step_subscribe: "\<lbrakk>\<not> sy_busy s; subscribeLocked (sy_hub s) = Some (i, h')\<rbrakk> \<Longrightarrow> sys_step S J s (s\<lparr>sy_hub := h'\<rparr>)"
| step_unsubscribe: "\<lbrakk>\<not> sy_busy s; j < length (hb_objs (sy_hub s)); \<forall>i. \<not> following (sy_readers s i) j\<rbrakk> \<Longrightarrow>
    sys_step S J s (s\<lparr>sy_hub := Sub_Close j (sy_hub s)\<rparr>)"
| step_next: "j < length (hb_objs (sy_hub s)) \<Longrightarrow> sys_step S J s (s\<lparr>sy_hub := snd (Sub_Next j (sy_hub s))\<rparr>)"
| step_writer: "\<lbrakk>hb_w (sy_hub s) = Some w; writer_step S k d (w, sy_run s, sy_db s) = (w', r', db')\<rbrakk> \<Longrightarrow>
    sys_step S J s (s\<lparr>sy_hub := (sy_hub s)\<lparr>hb_w := Some w'\<rparr>, sy_run := r', sy_db := db'\<rparr>)"
| step_load: "rd_pc (sy_readers s i) = RIdle \<Longrightarrow>
    sys_step S J s (s\<lparr>sy_readers := (sy_readers s)(i := new_reader\<lparr>rd_pc := RLoaded (hub_trims (sy_hub s)), rd_after := after\<rparr>)\<rparr>)"
| step_resume: "\<lbrakk>rd_pc (sy_readers s i) = RLoaded t; \<not> sy_busy s; reader_resumes t (sy_pub s) (sy_readers s i) (sy_hub s) = (r', h')\<rbrakk> \<Longrightarrow>
    sys_step S J s (s\<lparr>sy_readers := (sy_readers s)(i := r'), sy_hub := h'\<rparr>)"
| step_check: "rd_pc (sy_readers s i) = RCheck \<Longrightarrow>
    sys_step S J s (s\<lparr>sy_readers := (sy_readers s)(i := (sy_readers s i)\<lparr>rd_pc :=
      (if hub_trims (sy_hub s) \<noteq> bf_trims (rd_bf (sy_readers s i)) then RStale else RRange)\<rparr>)\<rparr>)"
| step_range: "\<lbrakk>rd_pc (sy_readers s i) = RRange; b = rd_bf (sy_readers s i);
      next_rows J (es_Range S k (bf_cursor b) (bf_before b) (bf_batch b) (sy_db s)) (sy_readers s i) (sy_hub s) = (r', h')\<rbrakk> \<Longrightarrow>
    sys_step S J s (s\<lparr>sy_readers := (sy_readers s)(i := r'), sy_hub := h'\<rparr>)"
| step_final: "rd_pc (sy_readers s i) = RFinal \<Longrightarrow>
    sys_step S J s (s\<lparr>sy_readers := (sy_readers s)(i := (sy_readers s i)\<lparr>rd_pc :=
      (if hub_trims (sy_hub s) \<noteq> bf_trims (rd_bf (sy_readers s i)) then RStale else REOF)\<rparr>)\<rparr>)"
| step_leave: "\<lbrakk>\<not> sy_busy s; following (sy_readers s i) j; \<forall>m. following (sy_readers s m) j \<longrightarrow> m = i\<rbrakk> \<Longrightarrow>
    sys_step S J s (s\<lparr>sy_readers := (sy_readers s)(i := (sy_readers s i)\<lparr>rd_pc := RClosed\<rparr>), sy_hub := Sub_Close j (sy_hub s)\<rparr>)"

inductive sys_reachable :: "'s store_if \<Rightarrow> stored_json \<Rightarrow> 's sys \<Rightarrow> 's sys \<Rightarrow> bool" for S J s0 where
  reach_start: "sys_reachable S J s0 s0"
| reach_step: "sys_reachable S J s0 s \<Longrightarrow> sys_step S J s s' \<Longrightarrow> sys_reachable S J s0 s'"

section \<open>What a store promises\<close>

text \<open>
  The contract of \<open>EventStore\<close>: \<open>rows\<close> is what the store holds, \<open>cut\<close> a number below which rows may have been deleted, and \<open>top\<close>
  the number behind the last row it was given. The client lemmas of Chat_Resume are proved from it alone.
\<close>

locale event_store =
  fixes S :: "'s store_if" and inv :: "'s \<Rightarrow> bool" and rows :: "'s \<Rightarrow> stored_event list" and cut :: "'s \<Rightarrow> nat" and top_seq :: "'s \<Rightarrow> nat"
  assumes rows_sorted: "inv db \<Longrightarrow> sorted_wrt (<) (map st_Seq (rows db))"
    and apply_ok: "\<lbrakk>inv db; es_Apply S k op db = (True, db')\<rbrakk> \<Longrightarrow>
      inv db' \<and> rows db' = rows db @ so_Append op \<and> cut db' = cut db \<and>
      top_seq db' = (if so_Append op = [] then top_seq db else st_Seq (last (so_Append op)) + 1)"
    and apply_failed: "\<lbrakk>inv db; es_Apply S k op db = (False, db')\<rbrakk> \<Longrightarrow> db' = db"
    and trim_ok: "\<lbrakk>inv db; es_Trim S k b db = (Some f, db')\<rbrakk> \<Longrightarrow>
      inv db' \<and> set (rows db') \<subseteq> set (rows db) \<and> (\<forall>r\<in>set (rows db). r \<in> set (rows db') \<or> st_Seq r < cut db') \<and>
      cut db \<le> cut db' \<and> top_seq db' = top_seq db \<and> cut db' \<le> (if f = 0 then top_seq db' else f)"
    and trim_failed: "\<lbrakk>inv db; es_Trim S k b db = (None, db')\<rbrakk> \<Longrightarrow> db' = db"
    and range_ok: "\<lbrakk>inv db; 0 < limit; es_Range S k after before limit db = Some rs\<rbrakk> \<Longrightarrow>
      \<exists>n. rs = take n (filter (\<lambda>r. after < st_Seq r \<and> st_Seq r < before) (rows db)) \<and>
        (rs = [] \<longrightarrow> filter (\<lambda>r. after < st_Seq r \<and> st_Seq r < before) (rows db) = [])"

subsection \<open>The event log keeps it\<close>

definition log_rows :: "log_store \<Rightarrow> stored_event list" where
  "log_rows s = map (of_row \<circ> strip) (el_rows s)"

definition log_cut :: "log_store \<Rightarrow> nat" where
  "log_cut s = (case el_trimmed s of None \<Rightarrow> 0 | Some t \<Rightarrow> t + 1)"

definition store_inv :: "log_store \<Rightarrow> bool" where
  "store_inv s \<longleftrightarrow> log_inv s \<and> log_cut s \<le> log_next s"

lemma of_row_simps [simp]: "st_Seq (of_row r) = row_Seq r" "st_Payload (of_row r) = row_Payload r" "of_row (to_row e) = e" "to_row (of_row r) = r"
  "row_Seq (to_row e) = st_Seq e"
  by (simp_all add: of_row_def to_row_def)

lemma log_rows_db_pin: "map (of_row \<circ> strip) (db_pin b qs rows) = map (of_row \<circ> strip) rows"
  by (auto simp: db_pin_def)

lemma log_rows_filter: "filter (\<lambda>r. P (st_Seq r)) (log_rows s) = map (of_row \<circ> strip) (filter (\<lambda>x. P (row_Seq x)) (el_rows s))"
  by (simp add: log_rows_def filter_map comp_def)

lemma chat_Apply_ok:
  assumes "store_inv s" "chat_Apply k op s = (True, s')"
  shows "store_inv s' \<and> log_rows s' = log_rows s @ so_Append op \<and> log_cut s' = log_cut s \<and>
    log_next s' = (if so_Append op = [] then log_next s else st_Seq (last (so_Append op)) + 1)"
proof -
  let ?op = "\<lparr>op_Append = map to_row (so_Append op), op_Pin = so_Pin op, op_Unpin = so_Unpin op\<rparr>"
  have inv: "log_inv s" and a: "Apply (fst k) ?op s = (None, s')"
    using assms by (auto simp: store_inv_def chat_Apply_def split: prod.splits)
  from Apply_effect [OF inv a] obtain prev where c: "check_append (el_maxPayload s) (el_last s) (map to_row (so_Append op)) = Inr prev"
    and s': "s' = s\<lparr>el_rows := db_pin False (so_Unpin op) (db_pin True (so_Pin op) (el_rows s @ map fresh_row (map to_row (so_Append op)))),
        el_total := el_total s + int (sum_list (map (length \<circ> row_Payload) (map to_row (so_Append op)))), el_last := prev\<rparr>" by auto
  note snd = check_append_sound [OF c]
  have prev: "prev = (if so_Append op = [] then el_last s else Some (st_Seq (last (so_Append op))))"
    using snd by (simp add: last_map)
  then have top: "log_next s' = (if so_Append op = [] then log_next s else st_Seq (last (so_Append op)) + 1)"
    by (simp add: s' log_next_def)
  have "log_next s \<le> log_next s'"
  proof (cases "so_Append op = []")
    case False
    then have "to_row (last (so_Append op)) \<in> set (map to_row (so_Append op))" by simp
    then have "\<forall>p. el_last s = Some p \<longrightarrow> p < st_Seq (last (so_Append op))" using snd by fastforce
    then show ?thesis unfolding top using False by (auto simp: log_next_def split: option.splits)
  qed (simp add: top)
  moreover have "log_cut s' = log_cut s" by (simp add: s' log_cut_def)
  moreover have "log_rows s' = log_rows s @ so_Append op"
    by (simp add: s' log_rows_def log_rows_db_pin [unfolded comp_def] comp_def)
  ultimately show ?thesis using top Apply_inv [OF inv a] assms(1) by (simp add: store_inv_def)
qed

lemma chat_Apply_failed: "store_inv s \<Longrightarrow> chat_Apply k op s = (False, s') \<Longrightarrow> s' = s"
  by (auto simp: store_inv_def chat_Apply_def split: prod.splits dest!: Apply_effect)

lemma trim_cut:
  assumes "store_inv s" "trim q del b s = (None, s')"
  shows "store_inv s' \<and> log_next s' = log_next s \<and> log_cut s \<le> log_cut s' \<and> set (log_rows s') \<subseteq> set (log_rows s) \<and>
    (\<forall>r\<in>set (log_rows s). r \<in> set (log_rows s') \<or> st_Seq r < log_cut s')"
proof (cases "s' = s")
  case False
  have inv: "log_inv s" using assms(1) by (simp add: store_inv_def)
  obtain c f where sc: "trim_scan (el_total s - max b 0) 0 (filter (\<lambda>x. \<not> row_pinned x) (el_rows s)) = Some (c, f)"
    using False assms(2) by (auto simp: trim_def Let_def split: if_splits option.splits)
  with False assms(2) have s': "s' = s\<lparr>el_rows := filter (\<lambda>x. row_pinned x \<or> row_Seq x > c) (el_rows s), el_total := el_total s - f,
      el_trimmed := (case el_trimmed s of None \<Rightarrow> Some c | Some t \<Rightarrow> if c > t then Some c else Some t)\<rparr>"
    by (auto simp: trim_def Let_def split: if_splits)
  from trim_scan_spec [OF sc] obtain y where "y \<in> set (el_rows s)" "c = row_Seq y"
    by (metis filter_is_subset in_set_conv_decomp subsetD)
  then have c: "c < log_next s" using inv by (auto simp: log_inv_def log_next_def split: option.splits)
  have "log_cut s' = max (log_cut s) (c + 1)" by (auto simp: s' log_cut_def split: option.splits)
  moreover have "log_next s' = log_next s" by (simp add: s' log_next_def)
  moreover have "set (log_rows s') \<subseteq> set (log_rows s)" by (auto simp: s' log_rows_def)
  moreover have "\<forall>r\<in>set (log_rows s). r \<in> set (log_rows s') \<or> st_Seq r < c + 1" by (auto simp: s' log_rows_def)
  ultimately show ?thesis using trim_inv [OF inv assms(2)] assms(1) c by (fastforce simp: store_inv_def)
qed (use assms in auto)

lemma chat_Trim_ok:
  assumes "store_inv s" "chat_Trim k b s = (Some f, s')"
  shows "store_inv s' \<and> set (log_rows s') \<subseteq> set (log_rows s) \<and> (\<forall>r\<in>set (log_rows s). r \<in> set (log_rows s') \<or> st_Seq r < log_cut s') \<and>
    log_cut s \<le> log_cut s' \<and> log_next s' = log_next s \<and> log_cut s' \<le> (if f = 0 then log_next s' else f)"
proof -
  obtain q del q' where k: "k = (q, del, q')" by (cases k) auto
  then obtain s1 where t: "trim q del b s = (None, s1)"
    and s': "(case FirstUnpinned q' s1 of None \<Rightarrow> (Inr 0, s1) | Some first \<Rightarrow> (Inr first, s1\<lparr>el_floor := first\<rparr>)) = (Inr f, s')"
    using assms(2) by (auto simp: chat_Trim_def Trim_def split: prod.splits sum.splits option.splits)
  note c = trim_cut [OF assms(1) t]
  have same: "log_rows s' = log_rows s1" "log_cut s' = log_cut s1" "log_next s' = log_next s1" "store_inv s' = store_inv s1"
    using s' log_inv_cong [of s' s1] by (auto simp: log_rows_def log_cut_def log_next_def store_inv_def split: option.splits)
  have "log_cut s' \<le> f" if "f \<noteq> 0"
  proof -
    have "FirstUnpinned q' s1 = Some f" using s' that by (auto split: option.splits)
    then show ?thesis using FirstUnpinned_above [of q' s1 f] same(2) by (auto simp: log_cut_def Suc_le_eq split: option.splits)
  qed
  moreover have "log_cut s' \<le> log_next s'" using c same by (simp add: store_inv_def)
  ultimately show ?thesis using c same by auto
qed

lemma chat_Trim_failed: "chat_Trim k b s = (None, s') \<Longrightarrow> s' = s"
  by (auto simp: chat_Trim_def Trim_def trim_def Let_def split: prod.splits sum.splits option.splits if_splits)

lemma chat_Range_ok:
  assumes "store_inv s" "0 < limit" "chat_Range k after before limit s = Some rs"
  shows "\<exists>n. rs = take n (filter (\<lambda>r. after < st_Seq r \<and> st_Seq r < before) (log_rows s)) \<and>
    (rs = [] \<longrightarrow> filter (\<lambda>r. after < st_Seq r \<and> st_Seq r < before) (log_rows s) = [])"
proof -
  have inv: "log_inv s" using assms(1) by (simp add: store_inv_def)
  have B: "filter (\<lambda>r. after < st_Seq r \<and> st_Seq r < before) (log_rows s) = map (of_row \<circ> strip) (between after before s)"
    by (simp only: log_rows_filter [of "\<lambda>n. after < n \<and> n < before"] between_def)
  obtain er where er: "Range_log (fst k) after before limit s = Inr er" "rs = map of_row er"
    using assms(3) by (auto simp: chat_Range_def split: sum.splits)
  have open_log: "\<not> el_closed s" "after < log_next s" using er(1) by (auto simp: Range_log_def split: if_splits)
  from Range_log_prefix [OF inv open_log assms(2)] obtain n where n: "Range_log True after before limit s = Inr (map strip (take n (between after before s)))"
    "between after before s = [] \<or> 0 < n" by blast
  have "Range_log (fst k) after before limit s = Range_log True after before limit s"
    using er(1) by (auto simp: Range_log_def Let_def split: if_splits)
  then have "rs = take n (map (of_row \<circ> strip) (between after before s))" using er n(1) by (simp add: take_map)
  then show ?thesis unfolding B using n(2) by (intro exI [of _ n]) auto
qed

lemma chatEventStore_fields [simp]:
  "es_Apply chatEventStore = chat_Apply" "es_Range chatEventStore = chat_Range" "es_Trim chatEventStore = chat_Trim"
  by (simp_all add: chatEventStore_def)

lemma log_rows_sorted: "store_inv db \<Longrightarrow> sorted_wrt (<) (map st_Seq (log_rows db))"
  by (simp add: store_inv_def log_inv_def log_rows_def comp_def strip_simps(1))

interpretation ev: event_store chatEventStore store_inv log_rows log_cut log_next
  by unfold_locales
    (unfold chatEventStore_fields, (fact log_rows_sorted | erule (1) chat_Apply_ok chat_Apply_failed chat_Trim_ok |
      erule chat_Trim_failed | erule (2) chat_Range_ok)+)

section \<open>Lemmas\<close>

subsection \<open>The search in the ring\<close>

lemma search_seq_bounds:
  assumes "lo \<le> hi" "hi \<le> length ring" "sorted_wrt (<) (map ev_Seq ring)"
    "\<forall>i<lo. ev_Seq (ring ! i) \<le> after" "\<forall>i<length ring. hi \<le> i \<longrightarrow> after < ev_Seq (ring ! i)"
  shows "let k = search_seq ring after lo hi in
    k \<le> length ring \<and> (\<forall>i<k. ev_Seq (ring ! i) \<le> after) \<and> (\<forall>i<length ring. k \<le> i \<longrightarrow> after < ev_Seq (ring ! i))"
  using assms
proof (induction ring after lo hi rule: search_seq.induct)
  case (1 ring after lo hi)
  let ?m = "(lo + hi) div 2"
  have mono: "ev_Seq (ring ! i) \<le> ev_Seq (ring ! j)" if "i \<le> j" "j < length ring" for i j
    using that 1(5) by (cases "i = j") (auto simp: sorted_wrt_iff_nth_less intro: less_imp_le)
  show ?case
  proof (cases "lo < hi")
    case False
    with 1 show ?thesis by (subst search_seq.simps) (auto simp: Let_def)
  next
    case True
    then have m: "lo \<le> ?m" "?m < hi" by auto
    show ?thesis
    proof (cases "ev_Seq (ring ! ?m) \<le> after")
      case le: True
      have "\<forall>i<?m + 1. ev_Seq (ring ! i) \<le> after"
      proof (intro allI impI)
        fix i assume "i < ?m + 1"
        then show "ev_Seq (ring ! i) \<le> after" using mono [of i ?m] m 1(4) le by simp
      qed
      then show ?thesis using 1(1) [OF True refl le] 1(4-7) True le m by (subst search_seq.simps) (simp add: Let_def)
    next
      case gt: False
      have "\<forall>i<length ring. ?m \<le> i \<longrightarrow> after < ev_Seq (ring ! i)"
      proof (intro allI impI)
        fix i assume "i < length ring" "?m \<le> i"
        then show "after < ev_Seq (ring ! i)" using mono [of ?m i] gt by simp
      qed
      then show ?thesis using 1(2) [OF True refl gt] 1(4-7) True gt m by (subst search_seq.simps) (simp add: Let_def)
    qed
  qed
qed

lemma sortSearchSeq_filter:
  assumes "sorted_wrt (<) (map ev_Seq ring)"
  shows "drop (sortSearchSeq ring after) ring = filter (\<lambda>e. after < ev_Seq e) ring"
proof -
  let ?k = "sortSearchSeq ring after"
  have k: "?k \<le> length ring" "\<forall>i<?k. ev_Seq (ring ! i) \<le> after" "\<forall>i<length ring. ?k \<le> i \<longrightarrow> after < ev_Seq (ring ! i)"
    using search_seq_bounds [of 0 "length ring" ring after] assms by (simp_all add: sortSearchSeq_def Let_def)
  have "filter (\<lambda>e. after < ev_Seq e) (take ?k ring) = []"
    using k(1,2) by (auto simp: filter_empty_conv in_set_conv_nth not_less)
  moreover have "filter (\<lambda>e. after < ev_Seq e) (drop ?k ring) = drop ?k ring"
    using k(1,3) by (auto simp: filter_id_conv in_set_conv_nth)
  ultimately show ?thesis by (metis append_Nil append_take_drop_id filter_append)
qed

subsection \<open>Batches\<close>

lemma take_ops_split: "take_ops first n b ps = (ops, rest) \<Longrightarrow> ps = ops @ rest"
  by (induction first n b ps arbitrary: ops rest rule: take_ops.induct) (auto split: if_splits prod.splits)

lemma take_ops_first: "take_ops True n b (p # ps) = (ops, rest) \<Longrightarrow> ops \<noteq> []"
  by (auto split: prod.splits)

text \<open>What an operation does to the pin of a row.\<close>

definition pin_effect :: "store_op \<Rightarrow> nat \<Rightarrow> bool option" where
  "pin_effect op q = (if q \<in> set (so_Unpin op) then Some False else if q \<in> set (so_Pin op) then Some True else None)"

definition db_effect :: "(nat \<Rightarrow> bool option) \<Rightarrow> db_row list \<Rightarrow> db_row list" where
  "db_effect st = map (\<lambda>x. case st (row_Seq x) of None \<Rightarrow> x | Some v \<Rightarrow> x\<lparr>row_pinned := v\<rparr>)"

lemma note_pins:
  assumes "fold (note_pin v) qs (order, st) = (order', st')" "set order = dom st"
  shows "st' = (\<lambda>q. if q \<in> set qs then Some v else st q) \<and> set order' = dom st'"
  using assms
proof (induction qs arbitrary: order st)
  case (Cons q qs)
  obtain o1 s1 where n: "note_pin v q (order, st) = (o1, s1)" by force
  then have n': "s1 = st(q \<mapsto> v)" "set o1 = dom s1" using Cons.prems(2) by (auto simp: note_pin_def split: if_splits)
  have "fold (note_pin v) qs (o1, s1) = (order', st')" using Cons.prems(1) n by simp
  from Cons.IH [OF this n'(2)] show ?case unfolding n'(1) by (simp add: fun_eq_iff)
qed simp

fun all_effects :: "store_op list \<Rightarrow> nat \<Rightarrow> bool option" where
  "all_effects [] = (\<lambda>_. None)"
| "all_effects (op # ops) = (\<lambda>q. case all_effects ops q of None \<Rightarrow> pin_effect op q | Some v \<Rightarrow> Some v)"

lemma note_ops:
  assumes "fold note_op ops (order, st) = (order', st')" "set order = dom st"
  shows "st' = (\<lambda>q. case all_effects ops q of None \<Rightarrow> st q | Some v \<Rightarrow> Some v) \<and> set order' = dom st'"
  using assms
proof (induction ops arbitrary: order st)
  case (Cons op ops)
  obtain o1 s1 where p: "fold (note_pin True) (so_Pin op) (order, st) = (o1, s1)" by force
  obtain o2 s2 where u: "fold (note_pin False) (so_Unpin op) (o1, s1) = (o2, s2)" by force
  note p' = note_pins [OF p Cons.prems(2)]
  note u' = note_pins [OF u conjunct2 [OF p']]
  have "s2 = (\<lambda>q. case pin_effect op q of None \<Rightarrow> st q | Some v \<Rightarrow> Some v)"
    using p' u' by (auto simp: fun_eq_iff pin_effect_def)
  moreover have "st' = (\<lambda>q. case all_effects ops q of None \<Rightarrow> s2 q | Some v \<Rightarrow> Some v) \<and> set order' = dom st'"
    using Cons.IH [of o2 s2] u' Cons.prems(1) p u by (simp add: note_op_def)
  ultimately show ?case by (auto simp: fun_eq_iff split: option.split)
qed simp

lemma normalizePins_sets:
  "set (so_Unpin (normalizePins op)) = set (so_Unpin op)" "set (so_Pin (normalizePins op)) = set (so_Pin op) - set (so_Unpin op)"
  by (auto simp: normalizePins_def)

lemma mergeOps_Append: "so_Append (mergeOps ops) = concat (map so_Append ops)"
  by (auto simp: mergeOps_def normalizePins_def split: list.split prod.split)

lemma mergeOps_pins: "pin_effect (mergeOps ops) = all_effects ops \<and>
  set (so_Pin (mergeOps ops)) \<union> set (so_Unpin (mergeOps ops)) = dom (all_effects ops)"
proof (cases "\<exists>op. ops = [op]")
  case True
  then obtain op where ops: "ops = [op]" by blast
  have "all_effects ops = pin_effect op" by (simp add: ops)
  then show ?thesis by (auto simp: ops mergeOps_def pin_effect_def normalizePins_sets fun_eq_iff split: if_splits)
next
  case False
  obtain order st where f: "fold note_op ops ([], \<lambda>_. None) = (order, st)" by force
  have st: "st = all_effects ops" "set order = dom st"
    using note_ops [OF f] by (auto simp: fun_eq_iff split: option.splits)
  have m: "mergeOps ops = \<lparr>so_Append = concat (map so_Append ops), so_Pin = filter (\<lambda>q. st q = Some True) order,
      so_Unpin = filter (\<lambda>q. st q \<noteq> Some True) order\<rparr>"
    using False f by (auto simp: mergeOps_def split: list.split)
  show ?thesis unfolding m st(1) [symmetric] using st(2) by (auto simp: pin_effect_def fun_eq_iff)
qed

lemma db_pin_effect: "db_pin False (so_Unpin op) (db_pin True (so_Pin op) rows) = db_effect (pin_effect op) rows"
  by (auto simp: db_pin_def db_effect_def pin_effect_def)

lemma check_append_append:
  "check_append m p (xs @ ys) = bindR (check_append m p xs) (\<lambda>p'. check_append m p' ys)"
  by (induction m p xs rule: check_append.induct) auto

text \<open>The operations one by one.\<close>

fun apply_each :: "store_op list \<Rightarrow> log_store \<Rightarrow> bool \<times> log_store" where
  "apply_each [] s = (True, s)"
| "apply_each (op # ops) s = (case chat_Apply (True, True, True) op s of (True, s') \<Rightarrow> apply_each ops s' | (False, s') \<Rightarrow> (False, s'))"

text \<open>No operation pins or unpins a row that a later one appends.\<close>

fun pins_old :: "store_op list \<Rightarrow> bool" where
  "pins_old [] = True"
| "pins_old (op # ops) \<longleftrightarrow>
     (set (so_Pin op) \<union> set (so_Unpin op)) \<inter> st_Seq ` set (concat (map so_Append ops)) = {} \<and> pins_old ops"

lemma db_effect_simps: "db_effect st (xs @ ys) = db_effect st xs @ db_effect st ys" "map row_Seq (db_effect st xs) = map row_Seq xs"
  by (auto simp: db_effect_def split: option.split)

lemma db_effect_comp:
  "db_effect st (db_effect st' xs) = db_effect (\<lambda>q. case st q of None \<Rightarrow> st' q | Some v \<Rightarrow> Some v) xs"
  by (auto simp: db_effect_def split: option.splits)

lemma db_effect_cong: "(\<And>x. x \<in> set xs \<Longrightarrow> st (row_Seq x) = st' (row_Seq x)) \<Longrightarrow> db_effect st xs = db_effect st' xs"
  by (auto simp: db_effect_def)

definition new_rows :: "stored_event list \<Rightarrow> db_row list" where
  "new_rows es = map (\<lambda>e. fresh_row (to_row e)) es"

definition new_bytes :: "stored_event list \<Rightarrow> int" where
  "new_bytes es = int (sum_list (map (\<lambda>e. length (st_Payload e)) es))"

definition applied_store :: "(nat \<Rightarrow> bool option) \<Rightarrow> stored_event list \<Rightarrow> nat option \<Rightarrow> log_store \<Rightarrow> log_store" where
  "applied_store st es prev s = s\<lparr>el_rows := db_effect st (el_rows s @ new_rows es), el_total := el_total s + new_bytes es, el_last := prev\<rparr>"

lemma applied_twice:
  assumes "dom st \<inter> st_Seq ` set es' = {}"
  shows "applied_store st' es' p' (applied_store st es p s) = applied_store (\<lambda>q. case st' q of None \<Rightarrow> st q | Some v \<Rightarrow> Some v) (es @ es') p' s"
proof -
  have "db_effect st' (new_rows es') = db_effect (\<lambda>q. case st' q of None \<Rightarrow> st q | Some v \<Rightarrow> Some v) (new_rows es')"
  proof (rule db_effect_cong)
    fix x assume "x \<in> set (new_rows es')"
    then have "st (row_Seq x) = None" using assms by (auto simp: new_rows_def dom_def)
    then show "st' (row_Seq x) = (case st' (row_Seq x) of None \<Rightarrow> st (row_Seq x) | Some v \<Rightarrow> Some v)" by (simp split: option.split)
  qed
  then show ?thesis by (simp add: applied_store_def db_effect_simps db_effect_comp) (simp add: new_rows_def new_bytes_def db_effect_simps)
qed

definition seqs_ok :: "(nat \<Rightarrow> bool option) \<Rightarrow> bool" where
  "seqs_ok st \<longleftrightarrow> (\<forall>q\<in>dom st. q < MaxInt64)"

lemma check_seqs_iff: "check_seqs qs = Inr () \<longleftrightarrow> (\<forall>q\<in>set qs. q < MaxInt64)"
  by (auto simp: check_seqs_def eachR_Inr_iff)

lemma chat_Apply_iff:
  assumes "log_inv s"
  shows "chat_Apply (True, k) op s = (True, s') \<longleftrightarrow>
    \<not> el_closed s \<and> seqs_ok (pin_effect op) \<and>
    (\<exists>prev. check_append (el_maxPayload s) (el_last s) (map to_row (so_Append op)) = Inr prev \<and> s' = applied_store (pin_effect op) (so_Append op) prev s)"
proof -
  let ?op = "\<lparr>op_Append = map to_row (so_Append op), op_Pin = so_Pin op, op_Unpin = so_Unpin op\<rparr>"
  have seqs: "seqs_ok (pin_effect op) \<longleftrightarrow> check_seqs (so_Pin op) = Inr () \<and> check_seqs (so_Unpin op) = Inr ()"
    unfolding check_seqs_iff seqs_ok_def by (auto simp: pin_effect_def dom_def split: if_splits)
  have bytes: "int (sum_list (map (length \<circ> row_Payload) (map to_row es))) = new_bytes es" "map fresh_row (map to_row es) = new_rows es" for es
    by (simp_all add: new_bytes_def new_rows_def to_row_def comp_def)
  have "Apply True ?op s = (None, s') \<longleftrightarrow> \<not> el_closed s \<and> seqs_ok (pin_effect op) \<and>
    (\<exists>prev. check_append (el_maxPayload s) (el_last s) (map to_row (so_Append op)) = Inr prev \<and> s' = applied_store (pin_effect op) (so_Append op) prev s)"
    (is "?L \<longleftrightarrow> ?R")
  proof
    assume ?L
    then have "\<not> el_closed s \<and> seqs_ok (pin_effect op)"
      unfolding seqs by (auto simp: Apply_def split: if_splits sum.splits option.splits)
    with Apply_effect [OF assms \<open>?L\<close>] show ?R by (auto simp: db_pin_effect applied_store_def bytes [unfolded map_map])
  next
    assume R: ?R
    then obtain prev where prev: "check_append (el_maxPayload s) (el_last s) (map to_row (so_Append op)) = Inr prev"
      "s' = applied_store (pin_effect op) (so_Append op) prev s" "\<not> el_closed s" "check_seqs (so_Pin op) = Inr ()" "check_seqs (so_Unpin op) = Inr ()"
      using seqs by blast
    have "db_inserts (map to_row (so_Append op)) (el_rows s) \<noteq> None"
      using db_inserts_append [OF prev(1), of "el_rows s"] assms by (fastforce simp: log_inv_def split: option.splits)
    then have "fst (Apply True ?op s) = None" using prev(1,3-5) by (auto simp: Apply_def)
    then obtain s'' where a: "Apply True ?op s = (None, s'')" by (metis prod.collapse)
    from Apply_effect [OF assms a] prev(1,2) have "s'' = s'" by (auto simp: db_pin_effect applied_store_def bytes [unfolded map_map])
    with a show ?L by simp
  qed
  moreover have "chat_Apply (True, k) op s = (True, s') \<longleftrightarrow> Apply True ?op s = (None, s')"
    by (cases "Apply True ?op s") (auto simp: chat_Apply_def)
  ultimately show ?thesis by (simp only:)
qed

lemma apply_each_effect:
  assumes "log_inv s" "apply_each ops s = (True, s')" "pins_old ops" "ops \<noteq> []"
  shows "\<not> el_closed s \<and> seqs_ok (all_effects ops) \<and>
    (\<exists>prev. check_append (el_maxPayload s) (el_last s) (map to_row (concat (map so_Append ops))) = Inr prev \<and>
       s' = applied_store (all_effects ops) (concat (map so_Append ops)) prev s)"
  using assms
proof (induction ops arbitrary: s)
  case (Cons op ops)
  obtain s1 where s1: "chat_Apply (True, True, True) op s = (True, s1)" "apply_each ops s1 = (True, s')"
    using Cons.prems(2) by (auto split: prod.splits bool.splits)
  from s1(1) obtain p where p: "\<not> el_closed s" "seqs_ok (pin_effect op)"
    "check_append (el_maxPayload s) (el_last s) (map to_row (so_Append op)) = Inr p" "s1 = applied_store (pin_effect op) (so_Append op) p s"
    unfolding chat_Apply_iff [OF Cons.prems(1)] by blast
  have d: "dom (pin_effect op) = set (so_Pin op) \<union> set (so_Unpin op)" by (auto simp: pin_effect_def dom_def)
  show ?case
  proof (cases "ops = []")
    case True
    then show ?thesis using p s1(2) by auto
  next
    case False
    have inv: "log_inv s1" using s1(1) Cons.prems(1) by (auto simp: chat_Apply_def split: prod.splits dest: Apply_inv)
    have po: "pins_old ops" "dom (pin_effect op) \<inter> st_Seq ` set (concat (map so_Append ops)) = {}"
      using Cons.prems(3) d by auto
    have f: "el_maxPayload s1 = el_maxPayload s" "el_last s1 = p" "el_closed s1 = el_closed s" by (simp_all add: p(4) applied_store_def)
    from Cons.IH [OF inv s1(2) po(1) False] obtain p' where p': "seqs_ok (all_effects ops)"
      "check_append (el_maxPayload s) p (map to_row (concat (map so_Append ops))) = Inr p'"
      "s' = applied_store (all_effects ops) (concat (map so_Append ops)) p' s1" unfolding f by blast
    have "seqs_ok (all_effects (op # ops))" using p(2) p'(1) by (auto simp: seqs_ok_def dom_def split: option.splits)
    moreover have "s' = applied_store (all_effects (op # ops)) (concat (map so_Append (op # ops))) p' s"
      unfolding p'(3) p(4) applied_twice [OF po(2)] by simp
    moreover have "check_append (el_maxPayload s) (el_last s) (map to_row (concat (map so_Append (op # ops)))) = Inr p'"
      using p(3) p'(2) by (simp add: check_append_append)
    ultimately show ?thesis using p(1) by blast
  qed
qed simp

section \<open>Properties\<close>

text \<open>
  C30: The batches of the writer change nothing but the number of transactions: if the operations that it takes in one go can be
  applied to the log one by one, the merged operation can be applied in one transaction and leaves the same log, as long
  as no operation pins a row that a later one appends.
\<close>

theorem batching_equiv:
  assumes "log_run s0 tr s" "Open_log g m = Inr s0" "apply_each ops s = (True, s')" "pins_old ops" "ops \<noteq> []"
  shows "chat_Apply (True, k) (mergeOps ops) s = (True, s')"
proof -
  have inv: "log_inv s" using log_run_inv [OF assms(1) Open_log_inv [OF assms(2)]] .
  from apply_each_effect [OF inv assms(3-5)] show ?thesis
    unfolding chat_Apply_iff [OF inv] mergeOps_Append conjunct1 [OF mergeOps_pins] by blast
qed

definition ex_ops :: "store_op list" where
  "ex_ops = [\<lparr>so_Append = [\<lparr>st_Seq = 1, st_Payload = ''a''\<rparr>], so_Pin = [1], so_Unpin = []\<rparr>, \<lparr>so_Append = [], so_Pin = [], so_Unpin = [1]\<rparr>,
     \<lparr>so_Append = [\<lparr>st_Seq = 2, st_Payload = ''b''\<rparr>], so_Pin = [1, 2], so_Unpin = [2]\<rparr>]"

theorem batching_equiv_witness:
  "\<exists>s'. apply_each ex_ops ex_open = (True, s') \<and> chat_Apply (True, True, True) (mergeOps ex_ops) ex_open = (True, s') \<and> length (el_rows s') = 2"
proof -
  have "\<exists>s'. apply_each ex_ops ex_open = (True, s') \<and> length (el_rows s') = 2"
    by (simp add: ex_ops_def ex_open_def chat_Apply_def Apply_def check_seqs_def db_insert_def db_pin_def to_row_def MaxInt64_def)
  then obtain s' where s': "apply_each ex_ops ex_open = (True, s')" "length (el_rows s') = 2" by blast
  have "pins_old ex_ops" "ex_ops \<noteq> []" by (simp_all add: ex_ops_def)
  from batching_equiv [OF log_run_Nil ex_opened s'(1) this, of "(True, True)"] s' show ?thesis by blast
qed

end
