(* ===== verification/Chat_Resume.thy ===== *)
theory Chat_Resume
  imports Chat_Store
begin

text \<open>
  What the hub, the writer, the log and its readers do together (the system of Chat_Store). The invariant of the system and its
  preservation use only the contract \<open>event_store\<close>; the properties are about the event log, which keeps it.
\<close>

section \<open>The invariant\<close>

definition to_store :: "event list \<Rightarrow> stored_event list" where
  "to_store pub = map stored_of (filter ev_Durable pub)"

fun inflight :: "writer_pc \<Rightarrow> stored_event list" where
  "inflight (WApply op) = so_Append op"
| "inflight (WApplied op applied) = (if applied then [] else so_Append op)"
| "inflight _ = []"

definition ring_ok :: "event list \<Rightarrow> hub \<Rightarrow> bool" where
  "ring_ok pub h \<longleftrightarrow> sorted_wrt (<) (map ev_Seq pub) \<and> hb_head h \<le> length (hb_ring h) \<and> (\<exists>old. pub = old @ hub_ring h) \<and>
     hb_nextSeq h = (if pub = [] then 0 else ev_Seq (last pub) + 1)"

text \<open>How far \<open>written\<close> has come, where the writer is.\<close>

fun written_ok :: "writer_pc \<Rightarrow> int \<Rightarrow> nat \<Rightarrow> bool" where
  "written_ok (WApplied op applied) wr tp =
     (if applied \<and> so_Append op \<noteq> [] then tp = st_Seq (last (so_Append op)) + 1 else wr + 1 = int tp)"
| "written_ok WStopped wr tp = True"
| "written_ok _ wr tp = (wr + 1 = int tp)"

text \<open>The published events are those in the log, then the operation in the hands of the writer, then its queue.\<close>

definition log_ok :: "stored_event list \<Rightarrow> nat \<Rightarrow> nat \<Rightarrow> event list \<Rightarrow> writer_pc \<Rightarrow> store_writer \<Rightarrow> bool" where
  "log_ok rws ct tp pub pc w \<longleftrightarrow>
     (\<exists>xs zs. to_store pub = xs @ inflight pc @ zs \<and> (\<forall>r\<in>set xs. r \<in> set rws \<or> st_Seq r < ct) \<and> set rws \<subseteq> set xs \<and>
        tp = (if xs = [] then 0 else st_Seq (last xs) + 1) \<and> (\<not> sw_degraded w \<longrightarrow> zs = concat (map so_Append (sw_pending w)))) \<and>
     - 1 \<le> sw_written w \<and> sw_written w < int tp \<and> written_ok pc (sw_written w) tp"

fun trimming :: "writer_pc \<Rightarrow> bool" where
  "trimming WTrimming = True"
| "trimming (WTrimmed _) = True"
| "trimming (WTrimEnd _) = True"
| "trimming _ = False"

fun trimmed_to :: "writer_pc \<Rightarrow> store_writer \<Rightarrow> nat" where
  "trimmed_to (WTrimmed (Some f)) w = max (sw_trimmed w) (if f = 0 then nat (sw_written w + 1) else f)"
| "trimmed_to _ w = sw_trimmed w"

definition cut_ok :: "nat \<Rightarrow> writer_pc \<Rightarrow> store_writer \<Rightarrow> bool" where
  "cut_ok ct pc w \<longleftrightarrow> ct \<le> trimmed_to pc w \<and> (sw_trims w = 0 \<longrightarrow> sw_trimmed w = 0) \<and> odd (sw_trims w) = trimming pc"

definition evict_ok :: "event list \<Rightarrow> hub \<Rightarrow> store_writer \<Rightarrow> bool" where
  "evict_ok pub h w \<longleftrightarrow> \<not> sw_degraded w \<longrightarrow>
     (\<forall>old e. pub = old @ hub_ring h \<and> e \<in> set old \<and> ev_Durable e \<longrightarrow> int (ev_Seq e) \<le> sw_written w)"

definition delivered :: "nat \<Rightarrow> reader \<Rightarrow> bool" where
  "delivered n r \<longleftrightarrow> (\<forall>e\<in>set (rd_pub r). ev_Durable e \<and> rd_after r < ev_Seq e \<and> rd_first r \<le> ev_Seq e \<and> ev_Seq e < min n (rd_before r) \<longrightarrow>
     stored_of e \<in> stored_of ` set (rd_got r))"

definition reader_events :: "reader \<Rightarrow> hub \<Rightarrow> event list" where
  "reader_events r h = (let sub = hb_objs h ! rd_sub r in rd_got r @ sb_Snapshot sub @ sb_got sub @ sb_queue sub)"

definition subscribed :: "event list \<Rightarrow> hub \<Rightarrow> reader \<Rightarrow> bool" where
  "subscribed pub h r \<longleftrightarrow>
     (\<exists>ys. pub = rd_pub r @ ys \<and>
        track (rd_sub r) (filter (\<lambda>e. rd_after r < ev_Seq e \<and> rd_before r \<le> ev_Seq e) (rd_pub r)) ys h) \<and>
     rd_pub r \<noteq> [] \<and> rd_after r \<le> ev_Seq (last (rd_pub r)) \<and> rd_before r \<le> ev_Seq (last (rd_pub r)) + 1 \<and> sorted_wrt (<) (map ev_Seq (rd_got r)) \<and>
     (\<forall>g\<in>set (rd_got r). rd_after r < ev_Seq g \<and> ev_Seq g < rd_before r \<and> stored_of g \<in> set (to_store pub))"

definition filling :: "stored_event set \<Rightarrow> nat \<Rightarrow> nat \<Rightarrow> reader \<Rightarrow> bool" where
  "filling rws ct tr r \<longleftrightarrow> (let b = rd_bf r in
     bf_before b = rd_before r \<and> 0 < bf_batch b \<and> even (bf_trims b) \<and> bf_trims b \<le> tr \<and> rd_after r \<le> bf_cursor b \<and>
     (\<forall>g\<in>set (rd_got r). ev_Seq g \<le> bf_cursor b) \<and>
     (\<forall>e\<in>set (rd_pub r). ev_Durable e \<and> rd_after r < ev_Seq e \<and> ev_Seq e < rd_before r \<longrightarrow> stored_of e \<in> rws \<or> ev_Seq e < ct) \<and>
     (bf_trims b = tr \<longrightarrow> (\<forall>n. rd_first r \<le> n \<and> n < rd_before r \<longrightarrow> ct \<le> n) \<and>
        delivered (if rd_pc r = RFinal then rd_before r else bf_cursor b + 1) r))"

fun loaded_ok :: "nat \<Rightarrow> reader_pc \<Rightarrow> bool" where
  "loaded_ok tr (RLoaded t) = (t \<le> tr)"
| "loaded_ok tr _ = True"

definition reader_ok :: "stored_event set \<Rightarrow> nat \<Rightarrow> nat \<Rightarrow> event list \<Rightarrow> hub \<Rightarrow> reader \<Rightarrow> bool" where
  "reader_ok rws ct tr pub h r \<longleftrightarrow> loaded_ok tr (rd_pc r) \<and>
     (rd_pc r \<in> {RCheck, RRange, RFinal, REOF} \<longrightarrow> subscribed pub h r) \<and>
     (rd_pc r \<in> {RCheck, RRange, RFinal} \<longrightarrow> filling rws ct tr r) \<and>
     (rd_pc r = REOF \<longrightarrow> delivered (rd_before r) r)"

definition sys_inv :: "('s \<Rightarrow> bool) \<Rightarrow> ('s \<Rightarrow> stored_event list) \<Rightarrow> ('s \<Rightarrow> nat) \<Rightarrow> ('s \<Rightarrow> nat) \<Rightarrow> 's sys \<Rightarrow> store_writer \<Rightarrow> bool" where
  "sys_inv dbok rows ctf top_seq s w \<longleftrightarrow>
     hb_w (sy_hub s) = Some w \<and> dbok (sy_db s) \<and> ring_ok (sy_pub s) (sy_hub s) \<and> (sw_closing w \<longrightarrow> hb_ended (sy_hub s)) \<and>
     log_ok (rows (sy_db s)) (ctf (sy_db s)) (top_seq (sy_db s)) (sy_pub s) (wr_pc (sy_run s)) w \<and>
     cut_ok (ctf (sy_db s)) (wr_pc (sy_run s)) w \<and> evict_ok (sy_pub s) (sy_hub s) w \<and>
     (\<forall>i. reader_ok (set (rows (sy_db s))) (ctf (sy_db s)) (sw_trims w) (sy_pub s) (sy_hub s) (sy_readers s i))"

section \<open>Steps of the hub\<close>

definition same_marks :: "store_writer \<Rightarrow> store_writer \<Rightarrow> bool" where
  "same_marks w w' \<longleftrightarrow> sw_written w' = sw_written w \<and> sw_trimmed w' = sw_trimmed w \<and> sw_trims w' = sw_trims w"

lemma degrade_fields [simp]:
  "sw_written (degrade w) = sw_written w" "sw_trimmed (degrade w) = sw_trimmed w" "sw_trims (degrade w) = sw_trims w"
  "sw_closing (degrade w) = sw_closing w" "sw_degraded (degrade w)" "sw_gcMax (degrade w) = sw_gcMax w"
  by (simp_all add: degrade_def)

lemma same_marks_degrade [simp]: "same_marks w (degrade w)" "same_marks w w"
  by (simp_all add: same_marks_def)

lemma same_marks_enqueue: "same_marks w (enqueue op w)" "sw_closing (enqueue op w) = sw_closing w" "sw_degraded w \<Longrightarrow> sw_degraded (enqueue op w)"
  by (simp_all add: enqueue_def same_marks_def)

definition same_queue :: "store_writer \<Rightarrow> store_writer \<Rightarrow> bool" where
  "same_queue w w' \<longleftrightarrow> sw_degraded w' \<or> \<not> sw_degraded w \<and> sw_pending w' = sw_pending w"

lemma trimmed_to_marks: "same_marks w w' \<Longrightarrow> trimmed_to pc w' = trimmed_to pc w"
  by (cases "(pc, w)" rule: trimmed_to.cases) (auto simp: same_marks_def)

lemma cut_ok_marks: "same_marks w w' \<Longrightarrow> cut_ok ct pc w' = cut_ok ct pc w"
  unfolding cut_ok_def by (simp add: trimmed_to_marks) (simp add: same_marks_def)

lemma to_store_append [simp]: "to_store (xs @ ys) = to_store xs @ to_store ys"
  by (simp add: to_store_def)

lemma log_ok_degraded: "log_ok rws ct tp pub pc w \<Longrightarrow> same_marks w w' \<Longrightarrow> sw_degraded w' \<Longrightarrow> log_ok rws ct tp (pub @ es) pc w'"
  unfolding log_ok_def same_marks_def to_store_append by (elim conjE exE) (intro conjI exI, auto)

lemma log_ok_quiet:
  assumes "log_ok rws ct tp pub pc w" "same_marks w w'" "same_queue w w'"
  shows "log_ok rws ct tp pub pc w'"
proof (cases "sw_degraded w'")
  case True
  then show ?thesis using log_ok_degraded [OF assms(1,2), of "[]"] by simp
next
  case False
  then have "sw_pending w' = sw_pending w" "sw_written w' = sw_written w" "\<not> sw_degraded w"
    using assms(2,3) by (simp_all add: same_marks_def same_queue_def)
  then show ?thesis using assms(1) False by (simp add: log_ok_def)
qed

lemma log_ok_enqueue:
  assumes "log_ok rws ct tp pub pc w" "\<not> sw_closing w" "so_Append op = to_store es"
  shows "log_ok rws ct tp (pub @ es) pc (enqueue op w)"
proof (cases "sw_degraded (enqueue op w)")
  case True
  then show ?thesis using log_ok_degraded [OF assms(1) same_marks_enqueue(1)] by simp
next
  case False
  from assms(1) obtain xs zs where l: "to_store pub = xs @ inflight pc @ zs" "\<forall>r\<in>set xs. r \<in> set rws \<or> st_Seq r < ct" "set rws \<subseteq> set xs"
    "tp = (if xs = [] then 0 else st_Seq (last xs) + 1)" "\<not> sw_degraded w \<longrightarrow> zs = concat (map so_Append (sw_pending w))"
    by (auto simp: log_ok_def)
  have "sw_degraded w \<longrightarrow> sw_degraded (enqueue op w)" by (simp add: enqueue_def)
  then have "concat (map so_Append (sw_pending (enqueue op w))) = zs @ to_store es"
    using False l(5) assms(2,3) by (auto simp: enqueue_def split: if_splits)
  then have "to_store (pub @ es) = xs @ inflight pc @ concat (map so_Append (sw_pending (enqueue op w)))" using l(1) by simp
  then have ex: "\<exists>xs zs. to_store (pub @ es) = xs @ inflight pc @ zs \<and> (\<forall>r\<in>set xs. r \<in> set rws \<or> st_Seq r < ct) \<and> set rws \<subseteq> set xs \<and>
        tp = (if xs = [] then 0 else st_Seq (last xs) + 1) \<and>
        (\<not> sw_degraded (enqueue op w) \<longrightarrow> zs = concat (map so_Append (sw_pending (enqueue op w))))"
    using l(2-4) by blast
  show ?thesis
    using assms(1) same_marks_enqueue(1) [of w op] unfolding log_ok_def [of rws ct tp "pub @ es"]
    by (intro conjI ex) (simp_all add: log_ok_def same_marks_def)
qed

lemma ring_ok_new:
  assumes "ring_ok pub h" "follows es h"
  shows "sorted_wrt (<) (map ev_Seq (pub @ es))"
proof -
  have "ev_Seq e < hb_nextSeq h" if "e \<in> set pub" for e
    using that assms(1) sorted_append_last [of ev_Seq pub e] by (auto simp: ring_ok_def less_Suc_eq_le)
  then show ?thesis using assms by (fastforce simp: ring_ok_def follows_def sorted_wrt_append)
qed

lemma ring_ok_begin:
  assumes "ring_ok pub h" "follows es h"
  shows "ring_ok (pub @ es) (update_begin rd es p u h)"
proof -
  have "hub_ring (update_begin rd es p u h) = hub_ring h @ es"
    using assms(1) by (simp add: hub_ring_def update_begin_fields ring_ok_def)
  then show ?thesis using assms ring_ok_new [OF assms] by (auto simp: ring_ok_def update_begin_fields)
qed

lemma ring_ok_evict:
  assumes "ring_ok pub h" "must_evict h"
  shows "ring_ok pub (evict_step h)"
  using assms evict_step_ring(1) [OF assms(2)] by (auto simp: ring_ok_def must_evict_def)

lemma ring_ok_cong:
  "hb_ring h' = hb_ring h \<Longrightarrow> hb_head h' = hb_head h \<Longrightarrow> hb_nextSeq h' = hb_nextSeq h \<Longrightarrow> ring_ok pub h' = ring_ok pub h \<and> hub_ring h' = hub_ring h"
  by (simp add: ring_ok_def hub_ring_def)

lemma ring_ok_end: "ring_ok pub h \<Longrightarrow> ring_ok pub (update_end h)"
  by (auto simp: ring_ok_def) (auto simp: update_end_def Let_def)

lemma old_unique: "pub = old @ ring \<Longrightarrow> pub = old' @ ring \<Longrightarrow> old' = (old :: event list)"
  by simp

subsection \<open>What a reader relies on\<close>

lemma subscribed_mono:
  assumes "subscribed pub h r" "\<And>snap ys. track (rd_sub r) snap ys h \<Longrightarrow> track (rd_sub r) snap (ys @ es) h'"
  shows "subscribed (pub @ es) h' r"
proof -
  from assms(1) obtain ys where "pub = rd_pub r @ ys"
    "track (rd_sub r) (filter (\<lambda>e. rd_after r < ev_Seq e \<and> rd_before r \<le> ev_Seq e) (rd_pub r)) ys h" by (auto simp: subscribed_def)
  with assms(2) have "\<exists>ys. pub @ es = rd_pub r @ ys \<and>
      track (rd_sub r) (filter (\<lambda>e. rd_after r < ev_Seq e \<and> rd_before r \<le> ev_Seq e) (rd_pub r)) ys h'" by auto
  with assms(1) show ?thesis unfolding subscribed_def by auto
qed

lemma filling_mono:
  assumes "filling rws ct tr r" "\<forall>x\<in>rws. x \<in> rws' \<or> st_Seq x < ct'" "ct \<le> ct'" "tr \<le> tr'" "tr' = tr \<and> even tr \<Longrightarrow> ct' = ct"
  shows "filling rws' ct' tr' r"
proof -
  have "stored_of e \<in> rws' \<or> ev_Seq e < ct'" if "stored_of e \<in> rws \<or> ev_Seq e < ct" for e
    using that assms(2,3) by (auto simp: stored_of_def dest!: bspec)
  then have "\<forall>e\<in>set (rd_pub r). ev_Durable e \<and> rd_after r < ev_Seq e \<and> ev_Seq e < rd_before r \<longrightarrow> stored_of e \<in> rws' \<or> ev_Seq e < ct'"
    using assms(1) unfolding filling_def Let_def by blast
  moreover have "(\<forall>n. rd_first r \<le> n \<and> n < rd_before r \<longrightarrow> ct' \<le> n) \<and>
      delivered (if rd_pc r = RFinal then rd_before r else bf_cursor (rd_bf r) + 1) r" if "bf_trims (rd_bf r) = tr'"
  proof -
    have "tr' = tr" "even tr" using assms(1,4) that by (auto simp: filling_def Let_def)
    then show ?thesis using assms(1,5) that unfolding filling_def Let_def by blast
  qed
  moreover have "bf_trims (rd_bf r) \<le> tr'" using assms(1,4) by (simp add: filling_def Let_def)
  ultimately show ?thesis using assms(1) unfolding filling_def Let_def by blast
qed

lemma loaded_ok_mono: "loaded_ok tr pc \<Longrightarrow> tr \<le> tr' \<Longrightarrow> loaded_ok tr' pc"
  by (cases pc) auto

lemma reader_ok_mono:
  assumes "reader_ok rws ct tr pub h r" "\<forall>x\<in>rws. x \<in> rws' \<or> st_Seq x < ct'" "ct \<le> ct'" "tr \<le> tr'" "tr' = tr \<and> even tr \<Longrightarrow> ct' = ct"
    "\<And>j snap ys. following r j \<Longrightarrow> track j snap ys h \<Longrightarrow> track j snap (ys @ es) h'"
  shows "reader_ok rws' ct' tr' (pub @ es) h' r"
  unfolding reader_ok_def
proof (intro conjI impI)
  assume pc: "rd_pc r \<in> {RCheck, RRange, RFinal, REOF}"
  then show "subscribed (pub @ es) h' r"
    using assms(1,6) by (intro subscribed_mono [of pub h r es h']) (auto simp: reader_ok_def following_def)
next
  assume "rd_pc r \<in> {RCheck, RRange, RFinal}"
  then show "filling rws' ct' tr' r" using assms(1) filling_mono [OF _ assms(2-5)] by (simp add: reader_ok_def)
qed (use assms(1,4) loaded_ok_mono in \<open>auto simp: reader_ok_def\<close>)

text \<open>Steps that leave the log and the marks of the writer alone.\<close>

lemma reader_ok_hub:
  assumes "reader_ok rws ct tr pub h r" "\<And>j snap ys. following r j \<Longrightarrow> track j snap ys h \<Longrightarrow> track j snap (ys @ es) h'"
  shows "reader_ok rws ct tr (pub @ es) h' r"
  by (rule reader_ok_mono [OF assms(1)]) (use assms(2) in auto)

lemma reader_ok_track:
  "reader_ok rws ct tr pub h r \<Longrightarrow> (\<And>j snap ys. following r j \<Longrightarrow> track j snap ys h \<Longrightarrow> track j snap ys h') \<Longrightarrow> reader_ok rws ct tr pub h' r"
  using reader_ok_hub [of rws ct tr pub h r "[]" h'] by simp

lemma track_degrade: "track i snap pub (hub_degrade h) = track i snap pub h"
  by (rule track_cong) (simp_all add: hub_degrade_def)

section \<open>Each step keeps the invariant\<close>

context event_store
begin

abbreviation good :: "'s sys \<Rightarrow> store_writer \<Rightarrow> bool" where
  "good \<equiv> sys_inv inv rows cut top_seq"

lemma good_fields:
  assumes "good s w"
  shows "hb_w (sy_hub s) = Some w" "ring_ok (sy_pub s) (sy_hub s)" "sw_closing w \<longrightarrow> hb_ended (sy_hub s)" "inv (sy_db s)"
    "log_ok (rows (sy_db s)) (cut (sy_db s)) (top_seq (sy_db s)) (sy_pub s) (wr_pc (sy_run s)) w"
    "cut_ok (cut (sy_db s)) (wr_pc (sy_run s)) w" "evict_ok (sy_pub s) (sy_hub s) w"
    "reader_ok (set (rows (sy_db s))) (cut (sy_db s)) (sw_trims w) (sy_pub s) (sy_hub s) (sy_readers s i)"
  using assms unfolding sys_inv_def by blast+

lemma good_busy [simp]: "good (s\<lparr>sy_busy := b\<rparr>) w = good s w"
  by (simp add: sys_inv_def)

lemma good_hub:
  assumes "good s w" "hb_w h' = Some w'" "same_marks w w'"
    "ring_ok (sy_pub s @ es) h'" "sw_closing w' \<longrightarrow> hb_ended h'"
    "log_ok (rows (sy_db s)) (cut (sy_db s)) (top_seq (sy_db s)) (sy_pub s @ es) (wr_pc (sy_run s)) w'" "evict_ok (sy_pub s @ es) h' w'"
    "\<And>i j snap ys. following (sy_readers s i) j \<Longrightarrow> track j snap ys (sy_hub s) \<Longrightarrow> track j snap (ys @ es) h'"
  shows "good (s\<lparr>sy_hub := h', sy_busy := b, sy_pub := sy_pub s @ es\<rparr>) w'"
proof -
  have "sw_trims w' = sw_trims w" "cut_ok (cut (sy_db s)) (wr_pc (sy_run s)) w'"
    using assms(3) good_fields(6) [OF assms(1)] by (simp_all add: cut_ok_marks [OF assms(3)]) (simp add: same_marks_def)
  moreover have "reader_ok (set (rows (sy_db s))) (cut (sy_db s)) (sw_trims w) (sy_pub s @ es) h' (sy_readers s i)" for i
    by (rule reader_ok_hub [OF good_fields(8) [OF assms(1)]]) (rule assms(8))
  ultimately show ?thesis using assms(2,4-7) good_fields(4) [OF assms(1)] by (simp add: sys_inv_def)
qed

lemma good_update:
  assumes "good s w" "\<not> hb_ended (sy_hub s)" "follows es (sy_hub s)"
  shows "\<exists>w'. good (s\<lparr>sy_hub := update_begin rd es p u (sy_hub s), sy_busy := True, sy_pub := sy_pub s @ es\<rparr>) w'"
proof -
  let ?h = "sy_hub s" and ?h' = "update_begin rd es p u (sy_hub s)"
  have inv: "hb_w ?h = Some w" "ring_ok (sy_pub s) ?h" "\<not> sw_closing w" "evict_ok (sy_pub s) ?h w"
    "log_ok (rows (sy_db s)) (cut (sy_db s)) (top_seq (sy_db s)) (sy_pub s) (wr_pc (sy_run s)) w"
    using assms(1,2) by (auto simp: sys_inv_def)
  obtain p1 pins where p1: "pin_loop (hc_MaxPinned (hb_cfg ?h)) (hb_pinned ?h) p = (p1, pins)" by force
  obtain p2 unpins where p2: "unpin_loop p1 u = (p2, unpins)" by force
  let ?op = "\<lparr>so_Append = to_store es, so_Pin = pins, so_Unpin = unpins\<rparr>"
  have "hb_w ?h' = Some (enqueue ?op w)" using inv(1) by (simp add: update_begin_def Let_def p1 p2 to_store_def)
  then obtain op where op: "hb_w ?h' = Some (enqueue op w)" "so_Append op = to_store es" by force
  have ring: "hub_ring ?h' = hub_ring ?h @ es" using inv(2) by (simp add: hub_ring_def update_begin_fields ring_ok_def)
  have "sw_degraded w \<longrightarrow> sw_degraded (enqueue op w)" using same_marks_enqueue(3) by blast
  then have "evict_ok (sy_pub s @ es) ?h' (enqueue op w)"
    using inv(4) same_marks_enqueue(1) [of w op] by (auto simp: evict_ok_def ring same_marks_def)
  moreover have "sw_degraded w \<longrightarrow> sw_degraded (enqueue op w)" "sw_closing (enqueue op w) \<longrightarrow> hb_ended ?h'"
    using inv(3) same_marks_enqueue(2,3) by simp_all
  ultimately have "good (s\<lparr>sy_hub := ?h', sy_busy := True, sy_pub := sy_pub s @ es\<rparr>) (enqueue op w)"
    using ring_ok_begin [OF inv(2) assms(3)] log_ok_enqueue [OF inv(5,3) op(2)] track_begin assms(2)
    by (intro good_hub [OF assms(1) op(1) same_marks_enqueue(1)]) auto
  then show ?thesis ..
qed

text \<open>Steps of the hub that publish nothing.\<close>

lemma good_quiet:
  assumes "good s w" "hb_w h' = Some w'" "same_marks w w'" "same_queue w w'"
    "ring_ok (sy_pub s) h'" "sw_closing w' \<longrightarrow> hb_ended h'" "evict_ok (sy_pub s) h' w'"
    "\<And>i j snap ys. following (sy_readers s i) j \<Longrightarrow> track j snap ys (sy_hub s) \<Longrightarrow> track j snap ys h'"
  shows "good (s\<lparr>sy_hub := h'\<rparr>) w'"
proof -
  have "sw_trims w' = sw_trims w" "cut_ok (cut (sy_db s)) (wr_pc (sy_run s)) w'"
    using assms(3) good_fields(6) [OF assms(1)] by (simp_all add: cut_ok_marks [OF assms(3)]) (simp add: same_marks_def)
  moreover have "log_ok (rows (sy_db s)) (cut (sy_db s)) (top_seq (sy_db s)) (sy_pub s) (wr_pc (sy_run s)) w'"
    by (rule log_ok_quiet [OF good_fields(5) [OF assms(1)] assms(3,4)])
  moreover have "reader_ok (set (rows (sy_db s))) (cut (sy_db s)) (sw_trims w) (sy_pub s) h' (sy_readers s i)" for i
    by (rule reader_ok_track [OF good_fields(8) [OF assms(1)]]) (rule assms(8))
  ultimately show ?thesis using assms(2,5-7) good_fields(4) [OF assms(1)] by (simp add: sys_inv_def)
qed

lemma good_evict:
  assumes "good s w" "must_evict (sy_hub s)"
  shows "\<exists>w'. good (s\<lparr>sy_hub := evict_step (sy_hub s)\<rparr>) w'"
proof -
  let ?h = "sy_hub s" and ?old = "hb_ring (sy_hub s) ! hb_head (sy_hub s)"
  let ?w = "if ev_Durable ?old \<and> int (ev_Seq ?old) > sw_written w then degrade w else w"
  have inv: "hb_w ?h = Some w" "ring_ok (sy_pub s) ?h" "evict_ok (sy_pub s) ?h w" "sw_closing w \<longrightarrow> hb_ended ?h"
    using assms(1) by (auto simp: sys_inv_def)
  note ring = evict_step_ring(1) [OF assms(2)]
  obtain old0 where o: "sy_pub s = old0 @ ?old # hub_ring (evict_step ?h)" using inv(2) ring by (auto simp: ring_ok_def)
  have "evict_ok (sy_pub s) (evict_step ?h) ?w"
    unfolding evict_ok_def
  proof (intro impI allI, elim conjE)
    fix old e
    assume d: "\<not> sw_degraded ?w" and e: "sy_pub s = old @ hub_ring (evict_step ?h)" "e \<in> set old" "ev_Durable e"
    have w: "?w = w" "\<not> sw_degraded w" using d by (auto split: if_splits)
    have "old = old0 @ [?old]" using e(1) o by simp
    then consider "e \<in> set old0" | "e = ?old" using e(2) by auto
    then show "int (ev_Seq e) \<le> sw_written ?w"
    proof cases
      case 1
      then show ?thesis using inv(3) w o ring e(3) by (auto simp: evict_ok_def)
    next
      case 2
      then show ?thesis using d e(3) by (auto split: if_splits)
    qed
  qed
  moreover have "hb_w (evict_step ?h) = Some ?w" using inv(1) by (simp add: evict_step_def Let_def)
  ultimately have "good (s\<lparr>sy_hub := evict_step ?h\<rparr>) ?w"
    using ring_ok_evict [OF inv(2) assms(2)] inv(4) by (intro good_quiet [OF assms(1)]) (auto simp: track_cong [of "evict_step ?h" ?h] same_queue_def)
  then show ?thesis ..
qed

lemma evict_ok_ring: "evict_ok pub h w \<Longrightarrow> hub_ring h' = hub_ring h \<Longrightarrow> same_marks w w' \<Longrightarrow> same_queue w w' \<Longrightarrow> evict_ok pub h' w'"
  by (auto simp: evict_ok_def same_marks_def same_queue_def)

lemma same_marks_closeInput [simp]: "same_marks w (closeInput w)"
  by (simp add: same_marks_def closeInput_def)

lemma same_queue_simps [simp]: "same_queue w (degrade w)" "same_queue w w" "same_queue w (closeInput w)"
  by (auto simp: same_queue_def closeInput_def)

text \<open>Steps that leave the ring alone.\<close>

lemma good_ring:
  assumes "good s w" "hb_w h' = Some w'" "same_marks w w'" "same_queue w w'" "ring_ok (sy_pub s) h'" "hub_ring h' = hub_ring (sy_hub s)"
    "sw_closing w' \<longrightarrow> hb_ended h'" "\<And>i j snap ys. following (sy_readers s i) j \<Longrightarrow> track j snap ys (sy_hub s) \<Longrightarrow> track j snap ys h'"
  shows "good (s\<lparr>sy_hub := h'\<rparr>) w'"
  by (rule good_quiet [OF assms(1-5,7) evict_ok_ring [OF good_fields(7) [OF assms(1)] assms(6,3,4)]]) (rule assms(8))

lemma good_updated: "good s w \<Longrightarrow> \<exists>w'. good (s\<lparr>sy_hub := update_end (sy_hub s), sy_busy := False\<rparr>) w'"
  using good_fields [of s w] by (simp, intro exI [of _ w] good_ring [of s w]) (simp_all add: ring_ok_end track_end)

lemma good_do_hub:
  assumes "good s w" "do_hub c (sy_hub s) = ([], h')" "\<And>i j. following (sy_readers s i) j \<Longrightarrow> c \<noteq> HSubClose j" "\<nexists>rd es p u. c = HUpdate rd es p u"
  shows "\<exists>w'. good (s\<lparr>sy_hub := h'\<rparr>) w'"
proof -
  note g = good_fields [OF assms(1)]
  have ring: "hb_ring h' = hb_ring (sy_hub s) \<and> hb_head h' = hb_head (sy_hub s) \<and> hb_nextSeq h' = hb_nextSeq (sy_hub s) \<and>
      (hb_w h' = hb_w (sy_hub s) \<and> hb_ended h' = hb_ended (sy_hub s) \<or> hb_w h' = map_option closeInput (hb_w (sy_hub s)) \<and> hb_ended h')"
    using assms(2,4) by (cases c) (auto simp: Hub_Close_def subscribeLocked_def register_def Sub_Close_def Sub_Next_def Let_def
      split: if_splits prod.splits)
  have tr: "track j snap ys h'" if "following (sy_readers s i) j" "track j snap ys (sy_hub s)" for i j snap ys
    using track_step [OF that(2) assms(2) assms(3) [OF that(1)]] by simp
  from ring g(1) consider "hb_w h' = Some w" "hb_ended h' = hb_ended (sy_hub s)" | "hb_w h' = Some (closeInput w)" "hb_ended h'" by auto
  then show ?thesis
  proof cases
    case 1
    then show ?thesis using g ring ring_ok_cong [of h' "sy_hub s"] tr by (intro exI [of _ w] good_ring [OF assms(1)]) auto
  next
    case 2
    then show ?thesis using g ring ring_ok_cong [of h' "sy_hub s"] tr
      by (intro exI [of _ "closeInput w"] good_ring [OF assms(1)]) auto
  qed
qed

lemma good_hub_degrade:
  assumes "good s w"
  shows "good (s\<lparr>sy_hub := hub_degrade (sy_hub s)\<rparr>) (degrade w)"
proof (rule good_ring [OF assms])
  note g = good_fields [OF assms]
  show "hb_w (hub_degrade (sy_hub s)) = Some (degrade w)" using g(1) by (simp add: hub_degrade_def)
  show "hub_ring (hub_degrade (sy_hub s)) = hub_ring (sy_hub s)" "ring_ok (sy_pub s) (hub_degrade (sy_hub s))"
    using g(2) ring_ok_cong [of "hub_degrade (sy_hub s)" "sy_hub s"] by (simp_all add: hub_degrade_def)
  show "sw_closing (degrade w) \<longrightarrow> hb_ended (hub_degrade (sy_hub s))" using g(3) by (simp add: hub_degrade_def)
  show "track j snap ys (hub_degrade (sy_hub s))" if "track j snap ys (sy_hub s)" for j snap ys
    using that by (simp add: track_degrade)
qed simp_all

subsection \<open>The writer\<close>

lemma good_writer:
  assumes "good s w" "inv db'" "log_ok (rows db') (cut db') (top_seq db') (sy_pub s) (wr_pc r') w'" "cut_ok (cut db') (wr_pc r') w'"
    "sw_degraded w' \<or> \<not> sw_degraded w \<and> sw_written w \<le> sw_written w'" "sw_closing w' = sw_closing w"
    "\<forall>x\<in>set (rows (sy_db s)). x \<in> set (rows db') \<or> st_Seq x < cut db'" "cut (sy_db s) \<le> cut db'" "sw_trims w \<le> sw_trims w'"
    "sw_trims w' = sw_trims w \<and> even (sw_trims w) \<Longrightarrow> cut db' = cut (sy_db s)"
  shows "good (s\<lparr>sy_hub := (sy_hub s)\<lparr>hb_w := Some w'\<rparr>, sy_run := r', sy_db := db'\<rparr>) w'"
proof -
  let ?h = "(sy_hub s)\<lparr>hb_w := Some w'\<rparr>"
  have ring: "ring_ok (sy_pub s) ?h" "hub_ring ?h = hub_ring (sy_hub s)"
    using good_fields(2) [OF assms(1)] ring_ok_cong [of ?h "sy_hub s"] by auto
  moreover have "evict_ok (sy_pub s) ?h w'"
    using good_fields(7) [OF assms(1)] assms(5) unfolding evict_ok_def ring(2) by (meson order_trans)
  moreover have "track j snap ys (sy_hub s) \<Longrightarrow> track j snap (ys @ []) ?h" for j snap ys
    by (simp add: track_cong [of ?h "sy_hub s"])
  then have "reader_ok (set (rows db')) (cut db') (sw_trims w') (sy_pub s @ []) ?h (sy_readers s i)" for i
    by (intro reader_ok_mono [OF good_fields(8) [OF assms(1), of i] assms(7-10)])
  ultimately show ?thesis using assms(2-4,6) good_fields(3) [OF assms(1)] by (simp add: sys_inv_def)
qed

text \<open>A step that leaves the log alone.\<close>

lemma good_writer_only:
  assumes "good s w" "log_ok (rows (sy_db s)) (cut (sy_db s)) (top_seq (sy_db s)) (sy_pub s) (wr_pc r') w'" "cut_ok (cut (sy_db s)) (wr_pc r') w'"
    "sw_degraded w' \<or> \<not> sw_degraded w \<and> sw_written w \<le> sw_written w'" "sw_closing w' = sw_closing w" "sw_trims w \<le> sw_trims w'"
  shows "good (s\<lparr>sy_hub := (sy_hub s)\<lparr>hb_w := Some w'\<rparr>, sy_run := r', sy_db := sy_db s\<rparr>) w'"
  using assms by (intro good_writer [OF assms(1) good_fields(4) [OF assms(1)] assms(2-5)]) auto

end

text \<open>What the parts of the invariant about the writer say when its position changes.\<close>

lemma to_store_sorted:
  assumes "sorted_wrt (<) (map ev_Seq pub)"
  shows "sorted_wrt (<) (map st_Seq (to_store pub))"
proof -
  have "st_Seq \<circ> stored_of = ev_Seq" by (simp add: fun_eq_iff stored_of_def)
  then show ?thesis using assms sorted_wrt_filter [of "\<lambda>x y. ev_Seq x < ev_Seq y" pub ev_Durable] by (simp add: to_store_def sorted_wrt_map stored_of_def)
qed

lemma log_okI:
  assumes "to_store pub = xs @ inflight pc @ zs" "\<forall>r\<in>set xs. r \<in> set rws \<or> st_Seq r < ct" "set rws \<subseteq> set xs"
    "tp = (if xs = [] then 0 else st_Seq (last xs) + 1)" "\<not> sw_degraded w \<Longrightarrow> zs = concat (map so_Append (sw_pending w))"
    "- 1 \<le> sw_written w" "sw_written w < int tp" "written_ok pc (sw_written w) tp"
  shows "log_ok rws ct tp pub pc w"
  using assms unfolding log_ok_def by blast

lemma log_ok_pc:
  assumes "log_ok rws ct tp pub pc w" "inflight pc' = inflight pc" "same_queue w w'" "- 1 \<le> sw_written w'" "sw_written w' < int tp"
    "written_ok pc' (sw_written w') tp"
  shows "log_ok rws ct tp pub pc' w'"
proof -
  from assms(1) obtain xs zs where l: "to_store pub = xs @ inflight pc @ zs" "(\<forall>r\<in>set xs. r \<in> set rws \<or> st_Seq r < ct) \<and> set rws \<subseteq> set xs \<and>
        tp = (if xs = [] then 0 else st_Seq (last xs) + 1)" "\<not> sw_degraded w \<longrightarrow> zs = concat (map so_Append (sw_pending w))"
    by (auto simp: log_ok_def)
  then have "to_store pub = xs @ inflight pc' @ zs \<and> (\<not> sw_degraded w' \<longrightarrow> zs = concat (map so_Append (sw_pending w')))"
    using assms(2,3) by (auto simp: same_queue_def)
  with l(2) assms(4-6) show ?thesis unfolding log_ok_def by blast
qed

lemma log_ok_stop:
  assumes "log_ok rws ct tp pub pc w" "same_marks w w'" "sw_degraded w'"
  shows "log_ok rws ct tp pub WStopped w'"
proof -
  from assms(1) obtain xs zs where "to_store pub = xs @ inflight WStopped @ (inflight pc @ zs) \<and> (\<forall>r\<in>set xs. r \<in> set rws \<or> st_Seq r < ct) \<and> set rws \<subseteq> set xs \<and>
        tp = (if xs = [] then 0 else st_Seq (last xs) + 1)"
    by (auto simp: log_ok_def)
  moreover have "- 1 \<le> sw_written w' \<and> sw_written w' < int tp" using assms(1,2) by (simp add: log_ok_def same_marks_def)
  ultimately show ?thesis unfolding log_ok_def written_ok.simps using assms(3) by blast
qed

lemma log_ok_take:
  assumes "log_ok rws ct tp pub WTake w" "\<not> sw_degraded w" "take_ops True 0 0 (sw_pending w) = (ops, rest)"
    "sw_pending w' = rest" "sw_written w' = sw_written w" "sw_degraded w' = sw_degraded w"
  shows "log_ok rws ct tp pub (WApply (mergeOps ops)) w'"
proof -
  from assms(1) obtain xs zs where l: "to_store pub = xs @ zs" "\<forall>r\<in>set xs. r \<in> set rws \<or> st_Seq r < ct" "set rws \<subseteq> set xs"
        "tp = (if xs = [] then 0 else st_Seq (last xs) + 1)" "zs = concat (map so_Append (sw_pending w))"
    using assms(2) by (auto simp: log_ok_def)
  have "zs = so_Append (mergeOps ops) @ concat (map so_Append (sw_pending w'))"
    using l(5) take_ops_split [OF assms(3)] assms(4) by (simp add: mergeOps_Append)
  then have "to_store pub = xs @ inflight (WApply (mergeOps ops)) @ concat (map so_Append (sw_pending w'))" using l(1) by simp
  then show ?thesis using l(2-4) assms(1,5) by (intro log_okI [of pub xs]) (simp_all add: log_ok_def)
qed

lemma log_ok_apply:
  assumes "log_ok rws ct tp pub (WApply op) w" "sorted_wrt (<) (map ev_Seq pub)"
    "tp' = (if so_Append op = [] then tp else st_Seq (last (so_Append op)) + 1)"
  shows "log_ok (rws @ so_Append op) ct tp' pub (WApplied op True) w"
proof -
  from assms(1) obtain xs zs where l: "to_store pub = xs @ so_Append op @ zs" "\<forall>r\<in>set xs. r \<in> set rws \<or> st_Seq r < ct" "set rws \<subseteq> set xs"
    "tp = (if xs = [] then 0 else st_Seq (last xs) + 1)" "\<not> sw_degraded w \<longrightarrow> zs = concat (map so_Append (sw_pending w))"
    "- 1 \<le> sw_written w" "sw_written w < int tp" "sw_written w + 1 = int tp"
    by (auto simp: log_ok_def)
  have le: "tp \<le> tp'"
  proof (cases "so_Append op = [] \<or> xs = []")
    case False
    then have "last xs \<in> set xs" "last (so_Append op) \<in> set (so_Append op)" by auto
    moreover have "\<forall>x\<in>set xs. \<forall>y\<in>set (so_Append op). st_Seq x < st_Seq y"
      using to_store_sorted [OF assms(2)] unfolding l(1) by (auto simp: sorted_wrt_append)
    ultimately show ?thesis using l(4) assms(3) False by (auto intro: less_imp_le)
  qed (use l(4) assms(3) in auto)
  have "to_store pub = (xs @ so_Append op) @ inflight (WApplied op True) @ zs" using l(1) by simp
  moreover have "\<forall>r\<in>set (xs @ so_Append op). r \<in> set (rws @ so_Append op) \<or> st_Seq r < ct" "set (rws @ so_Append op) \<subseteq> set (xs @ so_Append op)"
    using l(2,3) by auto
  moreover have "tp' = (if xs @ so_Append op = [] then 0 else st_Seq (last (xs @ so_Append op)) + 1)" using l(4) assms(3) by auto
  moreover have "written_ok (WApplied op True) (sw_written w) tp'" using l(8) assms(3) by simp
  moreover have "sw_written w < int tp'" using l(7) le by simp
  ultimately show ?thesis using l(5,6) unfolding log_ok_def by blast
qed

lemma log_ok_trim:
  assumes "log_ok rws ct tp pub WTrimming w" "set rws' \<subseteq> set rws" "\<forall>r\<in>set rws. r \<in> set rws' \<or> st_Seq r < ct'" "ct \<le> ct'"
  shows "log_ok rws' ct' tp pub (WTrimmed res) w"
proof -
  from assms(1) obtain xs zs where l: "to_store pub = xs @ inflight (WTrimmed res) @ zs" "\<forall>r\<in>set xs. r \<in> set rws \<or> st_Seq r < ct" "set rws \<subseteq> set xs"
    "tp = (if xs = [] then 0 else st_Seq (last xs) + 1)" "\<not> sw_degraded w \<longrightarrow> zs = concat (map so_Append (sw_pending w))"
    by (auto simp: log_ok_def)
  moreover have "\<forall>r\<in>set xs. r \<in> set rws' \<or> st_Seq r < ct'" using l(2) assms(3,4) by (meson less_le_trans)
  moreover have "set rws' \<subseteq> set xs" using l(3) assms(2) by blast
  moreover have "- 1 \<le> sw_written w \<and> sw_written w < int tp \<and> written_ok (WTrimmed res) (sw_written w) tp"
    using assms(1) by (simp add: log_ok_def)
  ultimately show ?thesis unfolding log_ok_def by blast
qed

lemma judge_cases:
  "judge d slow w = (go, slow', w') \<Longrightarrow> w' = w \<and> go \<or> w' = degrade w \<and> \<not> go"
  by (auto simp: judge_def split: if_splits)

lemma log_ok_written:
  "log_ok rws ct tp pub pc w \<Longrightarrow> - 1 \<le> sw_written w \<and> sw_written w < int tp \<and> written_ok pc (sw_written w) tp"
  by (simp add: log_ok_def)

lemma cut_ok_pc: "cut_ok ct pc w \<Longrightarrow> trimmed_to pc' w = trimmed_to pc w \<Longrightarrow> trimming pc' = trimming pc \<Longrightarrow> cut_ok ct pc' w"
  by (simp add: cut_ok_def)

lemma cut_ok_quiet:
  "cut_ok ct pc w \<Longrightarrow> pc \<in> {WTake, WTrim, WStopped} \<union> range WApply \<union> range (\<lambda>(op, b). WApplied op b) \<Longrightarrow>
   pc' \<in> {WTake, WTrim, WStopped} \<union> range WApply \<union> range (\<lambda>(op, b). WApplied op b) \<Longrightarrow>
   sw_trims w' = sw_trims w \<Longrightarrow> sw_trimmed w' = sw_trimmed w \<Longrightarrow> cut_ok ct pc' w'"
  by (auto simp: cut_ok_def)

context event_store
begin

lemma good_step_take:
  assumes "good s w" "wr_pc (sy_run s) = WTake" "take_op w = (res, w')"
    "pc' = (case res of Taken op \<Rightarrow> WApply op | TakeEnd \<Rightarrow> WStopped | TakeWaits \<Rightarrow> WTake)"
  shows "good (s\<lparr>sy_hub := (sy_hub s)\<lparr>hb_w := Some w'\<rparr>, sy_run := (sy_run s)\<lparr>wr_pc := pc'\<rparr>, sy_db := sy_db s\<rparr>) w'"
proof -
  note g = good_fields [OF assms(1), unfolded assms(2)]
  show ?thesis
  proof (cases "\<exists>op. res = Taken op")
    case True
    then obtain ops rest where t: "\<not> sw_degraded w" "take_ops True 0 0 (sw_pending w) = (ops, rest)" "res = Taken (mergeOps ops)"
      "w' = w\<lparr>sw_pending := rest, sw_bytes := sw_bytes w - sum_list (map opSize ops)\<rparr>"
      using assms(3) by (auto simp: take_op_def split: if_splits prod.splits)
    have "log_ok (rows (sy_db s)) (cut (sy_db s)) (top_seq (sy_db s)) (sy_pub s) pc' w'"
      using log_ok_take [OF g(5) t(1,2), of w'] t(3,4) assms(4) by simp
    moreover have "cut_ok (cut (sy_db s)) pc' w'" using t(3,4) assms(4) by (intro cut_ok_quiet [OF g(6)]) auto
    ultimately show ?thesis using t(1,4) by (intro good_writer_only [OF assms(1)]) simp_all
  next
    case False
    then have w': "w' = w" "pc' = WStopped \<or> pc' = WTake" using assms(3,4) by (auto simp: take_op_def split: if_splits prod.splits)
    have "log_ok (rows (sy_db s)) (cut (sy_db s)) (top_seq (sy_db s)) (sy_pub s) pc' w'"
      using log_ok_written [OF g(5)] w' by (intro log_ok_pc [OF g(5)]) auto
    moreover have "cut_ok (cut (sy_db s)) pc' w'" using w' by (intro cut_ok_quiet [OF g(6)]) auto
    ultimately show ?thesis using w' by (intro good_writer_only [OF assms(1)]) simp_all
  qed
qed

lemma good_step_apply:
  assumes "good s w" "wr_pc (sy_run s) = WApply op" "es_Apply S k op (sy_db s) = (ok, db')"
  shows "good (s\<lparr>sy_hub := (sy_hub s)\<lparr>hb_w := Some w\<rparr>, sy_run := (sy_run s)\<lparr>wr_pc := WApplied op ok\<rparr>, sy_db := db'\<rparr>) w"
proof -
  note g = good_fields [OF assms(1), unfolded assms(2)]
  have c: "cut_ok (cut (sy_db s)) (WApplied op ok) w" by (rule cut_ok_quiet [OF g(6)]) auto
  show ?thesis
  proof (cases ok)
    case True
    have srt: "sorted_wrt (<) (map ev_Seq (sy_pub s))" using g(2) by (simp add: ring_ok_def)
    from apply_ok [OF g(4), of k op db'] assms(3) True have a: "inv db'" "rows db' = rows (sy_db s) @ so_Append op" "cut db' = cut (sy_db s)"
      "top_seq db' = (if so_Append op = [] then top_seq (sy_db s) else st_Seq (last (so_Append op)) + 1)" by simp_all
    have "log_ok (rows db') (cut db') (top_seq db') (sy_pub s) (WApplied op ok) w"
      using log_ok_apply [OF g(5) srt a(4)] True a(2,3) by simp
    then show ?thesis using c a by (intro good_writer [OF assms(1)]) auto
  next
    case False
    then have db': "db' = sy_db s" using apply_failed [OF g(4), of k op db'] assms(3) by simp
    have "log_ok (rows (sy_db s)) (cut (sy_db s)) (top_seq (sy_db s)) (sy_pub s) (WApplied op ok) w"
      using log_ok_written [OF g(5)] False by (intro log_ok_pc [OF g(5)]) simp_all
    then show ?thesis unfolding db' using c by (intro good_writer_only [OF assms(1)]) auto
  qed
qed

lemma good_step_applied:
  assumes "good s w" "wr_pc (sy_run s) = WApplied op ok" "run_applied d op ok w (sy_run s) = (w', r')"
  shows "good (s\<lparr>sy_hub := (sy_hub s)\<lparr>hb_w := Some w'\<rparr>, sy_run := r', sy_db := sy_db s\<rparr>) w'"
proof -
  note g = good_fields [OF assms(1), unfolded assms(2)]
  have quiet: "cut_ok (cut (sy_db s)) pc w1" if "pc \<in> {WStopped, WTrim, WTake}" "sw_trims w1 = sw_trims w" "sw_trimmed w1 = sw_trimmed w" for pc w1
    using that by (intro cut_ok_quiet [OF g(6)]) auto
  consider "sw_degraded w \<or> \<not> ok" "w' = w \<and> sw_degraded w \<or> w' = degrade w" "wr_pc r' = WStopped"
    | w1 where "\<not> sw_degraded w" "ok" "w1 = (if so_Append op = [] then w else w\<lparr>sw_written := int (st_Seq (last (so_Append op)))\<rparr>)"
      "w' = w1 \<or> w' = degrade w1" "wr_pc r' \<in> {WStopped, WTrim, WTake}"
    using assms(3) by (force simp: run_applied_def Let_def dest: judge_cases split: if_splits prod.splits)
  then show ?thesis
  proof cases
    case 1
    then have "same_marks w w'" "sw_degraded w'" "sw_closing w' = sw_closing w" by auto
    then show ?thesis using log_ok_stop [OF g(5), of w'] quiet [of WStopped w'] 1(3)
      by (intro good_writer_only [OF assms(1)]) (simp_all add: same_marks_def)
  next
    case 2
    note wr = log_ok_written [OF g(5)]
    have w1: "sw_written w1 + 1 = int (top_seq (sy_db s))" using wr 2(2,3) by (auto split: if_splits)
    have f: "same_queue w w1" "sw_trims w1 = sw_trims w" "sw_trimmed w1 = sw_trimmed w" "sw_closing w1 = sw_closing w"
      "sw_written w' = sw_written w1" "same_queue w w'"
      using 2(1,3,4) by (auto simp: same_queue_def split: if_splits)
    have "log_ok (rows (sy_db s)) (cut (sy_db s)) (top_seq (sy_db s)) (sy_pub s) (wr_pc r') w'"
      using 2(2,5) w1 wr f by (intro log_ok_pc [OF g(5)]) auto
    moreover have "sw_written w \<le> sw_written w'" using w1 wr f(5) by simp
    ultimately show ?thesis using 2(1,4,5) f quiet [of "wr_pc r'" w'] by (intro good_writer_only [OF assms(1)]) auto
  qed
qed

lemma good_step_trim:
  assumes "good s w" "wr_pc (sy_run s) = WTrim"
  shows "good (s\<lparr>sy_hub := (sy_hub s)\<lparr>hb_w := Some (w\<lparr>sw_trims := sw_trims w + 1\<rparr>)\<rparr>, sy_run := (sy_run s)\<lparr>wr_pc := WTrimming\<rparr>, sy_db := sy_db s\<rparr>)
    (w\<lparr>sw_trims := sw_trims w + 1\<rparr>)"
proof -
  note g = good_fields [OF assms(1), unfolded assms(2)]
  have "log_ok (rows (sy_db s)) (cut (sy_db s)) (top_seq (sy_db s)) (sy_pub s) WTrimming (w\<lparr>sw_trims := sw_trims w + 1\<rparr>)"
    using log_ok_written [OF g(5)] by (intro log_ok_pc [OF g(5)]) (auto simp: same_queue_def)
  then show ?thesis using g(6) by (intro good_writer_only [OF assms(1)]) (auto simp: cut_ok_def)
qed

lemma good_step_trimming:
  assumes "good s w" "wr_pc (sy_run s) = WTrimming" "es_Trim S k b (sy_db s) = (res, db')"
  shows "good (s\<lparr>sy_hub := (sy_hub s)\<lparr>hb_w := Some w\<rparr>, sy_run := (sy_run s)\<lparr>wr_pc := WTrimmed res\<rparr>, sy_db := db'\<rparr>) w"
proof -
  note g = good_fields [OF assms(1), unfolded assms(2)]
  have odd: "odd (sw_trims w)" using g(6) by (simp add: cut_ok_def)
  show ?thesis
  proof (cases res)
    case None
    then have db': "db' = sy_db s" using trim_failed [OF g(4), of k b db'] assms(3) by simp
    have "log_ok (rows (sy_db s)) (cut (sy_db s)) (top_seq (sy_db s)) (sy_pub s) (WTrimmed res) w"
      using log_ok_written [OF g(5)] by (intro log_ok_pc [OF g(5)]) simp_all
    moreover have "cut_ok (cut (sy_db s)) (WTrimmed res) w" using g(6) None by (simp add: cut_ok_def)
    ultimately show ?thesis unfolding db' by (intro good_writer_only [OF assms(1)]) auto
  next
    case (Some f)
    from trim_ok [OF g(4), of k b f db'] assms(3) Some have t: "inv db'" "set (rows db') \<subseteq> set (rows (sy_db s))"
      "\<forall>r\<in>set (rows (sy_db s)). r \<in> set (rows db') \<or> st_Seq r < cut db'" "cut (sy_db s) \<le> cut db'" "top_seq db' = top_seq (sy_db s)"
      "cut db' \<le> (if f = 0 then top_seq db' else f)" by auto
    have "sw_written w + 1 = int (top_seq (sy_db s))" using log_ok_written [OF g(5)] by simp
    then have "nat (sw_written w + 1) = top_seq db'" using t(5) by simp
    then have "cut_ok (cut db') (WTrimmed res) w" using t(6) g(6) Some by (auto simp: cut_ok_def)
    moreover have "log_ok (rows db') (cut db') (top_seq db') (sy_pub s) (WTrimmed res) w"
      using log_ok_trim [OF g(5) t(2-4)] t(5) by simp
    ultimately show ?thesis using t odd by (intro good_writer [OF assms(1)]) auto
  qed
qed

lemma good_step_trimmed:
  assumes "good s w" "wr_pc (sy_run s) = WTrimmed res"
  shows "good (s\<lparr>sy_hub := (sy_hub s)\<lparr>hb_w := Some (run_trimmed res w)\<rparr>, sy_run := (sy_run s)\<lparr>wr_pc := WTrimEnd b\<rparr>, sy_db := sy_db s\<rparr>) (run_trimmed res w)"
proof -
  note g = good_fields [OF assms(1), unfolded assms(2)]
  have f: "sw_written (run_trimmed res w) = sw_written w" "sw_closing (run_trimmed res w) = sw_closing w" "sw_trims (run_trimmed res w) = sw_trims w"
    "same_queue w (run_trimmed res w)" "sw_degraded (run_trimmed res w) = sw_degraded w"
    by (auto simp: run_trimmed_def Let_def same_queue_def split: option.split)
  have "log_ok (rows (sy_db s)) (cut (sy_db s)) (top_seq (sy_db s)) (sy_pub s) (WTrimEnd b) (run_trimmed res w)"
    using log_ok_written [OF g(5)] f by (intro log_ok_pc [OF g(5)]) auto
  moreover have "sw_trimmed (run_trimmed res w) = trimmed_to (WTrimmed res) w"
    by (cases res) (auto simp: run_trimmed_def Let_def)
  then have "cut_ok (cut (sy_db s)) (WTrimEnd b) (run_trimmed res w)"
    using g(6) f by (auto simp: cut_ok_def)
  ultimately show ?thesis using f by (intro good_writer_only [OF assms(1)]) auto
qed

lemma good_step_trim_end:
  assumes "good s w" "wr_pc (sy_run s) = WTrimEnd b" "run_trim_end d b w (sy_run s) = (w', r')"
  shows "good (s\<lparr>sy_hub := (sy_hub s)\<lparr>hb_w := Some w'\<rparr>, sy_run := r', sy_db := sy_db s\<rparr>) w'"
proof -
  note g = good_fields [OF assms(1), unfolded assms(2)]
  let ?w = "w\<lparr>sw_trims := sw_trims w + 1\<rparr>"
  have r': "(w' = ?w \<or> w' = degrade ?w) \<and> wr_pc r' \<in> {WTake, WStopped}"
    using assms(3) by (auto simp: run_trim_end_def Let_def dest: judge_cases split: if_splits prod.splits)
  have f: "sw_written w' = sw_written w" "sw_closing w' = sw_closing w" "sw_trims w' = sw_trims w + 1" "sw_trimmed w' = sw_trimmed w"
    "same_queue w w'" "sw_degraded w' \<or> \<not> sw_degraded w \<and> sw_written w \<le> sw_written w'"
    using r' by (auto simp: same_queue_def)
  have "log_ok (rows (sy_db s)) (cut (sy_db s)) (top_seq (sy_db s)) (sy_pub s) (wr_pc r') w'"
    using log_ok_written [OF g(5)] f r' by (intro log_ok_pc [OF g(5)]) auto
  moreover have "cut_ok (cut (sy_db s)) (wr_pc r') w'" using g(6) f r' by (auto simp: cut_ok_def)
  ultimately show ?thesis using f by (intro good_writer_only [OF assms(1)]) auto
qed

lemma good_step_writer:
  assumes "good s w" "writer_step S k d (w, sy_run s, sy_db s) = (w', r', db')"
  shows "good (s\<lparr>sy_hub := (sy_hub s)\<lparr>hb_w := Some w'\<rparr>, sy_run := r', sy_db := db'\<rparr>) w'"
proof (cases "wr_pc (sy_run s)")
  case WTake
  obtain res w1 where t: "take_op w = (res, w1)" by force
  have r: "sy_run s = (sy_run s)\<lparr>wr_pc := WTake\<rparr>" using WTake by simp
  from good_step_take [OF assms(1) WTake t refl] assms(2) t WTake r show ?thesis
    by (cases res) (auto simp: writer_step_def)
next
  case (WApply op)
  obtain ok db1 where a: "es_Apply S k op (sy_db s) = (ok, db1)" by force
  then show ?thesis using assms(2) WApply good_step_apply [OF assms(1) WApply a] by (auto simp: writer_step_def)
next
  case (WApplied op ok)
  then show ?thesis using assms(2) good_step_applied [OF assms(1) WApplied] by (auto simp: writer_step_def split: prod.splits)
next
  case WTrim
  then show ?thesis using assms(2) good_step_trim [OF assms(1) WTrim] by (auto simp: writer_step_def)
next
  case WTrimming
  obtain res db1 where t: "es_Trim S k (trim_target w) (sy_db s) = (res, db1)" by force
  then show ?thesis using assms(2) WTrimming good_step_trimming [OF assms(1) WTrimming t] by (auto simp: writer_step_def)
next
  case (WTrimmed res)
  then show ?thesis using assms(2) good_step_trimmed [OF assms(1) WTrimmed] by (auto simp: writer_step_def)
next
  case (WTrimEnd b)
  then show ?thesis using assms(2) good_step_trim_end [OF assms(1) WTrimEnd] by (auto simp: writer_step_def split: prod.splits)
next
  case WStopped
  then have e: "w' = w" "r' = sy_run s" "db' = sy_db s" using assms(2) by (simp_all add: writer_step_def)
  have "(sy_hub s)\<lparr>hb_w := Some w\<rparr> = sy_hub s" using good_fields(1) [OF assms(1)] by simp
  then show ?thesis unfolding e using assms(1) by simp
qed

end

subsection \<open>The readers\<close>

lemma ring_first_split:
  assumes "ring_ok pub h" "pub = old @ hub_ring h"
  shows "(\<forall>e\<in>set old. ev_Seq e < ring_first h) \<and> (\<forall>e\<in>set (hub_ring h). ring_first h \<le> ev_Seq e)"
proof (cases "hub_ring h")
  case Nil
  then have "\<forall>e\<in>set old. ev_Seq e \<le> ev_Seq (last old)"
    using assms sorted_append_last [of ev_Seq old] by (auto simp: ring_ok_def)
  then show ?thesis using assms Nil by (auto simp: ring_first_def ring_ok_def less_Suc_eq_le)
next
  case (Cons e es)
  then show ?thesis using assms by (auto simp: ring_first_def ring_ok_def sorted_wrt_append)
qed

lemma ring_first_le:
  assumes "ring_ok pub h"
  shows "ring_first h \<le> hb_nextSeq h"
proof (cases "hub_ring h")
  case (Cons e es)
  then have "ring_first h = ev_Seq e" "e \<in> set pub" using assms by (auto simp: ring_first_def ring_ok_def)
  then show ?thesis using assms sorted_append_last [of ev_Seq pub e] by (auto simp: ring_ok_def)
qed (simp add: ring_first_def)

lemma log_ok_stored:
  assumes "log_ok rws ct tp pub pc w" "sorted_wrt (<) (map ev_Seq pub)" "x \<in> set (to_store pub)" "int (st_Seq x) \<le> sw_written w"
  shows "x \<in> set rws \<or> st_Seq x < ct"
proof -
  from assms(1) obtain xs zs where l: "to_store pub = xs @ zs" "\<forall>r\<in>set xs. r \<in> set rws \<or> st_Seq r < ct"
    "tp = (if xs = [] then 0 else st_Seq (last xs) + 1)" "sw_written w < int tp"
    by (auto simp: log_ok_def)
  have "x \<in> set xs"
  proof (rule ccontr)
    assume "x \<notin> set xs"
    then have z: "x \<in> set zs" using assms(3) l(1) by auto
    have "xs \<noteq> []" using l(3,4) assms(4) by (cases "xs = []") auto
    moreover have "\<forall>y\<in>set xs. st_Seq y < st_Seq x"
      using to_store_sorted [OF assms(2)] z unfolding l(1) by (auto simp: sorted_wrt_append)
    ultimately have "st_Seq (last xs) < st_Seq x" by simp
    then show False using l(3,4) assms(4) \<open>xs \<noteq> []\<close> by simp
  qed
  then show ?thesis using l(2) by blast
qed

lemma track_register: "track j snap ys h \<Longrightarrow> track j snap ys (snd (register s h))"
  by (auto simp: track_def register_def Let_def nth_append)

lemma track_registered:
  assumes "register s h = (i, h')" "\<not> sb_done s" "sb_err s = None" "sb_got s = []" "sb_queue s = []"
  shows "track i (sb_Snapshot s) [] h'" "sb_FirstSeq (hb_objs h' ! i) = sb_FirstSeq s"
  using assms by (auto simp: track_def register_def sees_def Let_def split: if_splits)

lemma register_fields:
  "hb_ring (snd (register s h)) = hb_ring h" "hb_head (snd (register s h)) = hb_head h" "hb_nextSeq (snd (register s h)) = hb_nextSeq h"
  "hb_w (snd (register s h)) = hb_w h" "hb_ended (snd (register s h)) = hb_ended h"
  by (simp_all add: register_def)

context event_store
begin

lemma good_reader:
  assumes "good s w" "reader_ok (set (rows (sy_db s))) (cut (sy_db s)) (sw_trims w) (sy_pub s) (sy_hub s) r'"
  shows "good (s\<lparr>sy_readers := (sy_readers s)(i := r')\<rparr>) w"
  using assms unfolding sys_inv_def by auto

lemma good_load:
  assumes "good s w"
  shows "good (s\<lparr>sy_readers := (sy_readers s)(i := new_reader\<lparr>rd_pc := RLoaded (hub_trims (sy_hub s)), rd_after := after\<rparr>)\<rparr>) w"
  using good_fields(1) [OF assms] by (intro good_reader [OF assms]) (simp add: reader_ok_def hub_trims_def)

lemma good_check:
  assumes "good s w" "rd_pc (sy_readers s i) = RCheck" "pc' = RStale \<or> pc' = RRange"
  shows "good (s\<lparr>sy_readers := (sy_readers s)(i := (sy_readers s i)\<lparr>rd_pc := pc'\<rparr>)\<rparr>) w"
proof -
  have "reader_ok (set (rows (sy_db s))) (cut (sy_db s)) (sw_trims w) (sy_pub s) (sy_hub s) ((sy_readers s i)\<lparr>rd_pc := pc'\<rparr>)"
    using good_fields(8) [OF assms(1), of i] assms(2,3) by (auto simp: reader_ok_def subscribed_def filling_def Let_def delivered_def)
  then show ?thesis by (rule good_reader [OF assms(1)])
qed

lemma good_final:
  assumes "good s w" "rd_pc (sy_readers s i) = RFinal"
  shows "good (s\<lparr>sy_readers := (sy_readers s)(i := (sy_readers s i)\<lparr>rd_pc :=
      (if hub_trims (sy_hub s) \<noteq> bf_trims (rd_bf (sy_readers s i)) then RStale else REOF)\<rparr>)\<rparr>) w"
proof -
  have "hub_trims (sy_hub s) = sw_trims w" using good_fields(1) [OF assms(1)] by (simp add: hub_trims_def)
  then have "reader_ok (set (rows (sy_db s))) (cut (sy_db s)) (sw_trims w) (sy_pub s) (sy_hub s) ((sy_readers s i)\<lparr>rd_pc :=
      (if hub_trims (sy_hub s) \<noteq> bf_trims (rd_bf (sy_readers s i)) then RStale else REOF)\<rparr>)"
    using good_fields(8) [OF assms(1), of i] assms(2) by (auto simp: reader_ok_def subscribed_def filling_def Let_def delivered_def)
  then show ?thesis by (rule good_reader [OF assms(1)])
qed

lemma good_leave:
  assumes "good s w" "following (sy_readers s i) j" "\<forall>m. following (sy_readers s m) j \<longrightarrow> m = i"
  shows "\<exists>w'. good (s\<lparr>sy_readers := (sy_readers s)(i := (sy_readers s i)\<lparr>rd_pc := RClosed\<rparr>), sy_hub := Sub_Close j (sy_hub s)\<rparr>) w'"
proof -
  let ?s = "s\<lparr>sy_readers := (sy_readers s)(i := (sy_readers s i)\<lparr>rd_pc := RClosed\<rparr>)\<rparr>"
  have g: "good ?s w" by (rule good_reader [OF assms(1)]) (simp add: reader_ok_def)
  have "j < length (hb_objs (sy_hub s))"
    using good_fields(8) [OF assms(1), of i] assms(2) by (auto simp: reader_ok_def following_def subscribed_def track_def)
  then have "do_hub (HSubClose j) (sy_hub ?s) = ([], Sub_Close j (sy_hub s))" by simp
  moreover have "\<not> following (sy_readers ?s m) j" for m using assms(3) by (auto simp: following_def)
  ultimately show ?thesis using good_do_hub [OF g] by fastforce
qed

text \<open>The rows of a batch are the stored events that come out of it.\<close>

end

lemma storedEvent_Some:
  "storedEvent J r after before = Some e \<Longrightarrow> stored_of e = r \<and> ev_Durable e \<and> ev_Seq e = st_Seq r \<and> after < st_Seq r \<and> st_Seq r < before"
  by (auto simp: storedEvent_def stored_of_def split: if_splits option.splits bool.splits)

lemma delivered_next:
  assumes "filling rws ct (bf_trims (rd_bf r)) r" "rd_pc r \<noteq> RFinal"
    "\<And>x. x \<in> rws \<Longrightarrow> bf_cursor (rd_bf r) < st_Seq x \<Longrightarrow> st_Seq x < n \<Longrightarrow> st_Seq x < rd_before r \<Longrightarrow> x \<in> stored_of ` set es"
    "rd_pub r' = rd_pub r" "rd_after r' = rd_after r" "rd_first r' = rd_first r" "rd_before r' = rd_before r" "rd_got r' = rd_got r @ es"
  shows "delivered n r'"
  unfolding delivered_def assms(4-8)
proof (intro ballI impI, elim conjE)
  fix e
  assume e: "e \<in> set (rd_pub r)" "ev_Durable e" "rd_after r < ev_Seq e" "rd_first r \<le> ev_Seq e" "ev_Seq e < min n (rd_before r)"
  show "stored_of e \<in> stored_of ` set (rd_got r @ es)"
  proof (cases "ev_Seq e \<le> bf_cursor (rd_bf r)")
    case True
    have "delivered (bf_cursor (rd_bf r) + 1) r" using assms(1,2) by (simp add: filling_def Let_def)
    then show ?thesis using e True by (auto simp: delivered_def)
  next
    case False
    have "stored_of e \<in> rws \<or> ev_Seq e < ct" "ct \<le> ev_Seq e" using assms(1) e by (auto simp: filling_def Let_def)
    then have "stored_of e \<in> rws" by simp
    from assms(3) [OF this] e(5) False show ?thesis by (auto simp: stored_of_def)
  qed
qed

lemma sorted_take_mem:
  assumes "sorted_wrt (<) (map f xs)" "x \<in> set xs" "take n xs \<noteq> []" "f x \<le> (f (last (take n xs)) :: nat)"
  shows "x \<in> set (take n xs)"
proof (rule ccontr)
  assume "x \<notin> set (take n xs)"
  then have "x \<in> set (drop n xs)" using assms(2) by (metis Un_iff append_take_drop_id set_append)
  moreover have "sorted_wrt (<) (map f (take n xs @ drop n xs))" using assms(1) by simp
  ultimately have "f (last (take n xs)) < f x" using assms(3) unfolding map_append sorted_wrt_append by simp
  then show False using assms(4) by simp
qed

lemma stored_rows_Some:
  assumes "stored_rows J cursor before rs = Some (c, es)"
  shows "map stored_of es = rs \<and> sorted_wrt (<) (map ev_Seq es) \<and> cursor \<le> c \<and> (rs \<noteq> [] \<longrightarrow> c = st_Seq (last rs)) \<and>
    (\<forall>e\<in>set es. cursor < ev_Seq e \<and> ev_Seq e \<le> c \<and> ev_Seq e < before)"
  using assms
proof (induction J cursor before rs arbitrary: es rule: stored_rows.induct)
  case (2 J cursor before r rs)
  then obtain e es1 where e: "storedEvent J r cursor before = Some e" "stored_rows J (ev_Seq e) before rs = Some (c, es1)" "es = e # es1"
    by (auto split: option.splits)
  from 2(1) [OF e(1,2)] storedEvent_Some [OF e(1)] show ?case
    by (cases "rs = []") (use e in \<open>auto intro: less_imp_le less_trans\<close>)
qed auto

context event_store
begin

lemma good_range:
  assumes "good s w" "rd_pc (sy_readers s i) = RRange" "r = sy_readers s i" "b = rd_bf r"
    "next_rows J (es_Range S k (bf_cursor b) (bf_before b) (bf_batch b) (sy_db s)) r (sy_hub s) = (r', h')"
  shows "\<exists>w'. good (s\<lparr>sy_readers := (sy_readers s)(i := r'), sy_hub := h'\<rparr>) w'"
proof -
  note ok = good_fields(8) [OF assms(1), of i, folded assms(3)]
  let ?rws = "set (rows (sy_db s))" and ?ct = "cut (sy_db s)"
  have sub: "subscribed (sy_pub s) (sy_hub s) r" and fil: "filling ?rws ?ct (sw_trims w) r"
    using ok assms(2,3) by (simp_all add: reader_ok_def)
  let ?B = "filter (\<lambda>x. bf_cursor b < st_Seq x \<and> st_Seq x < bf_before b) (rows (sy_db s))"
  show ?thesis
  proof (cases "rd_pc r' = RFailed")
    case True
    have "h' = hub_degrade (sy_hub s)" using assms(5) True by (auto simp: next_rows_def split: option.splits list.splits if_splits)
    moreover have "good (s\<lparr>sy_readers := (sy_readers s)(i := r')\<rparr>) w" using True by (intro good_reader [OF assms(1)]) (simp add: reader_ok_def)
    ultimately show ?thesis using good_hub_degrade by fastforce
  next
    case False
    then obtain rs where rs: "es_Range S k (bf_cursor b) (bf_before b) (bf_batch b) (sy_db s) = Some rs"
      using assms(5) by (auto simp: next_rows_def split: option.splits)
    have batch: "0 < bf_batch b" using fil assms(4) by (simp add: filling_def Let_def)
    from range_ok [OF good_fields(4) [OF assms(1)] batch rs] obtain n where n: "rs = take n ?B" "rs = [] \<longrightarrow> ?B = []" by blast
    have h': "h' = sy_hub s" using assms(5) False rs by (auto simp: next_rows_def split: option.splits list.splits if_splits)
    have "reader_ok ?rws ?ct (sw_trims w) (sy_pub s) (sy_hub s) r'"
    proof (cases "rs = []")
      case True
      then have r': "r' = r\<lparr>rd_pc := RFinal\<rparr>" using assms(5) rs by (simp add: next_rows_def)
      have none: "?B = []" using n True by blast
      have "delivered (rd_before r) r'" if t: "bf_trims b = sw_trims w"
      proof (rule delivered_next [of ?rws ?ct r])
        show "filling ?rws ?ct (bf_trims (rd_bf r)) r" using fil t assms(4) by simp
        show "x \<in> stored_of ` set []" if "x \<in> ?rws" "bf_cursor (rd_bf r) < st_Seq x" "st_Seq x < rd_before r" for x
          using that none fil assms(4) by (auto simp: filter_empty_conv filling_def Let_def)
      qed (use r' assms(2,3) in auto)
      moreover have "subscribed (sy_pub s) (sy_hub s) r'" using sub by (simp add: r' subscribed_def)
      ultimately show ?thesis using fil assms(4) by (simp add: reader_ok_def r' filling_def Let_def)
    next
      case ne: False
      then obtain c es where es: "stored_rows J (bf_cursor b) (bf_before b) rs = Some (c, es)"
        "r' = r\<lparr>rd_pc := RCheck, rd_bf := b\<lparr>bf_cursor := c\<rparr>, rd_got := rd_got r @ es\<rparr>"
        using assms(4,5) rs False by (auto simp: next_rows_def split: option.splits list.splits if_splits)
      note sr = stored_rows_Some [OF es(1)]
      have srt: "sorted_wrt (<) (map st_Seq ?B)"
        using rows_sorted [OF good_fields(4) [OF assms(1)]] by (auto simp: sorted_wrt_map intro: sorted_wrt_filter)
      have f: "bf_before b = rd_before r" "rd_after r \<le> bf_cursor b" "\<forall>g\<in>set (rd_got r). ev_Seq g \<le> bf_cursor b"
        using fil assms(4) by (simp_all add: filling_def Let_def)
      have in_es: "x \<in> stored_of ` set es" if "x \<in> ?rws" "bf_cursor b < st_Seq x" "st_Seq x < c + 1" "st_Seq x < rd_before r" for x
      proof -
        have "x \<in> set rs" unfolding n(1) by (rule sorted_take_mem [OF srt]) (use that f(1) sr ne n(1) in auto)
        then show ?thesis using sr by (metis list.set_map)
      qed
      have "delivered (c + 1) r'" if t: "bf_trims b = sw_trims w"
        by (rule delivered_next [of ?rws ?ct r]) (use fil t in_es es(2) assms(2-4) in auto)
      moreover have "\<forall>g\<in>set (rd_got r @ es). ev_Seq g \<le> c" using f(3) sr by (auto intro: order_trans)
      moreover have "rd_after r \<le> c" using f(2) sr by simp
      ultimately have "filling ?rws ?ct (sw_trims w) r'"
        using fil unfolding filling_def Let_def es(2) assms(4) by simp
      moreover have "subscribed (sy_pub s) (sy_hub s) r'"
      proof -
        have "stored_of e \<in> set (to_store (sy_pub s))" if "e \<in> set es" for e
        proof -
          have "stored_of e \<in> set rs" using that sr by force
          then have "stored_of e \<in> ?rws" unfolding n(1) by (auto dest: in_set_takeD)
          then show ?thesis using good_fields(5) [OF assms(1)] by (auto simp: log_ok_def)
        qed
        moreover have "sorted_wrt (<) (map ev_Seq (rd_got r @ es))"
          using sub sr f(3) unfolding subscribed_def map_append sorted_wrt_append by fastforce
        ultimately show ?thesis using sub sr f(1,2) unfolding subscribed_def es(2) by auto
      qed
      ultimately show ?thesis by (simp add: reader_ok_def es(2))
    qed
    then show ?thesis unfolding h' using good_reader [OF assms(1)] by fastforce
  qed
qed

end

lemma resumed_snapshot:
  assumes "ring_ok pub h"
  shows "drop (sortSearchSeq (hub_ring h) after) (hub_ring h) = filter (\<lambda>e. after < ev_Seq e \<and> ring_first h \<le> ev_Seq e) pub"
proof -
  obtain old where old: "pub = old @ hub_ring h" using assms by (auto simp: ring_ok_def)
  note f = ring_first_split [OF assms old]
  have "sorted_wrt (<) (map ev_Seq (hub_ring h))" using assms old by (simp add: ring_ok_def sorted_wrt_append)
  then have "drop (sortSearchSeq (hub_ring h) after) (hub_ring h) = filter (\<lambda>e. after < ev_Seq e) (hub_ring h)"
    by (rule sortSearchSeq_filter)
  moreover have "filter (\<lambda>e. after < ev_Seq e \<and> ring_first h \<le> ev_Seq e) old = []" using f by (auto simp: filter_empty_conv)
  moreover have "filter (\<lambda>e. after < ev_Seq e \<and> ring_first h \<le> ev_Seq e) (hub_ring h) = filter (\<lambda>e. after < ev_Seq e) (hub_ring h)"
    using f by (intro filter_cong) auto
  ultimately show ?thesis by (subst old) simp
qed

lemma resumed_first:
  assumes "cut_ok ct pc w" "even (sw_trims w)" "after_first (sw_trims w) w before \<le> n" "n < before"
  shows "ct \<le> n"
proof -
  have "trimmed_to pc w = sw_trimmed w" using assms(1,2) by (cases "(pc, w)" rule: trimmed_to.cases) (auto simp: cut_ok_def)
  then have "ct \<le> sw_trimmed w" "sw_trims w = 0 \<longrightarrow> sw_trimmed w = 0" using assms(1) by (simp_all add: cut_ok_def)
  then show ?thesis using assms(3,4) by (auto simp: after_first_def split: if_splits)
qed

lemma evicted_stored:
  assumes "ring_ok pub h" "evict_ok pub h w" "log_ok rws ct tp pub pc w" "\<not> sw_degraded w" "e \<in> set pub" "ev_Durable e" "ev_Seq e < ring_first h"
  shows "stored_of e \<in> set rws \<or> ev_Seq e < ct"
proof -
  obtain old where old: "pub = old @ hub_ring h" using assms(1) by (auto simp: ring_ok_def)
  then have "e \<in> set old" using ring_first_split [OF assms(1) old] assms(5,7) by fastforce
  then have "int (ev_Seq e) \<le> sw_written w" using assms(2,4,6) old unfolding evict_ok_def by blast
  then have "int (st_Seq (stored_of e)) \<le> sw_written w" by (simp add: stored_of_def)
  moreover have "stored_of e \<in> set (to_store pub)" using assms(5,6) by (simp add: to_store_def)
  moreover have "sorted_wrt (<) (map ev_Seq pub)" using assms(1) by (simp add: ring_ok_def)
  ultimately have "stored_of e \<in> set rws \<or> st_Seq (stored_of e) < ct" using log_ok_stored [OF assms(3)] by blast
  then show ?thesis by (simp add: stored_of_def)
qed

lemma SubscribeAfter_Resumed:
  assumes "SubscribeAfter t after h = (Resumed i bf, h')" "hb_w h = Some w"
  shows "after < hb_nextSeq h \<and> \<not> sw_degraded w \<and> even t \<and>
    register \<lparr>sb_Snapshot = drop (sortSearchSeq (hub_ring h) after) (hub_ring h), sb_FirstSeq = after_first t w (ring_first h), sb_resumed = True,
      sb_durable = True, sb_queue = [], sb_bytes = 0, sb_done = False, sb_err = None, sb_exit = 0, sb_got = []\<rparr> h = (i, h') \<and>
    bf = (if after + 1 < ring_first h
          then Some \<lparr>bf_cursor = after, bf_before = ring_first h, bf_batch = defaultBackfillBatch, bf_trims = t\<rparr> else None)"
  using assms by (auto simp: SubscribeAfter_def Let_def split: if_splits option.splits prod.splits)

context event_store
begin

lemma good_resumed:
  assumes "good s w" "SubscribeAfter t after (sy_hub s) = (Resumed i bf, h')" "t \<le> sw_trims w" "rd_after r = after"
    "r' = r\<lparr>rd_pc := (if bf = None then REOF else RCheck), rd_sub := i, rd_bf := (case bf of None \<Rightarrow> rd_bf r | Some b \<Rightarrow> b), rd_got := [],
       rd_pub := sy_pub s, rd_first := sb_FirstSeq (hb_objs h' ! i), rd_before := ring_first (sy_hub s)\<rparr>"
  shows "reader_ok (set (rows (sy_db s))) (cut (sy_db s)) (sw_trims w) (sy_pub s) h' r'"
proof -
  note g = good_fields [OF assms(1)]
  let ?rws = "set (rows (sy_db s))" and ?ct = "cut (sy_db s)"
  note sa = SubscribeAfter_Resumed [OF assms(2) g(1)]
  note reg = track_registered [OF conjunct1 [OF conjunct2 [OF conjunct2 [OF conjunct2 [OF sa]]]], simplified]
  have issued: "sy_pub s \<noteq> [] \<and> after \<le> ev_Seq (last (sy_pub s)) \<and> ring_first (sy_hub s) \<le> ev_Seq (last (sy_pub s)) + 1"
    using conjunct1 [OF sa] g(2) ring_first_le [OF g(2)] by (auto simp: ring_ok_def split: if_splits)
  have "subscribed (sy_pub s) h' r'"
    using reg(1) resumed_snapshot [OF g(2), of after] issued by (simp add: subscribed_def assms(4,5))
  moreover have "filling ?rws ?ct (sw_trims w) r'" if "after + 1 < ring_first (sy_hub s)"
  proof -
    have bf: "bf = Some \<lparr>bf_cursor = after, bf_before = ring_first (sy_hub s), bf_batch = defaultBackfillBatch, bf_trims = t\<rparr>"
      using sa that by simp
    have "stored_of e \<in> ?rws \<or> ev_Seq e < ?ct" if "e \<in> set (sy_pub s)" "ev_Durable e" "ev_Seq e < ring_first (sy_hub s)" for e
      using evicted_stored [OF g(2,7,5)] sa that by blast
    moreover have "\<forall>n. after_first t w (ring_first (sy_hub s)) \<le> n \<and> n < ring_first (sy_hub s) \<longrightarrow> ?ct \<le> n" if "t = sw_trims w"
      using resumed_first [OF g(6)] sa that by blast
    moreover have "even t" "delivered (after + 1) r'" using sa by (auto simp: delivered_def assms(4,5))
    ultimately show ?thesis unfolding filling_def Let_def assms(5) using assms(3) reg(2)
      by (cases "t = sw_trims w") (simp_all add: assms(4) bf defaultBackfillBatch_def)
  qed
  moreover have "delivered (rd_before r') r'" if "\<not> after + 1 < ring_first (sy_hub s)"
    using that by (auto simp: delivered_def assms(4,5))
  ultimately show ?thesis using sa by (auto simp: reader_ok_def assms(5))
qed

lemma good_resume:
  assumes "good s w" "rd_pc (sy_readers s i) = RLoaded t" "reader_resumes t (sy_pub s) (sy_readers s i) (sy_hub s) = (r', h')"
  shows "\<exists>w'. good (s\<lparr>sy_readers := (sy_readers s)(i := r'), sy_hub := h'\<rparr>) w'"
proof -
  note g = good_fields [OF assms(1)]
  let ?r = "sy_readers s i"
  have t: "t \<le> sw_trims w" using g(8) [of i] assms(2) by (simp add: reader_ok_def)
  obtain res h1 where sa: "SubscribeAfter t (rd_after ?r) (sy_hub s) = (res, h1)" by force
  have comm: "s\<lparr>sy_readers := (sy_readers s)(i := r'), sy_hub := h'\<rparr> = s\<lparr>sy_hub := h', sy_readers := (sy_readers s)(i := r')\<rparr>" by simp
  have move: "\<exists>w'. good (s\<lparr>sy_readers := (sy_readers s)(i := r'), sy_hub := h'\<rparr>) w'"
    if "good (s\<lparr>sy_hub := h'\<rparr>) w'" "reader_ok (set (rows (sy_db s))) (cut (sy_db s)) (sw_trims w') (sy_pub s) h' r'" for w'
    using good_reader [OF that(1), of r' i] that(2) unfolding comm by (intro exI [of _ w']) simp
  show ?thesis
  proof (cases "\<exists>j bf. res = Resumed j bf")
    case True
    then obtain j bf where j: "res = Resumed j bf" by blast
    have h': "h' = h1" using assms(3) sa j by (simp add: reader_resumes_def)
    note ok = good_resumed [OF assms(1) sa [unfolded j] t refl refl]
    note reg = SubscribeAfter_Resumed [OF sa [unfolded j] g(1)]
    have h1: "h1 = snd (register \<lparr>sb_Snapshot = drop (sortSearchSeq (hub_ring (sy_hub s)) (rd_after ?r)) (hub_ring (sy_hub s)),
        sb_FirstSeq = after_first t w (ring_first (sy_hub s)), sb_resumed = True, sb_durable = True, sb_queue = [], sb_bytes = 0,
        sb_done = False, sb_err = None, sb_exit = 0, sb_got = []\<rparr> (sy_hub s))" using reg by simp
    have "good (s\<lparr>sy_hub := h1\<rparr>) w"
      using g ring_ok_cong [of h1 "sy_hub s"] track_register
      by (intro good_ring [OF assms(1)]) (simp_all add: h1 register_fields)
    then show ?thesis using move [of w] ok assms(3) sa j h' by (simp add: reader_resumes_def)
  next
    case False
    then have r': "r' = ?r\<lparr>rd_pc := RNotResumed res\<rparr>" "h' = h1" using assms(3) sa by (auto simp: reader_resumes_def split: after_result.splits)
    have ok: "reader_ok rws ct tr pub h' r'" for rws ct tr pub by (simp add: reader_ok_def r')
    have "h1 = sy_hub s \<or> do_hub HSubscribe (sy_hub s) = ([], h1)"
      using sa False by (auto simp: SubscribeAfter_def Let_def split: if_splits option.splits prod.splits)
    then have "\<exists>w'. good (s\<lparr>sy_hub := h1\<rparr>) w'" using good_do_hub [OF assms(1)] assms(1) by fastforce
    then show ?thesis using move ok r'(2) by blast
  qed
qed

text \<open>Every step, and so everything that can be reached.\<close>

lemma good_step:
  assumes "sys_step S J s s'" "good s w"
  shows "\<exists>w'. good s' w'"
  using assms
proof (cases rule: sys_step.cases)
  case (step_update es rd p u)
  then show ?thesis using good_update assms(2) by blast
next
  case step_evict
  then show ?thesis using good_evict assms(2) by blast
next
  case step_updated
  then show ?thesis using good_updated assms(2) by blast
next
  case (step_close x)
  then show ?thesis using good_do_hub [OF assms(2), of "HClose x"] by simp
next
  case (step_subscribe i h')
  then show ?thesis using good_do_hub [OF assms(2), of HSubscribe] by simp
next
  case (step_unsubscribe j)
  then show ?thesis using good_do_hub [OF assms(2), of "HSubClose j"] by auto
next
  case (step_next j)
  then show ?thesis using good_do_hub [OF assms(2), of "HNext j"] by simp
next
  case (step_writer w0 k d w' r' db')
  then have "w0 = w" using good_fields(1) [OF assms(2)] by simp
  then show ?thesis using step_writer good_step_writer [OF assms(2)] by blast
next
  case (step_load i after)
  then show ?thesis using good_load assms(2) by blast
next
  case (step_resume i t r' h')
  then show ?thesis using good_resume [OF assms(2)] by blast
next
  case (step_check i)
  then show ?thesis using good_check [OF assms(2) step_check(2)] by (auto split: if_splits)
next
  case (step_range i b k r' h')
  then show ?thesis using good_range [OF assms(2)] by blast
next
  case (step_final i)
  then show ?thesis using good_final [OF assms(2)] by blast
next
  case (step_leave i j)
  then show ?thesis using good_leave [OF assms(2)] by blast
qed

lemma good_start:
  assumes "hc_Store cfg" "inv db" "rows db = []" "cut db = 0" "top_seq db = 0"
  shows "\<exists>w. good (start_sys cfg db) w"
  using assms by (simp add: sys_inv_def start_sys_def NewHub_def ring_ok_def hub_ring_def newStoreWriter_def log_ok_def to_store_def
      cut_ok_def evict_ok_def reader_ok_def new_reader_def)

lemma good_reachable:
  assumes "sys_reachable S J (start_sys cfg db) s" "hc_Store cfg" "inv db" "rows db = []" "cut db = 0" "top_seq db = 0"
  shows "\<exists>w. good s w"
  using assms(1)
proof induction
  case reach_start
  then show ?case using good_start [OF assms(2-6)] .
next
  case (reach_step s s')
  then show ?case using good_step by blast
qed

text \<open>What a reader that has reached the end of the log has.\<close>

lemma resumed_events:
  assumes "good s w" "rd_pc (sy_readers s i) = REOF" "r = sy_readers s i" "sb_err (hb_objs (sy_hub s) ! rd_sub r) = None"
  shows "\<exists>snap ys. sy_pub s = rd_pub r @ ys \<and> snap = filter (\<lambda>e. rd_after r < ev_Seq e \<and> rd_before r \<le> ev_Seq e) (rd_pub r) \<and>
    reader_events r (sy_hub s) = rd_got r @ snap @ ys"
proof -
  have "subscribed (sy_pub s) (sy_hub s) r"
    using good_fields(8) [OF assms(1), of i] assms(2,3) by (simp add: reader_ok_def)
  then obtain ys where ys: "sy_pub s = rd_pub r @ ys" and
    t: "track (rd_sub r) (filter (\<lambda>e. rd_after r < ev_Seq e \<and> rd_before r \<le> ev_Seq e) (rd_pub r)) ys (sy_hub s)"
    by (auto simp: subscribed_def)
  then show ?thesis using assms(4) by (auto simp: reader_events_def track_def sees_def Let_def split: if_splits)
qed

lemma resumed_has:
  assumes "good s w" "rd_pc (sy_readers s i) = REOF" "r = sy_readers s i" "sb_err (hb_objs (sy_hub s) ! rd_sub r) = None"
    "e \<in> set (sy_pub s)" "ev_Durable e" "rd_after r < ev_Seq e" "rd_first r \<le> ev_Seq e"
  shows "stored_of e \<in> stored_of ` set (reader_events r (sy_hub s))"
proof -
  have ok: "delivered (rd_before r) r"
    using good_fields(8) [OF assms(1), of i] assms(2,3) by (simp add: reader_ok_def)
  obtain snap ys where ys: "sy_pub s = rd_pub r @ ys" "snap = filter (\<lambda>e. rd_after r < ev_Seq e \<and> rd_before r \<le> ev_Seq e) (rd_pub r)"
    "reader_events r (sy_hub s) = rd_got r @ snap @ ys" using resumed_events [OF assms(1-4)] by blast
  show ?thesis
  proof (cases "e \<in> set (rd_pub r) \<and> ev_Seq e < rd_before r")
    case True
    then show ?thesis using ok assms(6-8) unfolding ys(3) by (auto simp: delivered_def)
  next
    case False
    then have "e \<in> set snap \<or> e \<in> set ys" using assms(5,7) ys(1,2) by auto
    then show ?thesis unfolding ys(3) by auto
  qed
qed

lemma resumed_sorted:
  assumes "good s w" "rd_pc (sy_readers s i) = REOF" "r = sy_readers s i" "sb_err (hb_objs (sy_hub s) ! rd_sub r) = None"
  shows "sorted_wrt (<) (map ev_Seq (reader_events r (sy_hub s)))"
    "\<forall>x\<in>set (reader_events r (sy_hub s)). rd_after r < ev_Seq x \<and> stored_of x \<in> stored_of ` set (sy_pub s)"
proof -
  obtain snap ys where ys: "sy_pub s = rd_pub r @ ys" "snap = filter (\<lambda>e. rd_after r < ev_Seq e \<and> rd_before r \<le> ev_Seq e) (rd_pub r)"
    "reader_events r (sy_hub s) = rd_got r @ snap @ ys" using resumed_events [OF assms] by blast
  have "subscribed (sy_pub s) (sy_hub s) r"
    using good_fields(8) [OF assms(1), of i] assms(2,3) by (simp add: reader_ok_def)
  then have got: "sorted_wrt (<) (map ev_Seq (rd_got r))" "rd_pub r \<noteq> []" "rd_after r \<le> ev_Seq (last (rd_pub r))"
    "\<forall>g\<in>set (rd_got r). rd_after r < ev_Seq g \<and> ev_Seq g < rd_before r \<and> stored_of g \<in> set (to_store (sy_pub s))"
    "rd_before r \<le> ev_Seq (last (rd_pub r)) + 1" by (auto simp: subscribed_def)
  have "stored_of g \<in> stored_of ` set (sy_pub s)" if "g \<in> set (rd_got r)" for g
    using got(4) that by (auto simp: to_store_def)
  moreover have "sorted_wrt (<) (map ev_Seq (rd_pub r @ ys))"
    using good_fields(2) [OF assms(1)] ys(1) by (simp add: ring_ok_def)
  then have srt: "sorted_wrt (<) (map ev_Seq (rd_pub r))" "sorted_wrt (<) (map ev_Seq ys)" "\<forall>x\<in>set (rd_pub r). \<forall>y\<in>set ys. ev_Seq x < ev_Seq y"
    by (auto simp: sorted_wrt_append)
  moreover have "rd_after r < ev_Seq y" if "y \<in> set ys" for y using srt(3) got(2,3) that by (meson last_in_set le_less_trans)
  ultimately show "\<forall>x\<in>set (reader_events r (sy_hub s)). rd_after r < ev_Seq x \<and> stored_of x \<in> stored_of ` set (sy_pub s)"
    using got(4) unfolding ys by auto
  have snap: "sorted_wrt (<) (map ev_Seq snap)" "set snap \<subseteq> set (rd_pub r)" "\<forall>x\<in>set snap. rd_before r \<le> ev_Seq x"
    using srt(1) unfolding ys(2) by (auto simp: sorted_wrt_map intro: sorted_wrt_filter)
  have "ev_Seq g < ev_Seq y" if "g \<in> set (rd_got r)" "y \<in> set ys" for g y
  proof -
    have "ev_Seq g \<le> ev_Seq (last (rd_pub r))" using got(4,5) that(1) by fastforce
    then show ?thesis using srt(3) got(2) that(2) by (meson last_in_set le_less_trans)
  qed
  moreover have "ev_Seq g < ev_Seq x" if "g \<in> set (rd_got r)" "x \<in> set snap" for g x
    using got(4) snap(3) that by fastforce
  ultimately show "sorted_wrt (<) (map ev_Seq (reader_events r (sy_hub s)))"
    unfolding ys(3) map_append sorted_wrt_append using got(1) snap(1,2) srt(2,3) by auto
qed

text \<open>Nothing falls between the ring and the store.\<close>

lemma durable_kept:
  assumes "good s w" "\<not> sw_degraded w" "e \<in> set (sy_pub s)" "ev_Durable e"
  shows "e \<in> set (hub_ring (sy_hub s)) \<or> stored_of e \<in> set (rows (sy_db s)) \<or> ev_Seq e < cut (sy_db s)"
proof (cases "ev_Seq e < ring_first (sy_hub s)")
  case True
  then show ?thesis using evicted_stored [OF good_fields(2,7,5) [OF assms(1)] assms(2-4)] by blast
next
  case False
  obtain old where old: "sy_pub s = old @ hub_ring (sy_hub s)" using good_fields(2) [OF assms(1)] by (auto simp: ring_ok_def)
  then show ?thesis using ring_first_split [OF good_fields(2) [OF assms(1)] old] False assms(3) by auto
qed

lemma rows_published: "good s w \<Longrightarrow> set (rows (sy_db s)) \<subseteq> set (to_store (sy_pub s))"
  using good_fields(5) [of s w] by (auto simp: log_ok_def)

end

section \<open>Properties\<close>

lemma log_reachable:
  assumes "Open_log g m = Inr s0" "hc_Store cfg" "sys_reachable chatEventStore J (start_sys cfg s0) s"
  shows "\<exists>w. sys_inv store_inv log_rows log_cut log_next s w"
  by (rule ev.good_reachable [OF assms(3,2)])
    (use assms(1) Open_log_inv in \<open>auto simp: store_inv_def log_rows_def log_cut_def log_next_def Open_log_def split: if_splits\<close>)

text \<open>Runs for the examples: what the environment does, step by step.\<close>

datatype sys_label =
    LUpdate "event list" "event list" "nat list" | LEvict | LUpdated | LWriter choice int | LLoad nat nat | LResume nat
  | LCheck nat | LRange nat choice | LFinal nat

definition guarded :: "bool \<Rightarrow> 'a \<Rightarrow> 'a option" where
  "guarded b x = (if b then Some x else None)"

fun sys_do :: "'s store_if \<Rightarrow> stored_json \<Rightarrow> sys_label \<Rightarrow> 's sys \<Rightarrow> 's sys option" where
  "sys_do S J (LUpdate es p u) s = guarded (\<not> sy_busy s \<and> \<not> hb_ended (sy_hub s) \<and> follows es (sy_hub s))
     (s\<lparr>sy_hub := update_begin (\<lambda>_ _. 0) es p u (sy_hub s), sy_busy := True, sy_pub := sy_pub s @ es\<rparr>)"
| "sys_do S J LEvict s = guarded (sy_busy s \<and> must_evict (sy_hub s)) (s\<lparr>sy_hub := evict_step (sy_hub s)\<rparr>)"
| "sys_do S J LUpdated s = guarded (sy_busy s \<and> \<not> must_evict (sy_hub s)) (s\<lparr>sy_hub := update_end (sy_hub s), sy_busy := False\<rparr>)"
| "sys_do S J (LWriter k d) s =
     (case hb_w (sy_hub s) of
        None \<Rightarrow> None
      | Some w \<Rightarrow> (case writer_step S k d (w, sy_run s, sy_db s) of
          (w', r', db') \<Rightarrow> Some (s\<lparr>sy_hub := (sy_hub s)\<lparr>hb_w := Some w'\<rparr>, sy_run := r', sy_db := db'\<rparr>)))"
| "sys_do S J (LLoad i after) s = guarded (rd_pc (sy_readers s i) = RIdle)
     (s\<lparr>sy_readers := (sy_readers s)(i := new_reader\<lparr>rd_pc := RLoaded (hub_trims (sy_hub s)), rd_after := after\<rparr>)\<rparr>)"
| "sys_do S J (LResume i) s =
     (case rd_pc (sy_readers s i) of
        RLoaded t \<Rightarrow> (case reader_resumes t (sy_pub s) (sy_readers s i) (sy_hub s) of
          (r', h') \<Rightarrow> guarded (\<not> sy_busy s) (s\<lparr>sy_readers := (sy_readers s)(i := r'), sy_hub := h'\<rparr>))
      | _ \<Rightarrow> None)"
| "sys_do S J (LCheck i) s = guarded (rd_pc (sy_readers s i) = RCheck)
     (s\<lparr>sy_readers := (sy_readers s)(i := (sy_readers s i)\<lparr>rd_pc :=
       (if hub_trims (sy_hub s) \<noteq> bf_trims (rd_bf (sy_readers s i)) then RStale else RRange)\<rparr>)\<rparr>)"
| "sys_do S J (LRange i k) s =
     (let b = rd_bf (sy_readers s i) in
      case next_rows J (es_Range S k (bf_cursor b) (bf_before b) (bf_batch b) (sy_db s)) (sy_readers s i) (sy_hub s) of
        (r', h') \<Rightarrow> guarded (rd_pc (sy_readers s i) = RRange) (s\<lparr>sy_readers := (sy_readers s)(i := r'), sy_hub := h'\<rparr>))"
| "sys_do S J (LFinal i) s = guarded (rd_pc (sy_readers s i) = RFinal)
     (s\<lparr>sy_readers := (sy_readers s)(i := (sy_readers s i)\<lparr>rd_pc :=
       (if hub_trims (sy_hub s) \<noteq> bf_trims (rd_bf (sy_readers s i)) then RStale else REOF)\<rparr>)\<rparr>)"

lemma guarded_Some [simp]: "guarded b x = Some y \<longleftrightarrow> b \<and> x = y"
  by (simp add: guarded_def)

lemma sys_do_step: "sys_do S J l s = Some s' \<Longrightarrow> sys_step S J s s'"
  by (cases l) (auto simp: Let_def split: option.splits prod.splits reader_pc.splits intro: sys_step.intros)

fun sys_run :: "'s store_if \<Rightarrow> stored_json \<Rightarrow> sys_label list \<Rightarrow> 's sys \<Rightarrow> 's sys option" where
  "sys_run S J [] s = Some s"
| "sys_run S J (l # ls) s = (case sys_do S J l s of None \<Rightarrow> None | Some s' \<Rightarrow> sys_run S J ls s')"

lemma sys_run_reachable: "sys_run S J ls s = Some s' \<Longrightarrow> sys_reachable S J s0 s \<Longrightarrow> sys_reachable S J s0 s'"
  by (induction ls arbitrary: s) (auto split: option.splits dest: sys_do_step intro: reach_step)

definition ex_json :: stored_json where
  "ex_json = \<lparr>sj_members = (\<lambda>p. Some [(''seq'', p), (''type'', ''x''), (''durable'', ''true'')]),
     sj_uint = (\<lambda>v. Some (Some (if v = ''0'' then 0 else if v = ''1'' then 1 else 2))), sj_string = (\<lambda>v. Some v), sj_bool = (\<lambda>v. Some True)\<rparr>"

definition ex_ev :: "nat \<Rightarrow> string \<Rightarrow> event" where
  "ex_ev n p = \<lparr>ev_Seq = n, ev_Type = ''x'', ev_Durable = True, ev_JSON = p\<rparr>"

definition ex_store_cfg :: hub_config where
  "ex_store_cfg = ex_hub_config\<lparr>hc_MaxBytes := 1, hc_Store := True\<rparr>"

definition ex_fill :: "sys_label list" where
  "ex_fill = [LUpdate [ex_ev 0 ''0'', ex_ev 1 ''1'', ex_ev 2 ''2''] [] [], LWriter (True, True, True) 0, LWriter (True, True, True) 0,
     LWriter (True, True, True) 0, LEvict, LEvict, LUpdated]"

definition ex_resume :: "sys_label list" where
  "ex_resume = [LLoad 0 0, LResume 0, LCheck 0, LRange 0 (True, True, True), LCheck 0, LRange 0 (True, True, True), LFinal 0]"

lemmas ex_sys_defs = ex_fill_def ex_resume_def start_sys_def ex_store_cfg_def follows_def ex_ev_def ex_hub_defs newStoreWriter_def stored_of_def
  enqueue_def DefaultStoreQueueBytes_def DefaultStoreMaxBytes_def opSize_def guarded_def
   writer_step_def take_op_def mergeOps_def normalizePins_def chat_Apply_def Apply_def ex_open_def check_seqs_def db_insert_def db_pin_def to_row_def
   MaxInt64_def run_applied_def judge_def defaultHardCommit_def defaultSlowCommit_def evict_step_def writeBatchEvents_def writeBatchBytes_def

lemma sortSearchSeq_one: "sortSearchSeq [e] after = (if ev_Seq e \<le> after then 1 else 0)"
  by (simp add: sortSearchSeq_def search_seq.simps [of "[e]" after 0 "Suc 0"]) (simp add: search_seq.simps)

lemma ex_stored: "storedEvent ex_json \<lparr>st_Seq = Suc 0, st_Payload = ''1''\<rparr> 0 2 = Some (ex_ev 1 ''1'')"
  by (simp add: storedEvent_def ex_json_def validEventType_def event_type_char_def raw_member_def bad_key_def DefaultMaxEvent_def DefaultMaxLine_def
    equal_fold_def is_lower_def lower_char_def is_upper_def is_digit_def ex_ev_def char_of_eq_iff)

lemma ex_ran: "Range_log True 0 2 64 \<lparr>el_rows = [\<lparr>row_Seq = 0, row_Payload = ''0'', row_pinned = False\<rparr>, \<lparr>row_Seq = Suc 0, row_Payload = ''1'', row_pinned = False\<rparr>,
     \<lparr>row_Seq = 2, row_Payload = ''2'', row_pinned = False\<rparr>], el_files = True, el_maxPayload = 10, el_total = 3, el_closed = False, el_last = Some 2,
     el_trimmed = None, el_floor = 0\<rparr> = Inr [\<lparr>row_Seq = Suc 0, row_Payload = ''1''\<rparr>]"
  by (simp add: Range_log_def log_next_def maxRangeRows_def MaxInt64_def maxRangeBytes_def Let_def)

lemma ex_ran2: "Range_log True (Suc 0) 2 64 s = (if el_closed s then Inl LogClosed else if log_next s \<le> Suc 0 then Inl LogAfterNotIssued else Inr [])"
  by (simp add: Range_log_def)

lemmas ex_reader_defs = new_reader_def hub_trims_def reader_resumes_def SubscribeAfter_def pinnedOnlyInMemory_def
   hubSubscribersHardLimit_def hub_ring_def ring_first_def register_def sortSearchSeq_one after_first_def defaultBackfillBatch_def
   next_rows_def chat_Range_def of_row_def ex_ran ex_ran2 log_next_def ex_stored ex_ev_def

lemma ex_filled: "\<exists>s w. sys_run chatEventStore ex_json ex_fill (start_sys ex_store_cfg ex_open) = Some s \<and> sy_pub s = [ex_ev 0 ''0'', ex_ev 1 ''1'', ex_ev 2 ''2''] \<and>
    hb_w (sy_hub s) = Some w \<and> \<not> sw_degraded w \<and> hub_ring (sy_hub s) = [ex_ev 2 ''2''] \<and> log_cut (sy_db s) = 0"
  by (simp add: ex_sys_defs hub_ring_def log_cut_def)

lemma ex_resumed: "\<exists>s. sys_run chatEventStore ex_json (ex_fill @ ex_resume) (start_sys ex_store_cfg ex_open) = Some s \<and> rd_pc (sy_readers s 0) = REOF \<and>
    sb_err (hb_objs (sy_hub s) ! rd_sub (sy_readers s 0)) = None \<and> rd_got (sy_readers s 0) = [ex_ev 1 ''1''] \<and>
    reader_events (sy_readers s 0) (sy_hub s) = [ex_ev 1 ''1'', ex_ev 2 ''2'']"
  by (simp add: ex_sys_defs ex_reader_defs reader_events_def)

text \<open>
  C19: Whoever continues behind a number is told everything: in every reachable state of the hub, its writer, the log and any readers, if
  a reader has come to the end of the log and its subscription has no error, then what it was given (the rows of the log, the
  snapshot, the live events so far and those that wait for it) is strictly increasing, is behind the number it asked for, was
  published as it stands, and contains every durable event published behind that number, from the first number it was told.
\<close>

theorem resume_complete:
  assumes "Open_log g m = Inr s0" "hc_Store cfg" "sys_reachable chatEventStore J (start_sys cfg s0) s" "rd_pc (sy_readers s i) = REOF"
    "sb_err (hb_objs (sy_hub s) ! rd_sub (sy_readers s i)) = None"
  shows "let r = sy_readers s i; given = reader_events r (sy_hub s) in
    sorted_wrt (<) (map ev_Seq given) \<and>
    (\<forall>x\<in>set given. rd_after r < ev_Seq x \<and> stored_of x \<in> set (map stored_of (sy_pub s))) \<and>
    (\<forall>e\<in>set (sy_pub s). ev_Durable e \<and> rd_after r < ev_Seq e \<and> rd_first r \<le> ev_Seq e \<longrightarrow> stored_of e \<in> set (map stored_of given))"
  unfolding Let_def list.set_map
  using log_reachable [OF assms(1-3)] ev.resumed_sorted [OF _ assms(4) refl assms(5)] ev.resumed_has [OF _ assms(4) refl assms(5)]
  by blast

theorem resume_complete_witness:
  "\<exists>s. sys_run chatEventStore ex_json (ex_fill @ ex_resume) (start_sys ex_store_cfg ex_open) = Some s \<and>
     sorted_wrt (<) (map ev_Seq (reader_events (sy_readers s 0) (sy_hub s))) \<and>
     rd_got (sy_readers s 0) = [ex_ev 1 ''1''] \<and> reader_events (sy_readers s 0) (sy_hub s) = [ex_ev 1 ''1'', ex_ev 2 ''2'']"
proof -
  obtain s where s: "sys_run chatEventStore ex_json (ex_fill @ ex_resume) (start_sys ex_store_cfg ex_open) = Some s" "rd_pc (sy_readers s 0) = REOF"
    "sb_err (hb_objs (sy_hub s) ! rd_sub (sy_readers s 0)) = None" "rd_got (sy_readers s 0) = [ex_ev 1 ''1'']"
    "reader_events (sy_readers s 0) (sy_hub s) = [ex_ev 1 ''1'', ex_ev 2 ''2'']" using ex_resumed by blast
  have "hc_Store ex_store_cfg" by (simp add: ex_store_cfg_def)
  from resume_complete [OF ex_opened this sys_run_reachable [OF s(1) reach_start] s(2,3)] s(1,4,5) show ?thesis unfolding Let_def by blast
qed

text \<open>
  C20: No event falls between memory and the log: in every reachable state, as long as the log is not given up, each durable event that was
  published is still in the ring or is in the log (or was deleted from it by a Trim); and the log never holds anything that
  was not published as a durable event, and is in order.
\<close>

theorem evicted_is_stored:
  assumes "Open_log g m = Inr s0" "hc_Store cfg" "sys_reachable chatEventStore J (start_sys cfg s0) s"
  shows "sorted_wrt (<) (map st_Seq (log_rows (sy_db s))) \<and> set (log_rows (sy_db s)) \<subseteq> set (map stored_of (filter ev_Durable (sy_pub s))) \<and>
    (hb_w (sy_hub s) = Some w \<and> \<not> sw_degraded w \<and> e \<in> set (sy_pub s) \<and> ev_Durable e \<longrightarrow>
      e \<in> set (hub_ring (sy_hub s)) \<or> stored_of e \<in> set (log_rows (sy_db s)) \<or> ev_Seq e < log_cut (sy_db s))"
proof -
  obtain w' where w': "sys_inv store_inv log_rows log_cut log_next s w'" using log_reachable [OF assms] by blast
  then show ?thesis
    using ev.durable_kept [OF w'] ev.good_fields(1,4) [OF w'] ev.rows_published [OF w'] log_rows_sorted [of "sy_db s"] by (auto simp: to_store_def)
qed

theorem evicted_is_stored_witness:
  "\<exists>s. sys_run chatEventStore ex_json ex_fill (start_sys ex_store_cfg ex_open) = Some s \<and> hub_ring (sy_hub s) = [ex_ev 2 ''2''] \<and>
     stored_of (ex_ev 1 ''1'') \<in> set (log_rows (sy_db s))"
proof -
  obtain s w where s: "sys_run chatEventStore ex_json ex_fill (start_sys ex_store_cfg ex_open) = Some s"
    "sy_pub s = [ex_ev 0 ''0'', ex_ev 1 ''1'', ex_ev 2 ''2'']" "hb_w (sy_hub s) = Some w" "\<not> sw_degraded w" "hub_ring (sy_hub s) = [ex_ev 2 ''2'']"
    "log_cut (sy_db s) = 0" using ex_filled by blast
  have "hc_Store ex_store_cfg" by (simp add: ex_store_cfg_def)
  from evicted_is_stored [OF ex_opened this sys_run_reachable [OF s(1) reach_start], of w "ex_ev 1 ''1''"] s show ?thesis
    by (auto simp: ex_ev_def)
qed

end
