(* ===== verification/Chat_Facts.thy ===== *)
theory Chat_Facts
  imports Chat_Conversation
begin

text \<open>
  What happened to the requests of a conversation, read off its inputs alone: the events of the lines of the agent and the
  answers that were accepted. A request is undecided if nothing after the event that made it settles it. The conversation answers
  undecided requests only (invariant \<open>open_ok\<close>), which gives its three main properties.
\<close>

section \<open>Facts\<close>

datatype chat_fact = FAsked string event | FWithdrawn string | FAnswered string | FTurnEnded | FStopped

text \<open>A request that can be read is asked for; a resolution by the agent withdraws it.\<close>

definition event_facts :: "chat_lib \<Rightarrow> event \<Rightarrow> chat_fact list" where
  "event_facts lib e =
     (if ev_Type e = TypePermissionRequested \<or> ev_Type e = TypeFormRequested then
        (case (requestID lib e, holdRequest lib e) of (Some rid, Some _) \<Rightarrow> [FAsked rid e] | _ \<Rightarrow> [])
      else if ev_Type e = TypePermissionResolved \<or> ev_Type e = TypeFormResolved then
        (case requestID lib e of None \<Rightarrow> [] | Some rid \<Rightarrow> [FWithdrawn rid])
      else [])"

text \<open>What a call adds. The end of a turn counts from the end of its line on.\<close>

fun call_facts :: "'s agent_stream \<Rightarrow> chat_lib \<Rightarrow> chat_env \<Rightarrow> conv_call \<Rightarrow> 's conv \<Rightarrow> chat_fact list" where
  "call_facts S lib E (CLine l) c =
     (case fst (feed_Decode S lib E l c) of
        Inl _ \<Rightarrow> []
      | Inr evs \<Rightarrow> concat (map (event_facts lib) evs) @ (if TypeTurnCompleted \<in> ev_Type ` set evs then [FTurnEnded] else []))"
| "call_facts S lib E (CPermission g r) c = (if fst (ResolvePermissionIn S lib E g r c) = None then [FAnswered (ps_RequestID r)] else [])"
| "call_facts S lib E (CForm g i r) c = (if fst (ResolveFormIn S lib E g i r c) = None then [FAnswered i] else [])"
| "call_facts S lib E CStop c = [FStopped]"
| "call_facts S lib E (CClose_conv x) c = [FStopped]"
| "call_facts S lib E (CSend t) c = []"

fun run_facts :: "'s agent_stream \<Rightarrow> chat_lib \<Rightarrow> chat_env \<Rightarrow> conv_call list \<Rightarrow> 's conv \<Rightarrow> chat_fact list" where
  "run_facts S lib E [] c = []"
| "run_facts S lib E (k # ks) c = call_facts S lib E k c @ run_facts S lib E ks (snd (do_conv S lib E k c))"

text \<open>The facts after which the request \<open>rid\<close> is no longer the one that was asked for before.\<close>

fun settles :: "string \<Rightarrow> chat_fact \<Rightarrow> bool" where
  "settles rid (FAsked i e) \<longleftrightarrow> i = rid"
| "settles rid (FWithdrawn i) \<longleftrightarrow> i = rid"
| "settles rid (FAnswered i) \<longleftrightarrow> i = rid"
| "settles rid FTurnEnded \<longleftrightarrow> True"
| "settles rid FStopped \<longleftrightarrow> True"

definition undecided :: "chat_fact list \<Rightarrow> string \<Rightarrow> event \<Rightarrow> bool" where
  "undecided fs rid e \<longleftrightarrow> (\<exists>before since. fs = before @ FAsked rid e # since \<and> (\<forall>f\<in>set since. \<not> settles rid f))"

lemma undecided_new: "undecided (fs @ [FAsked rid e]) rid e"
  by (force simp: undecided_def)

lemma undecided_later: "undecided fs rid e \<Longrightarrow> \<forall>f\<in>set gs. \<not> settles rid f \<Longrightarrow> undecided (fs @ gs) rid e"
proof -
  assume g: "\<forall>f\<in>set gs. \<not> settles rid f"
  assume "undecided fs rid e"
  then obtain before since where "fs = before @ FAsked rid e # since" "\<forall>f\<in>set since. \<not> settles rid f" by (auto simp: undecided_def)
  then show ?thesis using g unfolding undecided_def by (intro exI [of _ before] exI [of _ "since @ gs"]) auto
qed

lemma undecided_asked_again:
  assumes "undecided (before @ FAnswered rid # since) rid e"
  shows "\<exists>e. FAsked rid e \<in> set since"
proof -
  obtain u v where s: "before @ FAnswered rid # since = u @ FAsked rid e # v" "\<forall>f\<in>set v. \<not> settles rid f"
    using assms by (auto simp: undecided_def)
  then have "FAnswered rid \<notin> set v" by auto
  then show ?thesis using s(1) by (auto simp: append_eq_append_conv2 append_eq_Cons_conv Cons_eq_append_conv)
qed

section \<open>Open requests are undecided\<close>

definition open_ok :: "chat_fact list \<Rightarrow> string set \<Rightarrow> 's conv \<Rightarrow> bool" where
  "open_ok fs rejected c \<longleftrightarrow> (\<forall>(rid, it)\<in>set (cv_pending c). undecided fs rid (pi_ev it) \<or> rid \<in> rejected)"

lemma open_ok_less:
  assumes "open_ok fs X c" "\<And>rid it. (rid, it) \<in> set (cv_pending c') \<Longrightarrow> (rid, it) \<in> set (cv_pending c) \<and> (\<forall>f\<in>set gs. \<not> settles rid f)"
  shows "open_ok (fs @ gs) X c'"
  using assms undecided_later unfolding open_ok_def by fastforce

lemma open_ok_Nil: "cv_pending c = [] \<Longrightarrow> open_ok fs X c"
  by (simp add: open_ok_def)

lemma hold_event: "holdRequest lib e = Some it \<Longrightarrow> pi_ev it = e"
  by (auto simp: holdRequest_def split: if_splits option.splits)

lemma open_ok_pending: "cv_pending c' = cv_pending c \<Longrightarrow> open_ok fs X c' = open_ok fs X c"
  by (simp add: open_ok_def)

lemma pass_on_pending: "pass_on e (acc, c) = (acc', c') \<Longrightarrow> cv_pending c' = cv_pending c \<and> la_rejects acc' = la_rejects acc \<and> la_completed acc' = la_completed acc"
  by (auto simp: pass_on_def)

text \<open>Whatever an event of a line does to the open requests is what it says.\<close>

lemma line_event_pending:
  assumes "line_event lib e (acc, c) = (acc', c')"
  shows "(cv_pending c' = cv_pending c \<and> event_facts lib e = [] \<and> la_rejects acc' = la_rejects acc) \<or>
    (\<exists>rid it. event_facts lib e = [FAsked rid e] \<and> pi_ev it = e \<and>
       (cv_pending c' = filter (\<lambda>(k, _). k \<noteq> rid) (cv_pending c) @ [(rid, it)] \<and> la_rejects acc' = la_rejects acc \<or>
        cv_pending c' = cv_pending c \<and> fst ` set (la_rejects acc') = insert rid (fst ` set (la_rejects acc)))) \<or>
    (\<exists>rid. event_facts lib e = [FWithdrawn rid] \<and> cv_pending c' = filter (\<lambda>(k, _). k \<noteq> rid) (cv_pending c) \<and> la_rejects acc' = la_rejects acc)"
    (is "?same \<or> ?ask \<or> ?res")
proof -
  consider "ev_Type e = TypePermissionRequested \<or> ev_Type e = TypeFormRequested" | "ev_Type e = TypePermissionResolved \<or> ev_Type e = TypeFormResolved"
    | "ev_Type e \<notin> {TypePermissionRequested, TypeFormRequested, TypePermissionResolved, TypeFormResolved}" by auto
  then show ?thesis
  proof cases
    case 1
    then have t: "ev_Type e \<noteq> TypeError" by (auto simp: v0_types)
    show ?thesis
    proof (cases "requestID lib e = None \<or> holdRequest lib e = None")
      case True
      then show ?thesis using assms 1 t by (auto simp: line_event_def event_facts_def split: option.splits)
    next
      case False
      then obtain rid it where h: "requestID lib e = Some rid" "holdRequest lib e = Some it" by auto
      then have "event_facts lib e = [FAsked rid e]" using 1 by (simp add: event_facts_def)
      moreover have "cv_pending c' = filter (\<lambda>(k, _). k \<noteq> rid) (cv_pending c) @ [(rid, it)] \<and> la_rejects acc' = la_rejects acc \<or>
          cv_pending c' = cv_pending c \<and> fst ` set (la_rejects acc') = insert rid (fst ` set (la_rejects acc))"
        using assms 1 t h by (auto simp: line_event_def split: if_splits dest!: pass_on_pending)
      ultimately show ?thesis using hold_event [OF h(2)] by blast
    qed
  next
    case 2
    then have t: "ev_Type e \<noteq> TypeError" "ev_Type e \<noteq> TypePermissionRequested" "ev_Type e \<noteq> TypeFormRequested" by (auto simp: v0_types)
    show ?thesis
    proof (cases "requestID lib e")
      case None
      then show ?thesis using assms 2 t by (auto simp: line_event_def event_facts_def dest!: pass_on_pending)
    next
      case (Some rid)
      then have f: "event_facts lib e = [FWithdrawn rid]" using 2 t by (simp add: event_facts_def)
      have "cv_pending c' = filter (\<lambda>(k, _). k \<noteq> rid) (cv_pending c) \<and> la_rejects acc' = la_rejects acc"
      proof (cases "map_of (cv_pending c) rid")
        case None
        then have "filter (\<lambda>(k, _). k \<noteq> rid) (cv_pending c) = cv_pending c" by (force simp: filter_id_conv map_of_eq_None_iff)
        then show ?thesis using assms 2 t Some None by (auto simp: line_event_def split: if_splits dest!: pass_on_pending)
      next
        case (Some it)
        then show ?thesis using assms 2 t \<open>requestID lib e = Some rid\<close> by (auto simp: line_event_def dest!: pass_on_pending)
      qed
      then show ?thesis using f by blast
    qed
  next
    case 3
    then have "event_facts lib e = []" by (simp add: event_facts_def)
    moreover have "cv_pending c' = cv_pending c \<and> la_rejects acc' = la_rejects acc"
      using assms 3 by (auto simp: line_event_def split: if_splits dest!: pass_on_pending)
    ultimately show ?thesis by blast
  qed
qed

lemma line_event_open:
  assumes "line_event lib e (acc, c) = (acc', c')" "open_ok fs (fst ` set (la_rejects acc)) c"
  shows "open_ok (fs @ event_facts lib e) (fst ` set (la_rejects acc')) c'"
  using line_event_pending [OF assms(1)]
proof (elim disjE exE conjE)
  fix rid it
  assume a: "event_facts lib e = [FAsked rid e]" "pi_ev it = e" "cv_pending c' = filter (\<lambda>(k, _). k \<noteq> rid) (cv_pending c) @ [(rid, it)]"
    "la_rejects acc' = la_rejects acc"
  then show ?thesis using assms(2) undecided_new [of fs rid e] undecided_later [of fs _ _ "[FAsked rid e]"]
    by (fastforce simp: open_ok_def)
next
  fix rid it
  assume a: "event_facts lib e = [FAsked rid e]" "cv_pending c' = cv_pending c" "fst ` set (la_rejects acc') = insert rid (fst ` set (la_rejects acc))"
  then show ?thesis using assms(2) undecided_later [of fs _ _ "[FAsked rid e]"] by (fastforce simp: open_ok_def)
next
  fix rid
  assume a: "event_facts lib e = [FWithdrawn rid]" "cv_pending c' = filter (\<lambda>(k, _). k \<noteq> rid) (cv_pending c)" "la_rejects acc' = la_rejects acc"
  then show ?thesis using assms(2) by (auto intro!: open_ok_less)
qed (use assms(2) in \<open>simp add: open_ok_def\<close>)

lemma line_fold_open:
  assumes "fold (line_event lib) evs (acc, c) = (acc', c')" "open_ok fs (fst ` set (la_rejects acc)) c"
  shows "open_ok (fs @ concat (map (event_facts lib) evs)) (fst ` set (la_rejects acc')) c'"
  using assms
proof (induction evs arbitrary: acc c fs)
  case (Cons e evs)
  obtain acc1 c1 where l: "line_event lib e (acc, c) = (acc1, c1)" by force
  have "fold (line_event lib) evs (acc1, c1) = (acc', c')" using Cons.prems(1) l by simp
  from Cons.IH [OF this line_event_open [OF l Cons.prems(2)]] show ?case by simp
qed simp

lemma line_fold_completed:
  assumes "fold (line_event lib) evs (acc, c) = (acc', c')"
  shows "la_completed acc' \<longleftrightarrow> la_completed acc \<or> TypeTurnCompleted \<in> ev_Type ` set evs"
  using assms
proof (induction evs arbitrary: acc c)
  case (Cons e evs)
  obtain acc1 c1 where l: "line_event lib e (acc, c) = (acc1, c1)" by force
  have "la_completed acc1 \<longleftrightarrow> la_completed acc \<or> ev_Type e = TypeTurnCompleted"
    using l by (auto simp: line_event_def v0_types split: if_splits option.splits dest!: pass_on_pending)
  then show ?case using Cons.IH [of acc1 c1] Cons.prems l by auto
qed simp

lemma autoReject_pending:
  "set (cv_pending (autoRejectLocked S lib E (rid, f) c)) \<subseteq> {(k, it). (k, it) \<in> set (cv_pending c) \<and> k \<noteq> rid}"
proof -
  have p: "cv_pending (autoRejectLocked S lib E (rid, f) c) = cv_pending (settleLocked lib rid c) \<or> cv_pending (autoRejectLocked S lib E (rid, f) c) = []"
  proof (cases "cv_state c = StateClosed \<or> cv_stopped c")
    case True
    let ?c1 = "settleLocked lib rid c"
    show ?thesis
      using True emitResolved_spec [of "?c1\<lparr>cv_orphans := insert (cl_sha256 lib rid) (cv_orphans ?c1)\<rparr>" lib E rid f "''cancelled''"]
      by (simp add: autoRejectLocked_def Let_def)
  next
    case False
    obtain r c2 where q: "feed_EncodeQuiet S (reject_command rid f) (settleLocked lib rid c) = (r, c2)" by force
    have c2: "cv_pending c2 = cv_pending (settleLocked lib rid c)" using q by (auto simp: feed_EncodeQuiet_def split: sum.splits prod.splits)
    show ?thesis
    proof (cases r)
      case (Inl x)
      then show ?thesis using False q c2 emitResolved_spec [of c2 lib E rid f "''cancelled''"] by (simp add: autoRejectLocked_def Let_def)
    next
      case (Inr raw)
      obtain b c3 where w: "write_line E (reject_command rid f) raw c2 = (b, c3)" by force
      have "cv_pending c3 = cv_pending c2" using w by (auto simp: write_line_def split: if_splits)
      then show ?thesis
        using False q w Inr c2 emitResolved_spec [of c3 lib E rid f] failLocked_spec [of "emitResolvedLocked lib E rid f ''cancelled'' c3" lib E]
        by (cases b) (simp_all add: autoRejectLocked_def Let_def)
    qed
  qed
  then show ?thesis by auto
qed

lemma autoRejects_pending:
  "set (cv_pending (fold (autoRejectLocked S lib E) rs c)) \<subseteq> {(k, it). (k, it) \<in> set (cv_pending c) \<and> k \<notin> fst ` set rs}"
proof (induction rs arbitrary: c)
  case (Cons r rs)
  obtain rid f where "r = (rid, f)" by force
  then show ?case using Cons [of "autoRejectLocked S lib E r c"] autoReject_pending [of S lib E rid f c] by (auto simp: image_iff)
qed auto

text \<open>Every call keeps its open requests undecided.\<close>

lemma OnLine_open:
  assumes "conv_inv lib c" "open_ok fs {} c" "OnLine S lib E l c = (err, c')"
  shows "open_ok (fs @ call_facts S lib E (CLine l) c) {} c'"
proof -
  obtain r c1 where f: "feed_Decode S lib E l c = (r, c1)" by force
  obtain st n where c1: "c1 = c\<lparr>cv_stream := st, cv_seq := n\<rparr>" and n: "cv_seq c \<le> n" "\<forall>evs. r = Inr evs \<longrightarrow> map ev_Seq evs = [cv_seq c..<n]"
    using feed_Decode_spec [OF f] by blast
  show ?thesis
  proof (cases r)
    case (Inl x)
    then have "c' = c1" using assms(3) f by (simp add: OnLine_def)
    then show ?thesis using assms(2) f Inl c1 by (simp add: open_ok_def)
  next
    case (Inr evs)
    let ?acc0 = "\<lparr>la_publish = [], la_pin = [], la_unpin = [], la_rejects = [], la_completed = False\<rparr>" and ?new = "concat (map (event_facts lib) evs)"
    obtain acc c2 where l: "fold (line_event lib) evs (?acc0, c1) = (acc, c2)" by force
    let ?c3 = "hub_update E (la_publish acc) (la_pin acc) (la_unpin acc) c2"
    let ?c4 = "if la_completed acc \<and> cv_state ?c3 = StateTurn then expireAllLocked lib E (?c3\<lparr>cv_state := StateIdle\<rparr>) else ?c3"
    have c': "c' = fold (autoRejectLocked S lib E) (la_rejects acc) ?c4" using assms(3) f Inr l by (simp add: OnLine_def Let_def)
    have "open_ok fs (fst ` set (la_rejects ?acc0)) c1" using assms(2) c1 by (simp add: open_ok_def)
    from line_fold_open [OF l this] have o2: "open_ok (fs @ ?new) (fst ` set (la_rejects acc)) c2" .
    show ?thesis
    proof (cases "la_completed acc \<and> cv_state ?c3 = StateTurn")
      case True
      have "cv_pending ?c4 = []" unfolding if_P [OF True] using expireAll_spec by blast
      then have "cv_pending c' = []" unfolding c' using autoRejects_pending [of S lib E "la_rejects acc" ?c4] by auto
      then show ?thesis by (rule open_ok_Nil)
    next
      case False
      then have c4: "?c4 = ?c3" by (rule if_not_P)
      have sub: "set (cv_pending c') \<subseteq> {(k, it). (k, it) \<in> set (cv_pending c2) \<and> k \<notin> fst ` set (la_rejects acc)}"
        using autoRejects_pending [of S lib E "la_rejects acc" ?c4] unfolding c' c4 by simp
      then have o: "open_ok (fs @ ?new) {} c'" using o2 by (auto simp: open_ok_def)
      show ?thesis
      proof (cases "la_completed acc")
        case True
        have "conv_inv lib c1" unfolding c1
          by (rule conv_inv_weaken [OF assms(1) emits_advance, where P = "\<lambda>_. True"])
            (use assms(1) n in \<open>simp_all add: conv_inv_def settled_ok_def\<close>)
        then have "line_ok lib c1 (cv_seq c) (cv_seq c) (?acc0, c1)" by (simp add: line_ok_def conv_inv_def)
        from line_fold_ok [OF this, of evs n] n Inr l have "line_ok lib c1 (cv_seq c) n (acc, c2)" by simp
        then have "cv_pending c2 \<noteq> [] \<longrightarrow> cv_state c2 = StateTurn" by (simp add: line_ok_def pending_ok_def)
        then have "cv_pending c2 = []" using False True by auto
        then have "cv_pending c' = []" using sub by auto
        then show ?thesis by (rule open_ok_Nil)
      next
        case False
        then have "TypeTurnCompleted \<notin> ev_Type ` set evs" using line_fold_completed [OF l] by simp
        then show ?thesis using o f Inr by simp
      qed
    qed
  qed
qed

lemma answer_open:
  assumes "conv_inv lib c" "open_ok fs {} c" "writeResolveLocked S lib E rid it cmd c = (err, c')"
  shows "open_ok (fs @ (if err = None then [FAnswered rid] else [])) {} c'"
proof (rule open_ok_less [OF assms(2)])
  fix i j
  assume m: "(i, j) \<in> set (cv_pending c')"
  have "i \<noteq> rid" using settled_after [OF assms(1,3)] m by force
  moreover have "cv_pending c' = [] \<or> cv_pending c' = filter (\<lambda>(k, _). k \<noteq> rid) (cv_pending c)"
    using writeResolve_spec [OF assms(3) conv_inv_fields(1) [OF assms(1)]] by presburger
  ultimately show "(i, j) \<in> set (cv_pending c) \<and> (\<forall>f\<in>set (if err = None then [FAnswered rid] else []). \<not> settles i f)" using m by auto
qed

lemma call_open:
  assumes "conv_inv lib c" "open_ok fs {} c" "do_conv S lib E k c = (err, c')"
  shows "open_ok (fs @ call_facts S lib E k c) {} c'"
proof (cases k)
  case (CSend t)
  let ?cmd = "\<lparr>cmd_V = Version, cmd_Type = CommandPrompt, cmd_Data = PromptText t\<rparr>"
  obtain r c1 where f: "feed_Encode S lib E ?cmd c = (r, c1)" by force
  have c1: "cv_pending c1 = cv_pending c" using feed_Encode_spec [OF f] by auto
  have "cv_pending c' = [] \<or> cv_pending c' = cv_pending c"
  proof (cases "\<exists>raw evs. r = Inr (raw, evs)")
    case True
    then obtain raw evs where r: "r = Inr (raw, evs)" by blast
    obtain b c2 where w: "write_line E ?cmd raw c1 = (b, c2)" by force
    have "cv_pending c2 = cv_pending c1" using w by (auto simp: write_line_def split: if_splits)
    then show ?thesis using assms(3) CSend f r w c1 failLocked_spec [of c2 lib E]
      by (cases b) (auto simp: Send_def Let_def split: if_splits)
  next
    case False
    then show ?thesis using assms(3) CSend f c1 by (cases r) (auto simp: Send_def split: if_splits)
  qed
  then show ?thesis using CSend assms(2) by (auto simp: open_ok_def)
next
  case (CPermission g r)
  then have s: "ResolvePermissionIn S lib E g r c = (err, c')" using assms(3) by simp
  show ?thesis by (rule Permission_cases [OF s]) (use CPermission s assms(2) answer_open [OF assms(1,2)] in auto)
next
  case (CForm g i r)
  then have s: "ResolveFormIn S lib E g i r c = (err, c')" using assms(3) by simp
  show ?thesis by (rule Form_cases [OF s]) (use CForm s assms(2) answer_open [OF assms(1,2)] in auto)
next
  case CStop
  then show ?thesis using assms(3) Stop_spec [OF assms(1), of E] by (intro open_ok_Nil) (auto simp: conv_inv_def pending_ok_def)
next
  case (CClose_conv x)
  then show ?thesis using assms(3) expireAll_spec [of "c\<lparr>cv_state := StateClosed\<rparr>" lib E]
    by (intro open_ok_Nil) (auto simp: Conv_Close_def Let_def)
next
  case (CLine l)
  then show ?thesis using OnLine_open [OF assms(1,2)] assms(3) by simp
qed

lemma run_open:
  "conv_inv lib c \<Longrightarrow> open_ok fs {} c \<Longrightarrow> open_ok (fs @ run_facts S lib E ks c) {} (run_conv S lib E ks c)"
proof (induction ks arbitrary: c fs)
  case (Cons k ks)
  obtain err c' where d: "do_conv S lib E k c = (err, c')" by force
  have "conv_inv lib c'" using do_conv_grows [OF Cons.prems(1) d] by (simp add: grows_def)
  from Cons.IH [OF this call_open [OF Cons.prems d]] show ?case by (simp add: d)
qed simp

text \<open>What is open in a conversation is undecided.\<close>

lemma held_undecided:
  assumes "\<not> hb_ended h" "c = run_conv S lib E calls (NewConversation st session h g req)" "map_of (cv_pending c) rid = Some it"
  shows "undecided (run_facts S lib E calls (NewConversation st session h g req)) rid (pi_ev it)"
proof -
  have "open_ok [] {} (NewConversation st session h g req)" by (simp add: open_ok_def NewConversation_def)
  from run_open [OF conv_inv_New [OF assms(1)] this, where S = S and E = E and ks = calls] show ?thesis
    using assms(2) map_of_SomeD [OF assms(3)] by (auto simp: open_ok_def)
qed

text \<open>An accepted answer answers an undecided request.\<close>

lemma answer_fact:
  assumes "FAnswered rid \<in> set (call_facts S lib E k c)"
  shows "call_facts S lib E k c = [FAnswered rid] \<and> (\<exists>it. map_of (cv_pending c) rid = Some it)"
proof (cases k)
  case (CPermission g r)
  obtain err c' where s: "ResolvePermissionIn S lib E g r c = (err, c')" by force
  show ?thesis by (rule Permission_cases [OF s]) (use CPermission s assms in \<open>auto split: if_splits\<close>)
next
  case (CForm g i r)
  obtain err c' where s: "ResolveFormIn S lib E g i r c = (err, c')" by force
  show ?thesis by (rule Form_cases [OF s]) (use CForm s assms in \<open>auto split: if_splits\<close>)
qed (use assms in \<open>auto simp: event_facts_def split: sum.splits if_splits option.splits\<close>)

lemma answered_undecided:
  assumes "conv_inv lib c" "open_ok fs {} c" "run_facts S lib E ks c = before @ FAnswered rid # since"
  shows "\<exists>e. undecided (fs @ before) rid e"
  using assms
proof (induction ks arbitrary: c fs before)
  case (Cons k ks)
  obtain err c' where d: "do_conv S lib E k c = (err, c')" by force
  have f: "call_facts S lib E k c @ run_facts S lib E ks c' = before @ FAnswered rid # since" using Cons.prems(3) d by simp
  show ?case
  proof (cases "FAnswered rid \<in> set (call_facts S lib E k c) \<and> length before < length (call_facts S lib E k c)")
    case True
    then have "before = []" "\<exists>it. map_of (cv_pending c) rid = Some it" using answer_fact [of rid S lib E k c] by auto
    then show ?thesis using Cons.prems(2) map_of_SomeD [of "cv_pending c" rid] by (fastforce simp: open_ok_def)
  next
    case False
    have "length (call_facts S lib E k c) \<le> length before"
    proof (rule ccontr)
      assume l: "\<not> length (call_facts S lib E k c) \<le> length before"
      then have "call_facts S lib E k c ! length before = FAnswered rid" using f by (metis nth_append nth_append_length not_le)
      then show False using False l by (metis not_le nth_mem)
    qed
    then obtain rest where b: "before = call_facts S lib E k c @ rest" "run_facts S lib E ks c' = rest @ FAnswered rid # since"
      using f by (auto simp: append_eq_append_conv2)
    have "conv_inv lib c'" using do_conv_grows [OF Cons.prems(1) d] by (simp add: grows_def)
    from Cons.IH [OF this call_open [OF Cons.prems(1,2) d] b(2)] show ?thesis by (simp add: b(1))
  qed
qed simp

section \<open>Properties\<close>

text \<open>
  C4: Nothing but the human allows a tool call. Whatever the agent and its adapter do, whenever a permission answer with outcome
  allow_once reaches the agent's input, it is written by a call of ResolvePermissionIn with the generation of this run and that
  very answer, for a request that was published to the user as a permission request and whose published content has
  the hash that the answer names (or no hash is named and none is required). The request is undecided: since the event that asked
  for it the agent has not asked anew under its identifier or withdrawn it, no answer to it was accepted, no turn has
  ended and the conversation was not stopped. Nothing else is written in that call and the request is not open after it.
\<close>

theorem allow_only_by_human:
  assumes "\<not> hb_ended h" "c = run_conv S lib E calls (NewConversation st session h g req)" "do_conv S lib E k c = (err, c')"
    "x \<in> set (drop (length (cv_written c)) (cv_written c'))" "cmd_Data (fst x) = PermissionAnswer rid ''allow_once''"
  shows "\<exists>r e p. k = CPermission g r \<and> g \<noteq> [] \<and> ps_RequestID r = rid \<and> ps_Outcome r = ''allow_once'' \<and>
    e \<in> set (cv_published c) \<and> ev_Type e = ''permission.requested'' \<and> requestID lib e = Some rid \<and> cl_event_perm lib (ev_JSON e) = Some p \<and>
    (ps_ContentHash r = pr_ContentHash p \<or> ps_ContentHash r = [] \<and> \<not> req) \<and>
    undecided (run_facts S lib E calls (NewConversation st session h g req)) rid e \<and>
    cv_written c' = cv_written c @ [x] \<and> rid \<notin> fst ` set (cv_pending c')"
proof (rule allow_cases [OF assms])
  fix r it
  assume a: "k = CPermission g r" "g \<noteq> []" "ps_RequestID r = rid" "ps_Outcome r = ''allow_once''" "map_of (cv_pending c) rid = Some it"
    "pi_form it = None" "pi_hash it = ps_ContentHash r \<or> ps_ContentHash r = [] \<and> \<not> req"
    "writeResolveLocked S lib E rid it \<lparr>cmd_V = Version, cmd_Type = CommandPermissionResolve, cmd_Data = PermissionAnswer rid ''allow_once''\<rparr> c = (err, c')"
    "cv_written c' = cv_written c @ [x]"
  note inv = run_conv_inv [OF assms(1,2)]
  note pend = conv_inv_pending [OF inv(1) a(5)]
  obtain p where "ev_Type (pi_ev it) = TypePermissionRequested" "cl_event_perm lib (ev_JSON (pi_ev it)) = Some p" "pi_hash it = pr_ContentHash p"
    using hold_permission [OF pend(3) a(6)] by blast
  then show ?thesis
    using a pend settled_after [OF inv(1) a(8)] held_undecided [OF assms(1,2) a(5)]
    by (intro exI [of _ r] exI [of _ "pi_ev it"] exI [of _ p]) (auto simp: TypePermissionRequested_def)
qed

theorem allow_only_by_human_witness:
  "\<exists>p e. e \<in> set (cv_published (ex_asked TypePermissionRequested)) \<and> cl_event_perm ex_lib (ev_JSON e) = Some p \<and> pr_ContentHash p = ''h''"
proof -
  obtain c' where c': "do_conv (ex_stream TypePermissionRequested) ex_lib ex_env (CPermission ''g'' \<lparr>ps_RequestID = ''r'', ps_Outcome = ''allow_once'', ps_ContentHash = ''h''\<rparr>)
      (ex_asked TypePermissionRequested) = (None, c')"
    "cv_written c' = cv_written (ex_asked TypePermissionRequested) @
       [(\<lparr>cmd_V = Version, cmd_Type = CommandPermissionResolve, cmd_Data = PermissionAnswer ''r'' ''allow_once''\<rparr>, ''line'')]"
    using ex_allow by blast
  have mem: "(\<lparr>cmd_V = Version, cmd_Type = CommandPermissionResolve, cmd_Data = PermissionAnswer ''r'' ''allow_once''\<rparr>, ''line'')
      \<in> set (drop (length (cv_written (ex_asked TypePermissionRequested))) (cv_written c'))" by (simp add: c'(2))
  have run: "ex_asked TypePermissionRequested = run_conv (ex_stream TypePermissionRequested) ex_lib ex_env [CSend ''hi'', CLine ''l'']
      (NewConversation () ''s'' (NewHub ex_hub_config) ''g'' True)" by (simp add: ex_asked_def ex_run_def)
  from allow_only_by_human [OF ex_New run c'(1) mem, where rid = "''r''"]
  obtain e p where "e \<in> set (cv_published (ex_asked TypePermissionRequested))" "cl_event_perm ex_lib (ev_JSON e) = Some p"
    "pr_ContentHash p = ''h''" by auto
  then show ?thesis by metis
qed

text \<open>
  C12: The same for forms: an answer that reaches the agent was given by the human in a call with the generation of this run, to a form
  that was published and is undecided in the same sense; it fits that form, names its content hash (or no hash, if none is required), and
  goes to the agent without the hash.
\<close>

theorem form_answer_only_by_human:
  assumes "\<not> hb_ended h" "c = run_conv S lib E calls (NewConversation st session h g req)" "do_conv S lib E k c = (err, c')"
    "x \<in> set (drop (length (cv_written c)) (cv_written c'))" "cmd_Data (fst x) = FormAnswer a" "fs_Outcome a = ''answered''"
  shows "\<exists>r e f. k = CForm g (fs_RequestID r) r \<and> g \<noteq> [] \<and> a = r\<lparr>fs_ContentHash := []\<rparr> \<and>
    e \<in> set (cv_published c) \<and> ev_Type e = ''form.requested'' \<and> requestID lib e = Some (fs_RequestID r) \<and> cl_event_form lib (ev_JSON e) = Some f \<and>
    Answer_Validate f r = Inr () \<and> undecided (run_facts S lib E calls (NewConversation st session h g req)) (fs_RequestID r) e \<and>
    (fs_ContentHash r = fr_ContentHash f \<or> fs_ContentHash r = [] \<and> \<not> req) \<and>
    cv_written c' = cv_written c @ [x] \<and> fs_RequestID r \<notin> fst ` set (cv_pending c')"
proof -
  note inv = run_conv_inv [OF assms(1,2)]
  show ?thesis
  proof (cases k)
    case (CForm g' i r)
    then have "ResolveFormIn S lib E g' i r c = (err, c')" using assms(3) by simp
    then show ?thesis
    proof (cases rule: Form_cases)
      case 1
      then show ?thesis using assms(4) by simp
    next
      case (2 it f)
      note w = writeResolve_spec [OF 2(8) conv_inv_fields(1) [OF inv(1)]]
      have wx: "cv_written c' = cv_written c @ [x]" "cmd_Data (fst x) = FormAnswer (r\<lparr>fs_ContentHash := []\<rparr>)"
        using w assms(4) by (auto split: if_splits)
      note pend = conv_inv_pending [OF inv(1) 2(4)]
      have "ev_Type (pi_ev it) = TypeFormRequested" "cl_event_form lib (ev_JSON (pi_ev it)) = Some f" "pi_hash it = fr_ContentHash f"
        using hold_form [OF pend(3) 2(5)] by blast+
      then show ?thesis
        using CForm 2 pend wx inv assms(5) settled_after [OF inv(1) 2(8)] held_undecided [OF assms(1,2) 2(4)]
        by (intro exI [of _ r] exI [of _ "pi_ev it"] exI [of _ f]) (auto simp: TypeFormRequested_def split: if_splits)
    qed
  next
    case (CPermission g' r)
    then show ?thesis using permission_writes [OF inv(1)] assms(3-5) by fastforce
  qed (use other_writes [OF inv(1) assms(3,4)] assms(5,6) in \<open>auto simp: FormCancelled_def\<close>)
qed

theorem form_answer_only_by_human_witness:
  "\<exists>f e. e \<in> set (cv_published (ex_asked TypeFormRequested)) \<and> cl_event_form ex_lib (ev_JSON e) = Some f \<and> Answer_Validate f ex_answer = Inr ()"
proof -
  obtain c' where c': "do_conv (ex_stream TypeFormRequested) ex_lib ex_env (CForm ''g'' ''r'' ex_answer) (ex_asked TypeFormRequested) = (None, c')"
    "cv_written c' = cv_written (ex_asked TypeFormRequested) @
       [(\<lparr>cmd_V = Version, cmd_Type = CommandFormResolve, cmd_Data = FormAnswer (ex_answer\<lparr>fs_ContentHash := []\<rparr>)\<rparr>, ''line'')]"
    using ex_form_answer by blast
  have mem: "(\<lparr>cmd_V = Version, cmd_Type = CommandFormResolve, cmd_Data = FormAnswer (ex_answer\<lparr>fs_ContentHash := []\<rparr>)\<rparr>, ''line'')
      \<in> set (drop (length (cv_written (ex_asked TypeFormRequested))) (cv_written c'))" by (simp add: c'(2))
  have run: "ex_asked TypeFormRequested = run_conv (ex_stream TypeFormRequested) ex_lib ex_env [CSend ''hi'', CLine ''l'']
      (NewConversation () ''s'' (NewHub ex_hub_config) ''g'' True)" by (simp add: ex_asked_def ex_run_def)
  from form_answer_only_by_human [OF ex_New run c'(1) mem, where a = "ex_answer\<lparr>fs_ContentHash := []\<rparr>"]
  show ?thesis by (auto simp: ex_answer_def)
qed

text \<open>
  C24: A request is answered once. Every answer that is accepted in a conversation, to a permission request or a form, answers a
  request that is undecided at that time; so between two answers to the same identifier the agent has asked again.
\<close>

theorem answered_once:
  assumes "\<not> hb_ended h" "run_facts S lib E calls (NewConversation st session h g req) = before @ FAnswered rid # since"
  shows "(\<exists>e. undecided before rid e) \<and> (\<forall>between rest. since = between @ FAnswered rid # rest \<longrightarrow> (\<exists>e. FAsked rid e \<in> set between))"
proof -
  have o: "open_ok [] {} (NewConversation st session h g req)" by (simp add: open_ok_def NewConversation_def)
  note ans = answered_undecided [OF conv_inv_New [OF assms(1)] o, where S = S and E = E and ks = calls]
  have "\<exists>e. undecided before rid e" using ans [OF assms(2)] by simp
  moreover have "\<exists>e. FAsked rid e \<in> set between" if b: "since = between @ FAnswered rid # rest" for between rest
  proof -
    have "run_facts S lib E calls (NewConversation st session h g req) = (before @ FAnswered rid # between) @ FAnswered rid # rest"
      using assms(2) b by simp
    then obtain e where "undecided (before @ FAnswered rid # between) rid e" using ans by fastforce
    then show ?thesis by (rule undecided_asked_again)
  qed
  ultimately show ?thesis by blast
qed

theorem answered_once_witness:
  "\<exists>e. undecided (run_facts (ex_stream TypePermissionRequested) ex_lib ex_env [CSend ''hi'', CLine ''l'']
     (NewConversation () ''s'' (NewHub ex_hub_config) ''g'' True)) ''r'' e"
proof -
  let ?r = "\<lparr>ps_RequestID = ''r'', ps_Outcome = ''allow_once'', ps_ContentHash = ''h''\<rparr>"
  let ?c = "NewConversation () ''s'' (NewHub ex_hub_config) ''g'' True"
  obtain c' where "do_conv (ex_stream TypePermissionRequested) ex_lib ex_env (CPermission ''g'' ?r) (ex_asked TypePermissionRequested) = (None, c')"
    using ex_allow by blast
  then have "run_facts (ex_stream TypePermissionRequested) ex_lib ex_env [CSend ''hi'', CLine ''l'', CPermission ''g'' ?r] ?c =
      run_facts (ex_stream TypePermissionRequested) ex_lib ex_env [CSend ''hi'', CLine ''l''] ?c @ FAnswered ''r'' # []"
    by (simp add: ex_asked_def ex_run_def)
  from answered_once [OF ex_New this] show ?thesis by blast
qed

end
