(* ===== verification/Go_Base64.thy ===== *)
theory Go_Base64
  imports Go_Prelude
begin

text \<open>
  \<open>base64.RawURLEncoding\<close> of Go's encoding/base64: the alphabet of URLs, no padding. Decoding is the
  lenient one of the library: line breaks are skipped and the unused bits of a last short group are ignored.
\<close>

section \<open>Encoding and decoding\<close>

definition b64_char :: "nat \<Rightarrow> char" where
  "b64_char n = (if n < 26 then char_of (65 + n) else if n < 52 then char_of (71 + n)
     else if n < 62 then char_of (n - 4) else if n = 62 then CHR ''-'' else CHR ''_'')"

definition b64_val :: "char \<Rightarrow> nat option" where
  "b64_val c = (if is_upper c then Some (byte c - 65) else if is_lower c then Some (byte c - 71)
     else if is_digit c then Some (byte c + 4) else if c = CHR ''-'' then Some 62 else if c = CHR ''_'' then Some 63 else None)"

fun b64_encode :: "string \<Rightarrow> string" where
  "b64_encode [] = []"
| "b64_encode [a] = [b64_char (byte a div 4), b64_char (byte a mod 4 * 16)]"
| "b64_encode [a, b] = [b64_char (byte a div 4), b64_char (byte a mod 4 * 16 + byte b div 16), b64_char (byte b mod 16 * 4)]"
| "b64_encode (a # b # c # s) =
     b64_char (byte a div 4) # b64_char (byte a mod 4 * 16 + byte b div 16)
     # b64_char (byte b mod 16 * 4 + byte c div 64) # b64_char (byte c mod 64) # b64_encode s"

fun b64_groups :: "nat list \<Rightarrow> string option" where
  "b64_groups [] = Some []"
| "b64_groups [x] = None"
| "b64_groups [x, y] = Some [char_of (x * 4 + y div 16)]"
| "b64_groups [x, y, z] = Some [char_of (x * 4 + y div 16), char_of (y mod 16 * 16 + z div 4)]"
| "b64_groups (x # y # z # w # vs) =
     map_option (\<lambda>s. char_of (x * 4 + y div 16) # char_of (y mod 16 * 16 + z div 4) # char_of (z mod 4 * 64 + w) # s)
       (b64_groups vs)"

definition b64_decode :: "string \<Rightarrow> string option" where
  "b64_decode s = Option.bind (those (map b64_val (filter (\<lambda>c. byte c \<noteq> 10 \<and> byte c \<noteq> 13) s))) b64_groups"

section \<open>Decoding inverts encoding\<close>

lemma b64_val_char [simp]: "n < 64 \<Longrightarrow> b64_val (b64_char n) = Some n"
  by (auto simp: b64_val_def b64_char_def byte_class_defs char_of_eq_iff)

lemma b64_char_byte: "n < 64 \<Longrightarrow> 45 \<le> byte (b64_char n) \<and> byte (b64_char n) < 127 \<and> byte (b64_char n) \<noteq> 46"
  by (auto simp: b64_char_def)

definition b64_text :: "string \<Rightarrow> bool" where
  "b64_text s \<longleftrightarrow> (\<forall>c\<in>set s. 45 \<le> byte c \<and> byte c < 127 \<and> byte c \<noteq> 46)"

text \<open>The six bits of each character and the eight bits of each byte.\<close>

lemma sextets [simp]:
  fixes a b :: char
  shows "byte a div 4 < 64" "byte a mod 4 * 16 + byte b div 16 < 64" "byte a mod 16 * 4 + byte b div 64 < 64"
    "byte a mod 4 * 16 < 64" "byte a mod 16 * 4 < 64" "byte a mod 64 < 64"
proof -
  have "byte a < 256" "byte b < 256" by (rule byte_less)+
  then show "byte a div 4 < 64" "byte a mod 4 * 16 + byte b div 16 < 64" "byte a mod 16 * 4 + byte b div 64 < 64"
    "byte a mod 4 * 16 < 64" "byte a mod 16 * 4 < 64" "byte a mod 64 < 64"
    by linarith+
qed

lemma octets [simp]:
  fixes a :: char
  shows "byte a div 16 div 16 = 0" "byte a div 16 mod 16 = byte a div 16"
    "byte a div 64 div 4 = 0" "byte a div 64 mod 4 = byte a div 64"
proof -
  have "byte a < 256" by (rule byte_less)
  then have "byte a div 16 < 16" "byte a div 64 < 4" by linarith+
  then show "byte a div 16 div 16 = 0" "byte a div 16 mod 16 = byte a div 16"
    "byte a div 64 div 4 = 0" "byte a div 64 mod 4 = byte a div 64"
    by simp_all
qed

lemma b64_text_encode: "b64_text (b64_encode s)"
  by (induction s rule: b64_encode.induct) (simp_all add: b64_text_def b64_char_byte)

lemma b64_text_filter: "b64_text s \<Longrightarrow> filter (\<lambda>c. byte c \<noteq> 10 \<and> byte c \<noteq> 13) s = s"
  by (auto simp: b64_text_def filter_id_conv)

lemma b64_no_dot: "CHR ''.'' \<notin> set (b64_encode s)"
  using b64_text_encode [of s] by (auto simp: b64_text_def)

lemma those_b64_encode: "\<exists>vs. those (map b64_val (b64_encode s)) = Some vs \<and> b64_groups vs = Some s"
  by (induction s rule: b64_encode.induct) auto

lemma b64_decode_encode [simp]: "b64_decode (b64_encode s) = Some s"
  using those_b64_encode [of s] by (auto simp: b64_decode_def b64_text_filter [OF b64_text_encode])

lemma b64_encode_inj: "b64_encode s = b64_encode t \<longleftrightarrow> s = t"
  by (metis b64_decode_encode option.inject)

end
