(* ===== verification/Credfile.thy ===== *)
theory Credfile
  imports Vault_Store
begin

text \<open>
  Reading files safely (package hostfs) and the credential files of the host (package cmd/internal/credfile): a directory
  with one file per name, replaced atomically and read only if nothing about it is suspicious.

  The directory is a record: whether it exists and what its files hold. What the system calls
  answer about modes, owners, identities and errors is an environment; a call on something that does not exist answers so.
  A file may be replaced between two attempts to read it: an attempt sees the directory of its own time.
\<close>

section \<open>Files as the system describes them\<close>

datatype file_kind = KRegular | KDir | KSymlink | KPipe | KSocket | KDevice | KUnknown

text \<open>
  \<open>fi_special\<close>: one of the setuid, setgid and sticky bits. \<open>fi_sys\<close>: owner and number of links, if the system tells.
  \<open>fi_id\<close>: what \<open>os.SameFile\<close> compares.
\<close>

record file_info =
  fi_kind :: file_kind
  fi_perm :: nat
  fi_special :: bool
  fi_sys :: "(nat \<times> nat) option"
  fi_id :: nat
  fi_size :: int

section \<open>Opening a file below a root (hostfs)\<close>

datatype hostfs_err = HfNotExist | HfNotRegular | HfTooLarge | HfChanged | HfOther

definition os_result :: "'a os_res \<Rightarrow> hostfs_err + 'a" where
  "os_result r = (case r of OsOk x \<Rightarrow> Inr x | OsNotExist \<Rightarrow> Inl HfNotExist | OsErr \<Rightarrow> Inl HfOther)"

text \<open>The answers of one run: \<open>Lstat\<close> of each parent, of the name, the opening, \<open>Stat\<close> of the descriptor, \<open>Lstat\<close> again.\<close>

record open_env =
  oe_parent :: "string \<Rightarrow> file_info os_res"
  oe_lstat :: "file_info os_res"
  oe_open :: "unit os_res"
  oe_fstat :: "file_info os_res"
  oe_lstat2 :: "file_info os_res"

definition checkParents :: "open_env \<Rightarrow> string \<Rightarrow> hostfs_err + unit" where
  "checkParents oe name =
     (let parts = split (CHR ''/'') name in
      eachR (\<lambda>i. bindR (os_result (oe_parent oe (join ''/'' (take i parts)))) (\<lambda>fi.
               if fi_kind fi \<noteq> KDir then Inl HfNotRegular else Inr ())) [1..<length parts])"

definition hostfs_open :: "open_env \<Rightarrow> string \<Rightarrow> int \<Rightarrow> hostfs_err + file_info" where
  "hostfs_open oe name maxSize =
     (if maxSize < 0 then Inl HfOther
      else if \<not> IsLocal name then Inl HfOther
      else bindR (checkParents oe name) (\<lambda>_.
           bindR (os_result (oe_lstat oe)) (\<lambda>li.
           if fi_kind li \<noteq> KRegular then Inl HfNotRegular
           else bindR (os_result (oe_open oe)) (\<lambda>_.
           bindR (os_result (oe_fstat oe)) (\<lambda>fi.
           bindR (os_result (oe_lstat2 oe)) (\<lambda>li2.
           if fi_kind fi \<noteq> KRegular then Inl HfNotRegular
           else if fi_id fi \<noteq> fi_id li2 then Inl HfChanged
           else if fi_size fi > maxSize then Inl HfTooLarge
           else Inr fi))))))"

text \<open>\<open>io.ReadAll(io.LimitReader(f, n))\<close> of a file with the content \<open>content\<close>, which may fail.\<close>

definition read_limited :: "bool \<Rightarrow> string \<Rightarrow> int \<Rightarrow> string option" where
  "read_limited ok content n = (if ok then Some (take (nat n) content) else None)"

definition hostfs_readFile :: "open_env \<Rightarrow> bool \<Rightarrow> string \<Rightarrow> string \<Rightarrow> int \<Rightarrow> hostfs_err + string" where
  "hostfs_readFile oe ok content name maxSize =
     bindR (hostfs_open oe name maxSize) (\<lambda>_.
     case read_limited ok content (maxSize + 1) of
       None \<Rightarrow> Inl HfOther
     | Some dat \<Rightarrow> if int (length dat) > maxSize then Inl HfTooLarge else Inr dat)"

section \<open>The store of credential files\<close>

datatype cred_err = CfInvalidName | CfNotFound | CfUnsafe | CfInvalid | CfReplaced | CfNotExist | CfCanceled | CfOther

definition dirName :: string where "dirName = ''credentials''"
definition defaultMaxValue :: int where "defaultMaxValue = 1024"
definition largestMaxValue :: int where "largestMaxValue = 64 * 1024"

definition fileLimit :: "int \<Rightarrow> int" where "fileLimit maxValue = max 4096 (maxValue + 16)"

record cred_store =
  cs_dir :: string
  cs_maxValue :: int
  cs_maxFile :: int

definition NewSized :: "string \<Rightarrow> int \<Rightarrow> cred_err + cred_store" where
  "NewSized stateDir maxValue =
     (if maxValue < 1 \<or> maxValue > largestMaxValue then Inl CfOther
      else if \<not> IsAbs stateDir \<or> Clean stateDir \<noteq> stateDir then Inl CfOther
      else if \<exists>r\<in>set (utf8_runes stateDir). r < 0x20 \<or> r = 0x7f then Inl CfOther
      else Inr \<lparr>cs_dir = Clean (stateDir @ ''/'' @ dirName), cs_maxValue = maxValue, cs_maxFile = fileLimit maxValue\<rparr>)"

definition New_credfile :: "string \<Rightarrow> cred_err + cred_store" where
  "New_credfile stateDir = NewSized stateDir defaultMaxValue"

text \<open>A value: one word of printable ASCII.\<close>

definition printable :: "char \<Rightarrow> bool" where
  "printable c \<longleftrightarrow> 0x21 \<le> byte c \<and> byte c \<le> 0x7e"

definition checkValue_cred :: "string \<Rightarrow> int \<Rightarrow> cred_err + unit" where
  "checkValue_cred v maxValue =
     (if v = [] \<or> int (length v) > maxValue then Inl CfInvalid
      else eachR (\<lambda>c. if \<not> printable c then Inl CfInvalid else Inr ()) v)"

definition checkStat :: "nat \<Rightarrow> file_info \<Rightarrow> bool \<Rightarrow> cred_err + unit" where
  "checkStat euid fi isdir =
     (case fi_sys fi of
        None \<Rightarrow> Inl CfUnsafe
      | Some (uid, nlink) \<Rightarrow>
          if uid \<noteq> euid then Inl CfUnsafe
          else if fi_perm fi mod 64 \<noteq> 0 \<or> fi_special fi then Inl CfUnsafe
          else if \<not> isdir \<and> nlink \<noteq> 1 then Inl CfUnsafe
          else Inr ())"

subsection \<open>The directory\<close>

record cred_dir =
  cd_exists :: bool
  cd_files :: "string \<rightharpoonup> string"

definition answer :: "bool \<Rightarrow> 'a option \<Rightarrow> 'a os_res" where
  "answer there r = (if \<not> there then OsNotExist else case r of None \<Rightarrow> OsErr | Some x \<Rightarrow> OsOk x)"

record root_env =
  ro_euid :: nat
  ro_lstat :: "file_info option"
  ro_open :: bool
  ro_stat :: "file_info option"

definition openRoot :: "root_env \<Rightarrow> cred_dir \<Rightarrow> cred_err + unit" where
  "openRoot re d =
     (case answer (cd_exists d) (ro_lstat re) of
        OsNotExist \<Rightarrow> Inl CfNotExist
      | OsErr \<Rightarrow> Inl CfOther
      | OsOk li \<Rightarrow>
          if fi_kind li \<noteq> KDir then Inl CfUnsafe
          else if \<not> ro_open re then Inl CfOther
          else (case ro_stat re of
                  None \<Rightarrow> Inl CfOther
                | Some ri \<Rightarrow>
                    if fi_id li \<noteq> fi_id ri then Inl CfUnsafe
                    else checkStat (ro_euid re) ri True))"

subsection \<open>Reading\<close>

text \<open>The answers of one attempt: the directory, \<open>hostfs.Open\<close> in it, \<open>Stat\<close> of the descriptor, reading.\<close>

record read_env =
  rd_root :: root_env
  rd_lstat :: "file_info option"
  rd_open :: "unit option"
  rd_fstat :: "file_info option"
  rd_lstat2 :: "file_info option"
  rd_stat :: "file_info option"
  rd_read :: bool

definition open_answers :: "read_env \<Rightarrow> bool \<Rightarrow> open_env" where
  "open_answers re there =
     \<lparr>oe_parent = (\<lambda>_. OsErr), oe_lstat = answer there (rd_lstat re), oe_open = answer there (rd_open re),
      oe_fstat = answer there (rd_fstat re), oe_lstat2 = answer there (rd_lstat2 re)\<rparr>"

definition read_value :: "cred_store \<Rightarrow> bool \<Rightarrow> string \<Rightarrow> cred_err + secret" where
  "read_value cs ok content =
     (case read_limited ok content (cs_maxFile cs + 1) of
        None \<Rightarrow> Inl CfOther
      | Some dat \<Rightarrow>
          if int (length dat) > cs_maxFile cs then Inl CfInvalid
          else let v = trim_suffix dat [CHR 0x0A] in
          if failed (checkValue_cred v (cs_maxValue cs)) then Inl CfInvalid
          else Inr (New_secret v))"

definition readOnce :: "cred_store \<Rightarrow> read_env \<Rightarrow> cred_dir \<Rightarrow> string \<Rightarrow> cred_err + secret" where
  "readOnce cs re d name =
     (case openRoot (rd_root re) d of
        Inl e \<Rightarrow> Inl (if e = CfNotExist then CfNotFound else e)
      | Inr _ \<Rightarrow>
          (case hostfs_open (open_answers re (name \<in> dom (cd_files d))) name (cs_maxFile cs) of
             Inl HfNotExist \<Rightarrow> Inl CfNotFound
           | Inl HfChanged \<Rightarrow> Inl CfReplaced
           | Inl HfNotRegular \<Rightarrow> Inl CfUnsafe
           | Inl HfTooLarge \<Rightarrow> Inl CfInvalid
           | Inl HfOther \<Rightarrow> Inl CfOther
           | Inr _ \<Rightarrow>
               (case rd_stat re of
                  None \<Rightarrow> Inl CfOther
                | Some fi \<Rightarrow>
                    if (case fi_sys fi of None \<Rightarrow> False | Some (uid, nlink) \<Rightarrow> nlink = 0) then Inl CfReplaced
                    else bindR (checkStat (ro_euid (rd_root re)) fi False) (\<lambda>_.
                         case cd_files d name of
                           None \<Rightarrow> Inl CfOther
                         | Some content \<Rightarrow> read_value cs (rd_read re) content))))"

definition maxAttempts :: nat where "maxAttempts = 20"

text \<open>Attempt \<open>i\<close>: whether the context is done, the answers, the directory it sees.\<close>

record attempt =
  at_canceled :: bool
  at_env :: read_env
  at_dir :: cred_dir

fun token_loop :: "cred_store \<Rightarrow> (nat \<Rightarrow> attempt) \<Rightarrow> string \<Rightarrow> nat \<Rightarrow> nat \<Rightarrow> cred_err + secret" where
  "token_loop cs att name i 0 = Inl CfUnsafe"
| "token_loop cs att name i (Suc n) =
     (if at_canceled (att i) then Inl CfCanceled
      else (case readOnce cs (at_env (att i)) (at_dir (att i)) name of
              Inl CfReplaced \<Rightarrow> token_loop cs att name (i + 1) n
            | r \<Rightarrow> r))"

definition credfile_Token :: "cred_store \<Rightarrow> (nat \<Rightarrow> attempt) \<Rightarrow> string \<Rightarrow> cred_err + secret" where
  "credfile_Token cs att name =
     (if failed (CheckName name) then Inl CfInvalidName else token_loop cs att name 0 maxAttempts)"

subsection \<open>Writing\<close>

text \<open>Making the directory and its missing parents: for each, whether it is there, and what \<open>Mkdir\<close>, \<open>Open\<close> and \<open>Fchmod\<close> answer.\<close>

datatype mkdir_res = MkMade | MkExists | MkFails

record mkdir_env =
  mk_there :: bool
  mk_mkdir :: mkdir_res
  mk_open :: bool
  mk_fchmod :: bool

definition parents :: "string \<Rightarrow> string list" where
  "parents dir = (let cs = split (CHR ''/'') (drop 1 dir) in map (\<lambda>i. CHR ''/'' # join ''/'' (take i cs)) (rev [0..<Suc (length cs)]))"

fun mkdirPrivate :: "(string \<Rightarrow> mkdir_env) \<Rightarrow> string list \<Rightarrow> bool" where
  "mkdirPrivate me [] = True"
| "mkdirPrivate me (d # up) =
     (if mk_there (me d) then True
      else if up \<noteq> [] \<and> \<not> mkdirPrivate me up then False
      else (case mk_mkdir (me d) of MkMade \<Rightarrow> mk_open (me d) \<and> mk_fchmod (me d) | MkExists \<Rightarrow> True | MkFails \<Rightarrow> False))"

text \<open>The directory itself is there afterwards, if the parents could be made and it was made or existed.\<close>

definition dir_made :: "(string \<Rightarrow> mkdir_env) \<Rightarrow> string list \<Rightarrow> bool" where
  "dir_made me ds =
     (case ds of [] \<Rightarrow> False
      | d # up \<Rightarrow> mk_there (me d) \<or> ((up = [] \<or> mkdirPrivate me up) \<and> mk_mkdir (me d) \<noteq> MkFails))"

record save_env =
  sv_mkdir :: "string \<Rightarrow> mkdir_env"
  sv_root :: root_env
  sv_rand :: bool
  sv_create :: bool
  sv_write :: bool
  sv_chmod :: bool
  sv_sync :: bool
  sv_close :: bool
  sv_lstat :: "file_info option"
  sv_stat :: "file_info option"
  sv_rename :: bool

text \<open>
  The temporary file has a name that is no name of a credential (it begins with a dot) and is removed
  when a step fails; the answer to the removal and to syncing the directory is not looked at.
\<close>

definition credfile_Save :: "cred_store \<Rightarrow> save_env \<Rightarrow> string \<Rightarrow> secret \<Rightarrow> cred_dir \<Rightarrow> (cred_err + unit) \<times> cred_dir" where
  "credfile_Save cs se name x d =
     (if failed (CheckName name) then (Inl CfInvalidName, d)
      else let v = Reveal x in
      if failed (checkValue_cred v (cs_maxValue cs)) then (Inl CfInvalid, d)
      else let ds = parents (cs_dir cs);
               mkfails = \<not> cd_exists d \<and> \<not> mkdirPrivate (sv_mkdir se) ds;
               d1 = d\<lparr>cd_exists := cd_exists d \<or> dir_made (sv_mkdir se) ds\<rparr> in
      if mkfails then (Inl CfOther, d1)
      else (case openRoot (sv_root se) d1 of
              Inl e \<Rightarrow> (Inl e, d1)
            | Inr _ \<Rightarrow>
                if \<not> sv_rand se then (Inl CfOther, d1)
                else if \<not> sv_create se then (Inl CfOther, d1)
                else if \<not> sv_write se then (Inl CfOther, d1)
                else if \<not> sv_chmod se then (Inl CfOther, d1)
                else if \<not> sv_sync se then (Inl CfOther, d1)
                else if \<not> sv_close se then (Inl CfOther, d1)
                else (case (sv_lstat se, sv_stat se) of
                        (Some li, Some ri) \<Rightarrow>
                          if fi_id li \<noteq> fi_id ri then (Inl CfUnsafe, d1)
                          else if \<not> sv_rename se then (Inl CfOther, d1)
                          else (Inr (), d1\<lparr>cd_files := (cd_files d1)(name \<mapsto> v @ [CHR 0x0A])\<rparr>)
                      | _ \<Rightarrow> (Inl CfUnsafe, d1))))"

section \<open>Lemmas\<close>

lemma checkValue_cred_iff [simp]:
  "checkValue_cred v m = Inr u \<longleftrightarrow> v \<noteq> [] \<and> int (length v) \<le> m \<and> (\<forall>c\<in>set v. printable c)"
  by (auto simp: checkValue_cred_def)

lemma failed_checkValue: "failed (checkValue_cred v m) \<longleftrightarrow> \<not> (v \<noteq> [] \<and> int (length v) \<le> m \<and> (\<forall>c\<in>set v. printable c))"
  by (metis checkValue_cred_iff not_failed_iff)

lemma failed_CheckName: "failed (CheckName n) \<longleftrightarrow> \<not> nameRE n"
  by (simp add: CheckName_def)

lemma checkStat_iff:
  "checkStat euid fi isdir = Inr u \<longleftrightarrow>
     (\<exists>nlink. fi_sys fi = Some (euid, nlink) \<and> fi_perm fi mod 64 = 0 \<and> \<not> fi_special fi \<and> (isdir \<or> nlink = 1))"
  by (auto simp: checkStat_def split: option.split)

lemma read_limited_all: "int (length c) \<le> n \<Longrightarrow> read_limited True c n = Some c"
  by (simp add: read_limited_def)

lemma hostfs_readFile_bounded:
  assumes "hostfs_readFile oe ok content name m = Inr dat"
  shows "dat = content" "int (length dat) \<le> m"
proof -
  have d: "dat = take (nat (m + 1)) content" "int (length dat) \<le> m" and "0 \<le> m"
    using assms by (auto simp: hostfs_readFile_def read_limited_def hostfs_open_def split: if_splits)
  then show "int (length dat) \<le> m" by simp
  have "length dat < nat (m + 1)" using d(2) \<open>0 \<le> m\<close> by linarith
  then show "dat = content" using d(1) by (simp add: min_def split: if_splits)
qed

text \<open>What is read is what a regular file of one link held, owned by the user, closed to others, that the name still names.\<close>

definition safe_info :: "nat \<Rightarrow> file_info \<Rightarrow> bool" where
  "safe_info euid fi \<longleftrightarrow> fi_sys fi = Some (euid, 1) \<and> fi_perm fi mod 64 = 0 \<and> \<not> fi_special fi"

lemma openRoot_exists: "openRoot re d = Inr u \<Longrightarrow> cd_exists d"
  by (auto simp: openRoot_def answer_def split: os_res.splits if_splits option.splits)

lemma openRoot_NotExist: "openRoot re d = Inl CfNotExist \<Longrightarrow> \<not> cd_exists d"
  by (auto simp: openRoot_def answer_def checkStat_def split: os_res.splits if_splits option.splits)

lemma checkStat_not_found: "checkStat e fi b \<noteq> Inl CfNotFound"
  by (auto simp: checkStat_def split: option.split)

lemma openRoot_not_found: "openRoot re d \<noteq> Inl CfNotFound"
  by (simp add: openRoot_def checkStat_not_found split: os_res.split option.split)

lemma read_value_Inr:
  assumes "read_value cs ok content = Inr x"
  shows "read_value cs True content = Inr x"
  using assms by (cases ok) (auto simp: read_value_def read_limited_def)

lemma hostfs_open_Inr:
  assumes "hostfs_open oe name m = Inr fi"
  shows "oe_fstat oe = OsOk fi" "fi_kind fi = KRegular" "\<exists>li2. oe_lstat2 oe = OsOk li2 \<and> fi_id li2 = fi_id fi"
    "\<exists>li. oe_lstat oe = OsOk li \<and> fi_kind li = KRegular" "fi_size fi \<le> m" "IsLocal name"
proof -
  have r: "\<And>x (y :: file_info). os_result x = Inr y \<longleftrightarrow> x = OsOk y" by (simp add: os_result_def split: os_res.split)
  show "oe_fstat oe = OsOk fi" "fi_kind fi = KRegular" "\<exists>li2. oe_lstat2 oe = OsOk li2 \<and> fi_id li2 = fi_id fi"
    "\<exists>li. oe_lstat oe = OsOk li \<and> fi_kind li = KRegular" "fi_size fi \<le> m" "IsLocal name"
    using assms by (auto simp: hostfs_open_def r split: if_splits)
qed

lemma readOnce_Inr:
  assumes "readOnce cs re d name = Inr x"
  obtains content fi where "cd_files d name = Some content" "read_value cs True content = Inr x"
    "rd_stat re = Some fi" "safe_info (ro_euid (rd_root re)) fi" "cd_exists d"
proof -
  obtain u where o: "openRoot (rd_root re) d = Inr u"
    using assms by (auto simp: readOnce_def split: sum.splits)
  obtain fi0 where h: "hostfs_open (open_answers re (name \<in> dom (cd_files d))) name (cs_maxFile cs) = Inr fi0"
    using assms unfolding readOnce_def o by (auto split: sum.splits hostfs_err.splits)
  obtain fi where f: "rd_stat re = Some fi"
    using assms unfolding readOnce_def o h by (cases "rd_stat re") auto
  have g: "checkStat (ro_euid (rd_root re)) fi False = Inr ()"
    using assms unfolding readOnce_def o h f by (auto split: if_splits)
  obtain content where c: "cd_files d name = Some content" "read_value cs (rd_read re) content = Inr x"
    using assms unfolding readOnce_def o h f g by (cases "cd_files d name") (auto split: if_splits)
  show thesis
    by (rule that [OF c(1) read_value_Inr [OF c(2)] f _ openRoot_exists [OF o]])
      (use g in \<open>auto simp: checkStat_iff safe_info_def\<close>)
qed

lemma readOnce_NotFound:
  assumes "readOnce cs re d name = Inl CfNotFound"
  shows "\<not> cd_exists d \<or> cd_files d name = None"
proof (cases "openRoot (rd_root re) d")
  case (Inl e)
  then have "e = CfNotExist" using assms openRoot_not_found [of "rd_root re" d] by (auto simp: readOnce_def split: if_splits)
  then show ?thesis using Inl openRoot_NotExist by blast
next
  case (Inr u)
  show ?thesis
  proof (rule ccontr)
    assume "\<not> ?thesis"
    then obtain content where c: "cd_files d name = Some content" by auto
    have "hostfs_open (open_answers re True) name (cs_maxFile cs) \<noteq> Inl HfNotExist"
      by (auto simp: hostfs_open_def checkParents_def open_answers_def answer_def os_result_def bindR_Inl_iff
          dest!: eachR_Inl split: option.splits if_splits)
    moreover have "read_value cs b content \<noteq> Inl CfNotFound" for b
      by (simp add: read_value_def Let_def split: option.split)
    ultimately show False using assms unfolding readOnce_def Inr
      by (simp add: c domI bindR_Inl_iff checkStat_not_found split: sum.splits hostfs_err.splits option.splits if_splits)
  qed
qed

section \<open>Files as a keyed store\<close>

text \<open>What a reading finds that nothing disturbs.\<close>

definition on_file :: "cred_store \<Rightarrow> cred_dir \<Rightarrow> string \<Rightarrow> cred_err + secret" where
  "on_file cs d name = (case cd_files d name of None \<Rightarrow> Inl CfNotFound | Some content \<Rightarrow> read_value cs True content)"

definition dir_inv :: "cred_store \<times> cred_dir \<Rightarrow> bool" where
  "dir_inv s \<longleftrightarrow> (case s of (cs, d) \<Rightarrow>
     1 \<le> cs_maxValue cs \<and> cs_maxFile cs = fileLimit (cs_maxValue cs) \<and> (\<forall>n. cd_files d n \<noteq> None \<longrightarrow> cd_exists d))"

definition file_put :: "save_env \<Rightarrow> string \<Rightarrow> secret \<Rightarrow> cred_store \<times> cred_dir \<Rightarrow> cred_store \<times> cred_dir" where
  "file_put se n x s = (case s of (cs, d) \<Rightarrow> (cs, snd (credfile_Save cs se n x d)))"

definition file_stored :: "save_env \<Rightarrow> string \<Rightarrow> secret \<Rightarrow> cred_store \<times> cred_dir \<Rightarrow> bool" where
  "file_stored se n x s = (case s of (cs, d) \<Rightarrow> fst (credfile_Save cs se n x d) = Inr ())"

definition file_get :: "string \<Rightarrow> cred_store \<times> cred_dir \<Rightarrow> cred_err + secret" where
  "file_get n s = (case s of (cs, d) \<Rightarrow> on_file cs d n)"

lemma Save_effect:
  assumes "credfile_Save cs se n x d = (r, d')"
  shows "if r = Inr () then nameRE n \<and> checkValue_cred (Reveal x) (cs_maxValue cs) = Inr () \<and> cd_exists d'
           \<and> cd_files d' = (cd_files d)(n \<mapsto> Reveal x @ [CHR 0x0A])
         else cd_files d' = cd_files d"
    "cd_exists d \<Longrightarrow> cd_exists d'"
proof -
  show "if r = Inr () then nameRE n \<and> checkValue_cred (Reveal x) (cs_maxValue cs) = Inr () \<and> cd_exists d'
           \<and> cd_files d' = (cd_files d)(n \<mapsto> Reveal x @ [CHR 0x0A])
         else cd_files d' = cd_files d"
    using assms openRoot_exists [of "sv_root se" "d\<lparr>cd_exists := cd_exists d \<or> dir_made (sv_mkdir se) (parents (cs_dir cs))\<rparr>"]
    by (auto simp: credfile_Save_def Let_def failed_checkValue failed_CheckName split: if_splits sum.splits option.splits)
  show "cd_exists d \<Longrightarrow> cd_exists d'"
    using assms by (auto simp: credfile_Save_def Let_def split: if_splits sum.splits option.splits)
qed

lemma read_value_saved:
  assumes "checkValue_cred v (cs_maxValue cs) = Inr ()" "cs_maxFile cs = fileLimit (cs_maxValue cs)"
  shows "read_value cs True (v @ [CHR 0x0A]) = Inr (New_secret v)"
proof -
  have l: "int (length (v @ [CHR 0x0A])) \<le> cs_maxFile cs" using assms by (auto simp: fileLimit_def max_def)
  then have "read_limited True (v @ [CHR 0x0A]) (cs_maxFile cs + 1) = Some (v @ [CHR 0x0A])" by (intro read_limited_all) simp
  then show ?thesis using l assms(1) by (simp add: read_value_def Let_def trim_suffix_append failed_checkValue)
qed

interpretation cred_files: keyed_store dir_inv file_put file_stored file_get "\<lambda>x. Inr (New_secret (Reveal x))"
proof unfold_locales
  fix s :: "cred_store \<times> cred_dir" and e k x k'
  assume i: "dir_inv s"
  obtain cs d where s: "s = (cs, d)" by fastforce
  obtain r d' where p: "credfile_Save cs e k x d = (r, d')" by fastforce
  note eff = Save_effect [OF p]
  show "dir_inv (file_put e k x s)"
    using i eff by (auto simp: s p file_put_def dir_inv_def split: if_splits)
  { assume "file_stored e k x s"
    then have "r = Inr ()" by (simp add: s p file_stored_def)
    then show "file_get k (file_put e k x s) = Inr (New_secret (Reveal x))"
      using i eff by (simp add: s p file_put_def file_get_def on_file_def dir_inv_def read_value_saved) }
  { assume "k' \<noteq> k \<or> \<not> file_stored e k x s"
    then have "cd_files d' k' = cd_files d k'" using eff by (auto simp: s p file_stored_def split: if_splits)
    then show "file_get k' (file_put e k x s) = file_get k' s" by (simp add: s p file_put_def file_get_def on_file_def) }
qed

text \<open>An attempt reads what its directory holds, behind a safe file; it finds nothing only where nothing is.\<close>

definition attempt_reads :: "cred_store \<Rightarrow> attempt \<Rightarrow> string \<Rightarrow> secret \<Rightarrow> bool" where
  "attempt_reads cs a name x \<longleftrightarrow> on_file cs (at_dir a) name = Inr x \<and>
     (\<exists>fi. rd_stat (at_env a) = Some fi \<and> safe_info (ro_euid (rd_root (at_env a))) fi)"

definition token_ok :: "cred_store \<Rightarrow> (nat \<Rightarrow> attempt) \<Rightarrow> string \<Rightarrow> nat \<Rightarrow> cred_err + secret \<Rightarrow> bool" where
  "token_ok cs att name b r \<longleftrightarrow> (case r of
     Inr x \<Rightarrow> \<exists>j<b. attempt_reads cs (att j) name x
   | Inl e \<Rightarrow> e = CfNotFound \<longrightarrow> (\<exists>j<b. cd_files (at_dir (att j)) name = None))"

lemma token_loop_cases:
  assumes "\<forall>i. dir_inv (cs, at_dir (att i))"
  shows "token_ok cs att name (i + n) (token_loop cs att name i n)"
proof (induction n arbitrary: i)
  case (Suc n)
  have rest: "token_ok cs att name (i + Suc n) (token_loop cs att name (i + 1) n)" using Suc.IH [of "i + 1"] by simp
  show ?case
  proof (cases "readOnce cs (at_env (att i)) (at_dir (att i)) name")
    case (Inl e)
    have d: "cd_files (at_dir (att i)) name \<noteq> None \<Longrightarrow> cd_exists (at_dir (att i))" using assms by (auto simp: dir_inv_def)
    have "e = CfNotFound \<Longrightarrow> cd_files (at_dir (att i)) name = None"
      using Inl d readOnce_NotFound [of cs "at_env (att i)" "at_dir (att i)" name] by blast
    then have "e \<noteq> CfReplaced \<Longrightarrow> token_ok cs att name (i + Suc n) (Inl e)"
      by (auto simp: token_ok_def intro!: exI [of _ i])
    then show ?thesis using rest Inl by (cases e) (simp_all add: token_ok_def)
  next
    case (Inr x)
    have "attempt_reads cs (att i) name x"
      by (rule readOnce_Inr [OF Inr]) (simp add: attempt_reads_def on_file_def)
    then show ?thesis using Inr by (auto simp: token_ok_def intro!: exI [of _ i])
  qed
qed (simp add: token_ok_def)

lemma Token_cases:
  assumes "\<forall>i. dir_inv (cs, at_dir (att i))"
  shows "token_ok cs att name maxAttempts (credfile_Token cs att name)"
  using token_loop_cases [OF assms, of name 0 maxAttempts] by (simp add: credfile_Token_def) (simp add: token_ok_def)

definition empty_dir :: "bool \<Rightarrow> cred_dir" where
  "empty_dir b = \<lparr>cd_exists = b, cd_files = Map.empty\<rparr>"

lemma NewSized_inv: "NewSized sd m = Inr cs \<Longrightarrow> dir_inv (cs, empty_dir b)"
  by (auto simp: NewSized_def dir_inv_def empty_dir_def split: if_splits)

lemma file_put_fst: "fst (file_put e k x s) = fst s"
  by (simp add: file_put_def split: prod.split)

lemma puts_fst: "fst (cred_files.puts xs s) = fst s"
  by (induction xs s rule: cred_files.puts.induct) (simp_all add: file_put_fst)

lemma on_file_NotFound: "cd_files d n = None \<Longrightarrow> on_file cs d n = Inl CfNotFound"
  by (simp add: on_file_def)

section \<open>An undisturbed run\<close>

text \<open>Every call of the system succeeds, for a directory and files of the user, closed to others.\<close>

definition own_info :: "file_kind \<Rightarrow> file_info" where
  "own_info k = \<lparr>fi_kind = k, fi_perm = 0, fi_special = False, fi_sys = Some (0, 1), fi_id = 0, fi_size = 0\<rparr>"

definition own_root :: root_env where
  "own_root = \<lparr>ro_euid = 0, ro_lstat = Some (own_info KDir), ro_open = True, ro_stat = Some (own_info KDir)\<rparr>"

definition calm_read :: read_env where
  "calm_read = \<lparr>rd_root = own_root, rd_lstat = Some (own_info KRegular), rd_open = Some (), rd_fstat = Some (own_info KRegular),
     rd_lstat2 = Some (own_info KRegular), rd_stat = Some (own_info KRegular), rd_read = True\<rparr>"

definition calm_save :: save_env where
  "calm_save = \<lparr>sv_mkdir = (\<lambda>_. \<lparr>mk_there = True, mk_mkdir = MkExists, mk_open = True, mk_fchmod = True\<rparr>), sv_root = own_root, sv_rand = True,
     sv_create = True, sv_write = True, sv_chmod = True, sv_sync = True, sv_close = True, sv_lstat = Some (own_info KRegular),
     sv_stat = Some (own_info KRegular), sv_rename = True\<rparr>"

lemma openRoot_own: "openRoot own_root d = (if cd_exists d then Inr () else Inl CfNotExist)"
  by (simp add: openRoot_def own_root_def own_info_def answer_def checkStat_def)

lemma hostfs_open_own:
  assumes "0 \<le> m" "IsLocal name" "CHR ''/'' \<notin> set name"
  shows "hostfs_open (open_answers calm_read there) name m = (if there then Inr (own_info KRegular) else Inl HfNotExist)"
  using assms by (simp add: hostfs_open_def checkParents_def split_none open_answers_def answer_def os_result_def calm_read_def own_info_def)

text \<open>Such a call of \<open>Token\<close> finds what the directory holds; such a call of \<open>Save\<close> stores a valid value.\<close>

lemma calm_readOnce:
  assumes "dir_inv (cs, d)" "IsLocal name" "CHR ''/'' \<notin> set name"
  shows "readOnce cs calm_read d name = on_file cs d name"
proof -
  have m: "0 \<le> cs_maxFile cs" using assms(1) by (simp add: dir_inv_def fileLimit_def)
  have there: "cd_files d name \<noteq> None \<Longrightarrow> cd_exists d" using assms(1) by (auto simp: dir_inv_def)
  have o: "rd_root calm_read = own_root" "rd_stat calm_read = Some (own_info KRegular)" "rd_read calm_read"
    "checkStat (ro_euid own_root) (own_info KRegular) False = Inr ()" "fi_sys (own_info KRegular) = Some (0, 1)"
    by (simp_all add: calm_read_def own_info_def own_root_def checkStat_def)
  show ?thesis
    using there by (cases "cd_files d name")
      (auto simp: readOnce_def openRoot_own hostfs_open_own [OF m assms(2,3)] o on_file_def domIff)
qed

lemma calm_Token:
  assumes "dir_inv (cs, d)" "nameRE name" "IsLocal name" "CHR ''/'' \<notin> set name"
    and "\<forall>i. att i = \<lparr>at_canceled = False, at_env = calm_read, at_dir = d\<rparr>"
  shows "credfile_Token cs att name = on_file cs d name"
proof -
  have "on_file cs d name \<noteq> Inl CfReplaced"
    by (simp add: on_file_def read_value_def Let_def split: option.split)
  then have "token_loop cs att name 0 (Suc n) = on_file cs d name" for n
    using calm_readOnce [OF assms(1,3,4)] assms(5)
    by (cases "on_file cs d name") (auto split: cred_err.split)
  from this [of 19] show ?thesis using assms(2)
    by (simp add: credfile_Token_def failed_CheckName maxAttempts_def del: token_loop.simps)
qed

lemma calm_Save:
  assumes "nameRE name" "checkValue_cred (Reveal x) (cs_maxValue cs) = Inr ()"
  shows "credfile_Save cs calm_save name x d = (Inr (), \<lparr>cd_exists = True, cd_files = (cd_files d)(name \<mapsto> Reveal x @ [CHR 0x0A])\<rparr>)"
proof -
  have m: "mkdirPrivate (sv_mkdir calm_save) ds" for ds by (cases ds) (simp_all add: calm_save_def)
  have "parents (cs_dir cs) \<noteq> []" by (simp add: parents_def Let_def)
  then have d: "dir_made (sv_mkdir calm_save) (parents (cs_dir cs))"
    by (cases "parents (cs_dir cs)") (simp_all add: dir_made_def calm_save_def)
  have r: "sv_root calm_save = own_root" by (simp add: calm_save_def)
  have f: "sv_rand calm_save" "sv_create calm_save" "sv_write calm_save" "sv_chmod calm_save" "sv_sync calm_save" "sv_close calm_save"
    "sv_lstat calm_save = Some (own_info KRegular)" "sv_stat calm_save = Some (own_info KRegular)" "sv_rename calm_save"
    by (simp_all add: calm_save_def)
  show ?thesis
    using assms by (simp add: credfile_Save_def Let_def failed_CheckName failed_checkValue m d r f openRoot_own)
qed

section \<open>Property\<close>

text \<open>
  C11: A credential file reads as what was last saved. Attempt \<open>i\<close> of one call of \<open>Token\<close> may run after any number of the calls of
  \<open>Save\<close>, whose system calls may fail anywhere. If \<open>Token\<close> returns a value, it is the one last saved before one of its at most
  twenty attempts, and the file was a single link of the user, closed to others; if it says that there is none, none had been
  saved before one of the attempts.
\<close>

theorem token_is_last_saved:
  assumes "NewSized sd m = Inr cs"
    and "\<forall>i. at_dir (att i) = snd (cred_files.puts (take (seen i) xs) (cs, empty_dir b))"
  shows "case credfile_Token cs att n of
           Inr y \<Rightarrow> \<exists>i<maxAttempts. \<exists>x fi. cred_files.last_stored (take (seen i) xs) n (cs, empty_dir b) = Some x \<and>
                      y = New_secret (Reveal x) \<and> rd_stat (at_env (att i)) = Some fi \<and> safe_info (ro_euid (rd_root (at_env (att i)))) fi
         | Inl e \<Rightarrow> e = CfNotFound \<longrightarrow> (\<exists>i<maxAttempts. cred_files.last_stored (take (seen i) xs) n (cs, empty_dir b) = None)"
proof -
  let ?s = "\<lambda>i. cred_files.puts (take (seen i) xs) (cs, empty_dir b)"
  have s: "?s i = (cs, at_dir (att i))" for i
    using puts_fst [of "take (seen i) xs" "(cs, empty_dir b)"] assms(2) by (metis prod.collapse fst_conv)
  have i0: "dir_inv (cs, empty_dir b)" by (rule NewSized_inv [OF assms(1)])
  then have inv: "\<forall>i. dir_inv (cs, at_dir (att i))" using cred_files.inv_puts s by metis
  have g: "on_file cs (at_dir (att i)) n = (case cred_files.last_stored (take (seen i) xs) n (cs, empty_dir b) of
      Some x \<Rightarrow> Inr (New_secret (Reveal x)) | None \<Rightarrow> Inl CfNotFound)" for i
    using cred_files.get_puts [OF i0, of n "take (seen i) xs"] s [of i]
    by (simp add: file_get_def on_file_NotFound empty_dir_def cong: option.case_cong)
  show ?thesis
  proof (cases "credfile_Token cs att n")
    case (Inl e)
    have "cred_files.last_stored (take (seen j) xs) n (cs, empty_dir b) = None" if "cd_files (at_dir (att j)) n = None" for j
      using g [of j] on_file_NotFound [OF that] by (simp split: option.splits)
    then show ?thesis using Token_cases [OF inv, of n] Inl by (auto simp: token_ok_def)
  next
    case (Inr y)
    then obtain j fi where j: "j < maxAttempts" "on_file cs (at_dir (att j)) n = Inr y"
      "rd_stat (at_env (att j)) = Some fi" "safe_info (ro_euid (rd_root (at_env (att j)))) fi"
      using Token_cases [OF inv, of n] by (auto simp: token_ok_def attempt_reads_def)
    then obtain x where "cred_files.last_stored (take (seen j) xs) n (cs, empty_dir b) = Some x" "y = New_secret (Reveal x)"
      using g [of j] by (auto split: option.splits)
    then show ?thesis using Inr j by auto
  qed
qed

text \<open>A value is saved and then read.\<close>

lemma token_is_last_saved_witness:
  "\<exists>cs att. NewSized ''/s'' 16 = Inr cs \<and> credfile_Token cs att ''a'' = Inr (New_secret ''v'') \<and>
     (\<exists>i<maxAttempts. \<exists>x. cred_files.last_stored (take (Suc i) [(calm_save, ''a'', New_secret ''v'')]) ''a'' (cs, empty_dir False) = Some x \<and>
        New_secret ''v'' = New_secret (Reveal x))"
proof -
  define xs where "xs = [(calm_save, ''a'', New_secret ''v'')]"
  define cs where "cs = \<lparr>cs_dir = ''/s/credentials'', cs_maxValue = 16, cs_maxFile = 4096\<rparr>"
  define d where "d = snd (cred_files.puts xs (cs, empty_dir False))"
  define att where "att = (\<lambda>i :: nat. \<lparr>at_canceled = False, at_env = calm_read, at_dir = d\<rparr>)"
  have cs: "NewSized ''/s'' 16 = Inr cs" unfolding cs_def by code_simp
  have n: "nameRE ''a''" "IsLocal ''a''" by code_simp+
  have v: "checkValue_cred (Reveal (New_secret ''v'')) (cs_maxValue cs) = Inr ()" unfolding cs_def by code_simp
  have d: "d = \<lparr>cd_exists = True, cd_files = [''a'' \<mapsto> ''v'' @ [CHR 0x0A]]\<rparr>"
    unfolding d_def xs_def cred_files.puts.simps file_put_def prod.case calm_Save [OF n(1) v]
    by (simp add: empty_dir_def Reveal_def New_secret_def)
  have i: "dir_inv (cs, d)" by (simp add: d dir_inv_def cs_def fileLimit_def)
  have "on_file cs d ''a'' = Inr (New_secret ''v'')" unfolding d cs_def by code_simp
  then have t: "credfile_Token cs att ''a'' = Inr (New_secret ''v'')"
    using calm_Token [OF i n, of att] by (simp add: att_def)
  have a: "\<forall>i. at_dir (att i) = snd (cred_files.puts (take (Suc i) xs) (cs, empty_dir False))"
    by (simp add: att_def d_def xs_def)
  have "\<exists>i<maxAttempts. \<exists>x. cred_files.last_stored (take (Suc i) xs) ''a'' (cs, empty_dir False) = Some x \<and> New_secret ''v'' = New_secret (Reveal x)"
    using token_is_last_saved [where seen = Suc, OF cs a, of "''a''"] by (auto simp only: t sum.case)
  then show ?thesis using cs t unfolding xs_def by blast
qed

end
