(* ===== verification/Webauthn_Verify.thy ===== *)
theory Webauthn_Verify
  imports Go_Base64 Credfile "HOL-Library.Char_ord" "HOL-Library.List_Lexorder"
begin

text \<open>
  What the WebAuthn ceremonies check of tokens and of the responses of a browser (package
  cmd/internal/webauthn: config.go, token.go, clientdata.go, authdata.go, cose.go, verify.go).

  Hashes, signatures, the curve, JSON and CBOR are the record \<open>wa_lib\<close>; base64 and the fixed layout of
  authenticator data are modelled. A CBOR map is the list of its entries, whose keys are distinct.
\<close>

section \<open>The libraries\<close>

datatype cbor_value = CBool bool | CBytes string | CUint nat | COther

record url =
  ur_Scheme :: string
  ur_Hostname :: string
  ur_Path :: string
  ur_RawQuery :: string
  ur_Fragment :: string

record cose_key =
  ck_Kty :: int
  ck_Alg :: int
  ck_Crv :: int
  ck_X :: string
  ck_Y :: string

record att_object =
  ao_Fmt :: string
  ao_AuthData :: string

record client_data =
  cd_Type :: string
  cd_Challenge :: string
  cd_Origin :: string

record state_claims =
  cl_Purpose :: string
  cl_Challenge :: string
  cl_Expiry :: int
  cl_Op :: string
  cl_Target :: string
  cl_RequestID :: string
  cl_Allowed :: "string list"
  cl_WantPRF :: bool
  cl_Salt :: string

record session_claims =
  sn_Purpose :: string
  sn_Expiry :: int
  sn_Epoch :: int

record stored_credential =
  sc_ID :: string
  sc_PublicKeyX :: string
  sc_PublicKeyY :: string
  sc_SignCount :: nat
  sc_RPID :: string
  sc_Label :: string
  sc_CreatedAt :: int

text \<open>Times in seconds and the epoch are int64 in the code.\<close>

record persisted_state =
  ps_Credential :: "stored_credential option"
  ps_Credentials :: "stored_credential list"
  ps_SessionSecret :: string
  ps_BootstrapToken :: string
  ps_BootstrapExpiry :: int
  ps_SessionEpoch :: int

text \<open>
  \<open>wl_first\<close>: \<open>UnmarshalFirst\<close> into a raw message, with the rest. \<open>wl_ext\<close>: the same into a map.
  \<open>wl_verify\<close>: \<open>ecdsa.VerifyASN1\<close> for a point of P-256.
\<close>

record wa_lib =
  wl_hmac :: "string \<Rightarrow> string \<Rightarrow> string"
  wl_sha256 :: "string \<Rightarrow> string"
  wl_verify :: "nat \<times> nat \<Rightarrow> string \<Rightarrow> string \<Rightarrow> bool"
  wl_on_curve :: "nat \<Rightarrow> nat \<Rightarrow> bool"
  wl_url :: "string \<Rightarrow> url option"
  wl_client_data :: "string \<Rightarrow> client_data option"
  wl_att_object :: "string \<Rightarrow> att_object option"
  wl_first :: "string \<Rightarrow> (string \<times> string) option"
  wl_ext :: "string \<Rightarrow> ((string \<times> cbor_value) list \<times> string) option"
  wl_cose :: "string \<Rightarrow> cose_key option"
  wl_claims :: "state_claims \<Rightarrow> string"
  wl_un_claims :: "string \<Rightarrow> state_claims option"
  wl_session :: "session_claims \<Rightarrow> string"
  wl_un_session :: "string \<Rightarrow> session_claims option"
  wl_state :: "persisted_state \<Rightarrow> string"
  wl_un_state :: "string \<Rightarrow> persisted_state option"

datatype wa_err =
    WaNotRegistered | WaAlreadyRegistered | WaBadBootstrapToken | WaBadToken | WaBadOperation | WaExpired
  | WaLoggedOut | WaFile cred_err | WaOther

section \<open>Configuration (config.go)\<close>

record wa_config =
  wc_RPID :: string
  wc_RPName :: string
  wc_Origin :: string

definition Config_Validate :: "wa_lib \<Rightarrow> wa_config \<Rightarrow> wa_err + unit" where
  "Config_Validate lib cfg =
     (if wc_RPID cfg = [] then Inl WaOther
      else (case wl_url lib (wc_Origin cfg) of
              None \<Rightarrow> Inl WaOther
            | Some u \<Rightarrow>
                if ur_Scheme u \<noteq> ''https'' \<and> \<not> (ur_Scheme u = ''http'' \<and> (ur_Hostname u = ''localhost'' \<or> ur_Hostname u = ''127.0.0.1'')) then Inl WaOther
                else if ur_Hostname u \<noteq> wc_RPID cfg then Inl WaOther
                else if ur_Path u \<noteq> [] \<or> ur_RawQuery u \<noteq> [] \<or> ur_Fragment u \<noteq> [] then Inl WaOther
                else Inr ()))"

section \<open>Tokens (token.go)\<close>

definition signToken :: "wa_lib \<Rightarrow> string \<Rightarrow> string \<Rightarrow> string" where
  "signToken lib secret payload = b64_encode payload @ ''.'' @ b64_encode (wl_hmac lib secret payload)"

definition verifyToken :: "wa_lib \<Rightarrow> string \<Rightarrow> string \<Rightarrow> wa_err + string" where
  "verifyToken lib secret token =
     (case cut (CHR ''.'') token of
        (p, s, ok) \<Rightarrow>
          if \<not> ok then Inl WaBadToken
          else (case b64_decode p of
                  None \<Rightarrow> Inl WaBadToken
                | Some payload \<Rightarrow>
                    (case b64_decode s of
                       None \<Rightarrow> Inl WaBadToken
                     | Some sig \<Rightarrow> if sig \<noteq> wl_hmac lib secret payload then Inl WaBadToken else Inr payload)))"

section \<open>Client data (clientdata.go)\<close>

definition verifyClientData :: "wa_lib \<Rightarrow> string \<Rightarrow> string \<Rightarrow> string \<Rightarrow> string \<Rightarrow> wa_err + unit" where
  "verifyClientData lib raw wantType wantChallenge wantOrigin =
     (case wl_client_data lib raw of
        None \<Rightarrow> Inl WaOther
      | Some cd \<Rightarrow>
          if cd_Type cd \<noteq> wantType then Inl WaOther
          else if cd_Origin cd \<noteq> wantOrigin then Inl WaOther
          else (case b64_decode (cd_Challenge cd) of
                  None \<Rightarrow> Inl WaOther
                | Some got \<Rightarrow> if length got \<noteq> length wantChallenge \<or> got \<noteq> wantChallenge then Inl WaOther else Inr ()))"

section \<open>Authenticator data (authdata.go)\<close>

text \<open>The value of a big-endian byte string.\<close>

definition be_nat :: "string \<Rightarrow> nat" where
  "be_nat s = foldl (\<lambda>n c. n * 256 + byte c) 0 s"

definition flagUP :: nat where "flagUP = 0"
definition flagUV :: nat where "flagUV = 2"
definition flagAT :: nat where "flagAT = 6"
definition flagED :: nat where "flagED = 7"

lemmas flag_defs = flagUP_def flagUV_def flagAT_def flagED_def

text \<open>A flag is the number of its bit.\<close>

definition has_flag :: "nat \<Rightarrow> nat \<Rightarrow> bool" where
  "has_flag flags k \<longleftrightarrow> odd (flags div 2 ^ k)"

definition maxExtensionEntries :: nat where "maxExtensionEntries = 4"

definition allowedExtensions :: "string \<Rightarrow> (cbor_value \<Rightarrow> bool) option" where
  "allowedExtensions k =
     (if k = ''hmac-secret'' then Some (\<lambda>v. case v of CBool _ \<Rightarrow> True | CBytes x \<Rightarrow> length x \<le> 128 | _ \<Rightarrow> False)
      else if k = ''credProtect'' then Some (\<lambda>v. case v of CUint _ \<Rightarrow> True | _ \<Rightarrow> False)
      else None)"

record authenticator_data =
  ad_RPIDHash :: string
  ad_Flags :: nat
  ad_SignCount :: nat
  ad_CredentialID :: string
  ad_CredentialPublicKey :: string
  ad_Extensions :: "string list"

definition UserPresent :: "authenticator_data \<Rightarrow> bool" where
  "UserPresent a \<longleftrightarrow> has_flag (ad_Flags a) flagUP"

definition UserVerified :: "authenticator_data \<Rightarrow> bool" where
  "UserVerified a \<longleftrightarrow> has_flag (ad_Flags a) flagUV"

definition parseExtensions :: "wa_lib \<Rightarrow> string \<Rightarrow> wa_err + string list" where
  "parseExtensions lib b =
     (case wl_ext lib b of
        None \<Rightarrow> Inl WaOther
      | Some (m, rest) \<Rightarrow>
          if length rest \<noteq> 0 then Inl WaOther
          else if length m = 0 \<or> length m > maxExtensionEntries then Inl WaOther
          else bindR (eachR (\<lambda>(k, v). case allowedExtensions k of None \<Rightarrow> Inl WaOther | Some ok \<Rightarrow> if \<not> ok v then Inl WaOther else Inr ()) m)
                 (\<lambda>_. Inr (sort (map fst m))))"

text \<open>The part of a new credential: 16 bytes that are not used, the length of the ID, the ID, one CBOR item.\<close>

definition parse_attested :: "wa_lib \<Rightarrow> string \<Rightarrow> authenticator_data \<Rightarrow> wa_err + authenticator_data \<times> string" where
  "parse_attested lib rest0 a =
     (if length rest0 < 16 + 2 then Inl WaOther
      else let rest1 = drop 16 rest0;
               idLen = be_nat (take 2 rest1);
               rest2 = drop 2 rest1 in
      if length rest2 < idLen then Inl WaOther
      else let rest3 = drop idLen rest2 in
      (case wl_first lib rest3 of
         None \<Rightarrow> Inl WaOther
       | Some (raw, after) \<Rightarrow>
           if length raw = 0 then Inl WaOther
           else Inr (a\<lparr>ad_CredentialID := take idLen rest2, ad_CredentialPublicKey := take (length rest3 - length after) rest3\<rparr>, after)))"

definition parseAuthenticatorData :: "wa_lib \<Rightarrow> string \<Rightarrow> wa_err + authenticator_data" where
  "parseAuthenticatorData lib b =
     (if length b < 32 + 1 + 4 then Inl WaOther
      else let a = \<lparr>ad_RPIDHash = take 32 b, ad_Flags = byte (b ! 32), ad_SignCount = be_nat (take 4 (drop 33 b)),
                    ad_CredentialID = [], ad_CredentialPublicKey = [], ad_Extensions = []\<rparr>;
               rest = drop 37 b in
      bindR (if has_flag (ad_Flags a) flagAT then parse_attested lib rest a else Inr (a, rest)) (\<lambda>(a, rest).
      if \<not> has_flag (ad_Flags a) flagED then (if length rest \<noteq> 0 then Inl WaOther else Inr a)
      else bindR (parseExtensions lib rest) (\<lambda>keys. Inr (a\<lparr>ad_Extensions := keys\<rparr>))))"

section \<open>Keys (cose.go)\<close>

definition parseCOSEPublicKey :: "wa_lib \<Rightarrow> string \<Rightarrow> wa_err + nat \<times> nat" where
  "parseCOSEPublicKey lib b =
     (case wl_cose lib b of
        None \<Rightarrow> Inl WaOther
      | Some k \<Rightarrow>
          if ck_Kty k \<noteq> 2 then Inl WaOther
          else if ck_Alg k \<noteq> - 7 then Inl WaOther
          else if ck_Crv k \<noteq> 1 then Inl WaOther
          else if length (ck_X k) \<noteq> 32 \<or> length (ck_Y k) \<noteq> 32 then Inl WaOther
          else if \<not> wl_on_curve lib (be_nat (ck_X k)) (be_nat (ck_Y k)) then Inl WaOther
          else Inr (be_nat (ck_X k), be_nat (ck_Y k)))"

definition verifyES256 :: "wa_lib \<Rightarrow> nat \<times> nat \<Rightarrow> string \<Rightarrow> string \<Rightarrow> wa_err + unit" where
  "verifyES256 lib pub msg sig = (if \<not> wl_verify lib pub (wl_sha256 lib msg) sig then Inl WaOther else Inr ())"

section \<open>Responses (verify.go)\<close>

definition wa_PRFSize :: nat where "wa_PRFSize = 32"
definition maxCredentialIDBytes :: nat where "maxCredentialIDBytes = 128"

record prf_result =
  pr_Enabled :: bool
  pr_First :: "string option"

record attestation_response =
  ar_ID :: string
  ar_ClientDataJSON :: string
  ar_AttestationObject :: string
  ar_PRF :: "prf_result option"

record assertion_response =
  as_ID :: string
  as_ClientDataJSON :: string
  as_AuthenticatorData :: string
  as_Signature :: string
  as_PRF :: "prf_result option"

definition prfFirst :: "prf_result option \<Rightarrow> wa_err + string option" where
  "prfFirst e =
     (case e of
        None \<Rightarrow> Inr None
      | Some r \<Rightarrow>
          (case pr_First r of
             None \<Rightarrow> Inr None
           | Some first \<Rightarrow>
               if first = [] then Inr None
               else (case b64_decode first of
                       None \<Rightarrow> Inl WaOther
                     | Some b \<Rightarrow> if length b \<noteq> wa_PRFSize then Inl WaOther else Inr (Some b))))"

definition checkRPIDHash :: "wa_lib \<Rightarrow> string \<Rightarrow> string \<Rightarrow> wa_err + unit" where
  "checkRPIDHash lib got rpID = (if got \<noteq> wl_sha256 lib rpID then Inl WaOther else Inr ())"

text \<open>The bytes of a number, without leading zeros (\<open>big.Int.Bytes\<close>).\<close>

fun nat_be :: "nat \<Rightarrow> string" where
  "nat_be n = (if n = 0 then [] else nat_be (n div 256) @ [char_of (n mod 256)])"

declare nat_be.simps [simp del]

record attested =
  at_cred :: stored_credential
  at_prfEnabled :: bool
  at_prf :: "string option"

definition decoded :: "string \<Rightarrow> wa_err + string" where
  "decoded s = (case b64_decode s of None \<Rightarrow> Inl WaOther | Some b \<Rightarrow> Inr b)"

definition verifyAttestation :: "wa_lib \<Rightarrow> wa_config \<Rightarrow> string \<Rightarrow> attestation_response \<Rightarrow> bool \<Rightarrow> wa_err + attested" where
  "verifyAttestation lib cfg challenge resp requireUV =
     bindR (decoded (ar_ClientDataJSON resp)) (\<lambda>clientDataJSON.
     bindR (verifyClientData lib clientDataJSON ''webauthn.create'' challenge (wc_Origin cfg)) (\<lambda>_.
     bindR (decoded (ar_AttestationObject resp)) (\<lambda>attObjBytes.
     case wl_att_object lib attObjBytes of
       None \<Rightarrow> Inl WaOther
     | Some attObj \<Rightarrow>
         if ao_Fmt attObj \<noteq> ''none'' then Inl WaOther
         else bindR (parseAuthenticatorData lib (ao_AuthData attObj)) (\<lambda>authData.
         bindR (checkRPIDHash lib (ad_RPIDHash authData) (wc_RPID cfg)) (\<lambda>_.
         if \<not> UserPresent authData then Inl WaOther
         else if requireUV \<and> \<not> UserVerified authData then Inl WaOther
         else if length (ad_CredentialID authData) = 0 \<or> length (ad_CredentialID authData) > maxCredentialIDBytes then Inl WaOther
         else bindR (decoded (ar_ID resp)) (\<lambda>respID.
         if respID \<noteq> ad_CredentialID authData then Inl WaOther
         else bindR (parseCOSEPublicKey lib (ad_CredentialPublicKey authData)) (\<lambda>pub.
         bindR (prfFirst (ar_PRF resp)) (\<lambda>prf.
         Inr \<lparr>at_cred = \<lparr>sc_ID = ad_CredentialID authData, sc_PublicKeyX = nat_be (fst pub), sc_PublicKeyY = nat_be (snd pub),
                         sc_SignCount = ad_SignCount authData, sc_RPID = wc_RPID cfg, sc_Label = [], sc_CreatedAt = 0\<rparr>,
              at_prfEnabled = (case ar_PRF resp of None \<Rightarrow> False | Some r \<Rightarrow> pr_Enabled r),
              at_prf = prf\<rparr>))))))))"

definition verifyAssertion ::
    "wa_lib \<Rightarrow> wa_config \<Rightarrow> stored_credential \<Rightarrow> string \<Rightarrow> assertion_response \<Rightarrow> bool \<Rightarrow> wa_err + authenticator_data" where
  "verifyAssertion lib cfg cred challenge resp requireUV =
     bindR (decoded (as_ID resp)) (\<lambda>respID.
     if respID \<noteq> sc_ID cred then Inl WaOther
     else bindR (decoded (as_ClientDataJSON resp)) (\<lambda>clientDataJSON.
     bindR (verifyClientData lib clientDataJSON ''webauthn.get'' challenge (wc_Origin cfg)) (\<lambda>_.
     bindR (decoded (as_AuthenticatorData resp)) (\<lambda>authDataBytes.
     bindR (parseAuthenticatorData lib authDataBytes) (\<lambda>authData.
     bindR (checkRPIDHash lib (ad_RPIDHash authData) (wc_RPID cfg)) (\<lambda>_.
     if \<not> UserPresent authData then Inl WaOther
     else if requireUV \<and> \<not> UserVerified authData then Inl WaOther
     else bindR (decoded (as_Signature resp)) (\<lambda>sig.
          let pub = (be_nat (sc_PublicKeyX cred), be_nat (sc_PublicKeyY cred));
              msg = authDataBytes @ wl_sha256 lib clientDataJSON in
          bindR (verifyES256 lib pub msg sig) (\<lambda>_. Inr authData))))))))"

section \<open>Lemmas\<close>

lemma verifyToken_iff:
  "verifyToken lib secret token = Inr payload \<longleftrightarrow>
     (\<exists>p s. token = p @ CHR ''.'' # s \<and> CHR ''.'' \<notin> set p \<and> b64_decode p = Some payload \<and>
        b64_decode s = Some (wl_hmac lib secret payload))"
proof -
  obtain p s ok where c: "cut (CHR ''.'') token = (p, s, ok)" by (metis prod_cases3)
  show ?thesis
  proof (cases ok)
    case True
    then have t: "token = p @ CHR ''.'' # s" "CHR ''.'' \<notin> set p" using c by (simp_all add: cut_found_iff)
    have "(\<exists>p' s'. token = p' @ CHR ''.'' # s' \<and> CHR ''.'' \<notin> set p' \<and> b64_decode p' = Some payload \<and>
        b64_decode s' = Some (wl_hmac lib secret payload)) \<longleftrightarrow>
        b64_decode p = Some payload \<and> b64_decode s = Some (wl_hmac lib secret payload)"
      using t append_sep_inject [of "CHR ''.''" p] by metis
    then show ?thesis using True by (auto simp: verifyToken_def c split: option.split)
  next
    case False
    then have "CHR ''.'' \<notin> set token" using c by (simp add: cut_not_found_iff)
    then show ?thesis using False unfolding verifyToken_def c by auto
  qed
qed

lemma verify_sign: "verifyToken lib secret (signToken lib secret payload) = Inr payload"
  unfolding verifyToken_iff
  by (rule exI [of _ "b64_encode payload"], rule exI [of _ "b64_encode (wl_hmac lib secret payload)"])
    (use b64_no_dot in \<open>simp add: signToken_def\<close>)

lemma be_nat_append [simp]: "be_nat (s @ [c]) = be_nat s * 256 + byte c"
  by (simp add: be_nat_def)

lemma be_nat_Nil [simp]: "be_nat [] = 0"
  by (simp add: be_nat_def)

lemma be_nat_nat_be [simp]: "be_nat (nat_be n) = n"
proof (induction n rule: nat_be.induct)
  case (1 n)
  then show ?case by (subst nat_be.simps) auto
qed

lemma decoded_iff [simp]: "decoded s = Inr b \<longleftrightarrow> b64_decode s = Some b"
  by (simp add: decoded_def split: option.split)

lemma verifyClientData_iff:
  "verifyClientData lib raw ty ch orig = Inr u \<longleftrightarrow>
     (\<exists>cd. wl_client_data lib raw = Some cd \<and> cd_Type cd = ty \<and> cd_Origin cd = orig \<and> b64_decode (cd_Challenge cd) = Some ch)"
  by (auto simp: verifyClientData_def split: option.split)

text \<open>A check that must not fail.\<close>

lemma guard_Inr:
  "(if c then Inl e else r) = Inr x \<longleftrightarrow> \<not> c \<and> r = Inr x"
  "(case v of None \<Rightarrow> Inl e | Some y \<Rightarrow> f y) = Inr x \<longleftrightarrow> (\<exists>y. v = Some y \<and> f y = Inr x)"
  by (simp_all split: option.split)

lemma checkRPIDHash_iff: "checkRPIDHash lib got rp = Inr u \<longleftrightarrow> got = wl_sha256 lib rp"
  by (simp add: checkRPIDHash_def)

lemma verifyES256_iff: "verifyES256 lib pub msg sig = Inr u \<longleftrightarrow> wl_verify lib pub (wl_sha256 lib msg) sig"
  by (simp add: verifyES256_def)

lemma parseCOSEPublicKey_iff:
  "parseCOSEPublicKey lib b = Inr pub \<longleftrightarrow>
     (\<exists>k. wl_cose lib b = Some k \<and> ck_Kty k = 2 \<and> ck_Alg k = - 7 \<and> ck_Crv k = 1 \<and> length (ck_X k) = 32 \<and> length (ck_Y k) = 32 \<and>
        wl_on_curve lib (be_nat (ck_X k)) (be_nat (ck_Y k)) \<and> pub = (be_nat (ck_X k), be_nat (ck_Y k)))"
  by (auto simp: parseCOSEPublicKey_def guard_Inr)

text \<open>An assertion is accepted only with a signature of the key over exactly these bytes.\<close>

lemma verifyAssertion_iff:
  "verifyAssertion lib cfg cred ch resp uv = Inr a \<longleftrightarrow>
     b64_decode (as_ID resp) = Some (sc_ID cred) \<and>
     (\<exists>cdj adb sig. b64_decode (as_ClientDataJSON resp) = Some cdj \<and> b64_decode (as_AuthenticatorData resp) = Some adb \<and>
        b64_decode (as_Signature resp) = Some sig \<and>
        verifyClientData lib cdj ''webauthn.get'' ch (wc_Origin cfg) = Inr () \<and>
        parseAuthenticatorData lib adb = Inr a \<and> ad_RPIDHash a = wl_sha256 lib (wc_RPID cfg) \<and>
        UserPresent a \<and> (uv \<longrightarrow> UserVerified a) \<and>
        wl_verify lib (be_nat (sc_PublicKeyX cred), be_nat (sc_PublicKeyY cred)) (wl_sha256 lib (adb @ wl_sha256 lib cdj)) sig)"
  unfolding verifyAssertion_def by (auto simp: guard_Inr checkRPIDHash_iff verifyES256_iff Let_def)

lemma verifyAttestation_iff:
  "verifyAttestation lib cfg ch resp uv = Inr att \<longleftrightarrow>
     (\<exists>cdj aob ao a pub prf. b64_decode (ar_ClientDataJSON resp) = Some cdj \<and> b64_decode (ar_AttestationObject resp) = Some aob \<and>
        verifyClientData lib cdj ''webauthn.create'' ch (wc_Origin cfg) = Inr () \<and>
        wl_att_object lib aob = Some ao \<and> ao_Fmt ao = ''none'' \<and> parseAuthenticatorData lib (ao_AuthData ao) = Inr a \<and>
        ad_RPIDHash a = wl_sha256 lib (wc_RPID cfg) \<and> UserPresent a \<and> (uv \<longrightarrow> UserVerified a) \<and>
        0 < length (ad_CredentialID a) \<and> length (ad_CredentialID a) \<le> maxCredentialIDBytes \<and>
        b64_decode (ar_ID resp) = Some (ad_CredentialID a) \<and> parseCOSEPublicKey lib (ad_CredentialPublicKey a) = Inr pub \<and>
        prfFirst (ar_PRF resp) = Inr prf \<and>
        att = \<lparr>at_cred = \<lparr>sc_ID = ad_CredentialID a, sc_PublicKeyX = nat_be (fst pub), sc_PublicKeyY = nat_be (snd pub),
                           sc_SignCount = ad_SignCount a, sc_RPID = wc_RPID cfg, sc_Label = [], sc_CreatedAt = 0\<rparr>,
                at_prfEnabled = (case ar_PRF resp of None \<Rightarrow> False | Some r \<Rightarrow> pr_Enabled r), at_prf = prf\<rparr>)"
  unfolding verifyAttestation_def by (simp add: guard_Inr checkRPIDHash_iff Let_def) (auto; blast)

lemma verifyAttestation_cred:
  assumes "verifyAttestation lib cfg ch resp uv = Inr att"
  shows "sc_RPID (at_cred att) = wc_RPID cfg" "0 < length (sc_ID (at_cred att))" "length (sc_ID (at_cred att)) \<le> maxCredentialIDBytes"
    "wl_on_curve lib (be_nat (sc_PublicKeyX (at_cred att))) (be_nat (sc_PublicKeyY (at_cred att)))"
  using assms by (auto simp: verifyAttestation_iff parseCOSEPublicKey_iff)


end
