(* ===== verification/Webauthn.thy ===== *)
theory Webauthn
  imports Webauthn_Verify
begin

text \<open>
  The state and the ceremonies of the WebAuthn login (package cmd/internal/webauthn: state.go, ceremony.go, ops.go):
  bootstrap registration, login, sessions, re-authentication bound to an operation, adding and removing passkeys.

  The state is the file of the credential store and, in memory, the challenges that were used. A call gets what its
  reads of the clock, its random numbers and the system calls of loading and saving answer. The mutex orders the calls of one
  process that load and save. Another process may write between the loading and the saving of a call: \<open>ws_seen\<close> is
  then the directory as the call loaded it, and \<open>ws_dir\<close> as it saves to it.
\<close>

section \<open>State (state.go)\<close>

definition maxStateValue :: int where "maxStateValue = 16 * 1024"
definition stateName :: string where "stateName = ''webauthn''"
definition maxCredentials :: nat where "maxCredentials = 16"

text \<open>Times and durations are nanoseconds; \<open>unix\<close> is the second.\<close>

definition challengeTTL :: int where "challengeTTL = 120 * 1000000000"
definition SessionTTL :: int where "SessionTTL = 30 * 24 * 3600 * 1000000000"
definition unix :: "int \<Rightarrow> int" where "unix t = t div 1000000000"

record wa_store =
  ws_cf :: cred_store
  ws_dir :: cred_dir
  ws_used :: "string \<rightharpoonup> int"
  ws_seen :: "cred_dir option"

definition seen_dir :: "wa_store \<Rightarrow> cred_dir" where
  "seen_dir st = (case ws_seen st of None \<Rightarrow> ws_dir st | Some d \<Rightarrow> d)"

record wa_env =
  en_load :: "nat \<Rightarrow> bool \<times> read_env"
  en_save :: save_env
  en_rand :: "nat \<Rightarrow> random"
  en_now :: "nat \<Rightarrow> int"

definition zero_state :: persisted_state where
  "zero_state = \<lparr>ps_Credential = None, ps_Credentials = [], ps_SessionSecret = [], ps_BootstrapToken = [], ps_BootstrapExpiry = 0,
     ps_SessionEpoch = 0\<rparr>"

definition NewStore :: "string \<Rightarrow> cred_dir \<Rightarrow> wa_err + wa_store" where
  "NewStore stateDir d =
     (case NewSized stateDir maxStateValue of
        Inl e \<Rightarrow> Inl (WaFile e)
      | Inr cf \<Rightarrow> Inr \<lparr>ws_cf = cf, ws_dir = d, ws_used = Map.empty, ws_seen = None\<rparr>)"

definition load_attempts :: "wa_env \<Rightarrow> cred_dir \<Rightarrow> nat \<Rightarrow> attempt" where
  "load_attempts env d i = \<lparr>at_canceled = fst (en_load env i), at_env = snd (en_load env i), at_dir = d\<rparr>"

text \<open>The form of older versions with a single passkey is read, and never written.\<close>

definition migrated :: "persisted_state \<Rightarrow> persisted_state" where
  "migrated p =
     (case ps_Credential p of
        None \<Rightarrow> p
      | Some c \<Rightarrow> if length (ps_Credentials p) = 0 then p\<lparr>ps_Credentials := [c]\<rparr> else p)\<lparr>ps_Credential := None\<rparr>"

definition decode_state :: "wa_lib \<Rightarrow> secret \<Rightarrow> wa_err + persisted_state" where
  "decode_state lib sec =
     (case wl_un_state lib (Reveal sec) of
        None \<Rightarrow> Inl WaOther
      | Some p \<Rightarrow> if length (ps_Credentials (migrated p)) > maxCredentials then Inl WaOther else Inr (migrated p))"

definition wa_load :: "wa_lib \<Rightarrow> wa_env \<Rightarrow> wa_store \<Rightarrow> wa_err + persisted_state" where
  "wa_load lib env st =
     (case credfile_Token (ws_cf st) (load_attempts env (seen_dir st)) stateName of
        Inl e \<Rightarrow> if e = CfNotFound then Inr zero_state else Inl (WaFile e)
      | Inr sec \<Rightarrow> decode_state lib sec)"

definition wa_save :: "wa_lib \<Rightarrow> wa_env \<Rightarrow> persisted_state \<Rightarrow> wa_store \<Rightarrow> (wa_err + unit) \<times> wa_store" where
  "wa_save lib env p st =
     (case credfile_Save (ws_cf st) (en_save env) stateName (New_secret (wl_state lib p)) (ws_dir st) of
        (r, d) \<Rightarrow> (case r of Inl e \<Rightarrow> Inl (WaFile e) | Inr _ \<Rightarrow> Inr (), st\<lparr>ws_dir := d\<rparr>))"

definition randomBytes :: "random \<Rightarrow> nat \<Rightarrow> wa_err + string" where
  "randomBytes r n = (case r of None \<Rightarrow> Inl WaOther | Some f \<Rightarrow> Inr (map f [0..<n]))"

definition ensureSessionSecret :: "random \<Rightarrow> persisted_state \<Rightarrow> wa_err + persisted_state" where
  "ensureSessionSecret r p =
     (if length (ps_SessionSecret p) > 0 then Inr p
      else bindR (randomBytes r 32) (\<lambda>secret. Inr (p\<lparr>ps_SessionSecret := secret\<rparr>)))"

definition passkey :: "persisted_state \<Rightarrow> string \<Rightarrow> stored_credential option" where
  "passkey p cid = find (\<lambda>c. sc_ID c = cid) (ps_Credentials p)"

text \<open>The assignment through the pointer that \<open>credential\<close> returns: to the first entry of the ID.\<close>

fun set_sign_count :: "string \<Rightarrow> nat \<Rightarrow> stored_credential list \<Rightarrow> stored_credential list" where
  "set_sign_count cid n [] = []"
| "set_sign_count cid n (c # cs) = (if sc_ID c = cid then c\<lparr>sc_SignCount := n\<rparr> # cs else c # set_sign_count cid n cs)"

text \<open>\<open>consumeLocked\<close>: the entries whose expiry has passed are forgotten first.\<close>

definition consume :: "int \<Rightarrow> string \<Rightarrow> int \<Rightarrow> (string \<rightharpoonup> int) \<Rightarrow> bool \<times> (string \<rightharpoonup> int)" where
  "consume now key expiry used =
     (let used1 = (\<lambda>k. case used k of None \<Rightarrow> None | Some e \<Rightarrow> if e < unix now then None else Some e) in
      if used1 key \<noteq> None then (False, used1) else (True, used1(key \<mapsto> expiry)))"

text \<open>An error ends the call with the state as it is.\<close>

definition tryS :: "wa_err + 'a \<Rightarrow> 's \<Rightarrow> ('a \<Rightarrow> (wa_err + 'b) \<times> 's) \<Rightarrow> (wa_err + 'b) \<times> 's" where
  "tryS r st f = (case r of Inl e \<Rightarrow> (Inl e, st) | Inr x \<Rightarrow> f x)"

section \<open>Login (ceremony.go)\<close>

record creation_options =
  co_RPID :: string
  co_RPName :: string
  co_UserID :: string
  co_Challenge :: string
  co_Alg :: int
  co_Timeout :: int
  co_UserVerification :: string
  co_Exclude :: "string list"
  co_PRFSalt :: "string option"

record request_options =
  rq_RPID :: string
  rq_Challenge :: string
  rq_Allow :: "string list"
  rq_Timeout :: int
  rq_UserVerification :: string
  rq_PRFEval :: "(string \<times> string) list"

definition bootstrapUserID :: string where "bootstrapUserID = ''goronation-admin''"

definition ceremony_claims :: "string \<Rightarrow> string \<Rightarrow> int \<Rightarrow> state_claims" where
  "ceremony_claims purpose challenge now =
     \<lparr>cl_Purpose = purpose, cl_Challenge = challenge, cl_Expiry = unix (now + challengeTTL), cl_Op = [], cl_Target = [],
      cl_RequestID = [], cl_Allowed = [], cl_WantPRF = False, cl_Salt = []\<rparr>"

definition verifyStateToken :: "wa_lib \<Rightarrow> int \<Rightarrow> string \<Rightarrow> string \<Rightarrow> string \<Rightarrow> wa_err + state_claims" where
  "verifyStateToken lib now secret token wantPurpose =
     bindR (verifyToken lib secret token) (\<lambda>payload.
     case wl_un_claims lib payload of
       None \<Rightarrow> Inl WaBadToken
     | Some claims \<Rightarrow>
         if cl_Purpose claims \<noteq> wantPurpose then Inl WaBadToken
         else if unix now > cl_Expiry claims then Inl WaExpired
         else Inr claims)"

definition checkBootstrapToken :: "int \<Rightarrow> persisted_state \<Rightarrow> string \<Rightarrow> wa_err + unit" where
  "checkBootstrapToken now p inp =
     (if length (ps_BootstrapToken p) = 0 \<or> unix now > ps_BootstrapExpiry p then Inl WaBadBootstrapToken
      else (case b64_decode inp of
              None \<Rightarrow> Inl WaBadBootstrapToken
            | Some got \<Rightarrow> if length got \<noteq> length (ps_BootstrapToken p) \<or> got \<noteq> ps_BootstrapToken p then Inl WaBadBootstrapToken else Inr ()))"

definition descriptors :: "stored_credential list \<Rightarrow> string option \<Rightarrow> string list" where
  "descriptors creds except = map (\<lambda>c. b64_encode (sc_ID c)) (filter (\<lambda>c. Some (sc_ID c) \<noteq> except) creds)"

definition IssueBootstrapToken :: "wa_lib \<Rightarrow> wa_env \<Rightarrow> int \<Rightarrow> wa_store \<Rightarrow> (wa_err + string) \<times> wa_store" where
  "IssueBootstrapToken lib env ttl st =
     tryS (randomBytes (en_rand env 0) 32) st (\<lambda>tok.
     tryS (wa_load lib env st) st (\<lambda>p.
     tryS (ensureSessionSecret (en_rand env 1) p) st (\<lambda>p1.
     case wa_save lib env (p1\<lparr>ps_BootstrapToken := tok, ps_BootstrapExpiry := unix (en_now env 0 + ttl)\<rparr>) st of
       (Inl e, st1) \<Rightarrow> (Inl e, st1)
     | (Inr _, st1) \<Rightarrow> (Inr (b64_encode tok), st1))))"

definition RegisterBegin :: "wa_lib \<Rightarrow> wa_env \<Rightarrow> wa_config \<Rightarrow> wa_store \<Rightarrow> string \<Rightarrow> wa_err + creation_options \<times> string" where
  "RegisterBegin lib env cfg st bootstrapToken =
     bindR (wa_load lib env st) (\<lambda>p.
     if length (ps_Credentials p) > 0 then Inl WaAlreadyRegistered
     else bindR (checkBootstrapToken (en_now env 0) p bootstrapToken) (\<lambda>_.
     bindR (randomBytes (en_rand env 0) 32) (\<lambda>challenge.
     Inr (\<lparr>co_RPID = wc_RPID cfg, co_RPName = wc_RPName cfg, co_UserID = b64_encode bootstrapUserID, co_Challenge = b64_encode challenge,
           co_Alg = - 7, co_Timeout = challengeTTL div 1000000, co_UserVerification = ''preferred'', co_Exclude = [], co_PRFSalt = None\<rparr>,
          signToken lib (ps_SessionSecret p) (wl_claims lib (ceremony_claims ''register'' challenge (en_now env 1)))))))"

definition RegisterFinish ::
    "wa_lib \<Rightarrow> wa_env \<Rightarrow> wa_config \<Rightarrow> string \<Rightarrow> attestation_response \<Rightarrow> wa_store \<Rightarrow> (wa_err + unit) \<times> wa_store" where
  "RegisterFinish lib env cfg token resp st =
     tryS (wa_load lib env st) st (\<lambda>p.
     if length (ps_Credentials p) > 0 then (Inl WaAlreadyRegistered, st)
     else tryS (verifyStateToken lib (en_now env 0) (ps_SessionSecret p) token ''register'') st (\<lambda>claims.
     tryS (verifyAttestation lib cfg (cl_Challenge claims) resp False) st (\<lambda>att.
     wa_save lib env (p\<lparr>ps_Credentials := [(at_cred att)\<lparr>sc_CreatedAt := unix (en_now env 1)\<rparr>],
                        ps_BootstrapToken := [], ps_BootstrapExpiry := 0\<rparr>) st)))"

definition AuthenticateBegin :: "wa_lib \<Rightarrow> wa_env \<Rightarrow> wa_config \<Rightarrow> wa_store \<Rightarrow> wa_err + request_options \<times> string" where
  "AuthenticateBegin lib env cfg st =
     bindR (wa_load lib env st) (\<lambda>p.
     if length (ps_Credentials p) = 0 then Inl WaNotRegistered
     else bindR (randomBytes (en_rand env 0) 32) (\<lambda>challenge.
     Inr (\<lparr>rq_RPID = wc_RPID cfg, rq_Challenge = b64_encode challenge, rq_Allow = descriptors (ps_Credentials p) None,
           rq_Timeout = challengeTTL div 1000000, rq_UserVerification = ''preferred'', rq_PRFEval = []\<rparr>,
          signToken lib (ps_SessionSecret p) (wl_claims lib (ceremony_claims ''authenticate'' challenge (en_now env 0))))))"

definition AuthenticateFinish ::
    "wa_lib \<Rightarrow> wa_env \<Rightarrow> wa_config \<Rightarrow> string \<Rightarrow> assertion_response \<Rightarrow> wa_store \<Rightarrow> (wa_err + string) \<times> wa_store" where
  "AuthenticateFinish lib env cfg token resp st =
     tryS (wa_load lib env st) st (\<lambda>p.
     if length (ps_Credentials p) = 0 then (Inl WaNotRegistered, st)
     else tryS (verifyStateToken lib (en_now env 0) (ps_SessionSecret p) token ''authenticate'') st (\<lambda>claims.
     tryS (decoded (as_ID resp)) st (\<lambda>respID.
     case passkey p respID of
       None \<Rightarrow> (Inl WaOther, st)
     | Some cred \<Rightarrow>
         tryS (verifyAssertion lib cfg cred (cl_Challenge claims) resp False) st (\<lambda>authData.
         let p1 = (if ad_SignCount authData > 0
                   then p\<lparr>ps_Credentials := set_sign_count respID (ad_SignCount authData) (ps_Credentials p)\<rparr> else p) in
         case wa_save lib env p1 st of
           (Inl e, st1) \<Rightarrow> (Inl e, st1)
         | (Inr _, st1) \<Rightarrow>
             (Inr (signToken lib (ps_SessionSecret p1) (wl_session lib
                \<lparr>sn_Purpose = ''session'', sn_Expiry = unix (en_now env 1 + SessionTTL), sn_Epoch = ps_SessionEpoch p1\<rparr>)), st1)))))"

definition VerifySession :: "wa_lib \<Rightarrow> wa_env \<Rightarrow> wa_store \<Rightarrow> string \<Rightarrow> wa_err + unit" where
  "VerifySession lib env st token =
     bindR (wa_load lib env st) (\<lambda>p.
     if length (ps_SessionSecret p) = 0 then Inl WaBadToken
     else bindR (verifyToken lib (ps_SessionSecret p) token) (\<lambda>payload.
     case wl_un_session lib payload of
       None \<Rightarrow> Inl WaBadToken
     | Some claims \<Rightarrow>
         if sn_Purpose claims \<noteq> ''session'' then Inl WaBadToken
         else if unix (en_now env 0) > sn_Expiry claims then Inl WaExpired
         else if sn_Epoch claims \<noteq> ps_SessionEpoch p then Inl WaLoggedOut
         else Inr ()))"

definition Logout :: "wa_lib \<Rightarrow> wa_env \<Rightarrow> wa_store \<Rightarrow> (wa_err + unit) \<times> wa_store" where
  "Logout lib env st =
     tryS (wa_load lib env st) st (\<lambda>p. wa_save lib env (p\<lparr>ps_SessionEpoch := ps_SessionEpoch p + 1\<rparr>) st)"

section \<open>Operations (ops.go)\<close>

definition OpUnlock :: string where "OpUnlock = ''unlock''"
definition OpAddCredential :: string where "OpAddCredential = ''add-credential''"
definition OpRemoveCredential :: string where "OpRemoveCredential = ''remove-credential''"

lemmas op_defs = OpUnlock_def OpAddCredential_def OpRemoveCredential_def

record binding =
  bi_Op :: string
  bi_Target :: string
  bi_RequestID :: string

text \<open>The expression \<open>^[A-Za-z0-9_-]{1,64}$\<close>.\<close>

definition requestIDRe :: "string \<Rightarrow> bool" where
  "requestIDRe s \<longleftrightarrow> 1 \<le> length s \<and> length s \<le> 64 \<and>
     (\<forall>c\<in>set s. is_upper c \<or> is_lower c \<or> is_digit c \<or> c = CHR ''_'' \<or> c = CHR ''-'')"

definition Binding_validate :: "binding \<Rightarrow> wa_err + unit" where
  "Binding_validate b =
     (if \<not> requestIDRe (bi_RequestID b) then Inl WaOther
      else if bi_Op b = OpUnlock then (if length (bi_Target b) \<noteq> 0 then Inl WaOther else Inr ())
      else if bi_Op b = OpAddCredential \<or> bi_Op b = OpRemoveCredential
      then (if length (bi_Target b) = 0 \<or> length (bi_Target b) > maxCredentialIDBytes then Inl WaOther else Inr ())
      else Inl WaOther)"

definition Binding_equal :: "binding \<Rightarrow> string \<Rightarrow> string \<Rightarrow> string \<Rightarrow> bool" where
  "Binding_equal b op target requestID \<longleftrightarrow> bi_Op b = op \<and> bi_Target b = target \<and> bi_RequestID b = requestID"

definition checkOpTarget :: "persisted_state \<Rightarrow> string \<Rightarrow> string \<Rightarrow> wa_err + unit" where
  "checkOpTarget p op target =
     (if op = OpAddCredential then
        (if passkey p target \<noteq> None then Inl WaBadOperation
         else if length (ps_Credentials p) \<ge> maxCredentials then Inl WaBadOperation
         else Inr ())
      else if op = OpRemoveCredential then
        (if passkey p target = None then Inl WaBadOperation
         else if length (ps_Credentials p) \<le> 1 then Inl WaBadOperation
         else Inr ())
      else Inr ())"

record prf_eval =
  ev_CredentialID :: string
  ev_Salt :: string

text \<open>The loop over \<open>evals\<close>: the evaluations so far, and the passkeys that may answer.\<close>

fun eval_loop ::
    "persisted_state \<Rightarrow> string option \<Rightarrow> prf_eval list \<Rightarrow> (string \<times> string) list \<Rightarrow> stored_credential list \<Rightarrow>
     wa_err + (string \<times> string) list \<times> stored_credential list" where
  "eval_loop p except [] ext allowed = Inr (ext, allowed)"
| "eval_loop p except (e # es) ext allowed =
     (case passkey p (ev_CredentialID e) of
        None \<Rightarrow> Inl WaOther
      | Some cred \<Rightarrow>
          if length (ev_Salt e) \<noteq> wa_PRFSize then Inl WaOther
          else let key = b64_encode (ev_CredentialID e) in
          if key \<in> set (map fst ext) then Inl WaOther
          else eval_loop p except es (ext @ [(key, b64_encode (ev_Salt e))])
                 (if except = None \<or> Some (ev_CredentialID e) \<noteq> except then allowed @ [cred] else allowed))"

definition OpAuthBegin ::
    "wa_lib \<Rightarrow> wa_env \<Rightarrow> wa_config \<Rightarrow> wa_store \<Rightarrow> binding \<Rightarrow> prf_eval list \<Rightarrow> wa_err + request_options \<times> string" where
  "OpAuthBegin lib env cfg st b evals =
     bindR (Binding_validate b) (\<lambda>_.
     bindR (wa_load lib env st) (\<lambda>p.
     if length (ps_Credentials p) = 0 then Inl WaNotRegistered
     else bindR (checkOpTarget p (bi_Op b) (bi_Target b)) (\<lambda>_.
     let except = (if bi_Op b = OpRemoveCredential then Some (bi_Target b) else None) in
     bindR (if length evals > 0 then eval_loop p except evals [] [] else Inr ([], ps_Credentials p)) (\<lambda>(ext, allowed).
     let descs = descriptors allowed except in
     if length descs = 0 then Inl WaBadOperation
     else bindR (randomBytes (en_rand env 0) 32) (\<lambda>challenge.
     let claims = \<lparr>cl_Purpose = ''op-auth'', cl_Challenge = challenge, cl_Expiry = unix (en_now env 0 + challengeTTL),
                   cl_Op = bi_Op b, cl_Target = bi_Target b, cl_RequestID = bi_RequestID b,
                   cl_Allowed = map sc_ID (filter (\<lambda>c. Some (sc_ID c) \<noteq> except) allowed),
                   cl_WantPRF = (length evals > 0), cl_Salt = []\<rparr> in
     Inr (\<lparr>rq_RPID = wc_RPID cfg, rq_Challenge = b64_encode challenge, rq_Allow = descs, rq_Timeout = challengeTTL div 1000000,
           rq_UserVerification = ''required'', rq_PRFEval = ext\<rparr>,
          signToken lib (ps_SessionSecret p) (wl_claims lib claims)))))))"

record wa_assertion =
  an_CredentialID :: string
  an_PRF :: "string option"
  an_cred :: string
  an_op :: string
  an_target :: string
  an_requestID :: string
  an_at :: int

definition Wipe_assertion :: "wa_assertion \<Rightarrow> wa_assertion" where
  "Wipe_assertion a = a\<lparr>an_PRF := None\<rparr>"

definition containsID :: "string list \<Rightarrow> string \<Rightarrow> bool" where
  "containsID ids cid \<longleftrightarrow> (\<exists>x\<in>set ids. x = cid)"

definition OpAuthFinish ::
    "wa_lib \<Rightarrow> wa_env \<Rightarrow> wa_config \<Rightarrow> string \<Rightarrow> binding \<Rightarrow> assertion_response \<Rightarrow> wa_store \<Rightarrow> (wa_err + wa_assertion) \<times> wa_store" where
  "OpAuthFinish lib env cfg token b resp st =
     tryS (Binding_validate b) st (\<lambda>_.
     tryS (wa_load lib env st) st (\<lambda>p.
     tryS (verifyStateToken lib (en_now env 0) (ps_SessionSecret p) token ''op-auth'') st (\<lambda>claims.
     if \<not> Binding_equal b (cl_Op claims) (cl_Target claims) (cl_RequestID claims) then (Inl WaOther, st)
     else tryS (decoded (as_ID resp)) st (\<lambda>respID.
     case passkey p respID of
       None \<Rightarrow> (Inl WaOther, st)
     | Some cred \<Rightarrow>
         if \<not> containsID (cl_Allowed claims) respID then (Inl WaOther, st)
         else tryS (checkOpTarget p (bi_Op b) (bi_Target b)) st (\<lambda>_.
         tryS (verifyAssertion lib cfg cred (cl_Challenge claims) resp True) st (\<lambda>authData.
         tryS (if cl_WantPRF claims
               then bindR (prfFirst (as_PRF resp)) (\<lambda>r. if r = None then Inl WaOther else Inr r)
               else Inr None) st (\<lambda>prf.
         case consume (en_now env 1) (b64_encode (cl_Challenge claims)) (cl_Expiry claims) (ws_used st) of
           (ok, used1) \<Rightarrow>
             let st1 = st\<lparr>ws_used := used1\<rparr> in
             if \<not> ok then (Inl WaOther, st1)
             else (case (if ad_SignCount authData > 0
                         then wa_save lib env (p\<lparr>ps_Credentials := set_sign_count respID (ad_SignCount authData) (ps_Credentials p)\<rparr>) st1
                         else (Inr (), st1)) of
                     (Inl e, st2) \<Rightarrow> (Inl e, st2)
                   | (Inr _, st2) \<Rightarrow>
                       (Inr \<lparr>an_CredentialID = respID, an_PRF = prf, an_cred = respID, an_op = cl_Op claims,
                             an_target = cl_Target claims, an_requestID = cl_RequestID claims, an_at = en_now env 2\<rparr>, st2)))))))))"

record wa_candidate =
  cn_CredentialID :: string
  cn_Salt :: string
  cn_PRF :: "string option"
  cn_PRFEnabled :: bool
  cn_cred :: stored_credential
  cn_requestID :: string
  cn_at :: int

definition Wipe_candidate :: "wa_candidate \<Rightarrow> wa_candidate" where
  "Wipe_candidate c = c\<lparr>cn_PRF := None\<rparr>"

definition AddBegin :: "wa_lib \<Rightarrow> wa_env \<Rightarrow> wa_config \<Rightarrow> wa_store \<Rightarrow> string \<Rightarrow> wa_err + creation_options \<times> string" where
  "AddBegin lib env cfg st requestID =
     (if \<not> requestIDRe requestID then Inl WaOther
      else bindR (wa_load lib env st) (\<lambda>p.
      if length (ps_Credentials p) = 0 then Inl WaNotRegistered
      else if length (ps_Credentials p) \<ge> maxCredentials then Inl WaBadOperation
      else bindR (randomBytes (en_rand env 0) 32) (\<lambda>challenge.
      bindR (randomBytes (en_rand env 1) wa_PRFSize) (\<lambda>salt.
      Inr (\<lparr>co_RPID = wc_RPID cfg, co_RPName = wc_RPName cfg, co_UserID = b64_encode bootstrapUserID, co_Challenge = b64_encode challenge,
            co_Alg = - 7, co_Timeout = challengeTTL div 1000000, co_UserVerification = ''required'',
            co_Exclude = descriptors (ps_Credentials p) None, co_PRFSalt = Some (b64_encode salt)\<rparr>,
           signToken lib (ps_SessionSecret p) (wl_claims lib
             ((ceremony_claims ''add-register'' challenge (en_now env 0))\<lparr>cl_RequestID := requestID, cl_Salt := salt\<rparr>)))))))"

definition AddFinish ::
    "wa_lib \<Rightarrow> wa_env \<Rightarrow> wa_config \<Rightarrow> string \<Rightarrow> string \<Rightarrow> attestation_response \<Rightarrow> wa_store \<Rightarrow> (wa_err + wa_candidate) \<times> wa_store" where
  "AddFinish lib env cfg token requestID resp st =
     tryS (wa_load lib env st) st (\<lambda>p.
     tryS (verifyStateToken lib (en_now env 0) (ps_SessionSecret p) token ''add-register'') st (\<lambda>claims.
     if cl_RequestID claims \<noteq> requestID then (Inl WaOther, st)
     else tryS (verifyAttestation lib cfg (cl_Challenge claims) resp True) st (\<lambda>att.
     if passkey p (sc_ID (at_cred att)) \<noteq> None then (Inl WaBadOperation, st)
     else (case consume (en_now env 1) (''add:'' @ b64_encode (cl_Challenge claims)) (cl_Expiry claims) (ws_used st) of
             (ok, used1) \<Rightarrow>
               let st1 = st\<lparr>ws_used := used1\<rparr> in
               if \<not> ok then (Inl WaOther, st1)
               else (Inr \<lparr>cn_CredentialID = sc_ID (at_cred att), cn_Salt = cl_Salt claims, cn_PRF = at_prf att,
                          cn_PRFEnabled = at_prfEnabled att, cn_cred = at_cred att, cn_requestID = requestID, cn_at = en_now env 2\<rparr>, st1)))))"

definition checkLabel :: "string \<Rightarrow> wa_err + unit" where
  "checkLabel label =
     (if \<not> utf8_valid label \<or> length (utf8_runes label) > 32 then Inl WaOther
      else eachR (\<lambda>r. if r < 0x20 \<or> (r \<ge> 0x7f \<and> r \<le> 0x9f) then Inl WaOther else Inr ()) (utf8_runes label))"

definition CommitAdd ::
    "wa_lib \<Rightarrow> wa_env \<Rightarrow> wa_candidate option \<Rightarrow> wa_assertion option \<Rightarrow> string \<Rightarrow> wa_store \<Rightarrow> (wa_err + unit) \<times> wa_store" where
  "CommitAdd lib env cand0 authz0 label st =
     (case (cand0, authz0) of
        (Some cand, Some authz) \<Rightarrow>
          tryS (checkLabel label) st (\<lambda>_.
          if an_op authz \<noteq> OpAddCredential \<or> an_target authz \<noteq> cn_CredentialID cand \<or> an_requestID authz \<noteq> cn_requestID cand
          then (Inl WaBadOperation, st)
          else if en_now env 0 - an_at authz > challengeTTL \<or> en_now env 1 - cn_at cand > 2 * challengeTTL then (Inl WaBadOperation, st)
          else tryS (wa_load lib env st) st (\<lambda>p.
          if passkey p (an_cred authz) = None then (Inl WaBadOperation, st)
          else tryS (checkOpTarget p OpAddCredential (cn_CredentialID cand)) st (\<lambda>_.
          let c = (cn_cred cand)\<lparr>sc_Label := label, sc_CreatedAt := unix (en_now env 2)\<rparr> in
          wa_save lib env (p\<lparr>ps_Credentials := ps_Credentials p @ [c]\<rparr>) st)))
      | _ \<Rightarrow> (Inl WaBadOperation, st))"

definition RemoveCredential ::
    "wa_lib \<Rightarrow> wa_env \<Rightarrow> string \<Rightarrow> wa_assertion option \<Rightarrow> wa_store \<Rightarrow> (wa_err + unit) \<times> wa_store" where
  "RemoveCredential lib env target authz0 st =
     (case authz0 of
        None \<Rightarrow> (Inl WaBadOperation, st)
      | Some authz \<Rightarrow>
          if an_op authz \<noteq> OpRemoveCredential \<or> an_target authz \<noteq> target then (Inl WaBadOperation, st)
          else if an_cred authz = target then (Inl WaBadOperation, st)
          else if en_now env 0 - an_at authz > challengeTTL then (Inl WaBadOperation, st)
          else tryS (wa_load lib env st) st (\<lambda>p.
          if passkey p (an_cred authz) = None then (Inl WaBadOperation, st)
          else tryS (checkOpTarget p OpRemoveCredential target) st (\<lambda>_.
          let kept = filter (\<lambda>c. sc_ID c \<noteq> target) (ps_Credentials p) in
          wa_save lib env (p\<lparr>ps_Credentials := kept, ps_SessionEpoch := ps_SessionEpoch p + 1\<rparr>) st)))"

record credential_info =
  ci_ID :: string
  ci_Label :: string
  ci_CreatedAt :: int

definition ListCredentials :: "wa_lib \<Rightarrow> wa_env \<Rightarrow> wa_store \<Rightarrow> wa_err + credential_info list" where
  "ListCredentials lib env st =
     bindR (wa_load lib env st) (\<lambda>p.
     Inr (map (\<lambda>c. \<lparr>ci_ID = sc_ID c, ci_Label = sc_Label c, ci_CreatedAt = sc_CreatedAt c\<rparr>) (ps_Credentials p)))"

section \<open>What is stored\<close>

text \<open>What an undisturbed reading of the file gives.\<close>

definition stored_state :: "wa_lib \<Rightarrow> wa_store \<Rightarrow> wa_err + persisted_state" where
  "stored_state lib st =
     (case on_file (ws_cf st) (ws_dir st) stateName of
        Inl e \<Rightarrow> if e = CfNotFound then Inr zero_state else Inl (WaFile e)
      | Inr sec \<Rightarrow> decode_state lib sec)"

text \<open>What an undisturbed reading of the directory gives that a call loads from.\<close>

definition loaded_state :: "wa_lib \<Rightarrow> wa_store \<Rightarrow> wa_err + persisted_state" where
  "loaded_state lib st = stored_state lib (st\<lparr>ws_dir := seen_dir st\<rparr>)"

definition store_ok :: "wa_store \<Rightarrow> bool" where
  "store_ok st \<longleftrightarrow> dir_inv (ws_cf st, ws_dir st) \<and> dir_inv (ws_cf st, seen_dir st)"

text \<open>
  What is relied on of encoding/json: strings are text, and what was written is read back. A token of one kind, read as
  the other, has the same purpose.
\<close>

definition text_state :: "persisted_state \<Rightarrow> bool" where
  "text_state p \<longleftrightarrow> ps_Credential p = None \<and> (\<forall>c\<in>set (ps_Credentials p). utf8_valid (sc_RPID c))"

definition text_claims :: "state_claims \<Rightarrow> bool" where
  "text_claims c \<longleftrightarrow> utf8_valid (cl_Purpose c) \<and> utf8_valid (cl_Op c) \<and> utf8_valid (cl_RequestID c)"

definition state_json_ok :: "wa_lib \<Rightarrow> bool" where
  "state_json_ok lib \<longleftrightarrow>
     (\<forall>p. text_state p \<longrightarrow> wl_un_state lib (wl_state lib p) = Some p) \<and>
     (\<forall>s p. wl_un_state lib s = Some p \<longrightarrow> text_state (migrated p))"

definition claims_json_ok :: "wa_lib \<Rightarrow> bool" where
  "claims_json_ok lib \<longleftrightarrow>
     (\<forall>c. text_claims c \<longrightarrow> wl_un_claims lib (wl_claims lib c) = Some c) \<and>
     (\<forall>s c. utf8_valid (sn_Purpose s) \<longrightarrow> wl_un_claims lib (wl_session lib s) = Some c \<longrightarrow> cl_Purpose c = sn_Purpose s) \<and>
     (\<forall>s. utf8_valid (sn_Purpose s) \<longrightarrow> wl_un_session lib (wl_session lib s) = Some s) \<and>
     (\<forall>c s. text_claims c \<longrightarrow> wl_un_session lib (wl_claims lib c) = Some s \<longrightarrow> sn_Purpose s = cl_Purpose c)"

definition wa_lib_ok :: "wa_lib \<Rightarrow> bool" where
  "wa_lib_ok lib \<longleftrightarrow> state_json_ok lib \<and> claims_json_ok lib"

definition valid_state :: "persisted_state \<Rightarrow> bool" where
  "valid_state p \<longleftrightarrow> text_state p \<and> length (ps_Credentials p) \<le> maxCredentials"

lemma tryS_Inr [simp]: "tryS r st f = (Inr x, st') \<longleftrightarrow> (\<exists>y. r = Inr y \<and> f y = (Inr x, st'))"
  by (cases r) (simp_all add: tryS_def)

lemma tryS_Inl: "tryS r st f = (Inl e, st') \<longleftrightarrow> (r = Inl e \<and> st' = st) \<or> (\<exists>y. r = Inr y \<and> f y = (Inl e, st'))"
  by (cases r) (auto simp: tryS_def)

lemma migrated_id: "ps_Credential p = None \<Longrightarrow> migrated p = p"
  by (simp add: migrated_def)

lemma text_zero [simp]: "valid_state zero_state"
  by (simp add: valid_state_def text_state_def zero_state_def)

lemma decode_state_valid: "wa_lib_ok lib \<Longrightarrow> decode_state lib sec = Inr p \<Longrightarrow> valid_state p"
  by (auto simp: decode_state_def valid_state_def wa_lib_ok_def state_json_ok_def split: option.splits if_splits)

lemma decode_state_encoded:
  "wa_lib_ok lib \<Longrightarrow> valid_state p \<Longrightarrow> decode_state lib (New_secret (wl_state lib p)) = Inr p"
  by (simp add: decode_state_def Reveal_def New_secret_def valid_state_def wa_lib_ok_def state_json_ok_def migrated_id text_state_def)

lemma load_attempts_dir [simp]: "at_dir (load_attempts env d i) = d"
  by (simp add: load_attempts_def)

lemma seen_None [simp]: "ws_seen st = None \<Longrightarrow> seen_dir st = ws_dir st"
  by (simp add: seen_dir_def)

lemma seen_update [simp]:
  "seen_dir (st\<lparr>ws_used := u\<rparr>) = seen_dir st" "ws_seen st = Some d \<Longrightarrow> seen_dir (st\<lparr>ws_dir := d'\<rparr>) = d"
  "seen_dir (st\<lparr>ws_seen := Some d\<rparr>) = d" "seen_dir (st\<lparr>ws_seen := None\<rparr>) = ws_dir st"
  by (simp_all add: seen_dir_def split: option.split)

lemma loaded_stored: "ws_seen st = None \<Longrightarrow> loaded_state lib st = stored_state lib st"
  by (simp add: loaded_state_def)

lemma load_loaded:
  assumes "store_ok st" "wa_load lib env st = Inr p"
  shows "loaded_state lib st = Inr p"
proof -
  let ?att = "load_attempts env (seen_dir st)"
  have i: "\<forall>i. dir_inv (ws_cf st, at_dir (?att i))" using assms(1) by (simp add: store_ok_def)
  show ?thesis
  proof (cases "credfile_Token (ws_cf st) ?att stateName")
    case (Inl e)
    then have "e = CfNotFound" using assms(2) by (simp add: wa_load_def split: if_splits)
    then have "cd_files (seen_dir st) stateName = None" using Token_cases [OF i, of stateName] Inl
      by (auto simp: token_ok_def)
    then show ?thesis using Inl \<open>e = CfNotFound\<close> assms(2) by (simp add: wa_load_def loaded_state_def stored_state_def on_file_def)
  next
    case (Inr sec)
    then have "on_file (ws_cf st) (seen_dir st) stateName = Inr sec" using Token_cases [OF i, of stateName]
      by (auto simp: token_ok_def attempt_reads_def)
    then show ?thesis using Inr assms(2) by (simp add: wa_load_def loaded_state_def stored_state_def)
  qed
qed

lemma stored_valid: "wa_lib_ok lib \<Longrightarrow> stored_state lib st = Inr p \<Longrightarrow> valid_state p"
  by (auto simp: stored_state_def dest: decode_state_valid split: sum.splits if_splits)

lemma loaded_valid: "wa_lib_ok lib \<Longrightarrow> loaded_state lib st = Inr p \<Longrightarrow> valid_state p"
  by (auto simp: loaded_state_def dest: stored_valid)

lemma save_effect:
  assumes "wa_save lib env p st = (r, st')" "store_ok st"
  shows "store_ok st'" "ws_used st' = ws_used st" "ws_cf st' = ws_cf st"
    "r \<noteq> Inr () \<Longrightarrow> stored_state lib st' = stored_state lib st"
    "r = Inr () \<Longrightarrow> wa_lib_ok lib \<Longrightarrow> valid_state p \<Longrightarrow> stored_state lib st' = Inr p"
proof -
  obtain r0 d where s: "credfile_Save (ws_cf st) (en_save env) stateName (New_secret (wl_state lib p)) (ws_dir st) = (r0, d)"
    by fastforce
  have st': "st' = st\<lparr>ws_dir := d\<rparr>" and r: "r = Inr () \<longleftrightarrow> r0 = Inr ()"
    using assms(1) by (auto simp: wa_save_def s split: sum.splits)
  note eff = Save_effect [OF s]
  have p: "file_put (en_save env) stateName (New_secret (wl_state lib p)) (ws_cf st, ws_dir st) = (ws_cf st, d)"
    by (simp add: file_put_def s)
  show "store_ok st'" using cred_files.inv_put [of "(ws_cf st, ws_dir st)" "en_save env" stateName "New_secret (wl_state lib p)"] assms(2) p
    by (auto simp: store_ok_def st' seen_dir_def split: option.splits)
  show "ws_used st' = ws_used st" "ws_cf st' = ws_cf st" by (simp_all add: st')
  show "stored_state lib st' = stored_state lib st" if "r \<noteq> Inr ()"
    using that eff r by (simp add: stored_state_def on_file_def st')
  show "stored_state lib st' = Inr p" if "r = Inr ()" "wa_lib_ok lib" "valid_state p"
  proof -
    have "file_stored (en_save env) stateName (New_secret (wl_state lib p)) (ws_cf st, ws_dir st)"
      using that(1) r by (simp add: file_stored_def s)
    then have "on_file (ws_cf st) d stateName = Inr (New_secret (wl_state lib p))"
      using cred_files.get_put [of "(ws_cf st, ws_dir st)"] assms(2) p
      by (fastforce simp: file_get_def store_ok_def Reveal_def New_secret_def)
    then show ?thesis by (simp add: stored_state_def st' decode_state_encoded [OF that(2,3)])
  qed
qed

lemma stored_state_used [simp]: "stored_state lib (st\<lparr>ws_used := u\<rparr>) = stored_state lib st" "store_ok (st\<lparr>ws_used := u\<rparr>) = store_ok st"
  "loaded_state lib (st\<lparr>ws_used := u\<rparr>) = loaded_state lib st"
  by (simp_all add: stored_state_def store_ok_def loaded_state_def)

lemma store_seen [simp]:
  "stored_state lib (st\<lparr>ws_seen := v\<rparr>) = stored_state lib st" "ws_dir (st\<lparr>ws_seen := v\<rparr>) = ws_dir st"
  by (simp_all add: stored_state_def)

lemma load_valid: "wa_lib_ok lib \<Longrightarrow> store_ok st \<Longrightarrow> wa_load lib env st = Inr p \<Longrightarrow> valid_state p"
  using load_loaded loaded_valid by blast

text \<open>
  Loading, changing and saving: on success the state that was loaded, changed, is stored afterwards; on failure nothing is
  different.
\<close>

definition saved :: "wa_lib \<Rightarrow> wa_store \<Rightarrow> persisted_state \<Rightarrow> persisted_state \<Rightarrow> wa_store \<Rightarrow> bool" where
  "saved lib st p p' st' \<longleftrightarrow> loaded_state lib st = Inr p \<and> stored_state lib st' = Inr p'"

text \<open>How a call ends, with rules that follow its text.\<close>

definition ends :: "('r \<Rightarrow> 's \<Rightarrow> bool) \<Rightarrow> 'r \<times> 's \<Rightarrow> bool" where
  "ends Q r \<longleftrightarrow> Q (fst r) (snd r)"

lemma ends_ret: "Q r st \<Longrightarrow> ends Q (r, st)"
  by (simp add: ends_def)

lemma ends_try:
  "(\<And>e. r = Inl e \<Longrightarrow> Q (Inl e) st) \<Longrightarrow> (\<And>x. r = Inr x \<Longrightarrow> ends Q (f x)) \<Longrightarrow> ends Q (tryS r st f)"
  by (simp add: ends_def tryS_def split: sum.split)

lemma ends_if: "(c \<Longrightarrow> ends Q a) \<Longrightarrow> (\<not> c \<Longrightarrow> ends Q b) \<Longrightarrow> ends Q (if c then a else b)"
  by simp

lemma ends_option: "(v = None \<Longrightarrow> ends Q a) \<Longrightarrow> (\<And>x. v = Some x \<Longrightarrow> ends Q (f x)) \<Longrightarrow> ends Q (case v of None \<Rightarrow> a | Some x \<Rightarrow> f x)"
  by (cases v) simp_all

lemma ends_then:
  "ends (\<lambda>r st1. case r of Inl e \<Rightarrow> Q (Inl e) st1 | Inr u \<Rightarrow> Q (Inr y) st1) m \<Longrightarrow>
     ends Q (case m of (Inl e, st1) \<Rightarrow> (Inl e, st1) | (Inr u, st1) \<Rightarrow> (Inr y, st1))"
  by (cases m; cases "fst m") (auto simp: ends_def)

lemma ends_consume:
  fixes m :: "bool \<times> (string \<rightharpoonup> int)"
  shows "(\<And>ok u. m = (ok, u) \<Longrightarrow> ends Q (f ok u)) \<Longrightarrow> ends Q (case m of (ok, u) \<Rightarrow> f ok u)"
  by (cases m) simp

lemma ends_save:
  assumes "store_ok st"
    and "\<And>e st'. store_ok st' \<Longrightarrow> ws_cf st' = ws_cf st \<Longrightarrow> ws_used st' = ws_used st \<Longrightarrow> stored_state lib st' = stored_state lib st \<Longrightarrow> Q (Inl e) st'"
    and "\<And>st'. store_ok st' \<Longrightarrow> ws_cf st' = ws_cf st \<Longrightarrow> ws_used st' = ws_used st \<Longrightarrow>
       (wa_lib_ok lib \<Longrightarrow> valid_state p \<Longrightarrow> stored_state lib st' = Inr p) \<Longrightarrow> Q (Inr ()) st'"
  shows "ends Q (wa_save lib env p st)"
proof -
  obtain r st' where s: "wa_save lib env p st = (r, st')" by fastforce
  note eff = save_effect [OF s assms(1)]
  show ?thesis
  proof (cases r)
    case (Inl e)
    then show ?thesis using assms(2) eff by (simp add: ends_def s)
  next
    case (Inr u)
    then show ?thesis using assms(3) eff by (simp add: ends_def s)
  qed
qed

lemmas ends_rules = ends_consume ends_try ends_if ends_option ends_then ends_save ends_ret

text \<open>Most calls leave everything as it was when they fail.\<close>

definition effect :: "wa_lib \<Rightarrow> wa_store \<Rightarrow> ('a \<Rightarrow> wa_store \<Rightarrow> bool) \<Rightarrow> wa_err + 'a \<Rightarrow> wa_store \<Rightarrow> bool" where
  "effect lib st Q r st' \<longleftrightarrow> store_ok st' \<and> ws_cf st' = ws_cf st \<and>
     (case r of Inl e \<Rightarrow> stored_state lib st' = stored_state lib st | Inr x \<Rightarrow> Q x st')"

lemma effect_simps [simp]:
  "effect lib st Q (Inl e) st' \<longleftrightarrow> store_ok st' \<and> ws_cf st' = ws_cf st \<and> stored_state lib st' = stored_state lib st"
  "effect lib st Q (Inr x) st' \<longleftrightarrow> store_ok st' \<and> ws_cf st' = ws_cf st \<and> Q x st'"
  by (simp_all add: effect_def)

section \<open>What the calls do to the stored state\<close>

lemma ensureSessionSecret_Inr:
  assumes "ensureSessionSecret r p = Inr p'"
  shows "p' = p\<lparr>ps_SessionSecret := ps_SessionSecret p'\<rparr>" "ps_SessionSecret p' \<noteq> []"
    "ps_SessionSecret p \<noteq> [] \<Longrightarrow> p' = p"
  using assms by (auto simp: ensureSessionSecret_def randomBytes_def split: if_splits option.splits)

lemma valid_state_fields [simp]:
  "valid_state (p\<lparr>ps_BootstrapToken := t\<rparr>) = valid_state p" "valid_state (p\<lparr>ps_BootstrapExpiry := x\<rparr>) = valid_state p"
  "valid_state (p\<lparr>ps_SessionSecret := t\<rparr>) = valid_state p" "valid_state (p\<lparr>ps_SessionEpoch := x\<rparr>) = valid_state p"
  by (simp_all add: valid_state_def text_state_def)

lemma valid_state_creds:
  "valid_state p \<Longrightarrow> \<forall>c\<in>set cs. utf8_valid (sc_RPID c) \<Longrightarrow> length cs \<le> maxCredentials \<Longrightarrow> valid_state (p\<lparr>ps_Credentials := cs\<rparr>)"
  by (simp add: valid_state_def text_state_def)

lemma Issue_effect:
  assumes "wa_lib_ok lib" "store_ok st"
  shows "ends (effect lib st (\<lambda>t st'. \<exists>p p1 tok. ensureSessionSecret (en_rand env 1) p = Inr p1 \<and>
         saved lib st p (p1\<lparr>ps_BootstrapToken := tok, ps_BootstrapExpiry := unix (en_now env 0 + ttl)\<rparr>) st'))
     (IssueBootstrapToken lib env ttl st)"
proof -
  have v: "valid_state p1" if "wa_load lib env st = Inr p" "ensureSessionSecret (en_rand env 1) p = Inr p1" for p p1
    using load_valid [OF assms that(1)] ensureSessionSecret_Inr(1) [OF that(2)] by (metis valid_state_fields(3))
  show ?thesis
    unfolding IssueBootstrapToken_def
    by (intro ends_rules) (use assms v load_loaded in \<open>auto simp: saved_def\<close>)
qed

lemma RegisterFinish_effect:
  assumes "wa_lib_ok lib" "store_ok st" "utf8_valid (wc_RPID cfg)"
  shows "ends (effect lib st (\<lambda>t st'. \<exists>p claims att. wa_load lib env st = Inr p \<and> ps_Credentials p = [] \<and>
         verifyStateToken lib (en_now env 0) (ps_SessionSecret p) token ''register'' = Inr claims \<and>
         verifyAttestation lib cfg (cl_Challenge claims) resp False = Inr att \<and>
         saved lib st p (p\<lparr>ps_Credentials := [(at_cred att)\<lparr>sc_CreatedAt := unix (en_now env 1)\<rparr>],
                           ps_BootstrapToken := [], ps_BootstrapExpiry := 0\<rparr>) st'))
     (RegisterFinish lib env cfg token resp st)"
proof -
  have v: "valid_state (p\<lparr>ps_Credentials := [(at_cred att)\<lparr>sc_CreatedAt := x\<rparr>]\<rparr>)"
    if "wa_load lib env st = Inr p" "verifyAttestation lib cfg ch resp False = Inr att" for p att ch x
    using load_valid [OF assms(1,2) that(1)] verifyAttestation_cred(1) [OF that(2)] assms(3)
    by (intro valid_state_creds) (simp_all add: maxCredentials_def)
  show ?thesis
    unfolding RegisterFinish_def
    by (intro ends_rules) (use assms v load_loaded in \<open>auto simp: saved_def\<close>)
qed

lemma set_sign_count_fields:
  "map sc_ID (set_sign_count cid n cs) = map sc_ID cs" "length (set_sign_count cid n cs) = length cs"
  "map sc_RPID (set_sign_count cid n cs) = map sc_RPID cs"
  by (induction cs) auto

lemma set_sign_count_text: "\<forall>c\<in>set cs. P (sc_RPID c) \<Longrightarrow> \<forall>c\<in>set (set_sign_count cid n cs). P (sc_RPID c)"
  by (induction cs) auto

lemma valid_state_count:
  "valid_state p \<Longrightarrow> valid_state (p\<lparr>ps_Credentials := set_sign_count cid n (ps_Credentials p)\<rparr>)"
  by (intro valid_state_creds set_sign_count_text) (auto simp: valid_state_def text_state_def set_sign_count_fields)

definition counted :: "persisted_state \<Rightarrow> string \<Rightarrow> nat \<Rightarrow> persisted_state" where
  "counted p cid n = (if n > 0 then p\<lparr>ps_Credentials := set_sign_count cid n (ps_Credentials p)\<rparr> else p)"

lemma valid_state_counted: "valid_state p \<Longrightarrow> valid_state (counted p cid n)"
  by (simp add: counted_def valid_state_count)

definition logged_in :: "wa_env \<Rightarrow> persisted_state \<Rightarrow> session_claims" where
  "logged_in env p = \<lparr>sn_Purpose = ''session'', sn_Expiry = unix (en_now env 1 + SessionTTL), sn_Epoch = ps_SessionEpoch p\<rparr>"

lemma AuthenticateFinish_effect:
  assumes "wa_lib_ok lib" "store_ok st"
  shows "ends (effect lib st (\<lambda>t st'. \<exists>p claims cid cred a. wa_load lib env st = Inr p \<and>
         verifyStateToken lib (en_now env 0) (ps_SessionSecret p) token ''authenticate'' = Inr claims \<and>
         b64_decode (as_ID resp) = Some cid \<and> passkey p cid = Some cred \<and>
         verifyAssertion lib cfg cred (cl_Challenge claims) resp False = Inr a \<and>
         t = signToken lib (ps_SessionSecret p) (wl_session lib (logged_in env p)) \<and>
         saved lib st p (counted p cid (ad_SignCount a)) st'))
     (AuthenticateFinish lib env cfg token resp st)"
proof -
  have c: "(if n > 0 then p\<lparr>ps_Credentials := set_sign_count cid n (ps_Credentials p)\<rparr> else p) = counted p cid n" for p cid n
    by (simp add: counted_def)
  have f: "ps_SessionSecret (counted p cid n) = ps_SessionSecret p" "logged_in env (counted p cid n) = logged_in env p" for p cid n
    by (simp_all add: counted_def logged_in_def)
  have v: "valid_state (counted p cid n)" if "wa_load lib env st = Inr p" for p cid n
    using load_valid [OF assms that] by (rule valid_state_counted)
  show ?thesis
    unfolding AuthenticateFinish_def c Let_def logged_in_def [symmetric] f
    by (intro ends_rules) (simp_all add: saved_def assms v load_loaded [OF assms(2)])
qed

lemma Logout_effect:
  assumes "wa_lib_ok lib" "store_ok st"
  shows "ends (effect lib st (\<lambda>t st'. \<exists>p. saved lib st p (p\<lparr>ps_SessionEpoch := ps_SessionEpoch p + 1\<rparr>) st')) (Logout lib env st)"
  unfolding Logout_def
  by (intro ends_rules) (use assms load_valid [OF assms] load_loaded in \<open>auto simp: saved_def\<close>)

text \<open>What \<open>OpAuthFinish\<close> has checked when it returns an assertion, and \<open>AddFinish\<close> when it returns a candidate.\<close>

definition op_authenticated ::
    "wa_lib \<Rightarrow> wa_env \<Rightarrow> wa_config \<Rightarrow> string \<Rightarrow> binding \<Rightarrow> assertion_response \<Rightarrow> persisted_state \<Rightarrow> state_claims \<Rightarrow> wa_assertion \<Rightarrow> bool" where
  "op_authenticated lib env cfg token b resp p claims a \<longleftrightarrow>
     Binding_validate b = Inr () \<and> verifyStateToken lib (en_now env 0) (ps_SessionSecret p) token ''op-auth'' = Inr claims \<and>
     Binding_equal b (cl_Op claims) (cl_Target claims) (cl_RequestID claims) \<and> an_cred a \<in> set (cl_Allowed claims) \<and>
     checkOpTarget p (bi_Op b) (bi_Target b) = Inr () \<and>
     (\<exists>cred ad. passkey p (an_cred a) = Some cred \<and> verifyAssertion lib cfg cred (cl_Challenge claims) resp True = Inr ad) \<and>
     an_op a = bi_Op b \<and> an_target a = bi_Target b \<and> an_requestID a = bi_RequestID b \<and> an_at a = en_now env 2"

definition add_attested ::
    "wa_lib \<Rightarrow> wa_env \<Rightarrow> wa_config \<Rightarrow> string \<Rightarrow> string \<Rightarrow> attestation_response \<Rightarrow> persisted_state \<Rightarrow> state_claims \<Rightarrow> wa_candidate \<Rightarrow> bool" where
  "add_attested lib env cfg token req resp p claims c \<longleftrightarrow>
     verifyStateToken lib (en_now env 0) (ps_SessionSecret p) token ''add-register'' = Inr claims \<and> cl_RequestID claims = req \<and>
     (\<exists>att. verifyAttestation lib cfg (cl_Challenge claims) resp True = Inr att \<and> passkey p (sc_ID (at_cred att)) = None \<and>
        cn_cred c = at_cred att) \<and>
     cn_CredentialID c = sc_ID (cn_cred c) \<and> cn_requestID c = req \<and> cn_at c = en_now env 2"

lemma OpAuthFinish_effect:
  assumes "wa_lib_ok lib" "store_ok st"
  shows "ends (effect lib st (\<lambda>a st'. \<exists>p claims n. wa_load lib env st = Inr p \<and>
         op_authenticated lib env cfg token b resp p claims a \<and>
         consume (en_now env 1) (b64_encode (cl_Challenge claims)) (cl_Expiry claims) (ws_used st) = (True, ws_used st') \<and>
         (saved lib st p (counted p (an_cred a) n) st' \<or> stored_state lib st' = stored_state lib st)))
     (OpAuthFinish lib env cfg token b resp st)"
proof -
  have v: "valid_state (p\<lparr>ps_Credentials := set_sign_count cid n (ps_Credentials p)\<rparr>)" if "wa_load lib env st = Inr p" for p cid n
    using load_valid [OF assms that] by (rule valid_state_count)
  have c: "p\<lparr>ps_Credentials := set_sign_count cid n (ps_Credentials p)\<rparr> = counted p cid n" if "0 < n" for p cid n
    using that by (simp add: counted_def)
  show ?thesis
    unfolding OpAuthFinish_def Let_def
    by (intro ends_rules)
      (simp_all add: assms, simp_all add: op_authenticated_def saved_def v load_loaded [OF assms(2)] containsID_def Binding_equal_def,
        metis c)
qed

lemma AddFinish_effect:
  assumes "store_ok st"
  shows "ends (effect lib st (\<lambda>c st'. stored_state lib st' = stored_state lib st \<and> (\<exists>p claims. wa_load lib env st = Inr p \<and>
         add_attested lib env cfg token req resp p claims c \<and>
         consume (en_now env 1) (''add:'' @ b64_encode (cl_Challenge claims)) (cl_Expiry claims) (ws_used st) = (True, ws_used st'))))
     (AddFinish lib env cfg token req resp st)"
  unfolding AddFinish_def Let_def
  by (intro ends_rules) (simp_all add: assms add_attested_def)

lemma CommitAdd_effect:
  assumes "wa_lib_ok lib" "store_ok st" "utf8_valid (sc_RPID (cn_cred cand))"
  shows "ends (effect lib st (\<lambda>u st'. \<exists>p. an_op a = OpAddCredential \<and> an_target a = cn_CredentialID cand \<and> an_requestID a = cn_requestID cand \<and>
         en_now env 0 - an_at a \<le> challengeTTL \<and> en_now env 1 - cn_at cand \<le> 2 * challengeTTL \<and>
         passkey p (an_cred a) \<noteq> None \<and> checkOpTarget p OpAddCredential (cn_CredentialID cand) = Inr () \<and>
         saved lib st p (p\<lparr>ps_Credentials := ps_Credentials p @
           [(cn_cred cand)\<lparr>sc_Label := label, sc_CreatedAt := unix (en_now env 2)\<rparr>]\<rparr>) st'))
     (CommitAdd lib env (Some cand) (Some a) label st)"
proof -
  have v: "valid_state (p\<lparr>ps_Credentials := ps_Credentials p @ [(cn_cred cand)\<lparr>sc_Label := label, sc_CreatedAt := x\<rparr>]\<rparr>)"
    if "wa_load lib env st = Inr p" "checkOpTarget p OpAddCredential (cn_CredentialID cand) = Inr ()" for p x
    using load_valid [OF assms(1,2) that(1)] that(2) assms(3)
    by (intro valid_state_creds) (auto simp: checkOpTarget_def op_defs valid_state_def text_state_def split: if_splits)
  show ?thesis
    unfolding CommitAdd_def option.case prod.case Let_def
    by (intro ends_rules) (use assms v load_loaded in \<open>auto simp: saved_def\<close>)
qed

lemma RemoveCredential_effect:
  assumes "wa_lib_ok lib" "store_ok st"
  shows "ends (effect lib st (\<lambda>u st'. \<exists>p. an_op a = OpRemoveCredential \<and> an_target a = target \<and> an_cred a \<noteq> target \<and>
         en_now env 0 - an_at a \<le> challengeTTL \<and> passkey p (an_cred a) \<noteq> None \<and> checkOpTarget p OpRemoveCredential target = Inr () \<and>
         saved lib st p (p\<lparr>ps_Credentials := filter (\<lambda>c. sc_ID c \<noteq> target) (ps_Credentials p), ps_SessionEpoch := ps_SessionEpoch p + 1\<rparr>) st'))
     (RemoveCredential lib env target (Some a) st)"
proof -
  have v: "valid_state (p\<lparr>ps_Credentials := filter P (ps_Credentials p)\<rparr>)" if "wa_load lib env st = Inr p" for p P
    using load_valid [OF assms that]
    by (intro valid_state_creds) (auto simp: valid_state_def text_state_def intro: order_trans [OF length_filter_le])
  show ?thesis
    unfolding RemoveCredential_def option.case Let_def
    by (intro ends_rules) (use assms v load_loaded in \<open>auto simp: saved_def\<close>)
qed

end
