(* ===== verification/Webauthn_Trace.thy ===== *)
theory Webauthn_Trace
  imports Webauthn
begin

text \<open>
  The ceremonies as a system: every order of calls by a client who may show any token, response or index, with every
  failure of files, random numbers and clock, under any configuration. The system keeps the store, the assertions and candidates
  that were handed out (their fields are private: only OpAuthFinish and AddFinish make them) and a history of the calls, which no
  code reads. A token whose signature verifies was signed by an earlier call (\<open>unforged\<close>), unless the secret is still empty.

  The calls of the server that load and save hold the mutex. \<open>IssueBootstrapToken\<close> runs in the processes of the command
  \<open>goronation web token\<close>, which the mutex does not order (state.go, \<open>Store.mu\<close>): such a process loads (\<open>TokenC\<close>), and
  whatever else happens before it saves (\<open>IssueC\<close>). In the same way a call of the server loads when it has the mutex (\<open>LockC\<close>),
  and saves later.
\<close>

section \<open>Calls and their history\<close>

datatype wa_call =
    TokenC
  | IssueC wa_env int nat
  | LockC
  | RegisterBeginC wa_env string
  | RegisterFinishC wa_env string attestation_response
  | AuthBeginC wa_env
  | AuthFinishC wa_env string assertion_response
  | VerifyC wa_env string
  | LogoutC wa_env
  | OpBeginC wa_env binding "prf_eval list"
  | OpFinishC wa_env string binding assertion_response
  | AddBeginC wa_env string
  | AddFinishC wa_env string string attestation_response
  | CommitC wa_env nat nat string
  | RemoveC wa_env string nat
  | ListC wa_env
  | WipeC nat nat
  | RestartC

text \<open>The calls of the server that load and save.\<close>

fun takes_lock :: "wa_call \<Rightarrow> bool" where
  "takes_lock (RegisterFinishC env tok resp) = True"
| "takes_lock (AuthFinishC env tok resp) = True"
| "takes_lock (LogoutC env) = True"
| "takes_lock (OpFinishC env tok b resp) = True"
| "takes_lock (CommitC env i j label) = True"
| "takes_lock (RemoveC env target j) = True"
| "takes_lock call = False"

text \<open>An entry: the configuration, the call, the state that it loaded, whether it succeeded, the token that it returned.\<close>

record wa_entry =
  we_cfg :: wa_config
  we_call :: wa_call
  we_state :: persisted_state
  we_ok :: bool
  we_token :: string

text \<open>
  \<open>sy_seen\<close>: what the call that holds the mutex has loaded, and the length of the history then. \<open>sy_cli\<close>: what the running processes
  of the command have loaded.
\<close>

record wa_sys =
  sy_store :: wa_store
  sy_seen :: "(cred_dir \<times> nat) option"
  sy_cli :: "cred_dir list"
  sy_asserts :: "wa_assertion list"
  sy_cands :: "wa_candidate list"
  sy_hist :: "wa_entry list"

definition seen_state :: "wa_lib \<Rightarrow> wa_env \<Rightarrow> wa_store \<Rightarrow> persisted_state" where
  "seen_state lib env st = (case wa_load lib env st of Inl _ \<Rightarrow> zero_state | Inr p \<Rightarrow> p)"

definition at_index :: "'a list \<Rightarrow> nat \<Rightarrow> 'a option" where
  "at_index xs i = (if i < length xs then Some (xs ! i) else None)"

definition without :: "nat \<Rightarrow> 'a list \<Rightarrow> 'a list" where
  "without i xs = take i xs @ drop (Suc i) xs"

lemma without_Nil [simp]: "without i [] = []"
  by (simp add: without_def)

text \<open>The store of a call, with the directory that it has loaded. A call that has not loaded before loads now.\<close>

definition call_store :: "wa_call \<Rightarrow> wa_sys \<Rightarrow> wa_store" where
  "call_store call sy =
     (case call of
        IssueC env ttl i \<Rightarrow> (sy_store sy)\<lparr>ws_seen := at_index (sy_cli sy) i\<rparr>
      | _ \<Rightarrow> if takes_lock call then (sy_store sy)\<lparr>ws_seen := map_option fst (sy_seen sy)\<rparr> else sy_store sy)"

text \<open>The system after a call that left the store \<open>st'\<close>.\<close>

definition recorded ::
    "wa_lib \<Rightarrow> wa_config \<Rightarrow> wa_env \<Rightarrow> wa_call \<Rightarrow> (wa_err + 'a) \<times> wa_store \<Rightarrow> ('a \<Rightarrow> string) \<Rightarrow> wa_sys \<Rightarrow> wa_sys" where
  "recorded lib cfg env call rs tok sy =
     sy\<lparr>sy_store := (snd rs)\<lparr>ws_seen := None\<rparr>,
        sy_seen := (if takes_lock call then None else sy_seen sy),
        sy_cli := (case call of IssueC _ _ i \<Rightarrow> without i (sy_cli sy) | _ \<Rightarrow> sy_cli sy),
        sy_hist := sy_hist sy @ [\<lparr>we_cfg = cfg, we_call = call, we_state = seen_state lib env (call_store call sy),
                                 we_ok = (\<not> failed (fst rs)), we_token = (case fst rs of Inl _ \<Rightarrow> [] | Inr x \<Rightarrow> tok x)\<rparr>]\<rparr>"

definition given :: "(wa_err + 'a) \<times> 's \<Rightarrow> 'a list" where
  "given rs = (case fst rs of Inl _ \<Rightarrow> [] | Inr x \<Rightarrow> [x])"

definition wiped :: "('a \<Rightarrow> 'a) \<Rightarrow> nat \<Rightarrow> 'a list \<Rightarrow> 'a list" where
  "wiped f i xs = (if i < length xs then xs[i := f (xs ! i)] else xs)"

fun wa_do :: "wa_lib \<Rightarrow> wa_config \<Rightarrow> wa_call \<Rightarrow> wa_sys \<Rightarrow> wa_sys" where
  "wa_do lib cfg TokenC sy = sy\<lparr>sy_cli := sy_cli sy @ [ws_dir (sy_store sy)]\<rparr>"
| "wa_do lib cfg (IssueC env ttl i) sy =
     recorded lib cfg env (IssueC env ttl i) (IssueBootstrapToken lib env ttl (call_store (IssueC env ttl i) sy)) (\<lambda>_. []) sy"
| "wa_do lib cfg LockC sy =
     sy\<lparr>sy_seen := (case sy_seen sy of None \<Rightarrow> Some (ws_dir (sy_store sy), length (sy_hist sy)) | Some x \<Rightarrow> Some x)\<rparr>"
| "wa_do lib cfg (RegisterBeginC env t) sy =
     recorded lib cfg env (RegisterBeginC env t) (RegisterBegin lib env cfg (sy_store sy) t, sy_store sy) snd sy"
| "wa_do lib cfg (RegisterFinishC env tok resp) sy =
     recorded lib cfg env (RegisterFinishC env tok resp)
       (RegisterFinish lib env cfg tok resp (call_store (RegisterFinishC env tok resp) sy)) (\<lambda>_. []) sy"
| "wa_do lib cfg (AuthBeginC env) sy =
     recorded lib cfg env (AuthBeginC env) (AuthenticateBegin lib env cfg (sy_store sy), sy_store sy) snd sy"
| "wa_do lib cfg (AuthFinishC env tok resp) sy =
     recorded lib cfg env (AuthFinishC env tok resp)
       (AuthenticateFinish lib env cfg tok resp (call_store (AuthFinishC env tok resp) sy)) (\<lambda>t. t) sy"
| "wa_do lib cfg (VerifyC env tok) sy =
     recorded lib cfg env (VerifyC env tok) (VerifySession lib env (sy_store sy) tok, sy_store sy) (\<lambda>_. []) sy"
| "wa_do lib cfg (LogoutC env) sy =
     recorded lib cfg env (LogoutC env) (Logout lib env (call_store (LogoutC env) sy)) (\<lambda>_. []) sy"
| "wa_do lib cfg (OpBeginC env b evals) sy =
     recorded lib cfg env (OpBeginC env b evals) (OpAuthBegin lib env cfg (sy_store sy) b evals, sy_store sy) snd sy"
| "wa_do lib cfg (OpFinishC env tok b resp) sy =
     (let rs = OpAuthFinish lib env cfg tok b resp (call_store (OpFinishC env tok b resp) sy) in
      (recorded lib cfg env (OpFinishC env tok b resp) rs (\<lambda>_. []) sy)\<lparr>sy_asserts := sy_asserts sy @ given rs\<rparr>)"
| "wa_do lib cfg (AddBeginC env req) sy =
     recorded lib cfg env (AddBeginC env req) (AddBegin lib env cfg (sy_store sy) req, sy_store sy) snd sy"
| "wa_do lib cfg (AddFinishC env tok req resp) sy =
     (let rs = AddFinish lib env cfg tok req resp (sy_store sy) in
      (recorded lib cfg env (AddFinishC env tok req resp) rs (\<lambda>_. []) sy)\<lparr>sy_cands := sy_cands sy @ given rs\<rparr>)"
| "wa_do lib cfg (CommitC env i j label) sy =
     recorded lib cfg env (CommitC env i j label)
       (CommitAdd lib env (at_index (sy_cands sy) i) (at_index (sy_asserts sy) j) label (call_store (CommitC env i j label) sy)) (\<lambda>_. []) sy"
| "wa_do lib cfg (RemoveC env target j) sy =
     recorded lib cfg env (RemoveC env target j)
       (RemoveCredential lib env target (at_index (sy_asserts sy) j) (call_store (RemoveC env target j) sy)) (\<lambda>_. []) sy"
| "wa_do lib cfg (ListC env) sy =
     recorded lib cfg env (ListC env) (ListCredentials lib env (sy_store sy), sy_store sy) (\<lambda>_. []) sy"
| "wa_do lib cfg (WipeC i j) sy =
     sy\<lparr>sy_cands := wiped Wipe_candidate i (sy_cands sy), sy_asserts := wiped Wipe_assertion j (sy_asserts sy)\<rparr>"
| "wa_do lib cfg RestartC sy =
     sy\<lparr>sy_store := (sy_store sy)\<lparr>ws_used := Map.empty\<rparr>, sy_seen := None, sy_asserts := [], sy_cands := [],
        sy_hist := sy_hist sy @ [\<lparr>we_cfg = cfg, we_call = RestartC, we_state = zero_state, we_ok = False, we_token = []\<rparr>]\<rparr>"

text \<open>The token that a client shows in a call, and the signatures that exist.\<close>

fun shown :: "wa_call \<Rightarrow> (wa_env \<times> string) option" where
  "shown (RegisterFinishC env tok resp) = Some (env, tok)"
| "shown (AuthFinishC env tok resp) = Some (env, tok)"
| "shown (VerifyC env tok) = Some (env, tok)"
| "shown (OpFinishC env tok b resp) = Some (env, tok)"
| "shown (AddFinishC env tok req resp) = Some (env, tok)"
| "shown call = None"

definition issued :: "wa_lib \<Rightarrow> wa_entry list \<Rightarrow> string \<Rightarrow> string \<Rightarrow> bool" where
  "issued lib hist secret payload \<longleftrightarrow>
     (\<exists>e\<in>set hist. we_ok e \<and> ps_SessionSecret (we_state e) = secret \<and> verifyToken lib secret (we_token e) = Inr payload)"

definition unforged :: "wa_lib \<Rightarrow> wa_call \<Rightarrow> wa_sys \<Rightarrow> bool" where
  "unforged lib call sy \<longleftrightarrow>
     (case shown call of
        None \<Rightarrow> True
      | Some (env, tok) \<Rightarrow>
          let secret = ps_SessionSecret (seen_state lib env (call_store call sy)) in
          secret = [] \<or> (case verifyToken lib secret tok of Inl _ \<Rightarrow> True | Inr payload \<Rightarrow> issued lib (sy_hist sy) secret payload))"

definition start_sys :: "wa_store \<Rightarrow> wa_sys" where
  "start_sys st = \<lparr>sy_store = st, sy_seen = None, sy_cli = [], sy_asserts = [], sy_cands = [], sy_hist = []\<rparr>"

text \<open>Each call has its configuration: it may be another one after a restart, and a stored passkey keeps the RP ID of its registration.\<close>

definition text_config :: "wa_config \<Rightarrow> bool" where
  "text_config cfg \<longleftrightarrow> utf8_valid (wc_RPID cfg)"

inductive wa_reachable :: "wa_lib \<Rightarrow> wa_sys \<Rightarrow> bool" for lib where
  start: "NewStore sd (empty_dir b) = Inr st \<Longrightarrow> wa_reachable lib (start_sys st)"
| step: "wa_reachable lib sy \<Longrightarrow> text_config cfg \<Longrightarrow> unforged lib call sy \<Longrightarrow> wa_reachable lib (wa_do lib cfg call sy)"

section \<open>What a call changes\<close>

definition committed :: "wa_env \<Rightarrow> string \<Rightarrow> wa_candidate \<Rightarrow> stored_credential" where
  "committed env label c = (cn_cred c)\<lparr>sc_Label := label, sc_CreatedAt := unix (en_now env 2)\<rparr>"

text \<open>From the state \<open>p\<close> that a call loaded to the state \<open>p'\<close> that it saves.\<close>

definition changes :: "wa_lib \<Rightarrow> wa_config \<Rightarrow> wa_sys \<Rightarrow> wa_call \<Rightarrow> persisted_state \<Rightarrow> persisted_state \<Rightarrow> bool" where
  "changes lib cfg sy call p p' \<longleftrightarrow>
     (case call of
        IssueC env ttl i \<Rightarrow> (\<exists>secret tok x. secret \<noteq> [] \<and> (ps_SessionSecret p \<noteq> [] \<longrightarrow> secret = ps_SessionSecret p) \<and>
          p' = p\<lparr>ps_SessionSecret := secret, ps_BootstrapToken := tok, ps_BootstrapExpiry := x\<rparr>)
      | RegisterFinishC env tok resp \<Rightarrow> wa_load lib env (call_store call sy) = Inr p \<and> ps_Credentials p = [] \<and>
          (\<exists>claims att. verifyStateToken lib (en_now env 0) (ps_SessionSecret p) tok ''register'' = Inr claims \<and>
             verifyAttestation lib cfg (cl_Challenge claims) resp False = Inr att \<and>
             p' = p\<lparr>ps_Credentials := [(at_cred att)\<lparr>sc_CreatedAt := unix (en_now env 1)\<rparr>], ps_BootstrapToken := [], ps_BootstrapExpiry := 0\<rparr>)
      | AuthFinishC env tok resp \<Rightarrow> (\<exists>cid n. p' = counted p cid n)
      | LogoutC env \<Rightarrow> p' = p\<lparr>ps_SessionEpoch := ps_SessionEpoch p + 1\<rparr>
      | OpFinishC env tok b resp \<Rightarrow> (\<exists>cid n. p' = counted p cid n)
      | CommitC env i j label \<Rightarrow>
          (\<exists>c a. at_index (sy_cands sy) i = Some c \<and> at_index (sy_asserts sy) j = Some a \<and>
             an_op a = OpAddCredential \<and> an_target a = cn_CredentialID c \<and> an_requestID a = cn_requestID c \<and>
             en_now env 0 - an_at a \<le> challengeTTL \<and> en_now env 1 - cn_at c \<le> 2 * challengeTTL \<and>
             passkey p (an_cred a) \<noteq> None \<and> checkOpTarget p OpAddCredential (cn_CredentialID c) = Inr () \<and>
             p' = p\<lparr>ps_Credentials := ps_Credentials p @ [committed env label c]\<rparr>)
      | RemoveC env target j \<Rightarrow>
          (\<exists>a. at_index (sy_asserts sy) j = Some a \<and> an_op a = OpRemoveCredential \<and> an_target a = target \<and> an_cred a \<noteq> target \<and>
             en_now env 0 - an_at a \<le> challengeTTL \<and> passkey p (an_cred a) \<noteq> None \<and> checkOpTarget p OpRemoveCredential target = Inr () \<and>
             p' = p\<lparr>ps_Credentials := filter (\<lambda>c. sc_ID c \<noteq> target) (ps_Credentials p), ps_SessionEpoch := ps_SessionEpoch p + 1\<rparr>)
      | _ \<Rightarrow> False)"

definition good_cand :: "wa_lib \<Rightarrow> wa_candidate \<Rightarrow> bool" where
  "good_cand lib c \<longleftrightarrow> cn_CredentialID c = sc_ID (cn_cred c) \<and> utf8_valid (sc_RPID (cn_cred c)) \<and>
     0 < length (sc_ID (cn_cred c)) \<and> length (sc_ID (cn_cred c)) \<le> maxCredentialIDBytes \<and>
     wl_on_curve lib (be_nat (sc_PublicKeyX (cn_cred c))) (be_nat (sc_PublicKeyY (cn_cred c)))"

text \<open>The last entry of the history of the next state tells whether the call succeeded.\<close>

definition succeeded :: "wa_sys \<Rightarrow> bool" where
  "succeeded sy \<longleftrightarrow> sy_hist sy \<noteq> [] \<and> we_ok (last (sy_hist sy))"

lemma recorded_simps [simp]:
  "sy_store (recorded lib cfg env call rs tok sy) = (snd rs)\<lparr>ws_seen := None\<rparr>"
  "sy_asserts (recorded lib cfg env call rs tok sy) = sy_asserts sy"
  "sy_cands (recorded lib cfg env call rs tok sy) = sy_cands sy"
  "sy_seen (recorded lib cfg env call rs tok sy) = (if takes_lock call then None else sy_seen sy)"
  "sy_cli (recorded lib cfg env call rs tok sy) = (case call of IssueC _ _ i \<Rightarrow> without i (sy_cli sy) | _ \<Rightarrow> sy_cli sy)"
  "succeeded (recorded lib cfg env call rs tok sy) \<longleftrightarrow> \<not> failed (fst rs)"
  by (simp_all add: recorded_def succeeded_def)

lemma call_store_fields [simp]:
  "ws_cf (call_store call sy) = ws_cf (sy_store sy)" "ws_dir (call_store call sy) = ws_dir (sy_store sy)"
  "ws_used (call_store call sy) = ws_used (sy_store sy)" "stored_state lib (call_store call sy) = stored_state lib (sy_store sy)"
  by (simp_all add: call_store_def split: wa_call.split)

lemma call_store_at_once:
  "sy_seen sy = None \<Longrightarrow> sy_cli sy = [] \<Longrightarrow> ws_seen (sy_store sy) = None \<Longrightarrow> call_store call sy = sy_store sy"
  by (simp add: call_store_def at_index_def split: wa_call.split)

lemma call_store_reads [simp]: "\<not> takes_lock call \<Longrightarrow> (\<forall>env ttl i. call \<noteq> IssueC env ttl i) \<Longrightarrow> call_store call sy = sy_store sy"
  by (cases call) (auto simp: call_store_def)

lemma store_ok_unseen: "store_ok st \<Longrightarrow> store_ok (st\<lparr>ws_seen := None\<rparr>)"
  by (simp add: store_ok_def)

lemma ends_outcome:
  assumes "ends (effect lib st Q) rs"
  shows "store_ok (snd rs)" "ws_cf (snd rs) = ws_cf st"
    "failed (fst rs) \<Longrightarrow> stored_state lib (snd rs) = stored_state lib st"
    "\<And>x. fst rs = Inr x \<Longrightarrow> Q x (snd rs)"
  using assms by (cases "fst rs"; simp add: ends_def effect_def)+

lemma at_index_mem: "at_index xs i = Some x \<Longrightarrow> x \<in> set xs"
  by (auto simp: at_index_def split: if_splits)

lemma wiped_mem:
  assumes "x \<in> set (wiped f i xs)"
  obtains y where "y \<in> set xs" "x = y \<or> x = f y"
proof (cases "i < length xs")
  case True
  then have "x = f (xs ! i) \<or> x \<in> set xs" using assms set_update_subset_insert [of xs i] by (auto simp: wiped_def)
  then show ?thesis using that nth_mem [OF True] by blast
qed (use assms that in \<open>auto simp: wiped_def\<close>)

lemma CommitAdd_None:
  "CommitAdd lib env None a label st = (Inl WaBadOperation, st)" "CommitAdd lib env c None label st = (Inl WaBadOperation, st)"
  by (simp_all add: CommitAdd_def split: option.split)

lemma RemoveCredential_None: "RemoveCredential lib env target None st = (Inl WaBadOperation, st)"
  by (simp add: RemoveCredential_def)

text \<open>What the store may be after a call.\<close>

definition store_step :: "wa_lib \<Rightarrow> wa_store \<Rightarrow> wa_store \<Rightarrow> (persisted_state \<Rightarrow> bool) \<Rightarrow> bool \<Rightarrow> bool" where
  "store_step lib st st' C ok \<longleftrightarrow>
     (\<exists>p'. store_ok st' \<and> ws_cf st' = ws_cf st \<and> ws_seen st' = None \<and> stored_state lib st' = Inr p' \<and>
        (stored_state lib st = Inr p' \<or> C p') \<and> (ok \<longrightarrow> C p'))"

lemma mutator_step:
  assumes "ends (effect lib st Q) rs" "stored_state lib st = Inr p"
    and "\<And>x st'. Q x st' \<Longrightarrow> \<exists>p'. stored_state lib st' = Inr p' \<and> C p'"
  shows "store_step lib st ((snd rs)\<lparr>ws_seen := None\<rparr>) C (\<not> failed (fst rs))"
proof (cases "fst rs")
  case (Inl e)
  then show ?thesis using ends_outcome [OF assms(1)] assms(2) by (simp add: store_step_def store_ok_unseen)
next
  case (Inr x)
  then show ?thesis using ends_outcome(1,2,4) [OF assms(1)] assms(3) [of x "snd rs"]
    by (fastforce simp: store_step_def store_ok_unseen)
qed

lemma store_step_same:
  assumes "store_ok st" "stored_state lib st = Inr p" "store_ok st'" "ws_cf st' = ws_cf st" "ws_seen st' = None"
    "stored_state lib st' = stored_state lib st" "\<not> ok"
  shows "store_step lib st st' C ok"
  using assms by (simp add: store_step_def)

lemma store_step_call: "store_step lib (call_store call sy) st' C ok = store_step lib (sy_store sy) st' C ok"
  by (simp add: store_step_def)

definition revokes :: "wa_call \<Rightarrow> bool" where
  "revokes call \<longleftrightarrow> (\<exists>env. call = LogoutC env) \<or> (\<exists>env target j. call = RemoveC env target j)"

lemma wa_do_step:
  assumes "wa_lib_ok lib" "text_config cfg" "store_ok (sy_store sy)" "store_ok (call_store call sy)" "ws_seen (sy_store sy) = None"
    and "\<forall>c\<in>set (sy_cands sy). good_cand lib c"
    and st: "stored_state lib (sy_store sy) = Inr p" and ld: "loaded_state lib (call_store call sy) = Inr q"
  shows "store_step lib (sy_store sy) (sy_store (wa_do lib cfg call sy)) (changes lib cfg sy call q)
    (succeeded (wa_do lib cfg call sy) \<and> revokes call)"
proof -
  let ?st = "call_store call sy"
  let ?C = "changes lib cfg sy call q"
  have st': "stored_state lib ?st = Inr p" using st by simp
  have weak: "store_step lib (sy_store sy) s ?C (a \<and> b)" if "store_step lib ?st s ?C a" for s a b
    using that by (auto simp: store_step_def)
  have cfg: "utf8_valid (wc_RPID cfg)" using assms(2) by (simp add: text_config_def)
  show ?thesis
  proof (cases call)
    case (IssueC env ttl i)
    have chg: "\<exists>p'. stored_state lib st' = Inr p' \<and> changes lib cfg sy call q p'"
      if ex: "\<exists>p0 p1 tok. ensureSessionSecret (en_rand env 1) p0 = Inr p1 \<and>
           saved lib ?st p0 (p1\<lparr>ps_BootstrapToken := tok, ps_BootstrapExpiry := unix (en_now env 0 + ttl)\<rparr>) st'" for st'
    proof -
      obtain p1 tok where e: "ensureSessionSecret (en_rand env 1) q = Inr p1"
        "stored_state lib st' = Inr (p1\<lparr>ps_BootstrapToken := tok, ps_BootstrapExpiry := unix (en_now env 0 + ttl)\<rparr>)"
        using ex ld by (auto simp: saved_def)
      have "p1\<lparr>ps_BootstrapToken := tok, ps_BootstrapExpiry := unix (en_now env 0 + ttl)\<rparr> =
         q\<lparr>ps_SessionSecret := ps_SessionSecret p1, ps_BootstrapToken := tok, ps_BootstrapExpiry := unix (en_now env 0 + ttl)\<rparr>"
        by (subst ensureSessionSecret_Inr(1) [OF e(1)]) simp
      moreover have "ps_SessionSecret q \<noteq> [] \<longrightarrow> ps_SessionSecret p1 = ps_SessionSecret q"
        using ensureSessionSecret_Inr(3) [OF e(1)] by blast
      ultimately show ?thesis using e(2) ensureSessionSecret_Inr(2) [OF e(1)] by (auto simp: changes_def IssueC)
    qed
    show ?thesis using weak [OF mutator_step [OF Issue_effect [OF assms(1,4), of env ttl] st' chg]] by (simp add: IssueC)
  next
    case (RegisterFinishC env tok resp)
    show ?thesis
      using weak [OF mutator_step [OF RegisterFinish_effect [OF assms(1,4) cfg, where env = env and token = tok and resp = resp] st', where C = ?C]] ld
      by (auto simp: changes_def RegisterFinishC saved_def)
  next
    case (AuthFinishC env tok resp)
    show ?thesis
      using weak [OF mutator_step [OF AuthenticateFinish_effect [OF assms(1,4), where env = env and token = tok and cfg = cfg and resp = resp] st', where C = ?C]] ld
      by (fastforce simp: changes_def AuthFinishC saved_def)
  next
    case (LogoutC env)
    show ?thesis
      using weak [OF mutator_step [OF Logout_effect [OF assms(1,4), of env] st', where C = ?C]] ld
      by (auto simp: changes_def LogoutC saved_def)
  next
    case (OpFinishC env tok b resp)
    have "store_step lib ?st (sy_store (wa_do lib cfg call sy)) (\<lambda>p'. ?C p' \<or> p' = p) (succeeded (wa_do lib cfg call sy))"
      using mutator_step [OF OpAuthFinish_effect [OF assms(1,4), where env = env and token = tok and cfg = cfg and b = b and resp = resp] st',
          where C = "\<lambda>p'. ?C p' \<or> p' = p"] ld st'
      by (fastforce simp: changes_def OpFinishC saved_def Let_def succeeded_def recorded_def)
    then show ?thesis using st by (auto simp: store_step_def OpFinishC revokes_def)
  next
    case (AddFinishC env tok req resp)
    have c: "call_store call sy = sy_store sy" by (simp add: AddFinishC)
    show ?thesis
      using mutator_step [OF AddFinish_effect [OF assms(3), where lib = lib and env = env and token = tok and cfg = cfg and req = req and resp = resp] st,
          where C = "\<lambda>p'. p' = p"] st
      by (fastforce simp: AddFinishC Let_def store_step_def revokes_def)
  next
    case (CommitC env i j label)
    show ?thesis
    proof (cases "at_index (sy_cands sy) i = None \<or> at_index (sy_asserts sy) j = None")
      case True
      then show ?thesis using st assms(3) by (auto simp: CommitC CommitAdd_None revokes_def store_step_def store_ok_unseen assms(4) [unfolded CommitC])
    next
      case False
      then obtain c a where c: "at_index (sy_cands sy) i = Some c" and a: "at_index (sy_asserts sy) j = Some a" by auto
      have "utf8_valid (sc_RPID (cn_cred c))" using at_index_mem [OF c] assms(6) by (simp add: good_cand_def)
      from weak [OF mutator_step [OF CommitAdd_effect [OF assms(1,4) this, where a = a and env = env and label = label] st', where C = ?C]] ld
      show ?thesis by (fastforce simp: changes_def CommitC c a saved_def committed_def)
    qed
  next
    case (RemoveC env target j)
    show ?thesis
    proof (cases "at_index (sy_asserts sy) j")
      case None
      then show ?thesis using st assms(3) by (auto simp: RemoveC RemoveCredential_None store_step_def store_ok_unseen assms(4) [unfolded RemoveC])
    next
      case (Some a)
      from weak [OF mutator_step [OF RemoveCredential_effect [OF assms(1,4), where a = a and env = env and target = target] st', where C = ?C]] ld
      show ?thesis by (fastforce simp: changes_def RemoveC Some saved_def)
    qed
  qed (use st assms(3,5) in \<open>simp_all add: store_step_def revokes_def store_ok_unseen\<close>)
qed

section \<open>Well-formed passkeys\<close>

definition good_passkey :: "wa_lib \<Rightarrow> stored_credential \<Rightarrow> bool" where
  "good_passkey lib c \<longleftrightarrow> utf8_valid (sc_RPID c) \<and> 0 < length (sc_ID c) \<and> length (sc_ID c) \<le> maxCredentialIDBytes \<and>
     wl_on_curve lib (be_nat (sc_PublicKeyX c)) (be_nat (sc_PublicKeyY c))"

definition wf_passkeys :: "wa_lib \<Rightarrow> persisted_state \<Rightarrow> bool" where
  "wf_passkeys lib p \<longleftrightarrow> distinct (map sc_ID (ps_Credentials p)) \<and> length (ps_Credentials p) \<le> maxCredentials \<and>
     (\<forall>c\<in>set (ps_Credentials p). good_passkey lib c)"

lemma passkey_None_iff: "passkey p cid = None \<longleftrightarrow> cid \<notin> sc_ID ` set (ps_Credentials p)"
  by (auto simp: passkey_def find_None_iff)

lemma passkey_Some: "passkey p cid = Some c \<Longrightarrow> c \<in> set (ps_Credentials p) \<and> sc_ID c = cid"
  by (auto simp: passkey_def find_Some_iff)

lemma good_passkey_count [simp]: "good_passkey lib (c\<lparr>sc_SignCount := n\<rparr>) = good_passkey lib c"
  by (simp add: good_passkey_def)

lemma set_sign_count_good:
  "list_all (good_passkey lib) cs \<Longrightarrow> list_all (good_passkey lib) (set_sign_count cid n cs)"
  by (induction cs) simp_all

lemma counted_fields:
  "map sc_ID (ps_Credentials (counted p cid n)) = map sc_ID (ps_Credentials p)"
  "ps_SessionSecret (counted p cid n) = ps_SessionSecret p" "ps_SessionEpoch (counted p cid n) = ps_SessionEpoch p"
  by (simp_all add: counted_def set_sign_count_fields)

lemma counted_wf: "wf_passkeys lib p \<Longrightarrow> wf_passkeys lib (counted p cid n)"
  using set_sign_count_good [of lib "ps_Credentials p" cid n]
  by (simp add: wf_passkeys_def counted_def set_sign_count_fields list_all_iff [symmetric])

lemma changes_wf:
  assumes "changes lib cfg sy call p p'" "wf_passkeys lib p" "\<forall>c\<in>set (sy_cands sy). good_cand lib c" "text_config cfg"
  shows "wf_passkeys lib p'"
proof (cases call)
  case (RegisterFinishC env tok resp)
  then show ?thesis using assms(1,4)
    by (auto simp: changes_def wf_passkeys_def good_passkey_def maxCredentials_def text_config_def dest: verifyAttestation_cred)
next
  case (CommitC env i j label)
  then obtain c where c: "c \<in> set (sy_cands sy)" "checkOpTarget p OpAddCredential (cn_CredentialID c) = Inr ()"
    "p' = p\<lparr>ps_Credentials := ps_Credentials p @ [committed env label c]\<rparr>"
    using assms(1) by (auto simp: changes_def dest: at_index_mem)
  then have "passkey p (sc_ID (cn_cred c)) = None" "length (ps_Credentials p) < maxCredentials" "good_cand lib c"
    using assms(3) by (auto simp: checkOpTarget_def good_cand_def split: if_splits)
  then show ?thesis using assms(2)
    by (auto simp: c(3) wf_passkeys_def committed_def good_cand_def good_passkey_def passkey_None_iff)
next
  case (RemoveC env target j)
  then obtain x where "p' = p\<lparr>ps_Credentials := filter (\<lambda>c. sc_ID c \<noteq> target) (ps_Credentials p), ps_SessionEpoch := x\<rparr>"
    using assms(1) by (auto simp: changes_def)
  then show ?thesis using assms(2)
    by (auto simp: wf_passkeys_def distinct_map_filter intro: order_trans [OF length_filter_le])
qed (use assms counted_wf in \<open>auto simp: changes_def wf_passkeys_def\<close>)

lemma filter_other_not_Nil:
  assumes "passkey p target \<noteq> None" "length (ps_Credentials p) > 1" "distinct (map sc_ID (ps_Credentials p))"
  shows "filter (\<lambda>c. sc_ID c \<noteq> target) (ps_Credentials p) \<noteq> []"
proof
  assume "filter (\<lambda>c. sc_ID c \<noteq> target) (ps_Credentials p) = []"
  then have t: "\<forall>c\<in>set (ps_Credentials p). sc_ID c = target" by (simp add: filter_empty_conv)
  then have "set (map sc_ID (ps_Credentials p)) \<subseteq> {target}" by auto
  then have "card (set (map sc_ID (ps_Credentials p))) \<le> 1" using card_mono [of "{target}"] by fastforce
  then show False using assms(2) distinct_card [OF assms(3)] by simp
qed

text \<open>Nothing a call changes gives up the passkeys, replaces the secret or lowers the epoch.\<close>

definition later_state :: "persisted_state \<Rightarrow> persisted_state \<Rightarrow> bool" where
  "later_state p p' \<longleftrightarrow> (ps_Credentials p \<noteq> [] \<longrightarrow> ps_Credentials p' \<noteq> []) \<and>
     (ps_SessionSecret p \<noteq> [] \<longrightarrow> ps_SessionSecret p' = ps_SessionSecret p) \<and> ps_SessionEpoch p \<le> ps_SessionEpoch p'"

lemma later_refl: "later_state p p"
  by (simp add: later_state_def)

lemma later_trans: "later_state p q \<Longrightarrow> later_state q r \<Longrightarrow> later_state p r"
  by (auto simp: later_state_def)

lemma counted_later: "later_state p (counted p cid n)"
  using counted_fields(1) [of p cid n] by (auto simp: later_state_def counted_fields(2,3))

lemma changes_later:
  assumes "changes lib cfg sy call p p'" "wf_passkeys lib p"
  shows "later_state p p'"
proof (cases call)
  case (RemoveC env target j)
  then have "passkey p target \<noteq> None" "length (ps_Credentials p) > 1" and
    p': "p' = p\<lparr>ps_Credentials := filter (\<lambda>c. sc_ID c \<noteq> target) (ps_Credentials p), ps_SessionEpoch := ps_SessionEpoch p + 1\<rparr>"
    using assms(1) by (auto simp: changes_def checkOpTarget_def op_defs split: if_splits)
  then have "filter (\<lambda>c. sc_ID c \<noteq> target) (ps_Credentials p) \<noteq> []"
    using assms(2) by (intro filter_other_not_Nil) (simp_all add: wf_passkeys_def)
  then show ?thesis by (simp add: p' later_state_def)
next
  case (AuthFinishC env tok resp)
  then show ?thesis using assms(1) counted_later by (auto simp: changes_def)
next
  case (OpFinishC env tok b resp)
  then show ?thesis using assms(1) counted_later by (auto simp: changes_def)
qed (use assms in \<open>auto simp: changes_def later_state_def\<close>)

section \<open>The store over a history\<close>

text \<open>What is stored, and what was when a call loaded that has not saved yet.\<close>

definition snapshots :: "wa_sys \<Rightarrow> cred_dir set" where
  "snapshots sy = set (sy_cli sy) \<union> fst ` set_option (sy_seen sy)"

definition good_store :: "wa_lib \<Rightarrow> wa_store \<Rightarrow> bool" where
  "good_store lib st \<longleftrightarrow> store_ok st \<and> (\<exists>p. stored_state lib st = Inr p \<and> wf_passkeys lib p)"

definition wa_base :: "wa_lib \<Rightarrow> wa_sys \<Rightarrow> persisted_state \<Rightarrow> bool" where
  "wa_base lib sy p \<longleftrightarrow> store_ok (sy_store sy) \<and> ws_seen (sy_store sy) = None \<and> stored_state lib (sy_store sy) = Inr p \<and>
     wf_passkeys lib p \<and> (\<forall>c\<in>set (sy_cands sy). good_cand lib c) \<and>
     (\<forall>d\<in>snapshots sy. good_store lib ((sy_store sy)\<lparr>ws_dir := d, ws_seen := None\<rparr>))"

lemma good_store_eq:
  "ws_cf st = ws_cf st' \<Longrightarrow> good_store lib (st\<lparr>ws_dir := d, ws_seen := None\<rparr>) = good_store lib (st'\<lparr>ws_dir := d, ws_seen := None\<rparr>)"
  by (simp add: good_store_def store_ok_def stored_state_def)

lemma set_without: "x \<in> set (without i xs) \<Longrightarrow> x \<in> set xs"
  by (auto simp: without_def dest: in_set_takeD in_set_dropD)

lemma call_store_seen:
  assumes "ws_seen (sy_store sy) = None"
  shows "ws_seen (call_store call sy) = None \<or> (\<exists>d\<in>snapshots sy. ws_seen (call_store call sy) = Some d)"
  using assms by (cases "sy_seen sy"; cases call) (auto simp: call_store_def snapshots_def at_index_def)

lemma call_store_good:
  assumes "wa_base lib sy p"
  obtains q where "store_ok (call_store call sy)" "loaded_state lib (call_store call sy) = Inr q" "wf_passkeys lib q"
proof (cases "ws_seen (call_store call sy)")
  case None
  then show ?thesis using assms that [of p] by (simp add: wa_base_def store_ok_def loaded_stored)
next
  case (Some d)
  then have "good_store lib ((sy_store sy)\<lparr>ws_dir := d, ws_seen := None\<rparr>)"
    using assms call_store_seen [of sy call] by (auto simp: wa_base_def)
  then obtain q where "store_ok ((sy_store sy)\<lparr>ws_dir := d, ws_seen := None\<rparr>)" "wf_passkeys lib q"
    "stored_state lib ((sy_store sy)\<lparr>ws_dir := d, ws_seen := None\<rparr>) = Inr q"
    by (auto simp: good_store_def)
  then show ?thesis using assms Some that [of q]
    by (simp add: wa_base_def store_ok_def loaded_state_def seen_dir_def stored_state_def)
qed

lemma given_cand:
  assumes "store_ok st" "c \<in> set (given (AddFinish lib env cfg tok req resp st))" "text_config cfg"
  shows "good_cand lib c"
proof -
  have r: "fst (AddFinish lib env cfg tok req resp st) = Inr c" using assms(2) by (auto simp: given_def split: sum.splits)
  show ?thesis
    using ends_outcome(4) [OF AddFinish_effect [OF assms(1)] r] assms(3)
    by (auto simp: add_attested_def good_cand_def text_config_def dest: verifyAttestation_cred)
qed

lemma cands_step:
  assumes "wa_base lib sy p" "text_config cfg" "c \<in> set (sy_cands (wa_do lib cfg call sy))"
  shows "good_cand lib c"
proof (cases call)
  case (AddFinishC env tok req resp)
  then show ?thesis using assms given_cand [of "sy_store sy" c] by (auto simp: wa_base_def Let_def)
next
  case (WipeC i j)
  have "good_cand lib (Wipe_candidate c) = good_cand lib c" for c by (simp add: good_cand_def Wipe_candidate_def)
  then show ?thesis using assms by (auto simp: WipeC wa_base_def elim!: wiped_mem)
qed (use assms in \<open>auto simp: wa_base_def Let_def\<close>)

lemma snapshots_step: "snapshots (wa_do lib cfg call sy) \<subseteq> insert (ws_dir (sy_store sy)) (snapshots sy)"
  by (cases call) (auto simp: snapshots_def Let_def dest: set_without split: option.splits)

text \<open>No other process has written since the call loaded.\<close>

definition alone :: "wa_lib \<Rightarrow> wa_call \<Rightarrow> wa_sys \<Rightarrow> bool" where
  "alone lib call sy \<longleftrightarrow> loaded_state lib (call_store call sy) = stored_state lib (sy_store sy)"

lemma wa_base_step:
  assumes "wa_lib_ok lib" "text_config cfg" "wa_base lib sy p"
  obtains p' where "wa_base lib (wa_do lib cfg call sy) p'" "alone lib call sy \<longrightarrow> later_state p p'"
    "alone lib call sy \<and> succeeded (wa_do lib cfg call sy) \<and> revokes call \<longrightarrow> ps_SessionEpoch p' = ps_SessionEpoch p + 1"
proof -
  have b: "store_ok (sy_store sy)" "ws_seen (sy_store sy) = None" "\<forall>c\<in>set (sy_cands sy). good_cand lib c"
    "stored_state lib (sy_store sy) = Inr p" "wf_passkeys lib p"
    "\<forall>d\<in>snapshots sy. good_store lib ((sy_store sy)\<lparr>ws_dir := d, ws_seen := None\<rparr>)"
    using assms(3) by (simp_all add: wa_base_def)
  obtain q where q: "store_ok (call_store call sy)" "loaded_state lib (call_store call sy) = Inr q" "wf_passkeys lib q"
    by (rule call_store_good [OF assms(3), of call])
  obtain p' where p': "store_ok (sy_store (wa_do lib cfg call sy))" "ws_cf (sy_store (wa_do lib cfg call sy)) = ws_cf (sy_store sy)"
    "ws_seen (sy_store (wa_do lib cfg call sy)) = None" "stored_state lib (sy_store (wa_do lib cfg call sy)) = Inr p'"
    "p' = p \<or> changes lib cfg sy call q p'" "succeeded (wa_do lib cfg call sy) \<and> revokes call \<longrightarrow> changes lib cfg sy call q p'"
    using wa_do_step [OF assms(1,2) b(1) q(1) b(2,3,4) q(2)] b(4) by (auto simp: store_step_def)
  have now: "good_store lib ((sy_store sy)\<lparr>ws_dir := ws_dir (sy_store sy), ws_seen := None\<rparr>)"
    using b(1,2,4,5) by (simp add: good_store_def store_ok_def)
  have eq: "q = p" if "alone lib call sy" using that q(2) b(4) by (simp add: alone_def)
  show thesis
  proof (rule that)
    have "\<forall>d\<in>snapshots (wa_do lib cfg call sy). good_store lib ((sy_store (wa_do lib cfg call sy))\<lparr>ws_dir := d, ws_seen := None\<rparr>)"
      using snapshots_step [of lib cfg call sy] b(6) now good_store_eq [OF p'(2)] by blast
    then show "wa_base lib (wa_do lib cfg call sy) p'"
      using p' changes_wf [OF _ q(3) b(3) assms(2)] b(5) cands_step [OF assms(3,2)] by (auto simp: wa_base_def)
    show "alone lib call sy \<longrightarrow> later_state p p'" using p'(5) changes_later [OF _ q(3)] later_refl eq by blast
    show "alone lib call sy \<and> succeeded (wa_do lib cfg call sy) \<and> revokes call \<longrightarrow> ps_SessionEpoch p' = ps_SessionEpoch p + 1"
      using p'(6) eq by (auto simp: changes_def revokes_def)
  qed
qed

section \<open>Where tokens, assertions and candidates come from\<close>

text \<open>An entry of the history issued these claims: who began the ceremony, and after which check.\<close>

definition origin :: "wa_entry \<Rightarrow> state_claims \<Rightarrow> bool" where
  "origin e c \<longleftrightarrow> we_ok e \<and>
     (case we_call e of
        RegisterBeginC env t \<Rightarrow> cl_Purpose c = ''register'' \<and> randomBytes (en_rand env 0) 32 = Inr (cl_Challenge c) \<and>
          checkBootstrapToken (en_now env 0) (we_state e) t = Inr () \<and> cl_Expiry c = unix (en_now env 1 + challengeTTL)
      | AuthBeginC env \<Rightarrow> cl_Purpose c = ''authenticate'' \<and> randomBytes (en_rand env 0) 32 = Inr (cl_Challenge c) \<and>
          cl_Expiry c = unix (en_now env 0 + challengeTTL)
      | OpBeginC env b evals \<Rightarrow> cl_Purpose c = ''op-auth'' \<and> randomBytes (en_rand env 0) 32 = Inr (cl_Challenge c) \<and>
          cl_Op c = bi_Op b \<and> cl_Target c = bi_Target b \<and> cl_RequestID c = bi_RequestID b \<and>
          cl_Expiry c = unix (en_now env 0 + challengeTTL)
      | AddBeginC env req \<Rightarrow> cl_Purpose c = ''add-register'' \<and> randomBytes (en_rand env 0) 32 = Inr (cl_Challenge c) \<and>
          cl_RequestID c = req \<and> cl_Expiry c = unix (en_now env 0 + challengeTTL)
      | _ \<Rightarrow> False)"

text \<open>Claims under a secret that is not empty were issued.\<close>

definition begun :: "wa_entry list \<Rightarrow> string \<Rightarrow> state_claims \<Rightarrow> bool" where
  "begun hist secret c \<longleftrightarrow> secret = [] \<or> (\<exists>e\<in>set hist. origin e c)"

definition login_proved :: "wa_lib \<Rightarrow> wa_entry list \<Rightarrow> wa_entry \<Rightarrow> bool" where
  "login_proved lib hist e \<longleftrightarrow> we_ok e \<and>
     (case we_call e of
        AuthFinishC env tok resp \<Rightarrow>
          (\<exists>claims cred a. verifyStateToken lib (en_now env 0) (ps_SessionSecret (we_state e)) tok ''authenticate'' = Inr claims \<and>
             cred \<in> set (ps_Credentials (we_state e)) \<and> verifyAssertion lib (we_cfg e) cred (cl_Challenge claims) resp False = Inr a \<and>
             begun hist (ps_SessionSecret (we_state e)) claims)
      | _ \<Rightarrow> False)"

definition op_proved :: "wa_lib \<Rightarrow> wa_entry list \<Rightarrow> wa_entry \<Rightarrow> wa_assertion \<Rightarrow> bool" where
  "op_proved lib hist e a \<longleftrightarrow> we_ok e \<and>
     (case we_call e of
        OpFinishC env tok b resp \<Rightarrow>
          (\<exists>claims. op_authenticated lib env (we_cfg e) tok b resp (we_state e) claims a \<and> begun hist (ps_SessionSecret (we_state e)) claims)
      | _ \<Rightarrow> False)"

definition add_proved :: "wa_lib \<Rightarrow> wa_entry list \<Rightarrow> wa_entry \<Rightarrow> wa_candidate \<Rightarrow> bool" where
  "add_proved lib hist e c \<longleftrightarrow> we_ok e \<and>
     (case we_call e of
        AddFinishC env tok req resp \<Rightarrow>
          (\<exists>claims. add_attested lib env (we_cfg e) tok req resp (we_state e) claims c \<and> begun hist (ps_SessionSecret (we_state e)) claims)
      | _ \<Rightarrow> False)"

text \<open>A token in the history is that of its own ceremony.\<close>

definition token_known :: "wa_lib \<Rightarrow> wa_entry list \<Rightarrow> wa_entry \<Rightarrow> bool" where
  "token_known lib hist e \<longleftrightarrow> we_token e = [] \<or>
     (\<exists>c. origin e c \<and> text_claims c \<and> we_token e = signToken lib (ps_SessionSecret (we_state e)) (wl_claims lib c)) \<or>
     (\<exists>env tok resp. we_call e = AuthFinishC env tok resp \<and> login_proved lib hist e \<and>
        we_token e = signToken lib (ps_SessionSecret (we_state e)) (wl_session lib (logged_in env (we_state e))))"

definition wa_inv :: "wa_lib \<Rightarrow> wa_sys \<Rightarrow> bool" where
  "wa_inv lib sy \<longleftrightarrow> (\<exists>p. wa_base lib sy p) \<and>
     (\<forall>e\<in>set (sy_hist sy). token_known lib (sy_hist sy) e) \<and>
     (\<forall>a\<in>set (sy_asserts sy). \<exists>e\<in>set (sy_hist sy). op_proved lib (sy_hist sy) e a) \<and>
     (\<forall>c\<in>set (sy_cands sy). \<exists>e\<in>set (sy_hist sy). add_proved lib (sy_hist sy) e c)"

lemma begun_mono: "begun hist s c \<Longrightarrow> begun (hist @ es) s c"
  by (auto simp: begun_def)

lemma proved_mono:
  "login_proved lib hist e \<Longrightarrow> login_proved lib (hist @ es) e"
  "op_proved lib hist e a \<Longrightarrow> op_proved lib (hist @ es) e a"
  "add_proved lib hist e c \<Longrightarrow> add_proved lib (hist @ es) e c"
  "token_known lib hist e \<Longrightarrow> token_known lib (hist @ es) e"
proof -
  show l: "login_proved lib hist e \<Longrightarrow> login_proved lib (hist @ es) e" for e
    by (auto simp: login_proved_def split: wa_call.splits dest: begun_mono)
  show "op_proved lib hist e a \<Longrightarrow> op_proved lib (hist @ es) e a"
    by (auto simp: op_proved_def split: wa_call.splits dest: begun_mono)
  show "add_proved lib hist e c \<Longrightarrow> add_proved lib (hist @ es) e c"
    by (auto simp: add_proved_def split: wa_call.splits dest: begun_mono)
  show "token_known lib hist e \<Longrightarrow> token_known lib (hist @ es) e"
    using l by (auto simp: token_known_def)
qed

lemma verifyToken_Nil: "verifyToken lib s [] \<noteq> Inr payload"
  by (simp add: verifyToken_iff)

lemma ascii_purposes:
  "utf8_valid ''register''" "utf8_valid ''authenticate''" "utf8_valid ''op-auth''" "utf8_valid ''add-register''" "utf8_valid ''session''"
  "utf8_valid []"
  by (simp_all add: utf8_ascii)

lemma verifyStateToken_iff:
  "verifyStateToken lib now secret tok purpose = Inr c \<longleftrightarrow>
     (\<exists>payload. verifyToken lib secret tok = Inr payload \<and> wl_un_claims lib payload = Some c \<and> cl_Purpose c = purpose \<and> unix now \<le> cl_Expiry c)"
  by (auto simp: verifyStateToken_def guard_Inr)

lemma VerifySession_iff:
  "VerifySession lib env st tok = Inr u \<longleftrightarrow>
     (\<exists>p payload c. wa_load lib env st = Inr p \<and> ps_SessionSecret p \<noteq> [] \<and> verifyToken lib (ps_SessionSecret p) tok = Inr payload \<and>
        wl_un_session lib payload = Some c \<and> sn_Purpose c = ''session'' \<and> unix (en_now env 0) \<le> sn_Expiry c \<and>
        sn_Epoch c = ps_SessionEpoch p)"
  by (auto simp: VerifySession_def guard_Inr)

text \<open>A state token that is accepted was issued by the beginning of the same ceremony.\<close>

lemma accepted_begun:
  assumes "wa_lib_ok lib" "\<forall>e\<in>set hist. token_known lib hist e" "p = seen_state lib env (call_store call sy)" "sy_hist sy = hist"
    and "unforged lib call sy" "shown call = Some (env, tok)" "verifyStateToken lib now (ps_SessionSecret p) tok purpose = Inr c"
    and "purpose \<noteq> ''session''"
  shows "begun hist (ps_SessionSecret p) c"
proof (cases "ps_SessionSecret p = []")
  case False
  obtain payload where v: "verifyToken lib (ps_SessionSecret p) tok = Inr payload" "wl_un_claims lib payload = Some c" "cl_Purpose c = purpose"
    using assms(7) by (auto simp: verifyStateToken_iff)
  then have "issued lib hist (ps_SessionSecret p) payload" using assms(3-6) False by (simp add: unforged_def Let_def)
  then obtain e where e: "e \<in> set hist" "we_ok e" "ps_SessionSecret (we_state e) = ps_SessionSecret p"
    "verifyToken lib (ps_SessionSecret p) (we_token e) = Inr payload" by (auto simp: issued_def)
  then consider c0 where "origin e c0" "text_claims c0" "payload = wl_claims lib c0"
    | s where "payload = wl_session lib s" "sn_Purpose s = ''session''"
    using assms(2) verifyToken_Nil by (fastforce simp: token_known_def verify_sign logged_in_def)
  then show ?thesis
  proof cases
    case 1
    then show ?thesis using v(2) assms(1) e(1) by (auto simp: wa_lib_ok_def claims_json_ok_def begun_def)
  next
    case 2
    have "utf8_valid (sn_Purpose s) \<Longrightarrow> cl_Purpose c = sn_Purpose s"
      using v(2) 2(1) assms(1) by (auto simp: wa_lib_ok_def claims_json_ok_def)
    then have "cl_Purpose c = ''session''" using 2(2) ascii_purposes(5) by (simp only:)
    then show ?thesis using v(3) assms(8) by simp
  qed
qed (simp add: begun_def)

section \<open>The invariant\<close>

lemma requestIDRe_text: "requestIDRe s \<Longrightarrow> utf8_valid s"
  by (intro conjunct1 [OF utf8_ascii]) (auto simp: requestIDRe_def byte_class_defs)

lemma Binding_validate_text: "Binding_validate b = Inr u \<Longrightarrow> utf8_valid (bi_Op b) \<and> utf8_valid (bi_RequestID b)"
  by (auto simp: Binding_validate_def op_defs requestIDRe_text utf8_ascii split: if_splits)

lemma seen_Inr: "wa_load lib env st = Inr p \<Longrightarrow> seen_state lib env st = p"
  by (simp add: seen_state_def)

text \<open>The new entry of each beginning is the origin of its token.\<close>

definition new_entry :: "wa_lib \<Rightarrow> wa_config \<Rightarrow> wa_env \<Rightarrow> wa_call \<Rightarrow> (wa_err + 'a) \<times> wa_store \<Rightarrow> ('a \<Rightarrow> string) \<Rightarrow> wa_sys \<Rightarrow> wa_entry" where
  "new_entry lib cfg env call rs tok sy =
     \<lparr>we_cfg = cfg, we_call = call, we_state = seen_state lib env (call_store call sy), we_ok = (\<not> failed (fst rs)),
      we_token = (case fst rs of Inl _ \<Rightarrow> [] | Inr x \<Rightarrow> tok x)\<rparr>"

lemma recorded_hist: "sy_hist (recorded lib cfg env call rs tok sy) = sy_hist sy @ [new_entry lib cfg env call rs tok sy]"
  by (simp add: recorded_def new_entry_def)

lemma begin_entry:
  assumes "call_store call sy = sy_store sy"
    and "\<And>o' tok. r = Inr (o', tok) \<Longrightarrow> \<exists>p c. wa_load lib env (sy_store sy) = Inr p \<and> tok = signToken lib (ps_SessionSecret p) (wl_claims lib c) \<and>
      text_claims c \<and> origin \<lparr>we_cfg = cfg, we_call = call, we_state = p, we_ok = True, we_token = tok\<rparr> c"
  shows "token_known lib hist (new_entry lib cfg env call (r, st) snd sy)"
proof (cases r)
  case (Inr x)
  then obtain o' tok where r: "r = Inr (o', tok)" by (cases x) auto
  from assms(2) [OF r] obtain p c where "wa_load lib env (sy_store sy) = Inr p" "text_claims c"
    "tok = signToken lib (ps_SessionSecret p) (wl_claims lib c)" "origin \<lparr>we_cfg = cfg, we_call = call, we_state = p, we_ok = True, we_token = tok\<rparr> c"
    by blast
  then show ?thesis by (auto simp: token_known_def new_entry_def r seen_Inr assms(1) intro!: exI [of _ c])
qed (simp add: token_known_def new_entry_def)

lemma RegisterBegin_Inr:
  assumes "RegisterBegin lib env cfg st t = Inr (opts, tok)"
  obtains p ch where "wa_load lib env st = Inr p" "checkBootstrapToken (en_now env 0) p t = Inr ()" "randomBytes (en_rand env 0) 32 = Inr ch"
    "tok = signToken lib (ps_SessionSecret p) (wl_claims lib (ceremony_claims ''register'' ch (en_now env 1)))"
  using assms by (auto simp: RegisterBegin_def guard_Inr)

lemma AuthenticateBegin_Inr:
  assumes "AuthenticateBegin lib env cfg st = Inr (opts, tok)"
  obtains p ch where "wa_load lib env st = Inr p" "randomBytes (en_rand env 0) 32 = Inr ch"
    "tok = signToken lib (ps_SessionSecret p) (wl_claims lib (ceremony_claims ''authenticate'' ch (en_now env 0)))"
  using assms by (auto simp: AuthenticateBegin_def guard_Inr)

lemma AddBegin_Inr:
  assumes "AddBegin lib env cfg st req = Inr (opts, tok)"
  obtains p ch salt where "requestIDRe req" "wa_load lib env st = Inr p" "randomBytes (en_rand env 0) 32 = Inr ch"
    "tok = signToken lib (ps_SessionSecret p) (wl_claims lib
       ((ceremony_claims ''add-register'' ch (en_now env 0))\<lparr>cl_RequestID := req, cl_Salt := salt\<rparr>))"
  using assms by (auto simp: AddBegin_def guard_Inr)

lemma OpAuthBegin_Inr:
  assumes "OpAuthBegin lib env cfg st b evals = Inr (opts, tok)"
  obtains p ch al where "Binding_validate b = Inr ()" "wa_load lib env st = Inr p" "randomBytes (en_rand env 0) 32 = Inr ch"
    "tok = signToken lib (ps_SessionSecret p) (wl_claims lib
       ((ceremony_claims ''op-auth'' ch (en_now env 0))\<lparr>cl_Op := bi_Op b, cl_Target := bi_Target b, cl_RequestID := bi_RequestID b,
          cl_Allowed := al, cl_WantPRF := evals \<noteq> []\<rparr>))"
  using assms by (auto simp: OpAuthBegin_def Let_def guard_Inr ceremony_claims_def)

lemma begin_entries:
  "token_known lib hist (new_entry lib cfg env (RegisterBeginC env t) (RegisterBegin lib env cfg (sy_store sy) t, st) snd sy)"
  "token_known lib hist (new_entry lib cfg env (AuthBeginC env) (AuthenticateBegin lib env cfg (sy_store sy), st) snd sy)"
  "token_known lib hist (new_entry lib cfg env (OpBeginC env b evals) (OpAuthBegin lib env cfg (sy_store sy) b evals, st) snd sy)"
  "token_known lib hist (new_entry lib cfg env (AddBeginC env req) (AddBegin lib env cfg (sy_store sy) req, st) snd sy)"
proof -
  note defs = origin_def text_claims_def ascii_purposes ceremony_claims_def
  show "token_known lib hist (new_entry lib cfg env (RegisterBeginC env t) (RegisterBegin lib env cfg (sy_store sy) t, st) snd sy)"
    by (rule begin_entry, simp, erule RegisterBegin_Inr, (rule exI conjI | assumption)+) (simp_all add: defs)
  show "token_known lib hist (new_entry lib cfg env (AuthBeginC env) (AuthenticateBegin lib env cfg (sy_store sy), st) snd sy)"
    by (rule begin_entry, simp, erule AuthenticateBegin_Inr, (rule exI conjI | assumption)+) (simp_all add: defs)
  show "token_known lib hist (new_entry lib cfg env (AddBeginC env req) (AddBegin lib env cfg (sy_store sy) req, st) snd sy)"
    by (rule begin_entry, simp, erule AddBegin_Inr, (rule exI conjI | assumption)+) (simp_all add: defs requestIDRe_text)
  show "token_known lib hist (new_entry lib cfg env (OpBeginC env b evals) (OpAuthBegin lib env cfg (sy_store sy) b evals, st) snd sy)"
    by (rule begin_entry, simp, erule OpAuthBegin_Inr, (rule exI conjI | assumption)+) (use Binding_validate_text in \<open>auto simp: defs\<close>)
qed

lemma shown_begun:
  assumes "wa_lib_ok lib" "wa_inv lib sy" "unforged lib call sy" "shown call = Some (env, tok)"
    and "wa_load lib env (call_store call sy) = Inr p" "verifyStateToken lib now (ps_SessionSecret p) tok purpose = Inr c" "purpose \<noteq> ''session''"
  shows "begun (sy_hist sy) (ps_SessionSecret p) c"
  using accepted_begun [OF assms(1) _ _ refl assms(3,4) _ assms(7), of p now c] assms(2,5,6)
  by (simp add: wa_inv_def seen_Inr)

lemma new_entry_simps [simp]:
  "we_call (new_entry lib cfg env call rs tok sy) = call" "we_state (new_entry lib cfg env call rs tok sy) = seen_state lib env (call_store call sy)"
  "we_cfg (new_entry lib cfg env call rs tok sy) = cfg"
  "we_ok (new_entry lib cfg env call rs tok sy) = (\<not> failed (fst rs))"
  by (simp_all add: new_entry_def)

lemma no_token: "token_known lib hist (new_entry lib cfg env call rs (\<lambda>_. []) sy)"
  by (simp add: token_known_def new_entry_def split: sum.split)

lemma login_entry:
  assumes "wa_lib_ok lib" "wa_inv lib sy" "unforged lib call sy" "call = AuthFinishC env tok resp"
  shows "token_known lib (sy_hist sy) (new_entry lib cfg env call (AuthenticateFinish lib env cfg tok resp (call_store call sy)) (\<lambda>t. t) sy)"
proof (cases "fst (AuthenticateFinish lib env cfg tok resp (call_store call sy))")
  case (Inr t)
  have st: "store_ok (call_store call sy)" using assms(2) call_store_good by (auto simp: wa_inv_def)
  obtain p claims cid cred a where p: "wa_load lib env (call_store call sy) = Inr p"
    "verifyStateToken lib (en_now env 0) (ps_SessionSecret p) tok ''authenticate'' = Inr claims"
    "passkey p cid = Some cred" "verifyAssertion lib cfg cred (cl_Challenge claims) resp False = Inr a"
    "t = signToken lib (ps_SessionSecret p) (wl_session lib (logged_in env p))"
    using ends_outcome(4) [OF AuthenticateFinish_effect [OF assms(1) st] Inr] by blast
  have "begun (sy_hist sy) (ps_SessionSecret p) claims"
    by (rule shown_begun [OF assms(1-3) _ p(1,2)]) (simp_all add: assms(4))
  then show ?thesis using p Inr passkey_Some [OF p(3)]
    by (auto simp: token_known_def login_proved_def new_entry_def seen_Inr assms(4))
qed (simp add: token_known_def new_entry_def)

lemma op_entry:
  assumes "wa_lib_ok lib" "wa_inv lib sy" "unforged lib call sy" "call = OpFinishC env tok b resp"
    and "a \<in> set (given (OpAuthFinish lib env cfg tok b resp (call_store call sy)))"
  shows "op_proved lib (sy_hist sy) (new_entry lib cfg env call (OpAuthFinish lib env cfg tok b resp (call_store call sy)) (\<lambda>_. []) sy) a"
proof -
  have st: "store_ok (call_store call sy)" using assms(2) call_store_good by (auto simp: wa_inv_def)
  have r: "fst (OpAuthFinish lib env cfg tok b resp (call_store call sy)) = Inr a" using assms(5) by (auto simp: given_def split: sum.splits)
  obtain p claims where p: "wa_load lib env (call_store call sy) = Inr p" "op_authenticated lib env cfg tok b resp p claims a"
    using ends_outcome(4) [OF OpAuthFinish_effect [OF assms(1) st] r] by blast
  have "begun (sy_hist sy) (ps_SessionSecret p) claims"
    by (rule shown_begun [OF assms(1-3) _ p(1), where purpose = "''op-auth''" and now = "en_now env 0" and tok = tok])
      (use p(2) in \<open>simp_all add: op_authenticated_def assms(4)\<close>)
  then show ?thesis using p r by (auto simp: op_proved_def seen_Inr assms(4))
qed

lemma add_entry:
  assumes "wa_lib_ok lib" "wa_inv lib sy" "unforged lib call sy" "call = AddFinishC env tok req resp"
    and "c \<in> set (given (AddFinish lib env cfg tok req resp (call_store call sy)))"
  shows "add_proved lib (sy_hist sy) (new_entry lib cfg env call (AddFinish lib env cfg tok req resp (call_store call sy)) (\<lambda>_. []) sy) c"
proof -
  have st: "store_ok (call_store call sy)" using assms(2) call_store_good by (auto simp: wa_inv_def)
  have r: "fst (AddFinish lib env cfg tok req resp (call_store call sy)) = Inr c" using assms(5) by (auto simp: given_def split: sum.splits)
  obtain p claims where p: "wa_load lib env (call_store call sy) = Inr p" "add_attested lib env cfg tok req resp p claims c"
    using ends_outcome(4) [OF AddFinish_effect [OF st] r] by blast
  have "begun (sy_hist sy) (ps_SessionSecret p) claims"
    by (rule shown_begun [OF assms(1-3) _ p(1), where purpose = "''add-register''" and now = "en_now env 0" and tok = tok])
      (use p(2) in \<open>simp_all add: add_attested_def assms(4)\<close>)
  then show ?thesis using p r by (auto simp: add_proved_def seen_Inr assms(4))
qed

text \<open>A call keeps the invariant when what it adds has it.\<close>

lemma wa_inv_extend:
  assumes "wa_inv lib sy" "sy_hist sy' = sy_hist sy @ es" "wa_base lib sy' p'"
    and "\<forall>e\<in>set es. token_known lib (sy_hist sy) e"
    and "\<forall>a\<in>set (sy_asserts sy'). a \<in> set (sy_asserts sy) \<or> (\<exists>e\<in>set es. op_proved lib (sy_hist sy) e a)"
    and "\<forall>c\<in>set (sy_cands sy'). c \<in> set (sy_cands sy) \<or> (\<exists>e\<in>set es. add_proved lib (sy_hist sy) e c)"
  shows "wa_inv lib sy'"
  unfolding wa_inv_def
proof (intro conjI ballI)
  show "\<exists>p. wa_base lib sy' p" using assms(3) by blast
  show "token_known lib (sy_hist sy') e" if "e \<in> set (sy_hist sy')" for e
    using that assms(1,2,4) proved_mono(4) by (fastforce simp: wa_inv_def)
  show "\<exists>e\<in>set (sy_hist sy'). op_proved lib (sy_hist sy') e a" if "a \<in> set (sy_asserts sy')" for a
    using that assms(1,2,5) proved_mono(2) by (fastforce simp: wa_inv_def)
  show "\<exists>e\<in>set (sy_hist sy'). add_proved lib (sy_hist sy') e c" if "c \<in> set (sy_cands sy')" for c
    using that assms(1,2,6) proved_mono(3) by (fastforce simp: wa_inv_def)
qed

lemma wa_inv_recorded:
  assumes "wa_inv lib sy" "wa_base lib (recorded lib cfg env call rs tok sy) p'"
    and "token_known lib (sy_hist sy) (new_entry lib cfg env call rs tok sy)"
  shows "wa_inv lib (recorded lib cfg env call rs tok sy)"
  by (rule wa_inv_extend [OF assms(1) recorded_hist assms(2)]) (use assms in auto)

lemma wa_inv_step:
  assumes "wa_lib_ok lib" "text_config cfg" "wa_inv lib sy" "unforged lib call sy"
  shows "wa_inv lib (wa_do lib cfg call sy)"
proof -
  obtain p where p: "wa_base lib sy p" using assms(3) by (auto simp: wa_inv_def)
  obtain p' where p': "wa_base lib (wa_do lib cfg call sy) p'" by (rule wa_base_step [OF assms(1,2) p, of call])
  note ext = wa_inv_extend [OF assms(3) _ p']
  show ?thesis
  proof (cases call)
    case (WipeC i j)
    have "op_proved lib hist e (Wipe_assertion a) = op_proved lib hist e a"
      "add_proved lib hist e (Wipe_candidate c) = add_proved lib hist e c" for hist e a c
      by (simp_all add: op_proved_def op_authenticated_def Wipe_assertion_def add_proved_def add_attested_def Wipe_candidate_def
          split: wa_call.split)
    then show ?thesis using assms(3) p' by (fastforce simp: wa_inv_def WipeC elim!: wiped_mem)
  next
    case (AuthFinishC env tok resp)
    then show ?thesis using login_entry [OF assms(1,3,4), of env tok resp cfg]
      by (intro ext) (auto simp: recorded_hist)
  next
    case (OpFinishC env tok b resp)
    then show ?thesis using op_entry [OF assms(1,3,4), of env tok b resp _ cfg]
      by (intro ext) (auto simp: recorded_hist no_token Let_def)
  next
    case (AddFinishC env tok req resp)
    then show ?thesis using add_entry [OF assms(1,3,4), of env tok req resp _ cfg]
      by (intro ext) (auto simp: recorded_hist no_token Let_def)
  next
    case RestartC
    then show ?thesis by (intro ext) (auto simp: token_known_def)
  next
    case TokenC
    then show ?thesis by (intro ext) auto
  next
    case LockC
    then show ?thesis by (intro ext) auto
  qed (use p' in \<open>simp_all add: wa_inv_recorded [OF assms(3)] no_token begin_entries\<close>)
qed

lemma wa_inv_start: "NewStore sd (empty_dir b) = Inr st \<Longrightarrow> wa_inv lib (start_sys st)"
  using NewSized_inv [of sd maxStateValue _ b]
  by (auto simp: NewStore_def wa_inv_def wa_base_def start_sys_def store_ok_def stored_state_def on_file_NotFound empty_dir_def
      wf_passkeys_def zero_state_def snapshots_def split: sum.splits)

lemma wa_inv_reachable:
  assumes "wa_lib_ok lib" "wa_reachable lib sy"
  shows "wa_inv lib sy"
  using assms(2) by (induction rule: wa_reachable.induct) (simp_all add: wa_inv_start wa_inv_step [OF assms(1)])

end
