(* ===== verification/Webauthn_Example.thy ===== *)
theory Webauthn_Example
  imports Webauthn_Trace
begin

text \<open>
  One history of the ceremonies, with simple functions for the libraries: a token is issued, a passkey is registered, it logs in and
  unlocks. It shows that what the properties assume can hold.
\<close>

section \<open>Libraries\<close>

text \<open>Fields are base64 between dots.\<close>

definition demo_pack :: "string list \<Rightarrow> string" where
  "demo_pack xs = join ''.'' (map b64_encode xs)"

definition demo_unpack :: "string \<Rightarrow> string list option" where
  "demo_unpack s = those (map b64_decode (split (CHR ''.'') s))"

definition demo_int :: "int \<Rightarrow> string" where
  "demo_int i = (if i < 0 then CHR ''-'' else CHR ''+'') # nat_be (nat \<bar>i\<bar>)"

definition demo_un_int :: "string \<Rightarrow> int" where
  "demo_un_int s = (if hd s = CHR ''-'' then - int (be_nat (tl s)) else int (be_nat (tl s)))"

definition demo_claims :: "state_claims \<Rightarrow> string" where
  "demo_claims c = demo_pack (''c'' # cl_Purpose c # cl_Challenge c # demo_int (cl_Expiry c) # cl_Op c # cl_Target c # cl_RequestID c
     # (if cl_WantPRF c then ''1'' else ''0'') # cl_Salt c # cl_Allowed c)"

definition demo_un_claims :: "string \<Rightarrow> state_claims option" where
  "demo_un_claims s = Option.bind (demo_unpack s) (\<lambda>xs.
     if length xs < 9 \<or> xs ! 0 \<noteq> ''c'' then None
     else Some \<lparr>cl_Purpose = xs ! 1, cl_Challenge = xs ! 2, cl_Expiry = demo_un_int (xs ! 3), cl_Op = xs ! 4, cl_Target = xs ! 5,
                cl_RequestID = xs ! 6, cl_Allowed = drop 9 xs, cl_WantPRF = (xs ! 7 = ''1''), cl_Salt = xs ! 8\<rparr>)"

definition demo_session :: "session_claims \<Rightarrow> string" where
  "demo_session c = demo_pack [''s'', sn_Purpose c, demo_int (sn_Expiry c), demo_int (sn_Epoch c)]"

definition demo_un_session :: "string \<Rightarrow> session_claims option" where
  "demo_un_session s = Option.bind (demo_unpack s) (\<lambda>xs.
     if length xs \<noteq> 4 \<or> xs ! 0 \<noteq> ''s'' then None
     else Some \<lparr>sn_Purpose = xs ! 1, sn_Expiry = demo_un_int (xs ! 2), sn_Epoch = demo_un_int (xs ! 3)\<rparr>)"

definition demo_cred :: "stored_credential \<Rightarrow> string" where
  "demo_cred c = demo_pack [sc_ID c, sc_PublicKeyX c, sc_PublicKeyY c, demo_int (int (sc_SignCount c)), sc_RPID c, sc_Label c, demo_int (sc_CreatedAt c)]"

definition demo_un_cred :: "string \<Rightarrow> stored_credential option" where
  "demo_un_cred s = Option.bind (demo_unpack s) (\<lambda>xs.
     if length xs \<noteq> 7 \<or> \<not> utf8_valid (xs ! 4) then None
     else Some \<lparr>sc_ID = xs ! 0, sc_PublicKeyX = xs ! 1, sc_PublicKeyY = xs ! 2, sc_SignCount = nat (demo_un_int (xs ! 3)), sc_RPID = xs ! 4,
                sc_Label = xs ! 5, sc_CreatedAt = demo_un_int (xs ! 6)\<rparr>)"

definition demo_state :: "persisted_state \<Rightarrow> string" where
  "demo_state p = demo_pack (ps_SessionSecret p # ps_BootstrapToken p # demo_int (ps_BootstrapExpiry p) # demo_int (ps_SessionEpoch p)
     # map demo_cred (ps_Credentials p))"

definition demo_un_state :: "string \<Rightarrow> persisted_state option" where
  "demo_un_state s = Option.bind (demo_unpack s) (\<lambda>xs.
     if length xs < 4 then None
     else Option.bind (those (map demo_un_cred (drop 4 xs))) (\<lambda>cs.
     Some \<lparr>ps_Credential = None, ps_Credentials = cs, ps_SessionSecret = xs ! 0, ps_BootstrapToken = xs ! 1,
           ps_BootstrapExpiry = demo_un_int (xs ! 2), ps_SessionEpoch = demo_un_int (xs ! 3)\<rparr>))"

definition demo_lib :: wa_lib where
  "demo_lib = \<lparr>wl_hmac = (\<lambda>s x. s @ x), wl_sha256 = (\<lambda>_. replicate 32 CHR ''h''), wl_verify = (\<lambda>_ _ _. True), wl_on_curve = (\<lambda>_ _. True),
     wl_url = (\<lambda>_. None),
     wl_client_data = (\<lambda>s. map_option (\<lambda>xs. \<lparr>cd_Type = xs ! 0, cd_Challenge = b64_encode (xs ! 1), cd_Origin = xs ! 2\<rparr>) (demo_unpack s)),
     wl_att_object = (\<lambda>s. Some \<lparr>ao_Fmt = ''none'', ao_AuthData = s\<rparr>), wl_first = (\<lambda>s. Some (take 1 s, drop 1 s)), wl_ext = (\<lambda>_. None),
     wl_cose = (\<lambda>_. Some \<lparr>ck_Kty = 2, ck_Alg = - 7, ck_Crv = 1, ck_X = replicate 32 CHR 0x00, ck_Y = replicate 32 CHR 0x00\<rparr>),
     wl_claims = demo_claims, wl_un_claims = demo_un_claims, wl_session = demo_session, wl_un_session = demo_un_session,
     wl_state = demo_state, wl_un_state = demo_un_state\<rparr>"

lemma demo_lib_simps [simp]:
  "wl_sha256 demo_lib s = replicate 32 CHR ''h''" "wl_verify demo_lib k m x" "wl_on_curve demo_lib a b"
  "wl_client_data demo_lib s = map_option (\<lambda>xs. \<lparr>cd_Type = xs ! 0, cd_Challenge = b64_encode (xs ! 1), cd_Origin = xs ! 2\<rparr>) (demo_unpack s)"
  "wl_att_object demo_lib s = Some \<lparr>ao_Fmt = ''none'', ao_AuthData = s\<rparr>" "wl_first demo_lib s = Some (take 1 s, drop 1 s)"
  "wl_cose demo_lib s = Some \<lparr>ck_Kty = 2, ck_Alg = - 7, ck_Crv = 1, ck_X = replicate 32 CHR 0x00, ck_Y = replicate 32 CHR 0x00\<rparr>"
  "wl_claims demo_lib = demo_claims" "wl_un_claims demo_lib = demo_un_claims" "wl_session demo_lib = demo_session"
  "wl_un_session demo_lib = demo_un_session" "wl_state demo_lib = demo_state" "wl_un_state demo_lib = demo_un_state"
  by (simp_all add: demo_lib_def)

section \<open>What is assumed of them holds\<close>

lemma those_map: "\<forall>x\<in>set xs. f (g x) = Some x \<Longrightarrow> those (map f (map g xs)) = Some xs"
  by (induction xs) simp_all

lemma those_SomeD: "those xs = Some ys \<Longrightarrow> \<forall>y\<in>set ys. Some y \<in> set xs"
  by (induction xs arbitrary: ys) (auto split: option.splits)

lemma demo_unpack_pack [simp]:
  assumes "xs \<noteq> []"
  shows "demo_unpack (demo_pack xs) = Some xs"
proof -
  have "split (CHR ''.'') (join ''.'' (map b64_encode xs)) = map b64_encode xs"
    by (rule split_join) (use assms b64_no_dot in auto)
  moreover have "those (map b64_decode (map b64_encode xs)) = Some xs" by (rule those_map) simp
  ultimately show ?thesis by (simp only: demo_unpack_def demo_pack_def)
qed

lemma demo_int_inverse [simp]: "demo_un_int (demo_int i) = i"
  by (simp add: demo_un_int_def demo_int_def)

lemma demo_inverses [simp]:
  "demo_un_claims (demo_claims c) = Some c" "demo_un_session (demo_session s) = Some s"
  "demo_un_claims (demo_session s) = None" "demo_un_session (demo_claims c) = None"
  "utf8_valid (sc_RPID k) \<Longrightarrow> demo_un_cred (demo_cred k) = Some k"
  by (simp_all add: demo_un_claims_def demo_claims_def demo_un_session_def demo_session_def demo_un_cred_def demo_cred_def)

lemma demo_state_inverse [simp]:
  assumes "text_state p"
  shows "demo_un_state (demo_state p) = Some p"
proof -
  have "those (map demo_un_cred (map demo_cred (ps_Credentials p))) = Some (ps_Credentials p)"
    by (rule those_map) (use assms in \<open>simp add: text_state_def\<close>)
  then show ?thesis using assms by (simp add: demo_un_state_def demo_state_def text_state_def)
qed

lemma demo_un_cred_text: "demo_un_cred s = Some k \<Longrightarrow> utf8_valid (sc_RPID k)"
  by (auto simp: demo_un_cred_def bind_eq_Some_conv split: if_splits)

lemma demo_un_creds_text: "those (map demo_un_cred xs) = Some cs \<Longrightarrow> c \<in> set cs \<Longrightarrow> utf8_valid (sc_RPID c)"
  using those_SomeD demo_un_cred_text by fastforce

lemma demo_un_state_text: "demo_un_state s = Some p \<Longrightarrow> text_state (migrated p)"
  by (auto simp: demo_un_state_def bind_eq_Some_conv migrated_def text_state_def split: if_splits intro: demo_un_creds_text)

lemma demo_lib_ok: "wa_lib_ok demo_lib"
  by (auto simp: wa_lib_ok_def state_json_ok_def claims_json_ok_def demo_un_state_text)

section \<open>The store\<close>

definition demo_env :: "char \<Rightarrow> wa_env" where
  "demo_env r = \<lparr>en_load = (\<lambda>_. (False, calm_read)), en_save = calm_save, en_rand = (\<lambda>_. Some (\<lambda>_. r)), en_now = (\<lambda>_. 0)\<rparr>"

definition demo_cs :: cred_store where
  "demo_cs = \<lparr>cs_dir = ''/s/credentials'', cs_maxValue = maxStateValue, cs_maxFile = fileLimit maxStateValue\<rparr>"

definition demo_empty :: wa_store where
  "demo_empty = \<lparr>ws_cf = demo_cs, ws_dir = empty_dir False, ws_used = Map.empty, ws_seen = None\<rparr>"

definition demo_store :: "persisted_state \<Rightarrow> (string \<rightharpoonup> int) \<Rightarrow> wa_store" where
  "demo_store p u = \<lparr>ws_cf = demo_cs, ws_dir = \<lparr>cd_exists = True, cd_files = [stateName \<mapsto> demo_state p @ [CHR 0x0A]]\<rparr>, ws_used = u,
     ws_seen = None\<rparr>"

definition storable :: "persisted_state \<Rightarrow> bool" where
  "storable p \<longleftrightarrow> valid_state p \<and> checkValue_cred (demo_state p) maxStateValue = Inr ()"

lemma demo_env_simps [simp]:
  "en_load (demo_env r) = (\<lambda>_. (False, calm_read))" "en_save (demo_env r) = calm_save" "en_now (demo_env r) i = 0"
  "randomBytes (en_rand (demo_env r) i) n = Inr (replicate n r)"
  by (simp_all add: demo_env_def randomBytes_def map_replicate_const)

lemma demo_store_simps [simp]:
  "ws_used (demo_store p u) = u" "(demo_store p u)\<lparr>ws_used := v\<rparr> = demo_store p v" "ws_used demo_empty = Map.empty"
  "ws_seen (demo_store p u) = None" "ws_seen demo_empty = None" "(demo_store p u)\<lparr>ws_seen := None\<rparr> = demo_store p u"
  "demo_empty\<lparr>ws_seen := None\<rparr> = demo_empty"
  by (simp_all add: demo_store_def demo_empty_def)

lemma demo_name: "nameRE stateName" "IsLocal stateName" "CHR ''/'' \<notin> set stateName"
  unfolding stateName_def by code_simp+

lemma NewStore_demo: "NewStore ''/s'' (empty_dir False) = Inr demo_empty"
proof -
  have "NewSized ''/s'' maxStateValue = Inr demo_cs" unfolding demo_cs_def maxStateValue_def fileLimit_def by code_simp
  then show ?thesis by (simp add: NewStore_def demo_empty_def)
qed

lemma demo_dir_inv: "dir_inv (demo_cs, empty_dir False)" "dir_inv (demo_cs, \<lparr>cd_exists = True, cd_files = f\<rparr>)"
  by (simp_all add: dir_inv_def demo_cs_def empty_dir_def maxStateValue_def)

lemma load_demo_empty [simp]: "wa_load lib (demo_env r) demo_empty = Inr zero_state"
proof -
  have "credfile_Token demo_cs (load_attempts (demo_env r) (empty_dir False)) stateName = Inl CfNotFound"
    by (subst calm_Token [OF demo_dir_inv(1) demo_name]) (simp_all add: load_attempts_def on_file_NotFound empty_dir_def)
  then show ?thesis by (simp add: wa_load_def demo_empty_def)
qed

lemma load_demo_store [simp]:
  assumes "storable p"
  shows "wa_load demo_lib (demo_env r) (demo_store p u) = Inr p"
proof -
  let ?d = "\<lparr>cd_exists = True, cd_files = [stateName \<mapsto> demo_state p @ [CHR 0x0A]]\<rparr>"
  have c: "checkValue_cred (demo_state p) (cs_maxValue demo_cs) = Inr ()" using assms by (simp add: storable_def demo_cs_def)
  have "on_file demo_cs ?d stateName = Inr (New_secret (demo_state p))"
    using read_value_saved [OF c] by (simp add: on_file_def demo_cs_def)
  then have "credfile_Token demo_cs (load_attempts (demo_env r) ?d) stateName = Inr (New_secret (demo_state p))"
    by (subst calm_Token [OF demo_dir_inv(2) demo_name]) (simp_all add: load_attempts_def)
  moreover have "decode_state demo_lib (New_secret (demo_state p)) = Inr p"
    using decode_state_encoded [OF demo_lib_ok] assms by (simp add: storable_def)
  ultimately show ?thesis by (simp add: wa_load_def demo_store_def)
qed

lemma save_demo:
  assumes "storable p" "ws_cf st = demo_cs" "\<forall>n. n \<noteq> stateName \<longrightarrow> cd_files (ws_dir st) n = None"
  shows "wa_save demo_lib (demo_env r) p st = (Inr (), (demo_store p (ws_used st))\<lparr>ws_seen := ws_seen st\<rparr>)"
proof -
  have c: "checkValue_cred (Reveal (New_secret (demo_state p))) (cs_maxValue demo_cs) = Inr ()"
    using assms(1) by (simp add: storable_def demo_cs_def Reveal_def New_secret_def)
  have "(cd_files (ws_dir st))(stateName \<mapsto> x) = [stateName \<mapsto> x]" for x using assms(3) by auto
  then have "credfile_Save demo_cs calm_save stateName (New_secret (demo_state p)) (ws_dir st) =
      (Inr (), \<lparr>cd_exists = True, cd_files = [stateName \<mapsto> demo_state p @ [CHR 0x0A]]\<rparr>)"
    using calm_Save [OF demo_name(1) c, of "ws_dir st"] by (simp add: Reveal_def New_secret_def)
  then show ?thesis using assms(2) by (simp add: wa_save_def demo_store_def)
qed

lemma save_demo_store [simp]: "storable p \<Longrightarrow> wa_save demo_lib (demo_env r) p (demo_store q u) = (Inr (), demo_store p u)"
  by (subst save_demo) (simp_all add: demo_store_def)

lemma save_demo_empty [simp]: "storable p \<Longrightarrow> wa_save demo_lib (demo_env r) p demo_empty = (Inr (), demo_store p Map.empty)"
  by (subst save_demo) (simp_all add: demo_empty_def empty_dir_def)

text \<open>What is small enough to be stored.\<close>

lemma length_b64: "length (b64_encode s) \<le> 2 * length s"
  by (induction s rule: b64_encode.induct) simp_all

lemma length_pack: "length (demo_pack xs) \<le> (\<Sum>x\<leftarrow>xs. 2 * length x + 1)"
proof (induction xs)
  case (Cons x xs)
  then show ?case using length_b64 [of x] by (cases xs) (auto simp: demo_pack_def)
qed (simp add: demo_pack_def)

lemma pack_printable: "c \<in> set (demo_pack xs) \<Longrightarrow> printable c"
proof (induction xs)
  case (Cons x xs)
  then show ?case using b64_text_encode [of x]
    by (cases xs) (fastforce simp: demo_pack_def b64_text_def printable_def)+
qed (simp add: demo_pack_def)

lemma storable_small:
  assumes "valid_state p" "length (demo_state p) \<le> 16384"
  shows "storable p"
proof -
  have "demo_state p \<noteq> []" by (simp add: demo_state_def demo_pack_def)
  then show ?thesis using assms pack_printable
    by (auto simp: storable_def maxStateValue_def demo_state_def)
qed

section \<open>Responses\<close>

definition demo_cfg :: wa_config where
  "demo_cfg = \<lparr>wc_RPID = ''r'', wc_RPName = [], wc_Origin = ''o''\<rparr>"

definition demo_auth :: "char \<Rightarrow> string \<Rightarrow> string" where
  "demo_auth flags rest = replicate 32 CHR ''h'' @ [flags] @ replicate 4 CHR 0x00 @ rest"

definition demo_id :: string where "demo_id = ''c''"

definition demo_created :: string where
  "demo_created = demo_auth CHR 0x45 (replicate 16 CHR 0x00 @ [CHR 0x00, CHR 0x01] @ demo_id @ ''k'')"

definition demo_got :: string where "demo_got = demo_auth CHR 0x05 []"

definition demo_reg :: "string \<Rightarrow> attestation_response" where
  "demo_reg ch = \<lparr>ar_ID = b64_encode demo_id, ar_ClientDataJSON = b64_encode (demo_pack [''webauthn.create'', ch, ''o'']),
     ar_AttestationObject = b64_encode demo_created, ar_PRF = None\<rparr>"

definition demo_resp :: "string \<Rightarrow> assertion_response" where
  "demo_resp ch = \<lparr>as_ID = b64_encode demo_id, as_ClientDataJSON = b64_encode (demo_pack [''webauthn.get'', ch, ''o'']),
     as_AuthenticatorData = b64_encode demo_got, as_Signature = [], as_PRF = None\<rparr>"

definition demo_passkey :: stored_credential where
  "demo_passkey = \<lparr>sc_ID = demo_id, sc_PublicKeyX = [], sc_PublicKeyY = [], sc_SignCount = 0, sc_RPID = ''r'', sc_Label = [], sc_CreatedAt = 0\<rparr>"

lemma be_nat_zero [simp]: "be_nat (replicate n CHR 0x00) = 0"
  by (induction n) (simp_all add: be_nat_def)

lemma nat_be_zero [simp]: "nat_be 0 = []"
  by (simp add: nat_be.simps)

lemma b64_decode_Nil [simp]: "b64_decode [] = Some []"
  by (simp add: b64_decode_def)

lemma demo_id_length: "length demo_id = 1" "demo_id \<noteq> []"
  by (simp_all add: demo_id_def)

lemma demo_attested:
  "verifyAttestation demo_lib demo_cfg ch (demo_reg ch) uv = Inr \<lparr>at_cred = demo_passkey, at_prfEnabled = False, at_prf = None\<rparr>"
proof -
  have a: "parseAuthenticatorData demo_lib demo_created =
    Inr \<lparr>ad_RPIDHash = replicate 32 CHR ''h'', ad_Flags = 69, ad_SignCount = 0, ad_CredentialID = demo_id, ad_CredentialPublicKey = ''k'', ad_Extensions = []\<rparr>"
    by (simp add: parseAuthenticatorData_def demo_created_def demo_got_def demo_id_def demo_auth_def Let_def has_flag_def flag_defs parse_attested_def nth_append) (simp add: be_nat_def)
  show ?thesis
    by (simp add: verifyAttestation_def demo_reg_def a verifyClientData_def decoded_def demo_cfg_def checkRPIDHash_def UserPresent_def UserVerified_def
        has_flag_def flag_defs maxCredentialIDBytes_def parseCOSEPublicKey_def prfFirst_def demo_passkey_def demo_id_length del: bindR_Inr_iff)
qed

lemma demo_asserted:
  "verifyAssertion demo_lib demo_cfg demo_passkey ch (demo_resp ch) uv =
     Inr \<lparr>ad_RPIDHash = replicate 32 CHR ''h'', ad_Flags = 5, ad_SignCount = 0, ad_CredentialID = [], ad_CredentialPublicKey = [], ad_Extensions = []\<rparr>"
proof -
  have a: "parseAuthenticatorData demo_lib demo_got =
    Inr \<lparr>ad_RPIDHash = replicate 32 CHR ''h'', ad_Flags = 5, ad_SignCount = 0, ad_CredentialID = [], ad_CredentialPublicKey = [], ad_Extensions = []\<rparr>"
    by (simp add: parseAuthenticatorData_def demo_created_def demo_got_def demo_id_def demo_auth_def Let_def has_flag_def flag_defs nth_append)
  show ?thesis
    by (simp add: verifyAssertion_def demo_resp_def a verifyClientData_def decoded_def demo_cfg_def demo_passkey_def checkRPIDHash_def UserPresent_def
        UserVerified_def has_flag_def flag_defs Let_def verifyES256_def demo_id_length del: bindR_Inr_iff)
qed

section \<open>Registration and login\<close>

definition demo_key :: string where "demo_key = replicate 32 CHR ''a''"

text \<open>The state after the bootstrap token was issued, after registration, after a logout, and after another token was issued.\<close>

definition demo_p1 :: persisted_state where
  "demo_p1 = zero_state\<lparr>ps_SessionSecret := demo_key, ps_BootstrapToken := demo_key, ps_BootstrapExpiry := 0\<rparr>"

definition demo_p2 :: persisted_state where
  "demo_p2 = zero_state\<lparr>ps_SessionSecret := demo_key, ps_Credentials := [demo_passkey]\<rparr>"

definition demo_p3 :: persisted_state where
  "demo_p3 = demo_p2\<lparr>ps_SessionEpoch := 1\<rparr>"

definition demo_p4 :: persisted_state where
  "demo_p4 = demo_p2\<lparr>ps_BootstrapToken := demo_key, ps_BootstrapExpiry := 0\<rparr>"

lemmas demo_states = demo_p1_def demo_p2_def demo_p3_def demo_p4_def zero_state_def

lemma demo_key_simps: "length demo_key = 32" "demo_key \<noteq> []"
  by (simp_all add: demo_key_def)

lemma demo_int_lengths: "length (demo_int 0) = 1" "length (demo_int 1) = 2"
  by (simp_all add: demo_int_def) (simp add: nat_be.simps)

lemma demo_cred_length: "length (demo_cred demo_passkey) \<le> 20"
  using length_pack [of "[demo_id, [], [], demo_int 0, ''r'', [], demo_int 0]"]
  by (simp add: demo_cred_def demo_passkey_def demo_int_lengths demo_id_length)

lemma demo_valid: "valid_state demo_p1" "valid_state demo_p2" "valid_state demo_p3" "valid_state demo_p4"
  by (simp_all add: demo_states valid_state_def text_state_def demo_passkey_def utf8_ascii maxCredentials_def)

lemma demo_storable [simp]: "storable demo_p1" "storable demo_p2" "storable demo_p3" "storable demo_p4"
proof -
  have "length (demo_state demo_p1) \<le> 16384" "length (demo_state demo_p2) \<le> 16384" "length (demo_state demo_p3) \<le> 16384"
    "length (demo_state demo_p4) \<le> 16384"
    unfolding demo_state_def by (rule order_trans [OF length_pack], use demo_cred_length in \<open>simp add: demo_states demo_key_simps demo_int_lengths\<close>)+
  then show "storable demo_p1" "storable demo_p2" "storable demo_p3" "storable demo_p4" using storable_small demo_valid by blast+
qed

abbreviation demo_e :: wa_env where "demo_e \<equiv> demo_env CHR ''a''"

definition demo_token :: "state_claims \<Rightarrow> string" where
  "demo_token c = signToken demo_lib demo_key (demo_claims c)"

definition demo_session_token :: string where
  "demo_session_token = signToken demo_lib demo_key (demo_session (logged_in demo_e demo_p2))"

lemma demo_accepts:
  assumes "cl_Expiry c \<ge> 0" "cl_Purpose c = purpose"
  shows "verifyStateToken demo_lib 0 demo_key (demo_token c) purpose = Inr c"
  unfolding verifyStateToken_iff by (rule exI [of _ "demo_claims c"]) (use assms in \<open>simp add: demo_token_def verify_sign unix_def\<close>)

lemma ceremony_claims_simps [simp]:
  "cl_Purpose (ceremony_claims pu ch now) = pu" "cl_Challenge (ceremony_claims pu ch now) = ch"
  "cl_Expiry (ceremony_claims pu ch 0) = 120"
  by (simp_all add: ceremony_claims_def unix_def challengeTTL_def)

lemma demo_state_simps [simp]:
  "ps_SessionSecret demo_p1 = demo_key" "ps_SessionSecret demo_p2 = demo_key" "ps_Credentials demo_p1 = []"
  "ps_Credentials demo_p2 = [demo_passkey]" "passkey demo_p2 demo_id = Some demo_passkey" "ps_SessionEpoch demo_p2 = 0"
  by (simp_all add: demo_states passkey_def demo_passkey_def)

definition demo_t2 :: string where "demo_t2 = demo_token (ceremony_claims ''register'' demo_key 0)"
definition demo_t4 :: string where "demo_t4 = demo_token (ceremony_claims ''authenticate'' demo_key 0)"

lemma demo_issue: "IssueBootstrapToken demo_lib demo_e 0 demo_empty = (Inr (b64_encode demo_key), demo_store demo_p1 Map.empty)"
proof -
  have "ensureSessionSecret (en_rand demo_e 1) zero_state = Inr (zero_state\<lparr>ps_SessionSecret := demo_key\<rparr>)"
    by (simp add: ensureSessionSecret_def demo_key_def zero_state_def)
  moreover have "zero_state\<lparr>ps_SessionSecret := demo_key, ps_BootstrapToken := demo_key, ps_BootstrapExpiry := unix (0 + 0)\<rparr> = demo_p1"
    by (simp add: demo_p1_def unix_def)
  ultimately show ?thesis
    by (simp add: IssueBootstrapToken_def tryS_def demo_key_def [symmetric])
qed

lemma demo_register_begin:
  "\<exists>opts. RegisterBegin demo_lib demo_e demo_cfg (demo_store demo_p1 u) (b64_encode demo_key) = Inr (opts, demo_t2)"
proof -
  have "checkBootstrapToken 0 demo_p1 (b64_encode demo_key) = Inr ()"
    by (simp add: checkBootstrapToken_def demo_p1_def demo_key_simps unix_def)
  then show ?thesis
    by (simp add: RegisterBegin_def demo_key_def [symmetric] demo_t2_def demo_token_def del: bindR_Inr_iff)
qed

lemma demo_register_finish:
  "RegisterFinish demo_lib demo_e demo_cfg demo_t2 (demo_reg demo_key) (demo_store demo_p1 u) = (Inr (), demo_store demo_p2 u)"
proof -
  have "demo_p1\<lparr>ps_Credentials := [demo_passkey\<lparr>sc_CreatedAt := unix 0\<rparr>], ps_BootstrapToken := [], ps_BootstrapExpiry := 0\<rparr> = demo_p2"
    by (simp add: demo_states demo_passkey_def unix_def)
  then show ?thesis
    by (simp add: RegisterFinish_def tryS_def demo_t2_def demo_accepts demo_attested)
qed

lemma demo_login_begin: "\<exists>opts. AuthenticateBegin demo_lib demo_e demo_cfg (demo_store demo_p2 u) = Inr (opts, demo_t4)"
  by (simp add: AuthenticateBegin_def demo_key_def [symmetric] demo_t4_def demo_token_def del: bindR_Inr_iff)

lemma demo_login_finish:
  "AuthenticateFinish demo_lib demo_e demo_cfg demo_t4 (demo_resp demo_key) (demo_store demo_p2 u) = (Inr demo_session_token, demo_store demo_p2 u)"
  by (simp add: AuthenticateFinish_def tryS_def demo_t4_def demo_accepts demo_asserted decoded_def demo_resp_def [of demo_key, THEN arg_cong [of _ _ as_ID]]
      demo_session_token_def logged_in_def Let_def)

lemma demo_session_valid: "VerifySession demo_lib demo_e (demo_store demo_p2 u) demo_session_token = Inr ()"
  unfolding VerifySession_iff
  by (rule exI [of _ demo_p2]) (simp add: demo_key_simps demo_session_token_def verify_sign logged_in_def unix_def SessionTTL_def)

lemma demo_session_kept: "VerifySession demo_lib demo_e (demo_store demo_p4 u) demo_session_token = Inr ()"
proof -
  have "ps_SessionSecret demo_p4 = demo_key" "ps_SessionEpoch demo_p4 = 0" by (simp_all add: demo_p4_def)
  then show ?thesis unfolding VerifySession_iff
    by (intro exI [of _ demo_p4]) (simp add: demo_key_simps demo_session_token_def verify_sign logged_in_def unix_def SessionTTL_def)
qed

text \<open>A process of the token command that has loaded the state before a logout, and saves after it.\<close>

lemma demo_issue_stale:
  "IssueBootstrapToken demo_lib demo_e 0 ((demo_store demo_p3 u)\<lparr>ws_seen := Some (ws_dir (demo_store demo_p2 v))\<rparr>) =
     (Inr (b64_encode demo_key), (demo_store demo_p3 u)\<lparr>ws_seen := Some (ws_dir (demo_store demo_p2 v)), ws_dir := ws_dir (demo_store demo_p4 u)\<rparr>)"
proof -
  let ?st = "(demo_store demo_p3 u)\<lparr>ws_seen := Some (ws_dir (demo_store demo_p2 v))\<rparr>"
  have "wa_load demo_lib demo_e ?st = wa_load demo_lib demo_e (demo_store demo_p2 v)"
    by (simp add: wa_load_def) (simp add: demo_store_def)
  then have l: "wa_load demo_lib demo_e ?st = Inr demo_p2" by simp
  have e: "ensureSessionSecret r demo_p2 = Inr demo_p2" for r
    by (simp add: ensureSessionSecret_def demo_key_simps)
  have p: "demo_p2\<lparr>ps_BootstrapToken := demo_key, ps_BootstrapExpiry := unix (0 + 0)\<rparr> = demo_p4"
    by (simp add: demo_p4_def unix_def)
  have s: "wa_save demo_lib demo_e demo_p4 ?st = (Inr (), ?st\<lparr>ws_dir := ws_dir (demo_store demo_p4 u)\<rparr>)"
    by (subst save_demo) (simp_all add: demo_store_def)
  show ?thesis
    using p by (simp add: IssueBootstrapToken_def tryS_def demo_key_def [symmetric] l e s)
qed

lemma demo_logout: "Logout demo_lib demo_e (demo_store demo_p2 u) = (Inr (), demo_store demo_p3 u)"
proof -
  have "demo_p2\<lparr>ps_SessionEpoch := 1\<rparr> = demo_p3" by (simp add: demo_p3_def)
  then show ?thesis by (simp add: Logout_def tryS_def)
qed

section \<open>The history\<close>

definition demo_entry :: "wa_call \<Rightarrow> persisted_state \<Rightarrow> string \<Rightarrow> wa_entry" where
  "demo_entry call p tok = \<lparr>we_cfg = demo_cfg, we_call = call, we_state = p, we_ok = True, we_token = tok\<rparr>"

definition demo_sys :: "persisted_state \<Rightarrow> (string \<rightharpoonup> int) \<Rightarrow> wa_assertion list \<Rightarrow> wa_entry list \<Rightarrow> wa_sys" where
  "demo_sys p u asserts hist = \<lparr>sy_store = demo_store p u, sy_seen = None, sy_cli = [], sy_asserts = asserts, sy_cands = [], sy_hist = hist\<rparr>"

lemma demo_sys_simps [simp]:
  "sy_store (demo_sys p u asserts hist) = demo_store p u" "sy_hist (demo_sys p u asserts hist) = hist"
  "sy_asserts (demo_sys p u asserts hist) = asserts" "call_store call (demo_sys p u asserts hist) = demo_store p u"
  by (simp_all add: demo_sys_def call_store_at_once)

definition demo_issued :: "wa_entry list" where
  "demo_issued = [demo_entry (IssueC demo_e 0 0) zero_state []]"

definition demo_begun :: "wa_entry list" where
  "demo_begun = demo_issued @ [demo_entry (RegisterBeginC demo_e (b64_encode demo_key)) demo_p1 demo_t2]"

definition demo_registered :: "wa_entry list" where
  "demo_registered = demo_begun @ [demo_entry (RegisterFinishC demo_e demo_t2 (demo_reg demo_key)) demo_p1 []]"

definition demo_login :: "wa_entry list" where
  "demo_login = demo_registered @ [demo_entry (AuthBeginC demo_e) demo_p2 demo_t4]"

definition demo_logged_in :: "wa_entry list" where
  "demo_logged_in = demo_login @ [demo_entry (AuthFinishC demo_e demo_t4 (demo_resp demo_key)) demo_p2 demo_session_token]"

lemma demo_recorded:
  assumes "storable p"
  shows "recorded demo_lib demo_cfg (demo_env r) call (Inr x, demo_store p' u') tok (demo_sys p u xs h) =
    demo_sys p' u' xs (h @ [demo_entry call p (tok x)])"
proof -
  have c: "sy_cli (recorded demo_lib demo_cfg (demo_env r) call (Inr x, demo_store p' u') tok (demo_sys p u xs h)) = []"
    by (simp add: demo_sys_def split: wa_call.split)
  show ?thesis
    by (rule wa_sys.equality) (use assms c in \<open>simp_all add: seen_Inr\<close>, simp_all add: demo_sys_def recorded_def demo_entry_def seen_Inr assms
      call_store_at_once)
qed

lemma demo_do_issue: "wa_do demo_lib demo_cfg (IssueC demo_e 0 0) (start_sys demo_empty) = demo_sys demo_p1 Map.empty [] demo_issued"
  by (simp add: call_store_def at_index_def without_def recorded_def start_sys_def demo_issue seen_Inr demo_sys_def demo_issued_def demo_entry_def)

lemma demo_do_begin:
  "wa_do demo_lib demo_cfg (RegisterBeginC demo_e (b64_encode demo_key)) (demo_sys demo_p1 u xs h) =
     demo_sys demo_p1 u xs (h @ [demo_entry (RegisterBeginC demo_e (b64_encode demo_key)) demo_p1 demo_t2])"
  using demo_register_begin [of u] by (auto simp: demo_recorded)

lemma demo_do_finish:
  "wa_do demo_lib demo_cfg (RegisterFinishC demo_e demo_t2 (demo_reg demo_key)) (demo_sys demo_p1 u xs h) =
     demo_sys demo_p2 u xs (h @ [demo_entry (RegisterFinishC demo_e demo_t2 (demo_reg demo_key)) demo_p1 []])"
  by (simp add: demo_recorded demo_register_finish)

lemma demo_do_login_begin:
  "wa_do demo_lib demo_cfg (AuthBeginC demo_e) (demo_sys demo_p2 u xs h) = demo_sys demo_p2 u xs (h @ [demo_entry (AuthBeginC demo_e) demo_p2 demo_t4])"
  using demo_login_begin [of u] by (auto simp: demo_recorded)

lemma demo_do_login_finish:
  "wa_do demo_lib demo_cfg (AuthFinishC demo_e demo_t4 (demo_resp demo_key)) (demo_sys demo_p2 u xs h) =
     demo_sys demo_p2 u xs (h @ [demo_entry (AuthFinishC demo_e demo_t4 (demo_resp demo_key)) demo_p2 demo_session_token])"
  by (simp add: demo_recorded demo_login_finish)

lemma demo_do_logout:
  "wa_do demo_lib demo_cfg (LogoutC demo_e) (demo_sys demo_p2 u xs h) = demo_sys demo_p3 u xs (h @ [demo_entry (LogoutC demo_e) demo_p2 []])"
  by (simp add: demo_recorded demo_logout)

lemma demo_cfg_text: "text_config demo_cfg"
  by (simp add: demo_cfg_def text_config_def utf8_ascii)

text \<open>A token that an entry of the history returned was issued.\<close>

lemma demo_unforged:
  assumes "shown call = Some (demo_env r, tok)" "storable p" "ps_SessionSecret p = demo_key" "\<exists>e\<in>set h. we_ok e \<and> ps_SessionSecret (we_state e) = demo_key \<and> we_token e = tok"
  shows "unforged demo_lib call (demo_sys p u xs h)"
proof (cases "verifyToken demo_lib demo_key tok")
  case (Inr payload)
  then have "issued demo_lib h demo_key payload" using assms(4) by (auto simp: issued_def)
  then show ?thesis using assms(1-3) Inr by (simp add: unforged_def seen_Inr)
qed (use assms(1-3) in \<open>simp add: unforged_def seen_Inr\<close>)

lemma demo_reach_begun: "wa_reachable demo_lib (demo_sys demo_p1 Map.empty [] demo_begun)"
proof -
  have "wa_reachable demo_lib (start_sys demo_empty)" by (rule wa_reachable.start [OF NewStore_demo])
  then have "wa_reachable demo_lib (demo_sys demo_p1 Map.empty [] demo_issued)"
    unfolding demo_do_issue [symmetric] by (rule wa_reachable.step [OF _ demo_cfg_text]) (simp_all add: unforged_def)
  then show ?thesis
    unfolding demo_begun_def demo_do_begin [symmetric] by (rule wa_reachable.step [OF _ demo_cfg_text]) (simp_all add: unforged_def)
qed

lemma demo_finish_unforged:
  "unforged demo_lib (RegisterFinishC demo_e demo_t2 (demo_reg demo_key)) (demo_sys demo_p1 Map.empty [] demo_begun)"
  by (rule demo_unforged [where r = "CHR ''a''" and tok = demo_t2]) (simp_all add: demo_begun_def demo_entry_def)

lemma demo_reach_registered: "wa_reachable demo_lib (demo_sys demo_p2 Map.empty [] demo_registered)"
  unfolding demo_registered_def demo_do_finish [symmetric] by (rule wa_reachable.step [OF demo_reach_begun demo_cfg_text demo_finish_unforged])

lemma demo_reach_logged_in: "wa_reachable demo_lib (demo_sys demo_p2 Map.empty [] demo_logged_in)"
proof -
  have "wa_reachable demo_lib (demo_sys demo_p2 Map.empty [] demo_login)"
    unfolding demo_login_def demo_do_login_begin [symmetric]
    by (rule wa_reachable.step [OF demo_reach_registered demo_cfg_text]) (simp add: unforged_def)
  then show ?thesis
    unfolding demo_logged_in_def demo_do_login_finish [symmetric]
  proof (rule wa_reachable.step [OF _ demo_cfg_text])
    show "unforged demo_lib (AuthFinishC demo_e demo_t4 (demo_resp demo_key)) (demo_sys demo_p2 Map.empty [] demo_login)"
      by (rule demo_unforged [where r = "CHR ''a''" and tok = demo_t4]) (simp_all add: demo_login_def demo_entry_def)
  qed
qed

lemma demo_verify_unforged: "unforged demo_lib (VerifyC demo_e demo_session_token) (demo_sys demo_p2 Map.empty [] demo_logged_in)"
  by (rule demo_unforged [where r = "CHR ''a''" and tok = demo_session_token]) (simp_all add: demo_logged_in_def demo_entry_def)

section \<open>An operation\<close>

definition demo_unlock :: binding where
  "demo_unlock = \<lparr>bi_Op = OpUnlock, bi_Target = [], bi_RequestID = ''q''\<rparr>"

definition demo_op_claims :: "char \<Rightarrow> state_claims" where
  "demo_op_claims r = \<lparr>cl_Purpose = ''op-auth'', cl_Challenge = replicate 32 r, cl_Expiry = 120, cl_Op = OpUnlock, cl_Target = [],
     cl_RequestID = ''q'', cl_Allowed = [demo_id], cl_WantPRF = False, cl_Salt = []\<rparr>"

definition demo_unlocked :: wa_assertion where
  "demo_unlocked = \<lparr>an_CredentialID = demo_id, an_PRF = None, an_cred = demo_id, an_op = OpUnlock, an_target = [], an_requestID = ''q'', an_at = 0\<rparr>"

definition demo_used :: "char \<Rightarrow> (string \<rightharpoonup> int) \<Rightarrow> (string \<rightharpoonup> int)" where
  "demo_used r u = (\<lambda>k. case u k of None \<Rightarrow> None | Some e \<Rightarrow> if e < unix 0 then None else Some e)(b64_encode (replicate 32 r) \<mapsto> 120)"

lemma demo_unlock_valid: "Binding_validate demo_unlock = Inr ()" "checkOpTarget p (bi_Op demo_unlock) (bi_Target demo_unlock) = Inr ()"
  by (simp_all add: Binding_validate_def demo_unlock_def op_defs requestIDRe_def byte_class_defs checkOpTarget_def)

lemma demo_op_begin:
  "\<exists>opts. OpAuthBegin demo_lib (demo_env r) demo_cfg (demo_store demo_p2 u) demo_unlock [] = Inr (opts, demo_token (demo_op_claims r))"
proof -
  have b: "bi_Op demo_unlock = OpUnlock" "bi_Target demo_unlock = []" "bi_RequestID demo_unlock = ''q''" "OpUnlock \<noteq> OpRemoveCredential"
    by (simp_all add: demo_unlock_def op_defs)
  show ?thesis
    by (simp add: OpAuthBegin_def demo_unlock_valid demo_unlock_valid(2) [unfolded b] b descriptors_def Let_def demo_op_claims_def demo_token_def unix_def
        challengeTTL_def demo_passkey_def del: bindR_Inr_iff)
qed

lemma demo_op_finish:
  assumes "u (b64_encode (replicate 32 r)) = None"
  shows "OpAuthFinish demo_lib (demo_env x) demo_cfg (demo_token (demo_op_claims r)) demo_unlock (demo_resp (replicate 32 r)) (demo_store demo_p2 u) =
    (Inr demo_unlocked, demo_store demo_p2 (demo_used r u))"
proof -
  have v: "verifyStateToken demo_lib 0 demo_key (demo_token (demo_op_claims r)) ''op-auth'' = Inr (demo_op_claims r)"
    by (rule demo_accepts) (simp_all add: demo_op_claims_def)
  have c: "consume 0 (b64_encode (replicate 32 r)) 120 u = (True, demo_used r u)"
    using assms by (simp add: consume_def demo_used_def Let_def)
  have f: "cl_Challenge (demo_op_claims r) = replicate 32 r" "cl_Expiry (demo_op_claims r) = 120" "cl_Allowed (demo_op_claims r) = [demo_id]"
    "cl_WantPRF (demo_op_claims r) = False" "cl_Op (demo_op_claims r) = OpUnlock" "cl_Target (demo_op_claims r) = []"
    "cl_RequestID (demo_op_claims r) = ''q''"
    by (simp_all add: demo_op_claims_def)
  have d: "decoded (as_ID (demo_resp ch)) = Inr demo_id" for ch by (simp add: demo_resp_def)
  show ?thesis
    by (simp add: OpAuthFinish_def tryS_def demo_unlock_valid v f c d demo_asserted containsID_def Let_def demo_unlocked_def)
      (simp add: Binding_equal_def demo_unlock_def)
qed

text \<open>A passkey unlocks, and a second challenge is given out.\<close>

abbreviation demo_e2 :: wa_env where "demo_e2 \<equiv> demo_env CHR ''b''"

definition demo_asked :: "wa_entry list" where
  "demo_asked = demo_registered @ [demo_entry (OpBeginC demo_e demo_unlock []) demo_p2 (demo_token (demo_op_claims CHR ''a''))]"

definition demo_answer :: wa_entry where
  "demo_answer = demo_entry (OpFinishC demo_e (demo_token (demo_op_claims CHR ''a'')) demo_unlock (demo_resp (replicate 32 CHR ''a''))) demo_p2 []"

definition demo_again :: wa_entry where
  "demo_again = demo_entry (OpBeginC demo_e2 demo_unlock []) demo_p2 (demo_token (demo_op_claims CHR ''b''))"

lemma demo_do_op_begin:
  "wa_do demo_lib demo_cfg (OpBeginC (demo_env r) demo_unlock []) (demo_sys demo_p2 u xs h) =
     demo_sys demo_p2 u xs (h @ [demo_entry (OpBeginC (demo_env r) demo_unlock []) demo_p2 (demo_token (demo_op_claims r))])"
  using demo_op_begin [of r u] by (auto simp: demo_recorded)

lemma demo_do_op_finish:
  "wa_do demo_lib demo_cfg (OpFinishC demo_e (demo_token (demo_op_claims CHR ''a'')) demo_unlock (demo_resp (replicate 32 CHR ''a'')))
     (demo_sys demo_p2 Map.empty [] h) = demo_sys demo_p2 (demo_used CHR ''a'' Map.empty) [demo_unlocked] (h @ [demo_answer])"
  by (simp add: demo_recorded demo_op_finish demo_answer_def given_def) (simp add: demo_sys_def)

lemma demo_reach_again:
  "wa_reachable demo_lib (demo_sys demo_p2 (demo_used CHR ''a'' Map.empty) [demo_unlocked] (demo_asked @ demo_answer # [demo_again]))"
proof -
  have "wa_reachable demo_lib (demo_sys demo_p2 Map.empty [] demo_asked)"
    unfolding demo_asked_def demo_do_op_begin [symmetric]
    by (rule wa_reachable.step [OF demo_reach_registered demo_cfg_text]) (simp add: unforged_def)
  then have "wa_reachable demo_lib (demo_sys demo_p2 (demo_used CHR ''a'' Map.empty) [demo_unlocked] (demo_asked @ [demo_answer]))"
    unfolding demo_do_op_finish [symmetric]
  proof (rule wa_reachable.step [OF _ demo_cfg_text])
    show "unforged demo_lib (OpFinishC demo_e (demo_token (demo_op_claims CHR ''a'')) demo_unlock (demo_resp (replicate 32 CHR ''a'')))
        (demo_sys demo_p2 Map.empty [] demo_asked)"
      by (rule demo_unforged [where r = "CHR ''a''" and tok = "demo_token (demo_op_claims CHR ''a'')"]) (simp_all add: demo_asked_def demo_entry_def)
  qed
  then have "wa_reachable demo_lib (demo_sys demo_p2 (demo_used CHR ''a'' Map.empty) [demo_unlocked] ((demo_asked @ [demo_answer]) @ [demo_again]))"
    unfolding demo_again_def demo_do_op_begin [symmetric] by (rule wa_reachable.step [OF _ demo_cfg_text]) (simp_all add: unforged_def)
  then show ?thesis by simp
qed

text \<open>What is stored in the example.\<close>


lemma demo_stored:
  assumes "storable p"
  shows "stored_state demo_lib (demo_store p u) = Inr p"
proof -
  have "store_ok (demo_store p u)" using demo_dir_inv(2) by (simp add: store_ok_def demo_store_def)
  then have "loaded_state demo_lib (demo_store p u) = Inr p"
    by (rule load_loaded [where env = demo_e]) (use assms in simp)
  then show ?thesis by (simp add: loaded_stored)
qed

end
