(* ===== verification/Webauthn_Properties.thy ===== *)
theory Webauthn_Properties
  imports Webauthn_Example
begin

text \<open>
  What the ceremonies guarantee over every history of calls: who may change the passkeys, what a session rests on and
  when it ends, and that a response is accepted once.
\<close>

section \<open>Definitions and lemmas\<close>

text \<open>The passkeys without their signature counters.\<close>

definition keys :: "persisted_state \<Rightarrow> stored_credential list" where
  "keys p = map (\<lambda>c. c\<lparr>sc_SignCount := 0\<rparr>) (ps_Credentials p)"

text \<open>An earlier registration was begun with a challenge by someone who showed the valid bootstrap token.\<close>

definition bootstrapped :: "wa_entry list \<Rightarrow> string \<Rightarrow> bool" where
  "bootstrapped hist ch \<longleftrightarrow>
     (\<exists>e\<in>set hist. \<exists>env t. we_ok e \<and> we_call e = RegisterBeginC env t \<and>
        checkBootstrapToken (en_now env 0) (we_state e) t = Inr () \<and> randomBytes (en_rand env 0) 32 = Inr ch)"

text \<open>
  A passkey that is still registered, other than the target, signed with user verification, within the last two minutes, for this
  operation on this target, a challenge that was issued for it.
\<close>

definition vouched :: "wa_lib \<Rightarrow> wa_entry list \<Rightarrow> persisted_state \<Rightarrow> string \<Rightarrow> string \<Rightarrow> int \<Rightarrow> bool" where
  "vouched lib hist p op target now \<longleftrightarrow>
     (\<exists>e\<in>set hist. \<exists>env tok b resp ch cred ad. we_ok e \<and> we_call e = OpFinishC env tok b resp \<and> bi_Op b = op \<and> bi_Target b = target \<and>
        now - en_now env 2 \<le> challengeTTL \<and> cred \<in> set (ps_Credentials (we_state e)) \<and> sc_ID cred \<noteq> target \<and>
        passkey p (sc_ID cred) \<noteq> None \<and> verifyAssertion lib (we_cfg e) cred ch resp True = Inr ad \<and>
        (ps_SessionSecret (we_state e) = [] \<or>
         (\<exists>e0\<in>set hist. \<exists>env0 evals. we_ok e0 \<and> we_call e0 = OpBeginC env0 b evals \<and> randomBytes (en_rand env0 0) 32 = Inr ch)))"

text \<open>A call that may change the passkeys from those of \<open>q\<close> to those of \<open>p'\<close>: a first registration, an addition, a removal.\<close>

definition authorised :: "wa_lib \<Rightarrow> wa_config \<Rightarrow> wa_entry list \<Rightarrow> wa_call \<Rightarrow> persisted_state \<Rightarrow> persisted_state \<Rightarrow> bool" where
  "authorised lib cfg hist call q p' \<longleftrightarrow>
     (\<exists>env tok resp ch att. call = RegisterFinishC env tok resp \<and> ps_Credentials q = [] \<and>
        verifyAttestation lib cfg ch resp False = Inr att \<and> map sc_ID (ps_Credentials p') = [sc_ID (at_cred att)] \<and>
        (ps_SessionSecret q = [] \<or> bootstrapped hist ch)) \<or>
     (\<exists>env i j label c. call = CommitC env i j label \<and> ps_Credentials p' = ps_Credentials q @ [c] \<and> passkey q (sc_ID c) = None \<and>
        vouched lib hist q OpAddCredential (sc_ID c) (en_now env 0)) \<or>
     (\<exists>env target j. call = RemoveC env target j \<and> ps_Credentials p' = filter (\<lambda>c. sc_ID c \<noteq> target) (ps_Credentials q) \<and>
        ps_Credentials p' \<noteq> [] \<and> ps_SessionEpoch p' = ps_SessionEpoch q + 1 \<and>
        vouched lib hist q OpRemoveCredential target (en_now env 0))"

lemma keys_counted: "keys (counted p cid n) = keys p"
proof -
  have "map (\<lambda>c. c\<lparr>sc_SignCount := 0\<rparr>) (set_sign_count cid n cs) = map (\<lambda>c. c\<lparr>sc_SignCount := 0\<rparr>) cs" for cs :: "stored_credential list"
    by (induction cs) simp_all
  then show ?thesis by (simp add: keys_def counted_def)
qed

lemma origin_register:
  assumes "origin e c" "cl_Purpose c = ''register''"
  shows "\<exists>env t. we_ok e \<and> we_call e = RegisterBeginC env t \<and> checkBootstrapToken (en_now env 0) (we_state e) t = Inr () \<and>
    randomBytes (en_rand env 0) 32 = Inr (cl_Challenge c)"
  using assms by (cases "we_call e") (simp_all add: origin_def)

lemma origin_login:
  assumes "origin e c" "cl_Purpose c = ''authenticate''"
  shows "\<exists>env. we_ok e \<and> we_call e = AuthBeginC env \<and> randomBytes (en_rand env 0) 32 = Inr (cl_Challenge c)"
  using assms by (cases "we_call e") (simp_all add: origin_def)

lemma origin_op:
  assumes "origin e c" "cl_Purpose c = ''op-auth''" "Binding_equal b (cl_Op c) (cl_Target c) (cl_RequestID c)"
  shows "\<exists>env evals. we_ok e \<and> we_call e = OpBeginC env b evals \<and> randomBytes (en_rand env 0) 32 = Inr (cl_Challenge c)"
  using assms by (cases "we_call e") (simp_all add: origin_def Binding_equal_def)

lemma begun_bootstrapped:
  "begun hist s c \<Longrightarrow> s \<noteq> [] \<Longrightarrow> cl_Purpose c = ''register'' \<Longrightarrow> bootstrapped hist (cl_Challenge c)"
  using origin_register by (fastforce simp: begun_def bootstrapped_def)

lemma begun_op:
  assumes "begun hist s c" "s \<noteq> []" "cl_Purpose c = ''op-auth''" "Binding_equal b (cl_Op c) (cl_Target c) (cl_RequestID c)"
  shows "\<exists>e0\<in>set hist. \<exists>env0 evals. we_ok e0 \<and> we_call e0 = OpBeginC env0 b evals \<and> randomBytes (en_rand env0 0) 32 = Inr (cl_Challenge c)"
  using assms origin_op unfolding begun_def by blast

lemma proved_vouched:
  assumes "op_proved lib hist e a" "e \<in> set hist" "passkey p (an_cred a) \<noteq> None" "now - an_at a \<le> challengeTTL"
    and "an_op a = OpRemoveCredential \<Longrightarrow> an_cred a \<noteq> an_target a" "an_op a = OpAddCredential \<or> an_op a = OpRemoveCredential"
  shows "vouched lib hist p (an_op a) (an_target a) now"
proof -
  obtain env tok b resp claims where e: "we_ok e" "we_call e = OpFinishC env tok b resp"
    "op_authenticated lib env (we_cfg e) tok b resp (we_state e) claims a" "begun hist (ps_SessionSecret (we_state e)) claims"
    using assms(1) by (auto simp: op_proved_def split: wa_call.splits)
  obtain cred ad where c: "passkey (we_state e) (an_cred a) = Some cred" "verifyAssertion lib (we_cfg e) cred (cl_Challenge claims) resp True = Inr ad"
    and b: "Binding_equal b (cl_Op claims) (cl_Target claims) (cl_RequestID claims)" "cl_Purpose claims = ''op-auth''"
      "checkOpTarget (we_state e) (bi_Op b) (bi_Target b) = Inr ()" "an_op a = bi_Op b" "an_target a = bi_Target b" "an_at a = en_now env 2"
    using e(3) by (auto simp: op_authenticated_def verifyStateToken_iff)
  note m = passkey_Some [OF c(1)]
  have "sc_ID cred \<noteq> bi_Target b"
    using assms(5,6) b(3-5) m c(1) by (auto simp: checkOpTarget_def op_defs split: if_splits)
  moreover have "ps_SessionSecret (we_state e) = [] \<or>
      (\<exists>e0\<in>set hist. \<exists>env0 evals. we_ok e0 \<and> we_call e0 = OpBeginC env0 b evals \<and> randomBytes (en_rand env0 0) 32 = Inr (cl_Challenge claims))"
    using begun_op [OF e(4) _ b(2,1)] by blast
  ultimately show ?thesis
    unfolding vouched_def using assms(2-4) e(1,2) c(2) b(4-6) m
    by (intro bexI [of _ e]) (auto intro!: exI)
qed

lemma assertion_vouched:
  assumes "wa_inv lib sy" "a \<in> set (sy_asserts sy)" "passkey p (an_cred a) \<noteq> None" "now - an_at a \<le> challengeTTL"
    and "an_op a = OpRemoveCredential \<Longrightarrow> an_cred a \<noteq> an_target a" "an_op a = OpAddCredential \<or> an_op a = OpRemoveCredential"
  shows "vouched lib (sy_hist sy) p (an_op a) (an_target a) now"
proof -
  obtain e where "e \<in> set (sy_hist sy)" "op_proved lib (sy_hist sy) e a" using assms(1,2) by (auto simp: wa_inv_def)
  then show ?thesis using proved_vouched assms(3-6) by blast
qed

subsection \<open>Sessions\<close>

lemma verifyToken_payload:
  "verifyToken lib s tok = Inr payload \<Longrightarrow> verifyToken lib s' tok = Inr payload' \<Longrightarrow> payload' = payload"
  unfolding verifyToken_iff by (metis append_sep_inject option.inject)

text \<open>Calls one after the other, each with its configuration.\<close>

primrec run_calls :: "wa_lib \<Rightarrow> (wa_config \<times> wa_call) list \<Rightarrow> wa_sys \<Rightarrow> wa_sys" where
  "run_calls lib [] sy = sy"
| "run_calls lib (c # cs) sy = run_calls lib cs (wa_do lib (fst c) (snd c) sy)"

text \<open>No process of the command writes between the loading and the saving of another call, nor the other way round.\<close>

primrec run_alone :: "wa_lib \<Rightarrow> (wa_config \<times> wa_call) list \<Rightarrow> wa_sys \<Rightarrow> bool" where
  "run_alone lib [] sy = True"
| "run_alone lib (c # cs) sy = (alone lib (snd c) sy \<and> run_alone lib cs (wa_do lib (fst c) (snd c) sy))"

lemma run_calls_append: "run_calls lib (xs @ ys) sy = run_calls lib ys (run_calls lib xs sy)"
  by (induction xs arbitrary: sy) simp_all

lemma run_alone_append: "run_alone lib (xs @ ys) sy \<longleftrightarrow> run_alone lib xs sy \<and> run_alone lib ys (run_calls lib xs sy)"
  by (induction xs arbitrary: sy) auto

lemma wa_base_run:
  assumes "wa_lib_ok lib" "wa_base lib sy p" "\<forall>c\<in>set calls. text_config (fst c)" "run_alone lib calls sy"
  shows "\<exists>p'. wa_base lib (run_calls lib calls sy) p' \<and> later_state p p'"
  using assms(2-4)
proof (induction calls arbitrary: sy p)
  case (Cons c calls)
  have cfg: "text_config (fst c)" using Cons.prems(2) by simp
  obtain p1 where p1: "wa_base lib (wa_do lib (fst c) (snd c) sy) p1" "alone lib (snd c) sy \<longrightarrow> later_state p p1"
    by (rule wa_base_step [OF assms(1) cfg Cons.prems(1), of "snd c"])
  obtain p2 where "wa_base lib (run_calls lib calls (wa_do lib (fst c) (snd c) sy)) p2" "later_state p1 p2"
    using Cons.IH [OF p1(1)] Cons.prems(2,3) by auto
  then show ?case using later_trans [of p p1 p2] p1(2) Cons.prems(3) by auto
qed (auto intro: later_refl)

lemma reachable_base:
  assumes "wa_lib_ok lib" "wa_reachable lib sy"
  obtains p where "wa_base lib sy p"
  using wa_inv_reachable [OF assms] by (auto simp: wa_inv_def)

text \<open>What the state is after a call, given the one that the call loaded.\<close>

lemma wa_step_changes:
  assumes "wa_lib_ok lib" "text_config cfg" "wa_base lib sy p"
  obtains q p' where "loaded_state lib (call_store call sy) = Inr q" "wf_passkeys lib q"
    "stored_state lib (sy_store (wa_do lib cfg call sy)) = Inr p'" "p' = p \<or> changes lib cfg sy call q p'"
    "ws_cf (sy_store (wa_do lib cfg call sy)) = ws_cf (sy_store sy)"
proof -
  have b: "store_ok (sy_store sy)" "ws_seen (sy_store sy) = None" "\<forall>c\<in>set (sy_cands sy). good_cand lib c"
    "stored_state lib (sy_store sy) = Inr p"
    using assms(3) by (simp_all add: wa_base_def)
  obtain q where q: "store_ok (call_store call sy)" "loaded_state lib (call_store call sy) = Inr q" "wf_passkeys lib q"
    by (rule call_store_good [OF assms(3), of call])
  show thesis
    using wa_do_step [OF assms(1,2) b(1) q(1) b(2,3,4) q(2)] b(4) that [OF q(2,3)] by (auto simp: store_step_def)
qed

text \<open>While a call of the server holds the mutex, only processes of the command write.\<close>

definition is_token_command :: "wa_call \<Rightarrow> bool" where
  "is_token_command call \<longleftrightarrow> (\<exists>env ttl i. call = IssueC env ttl i)"

definition mutex_inv :: "wa_lib \<Rightarrow> wa_sys \<Rightarrow> bool" where
  "mutex_inv lib sy \<longleftrightarrow>
     (\<forall>d n. sy_seen sy = Some (d, n) \<longrightarrow> n \<le> length (sy_hist sy) \<and>
        (stored_state lib ((sy_store sy)\<lparr>ws_dir := d\<rparr>) = stored_state lib (sy_store sy) \<or>
         (\<exists>e\<in>set (drop n (sy_hist sy)). is_token_command (we_call e))))"

lemma stored_state_cong: "ws_cf st = ws_cf st' \<Longrightarrow> stored_state lib (st\<lparr>ws_dir := d\<rparr>) = stored_state lib (st'\<lparr>ws_dir := d\<rparr>)"
  by (simp add: stored_state_def)

lemma seen_step:
  assumes "sy_seen (wa_do lib cfg call sy) = Some x" "call \<noteq> LockC"
  shows "sy_seen sy = Some x" "\<not> takes_lock call" "call \<noteq> RestartC"
  using assms by (cases call; simp add: Let_def)+

lemma hist_step: "\<exists>es. sy_hist (wa_do lib cfg call sy) = sy_hist sy @ es \<and> (is_token_command call \<longrightarrow> (\<exists>e\<in>set es. we_call e = call))"
  by (cases call) (simp_all add: recorded_hist is_token_command_def Let_def)

lemma mutex_inv_step:
  assumes "wa_lib_ok lib" "text_config cfg" "wa_base lib sy p" "mutex_inv lib sy"
  shows "mutex_inv lib (wa_do lib cfg call sy)"
proof (cases "call = LockC")
  case True
  then show ?thesis using assms(4) by (auto simp: mutex_inv_def split: option.splits)
next
  case False
  let ?sy = "wa_do lib cfg call sy"
  show ?thesis unfolding mutex_inv_def
  proof (intro allI impI)
    fix d n
    assume seen: "sy_seen ?sy = Some (d, n)"
    note old = seen_step [OF seen False]
    obtain es where h: "sy_hist ?sy = sy_hist sy @ es" "is_token_command call \<longrightarrow> (\<exists>e\<in>set es. we_call e = call)"
      using hist_step by blast
    have n: "n \<le> length (sy_hist sy)" and inv: "stored_state lib ((sy_store sy)\<lparr>ws_dir := d\<rparr>) = stored_state lib (sy_store sy) \<or>
        (\<exists>e\<in>set (drop n (sy_hist sy)). is_token_command (we_call e))"
      using assms(4) old(1) by (auto simp: mutex_inv_def)
    have dr: "drop n (sy_hist ?sy) = drop n (sy_hist sy) @ es" using n by (simp add: h(1))
    obtain q p' where s: "stored_state lib (sy_store ?sy) = Inr p'" "p' = p \<or> changes lib cfg sy call q p'"
      "ws_cf (sy_store ?sy) = ws_cf (sy_store sy)"
      by (rule wa_step_changes [OF assms(1-3), of call])
    have "stored_state lib ((sy_store ?sy)\<lparr>ws_dir := d\<rparr>) = stored_state lib (sy_store ?sy) \<or>
        (\<exists>e\<in>set (drop n (sy_hist ?sy)). is_token_command (we_call e))"
    proof (cases "is_token_command call")
      case True
      then show ?thesis using h(2) dr by auto
    next
      case no: False
      have "\<not> changes lib cfg sy call q p'"
        using old(2) no by (cases call) (simp_all add: changes_def is_token_command_def)
      then have "stored_state lib (sy_store ?sy) = stored_state lib (sy_store sy)"
        using s(1,2) assms(3) by (simp add: wa_base_def)
      then show ?thesis using inv stored_state_cong [OF s(3), of lib d] dr by auto
    qed
    then show "n \<le> length (sy_hist ?sy) \<and> (stored_state lib ((sy_store ?sy)\<lparr>ws_dir := d\<rparr>) = stored_state lib (sy_store ?sy) \<or>
        (\<exists>e\<in>set (drop n (sy_hist ?sy)). is_token_command (we_call e)))"
      using n h(1) by simp
  qed
qed

lemma mutex_inv_reachable:
  assumes "wa_lib_ok lib" "wa_reachable lib sy"
  shows "mutex_inv lib sy"
  using assms(2)
proof (induction rule: wa_reachable.induct)
  case (start sd b st)
  then show ?case by (simp add: mutex_inv_def start_sys_def)
next
  case (step sy cfg call)
  obtain p where "wa_base lib sy p" by (rule reachable_base [OF assms(1) step.hyps(1)])
  then show ?case by (rule mutex_inv_step [OF assms(1) step.hyps(2) _ step.IH])
qed

text \<open>Another process has written since the call loaded, or the call is one of another process.\<close>

definition overlapped :: "wa_call \<Rightarrow> wa_sys \<Rightarrow> bool" where
  "overlapped call sy \<longleftrightarrow> is_token_command call \<or>
     (\<exists>d n. sy_seen sy = Some (d, n) \<and> (\<exists>e\<in>set (drop n (sy_hist sy)). is_token_command (we_call e)))"

lemma loaded_or_overlapped:
  assumes "mutex_inv lib sy" "ws_seen (sy_store sy) = None"
  shows "alone lib call sy \<or> overlapped call sy"
proof (cases "ws_seen (call_store call sy)")
  case None
  then show ?thesis by (simp add: alone_def loaded_stored)
next
  case (Some d)
  show ?thesis
  proof (cases "is_token_command call")
    case False
    then obtain n where n: "sy_seen sy = Some (d, n)"
      using Some assms(2) by (cases call) (auto simp: call_store_def is_token_command_def)
    have "loaded_state lib (call_store call sy) = stored_state lib ((sy_store sy)\<lparr>ws_dir := d\<rparr>)"
      using Some by (simp add: loaded_state_def seen_dir_def stored_state_def)
    then show ?thesis using assms(1) n by (auto simp: mutex_inv_def alone_def overlapped_def)
  qed (simp add: overlapped_def)
qed

subsection \<open>Challenges are used once\<close>

text \<open>The reading of the clock with which a call forgets expired challenges.\<close>

fun clock_of :: "wa_call \<Rightarrow> int option" where
  "clock_of (OpFinishC env tok b resp) = Some (en_now env 1)"
| "clock_of (AddFinishC env tok req resp) = Some (en_now env 1)"
| "clock_of call = None"

definition keeps_used :: "int option \<Rightarrow> (string \<rightharpoonup> int) \<Rightarrow> (string \<rightharpoonup> int) \<Rightarrow> bool" where
  "keeps_used t used used' \<longleftrightarrow>
     (\<forall>k x. used k = Some x \<longrightarrow> (\<forall>now. t = Some now \<longrightarrow> unix now \<le> x) \<longrightarrow> used' k = Some x)"

lemma keeps_used_refl [simp]: "keeps_used t used used"
  by (simp add: keeps_used_def)

lemma consume_keeps: "consume now key x used = (ok, used') \<Longrightarrow> keeps_used (Some now) used used'"
  by (auto simp: consume_def Let_def keeps_used_def split: if_splits)

lemma consume_once:
  assumes "used key = Some y" "unix now \<le> y"
  shows "\<not> fst (consume now key x used)"
  using assms by (simp add: consume_def Let_def)

lemma consume_adds: "consume now key x used = (True, used') \<Longrightarrow> used' key = Some x"
  by (auto simp: consume_def Let_def split: if_splits)

text \<open>An entry is forgotten when the clock has passed its expiry.\<close>

lemma consume_forgets: "used key = Some y \<Longrightarrow> y < unix now \<Longrightarrow> fst (consume now key x used)"
  by (simp add: consume_def Let_def)

lemma used_effects:
  assumes "store_ok st"
  shows "ends (\<lambda>r st'. ws_used st' = ws_used st) (IssueBootstrapToken lib env ttl st)"
    "ends (\<lambda>r st'. ws_used st' = ws_used st) (RegisterFinish lib env cfg tok ar st)"
    "ends (\<lambda>r st'. ws_used st' = ws_used st) (AuthenticateFinish lib env cfg tok resp st)"
    "ends (\<lambda>r st'. ws_used st' = ws_used st) (Logout lib env st)"
    "ends (\<lambda>r st'. ws_used st' = ws_used st) (RemoveCredential lib env target (Some a) st)"
    "ends (\<lambda>r st'. ws_used st' = ws_used st) (CommitAdd lib env (Some c) (Some a) label st)"
    "ends (\<lambda>r st'. keeps_used (Some (en_now env 1)) (ws_used st) (ws_used st')) (OpAuthFinish lib env cfg tok b resp st)"
    "ends (\<lambda>r st'. keeps_used (Some (en_now env 1)) (ws_used st) (ws_used st')) (AddFinish lib env cfg tok req ar st)"
  unfolding IssueBootstrapToken_def RegisterFinish_def AuthenticateFinish_def Logout_def RemoveCredential_def CommitAdd_def
    OpAuthFinish_def AddFinish_def Let_def option.case prod.case
  by (intro ends_rules; simp add: assms consume_keeps)+

lemma used_step:
  assumes "store_ok (sy_store sy)" "store_ok (call_store call sy)" "call \<noteq> RestartC"
  shows "keeps_used (clock_of call) (ws_used (sy_store sy)) (ws_used (sy_store (wa_do lib cfg call sy)))"
proof (cases call)
  case (CommitC env i j label)
  show ?thesis
  proof (cases "at_index (sy_cands sy) i = None \<or> at_index (sy_asserts sy) j = None")
    case False
    then show ?thesis using used_effects(6) [OF assms(2)] by (auto simp: CommitC ends_def)
  qed (auto simp: CommitC CommitAdd_None)
next
  case (RemoveC env target j)
  then show ?thesis using used_effects(5) [OF assms(2)]
    by (cases "at_index (sy_asserts sy) j") (auto simp: RemoveCredential_None ends_def)
next
  case (OpFinishC env tok b resp)
  then show ?thesis using used_effects(7) [OF assms(2), of env lib cfg tok b resp] by (simp add: ends_def Let_def)
next
  case (AddFinishC env tok req resp)
  then show ?thesis using used_effects(8) [OF assms(1), of env lib cfg tok req resp] by (simp add: ends_def Let_def)
qed (use assms used_effects(1-4) [OF assms(2)] in \<open>auto simp: ends_def Let_def\<close>)

text \<open>A challenge that was used is remembered, as long as no later reading of the clock is behind its expiry.\<close>

definition remembered :: "wa_lib \<Rightarrow> wa_sys \<Rightarrow> bool" where
  "remembered lib sy \<longleftrightarrow>
     (\<forall>i env tok b resp c. i < length (sy_hist sy) \<longrightarrow> we_ok (sy_hist sy ! i) \<longrightarrow> we_call (sy_hist sy ! i) = OpFinishC env tok b resp \<longrightarrow>
        verifyStateToken lib (en_now env 0) (ps_SessionSecret (we_state (sy_hist sy ! i))) tok ''op-auth'' = Inr c \<longrightarrow>
        (\<forall>e\<in>set (drop (Suc i) (sy_hist sy)). we_call e \<noteq> RestartC \<and> (\<forall>t. clock_of (we_call e) = Some t \<longrightarrow> unix t \<le> cl_Expiry c)) \<longrightarrow>
        ws_used (sy_store sy) (b64_encode (cl_Challenge c)) = Some (cl_Expiry c))"

lemma remembered_extend:
  assumes "remembered lib sy" "sy_hist sy' = sy_hist sy @ [e]" "we_call e = call" "call \<noteq> RestartC"
    and "keeps_used (clock_of call) (ws_used (sy_store sy)) (ws_used (sy_store sy'))"
    and "\<And>env tok b resp c. we_ok e \<Longrightarrow> call = OpFinishC env tok b resp \<Longrightarrow>
      verifyStateToken lib (en_now env 0) (ps_SessionSecret (we_state e)) tok ''op-auth'' = Inr c \<Longrightarrow>
      ws_used (sy_store sy') (b64_encode (cl_Challenge c)) = Some (cl_Expiry c)"
  shows "remembered lib sy'"
  unfolding remembered_def
proof (intro allI impI)
  fix i env tok b resp c
  assume i: "i < length (sy_hist sy')" and ok: "we_ok (sy_hist sy' ! i)" and cl: "we_call (sy_hist sy' ! i) = OpFinishC env tok b resp"
    and v: "verifyStateToken lib (en_now env 0) (ps_SessionSecret (we_state (sy_hist sy' ! i))) tok ''op-auth'' = Inr c"
    and later: "\<forall>e\<in>set (drop (Suc i) (sy_hist sy')). we_call e \<noteq> RestartC \<and> (\<forall>t. clock_of (we_call e) = Some t \<longrightarrow> unix t \<le> cl_Expiry c)"
  show "ws_used (sy_store sy') (b64_encode (cl_Challenge c)) = Some (cl_Expiry c)"
  proof (cases "i < length (sy_hist sy)")
    case True
    then have n: "sy_hist sy' ! i = sy_hist sy ! i" by (simp add: assms(2) nth_append)
    have "ws_used (sy_store sy) (b64_encode (cl_Challenge c)) = Some (cl_Expiry c)"
      using assms(1) True ok cl v later unfolding remembered_def n by (simp add: assms(2))
    moreover have "\<forall>t. clock_of call = Some t \<longrightarrow> unix t \<le> cl_Expiry c" using later True by (simp add: assms(2,3))
    ultimately show ?thesis using assms(5) by (simp add: keeps_used_def)
  next
    case False
    then have "sy_hist sy' ! i = e" using i by (simp add: assms(2) nth_append)
    then show ?thesis using assms(3,6) ok cl v by simp
  qed
qed

lemma remembered_recorded:
  assumes "remembered lib sy" "call \<noteq> RestartC" "\<And>env tok b resp. call \<noteq> OpFinishC env tok b resp"
    and "keeps_used (clock_of call) (ws_used (sy_store sy)) (ws_used (snd rs))"
  shows "remembered lib (recorded lib cfg env call rs tok sy)"
  by (rule remembered_extend [OF assms(1) recorded_hist]) (use assms(2-4) in auto)

lemma remembered_cands: "remembered lib (sy\<lparr>sy_cands := cs\<rparr>) = remembered lib sy"
  by (simp add: remembered_def)

lemma remembered_step:
  assumes "wa_lib_ok lib" "store_ok (sy_store sy)" "store_ok (call_store call sy)" "remembered lib sy"
  shows "remembered lib (wa_do lib cfg call sy)"
proof (cases call)
  case (OpFinishC env tok b resp)
  let ?rs = "OpAuthFinish lib env cfg tok b resp (call_store call sy)"
  have new: "ws_used (snd ?rs) (b64_encode (cl_Challenge c)) = Some (cl_Expiry c)"
    if ok: "\<not> failed (fst ?rs)" and v: "verifyStateToken lib (en_now env 0) (ps_SessionSecret (seen_state lib env (call_store call sy))) tok ''op-auth'' = Inr c" for c
  proof -
    obtain a where "fst ?rs = Inr a" using ok by (auto simp: not_failed_iff)
    from ends_outcome(4) [OF OpAuthFinish_effect [OF assms(1,3)] this] obtain p claims where
      p: "wa_load lib env (call_store call sy) = Inr p" "op_authenticated lib env cfg tok b resp p claims a"
      "consume (en_now env 1) (b64_encode (cl_Challenge claims)) (cl_Expiry claims) (ws_used (sy_store sy)) = (True, ws_used (snd ?rs))"
      by auto
    then have "claims = c" using v by (simp add: op_authenticated_def seen_Inr)
    then show ?thesis using consume_adds [OF p(3)] by simp
  qed
  show ?thesis
    by (rule remembered_extend [OF assms(4), where e = "new_entry lib cfg env call ?rs (\<lambda>_. []) sy" and call = call])
      (use OpFinishC new used_step [OF assms(2,3), of lib cfg] in \<open>auto simp: recorded_hist Let_def\<close>)
next
  case RestartC
  show ?thesis unfolding remembered_def
  proof (intro allI impI)
    fix i env tok b resp c
    assume i: "i < length (sy_hist (wa_do lib cfg call sy))" "we_ok (sy_hist (wa_do lib cfg call sy) ! i)"
      and l: "\<forall>e\<in>set (drop (Suc i) (sy_hist (wa_do lib cfg call sy))). we_call e \<noteq> RestartC \<and> (\<forall>t. clock_of (we_call e) = Some t \<longrightarrow> unix t \<le> cl_Expiry c)"
    show "ws_used (sy_store (wa_do lib cfg call sy)) (b64_encode (cl_Challenge c)) = Some (cl_Expiry c)"
      using i l by (cases "i < length (sy_hist sy)") (auto simp: RestartC nth_append)
  qed
next
  case (WipeC i j)
  then show ?thesis using assms(4) by (simp add: remembered_def)
next
  case LockC
  then show ?thesis using assms(4) by (simp add: remembered_def)
next
  case TokenC
  then show ?thesis using assms(4) by (simp add: remembered_def)
qed (use used_step [OF assms(2,3), of lib cfg] in \<open>simp_all add: Let_def remembered_cands remembered_recorded [OF assms(4)]\<close>)

lemma remembered_start: "remembered lib (start_sys st)"
  by (simp add: remembered_def start_sys_def)

lemma remembered_reachable:
  assumes "wa_lib_ok lib" "wa_reachable lib sy"
  shows "remembered lib sy"
  using assms(2)
proof (induction rule: wa_reachable.induct)
  case (step sy cfg call)
  obtain p where b: "wa_base lib sy p" by (rule reachable_base [OF assms(1) step.hyps(1)])
  then have "store_ok (sy_store sy)" by (simp add: wa_base_def)
  moreover have "store_ok (call_store call sy)" by (rule call_store_good [OF b])
  ultimately show ?case using remembered_step [OF assms(1) _ _ step.IH] by blast
qed (rule remembered_start)

subsection \<open>What a session token rests on\<close>

lemma origin_purpose: "origin e c \<Longrightarrow> cl_Purpose c \<noteq> ''session''"
  by (cases "we_call e") (simp_all add: origin_def)

lemma session_entry:
  assumes "wa_lib_ok lib" "wa_inv lib sy" "issued lib (sy_hist sy) secret payload" "secret \<noteq> []"
    and "wl_un_session lib payload = Some s" "sn_Purpose s = ''session''"
  obtains e env tok resp where "e \<in> set (sy_hist sy)" "we_call e = AuthFinishC env tok resp" "login_proved lib (sy_hist sy) e"
    "ps_SessionSecret (we_state e) = secret" "s = logged_in env (we_state e)"
proof -
  obtain e where e: "e \<in> set (sy_hist sy)" "we_ok e" "ps_SessionSecret (we_state e) = secret" "verifyToken lib secret (we_token e) = Inr payload"
    using assms(3) by (auto simp: issued_def)
  have json: "\<And>c s. text_claims c \<Longrightarrow> wl_un_session lib (wl_claims lib c) = Some s \<Longrightarrow> sn_Purpose s = cl_Purpose c"
    "\<And>s. utf8_valid (sn_Purpose s) \<Longrightarrow> wl_un_session lib (wl_session lib s) = Some s"
    using assms(1) unfolding wa_lib_ok_def claims_json_ok_def by blast+
  have "token_known lib (sy_hist sy) e" using assms(2) e(1) by (simp add: wa_inv_def)
  then consider c where "origin e c" "text_claims c" "payload = wl_claims lib c"
    | env tok resp where "we_call e = AuthFinishC env tok resp" "login_proved lib (sy_hist sy) e"
        "payload = wl_session lib (logged_in env (we_state e))"
    using e(3,4) verifyToken_Nil by (fastforce simp: token_known_def verify_sign)
  then show thesis
  proof cases
    case 1
    then show thesis using json(1) assms(5,6) origin_purpose by auto
  next
    case 2
    then have "s = logged_in env (we_state e)"
      using json(2) [of "logged_in env (we_state e)"] assms(5) ascii_purposes(5) by (simp add: logged_in_def)
    then show thesis using that 2 e(1,3) by blast
  qed
qed

text \<open>A login within the lifetime of its session, with the response of a registered passkey to the challenge of its beginning.\<close>

definition login_of :: "wa_lib \<Rightarrow> wa_entry list \<Rightarrow> int \<Rightarrow> int \<Rightarrow> bool" where
  "login_of lib hist epoch now \<longleftrightarrow>
     (\<exists>e\<in>set hist. \<exists>env tok resp ch cred ad. we_ok e \<and> we_call e = AuthFinishC env tok resp \<and> ps_SessionEpoch (we_state e) = epoch \<and>
        unix now \<le> unix (en_now env 1 + SessionTTL) \<and> cred \<in> set (ps_Credentials (we_state e)) \<and>
        verifyAssertion lib (we_cfg e) cred ch resp False = Inr ad \<and>
        (\<exists>e0\<in>set hist. \<exists>env0. we_ok e0 \<and> we_call e0 = AuthBeginC env0 \<and> randomBytes (en_rand env0 0) 32 = Inr ch))"

lemma begun_login:
  "begun hist s c \<Longrightarrow> s \<noteq> [] \<Longrightarrow> cl_Purpose c = ''authenticate'' \<Longrightarrow>
     \<exists>e0\<in>set hist. \<exists>env0. we_ok e0 \<and> we_call e0 = AuthBeginC env0 \<and> randomBytes (en_rand env0 0) 32 = Inr (cl_Challenge c)"
  using origin_login unfolding begun_def by blast

lemma proved_login_of:
  assumes "login_proved lib hist e" "e \<in> set hist" "we_call e = AuthFinishC env tok resp" "ps_SessionSecret (we_state e) \<noteq> []"
    and "unix now \<le> unix (en_now env 1 + SessionTTL)"
  shows "login_of lib hist (ps_SessionEpoch (we_state e)) now"
proof -
  obtain claims cred a where p: "cl_Purpose claims = ''authenticate''" "cred \<in> set (ps_Credentials (we_state e))"
    "verifyAssertion lib (we_cfg e) cred (cl_Challenge claims) resp False = Inr a" "begun hist (ps_SessionSecret (we_state e)) claims" "we_ok e"
    using assms(1,3) by (auto simp: login_proved_def verifyStateToken_iff)
  show ?thesis unfolding login_of_def
    by (rule bexI [OF _ assms(2)]) (use assms(3,5) p begun_login [OF p(4) assms(4) p(1)] in blast)
qed

text \<open>What changes the passkeys has authority.\<close>

lemma changes_authorised:
  assumes "wa_lib_ok lib" and inv: "wa_inv lib sy" and "unforged lib call sy" and gc: "\<forall>c\<in>set (sy_cands sy). good_cand lib c"
    and wf: "wf_passkeys lib q" and chg: "changes lib cfg sy call q p'"
  shows "keys p' = keys q \<or> authorised lib cfg (sy_hist sy) call q p'"
proof (cases call)
  case (RegisterFinishC env tok resp)
  then obtain claims att where r: "wa_load lib env (call_store call sy) = Inr q" "ps_Credentials q = []"
    "verifyStateToken lib (en_now env 0) (ps_SessionSecret q) tok ''register'' = Inr claims"
    "verifyAttestation lib cfg (cl_Challenge claims) resp False = Inr att" "map sc_ID (ps_Credentials p') = [sc_ID (at_cred att)]"
    using chg by (auto simp: changes_def)
  have "begun (sy_hist sy) (ps_SessionSecret q) claims"
    by (rule shown_begun [OF assms(1) inv assms(3) _ r(1,3)]) (simp_all add: RegisterFinishC)
  then have "ps_SessionSecret q = [] \<or> bootstrapped (sy_hist sy) (cl_Challenge claims)"
    using begun_bootstrapped r(3) by (auto simp: verifyStateToken_iff)
  then show ?thesis using RegisterFinishC r by (auto simp: authorised_def)
next
  case (CommitC env i j label)
  then obtain c a where r: "c \<in> set (sy_cands sy)" "a \<in> set (sy_asserts sy)" "an_op a = OpAddCredential" "an_target a = cn_CredentialID c"
    "en_now env 0 - an_at a \<le> challengeTTL" "passkey q (an_cred a) \<noteq> None" "checkOpTarget q OpAddCredential (cn_CredentialID c) = Inr ()"
    "ps_Credentials p' = ps_Credentials q @ [committed env label c]"
    using chg by (auto simp: changes_def dest!: at_index_mem)
  have t: "sc_ID (committed env label c) = cn_CredentialID c" using gc r(1) by (simp add: committed_def good_cand_def)
  have "vouched lib (sy_hist sy) q OpAddCredential (cn_CredentialID c) (en_now env 0)"
    using assertion_vouched [OF inv r(2,6,5)] r(3,4) by (simp add: op_defs)
  moreover have "passkey q (cn_CredentialID c) = None" using r(7) by (auto simp: checkOpTarget_def split: if_splits)
  ultimately show ?thesis using CommitC r(8) t by (auto simp: authorised_def)
next
  case (RemoveC env target j)
  then obtain a where r: "a \<in> set (sy_asserts sy)" "an_op a = OpRemoveCredential" "an_target a = target" "an_cred a \<noteq> target"
    "en_now env 0 - an_at a \<le> challengeTTL" "passkey q (an_cred a) \<noteq> None"
    "p' = q\<lparr>ps_Credentials := filter (\<lambda>c. sc_ID c \<noteq> target) (ps_Credentials q), ps_SessionEpoch := ps_SessionEpoch q + 1\<rparr>"
    using chg by (auto simp: changes_def dest!: at_index_mem)
  have "vouched lib (sy_hist sy) q OpRemoveCredential target (en_now env 0)"
    using assertion_vouched [OF inv r(1,6,5)] r(2-4) by simp
  moreover have "ps_Credentials p' \<noteq> []"
    using changes_later [OF chg wf] r(6) by (auto simp: later_state_def passkey_def)
  ultimately show ?thesis using RemoveC r(7) by (auto simp: authorised_def)
qed (use chg keys_counted in \<open>auto simp: changes_def keys_def\<close>)

section \<open>Properties\<close>

text \<open>
  C10: The stored passkeys are always well formed: at most sixteen, with different IDs that are not empty, a text as RP ID and a public
  key on the curve; no overlap of calls breaks that. A call leaves the state as it is, or does not give up the last passkey, replace the
  session secret or lower the session epoch of the state that it had loaded, which is the stored one unless a process of the token
  command overlaps.
\<close>

theorem passkeys_wellformed:
  assumes "wa_lib_ok lib" "wa_reachable lib sy" "text_config cfg"
  shows "\<exists>p q p'. stored_state lib (sy_store sy) = Inr p \<and> wf_passkeys lib p \<and>
    stored_state lib (sy_store (wa_do lib cfg call sy)) = Inr p' \<and> wf_passkeys lib p' \<and>
    loaded_state lib (call_store call sy) = Inr q \<and> (q = p \<or> overlapped call sy) \<and> (p' = p \<or> later_state q p')"
proof -
  obtain p where p: "wa_base lib sy p" by (rule reachable_base [OF assms(1,2)])
  obtain p' where p': "wa_base lib (wa_do lib cfg call sy) p'" by (rule wa_base_step [OF assms(1,3) p, of call])
  obtain q p1 where q: "loaded_state lib (call_store call sy) = Inr q" "wf_passkeys lib q"
    "stored_state lib (sy_store (wa_do lib cfg call sy)) = Inr p1" "p1 = p \<or> changes lib cfg sy call q p1"
    by (rule wa_step_changes [OF assms(1,3) p, of call])
  have "alone lib call sy \<or> overlapped call sy"
    by (rule loaded_or_overlapped [OF mutex_inv_reachable [OF assms(1,2)]]) (use p in \<open>simp add: wa_base_def\<close>)
  then have "q = p \<or> overlapped call sy" using p q(1) by (auto simp: alone_def wa_base_def)
  moreover have "p' = p \<or> later_state q p'" using p' q(2-4) changes_later by (auto simp: wa_base_def)
  ultimately show ?thesis using p p' q(1) by (auto simp: wa_base_def)
qed

text \<open>The passkey of the example is registered.\<close>

lemma passkeys_wellformed_witness:
  "wf_passkeys demo_lib demo_p1 \<and> wf_passkeys demo_lib demo_p2 \<and> later_state demo_p1 demo_p2 \<and> demo_p2 \<noteq> demo_p1"
proof -
  have ne: "demo_p2 \<noteq> demo_p1" by (simp add: demo_states)
  then show ?thesis
    using passkeys_wellformed [OF demo_lib_ok demo_reach_begun demo_cfg_text, of "RegisterFinishC demo_e demo_t2 (demo_reg demo_key)"]
    by (simp only: demo_do_finish demo_sys_simps) (auto simp: loaded_stored demo_stored)
qed

text \<open>
  C6: A passkey is registered or removed only by someone who may. If a call of the ceremonies, in any order with any other calls
  and failures, changes the stored passkeys, then from the state that the call had loaded it either registers the first one, for a
  challenge that was given out for the bootstrap token (unless that state has no secret yet), or appends one that an earlier addition
  vouched for, or removes one on the word of another, leaves at least one and ends all sessions. The state that it had loaded is
  the stored one, unless a process of the token command overlaps: then a call may also write back passkeys as it had loaded them.
\<close>

theorem passkeys_change_by_authority:
  assumes "wa_lib_ok lib" "wa_reachable lib sy" "text_config cfg" "unforged lib call sy"
    and "stored_state lib (sy_store sy) = Inr p" "stored_state lib (sy_store (wa_do lib cfg call sy)) = Inr p'" "keys p' \<noteq> keys p"
  shows "\<exists>q. loaded_state lib (call_store call sy) = Inr q \<and> (q = p \<or> overlapped call sy) \<and>
        (keys p' = keys q \<or> authorised lib cfg (sy_hist sy) call q p')"
proof -
  have inv: "wa_inv lib sy" by (rule wa_inv_reachable [OF assms(1,2)])
  then have base: "wa_base lib sy p" using assms(5) by (auto simp: wa_inv_def wa_base_def)
  then have gc: "\<forall>c\<in>set (sy_cands sy). good_cand lib c" and none: "ws_seen (sy_store sy) = None" by (simp_all add: wa_base_def)
  obtain q p1 where q: "loaded_state lib (call_store call sy) = Inr q" and wf: "wf_passkeys lib q"
    and p1: "stored_state lib (sy_store (wa_do lib cfg call sy)) = Inr p1" "p1 = p \<or> changes lib cfg sy call q p1"
    by (rule wa_step_changes [OF assms(1,3) base, of call])
  have chg: "changes lib cfg sy call q p'" using p1 assms(6,7) by auto
  have qp: "q = p \<or> overlapped call sy"
    using loaded_or_overlapped [OF mutex_inv_reachable [OF assms(1,2)] none, of call] q assms(5) by (auto simp: alone_def)
  have "keys p' = keys q \<or> authorised lib cfg (sy_hist sy) call q p'"
    by (rule changes_authorised [OF assms(1) inv assms(4) gc wf chg])
  with q qp show ?thesis by blast
qed

text \<open>The registration of the example.\<close>

lemma passkeys_change_by_authority_witness:
  "authorised demo_lib demo_cfg demo_begun (RegisterFinishC demo_e demo_t2 (demo_reg demo_key)) demo_p1 demo_p2"
proof -
  let ?s1 = "demo_sys demo_p1 Map.empty [] demo_begun"
  let ?c = "RegisterFinishC demo_e demo_t2 (demo_reg demo_key)"
  have s: "stored_state demo_lib (sy_store ?s1) = Inr demo_p1" "stored_state demo_lib (sy_store (wa_do demo_lib demo_cfg ?c ?s1)) = Inr demo_p2"
    unfolding demo_do_finish demo_sys_simps by (rule demo_stored; simp)+
  have k: "keys demo_p2 \<noteq> keys demo_p1" by (simp add: keys_def)
  have l: "loaded_state demo_lib (demo_store demo_p1 Map.empty) = Inr q \<longleftrightarrow> demo_p1 = q" for q
    by (simp add: loaded_stored demo_stored)
  show ?thesis
    using passkeys_change_by_authority [OF demo_lib_ok demo_reach_begun demo_cfg_text demo_finish_unforged s k] k
    by (simp only: demo_sys_simps l simp_thms)
qed

text \<open>
  C7: A session comes from a login. If the token of a request is accepted, an earlier call finished a login under the epoch
  that is stored now, at most thirty days ago, with a response that a passkey which was registered then had signed
  for a challenge that an earlier call had given out for a login.
\<close>

theorem session_from_login:
  assumes "wa_lib_ok lib" "wa_reachable lib sy" "unforged lib (VerifyC env tok) sy"
    and "VerifySession lib env (sy_store sy) tok = Inr ()"
  shows "\<exists>p. stored_state lib (sy_store sy) = Inr p \<and> login_of lib (sy_hist sy) (ps_SessionEpoch p) (en_now env 0)"
proof -
  have inv: "wa_inv lib sy" by (rule wa_inv_reachable [OF assms(1,2)])
  obtain p payload s where p: "wa_load lib env (sy_store sy) = Inr p" "ps_SessionSecret p \<noteq> []"
    "verifyToken lib (ps_SessionSecret p) tok = Inr payload" "wl_un_session lib payload = Some s" "sn_Purpose s = ''session''"
    "unix (en_now env 0) \<le> sn_Expiry s" "sn_Epoch s = ps_SessionEpoch p"
    using assms(4) by (auto simp: VerifySession_iff)
  have "issued lib (sy_hist sy) (ps_SessionSecret p) payload"
    using assms(3) p(1-3) by (simp add: unforged_def seen_Inr Let_def)
  then obtain e env1 tok1 resp where e: "e \<in> set (sy_hist sy)" "we_call e = AuthFinishC env1 tok1 resp" "login_proved lib (sy_hist sy) e"
    "ps_SessionSecret (we_state e) = ps_SessionSecret p" "s = logged_in env1 (we_state e)"
    by (rule session_entry [OF assms(1) inv _ p(2,4,5)])
  have "login_of lib (sy_hist sy) (ps_SessionEpoch (we_state e)) (en_now env 0)"
    by (rule proved_login_of [OF e(3,1,2)]) (use e(4,5) p(2,6) in \<open>simp_all add: logged_in_def\<close>)
  moreover have "stored_state lib (sy_store sy) = Inr p"
    using load_loaded [OF _ p(1)] inv by (auto simp: wa_inv_def wa_base_def loaded_stored)
  ultimately show ?thesis using e(5) p(7) by (auto simp: logged_in_def)
qed

text \<open>The login of the example.\<close>

lemma session_from_login_witness:
  "\<exists>p. stored_state demo_lib (demo_store demo_p2 Map.empty) = Inr p \<and> login_of demo_lib demo_logged_in (ps_SessionEpoch p) 0"
  using session_from_login [OF demo_lib_ok demo_reach_logged_in demo_verify_unforged]
  by (simp add: demo_session_valid)

text \<open>
  C8: Logging out and removing a passkey end every session. A token that was accepted at any time is refused in every
  state after a later successful logout or removal, whatever calls come between and after, as long as no process of the token command
  overlaps one of them (one loads before the other saves, and saves after the other loaded): \<open>logout_undone\<close> is what it can do then.
\<close>

theorem session_revoked:
  assumes "wa_lib_ok lib" "wa_reachable lib sy" "VerifySession lib env (sy_store sy) tok = Inr ()"
    and "\<forall>c\<in>set (before @ (cfg, call) # after). text_config (fst c)" "run_alone lib (before @ (cfg, call) # after) sy"
    and "revokes call" "succeeded (wa_do lib cfg call (run_calls lib before sy))"
  shows "failed (VerifySession lib env2 (sy_store (run_calls lib (before @ (cfg, call) # after) sy)) tok)"
proof -
  let ?mid = "run_calls lib before sy"
  have al: "run_alone lib before sy" "alone lib call ?mid" "run_alone lib after (wa_do lib cfg call ?mid)"
    using assms(5) by (simp_all add: run_alone_append)
  have cfgs: "\<forall>c\<in>set before. text_config (fst c)" "text_config cfg" "\<forall>c\<in>set after. text_config (fst c)" using assms(4) by auto
  obtain p where p: "wa_base lib sy p" by (rule reachable_base [OF assms(1,2)])
  obtain p1 where p1: "wa_base lib ?mid p1" "later_state p p1" using wa_base_run [OF assms(1) p cfgs(1) al(1)] by blast
  obtain p2 where p2: "wa_base lib (wa_do lib cfg call ?mid) p2"
    "alone lib call ?mid \<and> succeeded (wa_do lib cfg call ?mid) \<and> revokes call \<longrightarrow> ps_SessionEpoch p2 = ps_SessionEpoch p1 + 1"
    by (rule wa_base_step [OF assms(1) cfgs(2) p1(1), of call])
  obtain p3 where p3: "wa_base lib (run_calls lib after (wa_do lib cfg call ?mid)) p3" "later_state p2 p3"
    using wa_base_run [OF assms(1) p2(1) cfgs(3) al(3)] by blast
  have epoch: "\<exists>payload s. verifyToken lib (ps_SessionSecret q) tok = Inr payload \<and> wl_un_session lib payload = Some s \<and> sn_Epoch s = ps_SessionEpoch q"
    if "wa_base lib sy' q" "VerifySession lib env' (sy_store sy') tok = Inr ()" for sy' q env'
    using that load_loaded [of "sy_store sy'" lib env'] by (auto simp: VerifySession_iff wa_base_def loaded_stored)
  have "ps_SessionEpoch p < ps_SessionEpoch p3" using p1(2) p2(2) p3(2) al(2) assms(6,7) by (simp add: later_state_def)
  moreover obtain payload s where a: "verifyToken lib (ps_SessionSecret p) tok = Inr payload" "wl_un_session lib payload = Some s"
    "sn_Epoch s = ps_SessionEpoch p"
    using epoch [OF p assms(3)] by blast
  ultimately have no: "\<not> (\<exists>payload s. verifyToken lib (ps_SessionSecret p3) tok = Inr payload \<and> wl_un_session lib payload = Some s \<and>
      sn_Epoch s = ps_SessionEpoch p3)"
    by (metis verifyToken_payload option.inject less_irrefl)
  show ?thesis
  proof (rule ccontr)
    assume "\<not> ?thesis"
    then have "VerifySession lib env2 (sy_store (run_calls lib after (wa_do lib cfg call ?mid))) tok = Inr ()"
      by (simp add: not_failed_iff run_calls_append)
    from epoch [OF p3(1) this] no show False by blast
  qed
qed

text \<open>The session of the example ends with a logout.\<close>

lemma session_revoked_witness:
  "VerifySession demo_lib demo_e (demo_store demo_p2 Map.empty) demo_session_token = Inr () \<and>
   failed (VerifySession demo_lib demo_e (demo_store demo_p3 Map.empty) demo_session_token)"
proof -
  have "alone demo_lib (LogoutC demo_e) (demo_sys demo_p2 Map.empty [] demo_logged_in)" by (simp add: alone_def loaded_stored)
  then show ?thesis
    using session_revoked [OF demo_lib_ok demo_reach_logged_in, where env = demo_e and tok = demo_session_token and cfg = demo_cfg
        and call = "LogoutC demo_e" and before = "[]" and after = "[]" and ?env2.0 = demo_e]
    by (simp add: demo_session_valid demo_do_logout demo_entry_def succeeded_def demo_cfg_text revokes_def del: wa_do.simps)
qed

text \<open>
  C9: A response to an operation is accepted once. After a call of OpAuthFinish that succeeded, no call for the same challenge
  succeeds while the process runs, as long as no reading of the clock that forgets challenges is past the expiry of the challenge.
\<close>

theorem op_auth_once:
  assumes "wa_lib_ok lib" "wa_reachable lib sy"
    and "sy_hist sy = hist @ e # rest" "we_ok e" "we_call e = OpFinishC env0 tok0 b0 resp0"
    and "verifyStateToken lib (en_now env0 0) (ps_SessionSecret (we_state e)) tok0 ''op-auth'' = Inr c"
    and "\<forall>e'\<in>set rest. we_call e' \<noteq> RestartC" "\<forall>e'\<in>set rest. \<forall>t. clock_of (we_call e') = Some t \<longrightarrow> unix t \<le> cl_Expiry c"
    and "unix (en_now env 1) \<le> cl_Expiry c"
    and "fst (OpAuthFinish lib env cfg tok b resp (call_store (OpFinishC env tok b resp) sy)) = Inr a"
  shows "\<exists>p c'. wa_load lib env (call_store (OpFinishC env tok b resp) sy) = Inr p \<and>
    verifyStateToken lib (en_now env 0) (ps_SessionSecret p) tok ''op-auth'' = Inr c' \<and> cl_Challenge c' \<noteq> cl_Challenge c"
proof -
  let ?st = "call_store (OpFinishC env tok b resp) sy"
  obtain p0 where b: "wa_base lib sy p0" by (rule reachable_base [OF assms(1,2)])
  have st: "store_ok ?st" by (rule call_store_good [OF b])
  have used: "ws_used (sy_store sy) (b64_encode (cl_Challenge c)) = Some (cl_Expiry c)"
    using remembered_reachable [OF assms(1,2)] assms(3-8)
    unfolding remembered_def by (elim allE [of _ "length hist"]) (auto simp: nth_append)
  obtain p c' where p: "wa_load lib env ?st = Inr p" "op_authenticated lib env cfg tok b resp p c' a"
    "fst (consume (en_now env 1) (b64_encode (cl_Challenge c')) (cl_Expiry c') (ws_used (sy_store sy)))"
    using ends_outcome(4) [OF OpAuthFinish_effect [OF assms(1) st] assms(10)] by (metis call_store_fields(3) fst_conv)
  then have "cl_Challenge c' \<noteq> cl_Challenge c" using consume_once [of "ws_used (sy_store sy)", OF used assms(9)] by auto
  then show ?thesis using p by (auto simp: op_authenticated_def)
qed

text \<open>The second challenge of the example.\<close>

lemma op_auth_once_witness:
  "\<exists>p c'. wa_load demo_lib demo_e (demo_store demo_p2 (demo_used CHR ''a'' Map.empty)) = Inr p \<and>
     verifyStateToken demo_lib 0 (ps_SessionSecret p) (demo_token (demo_op_claims CHR ''b'')) ''op-auth'' = Inr c' \<and>
     cl_Challenge c' \<noteq> replicate 32 CHR ''a''"
proof -
  let ?st = "demo_store demo_p2 (demo_used CHR ''a'' Map.empty)"
  have u: "demo_used CHR ''a'' Map.empty (b64_encode (replicate 32 CHR ''b'')) = None"
    by (simp add: demo_used_def b64_encode_inj)
  have r: "fst (OpAuthFinish demo_lib demo_e demo_cfg (demo_token (demo_op_claims CHR ''b'')) demo_unlock (demo_resp (replicate 32 CHR ''b''))
      (call_store (OpFinishC demo_e (demo_token (demo_op_claims CHR ''b'')) demo_unlock (demo_resp (replicate 32 CHR ''b'')))
        (demo_sys demo_p2 (demo_used CHR ''a'' Map.empty) [demo_unlocked] (demo_asked @ demo_answer # [demo_again])))) = Inr demo_unlocked"
    by (simp only: demo_sys_simps demo_op_finish [of "demo_used CHR ''a'' Map.empty", OF u] fst_conv)
  have v: "verifyStateToken demo_lib (en_now demo_e 0) (ps_SessionSecret (we_state demo_answer)) (demo_token (demo_op_claims CHR ''a'')) ''op-auth'' =
      Inr (demo_op_claims CHR ''a'')"
    by (simp add: demo_answer_def demo_entry_def demo_accepts demo_op_claims_def)
  have "\<exists>p c'. wa_load demo_lib demo_e ?st = Inr p \<and>
     verifyStateToken demo_lib (en_now demo_e 0) (ps_SessionSecret p) (demo_token (demo_op_claims CHR ''b'')) ''op-auth'' = Inr c' \<and>
     cl_Challenge c' \<noteq> cl_Challenge (demo_op_claims CHR ''a'')"
    using op_auth_once [OF demo_lib_ok demo_reach_again demo_sys_simps(2) _ _ v _ _ _ r]
    by (simp add: demo_answer_def demo_entry_def demo_again_def demo_op_claims_def unix_def)
  then show ?thesis by (simp add: demo_op_claims_def)
qed

section \<open>Gaps\<close>

text \<open>
  Before anything is stored the secret is empty, and a state token that anybody can sign with the empty key is accepted: a first passkey
  is registered without a bootstrap token.
\<close>

lemma register_without_bootstrap:
  assumes "wa_lib_ok lib" "wa_load lib env st = Inr zero_state" "unix (en_now env 0) \<le> unix (now + challengeTTL)"
    and "verifyAttestation lib cfg ch resp False = Inr att"
  shows "RegisterFinish lib env cfg (signToken lib [] (wl_claims lib (ceremony_claims ''register'' ch now))) resp st =
    wa_save lib env (zero_state\<lparr>ps_Credentials := [(at_cred att)\<lparr>sc_CreatedAt := unix (en_now env 1)\<rparr>]\<rparr>) st"
proof -
  let ?c = "ceremony_claims ''register'' ch now"
  have "wl_un_claims lib (wl_claims lib ?c) = Some ?c"
    using assms(1) by (simp add: wa_lib_ok_def claims_json_ok_def text_claims_def ceremony_claims_def ascii_purposes)
  then have "verifyStateToken lib (en_now env 0) [] (signToken lib [] (wl_claims lib ?c)) ''register'' = Inr ?c"
    using assms(3) unfolding verifyStateToken_iff by (simp add: verify_sign ceremony_claims_def)
  moreover have "cl_Challenge ?c = ch" by (simp add: ceremony_claims_def)
  ultimately show ?thesis
    using assms(2,4) by (simp add: RegisterFinish_def tryS_def zero_state_def)
qed

text \<open>
  A challenge is valid through the second of its expiry, and consume reads the clock again: if the second has passed between the two
  readings, the entry of a used challenge is forgotten first, and the same response is accepted again.
\<close>

lemma replay_at_expiry:
  assumes "used key = Some x" "x < unix now"
  shows "consume now key x used = (True, (\<lambda>k. case used k of None \<Rightarrow> None | Some e \<Rightarrow> if e < unix now then None else Some e)(key \<mapsto> x))"
  using assms by (simp add: consume_def Let_def)

text \<open>
  A process of the token command that loaded before a logout and saves after it undoes the logout (doc.go, the limits): the session of the
  example is accepted again. In the same way it brings back a passkey that was removed in between.
\<close>

definition demo_overlap :: wa_sys where
  "demo_overlap = run_calls demo_lib [(demo_cfg, TokenC), (demo_cfg, LogoutC demo_e)] (demo_sys demo_p2 Map.empty [] demo_logged_in)"

lemma demo_overlapped:
  "sy_store demo_overlap = demo_store demo_p3 Map.empty" "sy_cli demo_overlap = [ws_dir (demo_store demo_p2 Map.empty)]"
  "succeeded demo_overlap"
proof -
  have c: "call_store (LogoutC demo_e) ((demo_sys demo_p2 Map.empty [] h)\<lparr>sy_cli := x\<rparr>) = demo_store demo_p2 Map.empty" for h x
    by (simp add: call_store_def demo_sys_def)
  show "sy_store demo_overlap = demo_store demo_p3 Map.empty" "sy_cli demo_overlap = [ws_dir (demo_store demo_p2 Map.empty)]"
    "succeeded demo_overlap"
    by (simp_all add: demo_overlap_def c demo_logout) (simp add: demo_sys_def)
qed

lemma logout_undone:
  "succeeded demo_overlap \<and>
   VerifySession demo_lib demo_e (sy_store (wa_do demo_lib demo_cfg (IssueC demo_e 0 0) demo_overlap)) demo_session_token = Inr ()"
proof -
  let ?st = "(demo_store demo_p3 Map.empty)\<lparr>ws_seen := Some (ws_dir (demo_store demo_p2 Map.empty))\<rparr>"
  have c: "call_store (IssueC demo_e 0 0) demo_overlap = ?st"
    by (simp add: call_store_def at_index_def demo_overlapped)
  have "IssueBootstrapToken demo_lib demo_e 0 ?st = (Inr (b64_encode demo_key), ?st\<lparr>ws_dir := ws_dir (demo_store demo_p4 Map.empty)\<rparr>)"
    by (rule demo_issue_stale)
  then have "sy_store (wa_do demo_lib demo_cfg (IssueC demo_e 0 0) demo_overlap) = demo_store demo_p4 Map.empty"
    by (simp add: c) (simp add: demo_store_def)
  then show ?thesis using demo_overlapped(3) demo_session_kept by simp
qed

end
