(* ===== verification/Spec_Text.thy ===== *)
theory Spec_Text
  imports Spec_V0
begin

text \<open>
  The rest of the vocabulary of package spec/v0 that the adapters use, and the helpers that cut texts to a number of
  runes. A text that is cut is written again rune by rune.
\<close>

section \<open>Vocabulary\<close>

definition TypeSessionStarted :: string where "TypeSessionStarted = ''session.started''"
definition TypeTurnStarted :: string where "TypeTurnStarted = ''turn.started''"
definition TypeMessageText :: string where "TypeMessageText = ''message.text''"
definition TypeToolCall :: string where "TypeToolCall = ''tool.call''"
definition TypeToolUpdate :: string where "TypeToolUpdate = ''tool.update''"
definition TypeUsage :: string where "TypeUsage = ''usage''"

lemmas v0_more_types = v0_types TypeSessionStarted_def TypeTurnStarted_def TypeMessageText_def TypeToolCall_def TypeToolUpdate_def TypeUsage_def

definition StopEndTurn :: string where "StopEndTurn = ''end_turn''"
definition StopMaxTokens :: string where "StopMaxTokens = ''max_tokens''"
definition StopRefusal :: string where "StopRefusal = ''refusal''"
definition StopError :: string where "StopError = ''error''"

definition ToolInProgress :: string where "ToolInProgress = ''in_progress''"
definition ToolCompleted :: string where "ToolCompleted = ''completed''"
definition ToolFailed :: string where "ToolFailed = ''failed''"

definition KindRead :: string where "KindRead = ''read''"
definition KindEdit :: string where "KindEdit = ''edit''"
definition KindSearch :: string where "KindSearch = ''search''"
definition KindExecute :: string where "KindExecute = ''execute''"
definition KindFetch :: string where "KindFetch = ''fetch''"
definition KindOther :: string where "KindOther = ''other''"

definition DetailCommand :: string where "DetailCommand = ''command''"
definition DetailPath :: string where "DetailPath = ''path''"
definition DetailURL :: string where "DetailURL = ''url''"
definition DetailText :: string where "DetailText = ''text''"

definition FormKindQuestion :: string where "FormKindQuestion = ''question''"

section \<open>Texts\<close>

text \<open>The bytes of a rune, and of the runes of a text (\<open>string([]rune(s))\<close>, \<open>strings.Map\<close>).\<close>

definition rune_bytes :: "nat \<Rightarrow> string" where
  "rune_bytes r =
     (if r < 0x80 then [char_of r]
      else if r < 0x800 then [char_of (0xC0 + r div 64), char_of (0x80 + r mod 64)]
      else if (0xD800 \<le> r \<and> r < 0xE000) \<or> 0x110000 \<le> r then [char_of (0xEF :: nat), char_of (0xBF :: nat), char_of (0xBD :: nat)]
      else if r < 0x10000 then [char_of (0xE0 + r div 4096), char_of (0x80 + r div 64 mod 64), char_of (0x80 + r mod 64)]
      else [char_of (0xF0 + r div 262144), char_of (0x80 + r div 4096 mod 64), char_of (0x80 + r div 64 mod 64), char_of (0x80 + r mod 64)])"

definition utf8_encode :: "nat list \<Rightarrow> string" where
  "utf8_encode rs = concat (map rune_bytes rs)"

definition ellipsis :: string where "ellipsis = rune_bytes 0x2026"

definition SummaryLine :: "string \<Rightarrow> nat \<Rightarrow> string" where
  "SummaryLine s0 m =
     (let s = utf8_encode (map (\<lambda>r. if r = 0x0D \<or> r = 0x0A \<or> r = 0x09 then 0x20 else r) (utf8_runes s0)) in
      if rune_count s \<le> m then s else utf8_encode (take (m - 1) (utf8_runes s)) @ ellipsis)"

definition ClampText :: "string \<Rightarrow> nat \<Rightarrow> string \<times> bool" where
  "ClampText s m = (if rune_count s \<le> m then (s, False) else (utf8_encode (take m (utf8_runes s)), True))"

section \<open>Reading what was written\<close>

definition scalar :: "nat \<Rightarrow> bool" where
  "scalar r \<longleftrightarrow> r < 0xD800 \<or> (0xE000 \<le> r \<and> r < 0x110000)"

text \<open>A rune is put together from the bits in its bytes.\<close>

lemma split64:
  fixes r :: nat
  shows "r div 4096 * 4096 + r div 64 mod 64 * 64 + r mod 64 = r"
    "r div 262144 * 262144 + r div 4096 mod 64 * 4096 + r div 64 mod 64 * 64 + r mod 64 = r"
proof -
  have a: "r div 64 * 64 + r mod 64 = r" "r div 64 div 64 * 64 + r div 64 mod 64 = r div 64"
    "r div 64 div 64 div 64 * 64 + r div 64 div 64 mod 64 = r div 64 div 64" by simp_all
  have d: "r div 4096 = r div 64 div 64" "r div 262144 = r div 64 div 64 div 64" by (simp_all add: div_mult2_eq [symmetric])
  show "r div 4096 * 4096 + r div 64 mod 64 * 64 + r mod 64 = r" unfolding d using a by linarith
  show "r div 262144 * 262144 + r div 4096 mod 64 * 4096 + r div 64 mod 64 * 64 + r mod 64 = r" unfolding d using a by linarith
qed

lemma utf8_first_rune:
  assumes "scalar r"
  shows "utf8_first (rune_bytes r @ s) = Some (r, length (rune_bytes r))"
proof -
  have m: "x mod 64 \<le> 63" for x :: nat using mod_less_divisor [of 64 x] by linarith
  note m = m [of r] m [of "r div 64"] m [of "r div 4096"]
  consider "r < 0x80" | "0x80 \<le> r" "r < 0x800" | "0x800 \<le> r" "r < 0x10000" "\<not> (0xD800 \<le> r \<and> r < 0xE000)" | "0x10000 \<le> r" "r < 0x110000"
    using assms
    by (cases "r < 0x80"; cases "r < 0x800"; cases "r < 0x10000"; cases "0xD800 \<le> r \<and> r < 0xE000") (auto simp: scalar_def)
  then show ?thesis
  proof cases
    case 1
    then show ?thesis by (simp add: rune_bytes_def utf8_first_ascii)
  next
    case 2
    have "r div 64 * 64 + r mod 64 = r" by simp
    then have "2 \<le> r div 64" "r div 64 < 32" using 2 m(1) by linarith+
    then show ?thesis using 2 m by (simp add: rune_bytes_def utf8_first_def second_ok_def cont_byte_def Let_def)
  next
    case 3
    let ?a = "r div 4096" and ?b = "r div 64 mod 64"
    obtain a b c where n: "?a = a" "?b = b" "r mod 64 = c" by blast
    have s: "a * 4096 + b * 64 + c = r" "b \<le> 63" "c \<le> 63" using split64(1) [of r] m unfolding n by simp_all
    have "a < 16" "a = 0 \<Longrightarrow> 32 \<le> b" "a = 13 \<longrightarrow> b \<le> 31" using 3 s by linarith+
    then show ?thesis using 3 s by (simp add: rune_bytes_def n utf8_first_def second_ok_def cont_byte_def Let_def)
  next
    case 4
    let ?a = "r div 262144" and ?b = "r div 4096 mod 64"
    obtain a b c d where n: "?a = a" "?b = b" "r div 64 mod 64 = c" "r mod 64 = d" by blast
    have s: "a * 262144 + b * 4096 + c * 64 + d = r" "b \<le> 63" "c \<le> 63" "d \<le> 63" using split64(2) [of r] m unfolding n by simp_all
    have "a < 5" "a = 0 \<Longrightarrow> 16 \<le> b" "a = 4 \<Longrightarrow> b < 16" using 4 s by linarith+
    then show ?thesis using 4 s by (simp add: rune_bytes_def n utf8_first_def second_ok_def cont_byte_def Let_def)
  qed
qed

lemma rune_bytes_not_Nil [simp]: "rune_bytes r \<noteq> []"
  by (simp add: rune_bytes_def)

lemma utf8_encode_simps [simp]: "utf8_encode [] = []" "utf8_encode (r # rs) = rune_bytes r @ utf8_encode rs" "utf8_encode (rs @ ss) = utf8_encode rs @ utf8_encode ss"
  by (simp_all add: utf8_encode_def)

lemma utf8_runes_encode: "\<forall>r\<in>set rs. scalar r \<Longrightarrow> utf8_runes (utf8_encode rs @ s) = rs @ utf8_runes s"
  by (induction rs) (simp_all add: utf8_runes.simps [of "rune_bytes _ @ _"] utf8_first_rune)

lemma utf8_first_scalar: "utf8_first s = Some (r, w) \<Longrightarrow> scalar r"
  unfolding utf8_first_def scalar_def second_ok_def cont_byte_def Let_def
  by (simp split: list.splits if_splits; (elim conjE)?; (linarith | presburger)?)

lemma utf8_runes_scalar: "\<forall>r\<in>set (utf8_runes s). scalar r"
proof (induction s rule: utf8_runes.induct)
  case (1 s)
  then show ?case
    by (subst utf8_runes.simps) (auto simp: scalar_def dest: utf8_first_scalar split: option.splits)
qed

lemma rune_count_encode: "\<forall>r\<in>set rs. scalar r \<Longrightarrow> rune_count (utf8_encode rs) = length rs"
  using utf8_runes_encode [of rs "[]"] by (simp add: rune_count_def)

lemma ClampText_count: "rune_count (fst (ClampText s m)) \<le> m"
proof -
  have "\<forall>r\<in>set (take m (utf8_runes s)). scalar r" using utf8_runes_scalar in_set_takeD by fast
  then show ?thesis by (simp add: ClampText_def rune_count_encode)
qed

lemma ClampText_kept: "\<not> snd (ClampText s m) \<Longrightarrow> fst (ClampText s m) = s"
  by (simp add: ClampText_def split: if_splits)

text \<open>A summary is one line within the limit.\<close>

lemma rune_bytes_newline: "c \<in> set (rune_bytes r) \<Longrightarrow> byte c < 0x20 \<Longrightarrow> r = byte c"
  by (auto simp: rune_bytes_def split: if_splits)

lemma shortened: "\<forall>r\<in>set xs. P r \<Longrightarrow> P y \<Longrightarrow> \<forall>r\<in>set (if c then xs else take n xs @ [y]). P r"
  by (auto dest: in_set_takeD)

lemma shortened_clean: "n \<notin> set xs \<Longrightarrow> y \<noteq> n \<Longrightarrow> n \<notin> set (if c then xs else take k xs @ [y])"
  by (auto dest: in_set_takeD)

lemma utf8_encode_clean: "byte c \<notin> set rs \<Longrightarrow> byte c < 0x20 \<Longrightarrow> c \<notin> set (utf8_encode rs)"
  using rune_bytes_newline by (fastforce simp: utf8_encode_def)

text \<open>The runes that a summary writes.\<close>

definition summary_runes :: "string \<Rightarrow> nat \<Rightarrow> nat list" where
  "summary_runes s m =
     (let rs = map (\<lambda>r. if r = 0x0D \<or> r = 0x0A \<or> r = 0x09 then 0x20 else r) (utf8_runes s) in
      if length rs \<le> m then rs else take (m - 1) rs @ [0x2026])"

lemma summary_runes:
  "\<forall>r\<in>set (summary_runes s m). scalar r" "0 < m \<Longrightarrow> length (summary_runes s m) \<le> m"
  "0x0D \<notin> set (summary_runes s m)" "0x0A \<notin> set (summary_runes s m)"
  "SummaryLine s m = utf8_encode (summary_runes s m)"
proof -
  define rs where "rs = map (\<lambda>r. if r = 0x0D \<or> r = 0x0A \<or> r = 0x09 then 0x20 else r) (utf8_runes s)"
  have sr: "summary_runes s m = (if length rs \<le> m then rs else take (m - 1) rs @ [0x2026])"
    by (simp add: summary_runes_def rs_def Let_def)
  have sc: "\<forall>r\<in>set rs. scalar r" using utf8_runes_scalar [of s] by (auto simp: rs_def scalar_def)
  show "\<forall>r\<in>set (summary_runes s m). scalar r" unfolding sr by (rule shortened [OF sc]) (simp add: scalar_def)
  show "0 < m \<Longrightarrow> length (summary_runes s m) \<le> m" unfolding sr by simp
  have "0x0D \<notin> set rs" "0x0A \<notin> set rs" by (auto simp: rs_def)
  then show "0x0D \<notin> set (summary_runes s m)" "0x0A \<notin> set (summary_runes s m)"
    unfolding sr by (intro shortened_clean; simp)+
  have "rune_count (utf8_encode rs) = length rs" "utf8_runes (utf8_encode rs) = rs"
    using rune_count_encode [OF sc] utf8_runes_encode [OF sc, of "[]"] by simp_all
  then show "SummaryLine s m = utf8_encode (summary_runes s m)"
    unfolding SummaryLine_def rs_def [symmetric] Let_def sr by (simp add: ellipsis_def)
qed

lemma SummaryLine_ok:
  "0 < m \<Longrightarrow> rune_count (SummaryLine s m) \<le> m" "CHR 0x0D \<notin> set (SummaryLine s m)" "CHR 0x0A \<notin> set (SummaryLine s m)"
proof -
  have b: "byte (CHR 0x0D) = 0x0D" "byte (CHR 0x0A) = 0x0A" by simp_all
  show "0 < m \<Longrightarrow> rune_count (SummaryLine s m) \<le> m"
    using summary_runes(1,2) by (simp add: summary_runes(5) rune_count_encode)
  show "CHR 0x0D \<notin> set (SummaryLine s m)" "CHR 0x0A \<notin> set (SummaryLine s m)"
    unfolding summary_runes(5) by (rule utf8_encode_clean; use summary_runes(3,4) b in simp)+
qed

end
