(* ===== verification/Claude_Adapter.thy ===== *)
theory Claude_Adapter
  imports Chat_Conversation Spec_Text "HOL-Library.Char_ord" "HOL-Library.List_Lexorder"
begin

text \<open>
  The adapter of Claude Code (package agent/claude): the translation of its output into messages, of the answers of the user
  into its input, and the requests that are open.

  JSON is the record \<open>claude_lib\<close>: what \<open>encoding/json\<close> reads from a text, field by field (a value of
  another type than expected reads as its zero value, marked as bad), and what it writes. A raw value is its text; one that a frame does not have is
  the empty text. A JSON object is the list of its members, whose keys are distinct. A number that is only copied is its text.
\<close>

section \<open>What is read\<close>

record 'a lenient =
  le_V :: 'a
  le_Bad :: bool

type_synonym json_number = string

record claude_usage =
  us_Input :: int
  us_Output :: int
  us_CacheRead :: int
  us_CacheCreation :: int

record model_usage =
  mu_ContextWindow :: int
  mu_MaxOutputTokens :: int

record claude_frame =
  ff_Type :: "string lenient"
  ff_Subtype :: "string lenient"
  ff_SessionID :: "string lenient"
  ff_Cwd :: "string lenient"
  ff_Model :: "string lenient"
  ff_Tools :: "string list lenient"
  ff_PermissionMode :: "string lenient"
  ff_IsAPIErrorMessage :: "bool lenient"
  ff_Message :: string
  ff_RequestID :: "string lenient"
  ff_Request :: string
  ff_ToolName :: "string lenient"
  ff_ToolUseID :: "string lenient"
  ff_IsError :: "bool lenient"
  ff_Result :: "string lenient"
  ff_APIErrorStatus :: "int option lenient"
  ff_TerminalReason :: "string lenient"
  ff_StopReason :: "string lenient"
  ff_TotalCostUSD :: "json_number lenient"
  ff_Usage :: "claude_usage lenient"
  ff_ModelUsage :: "(string \<times> model_usage) list lenient"

record claude_block =
  bk_Type :: "string lenient"
  bk_Text :: "string lenient"
  bk_ID :: "string lenient"
  bk_Name :: "string lenient"
  bk_Input :: string
  bk_ToolUseID :: "string lenient"
  bk_Content :: string
  bk_IsError :: "bool lenient"

record claude_message =
  ms_ID :: "string lenient"
  ms_Content :: "claude_block list"

record control_request =
  cr_Subtype :: "string lenient"
  cr_ToolUseID :: "string lenient"
  cr_ToolName :: "string lenient"
  cr_Input :: string
  cr_Description :: "string lenient"

record question_option =
  qo_Label :: string
  qo_Description :: string

record question =
  qn_Question :: string
  qn_Header :: string
  qn_MultiSelect :: bool
  qn_Options :: "question_option list"

section \<open>What is written\<close>

text \<open>The values that the code marshals. The last ones are the lines to the agent.\<close>

datatype claude_data =
    DEmpty
  | DSession string string string string "string list" string
  | DMessageText string string
  | DToolCall string string string string string
  | DToolOutput string string string
  | DToolError string string string
  | DError "int option" bool string
  | DPermission permission_requested
  | DForm form_requested
  | DPermissionResolved string string string
  | DPolicyResolved string string string string
  | DFormResolved string string string "(string \<times> form_value) list option"
  | DUsage claude_usage json_number int int
  | DTurnCompleted string bool
  | DTurnStarted string
  | DAnswers "(string \<times> string) list"
  | DObject "(string \<times> string) list"
  | LUser string
  | LInitialize string
  | LAllow string string
  | LDeny string string

record claude_lib =
  cj_frame :: "string \<Rightarrow> claude_frame option"
  cj_message :: "string \<Rightarrow> claude_message option"
  cj_control :: "string \<Rightarrow> control_request option"
  cj_members :: "string \<Rightarrow> (string \<times> string) list option"
  cj_string :: "string \<Rightarrow> string option"
  cj_compact :: "string \<Rightarrow> string option"
  cj_questions :: "string \<Rightarrow> question list option"
  cj_isJSONObject :: "string \<Rightarrow> bool"
  cj_marshal :: "claude_data \<Rightarrow> string option"
  cj_sha256 :: "string \<Rightarrow> string"

section \<open>Permission requests (permission.go)\<close>

record detail_spec =
  dsp_label :: string
  dsp_key :: string
  dsp_kind :: string

definition dspec :: "string \<Rightarrow> string \<Rightarrow> string \<Rightarrow> detail_spec" where
  "dspec l k d = \<lparr>dsp_label = l, dsp_key = k, dsp_kind = d\<rparr>"

definition knownTools :: "string \<Rightarrow> (string \<times> detail_spec list) option" where
  "knownTools name =
     (if name = ''Bash'' then Some (''command'', [dspec ''command'' ''command'' DetailCommand])
      else if name = ''Write'' then Some (''file_path'', [dspec ''path'' ''file_path'' DetailPath, dspec ''content'' ''content'' DetailText])
      else if name = ''Edit'' then Some (''file_path'', [dspec ''path'' ''file_path'' DetailPath, dspec ''old_string'' ''old_string'' DetailText,
                                                          dspec ''new_string'' ''new_string'' DetailText])
      else if name = ''Read'' then Some (''file_path'', [dspec ''path'' ''file_path'' DetailPath])
      else if name = ''WebFetch'' then Some (''url'', [dspec ''url'' ''url'' DetailURL, dspec ''prompt'' ''prompt'' DetailText])
      else None)"

definition toolKind :: "string \<Rightarrow> string" where
  "toolKind name =
     (if name = ''Read'' then KindRead
      else if name \<in> {''Write'', ''Edit'', ''MultiEdit'', ''NotebookEdit''} then KindEdit
      else if name \<in> {''Grep'', ''Glob'', ''WebSearch''} then KindSearch
      else if name = ''Bash'' then KindExecute
      else if name = ''WebFetch'' then KindFetch
      else KindOther)"

definition valueText :: "claude_lib \<Rightarrow> string \<Rightarrow> string" where
  "valueText lib raw0 =
     (let raw = trim_space raw0 in
      if raw = [] then []
      else (case (if hd raw = CHR 0x22 then cj_string lib raw else None) of
              Some s \<Rightarrow> s
            | None \<Rightarrow> (case cj_compact lib raw of None \<Rightarrow> raw | Some b \<Rightarrow> b)))"

text \<open>The label of an empty key.\<close>

definition emptyKey :: string where
  "emptyKey = CHR ''('' # utf8_encode [0x7A7A, 0x306E, 0x30AD, 0x30FC] @ '')''"

text \<open>The closure \<open>add\<close>: the details so far and whether anything was left out.\<close>

definition add_detail :: "string \<Rightarrow> string \<Rightarrow> string \<Rightarrow> detail list \<times> bool \<Rightarrow> detail list \<times> bool" where
  "add_detail label0 txt0 kind acc =
     (case acc of (ds, truncated) \<Rightarrow>
      if length ds \<ge> MaxDetails then (ds, True)
      else let label1 = (if label0 = [] then emptyKey else label0);
               long = rune_count label1 > MaxDetailLabelLen;
               label = (if long then utf8_encode (take MaxDetailLabelLen (utf8_runes label1)) else label1) in
      (case ClampText txt0 MaxDetailTextLen of
         (txt, was_cut) \<Rightarrow> (ds @ [\<lparr>dt_Label = label, dt_Text = txt, dt_Kind = kind\<rparr>], truncated \<or> long \<or> was_cut)))"

definition member :: "(string \<times> string) list \<Rightarrow> string \<Rightarrow> string" where
  "member ms k = (case map_of ms k of None \<Rightarrow> [] | Some v \<Rightarrow> v)"

definition buildPermission :: "claude_lib \<Rightarrow> string \<Rightarrow> string \<Rightarrow> string \<Rightarrow> string \<Rightarrow> string \<Rightarrow> permission_requested" where
  "buildPermission lib rid callID name input title =
     (let ms = (case cj_members lib input of None \<Rightarrow> [] | Some ms \<Rightarrow> ms);
          known = knownTools name;
          specs = (case known of None \<Rightarrow> [] | Some (_, ds) \<Rightarrow> ds);
          summary = (case known of None \<Rightarrow> SummaryLine name MaxSummaryLen
                     | Some (k, _) \<Rightarrow> SummaryLine (name @ '': '' @ valueText lib (member ms k)) MaxSummaryLen);
          acc1 = fold (\<lambda>d. add_detail (dsp_label d) (valueText lib (member ms (dsp_key d))) (dsp_kind d)) specs ([], False);
          keys = sort (filter (\<lambda>k. k \<notin> dsp_key ` set specs) (map fst ms));
          acc2 = fold (\<lambda>k. add_detail k (valueText lib (member ms k)) DetailText) keys acc1 in
      \<lparr>pr_RequestID = rid, pr_CallID = callID, pr_ToolName = name, pr_Kind = toolKind name, pr_Input = input, pr_Title = title,
       pr_Summary = summary, pr_Details = fst acc2, pr_DetailsTruncated = snd acc2, pr_ContentHash = []\<rparr>)"

section \<open>Questions (form.go)\<close>

definition askUserQuestion :: string where "askUserQuestion = ''AskUserQuestion''"
definition formDenyMessage :: string where "formDenyMessage = ''The user declined to answer the questions.''"

record form_field_pending =
  ffp_key :: string
  ffp_question :: string
  ffp_multi :: bool

definition clampShown :: "string \<Rightarrow> nat \<Rightarrow> string" where
  "clampShown s m = (if rune_count s \<le> m then s else utf8_encode (take (m - 1) (utf8_runes s)) @ ellipsis)"

definition question_field :: "nat \<Rightarrow> question \<Rightarrow> form_field" where
  "question_field i q =
     \<lparr>fd_Key = ''q'' @ format_uint i, fd_Title = clampShown (qn_Header q) MaxFormTitleLen,
      fd_Description = clampShown (qn_Question q) MaxFormDescription, fd_Type = (if qn_MultiSelect q then FieldMultiselect else FieldSelect),
      fd_Options = map (\<lambda>x. \<lparr>fo_Label = qo_Label x, fo_Value = qo_Label x, fo_Description = clampShown (qo_Description x) MaxFormDescription\<rparr>) (qn_Options q),
      fd_Custom = True, fd_Required = False\<rparr>"

fun form_fields :: "nat \<Rightarrow> string list \<Rightarrow> question list \<Rightarrow> (form_field \<times> form_field_pending) list option" where
  "form_fields i texts [] = Some []"
| "form_fields i texts (q # qs) =
     (if qn_Question q = [] \<or> qn_Question q \<in> set texts then None
      else map_option (\<lambda>r. (question_field i q, \<lparr>ffp_key = ''q'' @ format_uint i, ffp_question = qn_Question q, ffp_multi = qn_MultiSelect q\<rparr>) # r)
             (form_fields (i + 1) (qn_Question q # texts) qs))"

definition buildForm :: "claude_lib \<Rightarrow> string \<Rightarrow> string \<Rightarrow> string \<Rightarrow> (form_requested \<times> form_field_pending list) option" where
  "buildForm lib rid callID input =
     (case cj_questions lib input of
        None \<Rightarrow> None
      | Some qs \<Rightarrow>
          (case form_fields 0 [] qs of
             None \<Rightarrow> None
           | Some fs \<Rightarrow>
               let form = \<lparr>fr_RequestID = rid, fr_CallID = callID, fr_Kind = FormKindQuestion, fr_Title = [], fr_Fields = map fst fs, fr_ContentHash = []\<rparr> in
               if failed (Form_Validate form) then None else Some (form, map snd fs)))"

text \<open>The map \<open>answers\<close> by question, one entry per answer that is not empty.\<close>

fun answer_texts :: "form_field_pending list \<Rightarrow> (string \<times> form_value) list \<Rightarrow> (string \<times> string) list \<Rightarrow> (string \<times> string) list option" where
  "answer_texts pfs [] acc = Some acc"
| "answer_texts pfs ((k, v) # r) acc =
     (case map_of (rev (map (\<lambda>f. (ffp_key f, f)) pfs)) k of
        None \<Rightarrow> None
      | Some fd \<Rightarrow>
          if fv_Multi v \<noteq> ffp_multi fd \<or> (\<not> fv_Multi v \<and> length (fv_Values v) \<noteq> 1) \<or> length (fv_Values v) > MaxFormAnswerValues then None
          else if \<exists>s\<in>set (fv_Values v). rune_count s > MaxFormAnswerText then None
          else let txt = join '', '' (fv_Values v) in
          answer_texts pfs r (if txt = [] then acc else filter (\<lambda>(q, _). q \<noteq> ffp_question fd) acc @ [(ffp_question fd, txt)]))"

definition answersInput :: "claude_lib \<Rightarrow> form_field_pending list \<Rightarrow> string \<Rightarrow> (string \<times> form_value) list \<Rightarrow> string option" where
  "answersInput lib pfs input answer =
     (case answer_texts pfs answer [] of
        None \<Rightarrow> None
      | Some answers \<Rightarrow>
          (case cj_members lib input of
             None \<Rightarrow> None
           | Some ms \<Rightarrow>
               let kept = filter (\<lambda>(k, _). \<not> (k \<noteq> ''answers'' \<and> equal_fold k ''answers'')) ms in
               (case cj_marshal lib (DAnswers answers) of
                  None \<Rightarrow> None
                | Some a \<Rightarrow> cj_marshal lib (DObject (filter (\<lambda>(k, _). k \<noteq> ''answers'') kept @ [(''answers'', a)])))))"

section \<open>The stream (claude.go)\<close>

definition Claude_Name :: string where "Claude_Name = ''claude''"
definition initRequestID :: string where "initRequestID = ''goronation-init''"
definition outcomeCancelled :: string where "outcomeCancelled = ''cancelled''"
definition denyMessage :: string where "denyMessage = ''The user denied this tool use.''"
definition maxPendingRequests :: nat where "maxPendingRequests = 64"
definition maxSeenRequests :: nat where "maxSeenRequests = 2 ^ 17"

text \<open>The message when no more requests are taken, and the one for questions that are no form.\<close>

definition permissionLimitMessage :: string where
  "permissionLimitMessage =
     ''claude: '' @
     utf8_encode [0x6A29, 0x9650, 0x8981, 0x6C42, 0x306E, 0x4E0A, 0x9650, 0x306B, 0x9054, 0x3057, 0x305F, 0x305F, 0x3081, 0x3001, 0x3053, 0x306E, 0x8981, 0x6C42, 0x306F, 0x627F, 0x8A8D, 0x3067, 0x304D, 0x306A, 0x3044] @
     '' (claude '' @
     utf8_encode [0x306F, 0x5FDC, 0x7B54, 0x3092, 0x5F85, 0x3061, 0x7D9A, 0x3051, 0x3066, 0x3044, 0x308B] @
     '')''"

definition formInvalidMessage :: string where
  "formInvalidMessage =
     ''claude: AskUserQuestion '' @
     utf8_encode [0x306E, 0x5F62, 0x304C] @
     '' form '' @
     utf8_encode [0x306B, 0x3067, 0x304D, 0x306A, 0x3044, 0x305F, 0x3081, 0x3001, 0x3053, 0x306E, 0x8CEA, 0x554F, 0x306B, 0x306F, 0x7B54, 0x3048, 0x3089, 0x308C, 0x306A, 0x3044] @
     '' (claude '' @
     utf8_encode [0x306F, 0x5FDC, 0x7B54, 0x3092, 0x5F85, 0x3061, 0x7D9A, 0x3051, 0x3066, 0x3044, 0x308B] @
     '')''"

record pending_request =
  pn_input :: string
  pn_seq :: nat
  pn_form :: "form_field_pending list option"

record claude_stream =
  cs_sawInit :: bool
  cs_sentInit :: bool
  cs_pending :: "(string \<times> pending_request) list"
  cs_seen :: "string list"
  cs_nextSeq :: nat

definition NewStream :: claude_stream where
  "NewStream = \<lparr>cs_sawInit = False, cs_sentInit = False, cs_pending = [], cs_seen = [], cs_nextSeq = 0\<rparr>"

definition settle :: "string \<Rightarrow> claude_stream \<Rightarrow> claude_stream" where
  "settle rid s = s\<lparr>cs_pending := filter (\<lambda>(k, _). k \<noteq> rid) (cs_pending s)\<rparr>"

definition isObject :: "string \<Rightarrow> bool" where
  "isObject m = (case trim_space m of [] \<Rightarrow> False | c # _ \<Rightarrow> c = CHR ''{'')"

definition orNull :: "string \<Rightarrow> string" where
  "orNull m = (if length m = 0 then ''null'' else m)"

definition retryable :: "int option \<Rightarrow> bool" where
  "retryable status = (case status of None \<Rightarrow> False | Some n \<Rightarrow> n = 429 \<or> n \<ge> 500)"

definition stopReason :: "string \<Rightarrow> string" where
  "stopReason s = (if s = StopMaxTokens \<or> s = StopRefusal then s else StopEndTurn)"

text \<open>The closure \<open>ev\<close>, for the line \<open>raw\<close>, and one event of it.\<close>

definition ev :: "claude_lib \<Rightarrow> string \<Rightarrow> string \<Rightarrow> bool \<Rightarrow> claude_data \<Rightarrow> unit + envelope" where
  "ev lib raw typ durable data =
     (case cj_marshal lib data of
        None \<Rightarrow> Inl ()
      | Some b \<Rightarrow> Inr \<lparr>env_V = Version, env_ID = [], env_TS = [], env_Session = [], env_Seq = 0, env_Type = typ, env_Durable = durable,
                       env_Origin = None, env_Data = b, env_Raw = raw\<rparr>)"

definition one_event :: "claude_lib \<Rightarrow> string \<Rightarrow> string \<Rightarrow> bool \<Rightarrow> claude_data \<Rightarrow> unit + envelope list" where
  "one_event lib raw typ durable data = bindR (ev lib raw typ durable data) (\<lambda>e. Inr [e])"

definition unknown :: "claude_lib \<Rightarrow> string \<Rightarrow> unit + envelope list" where
  "unknown lib raw = one_event lib raw TypeAgentFrame False DEmpty"

fun each_event :: "('a \<Rightarrow> unit + envelope list) \<Rightarrow> 'a list \<Rightarrow> unit + envelope list" where
  "each_event f [] = Inr []"
| "each_event f (x # xs) = bindR (f x) (\<lambda>es. bindR (each_event f xs) (\<lambda>rest. Inr (es @ rest)))"

definition cancelled_data :: "string \<Rightarrow> pending_request \<Rightarrow> string \<times> claude_data" where
  "cancelled_data rid req =
     (case pn_form req of
        Some _ \<Rightarrow> (TypeFormResolved, DFormResolved ''agent'' FormCancelled rid None)
      | None \<Rightarrow> (TypePermissionResolved, DPermissionResolved ''agent'' outcomeCancelled rid))"

definition cancelled :: "claude_lib \<Rightarrow> string \<Rightarrow> string \<Rightarrow> pending_request \<Rightarrow> unit + envelope" where
  "cancelled lib raw rid req = (case cancelled_data rid req of (typ, d) \<Rightarrow> ev lib raw typ True d)"

subsection \<open>Output of the agent\<close>

definition assistant_block :: "claude_lib \<Rightarrow> string \<Rightarrow> string \<Rightarrow> claude_block \<Rightarrow> unit + envelope list" where
  "assistant_block lib raw mid b =
     (if le_V (bk_Type b) = ''text'' then one_event lib raw TypeMessageText True (DMessageText mid (le_V (bk_Text b)))
      else if le_V (bk_Type b) = ''tool_use''
      then one_event lib raw TypeToolCall True (DToolCall (le_V (bk_ID b)) (le_V (bk_Name b)) (toolKind (le_V (bk_Name b))) (orNull (bk_Input b)) ToolInProgress)
      else unknown lib raw)"

definition user_block :: "claude_lib \<Rightarrow> string \<Rightarrow> claude_block \<Rightarrow> unit + envelope list" where
  "user_block lib raw b =
     (if le_V (bk_Type b) \<noteq> ''tool_result'' then Inr []
      else if le_V (bk_IsError b) \<or> le_Bad (bk_IsError b)
      then one_event lib raw TypeToolUpdate True (DToolError (le_V (bk_ToolUseID b)) ToolFailed (orNull (bk_Content b)))
      else one_event lib raw TypeToolUpdate True (DToolOutput (le_V (bk_ToolUseID b)) ToolCompleted (orNull (bk_Content b))))"

text \<open>The events of the blocks of a message, or an unknown frame when there are none.\<close>

definition message_events :: "claude_lib \<Rightarrow> string \<Rightarrow> (claude_message \<Rightarrow> claude_block \<Rightarrow> unit + envelope list) \<Rightarrow> string \<Rightarrow> unit + envelope list" where
  "message_events lib raw f msg =
     (case cj_message lib msg of
        None \<Rightarrow> unknown lib raw
      | Some m \<Rightarrow> bindR (each_event (f m) (ms_Content m)) (\<lambda>out. if length out = 0 then unknown lib raw else Inr out))"

definition hold :: "string \<Rightarrow> string \<Rightarrow> form_field_pending list option \<Rightarrow> claude_stream \<Rightarrow> claude_stream" where
  "hold rid input form s =
     s\<lparr>cs_nextSeq := cs_nextSeq s + 1,
       cs_pending := filter (\<lambda>(k, _). k \<noteq> rid) (cs_pending s) @ [(rid, \<lparr>pn_input = input, pn_seq = cs_nextSeq s + 1, pn_form = form\<rparr>)]\<rparr>"

definition decode_control :: "claude_lib \<Rightarrow> string \<Rightarrow> claude_frame \<Rightarrow> claude_stream \<Rightarrow> (unit + envelope list) \<times> claude_stream" where
  "decode_control lib raw f s =
     (case cj_control lib (ff_Request f) of
        None \<Rightarrow> (unknown lib raw, s)
      | Some r \<Rightarrow>
          let rid = le_V (ff_RequestID f) in
          if le_V (cr_Subtype r) \<noteq> ''can_use_tool'' \<or> le_Bad (ff_RequestID f) \<or> rid = [] \<or> le_Bad (cr_ToolName r) \<or> le_V (cr_ToolName r) = [] \<or>
             \<not> isObject (cr_Input r) then (unknown lib raw, s)
          else let key = cj_sha256 lib rid in
          if key \<in> set (cs_seen s) then (unknown lib raw, s)
          else if length (cs_pending s) \<ge> maxPendingRequests \<or> length (cs_seen s) \<ge> maxSeenRequests
          then (one_event lib raw TypeError True (DError None False permissionLimitMessage), s)
          else let s1 = s\<lparr>cs_seen := cs_seen s @ [key]\<rparr> in
          if le_V (cr_ToolName r) = askUserQuestion then
            (case buildForm lib rid (le_V (cr_ToolUseID r)) (cr_Input r) of
               None \<Rightarrow> (bindR (ev lib raw TypeAgentFrame False DEmpty) (\<lambda>a.
                        bindR (ev lib raw TypeError True (DError None False formInvalidMessage)) (\<lambda>x. Inr [a, x])), s1)
             | Some (form, pf) \<Rightarrow> (one_event lib raw TypeFormRequested True (DForm form), hold rid (cr_Input r) (Some pf) s1))
          else let perm = buildPermission lib rid (le_V (cr_ToolUseID r)) (le_V (cr_ToolName r)) (cr_Input r) (le_V (cr_Description r)) in
          if failed (Permission_Validate (cj_isJSONObject lib) perm) then (unknown lib raw, s1)
          else (one_event lib raw TypePermissionRequested True (DPermission perm), hold rid (cr_Input r) None s1))"

definition decode_cancel :: "claude_lib \<Rightarrow> string \<Rightarrow> claude_frame \<Rightarrow> claude_stream \<Rightarrow> (unit + envelope list) \<times> claude_stream" where
  "decode_cancel lib raw f s =
     (let rid = le_V (ff_RequestID f); s1 = settle rid s in
      case map_of (cs_pending s) rid of
        None \<Rightarrow> (unknown lib raw, s1)
      | Some req \<Rightarrow> if le_Bad (ff_RequestID f) then (unknown lib raw, s1)
                    else (bindR (cancelled lib raw rid req) (\<lambda>e. Inr [e]), s1))"

text \<open>The loop that closes what is still open, oldest first; it stops at a failure.\<close>

fun cancel_all :: "claude_lib \<Rightarrow> string \<Rightarrow> (string \<times> pending_request) list \<Rightarrow> claude_stream \<Rightarrow> (unit + envelope list) \<times> claude_stream" where
  "cancel_all lib raw [] s = (Inr [], s)"
| "cancel_all lib raw ((rid, req) # rs) s =
     (let s1 = settle rid s in
      case cancelled lib raw rid req of
        Inl e \<Rightarrow> (Inl e, s1)
      | Inr x \<Rightarrow> (case cancel_all lib raw rs s1 of (r, s2) \<Rightarrow> (bindR r (\<lambda>out. Inr (x # out)), s2)))"

definition result_events :: "claude_lib \<Rightarrow> string \<Rightarrow> claude_frame \<Rightarrow> unit + envelope list" where
  "result_events lib raw f =
     (let window = fold (\<lambda>(_, m) w. max w (mu_ContextWindow m)) (le_V (ff_ModelUsage f)) 0;
          maxOut = fold (\<lambda>(_, m) w. max w (mu_MaxOutputTokens m)) (le_V (ff_ModelUsage f)) 0 in
      bindR (ev lib raw TypeUsage True (DUsage (le_V (ff_Usage f)) (le_V (ff_TotalCostUSD f)) window maxOut)) (\<lambda>u.
      if le_V (ff_IsError f) \<or> le_Bad (ff_IsError f) then
        let msg = (if le_V (ff_Result f) = [] then le_V (ff_TerminalReason f) else le_V (ff_Result f)) in
        bindR (ev lib raw TypeError True (DError (le_V (ff_APIErrorStatus f)) (retryable (le_V (ff_APIErrorStatus f))) msg)) (\<lambda>x.
        bindR (ev lib raw TypeTurnCompleted True (DTurnCompleted StopError True)) (\<lambda>t. Inr [x, u, t]))
      else bindR (ev lib raw TypeTurnCompleted True (DTurnCompleted (stopReason (le_V (ff_StopReason f))) False)) (\<lambda>t. Inr [u, t])))"

definition decode_result :: "claude_lib \<Rightarrow> string \<Rightarrow> claude_frame \<Rightarrow> claude_stream \<Rightarrow> (unit + envelope list) \<times> claude_stream" where
  "decode_result lib raw f s =
     (case cancel_all lib raw (sort_key (\<lambda>(_, req). pn_seq req) (cs_pending s)) s of
        (Inl e, s1) \<Rightarrow> (Inl e, s1)
      | (Inr out, s1) \<Rightarrow> (bindR (result_events lib raw f) (\<lambda>es. Inr (out @ es)), s1))"

definition claude_DecodeFrame :: "claude_lib \<Rightarrow> string \<Rightarrow> claude_stream \<Rightarrow> (unit + envelope list) \<times> claude_stream" where
  "claude_DecodeFrame lib raw s =
     (case cj_frame lib raw of
        None \<Rightarrow> (Inl (), s)
      | Some f \<Rightarrow>
          let typ = le_V (ff_Type f); sub = le_V (ff_Subtype f) in
          if typ = ''system'' \<and> sub = ''init'' then
            (if cs_sawInit s then (unknown lib raw, s)
             else (one_event lib raw TypeSessionStarted True
                     (DSession Claude_Name (le_V (ff_SessionID f)) (le_V (ff_Cwd f)) (le_V (ff_Model f)) (le_V (ff_Tools f)) (le_V (ff_PermissionMode f))),
                   s\<lparr>cs_sawInit := True\<rparr>))
          else if typ = ''assistant'' \<and> (le_V (ff_IsAPIErrorMessage f) \<or> le_Bad (ff_IsAPIErrorMessage f)) then (unknown lib raw, s)
          else if typ = ''assistant'' then (message_events lib raw (\<lambda>m. assistant_block lib raw (le_V (ms_ID m))) (ff_Message f), s)
          else if typ = ''control_request'' then decode_control lib raw f s
          else if typ = ''control_cancel_request'' then decode_cancel lib raw f s
          else if typ = ''system'' \<and> sub = ''permission_denied''
          then (one_event lib raw TypePermissionResolved True (DPolicyResolved ''policy'' RejectOnce (le_V (ff_ToolUseID f)) (le_V (ff_ToolName f))), s)
          else if typ = ''user'' then (message_events lib raw (\<lambda>m. user_block lib raw) (ff_Message f), s)
          else if typ = ''result'' then decode_result lib raw f s
          else (unknown lib raw, s))"

subsection \<open>Input of the agent\<close>

definition line_of :: "claude_lib \<Rightarrow> claude_data \<Rightarrow> string option" where
  "line_of lib d = map_option (\<lambda>b. b @ [CHR 0x0A]) (cj_marshal lib d)"

definition made :: "claude_lib \<Rightarrow> string \<Rightarrow> claude_data \<Rightarrow> envelope option" where
  "made lib typ d = (case ev lib [] typ True d of Inl _ \<Rightarrow> None | Inr e \<Rightarrow> Some e)"

text \<open>The flag of the first prompt is set before its event is written.\<close>

definition encodePrompt :: "claude_lib \<Rightarrow> command_data \<Rightarrow> claude_stream \<Rightarrow> (unit + string \<times> envelope list) \<times> claude_stream" where
  "encodePrompt lib d s =
     (case d of
        PromptText txt \<Rightarrow>
          if txt = [] then (Inl (), s)
          else (case line_of lib (LUser txt) of
            None \<Rightarrow> (Inl (), s)
          | Some out \<Rightarrow>
              (case (if cs_sentInit s then Some (out, s)
                     else map_option (\<lambda>l. (l @ out, s\<lparr>cs_sentInit := True\<rparr>)) (line_of lib (LInitialize initRequestID))) of
                 None \<Rightarrow> (Inl (), s)
               | Some (out1, s1) \<Rightarrow>
                   (case made lib TypeTurnStarted (DTurnStarted txt) of
                      None \<Rightarrow> (Inl (), s1) | Some e \<Rightarrow> (Inr (out1, [e]), s1))))
      | _ \<Rightarrow> (Inl (), s))"

text \<open>A line and its event, after the request was settled.\<close>

definition answered :: "claude_lib \<Rightarrow> claude_data \<Rightarrow> string \<Rightarrow> claude_data \<Rightarrow> unit + string \<times> envelope list" where
  "answered lib l typ d =
     (case line_of lib l of
        None \<Rightarrow> Inl ()
      | Some out \<Rightarrow> (case made lib typ d of None \<Rightarrow> Inl () | Some e \<Rightarrow> Inr (out, [e])))"

definition encodePermissionResolve :: "claude_lib \<Rightarrow> command_data \<Rightarrow> claude_stream \<Rightarrow> (unit + string \<times> envelope list) \<times> claude_stream" where
  "encodePermissionResolve lib d s =
     (case d of
        PermissionAnswer rid outcome \<Rightarrow>
          (case map_of (cs_pending s) rid of
             None \<Rightarrow> (Inl (), s)
           | Some p \<Rightarrow>
               if pn_form p \<noteq> None then (Inl (), s)
               else if outcome \<noteq> AllowOnce \<and> outcome \<noteq> RejectOnce then (Inl (), s)
               else (answered lib (if outcome = AllowOnce then LAllow rid (pn_input p) else LDeny rid denyMessage)
                       TypePermissionResolved (DPermissionResolved ''human'' outcome rid), settle rid s))
      | _ \<Rightarrow> (Inl (), s))"

definition encodeFormResolve :: "claude_lib \<Rightarrow> command_data \<Rightarrow> claude_stream \<Rightarrow> (unit + string \<times> envelope list) \<times> claude_stream" where
  "encodeFormResolve lib d s =
     (case d of
        FormAnswer r \<Rightarrow>
          (case map_of (cs_pending s) (fs_RequestID r) of
             None \<Rightarrow> (Inl (), s)
           | Some p \<Rightarrow>
               (case pn_form p of
                  None \<Rightarrow> (Inl (), s)
                | Some pfs \<Rightarrow>
                    (case (if fs_Outcome r = FormAnswered then map_option (LAllow (fs_RequestID r)) (answersInput lib pfs (pn_input p) (fs_Answer r))
                           else if fs_Outcome r = FormCancelled then (if fs_Answer r \<noteq> [] then None else Some (LDeny (fs_RequestID r) formDenyMessage))
                           else None) of
                       None \<Rightarrow> (Inl (), s)
                     | Some l \<Rightarrow>
                         (case answered lib l TypeFormResolved
                                 (DFormResolved ''human'' (fs_Outcome r) (fs_RequestID r) (if fs_Outcome r = FormAnswered then Some (fs_Answer r) else None)) of
                            Inl e \<Rightarrow> (Inl e, s)
                          | Inr x \<Rightarrow> (Inr x, settle (fs_RequestID r) s)))))
      | _ \<Rightarrow> (Inl (), s))"

definition claude_EncodeCommand :: "claude_lib \<Rightarrow> command \<Rightarrow> claude_stream \<Rightarrow> (unit + string \<times> envelope list) \<times> claude_stream" where
  "claude_EncodeCommand lib cmd s =
     (if cmd_Type cmd = CommandPrompt then encodePrompt lib (cmd_Data cmd) s
      else if cmd_Type cmd = CommandPermissionResolve then encodePermissionResolve lib (cmd_Data cmd) s
      else if cmd_Type cmd = CommandFormResolve then encodeFormResolve lib (cmd_Data cmd) s
      else (Inl (), s))"

definition Claude :: "claude_lib \<Rightarrow> claude_stream agent_stream" where
  "Claude lib = \<lparr>DecodeFrame = claude_DecodeFrame lib, EncodeCommand = claude_EncodeCommand lib\<rparr>"

end
