(* ===== verification/Chat_Contract.thy ===== *)
theory Chat_Contract
  imports Chat_Conversation
begin

text \<open>
  The contract between a conversation and the adapter of its agent, as a locale: a relation \<open>J\<close> between the state of the adapter
  and the published events that the adapter keeps with what it emits. The conversation then keeps it over every call,
  because all it publishes are events of the adapter and events of its own, which are no requests.
\<close>

text \<open>The relation for a conversation whose next events may be those of \<open>X\<close>.\<close>

definition within :: "('s \<Rightarrow> event set \<Rightarrow> bool) \<Rightarrow> 's conv \<Rightarrow> event set \<Rightarrow> bool" where
  "within J c X \<longleftrightarrow> J (cv_stream c) (set (cv_published c) \<union> X)"

lemma within_same: "cv_stream c' = cv_stream c \<Longrightarrow> cv_published c' = cv_published c \<Longrightarrow> within J c X \<Longrightarrow> within J c' X"
  by (simp add: within_def)

lemma settle_same [simp]: "within J (settleLocked lib i c) X \<longleftrightarrow> within J c X"
  by (simp add: within_def)

lemma write_same: "write_line E cmd raw c = (b, c') \<Longrightarrow> within J c' X \<longleftrightarrow> within J c X"
  by (auto simp: write_line_def within_def split: if_splits)

lemma line_event_same:
  "line_event lib e (acc, c) = (acc', c') \<Longrightarrow>
   cv_stream c' = cv_stream c \<and> cv_published c' = cv_published c \<and> set (la_publish acc') \<subseteq> insert e (set (la_publish acc))"
  by (auto simp: line_event_def pass_on_def split: if_splits option.splits)

lemma line_fold_same:
  "fold (line_event lib) es (acc, c) = (acc', c') \<Longrightarrow>
   cv_stream c' = cv_stream c \<and> cv_published c' = cv_published c \<and> set (la_publish acc') \<subseteq> set es \<union> set (la_publish acc)"
proof (induction es arbitrary: acc c)
  case (Cons e es)
  obtain acc1 c1 where l: "line_event lib e (acc, c) = (acc1, c1)" by force
  show ?case using Cons.IH [of acc1 c1] Cons.prems l line_event_same [OF l] by auto
qed auto

lemma feed_Emit_other:
  assumes "feed_Emit lib E typ d data c = (r, c')" "typ \<notin> {TypePermissionRequested, TypeFormRequested}"
  shows "cv_stream c' = cv_stream c \<and> cv_published c' = cv_published c \<and> (\<forall>e. r = Inr e \<longrightarrow> ev_Type e = typ)"
proof (cases "marshalLine (cl_emit lib data)")
  case (Inl x)
  then show ?thesis using assms by (auto simp: feed_Emit_def)
next
  case (Inr b)
  then show ?thesis
    using assms by (auto simp: feed_Emit_def make_events_def sealRequest_def Let_def bindR_def split: sum.splits)
qed

locale conv_contract =
  fixes S :: "'s agent_stream" and lib :: chat_lib and J :: "'s \<Rightarrow> event set \<Rightarrow> bool"
  assumes fewer: "\<lbrakk>J s P; Q \<subseteq> P\<rbrakk> \<Longrightarrow> J s Q"
    and other: "\<lbrakk>J s P; ev_Type e \<notin> {TypePermissionRequested, TypeFormRequested}\<rbrakk> \<Longrightarrow> J s (insert e P)"
    and decode_only: "\<lbrakk>J s P; DecodeFrame S line s = (r, s')\<rbrakk> \<Longrightarrow> J s' P"
    and decode: "\<lbrakk>J s P; DecodeFrame S line s = (Inr envs, s'); feed_events lib ts session seq envs = Inr evs\<rbrakk> \<Longrightarrow> J s' (P \<union> set evs)"
    and encode_only: "\<lbrakk>J s P; EncodeCommand S cmd s = (r', s')\<rbrakk> \<Longrightarrow> J s' P"
    and encode: "\<lbrakk>J s P; EncodeCommand S cmd s = (Inr (raw, envs), s'); feed_events lib ts session seq envs = Inr evs\<rbrakk> \<Longrightarrow> J s' (P \<union> set evs)"
begin

lemma update: "within J c (set es \<union> X) \<Longrightarrow> within J (hub_update E es p u c) X"
  by (auto simp: within_def hub_update_def Un_assoc Un_left_commute elim!: fewer)

lemma less: "within J c X \<Longrightarrow> Y \<subseteq> X \<Longrightarrow> within J c Y"
  unfolding within_def by (erule fewer) blast

lemma emitted:
  assumes "feed_Emit lib E typ d data c = (r, c')" "typ \<notin> {TypePermissionRequested, TypeFormRequested}" "within J c X"
  shows "within J c' X" "r = Inr e \<Longrightarrow> within J c' (insert e X)"
  using feed_Emit_other [OF assms(1,2)] assms(2,3) other by (auto simp: within_def)

lemma resolved_other: "resolved_type f \<notin> {TypePermissionRequested, TypeFormRequested}" "TypeError \<notin> {TypePermissionRequested, TypeFormRequested}"
  by (simp_all add: resolved_type_def v0_types)

lemma emitResolved: "within J c X \<Longrightarrow> within J (emitResolvedLocked lib E rid f out c) X"
  using emitted [OF _ resolved_other(1)] by (fastforce simp: emitResolvedLocked_def split: prod.splits sum.splits intro: update)

lemma expire_loop: "within J c X \<Longrightarrow> expire_loop lib E xs c = (out, c') \<Longrightarrow> within J c' (set out \<union> X)"
proof (induction xs arbitrary: c X out c')
  case (Cons x xs)
  obtain rid it where x: "x = (rid, it)" by force
  let ?c1 = "settleLocked lib rid c"
  let ?c2 = "?c1\<lparr>cv_orphans := insert (cl_sha256 lib rid) (cv_orphans ?c1)\<rparr>"
  obtain r c3 where e: "feed_Emit lib E (resolved_type (pi_form it \<noteq> None)) True (EmitResolved ''cancelled'' rid) ?c2 = (r, c3)" by force
  obtain out1 c4 where l: "expire_loop lib E xs c3 = (out1, c4)" by force
  have "within J ?c2 X" using Cons.prems(1) settle_same [of J lib rid c X] by (simp add: within_def)
  note w = emitted [OF e resolved_other(1) this]
  have "c' = c4" "out = (case r of Inl _ \<Rightarrow> out1 | Inr e \<Rightarrow> e # out1)" using Cons.prems(2) e l by (auto simp: x Let_def split: sum.splits)
  moreover have "within J c4 (set out1 \<union> X)" by (rule Cons.IH [OF w(1) l])
  moreover have "within J c4 (set out1 \<union> insert e X)" if "r = Inr e" for e by (rule Cons.IH [OF w(2) [OF that] l])
  ultimately show ?case by (auto split: sum.splits)
qed simp

lemma expireAll: "within J c X \<Longrightarrow> within J (expireAllLocked lib E c) X"
  using expire_loop by (fastforce simp: expireAllLocked_def Let_def split: prod.splits intro: update)

lemma fail: 
  assumes "within J c X"
  shows "within J (failLocked lib E c) X"
proof -
  let ?c1 = "expireAllLocked lib E (c\<lparr>cv_state := StateClosed, cv_stopped := True, cv_stopOnce := True\<rparr>)"
  obtain r c2 where e: "feed_Emit lib E TypeError True EmitWriteError ?c1 = (r, c2)" by force
  have "within J ?c1 X" by (rule expireAll, rule within_same [OF _ _ assms]) simp_all
  note w = emitted [OF e resolved_other(2) this]
  show ?thesis
  proof (cases r)
    case (Inl x)
    then show ?thesis using w(1) e by (simp add: failLocked_def)
  next
    case (Inr x)
    then show ?thesis using w(2) [OF Inr] e by (simp add: failLocked_def update)
  qed
qed

lemma encoded:
  assumes "feed_Encode S lib E cmd c = (r, c')" "within J c X"
  shows "within J c' X" "r = Inr (raw, evs) \<Longrightarrow> within J c' (set evs \<union> X)"
proof -
  obtain q st where q: "EncodeCommand S cmd (cv_stream c) = (q, st)" by force
  have s: "cv_published c' = cv_published c \<and> cv_stream c' = st"
    using assms(1) q by (auto simp: feed_Encode_def make_events_def split: sum.splits prod.splits)
  then show "within J c' X" using encode_only [OF assms(2) [unfolded within_def] q] by (simp add: within_def)
  assume r: "r = Inr (raw, evs)"
  then obtain envs where "q = Inr (raw, envs)" "feed_events lib (ce_now E (cv_seq c)) (cv_session c) (cv_seq c) envs = Inr evs"
    using assms(1) q by (auto simp: feed_Encode_def make_events_def split: sum.splits prod.splits)
  then show "within J c' (set evs \<union> X)"
    using encode [OF assms(2) [unfolded within_def], of cmd raw envs st] q s by (simp add: within_def Un_ac)
qed

lemma decoded:
  assumes "feed_Decode S lib E line c = (r, c')" "within J c X"
  shows "within J c' X" "r = Inr evs \<Longrightarrow> within J c' (set evs \<union> X)"
proof -
  obtain q st where q: "DecodeFrame S line (cv_stream c) = (q, st)" by force
  have s: "cv_published c' = cv_published c \<and> cv_stream c' = st"
    using assms(1) q by (auto simp: feed_Decode_def make_events_def split: sum.splits prod.splits)
  then show "within J c' X" using decode_only [OF assms(2) [unfolded within_def] q] by (simp add: within_def)
  assume r: "r = Inr evs"
  then obtain envs where "q = Inr envs" "feed_events lib (ce_now E (cv_seq c)) (cv_session c) (cv_seq c) envs = Inr evs"
    using assms(1) q by (auto simp: feed_Decode_def make_events_def split: sum.splits prod.splits)
  then show "within J c' (set evs \<union> X)"
    using decode [OF assms(2) [unfolded within_def], of line envs st] q s by (simp add: within_def Un_ac)
qed

lemma quiet:
  assumes "feed_EncodeQuiet S cmd c = (r, c')" "within J c X"
  shows "within J c' X"
proof -
  obtain q st where q: "EncodeCommand S cmd (cv_stream c) = (q, st)" by force
  have "cv_published c' = cv_published c \<and> cv_stream c' = st" using assms(1) q by (auto simp: feed_EncodeQuiet_def split: sum.splits prod.splits)
  then show ?thesis using encode_only [OF assms(2) [unfolded within_def] q] by (simp add: within_def)
qed

lemma answer:
  assumes "writeResolveLocked S lib E rid it cmd c = (err, c')" "within J c {}"
  shows "within J c' {}"
proof -
  obtain r c1 where f: "feed_Encode S lib E cmd c = (r, c1)" by force
  note w = encoded [OF f assms(2)]
  show ?thesis
  proof (cases r)
    case (Inl x)
    then show ?thesis using assms(1) f w(1) by (auto simp: writeResolveLocked_def intro!: update)
  next
    case (Inr z)
    obtain raw evs where z: "z = (raw, evs)" by force
    obtain b c2 where l: "write_line E cmd raw (settleLocked lib rid c1) = (b, c2)" by force
    have "within J c2 {}" "within J c2 (set evs)" using w Inr z write_same [OF l] by auto
    then show ?thesis using assms(1) f l Inr z by (cases b) (auto simp: writeResolveLocked_def intro!: update fail emitResolved)
  qed
qed

lemma send:
  assumes "Send S lib E t c = (err, c')" "within J c {}"
  shows "within J c' {}"
proof (cases "c' = c")
  case False
  let ?cmd = "\<lparr>cmd_V = Version, cmd_Type = CommandPrompt, cmd_Data = PromptText t\<rparr>"
  obtain r c1 where f: "feed_Encode S lib E ?cmd c = (r, c1)" by force
  note w = encoded [OF f assms(2)]
  show ?thesis
  proof (cases r)
    case (Inl x)
    then show ?thesis using assms(1) f w(1) False by (auto simp: Send_def split: if_splits)
  next
    case (Inr z)
    obtain raw evs where z: "z = (raw, evs)" by force
    obtain b c2 where l: "write_line E ?cmd raw c1 = (b, c2)" by force
    have n: "within J c2 {}" "within J c2 (set evs)" using w Inr z write_same [OF l] by auto
    have "within J (c2\<lparr>cv_state := StateTurn\<rparr>) (set evs \<union> {})" using n(2) by (simp add: within_def)
    from update [OF this] n(1) show ?thesis using assms(1) f l Inr z False by (cases b) (auto simp: Send_def Let_def split: if_splits intro!: fail)
  qed
qed (use assms in simp)

lemma autoReject: "within J c {} \<Longrightarrow> within J (autoRejectLocked S lib E x c) {}"
proof -
  assume a: "within J c {}"
  obtain rid f where x: "x = (rid, f)" by force
  let ?c1 = "settleLocked lib rid c"
  have a1: "within J ?c1 {}" using a by simp
  obtain r c2 where q: "feed_EncodeQuiet S (reject_command rid f) ?c1 = (r, c2)" by force
  note w = quiet [OF q a1]
  have o: "within J (?c1\<lparr>cv_orphans := X\<rparr>) {}" for X by (rule within_same [OF _ _ a1]) simp_all
  show ?thesis
  proof (cases r)
    case (Inl y)
    then show ?thesis using q w o by (auto simp: x autoRejectLocked_def Let_def intro!: emitResolved)
  next
    case (Inr raw)
    obtain b c3 where l: "write_line E (reject_command rid f) raw c2 = (b, c3)" by force
    have "within J c3 {}" using w write_same [OF l] by simp
    then show ?thesis using q l Inr o by (cases b) (auto simp: x autoRejectLocked_def Let_def intro!: emitResolved fail)
  qed
qed

lemma on_line:
  assumes "OnLine S lib E line c = (err, c')" "within J c {}"
  shows "within J c' {}"
proof -
  let ?acc = "\<lparr>la_publish = [], la_pin = [], la_unpin = [], la_rejects = [], la_completed = False\<rparr>"
  obtain r c1 where f: "feed_Decode S lib E line c = (r, c1)" by force
  note w = decoded [OF f assms(2)]
  show ?thesis
  proof (cases r)
    case (Inl x)
    then show ?thesis using assms(1) f w(1) by (simp add: OnLine_def)
  next
    case (Inr evs)
    obtain acc c2 where l: "fold (line_event lib) evs (?acc, c1) = (acc, c2)" by force
    let ?c3 = "hub_update E (la_publish acc) (la_pin acc) (la_unpin acc) c2"
    let ?c4 = "if la_completed acc \<and> cv_state ?c3 = StateTurn then expireAllLocked lib E (?c3\<lparr>cv_state := StateIdle\<rparr>) else ?c3"
    have "within J c2 (set (la_publish acc) \<union> {})"
      using less [OF w(2) [OF Inr], of "set (la_publish acc)"] line_fold_same [OF l] by (simp add: within_def)
    note c3 = update [OF this, of E "la_pin acc" "la_unpin acc"]
    have "within J (?c3\<lparr>cv_state := StateIdle\<rparr>) {}" by (rule within_same [OF _ _ c3]) simp_all
    then have "within J ?c4 {}" using c3 by (simp add: expireAll)
    then have "within J (fold (autoRejectLocked S lib E) xs ?c4) {}" for xs
      by (induction xs rule: rev_induct) (simp_all add: autoReject)
    from this [of "la_rejects acc"] show ?thesis using assms(1) f l Inr by (auto simp: OnLine_def Let_def)
  qed
qed

lemma call:
  assumes "within J c {}" "do_conv S lib E k c = (err, c')"
  shows "within J c' {}"
proof (cases k)
  case (CPermission g r)
  then have "ResolvePermissionIn S lib E g r c = (err, c')" using assms(2) by simp
  then show ?thesis by (cases rule: Permission_cases) (use assms(1) answer in auto)
next
  case (CForm g i r)
  then have "ResolveFormIn S lib E g i r c = (err, c')" using assms(2) by simp
  then show ?thesis by (cases rule: Form_cases) (use assms(1) answer in auto)
next
  case CStop
  let ?c1 = "expireAllLocked lib E (c\<lparr>cv_stopped := True\<rparr>)"
  have "within J ?c1 {}" by (rule expireAll, rule within_same [OF _ _ assms(1)]) simp_all
  then show ?thesis using CStop assms by (auto simp: Stop_def within_def)
next
  case (CClose_conv x)
  have "within J (expireAllLocked lib E (c\<lparr>cv_state := StateClosed\<rparr>)) {}" by (rule expireAll, rule within_same [OF _ _ assms(1)]) simp_all
  then show ?thesis using CClose_conv assms(2) by (auto simp: Conv_Close_def Let_def within_def)
qed (use assms send on_line in auto)

theorem kept_by_calls: "within J c {} \<Longrightarrow> within J (run_conv S lib E ks c) {}"
proof (induction ks arbitrary: c)
  case (Cons k ks)
  show ?case using Cons.IH [OF call [OF Cons.prems, of E k "fst (do_conv S lib E k c)" "snd (do_conv S lib E k c)"]] by simp
qed simp

end

end
