(* ===== verification/Chat_Asking.thy ===== *)
theory Chat_Asking
  imports Chat_Contract Spec_Text
begin

text \<open>
  Permission requests on their way from an adapter to the human: what the conversation reads of them, and the contract of an adapter that asks
  for each identifier at most once (locale \<open>asking_adapter\<close>). Such an adapter keeps the contract of \<open>Chat_Contract\<close> for the relation
  \<open>asked\<close>: what was published for a request that is still open shows what the adapter holds for it.
\<close>

section \<open>What is read back from what was written\<close>

text \<open>A text as \<open>encoding/json\<close> writes it: bytes that are no UTF-8 become U+FFFD.\<close>

definition to_valid :: "string \<Rightarrow> string" where
  "to_valid s = utf8_encode (utf8_runes s)"

lemma to_valid_idem [simp]: "to_valid (to_valid s) = to_valid s"
  using utf8_runes_encode [OF utf8_runes_scalar [of s], of "[]"] by (simp add: to_valid_def)

text \<open>\<open>q\<close> is read from what was written of \<open>p\<close>; \<open>same\<close> relates two texts of one JSON value.\<close>

definition reads_as :: "(string \<Rightarrow> string \<Rightarrow> bool) \<Rightarrow> permission_requested \<Rightarrow> permission_requested \<Rightarrow> bool" where
  "reads_as same q p \<longleftrightarrow> pr_RequestID q = to_valid (pr_RequestID p) \<and> pr_ToolName q = to_valid (pr_ToolName p) \<and> same (pr_Input q) (pr_Input p) \<and>
     pr_Details q = map (\<lambda>d. \<lparr>dt_Label = to_valid (dt_Label d), dt_Text = to_valid (dt_Text d), dt_Kind = to_valid (dt_Kind d)\<rparr>) (pr_Details p) \<and>
     pr_DetailsTruncated q = pr_DetailsTruncated p"

lemma reads_trans: "transp same \<Longrightarrow> reads_as same r q \<Longrightarrow> reads_as same q p \<Longrightarrow> reads_as same r p"
  by (auto simp: reads_as_def dest: transpD)

lemma reads_hash: "reads_as same q (p\<lparr>pr_ContentHash := h\<rparr>) \<longleftrightarrow> reads_as same q p"
  by (simp add: reads_as_def)

lemma to_valid_ascii: "\<forall>c\<in>set s. byte c < 0x80 \<Longrightarrow> to_valid s = s"
  by (induction s) (simp_all add: to_valid_def utf8_ascii rune_bytes_def)

text \<open>
  What is documented of \<open>encoding/json\<close>: the written form of a request is not empty, and the event that carries it reads back as that request.
\<close>

definition chat_agrees :: "chat_lib \<Rightarrow> (string \<Rightarrow> string \<Rightarrow> bool) \<Rightarrow> bool" where
  "chat_agrees lib same \<longleftrightarrow> transp same \<and>
     (\<forall>p d. cl_marshal_perm lib p = Some d \<longrightarrow> d \<noteq> [] \<and>
        (\<forall>e t. env_Data e = d \<longrightarrow> cl_marshal lib (Public e) = Some t \<longrightarrow>
           cl_event_id lib t = Some (to_valid (pr_RequestID p)) \<and> (\<forall>q. cl_event_perm lib t = Some q \<longrightarrow> reads_as same q p)))"

text \<open>What a published event of a permission request carries.\<close>

lemma feed_events_ask:
  assumes "feed_events lib ts session seq envs = Inr evs" "e \<in> set evs" "ev_Type e = TypePermissionRequested"
  shows "\<exists>env p d e3. env \<in> set envs \<and> env_Type env = TypePermissionRequested \<and> cl_data_perm lib (env_Data env) = Some p \<and>
    cl_marshal_perm lib (p\<lparr>pr_ContentHash := Permission_Hash (cl_sha256 lib) (cl_canon_perm lib) p\<rparr>) = Some d \<and>
    env_Data e3 = (if d = [] then ''{}'' else d) \<and> cl_marshal lib (Public e3) = Some (ev_JSON e)"
  using assms
proof (induction envs arbitrary: seq evs)
  case (Cons x xs)
  let ?e2 = "(sealRequest lib x)\<lparr>env_V := Version, env_ID := ''e'' @ format_uint seq, env_TS := ts, env_Session := session, env_Seq := seq\<rparr>"
  define e3 where "e3 = (if env_Data ?e2 = [] then ?e2\<lparr>env_Data := ''{}''\<rparr> else ?e2)"
  have "bindR (marshalLine (cl_marshal lib (Public e3))) (\<lambda>b. bindR (feed_events lib ts session (seq + 1) xs) (\<lambda>rest.
      Inr (\<lparr>ev_Seq = seq, ev_Type = env_Type e3, ev_Durable = env_Durable e3, ev_JSON = b\<rparr> # rest))) = Inr evs"
    using Cons.prems(1) unfolding feed_events.simps Let_def e3_def .
  then obtain b rest where b: "marshalLine (cl_marshal lib (Public e3)) = Inr b" "feed_events lib ts session (seq + 1) xs = Inr rest"
    "evs = \<lparr>ev_Seq = seq, ev_Type = env_Type e3, ev_Durable = env_Durable e3, ev_JSON = b\<rparr> # rest"
    by auto
  show ?case
  proof (cases "e \<in> set rest")
    case True
    then show ?thesis using Cons.IH [OF b(2) True Cons.prems(3)] by (meson list.set_intros(2))
  next
    case False
    then have e: "ev_JSON e = b" "env_Type (sealRequest lib x) = TypePermissionRequested" using b(3) Cons.prems(2,3) by (auto simp: e3_def split: if_splits)
    have j: "cl_marshal lib (Public e3) = Some (ev_JSON e)" using b(1) e(1) by (auto simp: marshalLine_def split: option.splits if_splits)
    have t: "env_Type x = TypePermissionRequested"
      using e(2) by (auto simp: sealRequest_def asFrame_def v0_types split: if_splits option.splits sum.splits)
    obtain p where p: "cl_data_perm lib (env_Data x) = Some p" "\<not> failed (Permission_Validate (cl_isJSONObject lib) p)"
      using e(2) t by (auto simp: sealRequest_def asFrame_def v0_types split: if_splits option.splits)
    let ?m = "cl_marshal_perm lib (p\<lparr>pr_ContentHash := Permission_Hash (cl_sha256 lib) (cl_canon_perm lib) p\<rparr>)"
    obtain d where d: "marshalLine ?m = Inr d"
      using e(2) t p by (cases "marshalLine ?m") (auto simp: sealRequest_def asFrame_def v0_types)
    then have "sealRequest lib x = x\<lparr>env_Data := d\<rparr>" using t p by (simp add: sealRequest_def)
    then have "env_Data e3 = (if d = [] then ''{}'' else d)" by (simp add: e3_def)
    moreover have "?m = Some d" using d by (auto simp: marshalLine_def split: option.splits if_splits)
    ultimately show ?thesis using t p(1) j by (meson list.set_intros(1))
  qed
qed simp

section \<open>Adapters that ask once\<close>

text \<open>The results that ask nothing.\<close>

definition no_ask :: "unit + envelope list \<Rightarrow> bool" where
  "no_ask r \<longleftrightarrow> (\<forall>es. r = Inr es \<longrightarrow> TypePermissionRequested \<notin> env_Type ` set es)"

lemma no_ask_bind: "(\<And>x. r = Inr x \<Longrightarrow> no_ask (g x)) \<Longrightarrow> no_ask (bindR r g)"
  by (cases r) (simp_all add: no_ask_def)

lemma no_ask_Inr: "no_ask (Inr es) \<longleftrightarrow> (\<forall>e\<in>set es. env_Type e \<noteq> TypePermissionRequested)"
  by (auto simp: no_ask_def image_iff)

lemma no_ask_Inl [simp]: "no_ask (Inl u)"
  by (simp add: no_ask_def)

lemma map_of_filter_key: "map_of (filter (\<lambda>(k, _). k \<noteq> i) xs) j = (if j = i then None else map_of xs j)"
  by (induction xs) auto

text \<open>
  The identifiers that an adapter has seen and the requests that are open: the first only grow, the second only go away, but for the one
  that is new.
\<close>

definition fewer_open :: "('s \<Rightarrow> string \<Rightarrow> bool) \<Rightarrow> ('s \<Rightarrow> string \<Rightarrow> 'q option) \<Rightarrow> 's \<Rightarrow> 's \<Rightarrow> bool" where
  "fewer_open seen opened s s' \<longleftrightarrow> (\<forall>k. seen s k \<longrightarrow> seen s' k) \<and> (\<forall>k. opened s' k \<in> {None, opened s k})"

definition one_more :: "('s \<Rightarrow> string \<Rightarrow> bool) \<Rightarrow> ('s \<Rightarrow> string \<Rightarrow> 'q option) \<Rightarrow> string \<Rightarrow> 's \<Rightarrow> 's \<Rightarrow> bool" where
  "one_more seen opened rid s s' \<longleftrightarrow> \<not> seen s rid \<and> seen s' rid \<and> (\<forall>k. seen s k \<longrightarrow> seen s' k) \<and> (\<forall>k. k \<noteq> rid \<longrightarrow> opened s' k \<in> {None, opened s k})"

text \<open>The event \<open>e\<close> carries a request with the identifier \<open>rid\<close> that shows what is held for it.\<close>

definition carries :: "chat_lib \<Rightarrow> (string \<Rightarrow> string \<Rightarrow> bool) \<Rightarrow> (string \<Rightarrow> 'q \<Rightarrow> permission_requested \<Rightarrow> bool) \<Rightarrow> string \<Rightarrow> 'q option \<Rightarrow> envelope \<Rightarrow> bool" where
  "carries lib same shows_it rid held e \<longleftrightarrow> to_valid rid = rid \<and>
     (\<exists>p. pr_RequestID p = rid \<and> (\<forall>q. cl_data_perm lib (env_Data e) = Some q \<longrightarrow> reads_as same q p) \<and>
        (\<forall>x q. held = Some x \<longrightarrow> reads_as same q p \<longrightarrow> shows_it rid x q))"

definition asked ::
  "chat_lib \<Rightarrow> ('s \<Rightarrow> string \<Rightarrow> bool) \<Rightarrow> ('s \<Rightarrow> string \<Rightarrow> 'q option) \<Rightarrow> (string \<Rightarrow> 'q \<Rightarrow> permission_requested \<Rightarrow> bool) \<Rightarrow> bool \<Rightarrow> 's \<Rightarrow> event set \<Rightarrow> bool" where
  "asked lib seen opened shows_it laws s P \<longleftrightarrow> (laws \<longrightarrow>
     (\<forall>e\<in>P. \<forall>rid. ev_Type e = TypePermissionRequested \<longrightarrow> requestID lib e = Some rid \<longrightarrow>
        seen s rid \<and> (\<forall>x p. opened s rid = Some x \<longrightarrow> cl_event_perm lib (ev_JSON e) = Some p \<longrightarrow> shows_it rid x p)))"

lemma asked_fewer: "asked lib seen opened shows_it laws s P \<Longrightarrow> fewer_open seen opened s s' \<Longrightarrow> asked lib seen opened shows_it laws s' P"
  unfolding asked_def fewer_open_def by (metis insertE option.distinct(1) singletonD)

lemma asked_more:
  assumes a: "asked lib seen opened shows_it laws s P" and n: "one_more seen opened rid s s'"
  shows "asked lib seen opened shows_it laws s' P"
  unfolding asked_def
proof (intro impI ballI allI)
  fix e i
  assume e: "laws" "e \<in> P" "ev_Type e = TypePermissionRequested" "requestID lib e = Some i"
  then have h: "seen s i" "\<And>x p. opened s i = Some x \<Longrightarrow> cl_event_perm lib (ev_JSON e) = Some p \<Longrightarrow> shows_it i x p"
    using a unfolding asked_def by blast+
  then have "i \<noteq> rid" using n by (auto simp: one_more_def)
  then have "opened s' i \<in> {None, opened s i}" "seen s' i" using n h(1) by (auto simp: one_more_def)
  then show "seen s' i \<and> (\<forall>x p. opened s' i = Some x \<longrightarrow> cl_event_perm lib (ev_JSON e) = Some p \<longrightarrow> shows_it i x p)"
    using h(2) by auto
qed

text \<open>The event of a permission request that an adapter has just made.\<close>

lemma carried:
  assumes j: "chat_agrees lib same" and c: "carries lib same shows_it rid0 held env" and f: "feed_events lib ts session seq [env] = Inr evs"
    and e: "e \<in> set evs" "ev_Type e = TypePermissionRequested" "requestID lib e = Some rid"
  shows "rid = rid0" "held = Some x \<Longrightarrow> cl_event_perm lib (ev_JSON e) = Some q \<Longrightarrow> shows_it rid x q"
proof -
  obtain p0 dt e3 where ask: "cl_data_perm lib (env_Data env) = Some p0"
    "cl_marshal_perm lib (p0\<lparr>pr_ContentHash := Permission_Hash (cl_sha256 lib) (cl_canon_perm lib) p0\<rparr>) = Some dt"
    "env_Data e3 = (if dt = [] then ''{}'' else dt)" "cl_marshal lib (Public e3) = Some (ev_JSON e)"
    using feed_events_ask [OF f e(1,2)] by auto
  obtain p where p: "to_valid rid0 = rid0" "pr_RequestID p = rid0" "reads_as same p0 p"
    "\<And>x q. held = Some x \<Longrightarrow> reads_as same q p \<Longrightarrow> shows_it rid0 x q" using c ask(1) unfolding carries_def by blast
  then have i0: "pr_RequestID p0 = rid0" by (simp add: reads_as_def)
  have w: "cl_event_id lib (ev_JSON e) = Some (to_valid rid0)" "cl_event_perm lib (ev_JSON e) = Some q \<Longrightarrow> reads_as same q p0" for q
    using j ask(2-4) i0 unfolding chat_agrees_def by (force simp: reads_hash)+
  show rid: "rid = rid0" using e(3) w(1) p(1) by (auto simp: requestID_def split: if_splits)
  assume x: "held = Some x" and q: "cl_event_perm lib (ev_JSON e) = Some q"
  have "reads_as same q p" using j reads_trans [OF _ w(2) [OF q] p(3)] by (simp add: chat_agrees_def)
  then show "shows_it rid x q" using p(4) [OF x] rid by simp
qed

locale asking_adapter =
  fixes S :: "'s agent_stream" and lib :: chat_lib and same :: "string \<Rightarrow> string \<Rightarrow> bool" and seen :: "'s \<Rightarrow> string \<Rightarrow> bool"
    and opened :: "'s \<Rightarrow> string \<Rightarrow> 'q option" and shows_it :: "string \<Rightarrow> 'q \<Rightarrow> permission_requested \<Rightarrow> bool" and laws :: bool
  assumes agrees: "laws \<Longrightarrow> chat_agrees lib same"
    and decodes: "DecodeFrame S raw s = (r, s') \<Longrightarrow> (fewer_open seen opened s s' \<and> no_ask r) \<or>
      (\<exists>rid. one_more seen opened rid s s' \<and> (no_ask r \<or> (\<exists>e. r = Inr [e] \<and> (laws \<longrightarrow> carries lib same shows_it rid (opened s' rid) e))))"
    and encodes: "EncodeCommand S cmd s = (r', s') \<Longrightarrow> fewer_open seen opened s s' \<and> (\<forall>line es. r' = Inr (line, es) \<longrightarrow> no_ask (Inr es))"
begin

lemma decode_keeps: "asked lib seen opened shows_it laws s P \<Longrightarrow> DecodeFrame S raw s = (r, s') \<Longrightarrow> asked lib seen opened shows_it laws s' P"
  using decodes [of raw s r s'] asked_fewer asked_more by metis

lemma asks_nothing: "feed_events lib ts session seq envs = Inr evs \<Longrightarrow> no_ask (Inr envs) \<Longrightarrow> e \<in> set evs \<Longrightarrow> ev_Type e \<noteq> TypePermissionRequested"
  using feed_events_ask by (fastforce simp: no_ask_Inr)

lemma asked_new:
  assumes a: "asked lib seen opened shows_it laws s' P"
    and n: "\<And>e rid. \<lbrakk>laws; e \<in> X; ev_Type e = TypePermissionRequested; requestID lib e = Some rid\<rbrakk> \<Longrightarrow>
      seen s' rid \<and> (\<forall>x p. opened s' rid = Some x \<longrightarrow> cl_event_perm lib (ev_JSON e) = Some p \<longrightarrow> shows_it rid x p)"
  shows "asked lib seen opened shows_it laws s' (P \<union> X)"
  using assms unfolding asked_def by blast

lemma decode_adds:
  assumes "asked lib seen opened shows_it laws s P" "DecodeFrame S raw s = (Inr envs, s')" "feed_events lib ts session seq envs = Inr evs"
  shows "asked lib seen opened shows_it laws s' (P \<union> set evs)"
proof (rule asked_new [OF decode_keeps [OF assms(1,2)]])
  fix e rid
  assume l: "laws" and e: "e \<in> set evs" "ev_Type e = TypePermissionRequested" "requestID lib e = Some rid"
  then have "\<not> no_ask (Inr envs)" using asks_nothing [OF assms(3)] by blast
  then obtain rid0 e0 where n: "one_more seen opened rid0 s s'" "envs = [e0]" "carries lib same shows_it rid0 (opened s' rid0) e0"
    using decodes [OF assms(2)] l by auto
  note c = carried [OF agrees [OF l] n(3) assms(3) [unfolded n(2)] e]
  show "seen s' rid \<and> (\<forall>x p. opened s' rid = Some x \<longrightarrow> cl_event_perm lib (ev_JSON e) = Some p \<longrightarrow> shows_it rid x p)"
    using n(1) c by (auto simp: one_more_def)
qed

end

sublocale asking_adapter \<subseteq> conv_contract S lib "asked lib seen opened shows_it laws"
proof (unfold_locales, goal_cases)
  case (1 s P Q)
  then show ?case by (auto simp: asked_def)
next
  case (2 s P e)
  then show ?case by (auto simp: asked_def)
next
  case 3
  then show ?case by (rule decode_keeps)
next
  case 4
  then show ?case by (rule decode_adds)
next
  case (5 s P cmd r s')
  then show ?case using encodes [OF 5(2)] by (blast intro: asked_fewer)
next
  case (6 s P cmd raw envs s' ts session seq evs)
  have f: "fewer_open seen opened s s'" "no_ask (Inr envs)" using encodes [OF 6(2)] by auto
  then show ?case using asks_nothing [OF 6(3) f(2)] by (intro asked_new [OF asked_fewer [OF 6(1) f(1)]]) blast
qed

end
