(* ===== verification/Claude_Conversation.thy ===== *)
theory Claude_Conversation
  imports Claude_Adapter Chat_Asking
begin

text \<open>
  A conversation with Claude Code: what the human allows is what was shown. The adapter keeps the contract of
  \<open>Chat_Contract\<close> for the relation \<open>asked\<close> between its open requests and the published permission requests.
\<close>

section \<open>What a permission request shows\<close>

definition key_label :: "string \<Rightarrow> string" where
  "key_label k = (if k = [] then emptyKey else k)"

lemma add_detail_kept:
  "add_detail l t k (ds, tr) = (ds', False) \<Longrightarrow> \<not> tr \<and> ds' = ds @ [\<lparr>dt_Label = key_label l, dt_Text = t, dt_Kind = k\<rparr>]"
  using ClampText_kept [of t MaxDetailTextLen] by (auto simp: add_detail_def key_label_def Let_def split: if_splits prod.splits)

lemma fold_details_kept:
  "fold (\<lambda>x. add_detail (l x) (t x) (k x)) xs (ds, tr) = (ds', False) \<Longrightarrow>
   \<not> tr \<and> ds' = ds @ map (\<lambda>x. \<lparr>dt_Label = key_label (l x), dt_Text = t x, dt_Kind = k x\<rparr>) xs"
proof (induction xs arbitrary: ds tr)
  case (Cons x xs)
  obtain ds1 tr1 where a: "add_detail (l x) (t x) (k x) (ds, tr) = (ds1, tr1)" by force
  then have f: "fold (\<lambda>x. add_detail (l x) (t x) (k x)) xs (ds1, tr1) = (ds', False)" using Cons.prems by simp
  show ?case using Cons.IH [OF f] add_detail_kept [of "l x" "t x" "k x" ds tr ds1] a by simp
qed simp

definition tool_specs :: "string \<Rightarrow> detail_spec list" where
  "tool_specs name = (case knownTools name of None \<Rightarrow> [] | Some (_, ds) \<Rightarrow> ds)"

text \<open>The labels under which a key may be shown: the one of the known tool, or the key itself.\<close>

definition shown_labels :: "string \<Rightarrow> string \<Rightarrow> string set" where
  "shown_labels name k = insert (key_label k) (dsp_label ` {d \<in> set (tool_specs name). dsp_key d = k})"

lemma tool_specs_label: "d \<in> set (tool_specs name) \<Longrightarrow> key_label (dsp_label d) = dsp_label d"
  by (auto simp: tool_specs_def knownTools_def dspec_def key_label_def split: if_splits)

lemma details_complete:
  assumes "cj_members clib input = Some ms" "map_of ms k = Some v"
    "\<not> pr_DetailsTruncated (buildPermission clib rid callID name input title)"
  shows "\<exists>d\<in>set (pr_Details (buildPermission clib rid callID name input title)). dt_Text d = valueText clib v \<and> dt_Label d \<in> shown_labels name k"
proof -
  let ?specs = "tool_specs name" and ?keys = "sort (filter (\<lambda>k. k \<notin> dsp_key ` set (tool_specs name)) (map fst ms))"
  let ?f = "fold (\<lambda>d. add_detail (dsp_label d) (valueText clib (member ms (dsp_key d))) (dsp_kind d)) ?specs"
  let ?g = "fold (\<lambda>k. add_detail k (valueText clib (member ms k)) DetailText) ?keys"
  obtain ds1 t1 where f: "?f ([], False) = (ds1, t1)" by force
  obtain ds2 t2 where g: "?g (ds1, t1) = (ds2, t2)" by force
  have p: "pr_Details (buildPermission clib rid callID name input title) = ds2" "\<not> t2"
    using assms(1,3) f g by (simp_all add: buildPermission_def Let_def tool_specs_def)
  have m: "member ms k = v" using assms(2) by (simp add: member_def)
  note g' = fold_details_kept [of "\<lambda>k. k" "\<lambda>k. valueText clib (member ms k)" "\<lambda>_. DetailText" ?keys ds1 t1 ds2]
  have d2: "\<not> t1" "ds2 = ds1 @ map (\<lambda>k. \<lparr>dt_Label = key_label k, dt_Text = valueText clib (member ms k), dt_Kind = DetailText\<rparr>) ?keys"
    using g' g p(2) by simp_all
  have d1: "ds1 = map (\<lambda>d. \<lparr>dt_Label = key_label (dsp_label d), dt_Text = valueText clib (member ms (dsp_key d)), dt_Kind = dsp_kind d\<rparr>) ?specs"
    using fold_details_kept [of dsp_label "\<lambda>d. valueText clib (member ms (dsp_key d))" dsp_kind ?specs "[]" False ds1] f d2(1) by simp
  show ?thesis
  proof (cases "k \<in> dsp_key ` set ?specs")
    case True
    then obtain d where "d \<in> set ?specs" "dsp_key d = k" by blast
    then show ?thesis using m tool_specs_label
      by (intro bexI [of _ "\<lparr>dt_Label = key_label (dsp_label d), dt_Text = valueText clib (member ms (dsp_key d)), dt_Kind = dsp_kind d\<rparr>"])
        (auto simp: p(1) d2(2) d1 shown_labels_def)
  next
    case False
    then have "k \<in> set ?keys" using map_of_SomeD [OF assms(2)] by (force simp: image_iff)
    then show ?thesis using m
      by (intro bexI [of _ "\<lparr>dt_Label = key_label k, dt_Text = valueText clib (member ms k), dt_Kind = DetailText\<rparr>"])
        (auto simp: p(1) d2(2) shown_labels_def)
  qed
qed

text \<open>
  What is documented of \<open>encoding/json\<close>: an identifier that was read is UTF-8, and the written form of a request reads back as that request.
\<close>

definition json_agrees :: "claude_lib \<Rightarrow> chat_lib \<Rightarrow> (string \<Rightarrow> string \<Rightarrow> bool) \<Rightarrow> bool" where
  "json_agrees clib lib same \<longleftrightarrow> chat_agrees lib same \<and>
     (\<forall>raw f. cj_frame clib raw = Some f \<longrightarrow> to_valid (le_V (ff_RequestID f)) = le_V (ff_RequestID f)) \<and>
     (\<forall>p b q. cj_marshal clib (DPermission p) = Some b \<longrightarrow> cl_data_perm lib b = Some q \<longrightarrow> reads_as same q p)"

section \<open>What the adapter keeps\<close>

text \<open>The published request \<open>p\<close> shows the input of the open request \<open>rid\<close>.\<close>

definition shows_input :: "claude_lib \<Rightarrow> (string \<Rightarrow> string \<Rightarrow> bool) \<Rightarrow> string \<Rightarrow> string \<Rightarrow> permission_requested \<Rightarrow> bool" where
  "shows_input clib same rid input p \<longleftrightarrow> (\<exists>callID name title. reads_as same p (buildPermission clib rid callID name input title))"

lemma ev_type: "ev lib raw typ d x = Inr e \<Longrightarrow> env_Type e = typ"
  by (auto simp: ev_def split: option.splits)

lemma no_ask_simps [simp]:
  "no_ask (Inr [])" "typ \<noteq> TypePermissionRequested \<Longrightarrow> no_ask (one_event lib raw typ d x)" "no_ask (unknown lib raw)"
  by (auto simp: no_ask_Inr one_event_def unknown_def v0_types intro!: no_ask_bind dest!: ev_type)

lemma no_ask_events: "(\<And>x. no_ask (f x)) \<Longrightarrow> no_ask (each_event f xs)"
proof (induction xs)
  case (Cons x xs)
  have "no_ask (Inr (es @ rest))" if "f x = Inr es" "each_event f xs = Inr rest" for es rest
    using Cons.prems [of x] Cons.IH [OF Cons.prems] that by (auto simp: no_ask_Inr)
  then show ?case by (auto intro!: no_ask_bind)
qed simp

lemma no_ask_message:
  assumes "\<And>m b. no_ask (f m b)"
  shows "no_ask (message_events lib raw f msg)"
proof (cases "cj_message lib msg")
  case (Some m)
  have "no_ask (each_event (f m) (ms_Content m))" by (rule no_ask_events [OF assms])
  then show ?thesis using Some by (auto simp: message_events_def intro!: no_ask_bind)
qed (simp add: message_events_def)

lemma no_ask_blocks [simp]: "no_ask (assistant_block lib raw i b)" "no_ask (user_block lib raw b)"
  by (auto simp: assistant_block_def user_block_def v0_more_types)

lemma cancelled_type: "cancelled lib raw rid req = Inr e \<Longrightarrow> env_Type e \<noteq> TypePermissionRequested"
  by (auto simp: cancelled_def cancelled_data_def v0_types split: option.splits dest!: ev_type)

lemma no_ask_result: "no_ask (result_events lib raw f)"
  by (auto simp: result_events_def no_ask_Inr Let_def v0_more_types intro!: no_ask_bind dest!: ev_type)

text \<open>Open requests only go away, and what was seen stays.\<close>

definition claude_fewer :: "claude_stream \<Rightarrow> claude_stream \<Rightarrow> bool" where
  "claude_fewer s s' \<longleftrightarrow> cs_seen s' = cs_seen s \<and> (\<forall>k. map_of (cs_pending s') k \<in> {None, map_of (cs_pending s) k})"

lemma claude_fewer_refl [simp]: "claude_fewer s s"
  by (simp add: claude_fewer_def)

lemma claude_fewer_trans: "claude_fewer a b \<Longrightarrow> claude_fewer b c \<Longrightarrow> claude_fewer a c"
  by (auto simp: claude_fewer_def) (metis option.distinct(1))+

lemma claude_fewer_settle [simp]: "claude_fewer s (settle rid s)"
  by (simp add: claude_fewer_def settle_def map_of_filter_key)

lemma cancel_all_spec:
  "cancel_all lib raw xs s = (r, s') \<Longrightarrow> claude_fewer s s' \<and> no_ask r"
proof (induction xs arbitrary: s r s')
  case (Cons x xs)
  obtain rid req where x: "x = (rid, req)" by force
  obtain r2 s2 where c: "cancel_all lib raw xs (settle rid s) = (r2, s2)" by force
  note h = Cons.IH [OF c]
  show ?case
  proof (cases "cancelled lib raw rid req")
    case (Inl u)
    then show ?thesis using Cons.prems by (auto simp: x Let_def)
  next
    case (Inr e)
    have "no_ask (bindR r2 (\<lambda>out. Inr (e # out)))" using h cancelled_type [OF Inr] by (auto simp: no_ask_Inr intro!: no_ask_bind)
    then show ?thesis using Cons.prems Inr c h claude_fewer_trans [OF claude_fewer_settle [of s rid], of s2] by (auto simp: x Let_def)
  qed
qed auto

lemma decode_result_spec:
  assumes "decode_result lib raw f s = (r, s')"
  shows "claude_fewer s s' \<and> no_ask r"
proof -
  obtain q s1 where c: "cancel_all lib raw (sort_key (\<lambda>(_, req). pn_seq req) (cs_pending s)) s = (q, s1)" by force
  have "no_ask (bindR (result_events lib raw f) (\<lambda>es. Inr (out @ es)))" if "no_ask (Inr out)" for out
    using that no_ask_result [of lib raw f] by (auto simp: no_ask_Inr intro!: no_ask_bind)
  then show ?thesis using cancel_all_spec [OF c] assms c by (auto simp: decode_result_def split: sum.splits)
qed

lemma decode_cancel_spec: "decode_cancel lib raw f s = (r, s') \<Longrightarrow> claude_fewer s s' \<and> no_ask r"
  by (auto simp: decode_cancel_def Let_def no_ask_Inr intro!: no_ask_bind dest!: cancelled_type split: option.splits if_splits)

text \<open>Reading a frame either asks nothing, or it holds a new request and asks the human for it.\<close>

definition decoded_ok :: "claude_lib \<Rightarrow> claude_stream \<Rightarrow> unit + envelope list \<Rightarrow> claude_stream \<Rightarrow> bool" where
  "decoded_ok lib s r s' \<longleftrightarrow>
     (claude_fewer s s' \<and> no_ask r) \<or>
     (\<exists>rid. cj_sha256 lib rid \<notin> set (cs_seen s) \<and> cs_seen s' = cs_seen s @ [cj_sha256 lib rid] \<and>
        (\<forall>k. k \<noteq> rid \<longrightarrow> map_of (cs_pending s') k = map_of (cs_pending s) k) \<and>
        (no_ask r \<or>
         (\<exists>input callID name title b e. map_of (cs_pending s') rid = Some \<lparr>pn_input = input, pn_seq = cs_nextSeq s', pn_form = None\<rparr> \<and>
            (\<exists>raw f. cj_frame lib raw = Some f \<and> rid = le_V (ff_RequestID f)) \<and>
            r = Inr [e] \<and> cj_marshal lib (DPermission (buildPermission lib rid callID name input title)) = Some b \<and> env_Data e = b)))"

lemma hold_fields:
  "cs_seen (hold rid input form s) = cs_seen s" "cs_nextSeq (hold rid input form s) = cs_nextSeq s + 1"
  "map_of (cs_pending (hold rid input form s)) k =
    (if k = rid then Some \<lparr>pn_input = input, pn_seq = cs_nextSeq s + 1, pn_form = form\<rparr> else map_of (cs_pending s) k)"
  by (simp_all add: hold_def map_of_filter_key map_add_def split: option.splits)

lemma no_ask_permission:
  "no_ask (one_event lib raw typ d x) \<or> (\<exists>b e. one_event lib raw typ d x = Inr [e] \<and> cj_marshal lib x = Some b \<and> env_Data e = b)"
  by (cases "cj_marshal lib x") (auto simp: one_event_def ev_def no_ask_def)

lemma decode_control_spec:
  assumes "decode_control lib raw f s = (r, s')" "cj_frame lib raw = Some f"
  shows "decoded_ok lib s r s'"
proof -
  let ?rid = "le_V (ff_RequestID f)"
  let ?key = "cj_sha256 lib ?rid"
  let ?s1 = "s\<lparr>cs_seen := cs_seen s @ [?key]\<rparr>"
  consider "r = unknown lib raw" "s' = s" | x where "r = one_event lib raw TypeError True x" "s' = s"
    | q where "cj_control lib (ff_Request f) = Some q" "?key \<notin> set (cs_seen s)"
       "(if le_V (cr_ToolName q) = askUserQuestion then
            (case buildForm lib ?rid (le_V (cr_ToolUseID q)) (cr_Input q) of
               None \<Rightarrow> (bindR (ev lib raw TypeAgentFrame False DEmpty) (\<lambda>a.
                        bindR (ev lib raw TypeError True (DError None False formInvalidMessage)) (\<lambda>x. Inr [a, x])), ?s1)
             | Some (form, pf) \<Rightarrow> (one_event lib raw TypeFormRequested True (DForm form), hold ?rid (cr_Input q) (Some pf) ?s1))
          else let perm = buildPermission lib ?rid (le_V (cr_ToolUseID q)) (le_V (cr_ToolName q)) (cr_Input q) (le_V (cr_Description q)) in
          if failed (Permission_Validate (cj_isJSONObject lib) perm) then (unknown lib raw, ?s1)
          else (one_event lib raw TypePermissionRequested True (DPermission perm), hold ?rid (cr_Input q) None ?s1)) = (r, s')"
    using assms(1) by (auto simp: decode_control_def Let_def split: option.splits if_splits)
  then show ?thesis
  proof cases
    case (3 q)
    note new = 3(2)
    have n: "no_ask (bindR (ev lib raw TypeAgentFrame False DEmpty) (\<lambda>a. bindR (ev lib raw TypeError True y) (\<lambda>x. Inr [a, x])))" for y
      by (auto simp: no_ask_Inr v0_types intro!: no_ask_bind dest!: ev_type)
    have quiet: "decoded_ok lib s r s'" if "no_ask r" "s' = ?s1 \<or> (\<exists>i fo. s' = hold ?rid i fo ?s1)"
      using that new by (auto simp: decoded_ok_def hold_fields intro!: exI [of _ ?rid])
    show ?thesis
    proof (cases "le_V (cr_ToolName q) = askUserQuestion")
      case True
      have "no_ask r \<and> (s' = ?s1 \<or> (\<exists>i fo. s' = hold ?rid i fo ?s1))"
        using 3(3) True n by (auto simp: v0_types split: option.splits)
      then show ?thesis using quiet by blast
    next
      case False
      let ?p = "buildPermission lib ?rid (le_V (cr_ToolUseID q)) (le_V (cr_ToolName q)) (cr_Input q) (le_V (cr_Description q))"
      show ?thesis
      proof (cases "no_ask r")
        case True
        have "s' = ?s1 \<or> (\<exists>i fo. s' = hold ?rid i fo ?s1)" using 3(3) False by (auto simp: Let_def split: if_splits)
        then show ?thesis using quiet True by blast
      next
        case ask: False
        then have h: "r = one_event lib raw TypePermissionRequested True (DPermission ?p)" "s' = hold ?rid (cr_Input q) None ?s1"
          using 3(3) False by (auto simp: Let_def split: if_splits)
        then obtain b e where "r = Inr [e]" "cj_marshal lib (DPermission ?p) = Some b" "env_Data e = b"
          using no_ask_permission [of lib raw TypePermissionRequested True "DPermission ?p"] ask by auto
        then show ?thesis using new h(2) assms(2)
          unfolding decoded_ok_def by (intro disjI2 exI [of _ ?rid]) (auto simp: hold_fields)
      qed
    qed
  qed (auto simp: decoded_ok_def v0_types)
qed

lemma claude_DecodeFrame_spec:
  assumes "claude_DecodeFrame lib raw s = (r, s')"
  shows "decoded_ok lib s r s'"
proof (cases "cj_frame lib raw")
  case None
  then show ?thesis using assms by (auto simp: claude_DecodeFrame_def decoded_ok_def)
next
  case (Some f)
  have i: "claude_fewer s (s\<lparr>cs_sawInit := True\<rparr>)" by (simp add: claude_fewer_def)
  have m: "no_ask (message_events lib raw (\<lambda>m. assistant_block lib raw (le_V (ms_ID m))) x)" "no_ask (message_events lib raw (\<lambda>m. user_block lib raw) x)" for x
    by (rule no_ask_message, simp)+
  consider "decode_control lib raw f s = (r, s')" | "decode_cancel lib raw f s = (r, s')" | "decode_result lib raw f s = (r, s')" | "claude_fewer s s' \<and> no_ask r"
    using assms Some i m by (auto simp: claude_DecodeFrame_def Let_def v0_more_types split: if_splits)
  then show ?thesis
    by cases (use decode_control_spec Some decode_cancel_spec decode_result_spec in \<open>auto simp: decoded_ok_def\<close>)
qed

lemma claude_EncodeCommand_spec:
  assumes "claude_EncodeCommand lib cmd s = (r, s')"
  shows "claude_fewer s s' \<and> (\<forall>raw es. r = Inr (raw, es) \<longrightarrow> no_ask (Inr es))"
proof -
  have m: "made lib ty d = Some e \<Longrightarrow> env_Type e = ty" for ty d e by (auto simp: made_def split: sum.splits dest: ev_type)
  have a: "no_ask (Inr es)" if "answered lib l ty d = Inr (raw, es)" "ty \<noteq> TypePermissionRequested" for l ty d raw es
    using that m by (auto simp: answered_def no_ask_Inr split: option.splits)
  have i: "claude_fewer s (s\<lparr>cs_sentInit := True\<rparr>)" by (simp add: claude_fewer_def)
  have p: "claude_fewer s s' \<and> (\<forall>raw es. r = Inr (raw, es) \<longrightarrow> no_ask (Inr es))" if "encodePrompt lib d s = (r, s')" for d
    using that i m by (auto simp: encodePrompt_def no_ask_Inr v0_more_types split: command_data.splits if_splits option.splits)
  have q: "claude_fewer s s' \<and> (\<forall>raw es. r = Inr (raw, es) \<longrightarrow> no_ask (Inr es))" if "encodePermissionResolve lib d s = (r, s')" for d
    using that a by (auto simp: encodePermissionResolve_def v0_types split: command_data.splits if_splits option.splits)
  have f: "claude_fewer s s' \<and> (\<forall>raw es. r = Inr (raw, es) \<longrightarrow> no_ask (Inr es))" if "encodeFormResolve lib d s = (r, s')" for d
    using that a by (auto simp: encodeFormResolve_def v0_types split: command_data.splits if_splits option.splits sum.splits)
  show ?thesis using assms p q f by (auto simp: claude_EncodeCommand_def split: if_splits)
qed

section \<open>The contract with the conversation\<close>

definition claude_seen :: "claude_lib \<Rightarrow> claude_stream \<Rightarrow> string \<Rightarrow> bool" where
  "claude_seen lib s rid \<longleftrightarrow> cj_sha256 lib rid \<in> set (cs_seen s)"

definition claude_open :: "claude_stream \<Rightarrow> string \<Rightarrow> pending_request option" where
  "claude_open s = map_of (cs_pending s)"

lemma claude_fewer: "claude_fewer s s' \<Longrightarrow> fewer_open (claude_seen lib) claude_open s s'"
  by (auto simp: claude_fewer_def fewer_open_def claude_seen_def claude_open_def)

lemma claude_decodes:
  assumes "decoded_ok clib s r s'"
  shows "(fewer_open (claude_seen clib) claude_open s s' \<and> no_ask r) \<or>
    (\<exists>rid. one_more (claude_seen clib) claude_open rid s s' \<and>
      (no_ask r \<or> (\<exists>e. r = Inr [e] \<and> (json_agrees clib lib same \<longrightarrow>
         carries lib same (\<lambda>rid q. shows_input clib same rid (pn_input q)) rid (claude_open s' rid) e))))"
  using assms unfolding decoded_ok_def
proof (elim disjE exE conjE)
  assume "claude_fewer s s'" "no_ask r"
  then show ?thesis using claude_fewer by blast
next
  fix rid
  assume n: "cj_sha256 clib rid \<notin> set (cs_seen s)" "cs_seen s' = cs_seen s @ [cj_sha256 clib rid]"
    "\<forall>k. k \<noteq> rid \<longrightarrow> map_of (cs_pending s') k = map_of (cs_pending s) k"
  then have m: "one_more (claude_seen clib) claude_open rid s s'" by (simp add: one_more_def claude_seen_def claude_open_def)
  then show ?thesis if "no_ask r" using that by blast
  fix input callID name title b e raw f
  assume a: "map_of (cs_pending s') rid = Some \<lparr>pn_input = input, pn_seq = cs_nextSeq s', pn_form = None\<rparr>" "cj_frame clib raw = Some f"
    "rid = le_V (ff_RequestID f)" "r = Inr [e]" "cj_marshal clib (DPermission (buildPermission clib rid callID name input title)) = Some b" "env_Data e = b"
  let ?p = "buildPermission clib rid callID name input title"
  have "carries lib same (\<lambda>rid q. shows_input clib same rid (pn_input q)) rid (claude_open s' rid) e" if j: "json_agrees clib lib same"
    unfolding carries_def
  proof (intro conjI exI [of _ ?p] allI impI)
    show "to_valid rid = rid" using j a(2,3) by (simp add: json_agrees_def)
    show "pr_RequestID ?p = rid" by (simp add: buildPermission_def Let_def)
    show "reads_as same q ?p" if "cl_data_perm lib (env_Data e) = Some q" for q using that j a(5,6) by (simp add: json_agrees_def)
    show "shows_input clib same rid (pn_input x) q" if "claude_open s' rid = Some x" "reads_as same q ?p" for x q
    proof -
      have "pn_input x = input" using that(1) a(1) by (auto simp: claude_open_def)
      then show ?thesis using that(2) unfolding shows_input_def by blast
    qed
  qed
  then show ?thesis using m a(4) by blast
qed

interpretation claude: asking_adapter "Claude clib" lib same "claude_seen clib" claude_open "\<lambda>rid q. shows_input clib same rid (pn_input q)"
  "json_agrees clib lib same" for clib lib same
proof (unfold_locales, goal_cases)
  case 1
  then show ?case by (simp add: json_agrees_def)
next
  case (2 raw s r s')
  then show ?case using claude_decodes [OF claude_DecodeFrame_spec] by (simp add: Claude_def)
next
  case (3 cmd s r' s')
  then have "claude_fewer s s' \<and> (\<forall>raw es. r' = Inr (raw, es) \<longrightarrow> no_ask (Inr es))" using claude_EncodeCommand_spec by (simp add: Claude_def)
  then show ?case using claude_fewer by blast
qed

lemma encode_allow:
  assumes "EncodeCommand (Claude clib) \<lparr>cmd_V = v, cmd_Type = CommandPermissionResolve, cmd_Data = PermissionAnswer rid ''allow_once''\<rparr> s = (Inr (raw, envs), s')"
  shows "\<exists>q b. map_of (cs_pending s) rid = Some q \<and> cj_marshal clib (LAllow rid (pn_input q)) = Some b \<and> raw = b @ [CHR 0x0A]"
  using assms
  by (auto simp: Claude_def claude_EncodeCommand_def CommandPermissionResolve_def CommandPrompt_def encodePermissionResolve_def answered_def line_of_def
      AllowOnce_def split: option.splits if_splits)

text \<open>What the human sees of an input: all its keys with their whole values, unless the request says that it was cut.\<close>

definition shown_fully :: "claude_lib \<Rightarrow> string \<Rightarrow> permission_requested \<Rightarrow> bool" where
  "shown_fully clib input p \<longleftrightarrow>
     (\<exists>name. pr_ToolName p = to_valid name \<and>
       (\<forall>ms k v. cj_members clib input = Some ms \<longrightarrow> map_of ms k = Some v \<longrightarrow>
          (\<exists>d\<in>set (pr_Details p). dt_Text d = to_valid (valueText clib v) \<and> dt_Label d \<in> to_valid ` shown_labels name k)))"

lemma shows_input_fully:
  assumes "shows_input clib same rid input p"
  shows "same (pr_Input p) input \<and> (pr_DetailsTruncated p \<or> shown_fully clib input p)"
proof -
  obtain callID name title where r: "reads_as same p (buildPermission clib rid callID name input title)"
    using assms by (auto simp: shows_input_def)
  let ?p = "buildPermission clib rid callID name input title"
  have f: "pr_Input ?p = input" "pr_ToolName ?p = name" by (simp_all add: buildPermission_def Let_def)
  have "shown_fully clib input p" if t: "\<not> pr_DetailsTruncated p"
    unfolding shown_fully_def
  proof (intro exI [of _ name] conjI allI impI)
    show "pr_ToolName p = to_valid name" using r f(2) by (simp add: reads_as_def)
    fix ms k v
    assume m: "cj_members clib input = Some ms" "map_of ms k = Some v"
    have "\<not> pr_DetailsTruncated ?p" using r t by (simp add: reads_as_def)
    from details_complete [OF m this]
    obtain d where d: "d \<in> set (pr_Details ?p)" "dt_Text d = valueText clib v" "dt_Label d \<in> shown_labels name k" by blast
    have "\<lparr>dt_Label = to_valid (dt_Label d), dt_Text = to_valid (dt_Text d), dt_Kind = to_valid (dt_Kind d)\<rparr> \<in> set (pr_Details p)"
      using r d(1) by (auto simp: reads_as_def)
    then show "\<exists>d\<in>set (pr_Details p). dt_Text d = to_valid (valueText clib v) \<and> dt_Label d \<in> to_valid ` shown_labels name k"
      using d(2,3) by (metis detail.select_convs(1,2) imageI)
  qed
  then show ?thesis using r f(1) by (auto simp: reads_as_def)
qed

section \<open>The end of a turn\<close>

datatype claude_op = Op_Decode string | Op_Encode command

fun claude_step :: "claude_lib \<Rightarrow> claude_op \<Rightarrow> claude_stream \<Rightarrow> claude_stream" where
  "claude_step lib (Op_Decode raw) s = snd (claude_DecodeFrame lib raw s)"
| "claude_step lib (Op_Encode cmd) s = snd (claude_EncodeCommand lib cmd s)"

text \<open>
  The open requests are kept in the order they came in, and their number is bounded; the questions of a form and the keys of their
  answers are distinct.
\<close>

definition form_ok :: "form_field_pending list option \<Rightarrow> bool" where
  "form_ok form \<longleftrightarrow> (\<forall>pfs. form = Some pfs \<longrightarrow> distinct (map ffp_key pfs) \<and> distinct (map ffp_question pfs))"

definition stream_ok :: "claude_stream \<Rightarrow> bool" where
  "stream_ok s \<longleftrightarrow> (\<forall>(_, q)\<in>set (cs_pending s). form_ok (pn_form q)) \<and> distinct (map fst (cs_pending s)) \<and> sorted_wrt (<) (map (\<lambda>(_, q). pn_seq q) (cs_pending s)) \<and>
     (\<forall>(_, q)\<in>set (cs_pending s). pn_seq q \<le> cs_nextSeq s) \<and> length (cs_pending s) \<le> maxPendingRequests"

lemma sorted_wrt_filter_map: "sorted_wrt P (map f xs) \<Longrightarrow> sorted_wrt P (map f (filter Q xs))"
  by (induction xs) auto

lemma stream_ok_New: "stream_ok NewStream"
  by (simp add: stream_ok_def NewStream_def)

lemma stream_ok_filter: "stream_ok s \<Longrightarrow> cs_nextSeq s' = cs_nextSeq s \<Longrightarrow> cs_pending s' = filter Q (cs_pending s) \<Longrightarrow> stream_ok s'"
  using distinct_map_filter sorted_wrt_filter_map le_trans [OF length_filter_le] unfolding stream_ok_def by fastforce

lemma stream_ok_settle: "stream_ok s \<Longrightarrow> stream_ok (settle rid s)"
  by (rule stream_ok_filter) (simp_all add: settle_def)

lemma stream_ok_seen [simp]: "stream_ok (s\<lparr>cs_seen := x\<rparr>) = stream_ok s" "stream_ok (s\<lparr>cs_sawInit := b\<rparr>) = stream_ok s" "stream_ok (s\<lparr>cs_sentInit := b\<rparr>) = stream_ok s"
  by (simp_all add: stream_ok_def)

lemma form_fields_ok:
  "form_fields i texts qs = Some fs \<Longrightarrow>
   (\<forall>f\<in>set (map snd fs). (\<exists>j\<ge>i. ffp_key f = ''q'' @ format_uint j) \<and> ffp_question f \<notin> set texts) \<and>
   distinct (map ffp_key (map snd fs)) \<and> distinct (map ffp_question (map snd fs))"
proof (induction qs arbitrary: i texts fs)
  case (Cons q qs)
  then obtain r where r: "form_fields (i + 1) (qn_Question q # texts) qs = Some r" "qn_Question q \<notin> set texts"
    "fs = (question_field i q, \<lparr>ffp_key = ''q'' @ format_uint i, ffp_question = qn_Question q, ffp_multi = qn_MultiSelect q\<rparr>) # r"
    by (auto split: if_splits)
  note ih = Cons.IH [OF r(1)]
  have "''q'' @ format_uint i \<notin> set (map ffp_key (map snd r))" using ih format_uint_inj by fastforce
  moreover have "qn_Question q \<notin> set (map ffp_question (map snd r))" using ih by fastforce
  moreover have "(\<exists>j\<ge>i. ffp_key f = ''q'' @ format_uint j) \<and> ffp_question f \<notin> set texts" if "f \<in> set (map snd r)" for f
  proof -
    obtain j where "j \<ge> i + 1" "ffp_key f = ''q'' @ format_uint j" "ffp_question f \<notin> set (qn_Question q # texts)" using ih \<open>f \<in> set (map snd r)\<close> by blast
    then show ?thesis by (intro conjI exI [of _ j]) simp_all
  qed
  ultimately show ?case using ih r(2) unfolding r(3) list.map snd_conv by (auto intro: exI [of _ i])
qed simp

lemma buildForm_ok: "buildForm lib rid callID input = Some (form, pfs) \<Longrightarrow> form_ok (Some pfs)"
  using form_fields_ok [of 0 "[]"] by (fastforce simp: buildForm_def form_ok_def Let_def split: option.splits if_splits)

lemma form_ok_None [simp]: "form_ok None"
  by (simp add: form_ok_def)

lemma stream_ok_hold:
  assumes "stream_ok s" "length (cs_pending s) < maxPendingRequests" "form_ok form"
  shows "stream_ok (hold rid input form s)"
proof -
  let ?xs = "filter (\<lambda>(k, _). k \<noteq> rid) (cs_pending s)"
  have "stream_ok (s\<lparr>cs_pending := ?xs\<rparr>)" by (rule stream_ok_filter [OF assms(1)]) simp_all
  moreover have "length ?xs < maxPendingRequests" using assms(2) by (meson le_less_trans length_filter_le)
  ultimately show ?thesis using assms(3) by (fastforce simp: stream_ok_def hold_def sorted_wrt_append)
qed

lemma stream_ok_cancel: "stream_ok s \<Longrightarrow> cancel_all lib raw xs s = (r, s') \<Longrightarrow> stream_ok s'"
proof (induction xs arbitrary: s r s')
  case (Cons x xs)
  obtain rid req where x: "x = (rid, req)" by force
  obtain r2 s2 where c: "cancel_all lib raw xs (settle rid s) = (r2, s2)" by force
  show ?case using Cons.prems Cons.IH [OF stream_ok_settle [OF Cons.prems(1)] c] stream_ok_settle [OF Cons.prems(1)] c
    by (auto simp: x Let_def split: sum.splits)
qed simp

lemma stream_ok_control: "stream_ok s \<Longrightarrow> decode_control lib raw f s = (r, s') \<Longrightarrow> stream_ok s'"
  by (auto simp: decode_control_def Let_def split: option.splits if_splits intro!: stream_ok_hold buildForm_ok)

lemma stream_ok_decode_cancel: "stream_ok s \<Longrightarrow> decode_cancel lib raw f s = (r, s') \<Longrightarrow> stream_ok s'"
  by (auto simp: decode_cancel_def Let_def stream_ok_settle split: option.splits if_splits)

lemma stream_ok_result: "stream_ok s \<Longrightarrow> decode_result lib raw f s = (r, s') \<Longrightarrow> stream_ok s'"
proof -
  assume a: "stream_ok s" "decode_result lib raw f s = (r, s')"
  obtain q s1 where c: "cancel_all lib raw (sort_key (\<lambda>(_, req). pn_seq req) (cs_pending s)) s = (q, s1)" by force
  then have "s' = s1" using a(2) by (auto simp: decode_result_def split: sum.splits)
  then show ?thesis using stream_ok_cancel [OF a(1) c] by simp
qed

lemma claude_step_ok: "stream_ok s \<Longrightarrow> stream_ok (claude_step lib o' s)"
proof (cases o')
  case (Op_Decode raw)
  assume ok: "stream_ok s"
  obtain r s' where d: "claude_DecodeFrame lib raw s = (r, s')" by force
  show ?thesis
  proof (cases "cj_frame lib raw")
    case None
    then show ?thesis using ok Op_Decode by (simp add: claude_DecodeFrame_def)
  next
    case (Some f)
    consider "decode_control lib raw f s = (r, s')" | "decode_cancel lib raw f s = (r, s')" | "decode_result lib raw f s = (r, s')" | "stream_ok s'"
      using d Some ok by (auto simp: claude_DecodeFrame_def Let_def split: if_splits)
    then have "stream_ok s'"
      by cases (blast intro: stream_ok_control [OF ok] stream_ok_decode_cancel [OF ok] stream_ok_result [OF ok])+
    then show ?thesis using Op_Decode d by simp
  qed
next
  case (Op_Encode cmd)
  assume ok: "stream_ok s"
  show ?thesis
    using Op_Encode ok stream_ok_settle [OF ok]
    by (auto simp: claude_EncodeCommand_def encodePrompt_def encodePermissionResolve_def encodeFormResolve_def
        split: command_data.splits option.splits sum.splits if_splits)
qed

lemma claude_run_ok: "stream_ok (fold (claude_step lib) ops NewStream)"
  by (induction ops rule: rev_induct) (simp_all add: stream_ok_New claude_step_ok)








section \<open>Requests that the adapter drops\<close>

lemma utf8_encode_Nil: "utf8_encode rs = [] \<longleftrightarrow> rs = []"
  by (cases rs) simp_all

lemma utf8_runes_empty: "utf8_runes s = [] \<longleftrightarrow> s = []"
  by (subst utf8_runes.simps) (simp split: option.splits list.splits)

lemma add_detail_ok:
  assumes "length ds \<le> MaxDetails" "\<forall>d\<in>set ds. dt_Label d \<noteq> [] \<and> rune_count (dt_Label d) \<le> MaxDetailLabelLen \<and> rune_count (dt_Text d) \<le> MaxDetailTextLen"
    "add_detail l t k (ds, tr) = (ds', tr')"
  shows "length ds' \<le> MaxDetails \<and> (\<forall>d\<in>set ds'. dt_Label d \<noteq> [] \<and> rune_count (dt_Label d) \<le> MaxDetailLabelLen \<and> rune_count (dt_Text d) \<le> MaxDetailTextLen)"
proof (cases "length ds \<ge> MaxDetails")
  case True
  then show ?thesis using assms by (simp add: add_detail_def)
next
  case False
  let ?l = "if l = [] then emptyKey else l"
  let ?l2 = "if rune_count ?l > MaxDetailLabelLen then utf8_encode (take MaxDetailLabelLen (utf8_runes ?l)) else ?l"
  have ne: "?l \<noteq> []" by (simp add: emptyKey_def)
  have "\<forall>r\<in>set (take n (utf8_runes s)). scalar r" for n s using utf8_runes_scalar in_set_takeD by fast
  then have l2: "?l2 \<noteq> []" "rune_count ?l2 \<le> MaxDetailLabelLen"
    using ne by (auto simp: rune_count_encode utf8_encode_Nil utf8_runes_empty MaxDetailLabelLen_def)
  have "ds' = ds @ [\<lparr>dt_Label = ?l2, dt_Text = fst (ClampText t MaxDetailTextLen), dt_Kind = k\<rparr>]"
    using assms(3) False by (auto simp: add_detail_def Let_def split: prod.splits)
  then show ?thesis using assms(1,2) False l2 ClampText_count [of t MaxDetailTextLen] by auto
qed

lemma fold_details_ok:
  assumes "length ds \<le> MaxDetails" "\<forall>d\<in>set ds. dt_Label d \<noteq> [] \<and> rune_count (dt_Label d) \<le> MaxDetailLabelLen \<and> rune_count (dt_Text d) \<le> MaxDetailTextLen"
    "fold (\<lambda>x. add_detail (l x) (t x) (k x)) xs (ds, tr) = (ds', tr')"
  shows "length ds' \<le> MaxDetails \<and> (\<forall>d\<in>set ds'. dt_Label d \<noteq> [] \<and> rune_count (dt_Label d) \<le> MaxDetailLabelLen \<and> rune_count (dt_Text d) \<le> MaxDetailTextLen)"
  using assms
proof (induction xs arbitrary: ds tr)
  case (Cons x xs)
  obtain ds1 tr1 where a: "add_detail (l x) (t x) (k x) (ds, tr) = (ds1, tr1)" by force
  note o = add_detail_ok [OF Cons.prems(1,2) a]
  show ?case by (rule Cons.IH [OF _ _]) (use o a Cons.prems(3) in auto)
qed simp

text \<open>A request with an identifier, a name of the allowed length and an object as its input always becomes a valid request.\<close>

lemma buildPermission_valid:
  assumes "rid \<noteq> []" "name \<noteq> []" "rune_count name \<le> MaxToolNameLen" "is_object input"
  shows "Permission_Validate is_object (buildPermission clib rid callID name input title) = Inr ()"
proof -
  let ?p = "buildPermission clib rid callID name input title"
  define ms where "ms = (case cj_members clib input of None \<Rightarrow> [] | Some ms \<Rightarrow> ms)"
  obtain ds1 t1 where f: "fold (\<lambda>d. add_detail (dsp_label d) (valueText clib (member ms (dsp_key d))) (dsp_kind d)) (tool_specs name) ([], False) = (ds1, t1)"
    by force
  obtain ds2 t2 where g: "fold (\<lambda>k. add_detail k (valueText clib (member ms k)) DetailText)
      (sort (filter (\<lambda>k. k \<notin> dsp_key ` set (tool_specs name)) (map fst ms))) (ds1, t1) = (ds2, t2)" by force
  have p: "pr_Details ?p = ds2" "pr_RequestID ?p = rid" "pr_ToolName ?p = name" "pr_Input ?p = input"
    using f g by (simp_all add: buildPermission_def Let_def tool_specs_def ms_def)
  note d1 = fold_details_ok [OF _ _ f]
  have d2: "length ds2 \<le> MaxDetails \<and> (\<forall>d\<in>set ds2. dt_Label d \<noteq> [] \<and> rune_count (dt_Label d) \<le> MaxDetailLabelLen \<and> rune_count (dt_Text d) \<le> MaxDetailTextLen)"
    by (rule fold_details_ok [OF _ _ g]) (use d1 in simp_all)
  have sm: "\<exists>s. pr_Summary ?p = SummaryLine s MaxSummaryLen" by (auto simp: buildPermission_def Let_def split: option.splits)
  have "\<not> failed (eachR (\<lambda>d. if dt_Label d = [] \<or> rune_count (dt_Label d) > MaxDetailLabelLen \<or> rune_count (dt_Text d) > MaxDetailTextLen
                     then Inl ErrInvalidPermission else Inr ()) ds2)"
    using d2 by (induction ds2) auto
  then show ?thesis
    using assms sm d2 SummaryLine_ok [where m = MaxSummaryLen] by (auto simp: Permission_Validate_def p not_failed_iff MaxSummaryLen_def not_less)
qed

section \<open>The answers to questions\<close>

text \<open>What the answers say: exactly one text per question that has an answer which is not empty.\<close>

definition answers_of :: "form_field_pending list \<Rightarrow> (string \<times> form_value) list \<Rightarrow> (string \<times> string) list \<Rightarrow> bool" where
  "answers_of pfs answer ans \<longleftrightarrow> distinct (map fst ans) \<and>
     (\<forall>q t. map_of ans q = Some t \<longleftrightarrow> t \<noteq> [] \<and> (\<exists>f\<in>set pfs. ffp_question f = q \<and> (\<exists>v. (ffp_key f, v) \<in> set answer \<and> t = join '', '' (fv_Values v))))"

lemma map_of_replaced: "map_of (filter (\<lambda>(k, _). k \<noteq> i) xs @ [(i, v)]) j = (if j = i then Some v else map_of xs j)"
  by (simp add: map_of_filter_key map_add_def split: option.splits)

lemma answer_texts_spec:
  assumes "distinct (map ffp_key pfs)" "distinct (map ffp_question pfs)"
  shows "answer_texts pfs answer acc = Some ans \<Longrightarrow> answers_of pfs given acc \<Longrightarrow> distinct (map fst (given @ answer)) \<Longrightarrow> answers_of pfs (given @ answer) ans"
proof (induction answer arbitrary: acc given)
  case (Cons kv r)
  obtain k v where kv: "kv = (k, v)" by force
  let ?t = "join '', '' (fv_Values v)"
  obtain f where f: "map_of (rev (map (\<lambda>f. (ffp_key f, f)) pfs)) k = Some f" using Cons.prems(1) kv by (auto split: option.splits)
  have fk: "f \<in> set pfs" "ffp_key f = k" using map_of_SomeD [OF f] by auto
  have same: "g = f" if "g \<in> set pfs" "ffp_key g = ffp_key f \<or> ffp_question g = ffp_question f" for g
    using that fk(1) assms by (auto simp: distinct_map inj_on_def)
  let ?acc = "if ?t = [] then acc else filter (\<lambda>(q, _). q \<noteq> ffp_question f) acc @ [(ffp_question f, ?t)]"
  have rest: "answer_texts pfs r ?acc = Some ans" using Cons.prems(1) f kv by (auto simp: Let_def split: if_splits)
  have new: "(k, w) \<notin> set given" for w using Cons.prems(3) kv by force
  have "answers_of pfs (given @ [(k, v)]) ?acc"
    unfolding answers_of_def
  proof (intro conjI allI)
    show "distinct (map fst ?acc)" using Cons.prems(2) by (auto simp: answers_of_def distinct_map_filter)
    fix q t
    have old: "map_of acc q = Some t \<longleftrightarrow> t \<noteq> [] \<and> (\<exists>g\<in>set pfs. ffp_question g = q \<and> (\<exists>w. (ffp_key g, w) \<in> set given \<and> t = join '', '' (fv_Values w)))"
      using Cons.prems(2) unfolding answers_of_def by blast
    show "map_of ?acc q = Some t \<longleftrightarrow> t \<noteq> [] \<and>
        (\<exists>g\<in>set pfs. ffp_question g = q \<and> (\<exists>w. (ffp_key g, w) \<in> set (given @ [(k, v)]) \<and> t = join '', '' (fv_Values w)))"
    proof (cases "q = ffp_question f")
      case True
      then have "map_of acc q \<noteq> Some t" using old same new fk(2) by auto
      moreover have "map_of ?acc q = (if ?t = [] then map_of acc q else Some ?t)" using True by (simp add: map_of_replaced del: map_of_append)
      moreover have "(\<exists>g\<in>set pfs. ffp_question g = q \<and> (\<exists>w. (ffp_key g, w) \<in> set (given @ [(k, v)]) \<and> t = join '', '' (fv_Values w))) \<longleftrightarrow> t = ?t"
        using True same fk new by auto
      ultimately show ?thesis by auto
    next
      case False
      then have "map_of ?acc q = map_of acc q" by (simp add: map_of_replaced del: map_of_append)
      moreover have "(ffp_key g, w) \<in> set (given @ [(k, v)]) \<longleftrightarrow> (ffp_key g, w) \<in> set given" if "g \<in> set pfs" "ffp_question g = q" for g w
        using that False same [of g] fk(2) by auto
      ultimately show ?thesis using old by auto
    qed
  qed
  from Cons.IH [OF rest this] show ?case using Cons.prems(3) by (simp add: kv)
qed simp

lemma answersInput_spec:
  assumes "answersInput lib pfs input answer = Some out" "form_ok (Some pfs)" "distinct (map fst answer)"
  shows "\<exists>ms ans a. cj_members lib input = Some ms \<and> answers_of pfs answer ans \<and> cj_marshal lib (DAnswers ans) = Some a \<and>
    cj_marshal lib (DObject (filter (\<lambda>(k, _). \<not> equal_fold k ''answers'') ms @ [(''answers'', a)])) = Some out"
proof -
  obtain ans ms a where h: "answer_texts pfs answer [] = Some ans" "cj_members lib input = Some ms" "cj_marshal lib (DAnswers ans) = Some a"
    "cj_marshal lib (DObject (filter (\<lambda>(k, _). k \<noteq> ''answers'') (filter (\<lambda>(k, _). \<not> (k \<noteq> ''answers'' \<and> equal_fold k ''answers'')) ms) @ [(''answers'', a)])) = Some out"
    using assms by (auto simp: answersInput_def Let_def split: option.splits)
  have "filter (\<lambda>(k, _). k \<noteq> ''answers'') (filter (\<lambda>(k, _). \<not> (k \<noteq> ''answers'' \<and> equal_fold k ''answers'')) ms) = filter (\<lambda>(k, _). \<not> equal_fold k ''answers'') ms"
    unfolding filter_filter by (rule filter_cong) (auto simp: equal_fold_def)
  moreover have "answers_of pfs answer ans"
    using answer_texts_spec [OF _ _ h(1), of "[]"] assms(2,3) by (simp add: form_ok_def answers_of_def)
  ultimately show ?thesis using h by auto
qed

section \<open>An example\<close>

text \<open>A cage that asks for one command, and a text library that writes and reads that one request.\<close>

definition cx_frame :: "string \<Rightarrow> string \<Rightarrow> claude_frame" where
  "cx_frame typ rid =
     (let str = (\<lambda>s. \<lparr>le_V = s, le_Bad = False\<rparr>); flag = \<lparr>le_V = False, le_Bad = False\<rparr> in
      \<lparr>ff_Type = str typ, ff_Subtype = str [], ff_SessionID = str [], ff_Cwd = str [], ff_Model = str [], ff_Tools = \<lparr>le_V = [], le_Bad = False\<rparr>,
       ff_PermissionMode = str [], ff_IsAPIErrorMessage = flag, ff_Message = [], ff_RequestID = str rid, ff_Request = ''q'', ff_ToolName = str [],
       ff_ToolUseID = str [], ff_IsError = flag, ff_Result = str [], ff_APIErrorStatus = \<lparr>le_V = None, le_Bad = False\<rparr>, ff_TerminalReason = str [],
       ff_StopReason = str [], ff_TotalCostUSD = str ''0'',
       ff_Usage = \<lparr>le_V = \<lparr>us_Input = 1, us_Output = 1, us_CacheRead = 0, us_CacheCreation = 0\<rparr>, le_Bad = False\<rparr>,
       ff_ModelUsage = \<lparr>le_V = [], le_Bad = False\<rparr>\<rparr>)"

definition cx_lib0 :: claude_lib where
  "cx_lib0 = \<lparr>cj_frame = (\<lambda>raw. Some (if raw = ''ask'' then cx_frame ''control_request'' ''r'' else cx_frame ''result'' [])), cj_message = (\<lambda>_. None),
     cj_control = (\<lambda>_. Some \<lparr>cr_Subtype = \<lparr>le_V = ''can_use_tool'', le_Bad = False\<rparr>, cr_ToolUseID = \<lparr>le_V = ''t'', le_Bad = False\<rparr>,
        cr_ToolName = \<lparr>le_V = ''Bash'', le_Bad = False\<rparr>, cr_Input = ''{}'', cr_Description = \<lparr>le_V = [], le_Bad = False\<rparr>\<rparr>),
     cj_members = (\<lambda>_. Some [(''command'', ''ls'')]), cj_string = (\<lambda>_. None), cj_compact = (\<lambda>_. None), cj_questions = (\<lambda>_. None),
     cj_isJSONObject = (\<lambda>_. True), cj_marshal = (\<lambda>_. Some ''x''), cj_sha256 = (\<lambda>s. s)\<rparr>"

definition cx_perm :: permission_requested where
  "cx_perm = buildPermission cx_lib0 ''r'' ''t'' ''Bash'' ''{}'' []"

definition cx_lib :: claude_lib where
  "cx_lib = cx_lib0\<lparr>cj_marshal := (\<lambda>d. case d of DPermission p \<Rightarrow> if p = cx_perm then Some ''p'' else None | _ \<Rightarrow> Some ''x'')\<rparr>"

definition cx_chat :: chat_lib where
  "cx_chat = ex_lib\<lparr>cl_data_perm := (\<lambda>_. Some cx_perm), cl_event_perm := (\<lambda>_. Some (cx_perm\<lparr>pr_ContentHash := ''h''\<rparr>)),
     cl_marshal_perm := (\<lambda>p. if p\<lparr>pr_ContentHash := []\<rparr> = cx_perm then Some ''p'' else None)\<rparr>"

lemma cx_perm_fields:
  "pr_RequestID cx_perm = ''r''" "pr_ToolName cx_perm = ''Bash''" "pr_Input cx_perm = ''{}''" "pr_ContentHash cx_perm = []"
  "pr_Details cx_perm = [\<lparr>dt_Label = ''command'', dt_Text = ''ls'', dt_Kind = ''command''\<rparr>]"
proof -
  have v: "valueText cx_lib0 ''ls'' = ''ls''" by (simp add: valueText_def cx_lib0_def trim_space_def is_space_def)
  show "pr_RequestID cx_perm = ''r''" "pr_ToolName cx_perm = ''Bash''" "pr_Input cx_perm = ''{}''" "pr_ContentHash cx_perm = []"
    by (simp_all add: cx_perm_def buildPermission_def Let_def)
  have m: "cj_members cx_lib0 i = Some [(''command'', ''ls'')]" for i by (simp add: cx_lib0_def)
  show "pr_Details cx_perm = [\<lparr>dt_Label = ''command'', dt_Text = ''ls'', dt_Kind = ''command''\<rparr>]"
    by (simp add: cx_perm_def buildPermission_def Let_def knownTools_def dspec_def m member_def v add_detail_def ClampText_def MaxDetails_def
        MaxDetailLabelLen_def MaxDetailTextLen_def DetailCommand_def rune_count_def)
qed


lemma cx_build: "buildPermission cx_lib ''r'' ''t'' ''Bash'' ''{}'' [] = cx_perm"
proof -
  have m: "cj_string cx_lib = cj_string cx_lib0" "cj_compact cx_lib = cj_compact cx_lib0" "cj_members cx_lib = cj_members cx_lib0"
    by (simp_all add: cx_lib_def cx_lib0_def)
  have "valueText cx_lib = valueText cx_lib0" by (intro ext) (unfold valueText_def m, rule refl)
  then show ?thesis by (simp only: cx_perm_def buildPermission_def m)
qed

lemma cx_reads: "reads_as (=) cx_perm cx_perm"
  by (simp add: reads_as_def cx_perm_fields to_valid_ascii)

lemma cx_agrees: "json_agrees cx_lib cx_chat (=)"
  unfolding json_agrees_def chat_agrees_def
proof (intro conjI allI impI)
  show "transp ((=) :: string \<Rightarrow> string \<Rightarrow> bool)" by (simp add: transp_def)
  show "to_valid (le_V (ff_RequestID f)) = le_V (ff_RequestID f)" if "cj_frame cx_lib raw = Some f" for raw f
    using that by (auto simp: cx_lib_def cx_lib0_def cx_frame_def Let_def to_valid_ascii)
  show "reads_as (=) q p" if "cj_marshal cx_lib (DPermission p) = Some b" "cl_data_perm cx_chat b = Some q" for p b q
    using that cx_reads by (auto simp: cx_lib_def cx_chat_def split: if_splits)
  fix p d
  assume p: "cl_marshal_perm cx_chat p = Some d"
  then have c: "p\<lparr>pr_ContentHash := []\<rparr> = cx_perm" "d = ''p''" by (auto simp: cx_chat_def split: if_splits)
  then show "d \<noteq> []" by simp
  have r: "pr_RequestID p = ''r''" using arg_cong [OF c(1), of pr_RequestID] by (simp add: cx_perm_fields)
  fix e t
  show "cl_event_id cx_chat t = Some (to_valid (pr_RequestID p))" by (simp add: cx_chat_def ex_lib_def r to_valid_ascii)
  fix q
  assume "cl_event_perm cx_chat t = Some q"
  then have "q = cx_perm\<lparr>pr_ContentHash := ''h''\<rparr>" by (simp add: cx_chat_def)
  then have "reads_as (=) q (p\<lparr>pr_ContentHash := []\<rparr>)" using cx_reads c(1) by (simp add: reads_as_def)
  then show "reads_as (=) q p" by (simp add: reads_hash)
qed

definition cx_start :: "claude_stream conv" where
  "cx_start = NewConversation NewStream ''s'' (NewHub ex_hub_config) ''g'' True"

definition cx_run :: "conv_call list \<Rightarrow> claude_stream conv" where
  "cx_run calls = run_conv (Claude cx_lib) cx_chat ex_env calls cx_start"

lemma cx_sent:
  "cv_stream (cx_run [CSend ''hi'']) = NewStream\<lparr>cs_sentInit := True\<rparr> \<and> cv_seq (cx_run [CSend ''hi'']) = 1 \<and>
   cv_state (cx_run [CSend ''hi'']) = StateTurn \<and> \<not> cv_stopped (cx_run [CSend ''hi'']) \<and> cv_pending (cx_run [CSend ''hi'']) = [] \<and>
   cv_generation (cx_run [CSend ''hi'']) = ''g'' \<and> cv_requireHash (cx_run [CSend ''hi''])"
proof -
  let ?cmd = "\<lparr>cmd_V = Version, cmd_Type = CommandPrompt, cmd_Data = PromptText ''hi''\<rparr>"
  have e: "\<exists>raw env. EncodeCommand (Claude cx_lib) ?cmd NewStream = (Inr (raw, [env]), NewStream\<lparr>cs_sentInit := True\<rparr>) \<and> env_Type env = TypeTurnStarted"
    by (simp add: Claude_def claude_EncodeCommand_def encodePrompt_def line_of_def made_def ev_def cx_lib_def NewStream_def)
  then obtain raw env where e: "EncodeCommand (Claude cx_lib) ?cmd NewStream = (Inr (raw, [env]), NewStream\<lparr>cs_sentInit := True\<rparr>)"
    "env_Type env = TypeTurnStarted" by blast
  have f: "\<exists>ev. feed_events cx_chat ts session n [env] = Inr [ev]" for ts session n
    by (simp add: sealRequest_def e(2) v0_more_types cx_chat_def ex_lib_def marshalLine_def Let_def DefaultMaxEvent_def DefaultMaxLine_def)
  obtain ev where "feed_Encode (Claude cx_lib) cx_chat ex_env ?cmd cx_start = (Inr (raw, [ev]), cx_start\<lparr>cv_stream := NewStream\<lparr>cs_sentInit := True\<rparr>, cv_seq := 1\<rparr>)"
    using f [of "ce_now ex_env 0" "''s''" 0] e(1) by (auto simp: feed_Encode_def make_events_def cx_start_def NewConversation_def)
  then show ?thesis
    by (simp add: cx_run_def Send_def MaxMessageBytes_def ex_write) (simp add: cx_start_def NewConversation_def)
qed

definition cx_event :: event where
  "cx_event = \<lparr>ev_Seq = 1, ev_Type = TypePermissionRequested, ev_Durable = True, ev_JSON = ''j''\<rparr>"

definition cx_asked :: "claude_stream conv" where
  "cx_asked = cx_run [CSend ''hi'', CLine ''ask'']"

lemma cx_decode:
  "\<exists>env. claude_DecodeFrame cx_lib ''ask'' (NewStream\<lparr>cs_sentInit := True\<rparr>) =
     (Inr [env], \<lparr>cs_sawInit = False, cs_sentInit = True, cs_pending = [(''r'', \<lparr>pn_input = ''{}'', pn_seq = 1, pn_form = None\<rparr>)], cs_seen = [''r''], cs_nextSeq = 1\<rparr>) \<and>
   env_Type env = TypePermissionRequested \<and> env_Durable env"
proof -
  have v: "\<not> failed (Permission_Validate (cj_isJSONObject cx_lib) cx_perm)"
    using buildPermission_valid [of "''r''" "''Bash''" "cj_isJSONObject cx_lib" "''{}''" cx_lib "''t''" "[]", unfolded cx_build]
    by (simp add: rune_count_def MaxToolNameLen_def not_failed_iff cx_lib_def cx_lib0_def)
  have c: "cj_frame cx_lib ''ask'' = Some (cx_frame ''control_request'' ''r'')" "cj_sha256 cx_lib k = k" "cj_control cx_lib x = cj_control cx_lib0 x"
    "cj_marshal cx_lib (DPermission cx_perm) = Some ''p''" for k x by (simp_all add: cx_lib_def cx_lib0_def)
  have f: "le_V (ff_Type (cx_frame a b)) = a" "le_V (ff_RequestID (cx_frame a b)) = b" "\<not> le_Bad (ff_RequestID (cx_frame a b))" for a b
    by (simp_all add: cx_frame_def Let_def)
  have d: "decode_control cx_lib ''ask'' (cx_frame ''control_request'' ''r'') (NewStream\<lparr>cs_sentInit := True\<rparr>) =
      (one_event cx_lib ''ask'' TypePermissionRequested True (DPermission cx_perm), hold ''r'' ''{}'' None (NewStream\<lparr>cs_sentInit := True, cs_seen := [''r'']\<rparr>))"
    using v by (simp add: decode_control_def Let_def c(2,3) f cx_build cx_lib0_def isObject_def trim_space_def is_space_def NewStream_def askUserQuestion_def
        maxPendingRequests_def maxSeenRequests_def)
  show ?thesis
    by (simp add: claude_DecodeFrame_def c(1) f Let_def d one_event_def ev_def c(4)) (simp add: hold_def NewStream_def)
qed

lemma cx_feed:
  assumes "env_Type env = TypePermissionRequested" "env_Durable env"
  shows "feed_events cx_chat ts session 1 [env] = Inr [cx_event]"
proof -
  have v: "\<not> failed (Permission_Validate (cl_isJSONObject cx_chat) cx_perm)"
    using buildPermission_valid [of "''r''" "''Bash''" "cl_isJSONObject cx_chat" "''{}''" cx_lib "''t''" "[]", unfolded cx_build]
    by (simp add: rune_count_def MaxToolNameLen_def not_failed_iff cx_chat_def ex_lib_def)
  have m: "cl_data_perm cx_chat x = Some cx_perm" "cl_marshal_perm cx_chat (cx_perm\<lparr>pr_ContentHash := h\<rparr>) = Some ''p''" "cl_marshal cx_chat u = Some ''j''" for x h u
    using cx_perm_fields(4) by (simp_all add: cx_chat_def ex_lib_def)
  have "sealRequest cx_chat env = env\<lparr>env_Data := ''p''\<rparr>"
    using v assms by (simp add: sealRequest_def m marshalLine_def DefaultMaxEvent_def DefaultMaxLine_def)
  then show ?thesis using assms by (simp add: Let_def m marshalLine_def DefaultMaxEvent_def DefaultMaxLine_def cx_event_def)
qed

lemma cx_asked_fields:
  "cv_pending cx_asked = [(''r'', \<lparr>pi_ev = cx_event, pi_hash = ''h'', pi_form = None\<rparr>)]" "cv_generation cx_asked = ''g''" "cv_requireHash cx_asked"
  "cs_pending (cv_stream cx_asked) = [(''r'', \<lparr>pn_input = ''{}'', pn_seq = 1, pn_form = None\<rparr>)]"
proof -
  define c where "c = cx_run [CSend ''hi'']"
  note c = cx_sent [folded c_def]
  obtain env s where d: "claude_DecodeFrame cx_lib ''ask'' (NewStream\<lparr>cs_sentInit := True\<rparr>) = (Inr [env], s)" "env_Type env = TypePermissionRequested" "env_Durable env"
    "cs_pending s = [(''r'', \<lparr>pn_input = ''{}'', pn_seq = 1, pn_form = None\<rparr>)]" using cx_decode by auto
  let ?c1 = "c\<lparr>cv_stream := s, cv_seq := 2\<rparr>"
  have f: "feed_Decode (Claude cx_lib) cx_chat ex_env ''ask'' c = (Inr [cx_event], ?c1)"
    using c d(1) cx_feed [OF d(2,3)] by (simp add: feed_Decode_def make_events_def Claude_def)
  have r: "requestID cx_chat cx_event = Some ''r''" "holdRequest cx_chat cx_event = Some \<lparr>pi_ev = cx_event, pi_hash = ''h'', pi_form = None\<rparr>"
    by (simp_all add: requestID_def holdRequest_def cx_chat_def ex_lib_def cx_event_def)
  let ?acc = "\<lparr>la_publish = [], la_pin = [], la_unpin = [], la_rejects = [], la_completed = False\<rparr>"
  have t: "ev_Type cx_event = TypePermissionRequested" by (simp add: cx_event_def)
  have l: "line_event cx_chat cx_event (?acc, ?c1) = (?acc\<lparr>la_pin := [cx_event], la_publish := [cx_event]\<rparr>,
      ?c1\<lparr>cv_pending := [(''r'', \<lparr>pi_ev = cx_event, pi_hash = ''h'', pi_form = None\<rparr>)], cv_lastErr := []\<rparr>)"
    using c by (simp add: line_event_def pass_on_def t r MaxPendingRequests_def) (simp add: v0_types)
  have "cx_asked = snd (OnLine (Claude cx_lib) cx_chat ex_env ''ask'' c)" by (simp add: cx_asked_def cx_run_def c_def)
  then have asked: "cx_asked = hub_update ex_env [cx_event] [cx_event] []
      (?c1\<lparr>cv_pending := [(''r'', \<lparr>pi_ev = cx_event, pi_hash = ''h'', pi_form = None\<rparr>)], cv_lastErr := []\<rparr>)"
    using f l by (simp add: OnLine_def)
  then show "cv_pending cx_asked = [(''r'', \<lparr>pi_ev = cx_event, pi_hash = ''h'', pi_form = None\<rparr>)]" "cv_generation cx_asked = ''g''"
    "cv_requireHash cx_asked" "cs_pending (cv_stream cx_asked) = [(''r'', \<lparr>pn_input = ''{}'', pn_seq = 1, pn_form = None\<rparr>)]"
    unfolding asked using c d(4) by (simp_all add: hub_update_def)
qed

definition cx_answer :: permission_resolve where
  "cx_answer = \<lparr>ps_RequestID = ''r'', ps_Outcome = ''allow_once'', ps_ContentHash = ''h''\<rparr>"

definition cx_command :: command where
  "cx_command = \<lparr>cmd_V = Version, cmd_Type = CommandPermissionResolve, cmd_Data = PermissionAnswer ''r'' ''allow_once''\<rparr>"

lemma cx_allow:
  "\<exists>c'. do_conv (Claude cx_lib) cx_chat ex_env (CPermission ''g'' cx_answer) cx_asked = (None, c') \<and>
     cv_written c' = cv_written cx_asked @ [(cx_command, [CHR ''x'', CHR 0x0A])]"
proof -
  note a = cx_asked_fields
  have "\<exists>env s. EncodeCommand (Claude cx_lib) cx_command (cv_stream cx_asked) = (Inr ([CHR ''x'', CHR 0x0A], [env]), s) \<and> env_Type env = TypePermissionResolved"
    by (simp add: Claude_def claude_EncodeCommand_def cx_command_def CommandPermissionResolve_def CommandPrompt_def encodePermissionResolve_def a(4) AllowOnce_def
        answered_def line_of_def made_def ev_def cx_lib_def)
  then obtain env s where e: "EncodeCommand (Claude cx_lib) cx_command (cv_stream cx_asked) = (Inr ([CHR ''x'', CHR 0x0A], [env]), s)"
    "env_Type env = TypePermissionResolved" by blast
  have "\<exists>ev. feed_events cx_chat ts session n [env] = Inr [ev]" for ts session n
    by (simp add: sealRequest_def e(2) v0_types cx_chat_def ex_lib_def marshalLine_def Let_def DefaultMaxEvent_def DefaultMaxLine_def)
  then obtain ev where "feed_events cx_chat (ce_now ex_env (cv_seq cx_asked)) (cv_session cx_asked) (cv_seq cx_asked) [env] = Inr [ev]" by blast
  then have f: "feed_Encode (Claude cx_lib) cx_chat ex_env cx_command cx_asked =
      (Inr ([CHR ''x'', CHR 0x0A], [ev]), cx_asked\<lparr>cv_stream := s, cv_seq := cv_seq cx_asked + 1\<rparr>)"
    using e(1) by (simp add: feed_Encode_def make_events_def)
  have "resolve (Claude cx_lib) cx_chat ex_env ''r'' ''allow_once'' ''h'' cx_asked =
      writeResolveLocked (Claude cx_lib) cx_chat ex_env ''r'' \<lparr>pi_ev = cx_event, pi_hash = ''h'', pi_form = None\<rparr> cx_command cx_asked"
    using a by (simp add: resolve_def AllowOnce_def heldLocked_def verifyHash_def VerifyHash_def cx_command_def)
  then show ?thesis
    using a f by (simp add: ResolvePermissionIn_def cx_answer_def writeResolveLocked_def ex_write)
qed

section \<open>Properties\<close>

text \<open>
  C5: What the human allows is what the agent gets. In a conversation with Claude Code, whenever an answer allow_once is written to the
  agent, it carries an input that the human was shown: the human answered a published permission request with that identifier,
  naming the hash of its content (unless no hash is required), the published input is the same JSON value as the input in
  the line that is written, and unless the request is marked as cut, every key of that input was shown with its whole value.
\<close>

theorem approved_is_shown:
  assumes "\<not> hb_ended h" "json_agrees clib lib same" "c = run_conv (Claude clib) lib E calls (NewConversation NewStream session h g req)"
    "do_conv (Claude clib) lib E k c = (err, c')" "x \<in> set (drop (length (cv_written c)) (cv_written c'))"
    "cmd_Data (fst x) = PermissionAnswer rid ''allow_once''"
  shows "\<exists>r e p input b. k = CPermission g r \<and> e \<in> set (cv_published c) \<and> ev_Type e = ''permission.requested'' \<and> requestID lib e = Some rid \<and>
    cl_event_perm lib (ev_JSON e) = Some p \<and> (ps_ContentHash r = pr_ContentHash p \<or> ps_ContentHash r = [] \<and> \<not> req) \<and>
    cj_marshal clib (LAllow rid input) = Some b \<and> snd x = b @ [CHR 0x0A] \<and> same (pr_Input p) input \<and>
    (pr_DetailsTruncated p \<or> shown_fully clib input p)"
proof (rule allow_cases [OF assms(1,3-6)])
  fix r it
  assume a: "k = CPermission g r" "map_of (cv_pending c) rid = Some it" "pi_form it = None" "pi_hash it = ps_ContentHash r \<or> ps_ContentHash r = [] \<and> \<not> req"
    "writeResolveLocked (Claude clib) lib E rid it \<lparr>cmd_V = Version, cmd_Type = CommandPermissionResolve, cmd_Data = PermissionAnswer rid ''allow_once''\<rparr> c = (err, c')"
    "cv_written c' = cv_written c @ [x]"
  note inv = run_conv_inv [OF assms(1,3)]
  note pend = conv_inv_pending [OF inv(1) a(2)]
  obtain p where p: "ev_Type (pi_ev it) = TypePermissionRequested" "cl_event_perm lib (ev_JSON (pi_ev it)) = Some p" "pi_hash it = pr_ContentHash p"
    using hold_permission [OF pend(3) a(3)] by blast
  obtain q b where q: "map_of (cs_pending (cv_stream c)) rid = Some q" "cj_marshal clib (LAllow rid (pn_input q)) = Some b" "snd x = b @ [CHR 0x0A]"
    using answer_line [OF a(5) conv_inv_fields(1) [OF inv(1)] a(6)] encode_allow by metis
  let ?asked = "asked lib (claude_seen clib) claude_open (\<lambda>rid q. shows_input clib same rid (pn_input q)) (json_agrees clib lib same)"
  have "within ?asked (NewConversation NewStream session h g req) {}" by (simp add: within_def asked_def NewConversation_def)
  then have "?asked (cv_stream c) (set (cv_published c))"
    using claude.kept_by_calls [where clib = clib and lib = lib and same = same] assms(3) by (simp add: within_def)
  then have "shows_input clib same rid (pn_input q) p" using assms(2) pend p(1,2) q(1) unfolding asked_def claude_open_def by blast
  from shows_input_fully [OF this] show ?thesis
    using a pend p q by (intro exI [of _ r] exI [of _ "pi_ev it"] exI [of _ p] exI [of _ "pn_input q"] exI [of _ b]) (auto simp: TypePermissionRequested_def)
qed

theorem approved_is_shown_witness:
  "\<exists>e p. e \<in> set (cv_published cx_asked) \<and> cl_event_perm cx_chat (ev_JSON e) = Some p \<and> pr_ContentHash p = ''h'' \<and>
    (pr_DetailsTruncated p \<or> shown_fully cx_lib (pr_Input p) p)"
proof -
  obtain c' where c': "do_conv (Claude cx_lib) cx_chat ex_env (CPermission ''g'' cx_answer) cx_asked = (None, c')"
    "cv_written c' = cv_written cx_asked @ [(cx_command, [CHR ''x'', CHR 0x0A])]" using cx_allow by blast
  have mem: "(cx_command, [CHR ''x'', CHR 0x0A]) \<in> set (drop (length (cv_written cx_asked)) (cv_written c'))" by (simp add: c'(2))
  have run: "cx_asked = run_conv (Claude cx_lib) cx_chat ex_env [CSend ''hi'', CLine ''ask''] (NewConversation NewStream ''s'' (NewHub ex_hub_config) ''g'' True)"
    by (simp add: cx_asked_def cx_run_def cx_start_def)
  have d: "cmd_Data (fst (cx_command, [CHR ''x'', CHR 0x0A])) = PermissionAnswer ''r'' ''allow_once''" by (simp add: cx_command_def)
  from approved_is_shown [OF ex_New cx_agrees run c'(1) mem d] show ?thesis by (auto simp: cx_answer_def)
qed



text \<open>
  C13: The answers that the agent gets are the ones of the human. Whatever lines were read and commands written before, when the questions of
  Claude Code are answered (the answers being a map from keys to values), the line that is written carries the input it asked
  with, in which every key that reads as answers (in any case, also with the long s) is replaced by one object: it has an entry for every
  question to which the human gave an answer that is not empty, with the text of that answer, and no other entry. The form is then no longer
  open.
\<close>

theorem form_answer_input:
  assumes "s = fold (claude_step lib) ops NewStream" "distinct (map fst (fs_Answer r))" "fs_Outcome r = ''answered''"
    "claude_EncodeCommand lib \<lparr>cmd_V = v, cmd_Type = ''form.resolve'', cmd_Data = FormAnswer r\<rparr> s = (Inr (raw, envs), s')"
  shows "\<exists>q pfs ms ans a out b. map_of (cs_pending s) (fs_RequestID r) = Some q \<and> pn_form q = Some pfs \<and> cj_members lib (pn_input q) = Some ms \<and>
    (\<forall>qu t. map_of ans qu = Some t \<longleftrightarrow>
       t \<noteq> [] \<and> (\<exists>f\<in>set pfs. ffp_question f = qu \<and> (\<exists>x. map_of (fs_Answer r) (ffp_key f) = Some x \<and> t = join '', '' (fv_Values x)))) \<and>
    distinct (map fst ans) \<and> cj_marshal lib (DAnswers ans) = Some a \<and>
    cj_marshal lib (DObject (filter (\<lambda>(k, _). \<not> equal_fold k ''answers'') ms @ [(''answers'', a)])) = Some out \<and>
    cj_marshal lib (LAllow (fs_RequestID r) out) = Some b \<and> raw = b @ [CHR 0x0A] \<and> map_of (cs_pending s') (fs_RequestID r) = None"
proof -
  obtain q pfs out b where h: "map_of (cs_pending s) (fs_RequestID r) = Some q" "pn_form q = Some pfs" "answersInput lib pfs (pn_input q) (fs_Answer r) = Some out"
    "cj_marshal lib (LAllow (fs_RequestID r) out) = Some b" "raw = b @ [CHR 0x0A]" "s' = settle (fs_RequestID r) s"
    using assms(3,4) by (auto simp: claude_EncodeCommand_def CommandFormResolve_def CommandPermissionResolve_def CommandPrompt_def encodeFormResolve_def answered_def
        line_of_def FormAnswered_def FormCancelled_def split: option.splits if_splits sum.splits)
  have "map_of (cs_pending s') (fs_RequestID r) = None" by (simp add: h(6) settle_def map_of_filter_key)
  moreover have "form_ok (pn_form q)" using claude_run_ok [of lib ops] assms(1) map_of_SomeD [OF h(1)] by (auto simp: stream_ok_def)
  then obtain ms ans a where m: "cj_members lib (pn_input q) = Some ms" "answers_of pfs (fs_Answer r) ans" "cj_marshal lib (DAnswers ans) = Some a"
    "cj_marshal lib (DObject (filter (\<lambda>(k, _). \<not> equal_fold k ''answers'') ms @ [(''answers'', a)])) = Some out"
    using answersInput_spec [OF h(3) _ assms(2)] h(2) by auto
  ultimately show ?thesis using h m unfolding answers_of_def map_of_eq_Some_iff [OF assms(2)]
    by (intro exI [of _ q] exI [of _ pfs] exI [of _ ms] exI [of _ ans] exI [of _ a] exI [of _ out] exI [of _ b]) simp
qed

definition cx_lib1 :: claude_lib where
  "cx_lib1 = cx_lib0\<lparr>cj_control := (\<lambda>_. Some \<lparr>cr_Subtype = \<lparr>le_V = ''can_use_tool'', le_Bad = False\<rparr>, cr_ToolUseID = \<lparr>le_V = ''t'', le_Bad = False\<rparr>,
       cr_ToolName = \<lparr>le_V = ''AskUserQuestion'', le_Bad = False\<rparr>, cr_Input = ''{}'', cr_Description = \<lparr>le_V = [], le_Bad = False\<rparr>\<rparr>),
     cj_questions := (\<lambda>_. Some [\<lparr>qn_Question = ''Which?'', qn_Header = [], qn_MultiSelect = False,
       qn_Options = [\<lparr>qo_Label = ''this'', qo_Description = []\<rparr>]\<rparr>])\<rparr>"

definition cx_form_stream :: claude_stream where
  "cx_form_stream = fold (claude_step cx_lib1) [Op_Decode ''ask''] NewStream"

definition cx_form_answer :: form_resolve where
  "cx_form_answer = \<lparr>fs_RequestID = ''r'', fs_Outcome = ''answered'', fs_Answer = [(''q0'', \<lparr>fv_Multi = False, fv_Values = [''this'']\<rparr>)], fs_ContentHash = []\<rparr>"

lemma cx_form_pending:
  "cs_pending cx_form_stream = [(''r'', \<lparr>pn_input = ''{}'', pn_seq = 1, pn_form = Some [\<lparr>ffp_key = ''q0'', ffp_question = ''Which?'', ffp_multi = False\<rparr>]\<rparr>)]"
proof -
  have f: "le_V (ff_Type (cx_frame a b)) = a" "le_V (ff_RequestID (cx_frame a b)) = b" "\<not> le_Bad (ff_RequestID (cx_frame a b))" for a b
    by (simp_all add: cx_frame_def Let_def)
  have c: "cj_frame cx_lib1 ''ask'' = Some (cx_frame ''control_request'' ''r'')" "cj_sha256 cx_lib1 k = k" for k by (simp_all add: cx_lib1_def cx_lib0_def)
  have q: "cj_control cx_lib1 x = Some \<lparr>cr_Subtype = \<lparr>le_V = ''can_use_tool'', le_Bad = False\<rparr>, cr_ToolUseID = \<lparr>le_V = ''t'', le_Bad = False\<rparr>,
        cr_ToolName = \<lparr>le_V = ''AskUserQuestion'', le_Bad = False\<rparr>, cr_Input = ''{}'', cr_Description = \<lparr>le_V = [], le_Bad = False\<rparr>\<rparr>" for x
    by (simp add: cx_lib1_def)
  have z: "format_uint 0 = ''0''" by code_simp
  have b: "\<exists>form. buildForm cx_lib1 ''r'' ''t'' ''{}'' = Some (form, [\<lparr>ffp_key = ''q0'', ffp_question = ''Which?'', ffp_multi = False\<rparr>])"
    by (simp add: buildForm_def cx_lib1_def question_field_def clampShown_def rune_count_def Form_Validate_def z Let_def FormKindQuestion_def
        MaxFormKindLen_def MaxFormTitleLen_def MaxFormFields_def MaxFormDescription_def MaxFormOptions_def MaxFormKeyLen_def MaxFormLabelLen_def
        MaxFormValueLen_def check_field_type_def FieldSelect_def)
  then obtain form where b: "buildForm cx_lib1 ''r'' ''t'' ''{}'' = Some (form, [\<lparr>ffp_key = ''q0'', ffp_question = ''Which?'', ffp_multi = False\<rparr>])" by blast
  show ?thesis
    by (simp add: cx_form_stream_def claude_DecodeFrame_def decode_control_def Let_def c f q b isObject_def trim_space_def is_space_def NewStream_def askUserQuestion_def
        maxPendingRequests_def maxSeenRequests_def hold_def)
qed

theorem form_answer_input_witness:
  "\<exists>ans. map_of ans ''Which?'' = Some ''this'' \<and> distinct (map fst ans) \<and> cj_marshal cx_lib1 (DAnswers ans) = Some ''x''"
proof -
  let ?cmd = "\<lparr>cmd_V = 0, cmd_Type = ''form.resolve'', cmd_Data = FormAnswer cx_form_answer\<rparr>"
  have m: "cj_marshal cx_lib1 d = Some ''x''" "cj_members cx_lib1 i = Some [(''command'', ''ls'')]" for d i by (simp_all add: cx_lib1_def cx_lib0_def)
  have "\<exists>raw envs s'. claude_EncodeCommand cx_lib1 ?cmd cx_form_stream = (Inr (raw, envs), s')"
    by (simp add: claude_EncodeCommand_def CommandFormResolve_def CommandPermissionResolve_def CommandPrompt_def encodeFormResolve_def answered_def
        line_of_def made_def ev_def FormAnswered_def answersInput_def m cx_form_pending cx_form_answer_def rune_count_def MaxFormAnswerText_def
        MaxFormAnswerValues_def MaxFormOptions_def Let_def)
  then obtain raw envs s' where e: "claude_EncodeCommand cx_lib1 ?cmd cx_form_stream = (Inr (raw, envs), s')" by blast
  have o: "fs_Outcome cx_form_answer = ''answered''" "distinct (map fst (fs_Answer cx_form_answer))" by (simp_all add: cx_form_answer_def)
  from form_answer_input [OF cx_form_stream_def o(2,1) e] show ?thesis
    by (simp add: cx_form_pending cx_form_answer_def m) blast
qed

end
